(* ===== verification/Prelude.thy ===== *)
theory Prelude
  imports "HOL-Library.Word" "HOL-Library.Monad_Syntax" "HOL-Library.Multiset"
begin

text \<open>
  What every component of the development shares: names for the machine types of the Go
  source, the wrap-around of Go's signed 64-bit \<open>int\<close> and its truncating division, the byte
  orders of \<open>encoding/binary\<close>, the part of pion's RTP packet the source reads and writes, and
  the generic facts about lists, options and words the component proofs rest on.
\<close>

unbundle bit_operations_syntax

named_theorems go_int \<open>wrap-around arithmetic of Go's signed integers\<close>
named_theorems bytes_rt \<open>round trips of the byte orders\<close>

type_synonym byte = "8 word"
type_synonym uint8 = "8 word"
type_synonym uint16 = "16 word"
type_synonym uint32 = "32 word"
type_synonym uint64 = "64 word"

text \<open>Times and durations are nanosecond counts, as \<open>time.Duration\<close> is; a zero \<open>time.Time\<close>
  is \<open>None\<close> where the source tests \<open>IsZero\<close>.\<close>

type_synonym time = int
type_synonym duration = int

abbreviation Microsecond :: duration where "Microsecond \<equiv> 1000"
abbreviation Millisecond :: duration where "Millisecond \<equiv> 1000000"
abbreviation Second :: duration where "Second \<equiv> 1000000000"

section \<open>Go's signed integers\<close>

text \<open>\<open>int\<close>, \<open>int64\<close> and \<open>time.Duration\<close> are 64 bit two's complement; \<open>int32\<close> and \<open>int16\<close>
  likewise at their width. A conversion and every arithmetic result is reduced to the width.\<close>

definition i64 :: "int \<Rightarrow> int" where
  "i64 x = signed_take_bit 63 x"

definition i32 :: "int \<Rightarrow> int" where
  "i32 x = signed_take_bit 31 x"

definition i16 :: "int \<Rightarrow> int" where
  "i16 x = signed_take_bit 15 x"

definition in_i64 :: "int \<Rightarrow> bool" where
  "in_i64 x \<longleftrightarrow> - (2 ^ 63) \<le> x \<and> x < 2 ^ 63"

lemma i64_id [go_int]: "in_i64 x \<Longrightarrow> i64 x = x"
  by (simp add: i64_def in_i64_def signed_take_bit_int_eq_self)

lemma i64_range: "in_i64 (i64 x)"
  using signed_take_bit_int_greater_eq_minus_exp [of 63 x] signed_take_bit_int_less_exp [of 63 x]
  by (simp add: i64_def in_i64_def)

lemma i32_range: "- (2 ^ 31) \<le> i32 x" "i32 x < 2 ^ 31"
  using signed_take_bit_int_greater_eq_minus_exp [of 31 x] signed_take_bit_int_less_exp [of 31 x]
  by (simp_all add: i32_def)

lemma i32_id [go_int]: "- (2 ^ 31) \<le> x \<Longrightarrow> x < 2 ^ 31 \<Longrightarrow> i32 x = x"
  by (simp add: i32_def signed_take_bit_int_eq_self)

lemma i16_range: "- (2 ^ 15) \<le> i16 x" "i16 x < 2 ^ 15"
  using signed_take_bit_int_greater_eq_minus_exp [of 15 x] signed_take_bit_int_less_exp [of 15 x]
  by (simp_all add: i16_def)

lemma i16_id [go_int]: "- (2 ^ 15) \<le> x \<Longrightarrow> x < 2 ^ 15 \<Longrightarrow> i16 x = x"
  by (simp add: i16_def signed_take_bit_int_eq_self)

text \<open>Go divides towards zero; a zero divisor panics, so the model divides only where the
  source has excluded it.\<close>

definition tdiv :: "int \<Rightarrow> int \<Rightarrow> int" where
  "tdiv a b = sgn a * sgn b * (\<bar>a\<bar> div \<bar>b\<bar>)"

definition tmod :: "int \<Rightarrow> int \<Rightarrow> int" where
  "tmod a b = a - b * tdiv a b"

lemma abs_tmod: "\<bar>tmod a b\<bar> = \<bar>a\<bar> mod \<bar>b\<bar>"
proof -
  have "b * (sgn a * sgn b * (\<bar>a\<bar> div \<bar>b\<bar>)) = sgn a * (\<bar>b\<bar> * (\<bar>a\<bar> div \<bar>b\<bar>))"
    by (simp add: abs_sgn[of b] mult.commute mult.left_commute)
  moreover have "a = sgn a * \<bar>a\<bar>" by (simp add: sgn_mult_abs)
  ultimately have "tmod a b = sgn a * (\<bar>a\<bar> - \<bar>b\<bar> * (\<bar>a\<bar> div \<bar>b\<bar>))"
    unfolding tmod_def tdiv_def by (metis right_diff_distrib)
  then have "tmod a b = sgn a * (\<bar>a\<bar> mod \<bar>b\<bar>)" by (simp add: minus_mult_div_eq_mod)
  moreover have "0 \<le> \<bar>a\<bar> mod \<bar>b\<bar>" by (cases "b = 0") simp_all
  ultimately show ?thesis by (cases "a = 0") (simp_all add: abs_mult)
qed

lemma tdiv_nonneg [go_int]: "0 \<le> a \<Longrightarrow> 0 < b \<Longrightarrow> tdiv a b = a div b"
  by (cases "a = 0") (auto simp: tdiv_def sgn_if)

lemma tmod_nonneg [go_int]: "0 \<le> a \<Longrightarrow> 0 < b \<Longrightarrow> tmod a b = a mod b"
  by (simp add: tmod_def tdiv_nonneg minus_mult_div_eq_mod)

section \<open>Byte orders\<close>

text \<open>\<open>binary.BigEndian\<close> and \<open>binary.LittleEndian\<close>: \<open>Uint16\<close>, \<open>Uint32\<close> and their \<open>Put\<close> and
  \<open>Append\<close> forms. The readers take the bytes the source has already bounds-checked.\<close>

definition be_uint16 :: "byte \<Rightarrow> byte \<Rightarrow> uint16" where
  "be_uint16 b0 b1 = push_bit 8 (ucast b0) OR ucast b1"

definition be_bytes16 :: "uint16 \<Rightarrow> byte list" where
  "be_bytes16 w = [ucast (drop_bit 8 w), ucast w]"

definition be_uint32 :: "byte \<Rightarrow> byte \<Rightarrow> byte \<Rightarrow> byte \<Rightarrow> uint32" where
  "be_uint32 b0 b1 b2 b3 =
     push_bit 24 (ucast b0) OR push_bit 16 (ucast b1) OR push_bit 8 (ucast b2) OR ucast b3"

definition be_bytes32 :: "uint32 \<Rightarrow> byte list" where
  "be_bytes32 w = [ucast (drop_bit 24 w), ucast (drop_bit 16 w), ucast (drop_bit 8 w), ucast w]"

definition le_uint16 :: "byte \<Rightarrow> byte \<Rightarrow> uint16" where
  "le_uint16 b0 b1 = be_uint16 b1 b0"

definition le_bytes16 :: "uint16 \<Rightarrow> byte list" where
  "le_bytes16 w = rev (be_bytes16 w)"

definition le_uint32 :: "byte \<Rightarrow> byte \<Rightarrow> byte \<Rightarrow> byte \<Rightarrow> uint32" where
  "le_uint32 b0 b1 b2 b3 = be_uint32 b3 b2 b1 b0"

definition le_bytes32 :: "uint32 \<Rightarrow> byte list" where
  "le_bytes32 w = rev (be_bytes32 w)"

lemma length_bytes [simp]:
  "length (be_bytes16 h) = 2" "length (be_bytes32 w) = 4"
  "length (le_bytes16 h) = 2" "length (le_bytes32 w) = 4"
  by (simp_all add: be_bytes16_def be_bytes32_def le_bytes16_def le_bytes32_def)

lemma be_uint16_bytes [bytes_rt]:
  "be_uint16 (ucast (drop_bit 8 w)) (ucast w) = w"
  by (rule bit_word_eqI) (auto simp: be_uint16_def bit_simps)

lemma be_uint32_bytes [bytes_rt]:
  "be_uint32 (ucast (drop_bit 24 w)) (ucast (drop_bit 16 w)) (ucast (drop_bit 8 w)) (ucast w) = w"
proof (rule bit_word_eqI)
  fix n assume "n < LENGTH(32)"
  then consider "n < 8" | "8 \<le> n" "n < 16" | "16 \<le> n" "n < 24" | "24 \<le> n" "n < 32"
    by fastforce
  then show "bit (be_uint32 (ucast (drop_bit 24 w)) (ucast (drop_bit 16 w))
                    (ucast (drop_bit 8 w)) (ucast w)) n \<longleftrightarrow> bit w n"
    by cases (auto simp: be_uint32_def bit_simps)
qed

lemma be_bytes16_uint [bytes_rt]: "be_bytes16 (be_uint16 b0 b1) = [b0, b1]"
  by (auto simp: be_uint16_def be_bytes16_def bit_simps bit_eq_iff dest: bit_imp_possible_bit)

lemma be_bytes32_uint [bytes_rt]: "be_bytes32 (be_uint32 b0 b1 b2 b3) = [b0, b1, b2, b3]"
  by (auto simp: be_uint32_def be_bytes32_def bit_simps bit_eq_iff dest: bit_imp_possible_bit)

lemma le_bytes_uint [bytes_rt]:
  "le_bytes16 (le_uint16 b0 b1) = [b0, b1]" "le_bytes32 (le_uint32 b0 b1 b2 b3) = [b0, b1, b2, b3]"
  by (simp_all add: le_bytes16_def le_uint16_def le_bytes32_def le_uint32_def bytes_rt)

lemma le_uint16_bytes [bytes_rt]:
  "le_uint16 (ucast w) (ucast (drop_bit 8 w)) = w"
  by (simp add: le_uint16_def be_uint16_bytes)

lemma le_uint32_bytes [bytes_rt]:
  "le_uint32 (ucast w) (ucast (drop_bit 8 w)) (ucast (drop_bit 16 w)) (ucast (drop_bit 24 w)) = w"
  by (simp add: le_uint32_def be_uint32_bytes)

section \<open>RTP packets\<close>

text \<open>The fields of pion's \<open>rtp.Header\<close> and \<open>rtp.Packet\<close> that the source reads or writes.\<close>

record rtp_header =
  Padding :: bool
  Marker :: bool
  PayloadType :: uint8
  SequenceNumber :: uint16
  Timestamp :: uint32
  SSRC :: uint32
  PaddingSize :: uint8

record rtp_packet =
  Header :: rtp_header
  Payload :: "byte list"

section \<open>Interfaces\<close>

text \<open>A codec: what \<open>encode\<close> writes, \<open>decode\<close> reads back. Its clients get injectivity on the
  valid values, the round trip of whole sequences, and that transcoding a second time changes
  nothing.\<close>

locale codec =
  fixes encode :: "'a \<Rightarrow> 'b"
    and decode :: "'b \<Rightarrow> 'a option"
    and valid :: "'a \<Rightarrow> bool"
  assumes decode_encode: "valid x \<Longrightarrow> decode (encode x) = Some x"
begin

lemma encode_inj: "inj_on encode {x. valid x}"
  by (rule inj_onI) (metis decode_encode mem_Collect_eq option.inject)

lemma decode_encode_all: "list_all valid xs \<Longrightarrow> map (the \<circ> decode \<circ> encode) xs = xs"
  by (induction xs) (simp_all add: decode_encode)

lemma transcode_stable: "valid x \<Longrightarrow> map_option encode (decode (encode x)) = Some (encode x)"
  by (simp add: decode_encode)

end

text \<open>A filter that hands every key out at most once: \<open>mark\<close> answers whether the key is new,
  \<open>handed\<close> is the set of keys it remembers, and the contract holds for the keys of \<open>dom\<close> in the
  states of \<open>inv\<close>.\<close>

locale once_filter =
  fixes mark :: "'s \<Rightarrow> 'k \<Rightarrow> bool \<times> 's"
    and handed :: "'s \<Rightarrow> 'k set"
    and inv :: "'s \<Rightarrow> bool"
    and dom :: "'k set"
  assumes mark_answer: "inv s \<Longrightarrow> k \<in> dom \<Longrightarrow> fst (mark s k) \<longleftrightarrow> k \<notin> handed s"
    and mark_handed: "inv s \<Longrightarrow> k \<in> dom \<Longrightarrow> k' \<in> dom \<Longrightarrow>
      k' \<in> handed (snd (mark s k)) \<longleftrightarrow> k' = k \<or> k' \<in> handed s"
    and mark_inv: "inv s \<Longrightarrow> k \<in> dom \<Longrightarrow> inv (snd (mark s k))"
begin

definition hands_out :: "'s \<Rightarrow> 'k list \<Rightarrow> 's \<Rightarrow> bool" where
  "hands_out s ks s' \<longleftrightarrow> distinct ks \<and> set ks \<subseteq> dom \<and> set ks \<inter> handed s = {} \<and> inv s' \<and>
     (\<forall>k \<in> dom. k \<in> handed s' \<longleftrightarrow> k \<in> set ks \<or> k \<in> handed s)"

lemma hands_out_nil: "inv s \<Longrightarrow> hands_out s [] s"
  by (simp add: hands_out_def)

lemma hands_out_inv: "hands_out s ks s' \<Longrightarrow> inv s'"
  by (simp add: hands_out_def)

lemma hands_out_distinct: "hands_out s ks s' \<Longrightarrow> distinct ks"
  by (simp add: hands_out_def)

lemma hands_out_fresh: "hands_out s ks s' \<Longrightarrow> k \<in> handed s \<Longrightarrow> k \<notin> set ks"
  by (auto simp: hands_out_def)

lemma hands_out_mark:
  "inv s \<Longrightarrow> k \<in> dom \<Longrightarrow> hands_out s (if fst (mark s k) then [k] else []) (snd (mark s k))"
  by (auto simp: hands_out_def mark_answer mark_handed mark_inv)

lemma hands_out_trans:
  "hands_out s ks s' \<Longrightarrow> hands_out s' ks' s'' \<Longrightarrow> hands_out s (ks @ ks') s''"
  by (auto simp: hands_out_def)

lemma hands_out_swap: "hands_out s (ks @ ks') s' \<Longrightarrow> hands_out s (ks' @ ks) s'"
  by (auto simp: hands_out_def)

end

text \<open>A machine whose steps keep an invariant. Its clients read the invariant, and what follows
  from it, off every reachable state; two machines that run side by side keep both.\<close>

locale invariant_machine =
  fixes init :: "'s \<Rightarrow> bool"
    and step :: "'s \<Rightarrow> 's \<Rightarrow> bool"
    and inv :: "'s \<Rightarrow> bool"
  assumes init_inv: "init s \<Longrightarrow> inv s"
    and step_inv: "step s s' \<Longrightarrow> inv s \<Longrightarrow> inv s'"
begin

lemma run_inv: "step\<^sup>*\<^sup>* s s' \<Longrightarrow> inv s \<Longrightarrow> inv s'"
  by (induction rule: rtranclp_induct) (auto intro: step_inv)

lemma reach_inv: "init s \<Longrightarrow> step\<^sup>*\<^sup>* s s' \<Longrightarrow> inv s'"
  using init_inv run_inv by blast

lemma reach_weaken: "init s \<Longrightarrow> step\<^sup>*\<^sup>* s s' \<Longrightarrow> (\<And>t. inv t \<Longrightarrow> P t) \<Longrightarrow> P s'"
  using reach_inv by blast

end

section \<open>Words\<close>

lemma small_word_bit:
  fixes x :: "'a::len word"
  assumes "uint x < 2 ^ n" "n \<le> k"
  shows "\<not> bit x k"
  using assms mask_eq_iff [of x n] by (metis bit_and_iff bit_mask_iff not_le)

lemma mod_sum_ge:
  fixes a j :: nat
  assumes "a < 2 ^ 15" "j < 2 ^ 16" "a \<le> (a + j) mod 2 ^ 16"
  shows "j = (a + j) mod 2 ^ 16 - a"
  using assms by (simp add: mod_if split: if_splits)

section \<open>Lists\<close>

lemma take_drop_append [simp]:
  "take (length xs) (xs @ ys) = xs" "drop (length xs) (xs @ ys) = ys"
  by simp_all

lemma int_le_div_iff: "0 < (b::int) \<Longrightarrow> c \<le> a div b \<longleftrightarrow> c * b \<le> a"
  using pos_imp_zdiv_nonneg_iff[of b "a - c * b"] div_mult_self1[of b a "- c"] by simp

lemma int_div_less_iff: "0 < (b::int) \<Longrightarrow> a div b < c \<longleftrightarrow> a < c * b"
  using int_le_div_iff[of b c a] by linarith

lemma diff_mult_div: "0 < (m::nat) \<Longrightarrow> (n - D * m) div m = n div m - D"
proof (cases "D * m \<le> n")
  case True
  assume "0 < m"
  from True obtain r where "n = D * m + r" by (metis le_add_diff_inverse)
  with \<open>0 < m\<close> show ?thesis by simp
next
  case False
  assume "0 < m"
  with False have "n div m < D" by (simp add: div_less_iff_less_mult)
  with False show ?thesis by simp
qed

lemma take_concat_blocks:
  "(\<And>x. length (f x) = k) \<Longrightarrow> take (n * k) (concat (map f xs)) = concat (map f (take n xs))"
proof (induction xs arbitrary: n)
  case (Cons x xs)
  then show ?case by (cases n) auto
qed simp

lemma drop_concat_blocks:
  "(\<And>x. length (f x) = k) \<Longrightarrow> drop (n * k) (concat (map f xs)) = concat (map f (drop n xs))"
proof (induction xs arbitrary: n)
  case (Cons x xs)
  then show ?case by (cases n) auto
qed simp

lemma length_concat_blocks: "(\<And>x. length (f x) = k) \<Longrightarrow> length (concat (map f xs)) = length xs * k"
  by (induction xs) auto

lemma concat_replicate_blocks: "concat (replicate n (replicate k x)) = replicate (n * k) x"
  by (induction n) (auto simp: replicate_add)

lemma nth_update_if: "xs[a := v] ! i = (if a = i \<and> i < length xs then v else xs ! i)"
  by (cases "a < length xs") (auto simp: nth_list_update list_update_beyond)

lemma sorted_wrt_drop: "sorted_wrt P xs \<Longrightarrow> sorted_wrt P (drop n xs)"
  by (metis append_take_drop_id sorted_wrt_append)

section \<open>Decimal text\<close>

text \<open>\<open>strconv.FormatInt\<close> in base ten.\<close>

function dec_nat :: "nat \<Rightarrow> string" where
  "dec_nat n = (if n < 10 then [char_of (48 + n)] else dec_nat (n div 10) @ [char_of (48 + n mod 10)])"
  by pat_completeness auto
termination by (relation "measure id") auto

declare dec_nat.simps [simp del]

definition FormatInt :: "int \<Rightarrow> string" where
  "FormatInt i = (if i < 0 then CHR ''-'' # dec_nat (nat (- i)) else dec_nat (nat i))"

end
