(* ===== verification/Support.thy ===== *)
theory Support
  imports Prelude
begin

text \<open>
  Small packages the rest stands on: random identifiers (\<open>internal/xrand\<close>), the value that is computed once
  (\<open>internal/atomicx\<close>) and the logger of pion's DTLS stack (\<open>pc/dtls_logger.go\<close>).
\<close>

section \<open>Random identifiers\<close>

definition alphabet :: string where
  "alphabet = ''abcdefghijklmnopqrstuvwxyzABCDEFGHIJKLMNOPQRSTUVWXYZ0123456789''"

definition sample_char :: "byte \<Rightarrow> char option" where
  "sample_char b = (let idx = unat (b AND 0x3f) in if idx \<ge> length alphabet then None else Some (alphabet ! idx))"

text \<open>The bytes of one buffer; the loop stops when the text is long enough.\<close>

fun take_samples :: "nat \<Rightarrow> byte list \<Rightarrow> string \<Rightarrow> string" where
  "take_samples n [] out = out"
| "take_samples n (b # bs) out =
    (case sample_char b of
       None \<Rightarrow> take_samples n bs out
     | Some c \<Rightarrow> (if length (out @ [c]) = n then out @ [c] else take_samples n bs (out @ [c])))"

text \<open>\<open>reads k\<close> is what the \<open>k\<close>-th read of random bytes gives, \<open>None\<close> an error, which panics: the inner \<open>None\<close>. Not returning is the
  outer \<open>None\<close>.\<close>

partial_function (option) random_loop :: "(nat \<Rightarrow> byte list option) \<Rightarrow> nat \<Rightarrow> nat \<Rightarrow> string \<Rightarrow> string option option" where
  "random_loop reads n k out =
    (if length out < n
     then (case reads k of None \<Rightarrow> Some None | Some buf \<Rightarrow> random_loop reads n (k + 1) (take_samples n buf out))
     else Some (Some out))"

definition NewRandom :: "(nat \<Rightarrow> byte list option) \<Rightarrow> int \<Rightarrow> string option option" where
  "NewRandom reads n = (if n \<le> 0 then Some (Some []) else random_loop reads (nat n) 0 [])"

definition buffer_size :: "int \<Rightarrow> nat" where
  "buffer_size n = nat (n + n div 2 + 8)"

lemma alphabet_length [simp]: "length alphabet = 62"
  by (simp add: alphabet_def)

lemma alphabet_distinct: "distinct alphabet"
  by (simp add: alphabet_def)

lemma sample_char_alphabet: "sample_char b = Some c \<Longrightarrow> c \<in> set alphabet"
  by (auto simp: sample_char_def Let_def split: if_splits)

lemma take_samples_ok:
  "length out < n \<Longrightarrow> set out \<subseteq> set alphabet \<Longrightarrow> length (take_samples n bs out) \<le> n \<and> set (take_samples n bs out) \<subseteq> set alphabet"
  by (induction n bs out rule: take_samples.induct) (auto simp: sample_char_alphabet split: option.split)

lemma take_samples_grows:
  "length out < n \<Longrightarrow> \<exists>b \<in> set bs. sample_char b \<noteq> None \<Longrightarrow> length out < length (take_samples n bs out)"
proof (induction n bs out rule: take_samples.induct)
  case (2 n b bs out)
  have mono: "length o' \<le> length (take_samples n xs o')" for xs o'
    by (induction n xs o' rule: take_samples.induct) (auto split: option.split)
  show ?case
  proof (cases "sample_char b")
    case None
    then show ?thesis using 2 by auto
  next
    case (Some c)
    then show ?thesis using mono [of "out @ [c]" bs] by auto
  qed
qed simp

lemma random_loop_ok:
  assumes "length out \<le> n" "set out \<subseteq> set alphabet" "\<And>k. \<exists>buf. reads k = Some buf \<and> (\<exists>b \<in> set buf. sample_char b \<noteq> None)"
  shows "\<exists>s. random_loop reads n k out = Some (Some s) \<and> length s = n \<and> set s \<subseteq> set alphabet"
  using assms(1,2)
proof (induction "n - length out" arbitrary: out k rule: less_induct)
  case less
  show ?case
  proof (cases "length out < n")
    case True
    obtain buf where buf: "reads k = Some buf" "\<exists>b \<in> set buf. sample_char b \<noteq> None" using assms(3) by blast
    let ?o = "take_samples n buf out"
    have "length out < length ?o" "length ?o \<le> n" "set ?o \<subseteq> set alphabet"
      using take_samples_grows [OF True buf(2)] take_samples_ok [OF True less.prems(2), of buf] by auto
    then have "\<exists>s. random_loop reads n (k + 1) ?o = Some (Some s) \<and> length s = n \<and> set s \<subseteq> set alphabet"
      using less.hyps [of ?o "k + 1"] True by simp
    then show ?thesis using True buf(1) by (subst random_loop.simps) simp
  next
    case False
    then show ?thesis using less.prems by (subst random_loop.simps) simp
  qed
qed

text \<open>An identifier has the length asked for and only characters of the alphabet, as soon as every buffer holds a byte that can be used.\<close>

theorem random_identifier:
  assumes "\<And>k. \<exists>buf. reads k = Some buf \<and> (\<exists>b \<in> set buf. sample_char b \<noteq> None)"
  shows "\<exists>s. NewRandom reads n = Some (Some s) \<and> length s = nat n \<and> set s \<subseteq> set alphabet"
  using random_loop_ok [of "[]" "nat n" reads 0, OF _ _ assms] by (auto simp: NewRandom_def)

lemma low_bits: "unat ((b :: byte) AND 0x3f) = unat b mod 64"
proof -
  have "b AND 0x3f = take_bit 6 b" by (simp add: take_bit_eq_mask mask_eq_exp_minus_1)
  then have "unat (b AND 0x3f) = take_bit 6 (unat b)" by (simp only: unsigned_take_bit_eq)
  then show ?thesis by (simp only: take_bit_eq_mod) simp
qed

lemma bytes_ending_in:
  assumes "j < 64"
  shows "{b :: byte. unat b mod 64 = j} = word_of_nat ` {j, j + 64, j + 128, j + 192}"
proof (intro equalityI subsetI)
  fix b :: byte
  assume "b \<in> {b. unat b mod 64 = j}"
  then have "unat b = 64 * (unat b div 64) + j" using mult_div_mod_eq [of 64 "unat b"] by simp
  moreover have "unat b < 4 * 64" by (rule order_less_le_trans [OF unsigned_less]) simp
  then have "unat b div 64 < 4" by (rule less_mult_imp_div_less)
  then have "unat b div 64 \<in> {0, 1, 2, 3}" by auto
  ultimately have "unat b \<in> {j, j + 64, j + 128, j + 192}" by auto
  then have "word_of_nat (unat b) \<in> (word_of_nat :: nat \<Rightarrow> byte) ` {j, j + 64, j + 128, j + 192}" by (rule imageI)
  moreover have "(word_of_nat (unat b) :: byte) = b" by simp
  ultimately show "b \<in> word_of_nat ` {j, j + 64, j + 128, j + 192}" by metis
next
  fix b :: byte
  assume "b \<in> word_of_nat ` {j, j + 64, j + 128, j + 192}"
  then obtain m where m: "b = word_of_nat m" "m \<in> {j, j + 64, j + 128, j + 192}" by blast
  then have "m < 256" using assms by auto
  then have "unat b = m" using m(1) by (simp add: unat_of_nat)
  moreover have "m = j + 0 * 64 \<or> m = j + 1 * 64 \<or> m = j + 2 * 64 \<or> m = j + 3 * 64" using m(2) by auto
  then have "m mod 64 = j" using assms by (metis mod_less mod_mult_self1)
  ultimately show "b \<in> {b. unat b mod 64 = j}" by simp
qed

text \<open>No character is likelier than another: each is given by four of the 256 bytes.\<close>

theorem random_uniform:
  assumes "c \<in> set alphabet"
  shows "card {b. sample_char b = Some c} = 4"
proof -
  obtain j where j: "j < 62" "c = alphabet ! j" using assms by (auto simp: in_set_conv_nth)
  have "sample_char b = Some c \<longleftrightarrow> unat b mod 64 = j" for b
    using j alphabet_distinct by (auto simp: sample_char_def Let_def low_bits nth_eq_iff_index_eq)
  then have "{b. sample_char b = Some c} = word_of_nat ` {j, j + 64, j + 128, j + 192}"
    using bytes_ending_in [of j] j(1) by simp
  moreover have "inj_on (word_of_nat :: nat \<Rightarrow> byte) {..<256}"
  proof (rule inj_onI)
    fix x y :: nat
    assume *: "x \<in> {..<256}" "y \<in> {..<256}" "(word_of_nat x :: byte) = word_of_nat y"
    then have "unat (word_of_nat x :: byte) = unat (word_of_nat y :: byte)" by simp
    then show "x = y" using *(1,2) by (simp add: unat_of_nat)
  qed
  then have "inj_on (word_of_nat :: nat \<Rightarrow> byte) {j, j + 64, j + 128, j + 192}"
    using j(1) by (auto intro: inj_on_subset)
  ultimately show ?thesis by (simp add: card_image)
qed

section \<open>A value that is computed once\<close>

text \<open>\<open>AtomicValue\<close> with zero value \<open>z\<close>, used by any number of goroutines that call \<open>LoadOrStore\<close>. Where a goroutine is: before the first
  load, before the lock, inside the lock, inside \<open>store\<close>, or returned with a value or the error of \<open>store\<close>. \<open>av_stored\<close> are the values
  \<open>store\<close> has given.\<close>

datatype 'v caller = Calling | WaitingForLock | Locked | Storing | CallReturned "'v option"

record 'v atomic_value =
  av_val :: 'v
  av_lock :: "nat option"
  av_callers :: "nat \<Rightarrow> 'v caller"
  av_stored :: "'v list"

definition Load_av :: "'v atomic_value \<Rightarrow> 'v" where
  "Load_av v = av_val v"

definition Store_av :: "'v \<Rightarrow> 'v atomic_value \<Rightarrow> 'v atomic_value" where
  "Store_av x v = v\<lparr>av_val := x\<rparr>"

definition Swap_av :: "'v \<Rightarrow> 'v atomic_value \<Rightarrow> 'v \<times> 'v atomic_value" where
  "Swap_av x v = (av_val v, v\<lparr>av_val := x\<rparr>)"

definition goto :: "nat \<Rightarrow> 'v caller \<Rightarrow> 'v atomic_value \<Rightarrow> 'v atomic_value" where
  "goto i c v = v\<lparr>av_callers := (av_callers v)(i := c)\<rparr>"

inductive load_or_store :: "'v \<Rightarrow> 'v atomic_value \<Rightarrow> 'v atomic_value \<Rightarrow> bool" for z where
  fast: "av_callers v i = Calling \<Longrightarrow> Load_av v \<noteq> z \<Longrightarrow> load_or_store z v (goto i (CallReturned (Some (Load_av v))) v)"
| slow: "av_callers v i = Calling \<Longrightarrow> Load_av v = z \<Longrightarrow> load_or_store z v (goto i WaitingForLock v)"
| lock: "av_callers v i = WaitingForLock \<Longrightarrow> av_lock v = None \<Longrightarrow> load_or_store z v (goto i Locked (v\<lparr>av_lock := Some i\<rparr>))"
| found: "av_callers v i = Locked \<Longrightarrow> Load_av v \<noteq> z \<Longrightarrow> load_or_store z v (goto i (CallReturned (Some (Load_av v))) (v\<lparr>av_lock := None\<rparr>))"
| compute: "av_callers v i = Locked \<Longrightarrow> Load_av v = z \<Longrightarrow> load_or_store z v (goto i Storing v)"
| failed: "av_callers v i = Storing \<Longrightarrow> load_or_store z v (goto i (CallReturned None) (v\<lparr>av_lock := None\<rparr>))"
| stored: "av_callers v i = Storing \<Longrightarrow>
    load_or_store z v (goto i (CallReturned (Some x)) (Store_av x (v\<lparr>av_lock := None, av_stored := av_stored v @ [x]\<rparr>)))"

definition new_value :: "'v \<Rightarrow> 'v atomic_value" where
  "new_value z = \<lparr>av_val = z, av_lock = None, av_callers = (\<lambda>_. Calling), av_stored = []\<rparr>"

definition once_inv :: "'v \<Rightarrow> 'v atomic_value \<Rightarrow> bool" where
  "once_inv z v \<longleftrightarrow> (\<forall>i. av_callers v i = Locked \<or> av_callers v i = Storing \<longrightarrow> av_lock v = Some i) \<and>
     (\<forall>i. av_callers v i = Storing \<longrightarrow> av_val v = z) \<and>
     filter (\<lambda>x. x \<noteq> z) (av_stored v) = (if av_val v = z then [] else [av_val v]) \<and>
     (\<forall>i x. av_callers v i = CallReturned (Some x) \<longrightarrow> x = z \<or> x = av_val v)"

lemma once_invD:
  assumes "once_inv z v"
  shows "av_callers v i = Locked \<or> av_callers v i = Storing \<Longrightarrow> av_lock v = Some i"
    and "av_callers v i = Storing \<Longrightarrow> av_val v = z"
    and "filter (\<lambda>x. x \<noteq> z) (av_stored v) = (if av_val v = z then [] else [av_val v])"
    and "av_callers v i = CallReturned (Some x) \<Longrightarrow> x = z \<or> x = av_val v"
  using assms unfolding once_inv_def by blast+

text \<open>A step that moves one caller and at most frees the lock it holds.\<close>

lemma once_goto:
  assumes "once_inv z v" "av_callers v i = Locked \<or> av_callers v i = Storing \<or> l = av_lock v"
    and "c = Calling \<or> c = WaitingForLock \<or> c = CallReturned None \<or> c = CallReturned (Some (av_val v))"
  shows "once_inv z (goto i c (v\<lparr>av_lock := l\<rparr>))"
  unfolding once_inv_def
proof (intro conjI allI impI)
  fix j
  assume j: "av_callers (goto i c (v\<lparr>av_lock := l\<rparr>)) j = Locked \<or> av_callers (goto i c (v\<lparr>av_lock := l\<rparr>)) j = Storing"
  then have "j \<noteq> i" "av_callers v j = Locked \<or> av_callers v j = Storing" using assms(3) by (auto simp: goto_def split: if_splits)
  then have "av_lock v = Some j" using once_invD(1) [OF assms(1)] by blast
  moreover have "l = av_lock v" using assms(2) once_invD(1) [OF assms(1), of i] \<open>j \<noteq> i\<close> calculation by auto
  ultimately show "av_lock (goto i c (v\<lparr>av_lock := l\<rparr>)) = Some j" by (simp add: goto_def)
next
  fix j
  assume "av_callers (goto i c (v\<lparr>av_lock := l\<rparr>)) j = Storing"
  then have "av_callers v j = Storing" using assms(3) by (auto simp: goto_def split: if_splits)
  then show "av_val (goto i c (v\<lparr>av_lock := l\<rparr>)) = z" using once_invD(2) [OF assms(1)] by (simp add: goto_def)
next
  show "filter (\<lambda>x. x \<noteq> z) (av_stored (goto i c (v\<lparr>av_lock := l\<rparr>))) =
      (if av_val (goto i c (v\<lparr>av_lock := l\<rparr>)) = z then [] else [av_val (goto i c (v\<lparr>av_lock := l\<rparr>))])"
    using once_invD(3) [OF assms(1)] by (simp add: goto_def)
next
  fix j x
  assume "av_callers (goto i c (v\<lparr>av_lock := l\<rparr>)) j = CallReturned (Some x)"
  then have "x = av_val v \<or> av_callers v j = CallReturned (Some x)" using assms(3) by (auto simp: goto_def split: if_splits)
  then show "x = z \<or> x = av_val (goto i c (v\<lparr>av_lock := l\<rparr>))" using once_invD(4) [OF assms(1)] by (auto simp: goto_def)
qed

lemma once_step: "load_or_store z v v' \<Longrightarrow> once_inv z v \<Longrightarrow> once_inv z v'"
proof (induction rule: load_or_store.induct)
  case (fast v i)
  then show ?case using once_goto [of z v i "av_lock v" "CallReturned (Some (av_val v))"] by (simp add: Load_av_def)
next
  case (slow v i)
  then show ?case using once_goto [of z v i "av_lock v" WaitingForLock] by simp
next
  case (lock v i)
  have free: "av_callers v j \<noteq> Locked \<and> av_callers v j \<noteq> Storing" for j
    using once_invD(1) [OF lock.prems, of j] lock.hyps(2) by auto
  then show ?case
    using once_invD(3,4) [OF lock.prems] by (simp add: once_inv_def goto_def) blast
next
  case (found v i)
  then show ?case using once_goto [of z v i None "CallReturned (Some (av_val v))"] by (simp add: Load_av_def)
next
  case (compute v i)
  then have "av_lock v = Some i" using once_invD(1) [OF compute.prems, of i] by simp
  then show ?case
    using once_invD [OF compute.prems] compute.hyps by (simp add: once_inv_def goto_def Load_av_def)
next
  case (failed v i)
  then show ?case using once_goto [of z v i None "CallReturned None"] by simp
next
  case (stored v i x)
  have l: "av_lock v = Some i" and zero: "av_val v = z" using once_invD(1,2) [OF stored.prems, of i] stored.hyps by auto
  have "av_callers v j \<noteq> Locked \<and> av_callers v j \<noteq> Storing" if "j \<noteq> i" for j
    using once_invD(1) [OF stored.prems, of j] l that by auto
  moreover have "y = z" if "av_callers v j = CallReturned (Some y)" for j y
    using once_invD(4) [OF stored.prems that] zero by simp
  ultimately show ?case using once_invD(3) [OF stored.prems] zero by (simp add: once_inv_def goto_def Store_av_def)
qed

interpretation once: invariant_machine "\<lambda>v. v = new_value z" "load_or_store z" "once_inv z" for z
proof (unfold_locales, goal_cases)
  case (1 v)
  then show ?case by (simp add: once_inv_def new_value_def)
qed (rule once_step)

text \<open>Whatever the schedule, at most one call of \<open>store\<close> gives a value other than zero, every caller that returns such a value returns that one, and no two
  callers are inside the lock.\<close>

theorem computed_once:
  assumes "(load_or_store z)\<^sup>*\<^sup>* (new_value z) v"
  shows "length (filter (\<lambda>x. x \<noteq> z) (av_stored v)) \<le> 1 \<and>
    (\<forall>i x. av_callers v i = CallReturned (Some x) \<and> x \<noteq> z \<longrightarrow> filter (\<lambda>x. x \<noteq> z) (av_stored v) = [x]) \<and>
    (\<forall>i j. av_callers v i \<in> {Locked, Storing} \<and> av_callers v j \<in> {Locked, Storing} \<longrightarrow> i = j)"
proof -
  have inv: "once_inv z v" by (rule once.reach_inv [OF refl assms])
  moreover have "i = j" if "av_callers v i \<in> {Locked, Storing}" "av_callers v j \<in> {Locked, Storing}" for i j
    using inv that unfolding once_inv_def by (metis insert_iff option.inject singletonD)
  ultimately show ?thesis by (auto simp: once_inv_def)
qed

section \<open>The logger of the DTLS stack\<close>

datatype log_level = LogTrace | LogDebug | LogInfo | LogWarn | LogError

text \<open>What \<open>DebugEnabled\<close> finds: \<open>None\<close> for a logger that does not say.\<close>

definition DebugEnabled :: "bool option \<Rightarrow> bool" where
  "DebugEnabled l = (case l of None \<Rightarrow> False | Some b \<Rightarrow> b)"

datatype scoped_logger = BaseLogger string | DtlsScopeLogger string

definition NewLogger :: "bool option \<Rightarrow> string \<Rightarrow> scoped_logger" where
  "NewLogger base scope =
    (if scope = ''dtls'' \<or> scope = ''DTLSTransport''
     then (if DebugEnabled base then BaseLogger scope else DtlsScopeLogger scope)
     else BaseLogger scope)"

text \<open>The record that reaches the base logger, if any.\<close>

definition log_record :: "scoped_logger \<Rightarrow> log_level \<Rightarrow> string \<Rightarrow> (log_level \<times> string) option" where
  "log_record l level msg =
    (case l of
       BaseLogger _ \<Rightarrow> Some (level, msg)
     | DtlsScopeLogger _ \<Rightarrow>
        (case level of LogTrace \<Rightarrow> None | LogDebug \<Rightarrow> Some (LogInfo, msg) | _ \<Rightarrow> Some (level, msg)))"

lemma dtls_debug_visible:
  assumes "\<not> DebugEnabled base"
  shows "log_record (NewLogger base ''dtls'') LogDebug msg = Some (LogInfo, msg)"
    and "log_record (NewLogger base ''dtls'') LogTrace msg = None"
    and "scope \<notin> {''dtls'', ''DTLSTransport''} \<Longrightarrow> log_record (NewLogger base scope) level msg = Some (level, msg)"
  using assms by (simp_all add: NewLogger_def log_record_def)

end
