(* ===== verification/RtcStats.thy ===== *)
theory RtcStats
  imports Prelude Complex_Main
begin

text \<open>
  Stats and traces: package \<open>rtcstats\<close> (\<open>TraceBuffer\<close> and the delta compression), \<open>stats_utils.go\<close>, and the reporting
  of \<open>call.go\<close> that splices the buffers into one report and keeps the baseline of the compression. A JSON
  number decodes to a finite float64, a rational; comparing two interface values that both hold an array
  or an object panics. A Go map is an association list in the order it happens to be
  iterated in. \<open>json.Marshal\<close> of a tuple is an argument.
\<close>

section \<open>Conversions\<close>

definition SafeUint64ToUint32 :: "uint64 \<Rightarrow> uint32" where
  "SafeUint64ToUint32 i = (if uint i > 2 ^ 32 - 1 then word_of_int (2 ^ 32 - 1) else ucast i)"

definition SafeInt64ToInt32 :: "int \<Rightarrow> int" where
  "SafeInt64ToInt32 i = (if i > 2 ^ 31 - 1 then 2 ^ 31 - 1 else if i < - (2 ^ 31) then - (2 ^ 31) else i32 i)"

definition toStatsTimestamp :: "time \<Rightarrow> int" where
  "toStatsTimestamp tm = tdiv tm Millisecond"

record codec_stats =
  cs_ID :: string
  cs_MimeType :: string
  cs_ClockRate :: uint32
  cs_Channels :: uint8
  cs_SDPFmtpLine :: string
  cs_PayloadType :: uint8

record codec_params =
  cp_MimeType :: string
  cp_ClockRate :: uint32
  cp_Channels :: uint16
  cp_SDPFmtpLine :: string
  cp_PayloadType :: uint8

text \<open>The fourth conjunct of the source compares the channels of the stats with themselves.\<close>

definition codec_matches :: "codec_params \<Rightarrow> codec_stats \<Rightarrow> bool" where
  "codec_matches params c \<longleftrightarrow> cs_MimeType c = cp_MimeType params \<and> cs_ClockRate c = cp_ClockRate params \<and>
     (ucast (cs_Channels c) :: uint16) = ucast (cs_Channels c) \<and>
     cs_SDPFmtpLine c = cp_SDPFmtpLine params \<and> cs_PayloadType c = cp_PayloadType params"

definition getCodecStatsID :: "codec_params \<Rightarrow> codec_stats list \<Rightarrow> string" where
  "getCodecStatsID params codecStats = (case find (codec_matches params) codecStats of None \<Rightarrow> [] | Some c \<Rightarrow> cs_ID c)"

section \<open>JSON values\<close>

datatype json = JNull | JBool bool | JNum rat | JStr string | JArr "json list" | JObj "(string \<times> json) list"

text \<open>\<open>==\<close> on two interface values; \<open>None\<close> is the panic on a type that cannot be compared.\<close>

definition go_eq :: "json \<Rightarrow> json \<Rightarrow> bool option" where
  "go_eq a b =
    (case (a, b) of
       (JArr _, JArr _) \<Rightarrow> None
     | (JObj _, JObj _) \<Rightarrow> None
     | _ \<Rightarrow> Some (a = b))"

section \<open>Trace buffers\<close>

record rawLine =
  l_ts :: int
  l_b :: string

record TraceBuffer =
  tb_buf :: "rawLine list"
  tb_ns :: string
  tb_pcID :: "string option"

definition GetStatsEvent :: string where "GetStatsEvent = ''getstats''"

definition eventBlacklist :: "string list" where
  "eventBlacklist = [''signal.ws.participantleft'', ''signal.ws.participantjoined'']"

definition buildPcId :: "string option \<Rightarrow> int option \<Rightarrow> string option \<Rightarrow> string option" where
  "buildPcId tag version sfuID =
    (case (tag, version, sfuID) of
       (Some t, Some v, Some s) \<Rightarrow> Some (t @ ''-'' @ FormatInt (i64 (v + 1)) @ ''-'' @ s)
     | (None, Some v, Some s) \<Rightarrow> Some (FormatInt (i64 (v + 1)) @ ''-'' @ s)
     | _ \<Rightarrow> None)"

definition buildNs :: "string \<Rightarrow> string" where
  "buildNs ns = (if ns \<noteq> [] then ns @ ''.'' else [])"

definition newTraceBuffer :: "string \<Rightarrow> string option \<Rightarrow> int option \<Rightarrow> string option \<Rightarrow> TraceBuffer" where
  "newTraceBuffer ns tag version sfuID = \<lparr>tb_buf = [], tb_ns = buildNs ns, tb_pcID = buildPcId tag version sfuID\<rparr>"

definition NewClientTraceBuffer :: "string \<Rightarrow> TraceBuffer" where
  "NewClientTraceBuffer ns = newTraceBuffer ns None None None"

definition NewCallTraceBuffer :: "string \<Rightarrow> int \<Rightarrow> string \<Rightarrow> TraceBuffer" where
  "NewCallTraceBuffer ns version sfuID = newTraceBuffer ns None (Some version) (Some sfuID)"

definition NewPubTraceBuffer :: "string \<Rightarrow> int \<Rightarrow> string \<Rightarrow> TraceBuffer" where
  "NewPubTraceBuffer ns version sfuID = newTraceBuffer ns (Some ''pub'') (Some version) (Some sfuID)"

definition NewSubTraceBuffer :: "string \<Rightarrow> int \<Rightarrow> string \<Rightarrow> TraceBuffer" where
  "NewSubTraceBuffer ns version sfuID = newTraceBuffer ns (Some ''sub'') (Some version) (Some sfuID)"

text \<open>The line an event becomes; \<open>ts\<close> is the time read before the buffer is locked. A nil buffer is
  \<open>None\<close>.\<close>

definition trace_line :: "(json list \<Rightarrow> string) \<Rightarrow> TraceBuffer \<Rightarrow> string \<Rightarrow> json \<Rightarrow> int \<Rightarrow> rawLine" where
  "trace_line marshal tb event payload ts =
    (let ns = (if event = GetStatsEvent then [] else tb_ns tb);
         tuple = [JStr (ns @ event), (case tb_pcID tb of None \<Rightarrow> JNull | Some i \<Rightarrow> JStr i), payload, JNum (of_int ts)]
     in \<lparr>l_ts = ts, l_b = marshal tuple\<rparr>)"

definition Emit :: "(json list \<Rightarrow> string) \<Rightarrow> string \<Rightarrow> json \<Rightarrow> int \<Rightarrow> TraceBuffer option \<Rightarrow> TraceBuffer option" where
  "Emit marshal event payload ts tb =
    map_option (\<lambda>tb. if event \<in> set eventBlacklist then tb
                     else tb\<lparr>tb_buf := tb_buf tb @ [trace_line marshal tb event payload ts]\<rparr>) tb"

definition EmitError :: "(json list \<Rightarrow> string) \<Rightarrow> string \<Rightarrow> string \<Rightarrow> json option \<Rightarrow> int \<Rightarrow> TraceBuffer option \<Rightarrow> TraceBuffer option" where
  "EmitError marshal event err ctx ts tb =
    (let pay = (case ctx of None \<Rightarrow> JObj [(''error'', JStr err)] | Some c \<Rightarrow> JObj [(''error'', JStr err), (''context'', c)])
     in Emit marshal (''sfu.'' @ event @ ''Error'') pay ts tb)"

text \<open>\<open>sort.SliceStable\<close> by time.\<close>

definition take_lines :: "TraceBuffer option \<Rightarrow> rawLine list \<times> TraceBuffer option" where
  "take_lines tb =
    (case tb of
       None \<Rightarrow> ([], None)
     | Some tb \<Rightarrow> (sort_key l_ts (tb_buf tb), Some (tb\<lparr>tb_buf := []\<rparr>)))"

fun join :: "char \<Rightarrow> string list \<Rightarrow> string" where
  "join sep [] = []"
| "join sep [w] = w"
| "join sep (w # ws) = w @ sep # join sep ws"

definition joinLines :: "rawLine list \<Rightarrow> char \<Rightarrow> string" where
  "joinLines lines sep = join sep (map l_b lines)"

definition Drain :: "TraceBuffer option \<Rightarrow> string \<times> TraceBuffer option" where
  "Drain tb =
    (let (lines, tb) = take_lines tb in (if lines = [] then [] else joinLines lines (CHR 0x0A) @ [CHR 0x0A], tb))"

definition DrainWithComma :: "bool \<Rightarrow> TraceBuffer option \<Rightarrow> string \<times> TraceBuffer option" where
  "DrainWithComma trailing tb =
    (let (lines, tb) = take_lines tb in
     if lines = [] then ([], tb)
     else (joinLines lines (CHR '','') @ (if trailing then [CHR '',''] else []), tb))"

section \<open>Delta compression\<close>

type_synonym report = "(string \<times> json) list"

definition report_ts :: "report \<Rightarrow> rat option" where
  "report_ts report = (case map_of report ''timestamp'' of Some (JNum ts) \<Rightarrow> Some ts | _ \<Rightarrow> None)"

text \<open>The fields of a report that differ from the old one.\<close>

fun changed_fields :: "report \<Rightarrow> report \<Rightarrow> report option" where
  "changed_fields oldReport [] = Some []"
| "changed_fields oldReport ((name, v) # rest) =
    (case (case map_of oldReport name of None \<Rightarrow> Some False | Some oldValue \<Rightarrow> go_eq v oldValue) of
       None \<Rightarrow> None
     | Some same \<Rightarrow> map_option (\<lambda>r. if same then r else (name, v) # r) (changed_fields oldReport rest))"

definition delete_key :: "string \<Rightarrow> report \<Rightarrow> report" where
  "delete_key k r = filter (\<lambda>e. fst e \<noteq> k) r"

definition compress_report :: "report option \<Rightarrow> report \<Rightarrow> report option" where
  "compress_report oldReport report =
    (let report = delete_key ''id'' report in
     case oldReport of None \<Rightarrow> Some report | Some old \<Rightarrow> changed_fields old report)"

definition old_report :: "report \<Rightarrow> string \<Rightarrow> report option" where
  "old_report oldStats i = (case map_of oldStats i of Some (JObj r) \<Rightarrow> Some r | _ \<Rightarrow> None)"

text \<open>The first loop, with the largest time stamp so far.\<close>

fun delta_loop :: "report \<Rightarrow> report \<Rightarrow> rat \<Rightarrow> (report \<times> rat) option" where
  "delta_loop oldStats [] m = Some ([], m)"
| "delta_loop oldStats ((i, val) # rest) m =
    (case val of
       JObj report \<Rightarrow>
         (let m = (case report_ts (delete_key ''id'' report) of Some ts \<Rightarrow> (if ts > m then ts else m) | None \<Rightarrow> m) in
          case compress_report (old_report oldStats i) report of
            None \<Rightarrow> None
          | Some r \<Rightarrow> map_option (\<lambda>(out, m). ((i, JObj r) # out, m)) (delta_loop oldStats rest m))
     | _ \<Rightarrow> map_option (\<lambda>(out, m). ((i, val) # out, m)) (delta_loop oldStats rest m))"

definition set_key :: "string \<Rightarrow> json \<Rightarrow> report \<Rightarrow> report" where
  "set_key k v r = (k, v) # delete_key k r"

definition hoist_ts :: "rat \<Rightarrow> json \<Rightarrow> json" where
  "hoist_ts m val =
    (case val of
       JObj report \<Rightarrow> (if report_ts report = Some m then JObj (set_key ''timestamp'' (JNum 0) report) else val)
     | _ \<Rightarrow> val)"

text \<open>\<open>None\<close> as a result is a panic, as an argument the nil map.\<close>

definition DeltaCompressionRtcStats :: "report \<Rightarrow> report option \<Rightarrow> report option option" where
  "DeltaCompressionRtcStats oldStats newStats =
    (case newStats of
       None \<Rightarrow> Some None
     | Some new \<Rightarrow>
        (case delta_loop oldStats new (- 1) of
           None \<Rightarrow> None
         | Some (out, m) \<Rightarrow> Some (Some (set_key ''timestamp'' (JNum m) (map (\<lambda>(i, val). (i, hoist_ts m val)) out)))))"

section \<open>Reporting\<close>

text \<open>The buffers of the client, the call, the publisher and the subscriber, each drained in turn.\<close>

definition collectTracing :: "TraceBuffer option list \<Rightarrow> string \<times> TraceBuffer option list" where
  "collectTracing tbs =
    (let drained = map (DrainWithComma False) tbs;
         samples = filter (\<lambda>s. s \<noteq> []) (map fst drained)
     in (''['' @ join (CHR '','') samples @ '']'', map snd drained))"

record CallStatsReportingMetrics =
  m_LastSuccessfulReportAt :: "time option"
  m_SuccessfulReports :: uint64
  m_FailedReports :: uint64
  m_SkippedReports :: uint64

definition countSkipped :: "CallStatsReportingMetrics \<Rightarrow> CallStatsReportingMetrics" where
  "countSkipped m = m\<lparr>m_SkippedReports := m_SkippedReports m + 1\<rparr>"

definition countFailed :: "CallStatsReportingMetrics \<Rightarrow> CallStatsReportingMetrics" where
  "countFailed m = m\<lparr>m_FailedReports := m_FailedReports m + 1\<rparr>"

definition countSuccessful :: "time \<Rightarrow> CallStatsReportingMetrics \<Rightarrow> CallStatsReportingMetrics" where
  "countSuccessful now m = m\<lparr>m_LastSuccessfulReportAt := Some now, m_SuccessfulReports := m_SuccessfulReports m + 1\<rparr>"

record stats_state =
  ss_prevPublisher :: report
  ss_prevSubscriber :: report
  ss_clientTracing :: "TraceBuffer option"
  ss_callTracing :: "TraceBuffer option"
  ss_pubTracing :: "TraceBuffer option"
  ss_subTracing :: "TraceBuffer option"
  ss_metrics :: CallStatsReportingMetrics

text \<open>\<open>decodeRtcStats\<close> on the JSON its argument encodes to, the nil map as \<open>None\<close>; \<open>encodes\<close> is whether encoding
  succeeds. The report and its snapshot are equal; the source copies two levels so that compressing one leaves
  the other alone.\<close>

definition decodeRtcStats :: "bool \<Rightarrow> report option \<Rightarrow> (report option \<times> report) option" where
  "decodeRtcStats encodes stats = (if encodes then Some (stats, (case stats of None \<Rightarrow> [] | Some r \<Rightarrow> r)) else None)"

datatype stats_outcome = StatsSent string | StatsFailed string | StatsEncodeFailed | StatsPanicked

definition publisher_tick ::
    "(json list \<Rightarrow> string) \<Rightarrow> int \<Rightarrow> bool \<times> report option \<Rightarrow> stats_state \<Rightarrow> stats_outcome + stats_state" where
  "publisher_tick marshal ts stats s =
    (case decodeRtcStats (fst stats) (snd stats) of
       None \<Rightarrow> Inl StatsEncodeFailed
     | Some (report, snapshot) \<Rightarrow>
        (case DeltaCompressionRtcStats (ss_prevPublisher s) report of
           None \<Rightarrow> Inl StatsPanicked
         | Some delta \<Rightarrow>
            Inr (s\<lparr>ss_prevPublisher := snapshot,
                   ss_pubTracing := Emit marshal GetStatsEvent (case delta of None \<Rightarrow> JNull | Some d \<Rightarrow> JObj d) ts (ss_pubTracing s)\<rparr>)))"

definition subscriber_tick ::
    "(json list \<Rightarrow> string) \<Rightarrow> int \<Rightarrow> bool \<times> report option \<Rightarrow> stats_state \<Rightarrow> stats_outcome + stats_state" where
  "subscriber_tick marshal ts stats s =
    (case decodeRtcStats (fst stats) (snd stats) of
       None \<Rightarrow> Inl StatsEncodeFailed
     | Some (report, snapshot) \<Rightarrow>
        (case DeltaCompressionRtcStats (ss_prevSubscriber s) report of
           None \<Rightarrow> Inl StatsPanicked
         | Some delta \<Rightarrow>
            Inr (s\<lparr>ss_prevSubscriber := snapshot,
                   ss_subTracing := Emit marshal GetStatsEvent (case delta of None \<Rightarrow> JNull | Some d \<Rightarrow> JObj d) ts (ss_subTracing s)\<rparr>)))"

text \<open>\<open>reportRtcStats\<close>: the stats of the peers that exist, and whether the SFU accepts the report. A failure to
  encode or to send is counted; a panic is counted by \<open>statsTick\<close>, which recovers.\<close>

definition send_report :: "bool \<Rightarrow> time \<Rightarrow> stats_state \<Rightarrow> stats_outcome \<times> stats_state" where
  "send_report accepted now s =
    (let (body, tbs) = collectTracing [ss_clientTracing s, ss_callTracing s, ss_pubTracing s, ss_subTracing s];
         s = s\<lparr>ss_clientTracing := tbs ! 0, ss_callTracing := tbs ! 1, ss_pubTracing := tbs ! 2, ss_subTracing := tbs ! 3\<rparr>
     in if accepted then (StatsSent body, s\<lparr>ss_metrics := countSuccessful now (ss_metrics s)\<rparr>)
        else (StatsFailed body, s\<lparr>ss_metrics := countFailed (ss_metrics s)\<rparr>))"

definition reportRtcStats ::
    "(json list \<Rightarrow> string) \<Rightarrow> int \<Rightarrow> (bool \<times> report option) option \<Rightarrow> (bool \<times> report option) option \<Rightarrow> bool \<Rightarrow> time \<Rightarrow> stats_state \<Rightarrow> stats_outcome \<times> stats_state" where
  "reportRtcStats marshal ts pub sub accepted now s =
    (case (case pub of None \<Rightarrow> Inr s | Some stats \<Rightarrow> publisher_tick marshal ts stats s) of
       Inl e \<Rightarrow> (e, s\<lparr>ss_metrics := countFailed (ss_metrics s)\<rparr>)
     | Inr s \<Rightarrow>
        (case (case sub of None \<Rightarrow> Inr s | Some stats \<Rightarrow> subscriber_tick marshal ts stats s) of
           Inl e \<Rightarrow> (e, s\<lparr>ss_metrics := countFailed (ss_metrics s)\<rparr>)
         | Inr s \<Rightarrow> send_report accepted now s))"

section \<open>Nothing is lost between reports\<close>

definition tb_lines :: "TraceBuffer option \<Rightarrow> rawLine list" where
  "tb_lines tb = (case tb of None \<Rightarrow> [] | Some tb \<Rightarrow> tb_buf tb)"

definition nonempty_lines :: "TraceBuffer option list \<Rightarrow> bool" where
  "nonempty_lines tbs \<longleftrightarrow> (\<forall>tb \<in> set tbs. \<forall>l \<in> set (tb_lines tb). l_b l \<noteq> [])"

definition emptied :: "TraceBuffer option \<Rightarrow> TraceBuffer option" where
  "emptied tb = map_option (\<lambda>tb. tb\<lparr>tb_buf := []\<rparr>) tb"

lemma join_append: "xs \<noteq> [] \<Longrightarrow> ys \<noteq> [] \<Longrightarrow> join sep (xs @ ys) = join sep xs @ sep # join sep ys"
  by (induction sep xs rule: join.induct) (auto simp: neq_Nil_conv)

lemma join_empty: "\<forall>w \<in> set ws. w \<noteq> [] \<Longrightarrow> join sep ws = [] \<longleftrightarrow> ws = []"
  by (induction sep ws rule: join.induct) auto

lemma join_concat:
  "join sep (map (join sep) (filter (\<lambda>ws. ws \<noteq> []) wss)) = join sep (concat wss)"
proof (induction wss)
  case (Cons ws wss)
  show ?case
  proof (cases "ws = [] \<or> concat wss = []")
    case True
    then consider "ws = []" | "filter (\<lambda>ws. ws \<noteq> []) wss = []" "concat wss = []" by (auto simp: filter_empty_conv)
    then show ?thesis using Cons by cases (simp_all del: concat_eq_Nil_conv)
  next
    case False
    then obtain v vs where f: "filter (\<lambda>ws. ws \<noteq> []) wss = v # vs" by (cases "filter (\<lambda>ws. ws \<noteq> []) wss") (auto simp: filter_empty_conv)
    with False Cons show ?thesis by (simp add: join_append)
  qed
qed simp

lemma DrainWithComma_eq:
  "DrainWithComma False tb = (join (CHR '','') (map l_b (sort_key l_ts (tb_lines tb))), emptied tb)"
  by (cases tb) (simp_all add: DrainWithComma_def take_lines_def tb_lines_def emptied_def joinLines_def)

lemma collectTracing_eq:
  assumes "nonempty_lines tbs"
  shows "collectTracing tbs = (''['' @ join (CHR '','') (map l_b (concat (map (\<lambda>tb. sort_key l_ts (tb_lines tb)) tbs))) @ '']'', map emptied tbs)"
proof -
  define wss where "wss = map (\<lambda>tb. map l_b (sort_key l_ts (tb_lines tb))) tbs"
  have "filter (\<lambda>s. s \<noteq> []) (map (join (CHR '','')) wss) = map (join (CHR '','')) (filter (\<lambda>ws. ws \<noteq> []) wss)"
    using assms unfolding wss_def nonempty_lines_def
    by (induction tbs) (auto simp: join_empty)
  then have "join (CHR '','') (filter (\<lambda>s. s \<noteq> []) (map (join (CHR '','')) wss)) = join (CHR '','') (concat wss)"
    by (simp add: join_concat)
  moreover have "concat wss = map l_b (concat (map (\<lambda>tb. sort_key l_ts (tb_lines tb)) tbs))"
    by (simp add: wss_def map_concat comp_def)
  moreover have "map fst (map (DrainWithComma False) tbs) = map (join (CHR '','')) wss" "map snd (map (DrainWithComma False) tbs) = map emptied tbs"
    by (simp_all add: wss_def DrainWithComma_eq)
  ultimately show ?thesis by (simp add: collectTracing_def Let_def)
qed

text \<open>Runs: events emitted into one of the buffers, and reports.\<close>

datatype trace_op = EmitTo nat string json int | Collect

fun trace_run :: "(json list \<Rightarrow> string) \<Rightarrow> trace_op list \<Rightarrow> TraceBuffer option list \<Rightarrow> string list \<times> TraceBuffer option list" where
  "trace_run marshal [] tbs = ([], tbs)"
| "trace_run marshal (EmitTo k event payload ts # ops) tbs =
     trace_run marshal ops (if k < length tbs then tbs[k := Emit marshal event payload ts (tbs ! k)] else tbs)"
| "trace_run marshal (Collect # ops) tbs =
    (let (body, tbs) = collectTracing tbs; (bodies, tbs) = trace_run marshal ops tbs in (body # bodies, tbs))"

text \<open>The lines a run is expected to report: every event of a buffer that exists, unless it is on the blacklist.\<close>

fun emitted_lines :: "(json list \<Rightarrow> string) \<Rightarrow> TraceBuffer option list \<Rightarrow> trace_op list \<Rightarrow> rawLine list" where
  "emitted_lines marshal tbs [] = []"
| "emitted_lines marshal tbs (Collect # ops) = emitted_lines marshal tbs ops"
| "emitted_lines marshal tbs (EmitTo k event payload ts # ops) =
    (case (if k < length tbs then tbs ! k else None) of
       None \<Rightarrow> []
     | Some tb \<Rightarrow> if event \<in> set eventBlacklist then [] else [trace_line marshal tb event payload ts]) @
    emitted_lines marshal tbs ops"

text \<open>What a line depends on of its buffer does not change.\<close>

definition same_tags :: "TraceBuffer option list \<Rightarrow> TraceBuffer option list \<Rightarrow> bool" where
  "same_tags tbs tbs' \<longleftrightarrow> map emptied tbs = map emptied tbs'"

lemma emptied_cases: "emptied a = emptied b \<Longrightarrow> (a = None \<and> b = None) \<or>
    (\<exists>x y. a = Some x \<and> b = Some y \<and> tb_ns x = tb_ns y \<and> tb_pcID x = tb_pcID y)"
  by (cases a; cases b) (auto simp: emptied_def dest: arg_cong[where f = "\<lambda>t. (tb_ns t, tb_pcID t)"])

lemma emitted_lines_tags:
  assumes "same_tags tbs tbs'"
  shows "emitted_lines marshal tbs ops = emitted_lines marshal tbs' ops"
proof (induction ops)
  case (Cons op ops)
  have m: "map emptied tbs = map emptied tbs'" using assms by (simp only: same_tags_def)
  have len: "length tbs = length tbs'" using map_eq_imp_length_eq[OF m] .
  show ?case
  proof (cases op)
    case (EmitTo k event payload ts)
    show ?thesis
    proof (cases "k < length tbs")
      case True
      then have "emptied (tbs ! k) = emptied (tbs' ! k)" using arg_cong[OF m, of "\<lambda>xs. xs ! k"] len by simp
      from emptied_cases[OF this] show ?thesis using True len Cons by (auto simp: EmitTo trace_line_def)
    qed (use len Cons in \<open>simp add: EmitTo\<close>)
  qed (use Cons in simp)
qed simp

lemma mset_lines_update:
  "k < length tbs \<Longrightarrow> mset (concat (map tb_lines (tbs[k := tb]))) + mset (tb_lines (tbs ! k)) =
     mset (concat (map tb_lines tbs)) + mset (tb_lines tb)"
  by (induction tbs arbitrary: k) (auto split: nat.split simp: nth_Cons')

lemma trace_run_ok:
  assumes "\<And>t. marshal t \<noteq> []"
  shows "nonempty_lines tbs \<Longrightarrow> trace_run marshal ops tbs = (bodies, tbs') \<Longrightarrow>
    \<exists>lss. bodies = map (\<lambda>ls. ''['' @ join (CHR '','') (map l_b ls) @ '']'') lss \<and>
      mset (concat lss) + mset (concat (map tb_lines tbs')) = mset (concat (map tb_lines tbs)) + mset (emitted_lines marshal tbs ops)"
proof (induction ops arbitrary: tbs bodies)
  case (Cons op ops)
  show ?case
  proof (cases op)
    case (EmitTo k event payload ts)
    define tb where "tb = Emit marshal event payload ts (tbs ! k)"
    define us where "us = (if k < length tbs then tbs[k := tb] else tbs)"
    define new where "new = emitted_lines marshal tbs [op]"
    have ln: "k < length tbs \<Longrightarrow> tb_lines tb = tb_lines (tbs ! k) @ new"
      by (cases "tbs ! k") (auto simp: tb_def new_def EmitTo Emit_def tb_lines_def)
    have "k < length tbs \<Longrightarrow> emptied tb = emptied (tbs ! k)"
      by (cases "tbs ! k") (auto simp: tb_def Emit_def emptied_def)
    then have "same_tags us tbs" by (auto simp: us_def same_tags_def map_update list_update_same_conv)
    then have em: "emitted_lines marshal tbs (op # ops) = new @ emitted_lines marshal us ops"
      using emitted_lines_tags[of us tbs marshal ops] by (simp add: new_def EmitTo)
    have ms: "mset (concat (map tb_lines us)) = mset (concat (map tb_lines tbs)) + mset new"
    proof (cases "k < length tbs")
      case True
      with mset_lines_update[OF True, of tb] ln show ?thesis by (simp add: us_def)
    qed (simp add: us_def new_def EmitTo)
    have "l_b l \<noteq> []" if "l \<in> set new" for l
      using that assms by (auto simp: new_def EmitTo trace_line_def Let_def split: option.splits if_splits)
    moreover have "\<forall>l \<in> set (tb_lines (tbs ! k)). l_b l \<noteq> []" if "k < length tbs"
      using Cons.prems(1) nth_mem[OF that] unfolding nonempty_lines_def by blast
    ultimately have "nonempty_lines us"
      using Cons.prems(1) ln by (auto simp: us_def nonempty_lines_def dest!: set_update_subset_insert[THEN subsetD] dest: nth_mem)
    moreover have "trace_run marshal ops us = (bodies, tbs')" using Cons.prems(2) by (simp add: EmitTo us_def tb_def split: if_splits)
    ultimately obtain lss where "bodies = map (\<lambda>ls. ''['' @ join (CHR '','') (map l_b ls) @ '']'') lss"
        "mset (concat lss) + mset (concat (map tb_lines tbs')) = mset (concat (map tb_lines us)) + mset (emitted_lines marshal us ops)"
      using Cons.IH by blast
    then show ?thesis using em ms by (intro exI[of _ lss]) (simp add: ac_simps)
  next
    case Collect
    define ls where "ls = concat (map (\<lambda>tb. sort_key l_ts (tb_lines tb)) tbs)"
    have c: "collectTracing tbs = (''['' @ join (CHR '','') (map l_b ls) @ '']'', map emptied tbs)"
      using collectTracing_eq[OF Cons.prems(1)] by (simp add: ls_def)
    obtain bs where r: "trace_run marshal ops (map emptied tbs) = (bs, tbs')" "bodies = (''['' @ join (CHR '','') (map l_b ls) @ '']'') # bs"
      using Cons.prems(2) by (auto simp: Collect c split: prod.splits)
    have e: "tb_lines (emptied tb) = []" "emptied (emptied tb) = emptied tb" for tb
      by (cases tb; simp add: tb_lines_def emptied_def)+
    have "nonempty_lines (map emptied tbs)" by (auto simp: nonempty_lines_def e)
    from Cons.IH[OF this r(1)] obtain lss where "bs = map (\<lambda>ls. ''['' @ join (CHR '','') (map l_b ls) @ '']'') lss"
        "mset (concat lss) + mset (concat (map tb_lines tbs')) = mset (emitted_lines marshal (map emptied tbs) ops)"
      by (auto simp: e comp_def)
    moreover have "emitted_lines marshal (map emptied tbs) ops = emitted_lines marshal tbs ops"
      by (rule emitted_lines_tags) (simp add: same_tags_def e)
    moreover have "mset ls = mset (concat (map tb_lines tbs))"
      unfolding ls_def by (induction tbs) simp_all
    ultimately show ?thesis using r(2) by (intro exI[of _ "ls # lss"]) (simp add: Collect ac_simps)
  qed
qed auto

section \<open>Rebuilding compressed stats\<close>

text \<open>A field of a report, and how a reader that holds the previous stats restores it from the compressed ones.\<close>

definition field :: "report \<Rightarrow> string \<Rightarrow> string \<Rightarrow> json option" where
  "field stats i name = (case map_of stats i of Some (JObj r) \<Rightarrow> map_of r name | _ \<Rightarrow> None)"

definition rebuild_field :: "report \<Rightarrow> report \<Rightarrow> string \<Rightarrow> string \<Rightarrow> json option" where
  "rebuild_field old delta i name =
    (case field delta i name of
       Some v \<Rightarrow> (if name = ''timestamp'' \<and> v = JNum 0 then map_of delta ''timestamp'' else Some v)
     | None \<Rightarrow> field old i name)"

definition nested :: "json \<Rightarrow> bool" where
  "nested v \<longleftrightarrow> (case v of JArr _ \<Rightarrow> True | JObj _ \<Rightarrow> True | _ \<Rightarrow> False)"

text \<open>Stats as a collector produces them: reports under distinct ids with distinct, unnested fields.\<close>

definition stats_wf :: "report \<Rightarrow> bool" where
  "stats_wf stats \<longleftrightarrow> distinct (map fst stats) \<and> ''timestamp'' \<notin> fst ` set stats \<and>
     (\<forall>(i, val) \<in> set stats. \<exists>r. val = JObj r \<and> distinct (map fst r) \<and> (\<forall>(n, v) \<in> set r. \<not> nested v))"

definition compressed :: "report \<Rightarrow> string \<Rightarrow> report \<Rightarrow> report" where
  "compressed old i r = filter (\<lambda>(n, v). n \<noteq> ''id'' \<and> field old i n \<noteq> Some v) r"

lemma go_eq_flat: "\<not> nested v \<Longrightarrow> go_eq v w = Some (v = w)"
  by (cases v; cases w) (simp_all add: go_eq_def nested_def)

lemma changed_fields_flat:
  "\<forall>(n, v) \<in> set r. \<not> nested v \<Longrightarrow> changed_fields old r = Some (filter (\<lambda>(n, v). map_of old n \<noteq> Some v) r)"
  by (induction old r rule: changed_fields.induct) (auto simp: go_eq_flat split: option.splits)

lemma compress_report_flat:
  assumes "\<forall>(n, v) \<in> set r. \<not> nested v"
  shows "compress_report (old_report old i) r = Some (compressed old i r)"
proof -
  have "changed_fields o' (delete_key ''id'' r) = Some (filter (\<lambda>(n, v). n \<noteq> ''id'' \<and> map_of o' n \<noteq> Some v) r)" for o'
    using assms by (subst changed_fields_flat) (auto simp: delete_key_def intro!: filter_cong)
  then show ?thesis
    by (auto simp: compress_report_def old_report_def compressed_def field_def delete_key_def case_prod_unfold
        split: option.split json.split)
qed

lemma map_of_filter:
  "distinct (map fst xs) \<Longrightarrow> map_of (filter (\<lambda>(n, v). P n v) xs) k = (case map_of xs k of Some v \<Rightarrow> (if P k v then Some v else None) | None \<Rightarrow> None)"
  by (induction xs) (auto simp: map_of_eq_None_iff rev_image_eqI split: option.split)

lemma map_of_values: "map_of (map (\<lambda>(i, v). (i, f i v)) xs) k = map_option (f k) (map_of xs k)"
  by (induction xs) auto

text \<open>The first loop, and the time stamp it ends with.\<close>

lemma delta_loop_ok:
  assumes "\<forall>(i, val) \<in> set new. \<exists>r. val = JObj r \<and> (\<forall>(n, v) \<in> set r. \<not> nested v)"
  shows "\<exists>m'. delta_loop old new m = Some (map (\<lambda>(i, val). (i, case val of JObj r \<Rightarrow> JObj (compressed old i r) | _ \<Rightarrow> val)) new, m') \<and>
    m \<le> m' \<and> (\<forall>(i, val) \<in> set new. \<forall>r ts. val = JObj r \<and> map_of r ''timestamp'' = Some (JNum ts) \<longrightarrow> ts \<le> m')"
  using assms
proof (induction new arbitrary: m)
  case (Cons x new)
  obtain i r where x: "x = (i, JObj r)" "\<forall>(n, v) \<in> set r. \<not> nested v" using Cons.prems by (cases x) auto
  have ts: "report_ts (delete_key ''id'' r) = report_ts r"
  proof -
    have "map_of (delete_key ''id'' r) ''timestamp'' = map_of r ''timestamp''"
      by (induction r) (auto simp: delete_key_def)
    then show ?thesis by (simp add: report_ts_def)
  qed
  define m1 where "m1 = (case report_ts r of Some ts \<Rightarrow> (if ts > m then ts else m) | None \<Rightarrow> m)"
  have m1: "m \<le> m1" "report_ts r = Some t \<Longrightarrow> t \<le> m1" for t by (auto simp: m1_def split: option.split)
  obtain m' where m': "delta_loop old new m1 = Some (map (\<lambda>(i, val). (i, case val of JObj r \<Rightarrow> JObj (compressed old i r) | _ \<Rightarrow> val)) new, m')"
      "m1 \<le> m'" "\<forall>(i, val) \<in> set new. \<forall>r ts. val = JObj r \<and> map_of r ''timestamp'' = Some (JNum ts) \<longrightarrow> ts \<le> m'"
    using Cons.IH[of m1] Cons.prems by auto
  have "delta_loop old (x # new) m = Some (map (\<lambda>(i, val). (i, case val of JObj r \<Rightarrow> JObj (compressed old i r) | _ \<Rightarrow> val)) (x # new), m')"
    using m'(1) by (simp add: x(1) ts m1_def[symmetric] compress_report_flat[OF x(2)])
  moreover have "\<And>t. map_of r ''timestamp'' = Some (JNum t) \<Longrightarrow> t \<le> m'"
    using m1(2) m'(2) by (force simp: report_ts_def)
  ultimately show ?case using m1(1) m'(2,3) x(1) by auto
qed simp

lemma map_of_set_key: "map_of (set_key k v r) n = (if n = k then Some v else map_of r n)"
  by (induction r) (auto simp: set_key_def delete_key_def)

lemma delta_fields:
  assumes wf: "stats_wf new"
  obtains delta m where "DeltaCompressionRtcStats old (Some new) = Some (Some delta)" "map_of delta ''timestamp'' = Some (JNum m)"
    "\<And>i ts. field new i ''timestamp'' = Some (JNum ts) \<Longrightarrow> ts \<le> m"
    "\<And>i n. field delta i n = (case field new i n of
        None \<Rightarrow> None
      | Some v \<Rightarrow> (if n = ''id'' \<or> field old i n = Some v then None
                   else if n = ''timestamp'' \<and> v = JNum m then Some (JNum 0) else Some v))"
proof -
  have reports: "\<forall>(i, val) \<in> set new. \<exists>r. val = JObj r \<and> distinct (map fst r) \<and> (\<forall>(n, v) \<in> set r. \<not> nested v)"
    and ids: "distinct (map fst new)" "''timestamp'' \<notin> fst ` set new"
    using wf by (auto simp: stats_wf_def)
  from reports have "\<forall>(i, val) \<in> set new. \<exists>r. val = JObj r \<and> (\<forall>(n, v) \<in> set r. \<not> nested v)" by fastforce
  from delta_loop_ok[OF this, of old "- 1"] obtain m where
      m: "delta_loop old new (- 1) = Some (map (\<lambda>(i, val). (i, case val of JObj r \<Rightarrow> JObj (compressed old i r) | _ \<Rightarrow> val)) new, m)"
      "\<forall>(i, val) \<in> set new. \<forall>r ts. val = JObj r \<and> map_of r ''timestamp'' = Some (JNum ts) \<longrightarrow> ts \<le> m" by blast
  define hoisted where "hoisted = (\<lambda>i val. hoist_ts m (case val of JObj r \<Rightarrow> JObj (compressed old i r) | _ \<Rightarrow> val))"
  define delta where "delta = set_key ''timestamp'' (JNum m) (map (\<lambda>(i, val). (i, hoisted i val)) new)"
  show thesis
  proof (rule that[of delta m])
    show "DeltaCompressionRtcStats old (Some new) = Some (Some delta)"
      by (simp add: DeltaCompressionRtcStats_def m(1) delta_def hoisted_def case_prod_unfold comp_def)
    show "map_of delta ''timestamp'' = Some (JNum m)" by (simp add: delta_def map_of_set_key)
    show "ts \<le> m" if "field new i ''timestamp'' = Some (JNum ts)" for i ts
      using that m(2) by (fastforce simp: field_def dest: map_of_SomeD split: option.splits json.splits)
    have new_ts: "map_of new ''timestamp'' = None" using ids(2) by (simp add: map_of_eq_None_iff)
    fix i n
    show "field delta i n = (case field new i n of
        None \<Rightarrow> None
      | Some v \<Rightarrow> (if n = ''id'' \<or> field old i n = Some v then None
                   else if n = ''timestamp'' \<and> v = JNum m then Some (JNum 0) else Some v))"
    proof (cases "map_of new i")
      case None
      then show ?thesis by (simp add: field_def delta_def map_of_set_key map_of_values)
    next
      case (Some val)
      then obtain r where r: "val = JObj r" "distinct (map fst r)" using reports map_of_SomeD[OF Some] by auto
      have i: "i \<noteq> ''timestamp''" using Some new_ts by auto
      have fn: "field new i n = map_of r n" for n by (simp add: field_def Some r)
      have c: "map_of (compressed old i r) n = (case map_of r n of Some v \<Rightarrow> (if n \<noteq> ''id'' \<and> field old i n \<noteq> Some v then Some v else None) | None \<Rightarrow> None)" for n
        unfolding compressed_def by (rule map_of_filter[OF r(2)])
      have "map_of delta i = Some (hoisted i (JObj r))" using i by (simp add: delta_def map_of_set_key map_of_values Some r)
      then show ?thesis
        unfolding fn
        by (auto simp: field_def[of delta] hoisted_def hoist_ts_def report_ts_def map_of_set_key c split: option.splits json.splits if_splits)
    qed
  qed
qed

text \<open>A nested value that is reported twice panics, and again at every later tick, since the baseline stays
  as it was; and the match of a codec with its stats does not look at the channels.\<close>

lemma stats_nested_panic:
  "n \<noteq> ''id'' \<Longrightarrow> DeltaCompressionRtcStats [(i, JObj [(n, JArr xs)])] (Some [(i, JObj [(n, JArr ys)])]) = None"
  by (simp add: DeltaCompressionRtcStats_def compress_report_def old_report_def delete_key_def go_eq_def)

lemma codec_match_ignores_channels: "getCodecStatsID (params\<lparr>cp_Channels := k\<rparr>) cs = getCodecStatsID params cs"
proof -
  have "codec_matches (params\<lparr>cp_Channels := k\<rparr>) = codec_matches params" by (simp add: fun_eq_iff codec_matches_def)
  then show ?thesis by (simp add: getCodecStatsID_def)
qed

lemma safe_conversions:
  "uint (SafeUint64ToUint32 i) = min (uint i) (2 ^ 32 - 1)" "SafeInt64ToInt32 j = max (- (2 ^ 31)) (min (2 ^ 31 - 1) j)"
  by (simp_all add: SafeUint64ToUint32_def SafeInt64ToInt32_def min_def max_def uint_word_of_int i32_id unsigned_ucast_eq take_bit_int_eq_self)

section \<open>Properties\<close>

text \<open>C20: delta compression loses nothing. For stats of unnested fields it does not panic, and a reader that holds
  the previous stats, whatever they were, restores every field of every report but the ids: a missing field
  is the old one, and a zero time stamp is the one hoisted to the top, which is the largest of all. What
  is sent has changed.\<close>

theorem stats_delta_rebuilds:
  assumes "stats_wf new" and "\<And>i. field new i ''timestamp'' \<noteq> Some (JNum 0)"
  shows "\<exists>delta m. DeltaCompressionRtcStats old (Some new) = Some (Some delta) \<and> map_of delta ''timestamp'' = Some (JNum m) \<and>
    (\<forall>i ts. field new i ''timestamp'' = Some (JNum ts) \<longrightarrow> ts \<le> m) \<and>
    (\<forall>i n v. n \<noteq> ''id'' \<and> field new i n = Some v \<longrightarrow> rebuild_field old delta i n = Some v) \<and>
    (\<forall>i n v. field delta i n = Some v \<longrightarrow> n \<noteq> ''id'' \<and> field new i n \<noteq> None \<and> field old i n \<noteq> field new i n)"
proof -
  obtain delta m where d: "DeltaCompressionRtcStats old (Some new) = Some (Some delta)" "map_of delta ''timestamp'' = Some (JNum m)"
      "\<And>i ts. field new i ''timestamp'' = Some (JNum ts) \<Longrightarrow> ts \<le> m"
      "\<And>i n. field delta i n = (case field new i n of
        None \<Rightarrow> None
      | Some v \<Rightarrow> (if n = ''id'' \<or> field old i n = Some v then None
                   else if n = ''timestamp'' \<and> v = JNum m then Some (JNum 0) else Some v))"
    using delta_fields[OF assms(1), of old] by blast
  have "rebuild_field old delta i n = Some v" if "n \<noteq> ''id''" "field new i n = Some v" for i n v
    using that assms(2)[of i] d(2) by (auto simp: rebuild_field_def d(4))
  moreover have "n \<noteq> ''id'' \<and> field new i n \<noteq> None \<and> field old i n \<noteq> field new i n" if "field delta i n = Some v" for i n v
    using that by (auto simp: d(4) split: option.splits if_splits)
  ultimately show ?thesis using d(1-3) by blast
qed

theorem stats_delta_rebuilds_witness:
  "(\<lambda>new. stats_wf new \<and> (\<exists>delta. DeltaCompressionRtcStats [(''a'', JObj [(''x'', JNum 3), (''timestamp'', JNum 5)])] (Some new) = Some (Some delta) \<and>
     rebuild_field [(''a'', JObj [(''x'', JNum 3), (''timestamp'', JNum 5)])] delta ''a'' ''x'' = Some (JNum 3) \<and>
     rebuild_field [(''a'', JObj [(''x'', JNum 3), (''timestamp'', JNum 5)])] delta ''a'' ''timestamp'' = Some (JNum 9)))
   [(''a'', JObj [(''id'', JStr ''a''), (''x'', JNum 3), (''timestamp'', JNum 9)])]"
proof -
  define new where "new = [(''a'', JObj [(''id'', JStr ''a''), (''x'', JNum 3), (''timestamp'', JNum 9)])]"
  define old where "old = [(''a'', JObj [(''x'', JNum 3), (''timestamp'', JNum 5)])]"
  have wf: "stats_wf new" by (simp add: new_def stats_wf_def nested_def)
  have ts: "field new i ''timestamp'' \<noteq> Some (JNum 0)" for i by (simp add: new_def field_def)
  have f: "field new ''a'' ''x'' = Some (JNum 3)" "field new ''a'' ''timestamp'' = Some (JNum 9)" by (simp_all add: new_def field_def)
  obtain delta where "DeltaCompressionRtcStats old (Some new) = Some (Some delta)"
      "\<forall>i n v. n \<noteq> ''id'' \<and> field new i n = Some v \<longrightarrow> rebuild_field old delta i n = Some v"
    using stats_delta_rebuilds[OF wf ts, of old] by (elim exE conjE) (rule that)
  moreover from this(2) f have "rebuild_field old delta ''a'' ''x'' = Some (JNum 3)" "rebuild_field old delta ''a'' ''timestamp'' = Some (JNum 9)"
    by simp_all
  ultimately show ?thesis using wf unfolding new_def[symmetric] old_def[symmetric] by (intro conjI exI[of _ delta])
qed



end
