(* ===== verification/Retry.thy ===== *)
theory Retry
  imports Prelude
begin

text \<open>
  The retrying HTTP transport, package \<open>rtretry\<close>. The transport it wraps, the context of the request and the body are
  an environment: what each attempt answers, whether the context is done after it or during the wait, and
  whether the body can be rewound. Waits are 64-bit durations and wrap.
\<close>

section \<open>Requests and answers\<close>

text \<open>An error: whether it is \<open>ErrMaxAttemptsReached\<close>, and for a \<open>url.Error\<close> its message and whether it wraps an
  unknown authority.\<close>

record http_error =
  he_maxAttempts :: bool
  he_url :: "(string \<times> bool) option"

record http_response =
  hr_StatusCode :: int
  hr_RetryAfter :: string

text \<open>What the wrapped transport returns: an error, a response, or neither.\<close>

datatype answer = AnswerError http_error | AnswerResponse http_response | AnswerNil

record http_request =
  rq_Method :: string
  rq_marked :: bool
  rq_hasBody :: bool
  rq_hasGetBody :: bool

record retry_options =
  o_maxRetries :: int
  o_retryableStatusCodes :: "int list"
  o_minWaitTime :: duration
  o_idempotentMethods :: "string list"

definition DefaultMinWaitTime :: duration where "DefaultMinWaitTime = 50 * Millisecond"
definition DefaultMaxAttempts :: int where "DefaultMaxAttempts = 5"

definition defaultOptions :: retry_options where
  "defaultOptions = \<lparr>o_maxRetries = DefaultMaxAttempts, o_retryableStatusCodes = [429, 503, 500, 504, 508],
     o_minWaitTime = DefaultMinWaitTime, o_idempotentMethods = [''GET'', ''HEAD'']\<rparr>"

section \<open>What is retried\<close>

definition isRequestMarkedAsRetryable :: "retry_options \<Rightarrow> http_request \<Rightarrow> bool" where
  "isRequestMarkedAsRetryable opts req \<longleftrightarrow> rq_Method req \<in> set (o_idempotentMethods opts) \<or> rq_marked req"

definition canReplayBody :: "http_request \<Rightarrow> bool" where
  "canReplayBody req \<longleftrightarrow> \<not> rq_hasBody req \<or> rq_hasGetBody req"

definition contains :: "string \<Rightarrow> string \<Rightarrow> bool" where
  "contains pat s = list_ex (\<lambda>i. take (length pat) (drop i s) = pat) [0..<Suc (length s)]"

definition is_digit :: "char \<Rightarrow> bool" where
  "is_digit c \<longleftrightarrow> (of_char c :: nat) \<ge> 48 \<and> (of_char c :: nat) \<le> 57"

text \<open>The expression \<open>stopped after \d+ redirects\z\<close>, from the end.\<close>

definition redirects_error :: "string \<Rightarrow> bool" where
  "redirects_error s =
    (let r = rev s; tl = rev '' redirects''; hd = rev ''stopped after '';
         rest = drop (length tl) r; digits = takeWhile is_digit rest; rest' = dropWhile is_digit rest
     in take (length tl) r = tl \<and> digits \<noteq> [] \<and> take (length hd) rest' = hd)"

definition isErrRetryable :: "http_error \<Rightarrow> bool" where
  "isErrRetryable err =
    (if he_maxAttempts err then False
     else case he_url err of
       None \<Rightarrow> True
     | Some (msg, unknownAuthority) \<Rightarrow>
        \<not> (redirects_error msg \<or> contains ''unsupported protocol scheme'' msg \<or> contains ''certificate is not trusted'' msg) \<and>
        \<not> unknownAuthority)"

definition getWaitTime :: "retry_options \<Rightarrow> nat \<Rightarrow> duration" where
  "getWaitTime opts attempt = i64 (o_minWaitTime opts * 2 ^ attempt)"

definition isStatusCodeRetryable :: "retry_options \<Rightarrow> int \<Rightarrow> bool" where
  "isStatusCodeRetryable opts statusCode = list_ex (\<lambda>c. c = statusCode) (o_retryableStatusCodes opts)"

text \<open>\<open>strconv.ParseInt(s, 10, 64)\<close>.\<close>

definition parse_digits :: "string \<Rightarrow> int option" where
  "parse_digits s =
    (if s \<noteq> [] \<and> list_all is_digit s then Some (foldl (\<lambda>n c. 10 * n + (of_char c - 48)) 0 s) else None)"

definition ParseInt :: "string \<Rightarrow> int option" where
  "ParseInt s =
    (case (case s of
       [] \<Rightarrow> None
     | c # cs \<Rightarrow> if c = CHR ''-'' then map_option uminus (parse_digits cs)
                 else if c = CHR ''+'' then parse_digits cs else parse_digits s) of
       None \<Rightarrow> None
     | Some n \<Rightarrow> if in_i64 n then Some n else None)"

definition shouldRetry :: "retry_options \<Rightarrow> answer \<Rightarrow> bool \<Rightarrow> nat \<Rightarrow> bool \<times> duration" where
  "shouldRetry opts answer wasReqRetryable attempt =
    (if \<not> wasReqRetryable then (False, 0)
     else case answer of
       AnswerError err \<Rightarrow> (if isErrRetryable err then (True, getWaitTime opts attempt) else (False, 0))
     | AnswerNil \<Rightarrow> (False, 0)
     | AnswerResponse resp \<Rightarrow>
        (let code = hr_StatusCode resp in
         if code \<ge> 200 \<and> code < 400 then (False, 0)
         else if code = 429 \<or> code = 503 then
           (True, case (if hr_RetryAfter resp \<noteq> [] then ParseInt (hr_RetryAfter resp) else None) of
                    Some sleep \<Rightarrow> i64 (Second * sleep)
                  | None \<Rightarrow> getWaitTime opts attempt)
         else if isStatusCodeRetryable opts code then (True, getWaitTime opts attempt)
         else (False, 0)))"

section \<open>The loop\<close>

text \<open>One attempt and what surrounds it.\<close>

record attempt =
  at_answer :: answer
  at_ctxDone :: bool
  at_rewinds :: bool
  at_ctxDoneWaiting :: bool

datatype outcome = Returned answer | ContextError | ErrMaxAttemptsReached

text \<open>The outcome, the requests sent and the waits between them, from attempt \<open>n\<close> on.\<close>

function rt_loop :: "retry_options \<Rightarrow> bool \<Rightarrow> (nat \<Rightarrow> attempt) \<Rightarrow> nat \<Rightarrow> outcome \<times> nat \<times> duration list" where
  "rt_loop opts retryable env n =
    (if int n < o_maxRetries opts then
       let a = env n; (again, sleep) = shouldRetry opts (at_answer a) retryable n in
       if \<not> again then (Returned (at_answer a), 1, [])
       else if at_ctxDone a then (ContextError, 1, [])
       else if \<not> at_rewinds a then (Returned (at_answer a), 1, [])
       else if at_ctxDoneWaiting a then (ContextError, 1, [])
       else let (res, sent, waits) = rt_loop opts retryable env (n + 1) in (res, sent + 1, sleep # waits)
     else (ErrMaxAttemptsReached, 0, []))"
  by pat_completeness auto
termination
  by (relation "measure (\<lambda>(opts, retryable, env, n). nat (o_maxRetries opts - int n))") auto

declare rt_loop.simps [simp del]

definition RoundTrip :: "retry_options \<Rightarrow> http_request \<Rightarrow> (nat \<Rightarrow> attempt) \<Rightarrow> outcome \<times> nat \<times> duration list" where
  "RoundTrip opts req env = rt_loop opts (isRequestMarkedAsRetryable opts req \<and> canReplayBody req) env 0"

section \<open>Properties\<close>

lemma rt_loop_bound:
  "rt_loop opts retryable env n = (res, sent, waits) \<Longrightarrow>
     int sent \<le> max 0 (o_maxRetries opts - int n) \<and> length waits \<le> sent \<and>
     (\<forall>i < length waits. waits ! i = snd (shouldRetry opts (at_answer (env (n + i))) retryable (n + i)) \<and>
        fst (shouldRetry opts (at_answer (env (n + i))) retryable (n + i))) \<and>
     (case res of
        ErrMaxAttemptsReached \<Rightarrow> int sent = max 0 (o_maxRetries opts - int n) \<and> length waits = sent
      | Returned a \<Rightarrow> sent = length waits + 1 \<and> a = at_answer (env (n + length waits)) \<and>
          (\<not> fst (shouldRetry opts a retryable (n + length waits)) \<or> \<not> at_rewinds (env (n + length waits)))
      | ContextError \<Rightarrow> sent = length waits + 1)"
proof (induction opts retryable env n arbitrary: res sent waits rule: rt_loop.induct)
  case (1 opts retryable env n)
  obtain again sleep where sr: "shouldRetry opts (at_answer (env n)) retryable n = (again, sleep)" by fastforce
  show ?case
  proof (cases "int n < o_maxRetries opts \<and> again \<and> \<not> at_ctxDone (env n) \<and> at_rewinds (env n) \<and> \<not> at_ctxDoneWaiting (env n)")
    case True
    obtain res' sent' waits' where r: "rt_loop opts retryable env (n + 1) = (res', sent', waits')" by (cases "rt_loop opts retryable env (n + 1)")
    have e: "res = res'" "sent = sent' + 1" "waits = sleep # waits'"
      using 1(2) True sr r by (subst (asm) rt_loop.simps; simp)+
    have IH: "int sent' \<le> max 0 (o_maxRetries opts - int (n + 1)) \<and> length waits' \<le> sent' \<and>
       (\<forall>i < length waits'. waits' ! i = snd (shouldRetry opts (at_answer (env (n + 1 + i))) retryable (n + 1 + i)) \<and>
          fst (shouldRetry opts (at_answer (env (n + 1 + i))) retryable (n + 1 + i))) \<and>
       (case res' of
          ErrMaxAttemptsReached \<Rightarrow> int sent' = max 0 (o_maxRetries opts - int (n + 1)) \<and> length waits' = sent'
        | Returned a \<Rightarrow> sent' = length waits' + 1 \<and> a = at_answer (env (n + 1 + length waits')) \<and>
            (\<not> fst (shouldRetry opts a retryable (n + 1 + length waits')) \<or> \<not> at_rewinds (env (n + 1 + length waits')))
        | ContextError \<Rightarrow> sent' = length waits' + 1)"
      by (rule 1(1)[OF _ refl sr[symmetric]]) (use True r in auto)
    have "waits ! i = snd (shouldRetry opts (at_answer (env (n + i))) retryable (n + i)) \<and>
        fst (shouldRetry opts (at_answer (env (n + i))) retryable (n + i))" if "i < length waits" for i
      using IH that True sr e(3) by (cases i) auto
    with IH True e show ?thesis by (auto split: outcome.splits)
  next
    case False
    with 1(2) sr show ?thesis by (subst (asm) rt_loop.simps) (auto simp: Let_def split: if_splits)
  qed
qed

text \<open>C21: retries are bounded and only for requests that are safe to replay. A round trip sends at most \<open>maxRetries\<close> requests
  and always ends. A request that is neither idempotent nor marked, or whose body cannot be sent again, is sent
  once and its answer returned as it is. An answer is returned at the first attempt that is not to be
  retried, each wait is the one computed for its attempt, and the error of exhausted attempts is
  returned exactly when every attempt asked for a retry. With \<open>maxRetries\<close> of zero or less nothing is sent.\<close>

theorem retry_outcome:
  assumes "RoundTrip opts req env = (res, sent, waits)"
  defines "retryable \<equiv> isRequestMarkedAsRetryable opts req \<and> canReplayBody req"
  shows "int sent \<le> max 0 (o_maxRetries opts) \<and> (o_maxRetries opts \<le> 0 \<longrightarrow> sent = 0 \<and> res = ErrMaxAttemptsReached) \<and>
    (0 < o_maxRetries opts \<and> \<not> retryable \<longrightarrow> res = Returned (at_answer (env 0)) \<and> sent = 1 \<and> waits = []) \<and>
    (\<forall>i < length waits. shouldRetry opts (at_answer (env i)) retryable i = (True, waits ! i)) \<and>
    (case res of
       Returned a \<Rightarrow> sent = length waits + 1 \<and> a = at_answer (env (length waits)) \<and>
         (\<not> fst (shouldRetry opts a retryable (length waits)) \<or> \<not> at_rewinds (env (length waits)))
     | ContextError \<Rightarrow> sent = length waits + 1
     | ErrMaxAttemptsReached \<Rightarrow> int sent = max 0 (o_maxRetries opts) \<and> length waits = sent)"
proof -
  have r: "rt_loop opts retryable env 0 = (res, sent, waits)" using assms(1) by (simp add: RoundTrip_def retryable_def)
  note b = rt_loop_bound[OF r]
  have "sent = 0 \<and> res = ErrMaxAttemptsReached" if "o_maxRetries opts \<le> 0"
    using r that by (subst (asm) rt_loop.simps) simp
  moreover have "res = Returned (at_answer (env 0)) \<and> sent = 1 \<and> waits = []" if "0 < o_maxRetries opts" "\<not> retryable"
    using r that by (subst (asm) rt_loop.simps) (simp add: shouldRetry_def)
  moreover have "shouldRetry opts (at_answer (env i)) retryable i = (True, waits ! i)" if "i < length waits" for i
    using b that by (auto simp: prod_eq_iff)
  moreover have "case res of
       Returned a \<Rightarrow> sent = length waits + 1 \<and> a = at_answer (env (length waits)) \<and>
         (\<not> fst (shouldRetry opts a retryable (length waits)) \<or> \<not> at_rewinds (env (length waits)))
     | ContextError \<Rightarrow> sent = length waits + 1
     | ErrMaxAttemptsReached \<Rightarrow> int sent = max 0 (o_maxRetries opts) \<and> length waits = sent"
    using b by (cases res) simp_all
  moreover have "int sent \<le> max 0 (o_maxRetries opts)" using b by simp
  ultimately show ?thesis by blast
qed

text \<open>A service that answers 503 with a wait, then succeeds.\<close>

definition flaky :: "nat \<Rightarrow> attempt" where
  "flaky n = \<lparr>at_answer = AnswerResponse \<lparr>hr_StatusCode = (if n = 0 then 503 else 200), hr_RetryAfter = (if n = 0 then ''2'' else [])\<rparr>,
     at_ctxDone = False, at_rewinds = True, at_ctxDoneWaiting = False\<rparr>"

theorem retry_outcome_witness:
  "RoundTrip defaultOptions \<lparr>rq_Method = ''GET'', rq_marked = False, rq_hasBody = False, rq_hasGetBody = False\<rparr> flaky =
     (Returned (at_answer (flaky 1)), 2, [2 * Second]) \<and> int 2 \<le> max 0 (o_maxRetries defaultOptions)"
proof -
  have p: "ParseInt ''2'' = Some 2" by code_simp
  have s: "shouldRetry defaultOptions (at_answer (flaky 0)) True 0 = (True, 2 * Second)"
      "shouldRetry defaultOptions (at_answer (flaky (Suc 0))) True (Suc 0) = (False, 0)"
    using p by (simp_all add: shouldRetry_def flaky_def i64_def Let_def)
  have "RoundTrip defaultOptions \<lparr>rq_Method = ''GET'', rq_marked = False, rq_hasBody = False, rq_hasGetBody = False\<rparr> flaky =
      (Returned (at_answer (flaky 1)), 2, [2 * Second])"
    using s unfolding RoundTrip_def
    by (subst rt_loop.simps, subst rt_loop.simps)
       (simp add: isRequestMarkedAsRetryable_def canReplayBody_def defaultOptions_def DefaultMaxAttempts_def flaky_def)
  with retry_outcome[OF this] show ?thesis by blast
qed

text \<open>A \<open>Retry-After\<close> of more than about 292 years wraps to a negative wait, which does not wait at all.\<close>

lemma retry_after_wraps:
  "shouldRetry opts (AnswerResponse \<lparr>hr_StatusCode = 503, hr_RetryAfter = ''9223372037''\<rparr>) True n = (True, - 9223372036709551616)"
proof -
  have "ParseInt ''9223372037'' = Some 9223372037" by code_simp
  then show ?thesis by (simp add: shouldRetry_def i64_def)
qed

end
