(* ===== verification/Red.thy ===== *)
theory Red
  imports Prelude
begin

text \<open>
  Redundant audio, \<open>internal/red\<close> (RFC 2198). The payload layout with its parser (\<open>red.go\<close>), the
  encoder that repeats the frames sent just before a packet (\<open>encoder.go\<close>), the decoder that
  recovers lost packets and hands every sequence number out once (\<open>decoder.go\<close>), and the
  packetizer that wraps an inner one (\<open>packetizer.go\<close>). The inner packetizer is pion's and is an
  argument here. The lemmas show that parsing an encoded payload returns the repeated frames and
  the primary one, how the decoder's 64-bit window implements a set of sequence numbers, and
  that a lost packet comes back from its successor.
\<close>

section \<open>Payload layout\<close>

definition MimeTypeAudio :: string where "MimeTypeAudio = ''audio/red''"
definition DefaultPayloadType :: uint8 where "DefaultPayloadType = 63"
definition OpusPayloadType :: uint8 where "OpusPayloadType = 111"
definition DefaultDistance :: int where "DefaultDistance = 2"
definition blockHeaderSize :: nat where "blockHeaderSize = 4"
definition primaryHeaderSize :: nat where "primaryHeaderSize = 1"
definition maxBlockLength :: nat where "maxBlockLength = 1023"
definition maxTimestampOffset :: uint32 where "maxTimestampOffset = 16383"
definition followBit :: uint8 where "followBit = 0x80"

lemmas red_consts = OpusPayloadType_def DefaultDistance_def blockHeaderSize_def
  primaryHeaderSize_def maxBlockLength_def maxTimestampOffset_def followBit_def

datatype red_error = ErrIncompleteHeader | ErrIncompleteBlock

record block =
  payloadType :: uint8
  tsOffset :: uint32
  b_payload :: "byte list"

text \<open>The header loop of \<open>parse\<close>: the blocks announced so far, their lengths and the bytes left;
  it ends with the primary payload type and the bytes behind the headers.\<close>

function parse_headers ::
    "block list \<Rightarrow> nat list \<Rightarrow> byte list \<Rightarrow> red_error + block list \<times> nat list \<times> uint8 \<times> byte list"
where
  "parse_headers redundant lengths rest =
    (if length rest < primaryHeaderSize then Inl ErrIncompleteHeader
     else if rest ! 0 AND followBit = 0 then
       Inr (redundant, lengths, rest ! 0 AND NOT followBit, drop primaryHeaderSize rest)
     else if length rest < blockHeaderSize then Inl ErrIncompleteHeader
     else
       let header = be_uint32 (rest ! 0) (rest ! 1) (rest ! 2) (rest ! 3) in
       parse_headers
         (redundant @ [\<lparr>payloadType = ucast (drop_bit 24 header) AND NOT followBit,
                        tsOffset = drop_bit 10 header AND maxTimestampOffset,
                        b_payload = []\<rparr>])
         (lengths @ [unat (header AND of_nat maxBlockLength)])
         (drop blockHeaderSize rest))"
  by pat_completeness auto
termination
  by (relation "measure (\<lambda>(_, _, rest). length rest)") (auto simp: red_consts)

declare parse_headers.simps [simp del]

fun fill_blocks :: "block list \<Rightarrow> nat list \<Rightarrow> byte list \<Rightarrow> red_error + block list \<times> byte list" where
  "fill_blocks (b # bs) (n # ns) rest =
    (if n > length rest then Inl ErrIncompleteBlock
     else case fill_blocks bs ns (drop n rest) of
       Inl e \<Rightarrow> Inl e
     | Inr (bs', rest') \<Rightarrow> Inr (b\<lparr>b_payload := take n rest\<rparr> # bs', rest'))"
| "fill_blocks [] ns rest = Inr ([], rest)"
| "fill_blocks bs [] rest = Inr (bs, rest)"

definition parse :: "byte list \<Rightarrow> red_error + block list \<times> block" where
  "parse pl = (case parse_headers [] [] pl of
      Inl e \<Rightarrow> Inl e
    | Inr (redundant, lengths, pt, rest) \<Rightarrow>
       (case fill_blocks redundant lengths rest of
          Inl e \<Rightarrow> Inl e
        | Inr (redundant', rest') \<Rightarrow>
            Inr (redundant', \<lparr>payloadType = pt, tsOffset = 0, b_payload = rest'\<rparr>)))"

definition Primary :: "byte list \<Rightarrow> red_error + byte list" where
  "Primary pl = (case parse pl of
      Inl e \<Rightarrow> Inl e
    | Inr (_, primary) \<Rightarrow> Inr (b_payload primary))"

section \<open>Encoder\<close>

record frame =
  f_seq :: uint16
  f_ts :: uint32
  f_payload :: "byte list"

record encoder =
  e_distance :: nat
  e_history :: "frame list"

definition NewEncoder :: "int \<Rightarrow> encoder" where
  "NewEncoder d = \<lparr>e_distance = nat (max d 0), e_history = []\<rparr>"

text \<open>The loop of \<open>precedingRun\<close> runs down from the newest frame; the argument is \<open>i + 1\<close> and the
  result is \<open>start\<close>.\<close>

primrec run_start :: "encoder \<Rightarrow> rtp_packet \<Rightarrow> nat \<Rightarrow> nat" where
  "run_start e pkt 0 = 0"
| "run_start e pkt (Suc i) =
    (let f = e_history e ! i; back = length (e_history e) - i in
     if back > e_distance e
       \<or> SequenceNumber (Header pkt) - f_seq f \<noteq> of_nat back
       \<or> Timestamp (Header pkt) - f_ts f > maxTimestampOffset
       \<or> length (f_payload f) > maxBlockLength
     then Suc i else run_start e pkt i)"

definition precedingRun :: "encoder \<Rightarrow> rtp_packet \<Rightarrow> frame list" where
  "precedingRun e pkt = drop (run_start e pkt (length (e_history e))) (e_history e)"

definition remember :: "encoder \<Rightarrow> rtp_packet \<Rightarrow> encoder" where
  "remember e pkt =
    (if e_distance e = 0 then e
     else
       let h = (if length (e_history e) = e_distance e then tl (e_history e) else e_history e) in
       e\<lparr>e_history := h @ [\<lparr>f_seq = SequenceNumber (Header pkt), f_ts = Timestamp (Header pkt),
                          f_payload = Payload pkt\<rparr>]\<rparr>)"

definition red_size :: "frame list \<Rightarrow> rtp_packet \<Rightarrow> nat" where
  "red_size repeat pkt = primaryHeaderSize + length (Payload pkt)
     + sum_list (map (\<lambda>f. blockHeaderSize + length (f_payload f)) repeat)"

fun drop_oldest :: "nat \<Rightarrow> int \<Rightarrow> frame list \<Rightarrow> frame list" where
  "drop_oldest sz maxSize [] = []"
| "drop_oldest sz maxSize (f # fs) =
    (if int sz > maxSize
     then drop_oldest (sz - (blockHeaderSize + length (f_payload f))) maxSize fs
     else f # fs)"

definition block_header :: "rtp_packet \<Rightarrow> frame \<Rightarrow> uint32" where
  "block_header pkt f = push_bit 24 (ucast (followBit OR OpusPayloadType))
     OR push_bit 10 (Timestamp (Header pkt) - f_ts f)
     OR of_nat (length (f_payload f))"

definition red_layout :: "rtp_packet \<Rightarrow> frame list \<Rightarrow> byte list" where
  "red_layout pkt repeat =
     concat (map (\<lambda>f. be_bytes32 (block_header pkt f)) repeat)
     @ [OpusPayloadType] @ concat (map f_payload repeat) @ Payload pkt"

definition Encode :: "encoder \<Rightarrow> rtp_packet \<Rightarrow> int \<Rightarrow> byte list \<times> encoder" where
  "Encode e pkt maxSize =
    (let repeat = precedingRun e pkt;
         repeat = drop_oldest (red_size repeat pkt) maxSize repeat
     in (red_layout pkt repeat, remember e pkt))"

section \<open>Decoder\<close>

definition window :: nat where "window = 64"

record decoder =
  d_started :: bool
  d_newest :: uint16
  d_seen :: uint64

definition NewDecoder :: decoder where
  "NewDecoder = \<lparr>d_started = False, d_newest = 0, d_seen = 0\<rparr>"

definition markSeen :: "decoder \<Rightarrow> uint16 \<Rightarrow> bool \<times> decoder" where
  "markSeen d s =
    (let ahead = sint (s - d_newest d) in
     if ahead > 0 then
       let sn = (if ahead \<ge> int window then 0 else push_bit (nat ahead) (d_seen d))
       in (True, d\<lparr>d_newest := s, d_seen := sn OR 1\<rparr>)
     else
       let back = d_newest d - s in
       if unat back \<ge> window then (True, d)
       else
         let bt = push_bit (unat back) (1 :: uint64) in
         if d_seen d AND bt \<noteq> 0 then (False, d)
         else (True, d\<lparr>d_seen := d_seen d OR bt\<rparr>))"

definition carried :: "rtp_packet \<Rightarrow> uint16 \<Rightarrow> uint32 \<Rightarrow> block \<Rightarrow> rtp_packet" where
  "carried pkt s t b =
    \<lparr>Header = (Header pkt)\<lparr>SequenceNumber := s, Timestamp := t, PayloadType := payloadType b,
       Marker := (if s \<noteq> SequenceNumber (Header pkt) then False else Marker (Header pkt))\<rparr>,
     Payload = b_payload b\<rparr>"

text \<open>The loop of \<open>Decode\<close> over the redundant blocks; \<open>n\<close> is \<open>len(redundant)-i\<close> of the block at
  the head of the list.\<close>

fun recover :: "rtp_packet \<Rightarrow> decoder \<Rightarrow> block list \<Rightarrow> rtp_packet list \<times> decoder" where
  "recover pkt d [] = ([], d)"
| "recover pkt d (b # bs) =
    (let n = length (b # bs);
         s = SequenceNumber (Header pkt) - of_nat n;
         (fresh, d') = markSeen d s;
         (out, d'') = recover pkt d' bs
     in (if fresh then carried pkt s (Timestamp (Header pkt) - tsOffset b) b # out else out, d''))"

definition Decode :: "decoder \<Rightarrow> rtp_packet \<Rightarrow> (red_error + rtp_packet list) \<times> decoder" where
  "Decode d pkt =
    (case parse (Payload pkt) of
       Inl e \<Rightarrow> (Inl e, d)
     | Inr (redundant, primary) \<Rightarrow>
        (let first = \<not> d_started d;
             d1 = (if first
                   then \<lparr>d_started = True, d_newest = SequenceNumber (Header pkt), d_seen = 0\<rparr> else d);
             (fresh, d2) = markSeen d1 (SequenceNumber (Header pkt))
         in if \<not> fresh then (Inr [], d2)
            else
              let (out, d3) = (if first then ([], d2) else recover pkt d2 redundant)
              in (Inr (out @ [carried pkt (SequenceNumber (Header pkt))
                                (Timestamp (Header pkt)) primary]), d3)))"

section \<open>Packetizer\<close>

definition maxPayloadSize :: int where "maxPayloadSize = 1100"

record 'p packetizer =
  p_inner :: 'p
  p_encoder :: encoder
  p_payloadType :: uint8

definition NewPacketizer :: "'p \<Rightarrow> uint8 \<Rightarrow> 'p packetizer" where
  "NewPacketizer i pt = \<lparr>p_inner = i, p_encoder = NewEncoder DefaultDistance, p_payloadType = pt\<rparr>"

fun wrap_all :: "uint8 \<Rightarrow> encoder \<Rightarrow> rtp_packet list \<Rightarrow> rtp_packet list \<times> encoder" where
  "wrap_all pt e [] = ([], e)"
| "wrap_all pt e (pkt # pkts) =
    (let (pl, e') = Encode e pkt maxPayloadSize;
         wrapped = pkt\<lparr>Header := (Header pkt)\<lparr>PayloadType := pt\<rparr>, Payload := pl\<rparr>;
         (rest, e'') = wrap_all pt e' pkts
     in (wrapped # rest, e''))"

definition Packetize ::
    "('p \<Rightarrow> byte list \<Rightarrow> uint32 \<Rightarrow> rtp_packet list \<times> 'p) \<Rightarrow>
     'p packetizer \<Rightarrow> byte list \<Rightarrow> uint32 \<Rightarrow> rtp_packet list \<times> 'p packetizer" where
  "Packetize inner_packetize p pl samples =
    (let (pkts, i) = inner_packetize (p_inner p) pl samples;
         (out, e) = wrap_all (p_payloadType p) (p_encoder p) pkts
     in (out, p\<lparr>p_inner := i, p_encoder := e\<rparr>))"

definition GeneratePadding ::
    "('p \<Rightarrow> uint32 \<Rightarrow> rtp_packet list \<times> 'p) \<Rightarrow>
     'p packetizer \<Rightarrow> uint32 \<Rightarrow> rtp_packet list \<times> 'p packetizer" where
  "GeneratePadding inner_padding p samples =
    (let (pkts, i) = inner_padding (p_inner p) samples
     in (map (\<lambda>pkt. pkt\<lparr>Header := (Header pkt)\<lparr>PayloadType := p_payloadType p\<rparr>\<rparr>) pkts, p\<lparr>p_inner := i\<rparr>))"

definition EnableAbsSendTime :: "('p \<Rightarrow> int \<Rightarrow> 'p) \<Rightarrow> 'p packetizer \<Rightarrow> int \<Rightarrow> 'p packetizer" where
  "EnableAbsSendTime inner_enable p value = p\<lparr>p_inner := inner_enable (p_inner p) value\<rparr>"

definition SkipSamples :: "('p \<Rightarrow> uint32 \<Rightarrow> 'p) \<Rightarrow> 'p packetizer \<Rightarrow> uint32 \<Rightarrow> 'p packetizer" where
  "SkipSamples inner_skip p skipped = p\<lparr>p_inner := inner_skip (p_inner p) skipped\<rparr>"

section \<open>The parser reads what the encoder writes\<close>

definition frame_ok :: "rtp_packet \<Rightarrow> frame \<Rightarrow> bool" where
  "frame_ok pkt f \<longleftrightarrow> Timestamp (Header pkt) - f_ts f \<le> maxTimestampOffset
     \<and> length (f_payload f) \<le> maxBlockLength"

definition block_of :: "rtp_packet \<Rightarrow> frame \<Rightarrow> block" where
  "block_of pkt f = \<lparr>payloadType = OpusPayloadType,
     tsOffset = Timestamp (Header pkt) - f_ts f, b_payload = f_payload f\<rparr>"

lemma block_header_bits:
  assumes "frame_ok pkt f"
  defines "h \<equiv> block_header pkt f"
  shows "ucast (drop_bit 24 h) = followBit OR OpusPayloadType"
    and "drop_bit 10 h AND maxTimestampOffset = Timestamp (Header pkt) - f_ts f"
    and "unat (h AND of_nat maxBlockLength) = length (f_payload f)"
proof -
  define t where "t = Timestamp (Header pkt) - f_ts f"
  define n :: uint32 where "n = of_nat (length (f_payload f))"
  have t: "uint t < 2 ^ 14" and len: "length (f_payload f) \<le> 1023"
    using assms by (simp_all add: frame_ok_def t_def red_consts word_le_def)
  then have un: "unat n = length (f_payload f)"
    by (simp add: n_def unat_of_nat)
  then have n: "uint n < 2 ^ 10"
    using len by (simp add: uint_nat)
  have h: "h = push_bit 24 (0xEF :: uint32) OR push_bit 10 t OR n"
    by (simp add: h_def block_header_def t_def n_def red_consts)
  note tb = small_word_bit [OF t] and nb = small_word_bit [OF n]
  have tl: "k < 14" if "bit t k" for k
    using tb that not_le by blast
  show "ucast (drop_bit 24 h) = followBit OR OpusPayloadType"
    by (rule bit_word_eqI) (auto simp: h red_consts bit_simps tb nb)
  have m: "maxTimestampOffset = mask 14" "of_nat maxBlockLength = (mask 10 :: uint32)"
    by (simp_all add: red_consts mask_eq_exp_minus_1)
  have "drop_bit 10 h AND mask 14 = t"
    by (rule bit_word_eqI) (auto simp: h bit_simps nb dest: tl simp del: push_bit_numeral)
  then show "drop_bit 10 h AND maxTimestampOffset = Timestamp (Header pkt) - f_ts f"
    by (simp add: m t_def)
  have nl: "k < 10" if "bit n k" for k
    using nb that not_le by blast
  have "h AND mask 10 = n"
    by (rule bit_word_eqI) (auto simp: h bit_simps tb dest: nl simp del: push_bit_numeral)
  then show "unat (h AND of_nat maxBlockLength) = length (f_payload f)"
    by (simp add: m un)
qed

lemma parse_headers_primary [simp]:
  "parse_headers rs ls (OpusPayloadType # rest) = Inr (rs, ls, OpusPayloadType, rest)"
  by (subst parse_headers.simps) (simp add: red_consts)

lemma parse_headers_follow:
  assumes "(ucast (drop_bit 24 h) :: byte) AND followBit \<noteq> 0"
  shows "parse_headers rs ls (be_bytes32 h @ rest) =
    parse_headers (rs @ [\<lparr>payloadType = ucast (drop_bit 24 h) AND NOT followBit,
        tsOffset = drop_bit 10 h AND maxTimestampOffset, b_payload = []\<rparr>])
      (ls @ [unat (h AND of_nat maxBlockLength)]) rest"
  using assms
  by (subst parse_headers.simps)
     (simp add: be_bytes32_def be_uint32_bytes blockHeaderSize_def primaryHeaderSize_def Let_def)

lemma parse_headers_block [simp]:
  assumes "frame_ok pkt f"
  shows "parse_headers rs ls (be_bytes32 (block_header pkt f) @ rest) =
    parse_headers (rs @ [\<lparr>payloadType = OpusPayloadType,
        tsOffset = Timestamp (Header pkt) - f_ts f, b_payload = []\<rparr>])
      (ls @ [length (f_payload f)]) rest"
  by (subst parse_headers_follow)
     (simp_all add: block_header_bits [OF assms] followBit_def OpusPayloadType_def)

lemma parse_headers_layout:
  assumes "list_all (frame_ok pkt) fs"
  shows "parse_headers rs ls (concat (map (\<lambda>f. be_bytes32 (block_header pkt f)) fs)
      @ OpusPayloadType # rest) =
    Inr (rs @ map (\<lambda>f. (block_of pkt f)\<lparr>b_payload := []\<rparr>) fs,
         ls @ map (\<lambda>f. length (f_payload f)) fs, OpusPayloadType, rest)"
  using assms by (induction fs arbitrary: rs ls) (simp_all add: block_of_def)

lemma fill_blocks_layout:
  "fill_blocks (map (\<lambda>f. (block_of pkt f)\<lparr>b_payload := []\<rparr>) fs)
     (map (\<lambda>f. length (f_payload f)) fs) (concat (map f_payload fs) @ rest) =
   Inr (map (block_of pkt) fs, rest)"
  by (induction fs) (simp_all add: block_of_def)

lemma parse_layout:
  assumes "list_all (frame_ok pkt) fs"
  shows "parse (red_layout pkt fs) = Inr (map (block_of pkt) fs,
    \<lparr>payloadType = OpusPayloadType, tsOffset = 0, b_payload = Payload pkt\<rparr>)"
  using assms
  by (simp add: parse_def red_layout_def parse_headers_layout fill_blocks_layout)

lemma red_layout_length: "length (red_layout pkt fs) = red_size fs pkt"
  by (induction fs) (simp_all add: red_layout_def red_size_def red_consts)

section \<open>What the encoder repeats\<close>

lemma run_start_le: "run_start e pkt n \<le> n"
  by (induction n) (auto simp: Let_def le_SucI)

text \<open>A run of frames directly before a packet: the frame \<open>k\<close> places from the end carries the
  packet's sequence number minus \<open>k\<close>.\<close>

fun preceding :: "rtp_packet \<Rightarrow> frame list \<Rightarrow> bool" where
  "preceding pkt [] = True"
| "preceding pkt (f # fs) \<longleftrightarrow> frame_ok pkt f \<and>
     f_seq f = SequenceNumber (Header pkt) - of_nat (length (f # fs)) \<and> preceding pkt fs"

lemma preceding_frame_ok: "preceding pkt fs \<Longrightarrow> list_all (frame_ok pkt) fs"
  by (induction fs) auto

lemma preceding_drop: "preceding pkt fs \<Longrightarrow> preceding pkt (drop n fs)"
  by (induction fs arbitrary: n) (auto simp: drop_Cons split: nat.split)

lemma run_start_preceding:
  assumes "n \<le> length (e_history e)" "preceding pkt (drop n (e_history e))"
  shows "preceding pkt (drop (run_start e pkt n) (e_history e))"
  using assms
proof (induction n)
  case (Suc i)
  let ?f = "e_history e ! i"
  have d: "drop i (e_history e) = ?f # drop (Suc i) (e_history e)"
    using Suc.prems by (simp add: Cons_nth_drop_Suc)
  show ?case
    using Suc d by (auto simp: Let_def frame_ok_def algebra_simps Suc_diff_le)
qed simp

lemma precedingRun_preceding: "preceding pkt (precedingRun e pkt)"
  by (simp add: precedingRun_def run_start_preceding)

lemma drop_oldest_suffix: "\<exists>n. drop_oldest sz m fs = drop n fs"
proof (induction fs arbitrary: sz)
  case (Cons f fs)
  then obtain n where "drop_oldest (sz - (blockHeaderSize + length (f_payload f))) m fs = drop n fs"
    by blast
  then show ?case
    by (auto intro: exI [of _ "Suc n"] exI [of _ 0])
qed simp

lemma red_size_tail [simp]:
  "red_size (f # fs) pkt - (blockHeaderSize + length (f_payload f)) = red_size fs pkt"
  by (simp add: red_size_def)

lemma drop_oldest_fits:
  "drop_oldest (red_size fs pkt) m fs = [] \<or> int (red_size (drop_oldest (red_size fs pkt) m fs) pkt) \<le> m"
  by (induction fs) auto

definition repeated :: "encoder \<Rightarrow> rtp_packet \<Rightarrow> int \<Rightarrow> frame list" where
  "repeated e pkt m = drop_oldest (red_size (precedingRun e pkt) pkt) m (precedingRun e pkt)"

lemma Encode_repeated: "Encode e pkt m = (red_layout pkt (repeated e pkt m), remember e pkt)"
  by (simp add: Encode_def repeated_def Let_def)

lemma repeated_preceding: "preceding pkt (repeated e pkt m)"
  by (metis repeated_def drop_oldest_suffix preceding_drop precedingRun_preceding)

section \<open>The decoder's window is a set of sequence numbers\<close>

definition seen_in :: "decoder \<Rightarrow> uint16 \<Rightarrow> bool" where
  "seen_in d s \<longleftrightarrow> unat (d_newest d - s) < window \<and> bit (d_seen d) (unat (d_newest d - s))"

lemma ahead_unat:
  fixes x :: uint16
  assumes "0 < sint x"
  shows "sint x = int (unat x)" "unat x < 2 ^ 15" "0 < unat x" "unat (- x) = 2 ^ 16 - unat x"
proof -
  have u: "uint x < 2 ^ 16"
    using uint_lt2p [of x] by simp
  then have "sint x = uint x - 2 ^ 16 * of_bool (bit (uint x) 15)"
    by (simp add: sint_uint signed_take_bit_eq_take_bit_minus take_bit_int_eq_self)
  then have s: "sint x = uint x"
    using assms u by (auto split: if_splits)
  then show i: "sint x = int (unat x)"
    by simp
  show "unat x < 2 ^ 15"
    using sint_lt [of x] s by (intro of_nat_less_iff [where 'a = int, THEN iffD1]) simp
  show "0 < unat x"
    using assms by (cases "x = 0") (simp_all add: unat_gt_0)
  then show "unat (- x) = 2 ^ 16 - unat x"
    using unat_sub_if' [of 0 x] by (simp add: word_size)
qed

lemma markSeen_newest:
  "d_newest (snd (markSeen d k)) = (if 0 < sint (k - d_newest d) then k else d_newest d)"
  by (auto simp: markSeen_def Let_def)

lemma markSeen_started [simp]: "d_started (snd (markSeen d k)) = d_started d"
  by (auto simp: markSeen_def Let_def)

lemma and_push_bit_1: "(w :: uint64) AND 2 ^ n = 0 \<longleftrightarrow> \<not> bit w n"
  by (metis bit_iff_and_push_bit_not_eq_0 push_bit_of_1)

lemma markSeen_answer: "fst (markSeen d k) \<longleftrightarrow> \<not> seen_in d k"
proof (cases "0 < sint (k - d_newest d)")
  case True
  have "\<not> unat (d_newest d - k) < 64"
    using ahead_unat(2,4) [OF True] by simp
  then show ?thesis
    using True by (simp add: markSeen_def seen_in_def Let_def window_def)
next
  case False
  then show ?thesis
    by (auto simp: markSeen_def seen_in_def Let_def and_push_bit_1)
qed

text \<open>The exact effect of \<open>markSeen\<close>: the window now holds the old numbers and the new one,
  less those that have fallen 64 or more behind the newest.\<close>

lemma markSeen_seen_in:
  "seen_in (snd (markSeen d k)) s \<longleftrightarrow>
     (s = k \<or> seen_in d s) \<and> unat (d_newest (snd (markSeen d k)) - s) < window"
proof (cases "0 < sint (k - d_newest d)")
  case True
  let ?a = "unat (k - d_newest d)" and ?j = "unat (d_newest d - s)" and ?i = "unat (k - s)"
  have a: "sint (k - d_newest d) = int ?a" "?a < 2 ^ 15" "0 < ?a"
    using ahead_unat [OF True] by simp_all
  have i: "?i = (?a + ?j) mod 2 ^ 16"
    using unat_word_ariths(1) [of "k - d_newest d" "d_newest d - s"] by simp
  have j: "?j < 2 ^ 16"
    using unsigned_less [of "d_newest d - s"] by simp
  have fwd: "?i = ?a + ?j" if "?j < 64"
    using that a i by simp
  have bwd: "?j = ?i - ?a" if "?i < 64" "?a \<le> ?i"
    using mod_sum_ge [OF a(2) j] that i by simp
  show ?thesis
  proof (cases "s = k")
    case True
    then show ?thesis using \<open>0 < sint (k - d_newest d)\<close>
      by (simp add: seen_in_def markSeen_def Let_def bit_simps window_def)
  next
    case False
    then have "?i \<noteq> 0"
      by (simp add: unat_eq_0)
    then have new: "seen_in (snd (markSeen d k)) s \<longleftrightarrow>
        ?i < 64 \<and> ?a \<le> ?i \<and> bit (d_seen d) (?i - ?a)"
      using True a(2,3)
      by (auto simp: seen_in_def markSeen_def Let_def bit_simps window_def a(1) simp del: of_nat_unat)
    have "d_newest (snd (markSeen d k)) = k"
      using True by (simp add: markSeen_newest)
    moreover have "?j < 64 \<and> bit (d_seen d) ?j \<and> ?i < 64 \<longleftrightarrow>
        ?i < 64 \<and> ?a \<le> ?i \<and> bit (d_seen d) (?i - ?a)"
      (is "?L \<longleftrightarrow> ?R")
    proof
      assume ?L
      then show ?R using fwd by simp
    next
      assume R: ?R
      then have "?j = ?i - ?a" using bwd by simp
      then show ?L using R by (simp add: less_imp_diff_less)
    qed
    ultimately show ?thesis
      using False new by (simp add: seen_in_def window_def)
  qed
next
  case False
  then show ?thesis
    by (auto simp: seen_in_def markSeen_def Let_def bit_simps window_def and_push_bit_1
        dest!: unsigned_word_eqI)
qed

definition in_span :: "uint16 \<Rightarrow> uint16 \<Rightarrow> bool" where
  "in_span base s \<longleftrightarrow> unat (s - base) < window"

lemma sint_pos_iff: "0 < sint (x :: uint16) \<longleftrightarrow> 0 < unat x \<and> unat x < 2 ^ 15"
proof
  assume "0 < sint x"
  then show "0 < unat x \<and> unat x < 2 ^ 15"
    using ahead_unat(2,3) by simp
next
  assume a: "0 < unat x \<and> unat x < 2 ^ 15"
  then have "sint x = int (unat x)"
    by (simp add: sint_uint uint_nat signed_take_bit_int_eq_self del: of_nat_unat)
  then show "0 < sint x"
    using a by (simp del: of_nat_unat)
qed

lemma span_order:
  assumes "in_span base a" "in_span base b"
  shows "unat (b - base) \<le> unat (a - base) \<Longrightarrow> unat (a - b) = unat (a - base) - unat (b - base)"
    and "0 < sint (a - b) \<longleftrightarrow> unat (b - base) < unat (a - base)"
proof -
  have e: "unat (a - b) = (if unat (b - base) \<le> unat (a - base)
      then unat (a - base) - unat (b - base) else unat (a - base) + 2 ^ 16 - unat (b - base))"
    using unat_sub_if' [of "a - base" "b - base"] by simp
  then show "unat (b - base) \<le> unat (a - base) \<Longrightarrow> unat (a - b) = unat (a - base) - unat (b - base)"
    by simp
  show "0 < sint (a - b) \<longleftrightarrow> unat (b - base) < unat (a - base)"
    using assms e by (auto simp: sint_pos_iff in_span_def window_def split: if_splits)
qed

lemma span_mark:
  assumes "in_span base (d_newest d)" "in_span base k" "in_span base s"
  shows "seen_in (snd (markSeen d k)) s \<longleftrightarrow> s = k \<or> seen_in d s"
proof -
  let ?n' = "d_newest (snd (markSeen d k))"
  have n': "in_span base ?n'"
    using assms by (simp add: markSeen_newest)
  have ge: "unat (d_newest d - base) \<le> unat (?n' - base)" "unat (k - base) \<le> unat (?n' - base)"
    using span_order(2) [OF assms(2,1)] by (auto simp: markSeen_newest)
  have close: "unat (?n' - s) < window" if "unat (s - base) \<le> unat (?n' - base)"
    using span_order(1) [OF n' assms(3) that] n' by (simp add: in_span_def)
  have "unat (s - base) \<le> unat (d_newest d - base)" if "seen_in d s"
  proof (rule ccontr)
    assume "\<not> unat (s - base) \<le> unat (d_newest d - base)"
    then have "0 < sint (s - d_newest d)"
      using span_order(2) [OF assms(3,1)] by simp
    then have "unat (d_newest d - s) \<ge> 2 ^ 15"
      using ahead_unat(2,4) by fastforce
    then show False
      using that by (simp add: seen_in_def window_def)
  qed
  then show ?thesis
    using close ge by (auto simp: markSeen_seen_in dest: order_trans)
qed

interpretation red_once: once_filter markSeen "\<lambda>d. {s. seen_in d s}"
    "\<lambda>d. in_span base (d_newest d)" "{s. in_span base s}" for base
  by unfold_locales (auto simp: markSeen_answer span_mark markSeen_newest)

section \<open>A whole stream through the decoder\<close>

fun decode_all :: "decoder \<Rightarrow> rtp_packet list \<Rightarrow> rtp_packet list \<times> decoder" where
  "decode_all d [] = ([], d)"
| "decode_all d (pkt # pkts) =
    (let (r, d') = Decode d pkt;
         (out, d'') = decode_all d' pkts
     in ((case r of Inl _ \<Rightarrow> [] | Inr ps \<Rightarrow> ps) @ out, d''))"

abbreviation seqs :: "rtp_packet list \<Rightarrow> uint16 list" where
  "seqs ps \<equiv> map (\<lambda>p. SequenceNumber (Header p)) ps"

text \<open>Every sequence number a packet can yield lies in the span.\<close>

definition packet_in_span :: "uint16 \<Rightarrow> rtp_packet \<Rightarrow> bool" where
  "packet_in_span base pkt \<longleftrightarrow> in_span base (SequenceNumber (Header pkt)) \<and>
     (case parse (Payload pkt) of Inl _ \<Rightarrow> True
      | Inr (bs, _) \<Rightarrow> list_all (\<lambda>i. in_span base (SequenceNumber (Header pkt) - of_nat i))
                          [1 ..< Suc (length bs)])"

lemma carried_seq [simp]: "SequenceNumber (Header (carried pkt s t b)) = s"
  by (simp add: carried_def)

lemma recover_hands_out:
  assumes "in_span base (d_newest d)"
    and "list_all (\<lambda>i. in_span base (SequenceNumber (Header pkt) - of_nat i)) [1 ..< Suc (length bs)]"
  shows "red_once.hands_out base d (seqs (fst (recover pkt d bs))) (snd (recover pkt d bs))"
  using assms
proof (induction bs arbitrary: d)
  case Nil
  then show ?case by (simp add: red_once.hands_out_nil)
next
  case (Cons b bs)
  let ?s = "SequenceNumber (Header pkt) - of_nat (length (b # bs))"
  obtain r d' where m: "markSeen d ?s = (r, d')" by fastforce
  have "in_span base ?s"
    using Cons.prems by simp
  then have first: "red_once.hands_out base d (if r then [?s] else []) d'"
    using red_once.hands_out_mark [of base d ?s] Cons.prems(1) m by simp
  then have "in_span base (d_newest d')"
    by (rule red_once.hands_out_inv)
  then have "red_once.hands_out base d' (seqs (fst (recover pkt d' bs))) (snd (recover pkt d' bs))"
    using Cons by simp
  from red_once.hands_out_trans [OF first this] show ?case
    using m by (cases r) (simp_all add: split_beta Let_def)
qed

lemma recover_started [simp]: "d_started (snd (recover pkt d bs)) = d_started d"
  by (induction bs arbitrary: d) (auto simp: Let_def split_beta)

text \<open>One call of \<open>Decode\<close> on a started decoder.\<close>

lemma Decode_started_hands_out:
  assumes "d_started d" "in_span base (d_newest d)" "packet_in_span base pkt"
    and "Decode d pkt = (r, d')"
  shows "red_once.hands_out base d (seqs (case r of Inl _ \<Rightarrow> [] | Inr ps \<Rightarrow> ps)) d' \<and> d_started d'"
proof (cases "parse (Payload pkt)")
  case (Inl e)
  then show ?thesis
    using assms by (auto simp: Decode_def red_once.hands_out_nil)
next
  case (Inr x)
  obtain bs p where x: "x = (bs, p)" by fastforce
  let ?s = "SequenceNumber (Header pkt)"
  have s: "in_span base ?s"
    and bs: "list_all (\<lambda>i. in_span base (?s - of_nat i)) [1 ..< Suc (length bs)]"
    using assms(3) Inr x by (simp_all add: packet_in_span_def)
  obtain f d2 where m: "markSeen d ?s = (f, d2)" by fastforce
  have m1: "red_once.hands_out base d (if f then [?s] else []) d2"
    using red_once.hands_out_mark [of base d ?s] assms(2) s m by simp
  then have "in_span base (d_newest d2)"
    by (rule red_once.hands_out_inv)
  then have "red_once.hands_out base d2 (seqs (fst (recover pkt d2 bs))) (snd (recover pkt d2 bs))"
    using bs recover_hands_out by blast
  from red_once.hands_out_swap [OF red_once.hands_out_trans [OF m1 this]] m1 show ?thesis
    using assms(1,4) Inr x m markSeen_started [of d ?s]
    by (cases f) (auto simp: Decode_def Let_def split_beta)
qed

lemma Decode_first:
  assumes "\<not> d_started d" "parse (Payload pkt) = Inr (bs, p)"
  shows "Decode d pkt = (Inr [carried pkt (SequenceNumber (Header pkt)) (Timestamp (Header pkt)) p],
    \<lparr>d_started = True, d_newest = SequenceNumber (Header pkt), d_seen = 1\<rparr>)"
  using assms by (simp add: Decode_def markSeen_def Let_def window_def)

lemma decode_all_started:
  assumes "d_started d" "in_span base (d_newest d)" "list_all (packet_in_span base) pkts"
  shows "red_once.hands_out base d (seqs (fst (decode_all d pkts))) (snd (decode_all d pkts))"
  using assms
proof (induction pkts arbitrary: d)
  case Nil
  then show ?case by (simp add: red_once.hands_out_nil)
next
  case (Cons pkt pkts)
  obtain r d' where D: "Decode d pkt = (r, d')" by fastforce
  have h: "red_once.hands_out base d (seqs (case r of Inl _ \<Rightarrow> [] | Inr ps \<Rightarrow> ps)) d'" "d_started d'"
    using Decode_started_hands_out [OF _ _ _ D] Cons.prems by auto
  then have "red_once.hands_out base d' (seqs (fst (decode_all d' pkts))) (snd (decode_all d' pkts))"
    using Cons red_once.hands_out_inv [OF h(1)] by simp
  from red_once.hands_out_trans [OF h(1) this] show ?case
    using D by (simp add: split_beta Let_def)
qed

lemma decode_all_distinct:
  assumes "list_all (packet_in_span base) pkts" "\<not> d_started d"
  shows "distinct (seqs (fst (decode_all d pkts)))"
  using assms
proof (induction pkts)
  case (Cons pkt pkts)
  show ?case
  proof (cases "parse (Payload pkt)")
    case (Inl e)
    then show ?thesis
      using Cons by (simp add: Decode_def split_beta)
  next
    case (Inr x)
    obtain bs p where x: "x = (bs, p)" by fastforce
    let ?d = "\<lparr>d_started = True, d_newest = SequenceNumber (Header pkt), d_seen = 1\<rparr>"
    have "in_span base (SequenceNumber (Header pkt))"
      using Cons.prems by (simp add: packet_in_span_def)
    then have "red_once.hands_out base ?d (seqs (fst (decode_all ?d pkts))) (snd (decode_all ?d pkts))"
      using Cons.prems by (intro decode_all_started) simp_all
    moreover have "seen_in ?d (SequenceNumber (Header pkt))"
      by (simp add: seen_in_def window_def)
    ultimately show ?thesis
      using Decode_first [OF Cons.prems(2)] Inr x
      by (auto simp: split_beta red_once.hands_out_distinct dest: red_once.hands_out_fresh)
  qed
qed simp

section \<open>A lost packet comes back from its successor\<close>

lemma run_start_distance: "n \<le> length (e_history e) \<Longrightarrow> length (e_history e) - n \<le> e_distance e \<Longrightarrow>
    length (e_history e) - run_start e pkt n \<le> e_distance e"
  by (induction n) (auto simp: Let_def)

lemma precedingRun_distance: "length (precedingRun e pkt) \<le> e_distance e"
  by (simp add: precedingRun_def run_start_distance)

lemma repeated_distance: "length (repeated e pkt m) \<le> e_distance e"
  by (metis repeated_def drop_oldest_suffix precedingRun_distance length_drop diff_le_self le_trans)

abbreviation frame_of :: "rtp_packet \<Rightarrow> frame" where
  "frame_of p \<equiv> \<lparr>f_seq = SequenceNumber (Header p), f_ts = Timestamp (Header p),
     f_payload = Payload p\<rparr>"

lemma remember_last:
  "0 < e_distance e \<Longrightarrow> \<exists>h. e_history (remember e p) = h @ [frame_of p]"
  by (auto simp: remember_def Let_def)

lemma remember_distance [simp]: "e_distance (remember e p) = e_distance e"
  by (auto simp: remember_def Let_def)

lemma precedingRun_last:
  assumes "e_history e = h @ [f]" "0 < e_distance e" "frame_ok q f"
    and "SequenceNumber (Header q) - f_seq f = 1"
  shows "\<exists>fs. precedingRun e q = fs @ [f]"
proof -
  have "run_start e q (length (e_history e)) = run_start e q (length h)"
    using assms by (auto simp: Let_def frame_ok_def dest: leD)
  then have "precedingRun e q = drop (run_start e q (length h)) h @ [f]"
    using assms(1) run_start_le [of e q "length h"] by (simp add: precedingRun_def)
  then show ?thesis by blast
qed

lemma drop_oldest_keeps_last:
  assumes "int (red_size [f] q) \<le> m"
  shows "\<exists>gs. drop_oldest (red_size (fs @ [f]) q) m (fs @ [f]) = gs @ [f]"
proof (induction fs)
  case (Cons g fs)
  show ?case
    using Cons red_size_tail [of g "fs @ [f]" q] by (auto simp del: red_size_tail)
qed (use assms in simp)

lemma of_nat_ne_1: "2 \<le> n \<Longrightarrow> n \<le> 2 ^ 16 \<Longrightarrow> (of_nat n :: uint16) \<noteq> 1"
proof
  assume "2 \<le> n" "n \<le> 2 ^ 16" and one: "(of_nat n :: uint16) = 1"
  then have "n mod 2 ^ 16 = 1"
    using unat_of_nat [of n, where 'a = 16] by (simp only: one) simp
  then show False
    using \<open>2 \<le> n\<close> \<open>n \<le> 2 ^ 16\<close> by (cases "n = 2 ^ 16") auto
qed

lemma recover_last:
  assumes "\<not> seen_in d (SequenceNumber (Header pkt) - 1)" "length bs < 2 ^ 16"
  shows "carried pkt (SequenceNumber (Header pkt) - 1) (Timestamp (Header pkt) - tsOffset b) b
    \<in> set (fst (recover pkt d (bs @ [b])))"
  using assms
proof (induction bs arbitrary: d)
  case Nil
  then show ?case
    using markSeen_answer by (auto simp: split_beta Let_def)
next
  case (Cons c bs)
  let ?k = "SequenceNumber (Header pkt) - of_nat (length (c # bs @ [b]))"
  have "(of_nat (length (c # bs @ [b])) :: uint16) \<noteq> 1"
    using Cons.prems by (intro of_nat_ne_1) simp_all
  then have "SequenceNumber (Header pkt) - 1 \<noteq> ?k"
    by (metis diff_left_imp_eq)
  then have "\<not> seen_in (snd (markSeen d ?k)) (SequenceNumber (Header pkt) - 1)"
    using Cons.prems(1) by (simp only: markSeen_seen_in) simp
  then show ?case
    using Cons by (auto simp: split_beta Let_def)
qed

lemma lost_packet_helper:
  assumes d: "d_started d" "\<not> seen_in d (SequenceNumber (Header q))"
    "\<not> seen_in d (SequenceNumber (Header q) - 1)"
    and pl: "parse (Payload r) = Inr (bs @ [b], prim)" "Header r = Header q"
    and n: "length bs < 2 ^ 16"
  shows "\<exists>out. fst (Decode d r) = Inr out \<and>
    carried r (SequenceNumber (Header q) - 1) (Timestamp (Header q) - tsOffset b) b \<in> set out"
proof -
  let ?d2 = "snd (markSeen d (SequenceNumber (Header q)))"
  have m: "fst (markSeen d (SequenceNumber (Header q)))"
    using d by (simp add: markSeen_answer)
  have "SequenceNumber (Header q) - 1 \<noteq> SequenceNumber (Header q)"
    by simp
  then have "\<not> seen_in ?d2 (SequenceNumber (Header r) - 1)"
    using d(3) pl(2) by (simp only: markSeen_seen_in) simp
  from recover_last [OF this n, of b] show ?thesis
    using d m pl by (simp add: Decode_def Let_def split_beta)
qed

section \<open>Properties\<close>

text \<open>C4: whatever the encoder remembers, the payload \<open>Encode\<close> returns parses back: the redundant
  blocks are a suffix of the history, oldest first, each with its frame's payload and its
  timestamp as an offset, their sequence numbers are exactly the ones directly before the
  packet (so the receiver numbers them correctly by position), and the primary block is the
  packet's own payload.\<close>

theorem red_encode_parse:
  "\<exists>n. let fs = drop n (e_history e) in
     parse (fst (Encode e pkt maxSize)) = Inr
       (map (\<lambda>f. \<lparr>payloadType = OpusPayloadType, tsOffset = Timestamp (Header pkt) - f_ts f,
                   b_payload = f_payload f\<rparr>) fs,
        \<lparr>payloadType = OpusPayloadType, tsOffset = 0, b_payload = Payload pkt\<rparr>) \<and>
     preceding pkt fs \<and> length fs \<le> e_distance e"
proof -
  obtain n where "repeated e pkt maxSize = drop n (e_history e)"
    by (metis repeated_def drop_oldest_suffix precedingRun_def drop_drop)
  then show ?thesis
    using parse_layout [OF preceding_frame_ok [OF repeated_preceding [of pkt e maxSize]]]
      repeated_preceding [of pkt e maxSize] repeated_distance [of e pkt maxSize]
    by (intro exI [of _ n]) (simp add: Encode_repeated block_of_def)
qed

text \<open>Redundancy never pushes a payload past \<open>maxSize\<close>: an encoded payload is within the
  limit or carries the primary encoding alone.\<close>

theorem red_encode_size:
  "int (length (fst (Encode e pkt maxSize))) \<le> maxSize
   \<or> fst (Encode e pkt maxSize) = OpusPayloadType # Payload pkt"
  using drop_oldest_fits [of "precedingRun e pkt" pkt maxSize]
  by (auto simp: Encode_repeated repeated_def red_layout_length) (simp add: red_layout_def)

text \<open>C11: a packet lost on the way is recovered from the next one. When \<open>p\<close> and then its successor
  \<open>q\<close> go through the encoder, and the decoder gets \<open>q\<close> without having handed out \<open>p\<close>, its output
  contains \<open>p\<close> with its own sequence number, timestamp and payload.\<close>

theorem red_lost_packet_recovered:
  assumes "0 < e_distance e" "e_distance e \<le> 2 ^ 16"
    and "SequenceNumber (Header q) = SequenceNumber (Header p) + 1"
    and "Timestamp (Header q) - Timestamp (Header p) \<le> maxTimestampOffset"
    and "length (Payload p) \<le> maxBlockLength"
    and "5 + int (length (Payload p)) + int (length (Payload q)) \<le> maxSize"
    and "d_started d" "\<not> seen_in d (SequenceNumber (Header q))"
      "\<not> seen_in d (SequenceNumber (Header p))"
  shows "\<exists>out. fst (Decode d (q\<lparr>Payload := fst (Encode (snd (Encode e p maxSize)) q maxSize)\<rparr>))
      = Inr out \<and>
    list_ex (\<lambda>r. SequenceNumber (Header r) = SequenceNumber (Header p) \<and>
      Timestamp (Header r) = Timestamp (Header p) \<and> Payload r = Payload p) out"
proof -
  let ?e = "remember e p" and ?f = "frame_of p"
  obtain h where "e_history ?e = h @ [?f]"
    using remember_last [OF assms(1)] by blast
  then obtain fs where run: "precedingRun ?e q = fs @ [?f]"
    using precedingRun_last [of ?e h ?f q] assms by (auto simp: frame_ok_def)
  obtain gs where rep: "repeated ?e q maxSize = gs @ [?f]"
    using drop_oldest_keeps_last [of ?f q maxSize fs] assms(6) run
    by (auto simp: repeated_def red_size_def red_consts)
  have len: "length (map (block_of q) gs) < 2 ^ 16"
    using repeated_distance [of ?e q maxSize] rep assms(2) by simp
  have "parse (red_layout q (gs @ [?f])) = Inr (map (block_of q) gs @ [block_of q ?f],
      \<lparr>payloadType = OpusPayloadType, tsOffset = 0, b_payload = Payload q\<rparr>)"
    using parse_layout [OF preceding_frame_ok [OF repeated_preceding [of q ?e maxSize]]] rep by simp
  then have pl: "parse (Payload (q\<lparr>Payload := red_layout q (gs @ [?f])\<rparr>)) =
      Inr (map (block_of q) gs @ [block_of q ?f],
        \<lparr>payloadType = OpusPayloadType, tsOffset = 0, b_payload = Payload q\<rparr>)"
    by simp
  have np: "\<not> seen_in d (SequenceNumber (Header q) - 1)"
    using assms(3,9) by simp
  let ?r = "carried (q\<lparr>Payload := red_layout q (gs @ [?f])\<rparr>) (SequenceNumber (Header q) - 1)
       (Timestamp (Header q) - tsOffset (block_of q ?f)) (block_of q ?f)"
  from lost_packet_helper [OF assms(7,8) np pl _ len] obtain out where
    out: "fst (Decode d (q\<lparr>Payload := red_layout q (gs @ [?f])\<rparr>)) = Inr out" "?r \<in> set out"
    by auto
  have "SequenceNumber (Header ?r) = SequenceNumber (Header p) \<and>
      Timestamp (Header ?r) = Timestamp (Header p) \<and> Payload ?r = Payload p"
    using assms(3) by (simp add: carried_def block_of_def)
  then show ?thesis
    using out unfolding Encode_repeated fst_conv snd_conv rep list_ex_iff by blast
qed

definition sample_packet :: "uint16 \<Rightarrow> byte list \<Rightarrow> rtp_packet" where
  "sample_packet s pl = \<lparr>Header = \<lparr>Padding = False, Marker = False, PayloadType = 63,
     SequenceNumber = s, Timestamp = 960 * ucast s, SSRC = 7, PaddingSize = 0\<rparr>, Payload = pl\<rparr>"

theorem red_lost_packet_recovered_witness:
  "\<exists>out. fst (Decode \<lparr>d_started = True, d_newest = 9, d_seen = 1\<rparr>
       ((sample_packet 11 [4, 5])\<lparr>Payload := fst (Encode (snd (Encode (NewEncoder 2)
          (sample_packet 10 [1, 2, 3]) 1100)) (sample_packet 11 [4, 5]) 1100)\<rparr>)) = Inr out \<and>
     list_ex (\<lambda>r. SequenceNumber (Header r) = SequenceNumber (Header (sample_packet 10 [1, 2, 3])) \<and>
      Timestamp (Header r) = Timestamp (Header (sample_packet 10 [1, 2, 3])) \<and>
      Payload r = Payload (sample_packet 10 [1, 2, 3])) out"
  by (rule red_lost_packet_recovered)
     (simp_all add: sample_packet_def NewEncoder_def seen_in_def window_def maxTimestampOffset_def
        maxBlockLength_def unsigned_minus_1_eq_mask mask_eq_exp_minus_1)

text \<open>C15: every sequence number comes out at most once. Whatever packets arrive, in any order and
  with any repetition, malformed ones included, as long as the sequence numbers they can
  yield lie within one span of 64, the packets the decoder hands out are all different.\<close>

theorem red_decode_at_most_once:
  assumes "list_all (packet_in_span base) pkts"
  shows "distinct (seqs (fst (decode_all NewDecoder pkts)))"
  using assms by (rule decode_all_distinct) (simp add: NewDecoder_def)

theorem red_decode_at_most_once_witness:
  "distinct (seqs (fst (decode_all NewDecoder
     [sample_packet 10 [111, 1], sample_packet 12 [111, 3], sample_packet 10 [111, 1], sample_packet 9 []])))"
  by (rule red_decode_at_most_once [of 5])
     (simp add: packet_in_span_def sample_packet_def in_span_def window_def parse_def
        parse_headers.simps red_consts)

text \<open>The 64-bit window is exactly a set of sequence numbers. \<open>markSeen\<close> answers whether the
  number was not yet in the set, and afterwards the set holds the old members and the new
  number, less those that are now 64 or more behind the newest number, which only ever moves
  forward.\<close>

theorem red_markSeen_refines_set:
  "fst (markSeen d k) = (\<not> seen_in d k) \<and>
   d_newest (snd (markSeen d k)) = (if 0 < sint (k - d_newest d) then k else d_newest d) \<and>
   {s. seen_in (snd (markSeen d k)) s} =
     {s \<in> insert k {s. seen_in d s}. unat (d_newest (snd (markSeen d k)) - s) < window}"
  by (auto simp: markSeen_answer markSeen_newest) (auto simp: markSeen_seen_in markSeen_newest split: if_splits)

text \<open>Beyond the window the promise of a single delivery does not hold: a packet 64 behind
  the newest one is handed out every time it arrives.\<close>

theorem red_decode_old_packet_repeats:
  "seqs (fst (decode_all NewDecoder
     [sample_packet 100 [111], sample_packet 36 [111], sample_packet 36 [111]])) = [100, 36, 36]"
  by (simp add: Decode_def NewDecoder_def sample_packet_def parse_def parse_headers.simps red_consts
      markSeen_def window_def carried_def Let_def)

lemma wrap_all_correct:
  "list_all2 (\<lambda>w pkt. Header w = (Header pkt)\<lparr>PayloadType := pt\<rparr> \<and>
      Primary (Payload w) = Inr (Payload pkt) \<and>
      (int (length (Payload w)) \<le> maxPayloadSize \<or> Payload w = OpusPayloadType # Payload pkt))
     (fst (wrap_all pt e pkts)) pkts"
proof (induction pkts arbitrary: e)
  case (Cons pkt pkts)
  have "Primary (red_layout pkt (repeated e pkt maxPayloadSize)) = Inr (Payload pkt)"
    using parse_layout [OF preceding_frame_ok [OF repeated_preceding]] by (simp add: Primary_def)
  moreover have "int (length (red_layout pkt (repeated e pkt maxPayloadSize))) \<le> maxPayloadSize
     \<or> red_layout pkt (repeated e pkt maxPayloadSize) = OpusPayloadType # Payload pkt"
    using drop_oldest_fits [of "precedingRun e pkt" pkt maxPayloadSize]
    by (auto simp: repeated_def red_layout_length) (simp add: red_layout_def)
  ultimately show ?case
    using Cons by (simp add: Encode_repeated split_beta Let_def)
qed simp

text \<open>The RED packetizer sends one packet for each packet of the inner packetizer, with the
  same header but for the payload type, carrying that packet's payload as its primary block,
  within 1100 bytes unless the Opus payload alone is larger.\<close>

theorem red_packetize_correct:
  "list_all2 (\<lambda>w pkt. Header w = (Header pkt)\<lparr>PayloadType := p_payloadType p\<rparr> \<and>
      Primary (Payload w) = Inr (Payload pkt) \<and>
      (int (length (Payload w)) \<le> maxPayloadSize \<or> Payload w = OpusPayloadType # Payload pkt))
     (fst (Packetize inner_packetize p pl samples)) (fst (inner_packetize (p_inner p) pl samples))"
  using wrap_all_correct by (simp add: Packetize_def Let_def split_beta)

end
