(* ===== verification/Codecs.thy ===== *)
theory Codecs
  imports RtcStats Retry Red
begin

text \<open>
  The codecs of the publisher, \<open>media_engine.go\<close>, and \<open>configureTransceiver\<close> of \<open>publisher.go\<close>, which narrows
  what a transceiver offers to the codec of its track. The MIME types and the feedback types are constants of
  pion and are arguments; what is relied on is \<open>pion_names_ok\<close>. Go iterates over a map in any order, so the
  order of the two kinds of media is an argument as well. Strings are ASCII where case is ignored.
\<close>

section \<open>Codecs\<close>

text \<open>\<open>RTPCodecParameters\<close>, with the feedback as pairs of type and parameter.\<close>

record rtp_codec = codec_params +
  cp_RTCPFeedback :: "(string \<times> string) list"

record pion_names =
  MimeTypeRTX :: string
  MimeTypeOpus :: string
  MimeTypeVP8 :: string
  MimeTypeVP9 :: string
  MimeTypeH264 :: string
  MimeTypeAV1 :: string
  TypeRTCPFBNACK :: string
  TypeRTCPFBCCM :: string

definition ascii_fold :: "char \<Rightarrow> char" where
  "ascii_fold c = (if 65 \<le> (of_char c :: nat) \<and> (of_char c :: nat) \<le> 90 then char_of (of_char c + 32 :: nat) else c)"

definition EqualFold :: "string \<Rightarrow> string \<Rightarrow> bool" where
  "EqualFold a b \<longleftrightarrow> map ascii_fold a = map ascii_fold b"

definition apt_line :: "uint8 \<Rightarrow> string" where
  "apt_line pt = ''apt='' @ dec_nat (unat pt)"

definition rtxCodecForVideo :: "pion_names \<Rightarrow> rtp_codec \<Rightarrow> rtp_codec" where
  "rtxCodecForVideo N baseCodec =
     \<lparr>cp_MimeType = MimeTypeRTX N, cp_ClockRate = 90000, cp_Channels = 0,
      cp_SDPFmtpLine = apt_line (cp_PayloadType baseCodec), cp_PayloadType = cp_PayloadType baseCodec + 1,
      cp_RTCPFeedback = []\<rparr>"

definition opus_codec :: "pion_names \<Rightarrow> rtp_codec" where
  "opus_codec N =
     \<lparr>cp_MimeType = MimeTypeOpus N, cp_ClockRate = 48000, cp_Channels = 2,
      cp_SDPFmtpLine = ''minptime=10;useinbandfec=1'', cp_PayloadType = 111,
      cp_RTCPFeedback = [(TypeRTCPFBNACK N, [])]\<rparr>"

definition audioRed :: rtp_codec where
  "audioRed =
     \<lparr>cp_MimeType = Red.MimeTypeAudio, cp_ClockRate = 48000, cp_Channels = 2, cp_SDPFmtpLine = ''111/111'',
      cp_PayloadType = Red.DefaultPayloadType, cp_RTCPFeedback = []\<rparr>"

definition video_codec :: "pion_names \<Rightarrow> string \<Rightarrow> string \<Rightarrow> uint8 \<Rightarrow> rtp_codec" where
  "video_codec N mime fmtp pt =
     \<lparr>cp_MimeType = mime, cp_ClockRate = 90000, cp_Channels = 0, cp_SDPFmtpLine = fmtp, cp_PayloadType = pt,
      cp_RTCPFeedback = [(TypeRTCPFBCCM N, ''fir''), (TypeRTCPFBNACK N, []), (TypeRTCPFBNACK N, ''pli'')]\<rparr>"

definition vp8 :: "pion_names \<Rightarrow> rtp_codec" where "vp8 N = video_codec N (MimeTypeVP8 N) [] 96"
definition vp9 :: "pion_names \<Rightarrow> rtp_codec" where "vp9 N = video_codec N (MimeTypeVP9 N) ''profile-id=0'' 98"
definition h264 :: "pion_names \<Rightarrow> rtp_codec" where
  "h264 N = video_codec N (MimeTypeH264 N) ''level-asymmetry-allowed=1;packetization-mode=1;profile-level-id=42e01f'' 123"
definition av1 :: "pion_names \<Rightarrow> rtp_codec" where "av1 N = video_codec N (MimeTypeAV1 N) [] 35"

definition registered_audio :: "pion_names \<Rightarrow> rtp_codec list" where
  "registered_audio N = [audioRed, opus_codec N]"

definition registered_video :: "pion_names \<Rightarrow> rtp_codec list" where
  "registered_video N =
     [av1 N, rtxCodecForVideo N (av1 N), vp9 N, rtxCodecForVideo N (vp9 N),
      h264 N, rtxCodecForVideo N (h264 N), vp8 N, rtxCodecForVideo N (vp8 N)]"

text \<open>The codecs in the order the map is iterated.\<close>

definition registeredRTPCodecParameters :: "bool \<Rightarrow> pion_names \<Rightarrow> rtp_codec list" where
  "registeredRTPCodecParameters audio_first N =
     (if audio_first then registered_audio N @ registered_video N else registered_video N @ registered_audio N)"

section \<open>Preferences\<close>

definition preferred :: "pion_names \<Rightarrow> string \<Rightarrow> rtp_codec \<Rightarrow> bool" where
  "preferred N mimeType cdc \<longleftrightarrow> cp_MimeType cdc = mimeType \<or>
     EqualFold (cp_MimeType audioRed) mimeType \<and> EqualFold (cp_MimeType (opus_codec N)) (cp_MimeType cdc)"

fun preference_loop :: "pion_names \<Rightarrow> string \<Rightarrow> rtp_codec list \<Rightarrow> rtp_codec list \<times> uint8 \<Rightarrow> rtp_codec list \<times> uint8" where
  "preference_loop N mimeType [] acc = acc"
| "preference_loop N mimeType (cdc # codecs) (preferredCodec, basePayloadType) =
    (if preferred N mimeType cdc
     then preference_loop N mimeType codecs (preferredCodec @ [cdc], cp_PayloadType cdc)
     else preference_loop N mimeType codecs (preferredCodec, basePayloadType))"

definition rtx_for :: "pion_names \<Rightarrow> uint8 \<Rightarrow> rtp_codec option" where
  "rtx_for N pt = find (\<lambda>cdc. EqualFold (cp_MimeType cdc) (MimeTypeRTX N) \<and>
      contains (apt_line pt) (cp_SDPFmtpLine cdc)) (registered_video N)"

definition GetCodecPreferencesByMimeType :: "bool \<Rightarrow> pion_names \<Rightarrow> string \<Rightarrow> rtp_codec list" where
  "GetCodecPreferencesByMimeType audio_first N mimeType =
    (let (preferredCodec, basePayloadType) =
           preference_loop N mimeType (registeredRTPCodecParameters audio_first N) ([], 0)
     in if basePayloadType \<noteq> 0 \<and> take 6 mimeType = ''video/''
        then preferredCodec @ (case rtx_for N basePayloadType of None \<Rightarrow> [] | Some cdc \<Rightarrow> [cdc])
        else preferredCodec)"

section \<open>The media engine\<close>

text \<open>What pion has registered, with \<open>True\<close> for audio. An error is only logged, so what pion refuses is left out; \<open>okc\<close> and \<open>oke\<close> are its answers.\<close>

record extension_names =
  SDESMidURI :: string
  SDESRTPStreamIDURI :: string
  SDESRepairRTPStreamIDURI :: string
  AudioLevelURI :: string

record media_engine =
  me_codecs :: "(bool \<times> rtp_codec) list"
  me_extensions :: "(bool \<times> string) list"

definition configurePublisherMediaEngine ::
    "bool \<Rightarrow> pion_names \<Rightarrow> extension_names \<Rightarrow> (rtp_codec \<Rightarrow> bool) \<Rightarrow> (bool \<Rightarrow> string \<Rightarrow> bool) \<Rightarrow> media_engine \<Rightarrow> media_engine" where
  "configurePublisherMediaEngine audio_first N X okc oke me =
    (let audio = map (Pair True) (registered_audio N); video = map (Pair False) (registered_video N);
         me = me\<lparr>me_codecs := me_codecs me @ filter (\<lambda>(_, c). okc c) (if audio_first then audio @ video else video @ audio)\<rparr>;
         me = me\<lparr>me_extensions := me_extensions me @ map (Pair True) (filter (oke True) [SDESMidURI X, SDESRTPStreamIDURI X, AudioLevelURI X])\<rparr>
     in me\<lparr>me_extensions := me_extensions me @ map (Pair False) (filter (oke False) [SDESMidURI X, SDESRTPStreamIDURI X, SDESRepairRTPStreamIDURI X])\<rparr>)"

section \<open>Transceivers\<close>

text \<open>\<open>None\<close> leaves the transceiver's preferences alone; \<open>codecs\<close> are those of the sender's parameters.\<close>

definition keep_codec :: "pion_names \<Rightarrow> rtp_codec \<Rightarrow> rtp_codec \<Rightarrow> bool" where
  "keep_codec N cdc desired \<longleftrightarrow> EqualFold (cp_MimeType cdc) (cp_MimeType desired) \<and>
     (EqualFold (cp_MimeType cdc) (MimeTypeRTX N) \<longrightarrow> EqualFold (cp_SDPFmtpLine cdc) (cp_SDPFmtpLine desired))"

fun config_codecs :: "pion_names \<Rightarrow> rtp_codec list \<Rightarrow> rtp_codec list \<Rightarrow> rtp_codec list" where
  "config_codecs N desiredCodecs [] = []"
| "config_codecs N desiredCodecs (cdc # codecs) =
     map (\<lambda>_. cdc) (filter (keep_codec N cdc) desiredCodecs) @ config_codecs N desiredCodecs codecs"

definition preferences_for :: "pion_names \<Rightarrow> rtp_codec list \<Rightarrow> rtp_codec list \<Rightarrow> rtp_codec list option" where
  "preferences_for N desiredCodecs codecs =
    (if desiredCodecs = [] then None else Some (config_codecs N desiredCodecs codecs))"


section \<open>What a publisher offers\<close>

text \<open>What is relied on of pion's names: no two are equal when case is ignored, RED's included, and the video codecs
  carry the prefix of video.\<close>

definition pion_names_ok :: "pion_names \<Rightarrow> bool" where
  "pion_names_ok N \<longleftrightarrow>
     sorted_wrt (\<lambda>a b. \<not> EqualFold a b) [Red.MimeTypeAudio, MimeTypeOpus N, MimeTypeVP8 N, MimeTypeVP9 N, MimeTypeH264 N, MimeTypeAV1 N, MimeTypeRTX N] \<and>
     (\<forall>m \<in> set [MimeTypeVP8 N, MimeTypeVP9 N, MimeTypeH264 N, MimeTypeAV1 N, MimeTypeRTX N]. take 6 m = ''video/'') \<and>
     take 6 (MimeTypeOpus N) \<noteq> ''video/''"

definition published_names :: pion_names where
  "published_names =
     \<lparr>MimeTypeRTX = ''video/rtx'', MimeTypeOpus = ''audio/opus'', MimeTypeVP8 = ''video/VP8'', MimeTypeVP9 = ''video/VP9'',
      MimeTypeH264 = ''video/H264'', MimeTypeAV1 = ''video/AV1'', TypeRTCPFBNACK = ''nack'', TypeRTCPFBCCM = ''ccm''\<rparr>"

lemma published_names_ok: "pion_names_ok published_names"
  by code_simp

lemma EqualFold_refl [simp]: "EqualFold a a"
  by (simp add: EqualFold_def)

lemma preference_loop_filter:
  "preference_loop N m cs (acc, b) =
     (acc @ filter (preferred N m) cs, last (b # map cp_PayloadType (filter (preferred N m) cs)))"
  by (induction cs arbitrary: acc b) auto

lemma GetCodecPreferences_filter:
  "GetCodecPreferencesByMimeType af N m =
    (let ps = filter (preferred N m) (registeredRTPCodecParameters af N); b = last (0 # map cp_PayloadType ps)
     in if b \<noteq> 0 \<and> take 6 m = ''video/'' then ps @ (case rtx_for N b of None \<Rightarrow> [] | Some c \<Rightarrow> [c]) else ps)"
  by (simp add: GetCodecPreferencesByMimeType_def preference_loop_filter Let_def)

lemma apt_lines:
  "apt_line 35 = ''apt=35''" "apt_line 96 = ''apt=96''" "apt_line 98 = ''apt=98''" "apt_line 123 = ''apt=123''"
  by (code_simp)+

lemma apt_contains:
  "contains ''apt=35'' ''apt=35''" "contains ''apt=96'' ''apt=96''" "contains ''apt=98'' ''apt=98''" "contains ''apt=123'' ''apt=123''"
  "\<not> contains ''apt=96'' ''apt=35''" "\<not> contains ''apt=96'' ''apt=98''" "\<not> contains ''apt=96'' ''apt=123''"
  "\<not> contains ''apt=98'' ''apt=35''" "\<not> contains ''apt=123'' ''apt=35''" "\<not> contains ''apt=123'' ''apt=98''"
  by (code_simp)+

lemmas codec_defs = video_codec_def vp8_def vp9_def h264_def av1_def opus_codec_def audioRed_def rtxCodecForVideo_def

lemma EqualFold_commute: "EqualFold a b = EqualFold b a"
  by (auto simp: EqualFold_def)

lemma unequal_fold: "\<not> EqualFold a b \<Longrightarrow> a \<noteq> b \<and> b \<noteq> a"
  by auto

lemma names_unequal:
  assumes "pion_names_ok N"
  shows "distinct [Red.MimeTypeAudio, MimeTypeOpus N, MimeTypeVP8 N, MimeTypeVP9 N, MimeTypeH264 N, MimeTypeAV1 N, MimeTypeRTX N]"
  using assms by (simp add: pion_names_ok_def unequal_fold)

lemma red_not_video: "take 6 Red.MimeTypeAudio \<noteq> ''video/''"
  by (simp add: MimeTypeAudio_def)

lemma rtx_for_video:
  assumes "pion_names_ok N" "c \<in> {vp8 N, vp9 N, h264 N, av1 N}"
  shows "rtx_for N (cp_PayloadType c) = Some (rtxCodecForVideo N c)"
proof -
  have neq: "\<not> EqualFold (MimeTypeAV1 N) (MimeTypeRTX N)" "\<not> EqualFold (MimeTypeVP9 N) (MimeTypeRTX N)"
    "\<not> EqualFold (MimeTypeH264 N) (MimeTypeRTX N)" "\<not> EqualFold (MimeTypeVP8 N) (MimeTypeRTX N)"
    using assms(1) by (simp_all add: pion_names_ok_def)
  from assms(2) consider "c = vp8 N" | "c = vp9 N" | "c = h264 N" | "c = av1 N" by blast
  then show ?thesis
    by cases (simp_all add: rtx_for_def registered_video_def codec_defs apt_lines apt_contains neq)
qed

lemma preferred_plain:
  assumes "\<not> EqualFold Red.MimeTypeAudio m"
  shows "filter (preferred N m) cs = filter (\<lambda>c. cp_MimeType c = m) cs"
  using assms by (simp add: preferred_def [abs_def] audioRed_def)

lemma preferred_video:
  assumes "pion_names_ok N" "c \<in> {vp8 N, vp9 N, h264 N, av1 N}"
  shows "filter (preferred N (cp_MimeType c)) (registeredRTPCodecParameters af N) = [c]"
proof -
  have "\<not> EqualFold Red.MimeTypeAudio (cp_MimeType c)"
    using assms by (auto simp: pion_names_ok_def codec_defs)
  moreover from assms(2) consider "c = vp8 N" | "c = vp9 N" | "c = h264 N" | "c = av1 N" by blast
  then have "filter (\<lambda>d. cp_MimeType d = cp_MimeType c) (registeredRTPCodecParameters af N) = [c]"
    using names_unequal [OF assms(1)]
    by cases (auto simp: registeredRTPCodecParameters_def registered_audio_def registered_video_def codec_defs)
  ultimately show ?thesis by (simp add: preferred_plain)
qed

lemma preferences_video:
  assumes "pion_names_ok N" "c \<in> {vp8 N, vp9 N, h264 N, av1 N}"
  shows "GetCodecPreferencesByMimeType af N (cp_MimeType c) = [c, rtxCodecForVideo N c]"
proof -
  have "cp_PayloadType c \<noteq> 0" "take 6 (cp_MimeType c) = ''video/''"
    using assms by (auto simp: codec_defs pion_names_ok_def)
  then show ?thesis
    using preferred_video [OF assms] rtx_for_video [OF assms] by (simp add: GetCodecPreferences_filter)
qed

lemma preferences_opus:
  assumes "pion_names_ok N"
  shows "GetCodecPreferencesByMimeType af N (MimeTypeOpus N) = [opus_codec N]"
proof -
  have "\<not> EqualFold Red.MimeTypeAudio (MimeTypeOpus N)" "take 6 (MimeTypeOpus N) \<noteq> ''video/''"
    using assms by (simp_all add: pion_names_ok_def)
  moreover have "filter (\<lambda>c. cp_MimeType c = MimeTypeOpus N) (registeredRTPCodecParameters af N) = [opus_codec N]"
    using names_unequal [OF assms]
    by (auto simp: registeredRTPCodecParameters_def registered_audio_def registered_video_def codec_defs)
  ultimately show ?thesis by (simp add: GetCodecPreferences_filter preferred_plain Let_def)
qed

lemma preferences_red:
  assumes "pion_names_ok N"
  shows "GetCodecPreferencesByMimeType af N Red.MimeTypeAudio = [audioRed, opus_codec N]"
proof -
  have neq: "\<not> EqualFold (MimeTypeOpus N) (MimeTypeVP8 N)" "\<not> EqualFold (MimeTypeOpus N) (MimeTypeVP9 N)"
    "\<not> EqualFold (MimeTypeOpus N) (MimeTypeH264 N)" "\<not> EqualFold (MimeTypeOpus N) (MimeTypeAV1 N)"
    "\<not> EqualFold (MimeTypeOpus N) (MimeTypeRTX N)"
    using assms by (simp_all add: pion_names_ok_def)
  have "filter (preferred N Red.MimeTypeAudio) (registeredRTPCodecParameters af N) = [audioRed, opus_codec N]"
    using names_unequal [OF assms]
    by (auto simp: registeredRTPCodecParameters_def registered_audio_def registered_video_def codec_defs preferred_def neq)
  then show ?thesis using red_not_video by (simp add: GetCodecPreferences_filter Let_def)
qed

lemma preferences_unknown:
  assumes "m \<notin> cp_MimeType ` set (registeredRTPCodecParameters af N)" "\<not> EqualFold Red.MimeTypeAudio m"
  shows "GetCodecPreferencesByMimeType af N m = []"
proof -
  have "filter (preferred N m) (registeredRTPCodecParameters af N) = []"
    using assms by (auto simp: preferred_plain filter_empty_conv image_iff)
  then show ?thesis by (simp add: GetCodecPreferences_filter)
qed

lemma config_codecs_filter:
  assumes "\<And>c. c \<in> set cs \<Longrightarrow> length (filter (keep_codec N c) ds) \<le> 1"
  shows "config_codecs N ds cs = filter (\<lambda>c. \<exists>d \<in> set ds. keep_codec N c d) cs"
  using assms
proof (induction cs)
  case (Cons c cs)
  from Cons.prems have "length (filter (keep_codec N c) ds) \<le> 1" by simp
  moreover have "(\<exists>d \<in> set ds. keep_codec N c d) \<longleftrightarrow> filter (keep_codec N c) ds \<noteq> []" by (simp add: filter_empty_conv)
  ultimately have "map (\<lambda>_. c) (filter (keep_codec N c) ds) = (if \<exists>d \<in> set ds. keep_codec N c d then [c] else [])"
    by (cases "filter (keep_codec N c) ds") auto
  then show ?case using Cons by simp
qed simp

lemma offered_video:
  assumes "pion_names_ok N" "c \<in> {vp8 N, vp9 N, h264 N, av1 N}"
  shows "preferences_for N [c, rtxCodecForVideo N c] cs =
    Some (filter (\<lambda>d. EqualFold (cp_MimeType d) (cp_MimeType c) \<or>
      EqualFold (cp_MimeType d) (MimeTypeRTX N) \<and> EqualFold (cp_SDPFmtpLine d) (apt_line (cp_PayloadType c))) cs)"
proof -
  have "\<not> EqualFold (cp_MimeType c) (MimeTypeRTX N)"
    using assms by (auto simp: pion_names_ok_def codec_defs)
  then have neq: "\<And>d. EqualFold (cp_MimeType d) (cp_MimeType c) \<Longrightarrow> \<not> EqualFold (cp_MimeType d) (MimeTypeRTX N)"
    by (simp add: EqualFold_def)
  then have "config_codecs N [c, rtxCodecForVideo N c] cs = filter (\<lambda>d. \<exists>x \<in> set [c, rtxCodecForVideo N c]. keep_codec N d x) cs"
    by (intro config_codecs_filter) (auto simp: keep_codec_def rtxCodecForVideo_def)
  also have "\<dots> = filter (\<lambda>d. EqualFold (cp_MimeType d) (cp_MimeType c) \<or>
      EqualFold (cp_MimeType d) (MimeTypeRTX N) \<and> EqualFold (cp_SDPFmtpLine d) (apt_line (cp_PayloadType c))) cs"
    using neq by (intro filter_cong) (auto simp: keep_codec_def rtxCodecForVideo_def)
  finally show ?thesis by (simp add: preferences_for_def)
qed

lemma offered_audio:
  assumes "pion_names_ok N"
  shows "preferences_for N [opus_codec N] cs = Some (filter (\<lambda>d. EqualFold (cp_MimeType d) (MimeTypeOpus N)) cs)"
    and "preferences_for N [audioRed, opus_codec N] cs =
      Some (filter (\<lambda>d. EqualFold (cp_MimeType d) Red.MimeTypeAudio \<or> EqualFold (cp_MimeType d) (MimeTypeOpus N)) cs)"
proof -
  have ne: "\<not> EqualFold Red.MimeTypeAudio (MimeTypeOpus N)" "\<not> EqualFold Red.MimeTypeAudio (MimeTypeRTX N)"
      "\<not> EqualFold (MimeTypeOpus N) (MimeTypeRTX N)"
    using assms by (simp_all add: pion_names_ok_def)
  have neq: "EqualFold (cp_MimeType d) Red.MimeTypeAudio \<Longrightarrow> \<not> EqualFold (cp_MimeType d) (MimeTypeOpus N)"
      "EqualFold (cp_MimeType d) Red.MimeTypeAudio \<Longrightarrow> \<not> EqualFold (cp_MimeType d) (MimeTypeRTX N)"
      "EqualFold (cp_MimeType d) (MimeTypeOpus N) \<Longrightarrow> \<not> EqualFold (cp_MimeType d) (MimeTypeRTX N)" for d :: rtp_codec
    using ne by (simp_all add: EqualFold_def)
  have keep: "keep_codec N d (opus_codec N) \<longleftrightarrow> EqualFold (cp_MimeType d) (MimeTypeOpus N)"
      "keep_codec N d audioRed \<longleftrightarrow> EqualFold (cp_MimeType d) Red.MimeTypeAudio" for d
    using neq [of d] by (auto simp: keep_codec_def opus_codec_def audioRed_def)
  show "preferences_for N [opus_codec N] cs = Some (filter (\<lambda>d. EqualFold (cp_MimeType d) (MimeTypeOpus N)) cs)"
    by (simp add: preferences_for_def config_codecs_filter keep)
  have "config_codecs N [audioRed, opus_codec N] cs = filter (\<lambda>d. \<exists>x \<in> set [audioRed, opus_codec N]. keep_codec N d x) cs"
    by (intro config_codecs_filter) (auto simp: keep neq)
  then show "preferences_for N [audioRed, opus_codec N] cs =
      Some (filter (\<lambda>d. EqualFold (cp_MimeType d) Red.MimeTypeAudio \<or> EqualFold (cp_MimeType d) (MimeTypeOpus N)) cs)"
    by (simp add: preferences_for_def keep)
qed

text \<open>C35: A transceiver offers what pion negotiated for its sender, in pion's order, narrowed to the codec of its track. A video track keeps its
  codec and the RTX entry that repairs the payload type the codec is registered with; an Opus track keeps Opus; a RED track keeps RED and Opus. A MIME
  type that is not spelled as one that is registered leaves the preferences alone, also when it differs in case only, unless it is RED's.\<close>

theorem codec_preferences:
  assumes "pion_names_ok N"
  shows "(\<forall>c \<in> {vp8 N, vp9 N, h264 N, av1 N}. preferences_for N (GetCodecPreferencesByMimeType af N (cp_MimeType c)) codecs =
      Some (filter (\<lambda>d. EqualFold (cp_MimeType d) (cp_MimeType c) \<or>
        EqualFold (cp_MimeType d) (MimeTypeRTX N) \<and> EqualFold (cp_SDPFmtpLine d) (apt_line (cp_PayloadType c))) codecs)) \<and>
    preferences_for N (GetCodecPreferencesByMimeType af N (MimeTypeOpus N)) codecs =
      Some (filter (\<lambda>d. EqualFold (cp_MimeType d) (MimeTypeOpus N)) codecs) \<and>
    preferences_for N (GetCodecPreferencesByMimeType af N Red.MimeTypeAudio) codecs =
      Some (filter (\<lambda>d. EqualFold (cp_MimeType d) Red.MimeTypeAudio \<or> EqualFold (cp_MimeType d) (MimeTypeOpus N)) codecs) \<and>
    (\<forall>m. m \<notin> cp_MimeType ` set (registeredRTPCodecParameters af N) \<and> \<not> EqualFold Red.MimeTypeAudio m \<longrightarrow>
      preferences_for N (GetCodecPreferencesByMimeType af N m) codecs = None)"
proof (intro conjI ballI allI impI)
  fix c
  assume c: "c \<in> {vp8 N, vp9 N, h264 N, av1 N}"
  show "preferences_for N (GetCodecPreferencesByMimeType af N (cp_MimeType c)) codecs =
      Some (filter (\<lambda>d. EqualFold (cp_MimeType d) (cp_MimeType c) \<or>
        EqualFold (cp_MimeType d) (MimeTypeRTX N) \<and> EqualFold (cp_SDPFmtpLine d) (apt_line (cp_PayloadType c))) codecs)"
    unfolding preferences_video [OF assms c] by (rule offered_video [OF assms c])
next
  fix m
  assume "m \<notin> cp_MimeType ` set (registeredRTPCodecParameters af N) \<and> \<not> EqualFold Red.MimeTypeAudio m"
  then show "preferences_for N (GetCodecPreferencesByMimeType af N m) codecs = None"
    using preferences_unknown [of m af N] by (simp add: preferences_for_def)
qed (simp_all only: preferences_opus [OF assms] preferences_red [OF assms] offered_audio [OF assms])

definition negotiated_codecs :: "rtp_codec list" where
  "negotiated_codecs = [opus_codec published_names, vp8 published_names, rtxCodecForVideo published_names (vp8 published_names),
     h264 published_names, rtxCodecForVideo published_names (h264 published_names)]"

lemma codec_preferences_witness:
  "preferences_for published_names (GetCodecPreferencesByMimeType False published_names ''video/H264'') negotiated_codecs =
     Some [h264 published_names, rtxCodecForVideo published_names (h264 published_names)] \<and>
   preferences_for published_names (GetCodecPreferencesByMimeType True published_names ''video/h264'') negotiated_codecs = None"
proof -
  note cp = codec_preferences [OF published_names_ok]
  have "''video/H264'' = cp_MimeType (h264 published_names)" by (simp add: h264_def video_codec_def published_names_def)
  then have "preferences_for published_names (GetCodecPreferencesByMimeType False published_names ''video/H264'') negotiated_codecs =
      Some (filter (\<lambda>d. EqualFold (cp_MimeType d) (cp_MimeType (h264 published_names)) \<or>
        EqualFold (cp_MimeType d) (MimeTypeRTX published_names) \<and>
        EqualFold (cp_SDPFmtpLine d) (apt_line (cp_PayloadType (h264 published_names)))) negotiated_codecs)"
    using bspec [OF cp [THEN conjunct1, of False negotiated_codecs], of "h264 published_names"] by simp
  also have "\<dots> = Some [h264 published_names, rtxCodecForVideo published_names (h264 published_names)]"
    by (simp add: negotiated_codecs_def codec_defs published_names_def apt_lines EqualFold_def ascii_fold_def)
  finally have video: "preferences_for published_names (GetCodecPreferencesByMimeType False published_names ''video/H264'') negotiated_codecs =
      Some [h264 published_names, rtxCodecForVideo published_names (h264 published_names)]" .
  have "''video/h264'' \<notin> cp_MimeType ` set (registeredRTPCodecParameters True published_names)"
    by (simp add: registeredRTPCodecParameters_def registered_audio_def registered_video_def codec_defs published_names_def MimeTypeAudio_def)
  moreover have "\<not> EqualFold Red.MimeTypeAudio ''video/h264''"
    by (simp add: EqualFold_def MimeTypeAudio_def ascii_fold_def)
  ultimately show ?thesis
    using video cp [THEN conjunct2, THEN conjunct2, THEN conjunct2, of True negotiated_codecs, rule_format, of "''video/h264''"] by simp
qed

end
