(* ===== verification/Transport.thy ===== *)
theory Transport
  imports Prelude
begin

text \<open>
  The peer connection transport, package \<open>pc\<close>: the negotiation ids (\<open>negotiation_id.go\<close>), the
  negotiation errors (\<open>negotiation_error.go\<close>), the negotiation states (\<open>pc_handler.go\<close>), and the
  event loop that offers, answers, trickles candidates and restarts ICE (\<open>pc.go\<close>), with the ICE
  credentials of \<open>internal/sdputil\<close>. pion's \<open>PeerConnection\<close> and the \<open>Handler\<close> are not code of the
  repository: what their methods answer while one event is handled is the record \<open>pc_env\<close>, an
  argument of every handler (each method is called at most once per event), and the calls the
  transport makes on them are recorded in order in the field \<open>t_calls\<close>. Every event runs to
  completion on one goroutine, so an event is one step; the callbacks that only take the mutex
  are steps of their own.
\<close>

section \<open>Negotiation ids\<close>

definition invalidNegotiationID :: uint32 where "invalidNegotiationID = 0"

definition nextNegotiationID :: "uint32 \<Rightarrow> uint32" where
  "nextNegotiationID cur =
    (let nxt = cur + 1 in if nxt = invalidNegotiationID then nxt + 1 else nxt)"

datatype negotiationAnswerAction =
  negotiationAnswerAccept | negotiationAnswerStale | negotiationAnswerDuplicate | negotiationAnswerMismatch

definition classifyAnswerNegotiationID :: "uint32 \<Rightarrow> uint32 \<Rightarrow> uint32 \<Rightarrow> negotiationAnswerAction" where
  "classifyAnswerNegotiationID negotiationID remote local =
    (if negotiationID = invalidNegotiationID then negotiationAnswerAccept
     else if remote = invalidNegotiationID then
       (if negotiationID \<noteq> local then negotiationAnswerMismatch else negotiationAnswerAccept)
     else
       let delta = sint (negotiationID - remote) in
       if delta < 0 then negotiationAnswerStale
       else if delta = 0 then negotiationAnswerDuplicate
       else if negotiationID \<noteq> local then negotiationAnswerMismatch
       else negotiationAnswerAccept)"

section \<open>Errors and descriptions\<close>

text \<open>An error of the SFU is its code and message; 0 is the unspecified code.\<close>

record sfu_error =
  sfu_Code :: int
  sfu_Message :: string

record NegotiationError =
  ne_Reason :: string
  ne_Code :: int
  ne_Message :: string
  ne_Err :: "string option"

definition NewNegotiationError :: "string \<Rightarrow> string option \<Rightarrow> sfu_error option \<Rightarrow> NegotiationError" where
  "NewNegotiationError reason err sfuErr =
    (case sfuErr of
       Some e \<Rightarrow> \<lparr>ne_Reason = reason, ne_Code = sfu_Code e, ne_Message = sfu_Message e, ne_Err = None\<rparr>
     | None \<Rightarrow> \<lparr>ne_Reason = reason, ne_Code = 0, ne_Message = '''', ne_Err = err\<rparr>)"

text \<open>\<open>code_name\<close> is the printing of the SFU's error codes, which is generated code.\<close>

definition negotiation_error_string :: "(int \<Rightarrow> string) \<Rightarrow> NegotiationError \<Rightarrow> string" where
  "negotiation_error_string code_name e =
    (if ne_Code e \<noteq> 0 then
       ''negotiation failed: '' @ ne_Reason e @ '' (code: '' @ code_name (ne_Code e)
         @ '', message: '' @ ne_Message e @ '')''
     else case ne_Err e of
       Some err \<Rightarrow> ''negotiation failed: '' @ ne_Reason e @ '': '' @ err
     | None \<Rightarrow> ''negotiation failed: '' @ ne_Reason e)"

definition negotiation_error_unwrap :: "NegotiationError \<Rightarrow> string option" where
  "negotiation_error_unwrap e = ne_Err e"

text \<open>An error an event returns: a negotiation error of its own or any other, as its text.\<close>

datatype terr = NegErr NegotiationError | OtherErr string

datatype sd_type = SDPTypeOffer | SDPTypeAnswer

record session_desc =
  sd_Type :: sd_type
  sd_SDP :: string

text \<open>A parsed description, by the \<open>Attribute\<close> lookups of its session and media sections.\<close>

record parsed_sdp =
  ps_session :: "string \<Rightarrow> string option"
  ps_media :: "(string \<Rightarrow> string option) list"

datatype sdp_error = MissingIceUfrag | MissingIcePwd | ConflictingIceUfrag | ConflictingIcePwd

text \<open>\<open>media.Attributes\<close> is a list of keys and values.\<close>

fun GetMidValue :: "(string \<times> string) list \<Rightarrow> string" where
  "GetMidValue [] = ''''"
| "GetMidValue ((k, v) # attrs) = (if k = ''mid'' then v else GetMidValue attrs)"

definition attr_values :: "string \<Rightarrow> parsed_sdp \<Rightarrow> string list" where
  "attr_values key desc =
    (case ps_session desc key of None \<Rightarrow> [] | Some v \<Rightarrow> [v])
    @ List.map_filter (\<lambda>m. m key) (ps_media desc)"

definition ExtractICECredential :: "parsed_sdp \<Rightarrow> sdp_error + string \<times> string" where
  "ExtractICECredential desc =
    (let remoteUfrags = attr_values ''ice-ufrag'' desc;
         remotePwds = attr_values ''ice-pwd'' desc
     in if remoteUfrags = [] then Inl MissingIceUfrag
        else if remotePwds = [] then Inl MissingIcePwd
        else if list_ex (\<lambda>m. m \<noteq> hd remoteUfrags) remoteUfrags then Inl ConflictingIceUfrag
        else if list_ex (\<lambda>m. m \<noteq> hd remotePwds) remotePwds then Inl ConflictingIcePwd
        else Inr (hd remoteUfrags, hd remotePwds))"

record ice_candidate =
  c_Candidate :: string
  c_UsernameFragment :: "string option"

section \<open>The transport\<close>

datatype NegotiationState =
  NegotiationStateIdle | NegotiationStateAwaitingAnswer | NegotiationStateRenegotiatePending

definition negotiation_state_string :: "NegotiationState \<Rightarrow> string" where
  "negotiation_state_string n =
    (case n of
       NegotiationStateIdle \<Rightarrow> ''idle''
     | NegotiationStateAwaitingAnswer \<Rightarrow> ''awaiting_answer''
     | NegotiationStateRenegotiatePending \<Rightarrow> ''renegotiate_pending'')"

datatype gathering_state = GatheringNew | Gathering | GatheringComplete
datatype pc_state = PCNew | PCConnecting | PCConnected | PCDisconnected | PCFailed | PCClosed
datatype ice_state = ICENew | ICEChecking | ICEConnected | ICECompleted | ICEDisconnected | ICEFailed | ICEClosed
datatype dtls_state = DTLSNew | DTLSConnecting | DTLSConnected | DTLSClosed | DTLSFailed
datatype set_remote_result = RemoteSet | RemoteUnsupportedCodec string | RemoteFailed string

text \<open>What pion and the handler answer while one event runs.\<close>

record pc_env =
  pc_gathering :: gathering_state
  pc_connection :: pc_state
  pc_stable :: bool
  pc_local :: "session_desc option"
  pc_has_remote :: bool
  pc_createOffer :: "bool \<Rightarrow> string + session_desc"
  pc_createAnswer :: "string + session_desc"
  pc_setLocal :: "string option"
  pc_setRemote :: set_remote_result
  pc_unmarshal :: "session_desc \<Rightarrow> parsed_sdp option"
  pc_addCandidate :: "ice_candidate \<Rightarrow> bool"
  h_send :: "string option"

record ConnectionInfo =
  ci_ICEState :: ice_state
  ci_DTLSState :: dtls_state
  ci_Duration :: duration
  ci_HasEverConnected :: bool

text \<open>The calls made on the handler and the peer connection.\<close>

datatype tcall =
    CreateOffer bool
  | SetRemote session_desc
  | OnOffer session_desc uint32
  | OnAnswer session_desc uint32
  | OnNegotiationStateChanged NegotiationState
  | OnNegotiationFailed NegotiationError
  | AddCandidate ice_candidate
  | OnAddIceCandidateSuccess
  | OnSetLocalDescription session_desc
  | OnSetLocalDescriptionSuccess
  | OnSetRemoteDescriptionSuccess
  | SendCandidate ice_candidate
  | OnInitialConnected
  | OnFailed ConnectionInfo
  | OnNeverConnected ConnectionInfo
  | ClosePC

datatype event =
    SendOffer
  | RestartICE
  | RemoteDescription session_desc uint32
  | RemoteCandidate ice_candidate
  | LocalCandidate ice_candidate
  | LocalCandidateFailed string
  | GatheringDone
  | NegotiationTimeout uint64

text \<open>The fields of \<open>Transport\<close>, in its order. \<open>t_negotiateTimer\<close> holds the number of the running
  debounce timer and \<open>t_timers\<close> how many were made, which is how the code tells timers apart;
  \<open>t_connectTimer\<close> holds the timeout the connect timer runs with.\<close>

record transport =
  t_minConnectTimeout :: duration
  t_maxConnectTimeout :: duration
  t_candidateQueue :: "ice_candidate list"
  t_queue :: "event list"
  t_closed :: bool
  t_negotiateTimer :: "nat option"
  t_timers :: nat
  t_connectTimer :: "duration option"
  t_iceStartedAt :: "time option"
  t_iceConnectedAt :: "time option"
  t_connectedAt :: "time option"
  t_lastPCState :: pc_state
  t_lastICEState :: ice_state
  t_lastDTLSState :: dtls_state
  t_negotiationState :: NegotiationState
  t_localNegotiationID :: uint32
  t_remoteNegotiationID :: uint32
  t_restartAtNextOffer :: bool
  t_restartAfterGathering :: bool
  t_offerRestartsICE :: bool
  t_negotiationTimer :: "uint64 option"
  t_negotiationGen :: uint64
  t_remoteUfrag :: string
  t_pendingRemoteCandidates :: "ice_candidate list"
  t_offerCredential :: string
  t_deferredOffer :: "session_desc option"
  t_calls :: "tcall list"

definition negotiationDebounce :: duration where "negotiationDebounce = 150 * Millisecond"
definition negotiationTimeout :: duration where "negotiationTimeout = 15 * Second"
definition iceDisconnectedTimeout :: duration where "iceDisconnectedTimeout = 10 * Second"
definition iceFailedTimeout :: duration where "iceFailedTimeout = 10 * Second"
definition iceKeepaliveInterval :: duration where "iceKeepaliveInterval = 3 * Second"
definition defaultMinConnectTimeoutAfterICE :: duration where
  "defaultMinConnectTimeoutAfterICE = 10 * Second"
definition defaultMaxConnectTimeoutAfterICE :: duration where
  "defaultMaxConnectTimeoutAfterICE = 20 * Second"

definition NewPCTransport :: transport where
  "NewPCTransport =
    \<lparr>t_minConnectTimeout = defaultMinConnectTimeoutAfterICE,
     t_maxConnectTimeout = defaultMaxConnectTimeoutAfterICE,
     t_candidateQueue = [], t_queue = [], t_closed = False, t_negotiateTimer = None, t_timers = 0,
     t_connectTimer = None, t_iceStartedAt = None, t_iceConnectedAt = None, t_connectedAt = None,
     t_lastPCState = PCNew, t_lastICEState = ICENew, t_lastDTLSState = DTLSNew,
     t_negotiationState = NegotiationStateIdle, t_localNegotiationID = 0, t_remoteNegotiationID = 0,
     t_restartAtNextOffer = False, t_restartAfterGathering = False, t_offerRestartsICE = False,
     t_negotiationTimer = None, t_negotiationGen = 0, t_remoteUfrag = '''',
     t_pendingRemoteCandidates = [], t_offerCredential = '''', t_deferredOffer = None, t_calls = []\<rparr>"

text \<open>\<open>iceTimeouts\<close>: the defaults, each replaced by a positive override.\<close>

definition iceTimeouts :: "(duration \<times> duration \<times> duration) option \<Rightarrow> duration \<times> duration \<times> duration" where
  "iceTimeouts overrides =
    (case overrides of
       None \<Rightarrow> (iceDisconnectedTimeout, iceFailedTimeout, iceKeepaliveInterval)
     | Some (d, f, k) \<Rightarrow>
        (if d > 0 then d else iceDisconnectedTimeout, if f > 0 then f else iceFailedTimeout,
         if k > 0 then k else iceKeepaliveInterval))"

definition call :: "tcall \<Rightarrow> transport \<Rightarrow> transport" where
  "call c t = t\<lparr>t_calls := t_calls t @ [c]\<rparr>"

definition enqueue :: "event \<Rightarrow> transport \<Rightarrow> transport" where
  "enqueue ev t = (if t_closed t then t else t\<lparr>t_queue := t_queue t @ [ev]\<rparr>)"

section \<open>The event loop\<close>

definition setNegotiationState :: "NegotiationState \<Rightarrow> transport \<Rightarrow> transport" where
  "setNegotiationState s t = call (OnNegotiationStateChanged s) (t\<lparr>t_negotiationState := s\<rparr>)"

definition stopNegotiationTimeout :: "transport \<Rightarrow> transport" where
  "stopNegotiationTimeout t = t\<lparr>t_negotiationGen := t_negotiationGen t + 1, t_negotiationTimer := None\<rparr>"

definition armNegotiationTimeout :: "transport \<Rightarrow> transport" where
  "armNegotiationTimeout t =
    (let t = stopNegotiationTimeout t in t\<lparr>t_negotiationTimer := Some (t_negotiationGen t)\<rparr>)"

definition iceCredentialOf :: "pc_env \<Rightarrow> session_desc \<Rightarrow> string + string" where
  "iceCredentialOf env sd =
    (case pc_unmarshal env sd of
       None \<Rightarrow> Inl ''cannot parse the description''
     | Some parsed \<Rightarrow>
        (case ExtractICECredential parsed of
           Inl _ \<Rightarrow> Inl ''no usable ice credentials''
         | Inr (ufrag, pwd) \<Rightarrow> Inr (ufrag @ '':'' @ pwd)))"

definition matchesRemote :: "transport \<Rightarrow> ice_candidate \<Rightarrow> bool" where
  "matchesRemote t c \<longleftrightarrow> c_UsernameFragment c = None \<or> c_UsernameFragment c = Some '''' \<or>
     t_remoteUfrag t = '''' \<or> c_UsernameFragment c = Some (t_remoteUfrag t)"

definition applyRemoteCandidate :: "pc_env \<Rightarrow> ice_candidate \<Rightarrow> transport \<Rightarrow> transport" where
  "applyRemoteCandidate env c t =
    (let t = call (AddCandidate c) t in
     if pc_addCandidate env c then call OnAddIceCandidateSuccess t else t)"

definition addRemoteCandidate :: "pc_env \<Rightarrow> ice_candidate \<Rightarrow> transport \<Rightarrow> transport" where
  "addRemoteCandidate env c t =
    (if \<not> pc_has_remote env \<or> \<not> matchesRemote t c
     then t\<lparr>t_pendingRemoteCandidates := t_pendingRemoteCandidates t @ [c]\<rparr>
     else applyRemoteCandidate env c t)"

fun apply_pending :: "pc_env \<Rightarrow> ice_candidate list \<Rightarrow> transport \<Rightarrow> transport" where
  "apply_pending env [] t = t"
| "apply_pending env (c # cs) t =
    apply_pending env cs (if matchesRemote t c then applyRemoteCandidate env c t else t)"

definition setRemoteDescription :: "pc_env \<Rightarrow> session_desc \<Rightarrow> transport \<Rightarrow> terr option \<times> transport" where
  "setRemoteDescription env sd t =
    (let t = call (SetRemote sd) t in
     case pc_setRemote env of
       RemoteFailed e \<Rightarrow> (Some (OtherErr (''setting remote description failed: '' @ e)), t)
     | _ \<Rightarrow>
        (let t = call OnSetRemoteDescriptionSuccess t;
             t = t\<lparr>t_remoteUfrag := (case iceCredentialOf env sd of Inl _ \<Rightarrow> ''''
                                    | Inr cr \<Rightarrow> takeWhile (\<lambda>ch. ch \<noteq> CHR '':'') cr)\<rparr>;
             pending = t_pendingRemoteCandidates t;
             t = t\<lparr>t_pendingRemoteCandidates := []\<rparr>
         in (None, apply_pending env pending t)))"

definition offer :: "pc_env \<Rightarrow> bool \<Rightarrow> transport \<Rightarrow> terr option \<times> transport" where
  "offer env iceRestart t =
    (case t_negotiationState t of
       NegotiationStateAwaitingAnswer \<Rightarrow> (None, setNegotiationState NegotiationStateRenegotiatePending t)
     | NegotiationStateRenegotiatePending \<Rightarrow> (None, t)
     | NegotiationStateIdle \<Rightarrow>
        (let iceRestart = (iceRestart \<or> t_restartAtNextOffer t);
             t = t\<lparr>t_restartAtNextOffer := False\<rparr>;
             t = call (CreateOffer iceRestart) t
         in case pc_createOffer env iceRestart of
           Inl e \<Rightarrow> (Some (OtherErr (''create offer failed: '' @ e)), t)
         | Inr sd \<Rightarrow>
            (let t = call (OnSetLocalDescription sd) t in
             case pc_setLocal env of
               Some e \<Rightarrow> (Some (OtherErr (''setting local description failed: '' @ e)), t)
             | None \<Rightarrow>
                (let t = call OnSetLocalDescriptionSuccess t;
                     t = t\<lparr>t_offerRestartsICE := iceRestart,
                           t_localNegotiationID := nextNegotiationID (t_localNegotiationID t)\<rparr>;
                     t = setNegotiationState NegotiationStateAwaitingAnswer t;
                     t = armNegotiationTimeout t;
                     t = call (OnOffer sd (t_localNegotiationID t)) t
                 in (map_option (\<lambda>e. OtherErr (''could not send offer: '' @ e)) (h_send env), t)))))"

definition sendOffer :: "pc_env \<Rightarrow> transport \<Rightarrow> terr option \<times> transport" where
  "sendOffer env t = offer env False t"

definition restartICE :: "pc_env \<Rightarrow> transport \<Rightarrow> terr option \<times> transport" where
  "restartICE env t =
    (case pc_gathering env of
       GatheringNew \<Rightarrow> (None, t)
     | Gathering \<Rightarrow> (None, t\<lparr>t_restartAfterGathering := True\<rparr>)
     | GatheringComplete \<Rightarrow>
        (if t_negotiationState t = NegotiationStateIdle then offer env True t
        else case pc_local env of
          None \<Rightarrow> (Some (OtherErr ''ICE restart without local SDP settled''), t)
        | Some current \<Rightarrow>
           (let t = (if t_offerRestartsICE t then t
                     else (setNegotiationState NegotiationStateRenegotiatePending t)
                            \<lparr>t_restartAtNextOffer := True\<rparr>);
                t = call (OnOffer current (t_localNegotiationID t)) t
            in (map_option (\<lambda>e. OtherErr (''could not resend offer: '' @ e)) (h_send env), t))))"

definition acceptOffer :: "pc_env \<Rightarrow> session_desc \<Rightarrow> uint32 \<Rightarrow> transport \<Rightarrow> terr option \<times> transport" where
  "acceptOffer env sd negotiationID t =
    (case iceCredentialOf env sd of
       Inl e \<Rightarrow> (Some (OtherErr (''reading the ice credentials: '' @ e)), t)
     | Inr credential \<Rightarrow>
        (let restart = (t_offerCredential t \<noteq> '''' \<and> credential \<noteq> t_offerCredential t);
             t = t\<lparr>t_remoteNegotiationID := negotiationID\<rparr>
         in if restart \<and> pc_gathering env = Gathering then (None, t\<lparr>t_deferredOffer := Some sd\<rparr>)
            else
              let t = t\<lparr>t_deferredOffer := None\<rparr> in
              case setRemoteDescription env sd t of
                (Some e, t) \<Rightarrow> (Some e, t)
              | (None, t) \<Rightarrow>
                 (let t = t\<lparr>t_offerCredential := credential\<rparr> in
                  case pc_createAnswer env of
                    Inl e \<Rightarrow> (Some (OtherErr (''create answer failed: '' @ e)), t)
                  | Inr answer \<Rightarrow>
                     (let t = call (OnSetLocalDescription answer) t in
                      case pc_setLocal env of
                        Some e \<Rightarrow> (Some (OtherErr (''setting local description failed: '' @ e)), t)
                      | None \<Rightarrow>
                         (let t = call OnSetLocalDescriptionSuccess t;
                              t = call (OnAnswer answer negotiationID) t
                          in (map_option (\<lambda>e. OtherErr (''could not send answer: '' @ e)) (h_send env), t))))))"

definition acceptAnswer :: "pc_env \<Rightarrow> session_desc \<Rightarrow> uint32 \<Rightarrow> transport \<Rightarrow> terr option \<times> transport" where
  "acceptAnswer env answer negotiationID t =
    (if classifyAnswerNegotiationID negotiationID (t_remoteNegotiationID t) (t_localNegotiationID t)
          \<noteq> negotiationAnswerAccept
     then (None, t)
     else
       let t = stopNegotiationTimeout t; stable = pc_stable env in
       case (if stable then (None, t)
             else (case setRemoteDescription env answer t of
               (Some e, t) \<Rightarrow> (Some e, t)
             | (None, t) \<Rightarrow> (None, if negotiationID \<noteq> invalidNegotiationID
                              then t\<lparr>t_remoteNegotiationID := negotiationID\<rparr> else t))) of
         (Some e, t) \<Rightarrow> (Some e, t)
       | (None, t) \<Rightarrow>
          (let renegotiate = (t_negotiationState t = NegotiationStateRenegotiatePending);
               t = setNegotiationState NegotiationStateIdle t;
               t = t\<lparr>t_offerRestartsICE := False\<rparr>
           in if renegotiate \<or> stable then offer env False t else (None, t)))"

definition onGatheringComplete :: "pc_env \<Rightarrow> transport \<Rightarrow> terr option \<times> transport" where
  "onGatheringComplete env t =
    (if t_restartAfterGathering t then restartICE env (t\<lparr>t_restartAfterGathering := False\<rparr>)
     else case t_deferredOffer t of
       Some sd \<Rightarrow> acceptOffer env sd (t_remoteNegotiationID t) (t\<lparr>t_deferredOffer := None\<rparr>)
     | None \<Rightarrow> (None, t))"

definition onNegotiationTimeout :: "pc_env \<Rightarrow> uint64 \<Rightarrow> transport \<Rightarrow> terr option \<times> transport" where
  "onNegotiationTimeout env gen t =
    (if gen \<noteq> t_negotiationGen t then (None, t)
     else
       let t = t\<lparr>t_negotiationTimer := None\<rparr> in
       if pc_connection env \<noteq> PCConnected then (None, t)
       else (Some (NegErr (NewNegotiationError ''negotiation timed out'' None None)), t))"

definition queueCandidate :: "ice_candidate \<Rightarrow> transport \<Rightarrow> transport" where
  "queueCandidate c t = t\<lparr>t_candidateQueue := t_candidateQueue t @ [c]\<rparr>"

definition run_event :: "pc_env \<Rightarrow> event \<Rightarrow> transport \<Rightarrow> terr option \<times> transport" where
  "run_event env ev t =
    (case ev of
       SendOffer \<Rightarrow> sendOffer env t
     | RestartICE \<Rightarrow> restartICE env t
     | RemoteDescription sd nid \<Rightarrow>
        (if sd_Type sd = SDPTypeOffer then acceptOffer env sd nid t else acceptAnswer env sd nid t)
     | RemoteCandidate c \<Rightarrow> (None, addRemoteCandidate env c t)
     | LocalCandidate c \<Rightarrow> (None, queueCandidate c t)
     | LocalCandidateFailed e \<Rightarrow> (Some (OtherErr e), t)
     | GatheringDone \<Rightarrow> onGatheringComplete env t
     | NegotiationTimeout gen \<Rightarrow> onNegotiationTimeout env gen t)"

definition event_name :: "event \<Rightarrow> string" where
  "event_name ev =
    (case ev of
       SendOffer \<Rightarrow> ''send offer'' | RestartICE \<Rightarrow> ''ice restart''
     | RemoteDescription sd nid \<Rightarrow> ''remote description'' | RemoteCandidate c \<Rightarrow> ''remote ice candidate''
     | LocalCandidate c \<Rightarrow> ''local ice candidate'' | LocalCandidateFailed e \<Rightarrow> ''local ice candidate''
     | GatheringDone \<Rightarrow> ''ice gathering complete'' | NegotiationTimeout gen \<Rightarrow> ''negotiation timeout'')"

definition handle :: "pc_env \<Rightarrow> event \<Rightarrow> transport \<Rightarrow> transport" where
  "handle env ev t =
    (case run_event env ev t of
       (None, t) \<Rightarrow> t
     | (Some e, t) \<Rightarrow>
        if t_closed t then t
        else call (OnNegotiationFailed (case e of NegErr n \<Rightarrow> n
               | OtherErr s \<Rightarrow> NewNegotiationError (event_name ev) (Some s) None)) t)"

text \<open>One turn of \<open>run\<close>: take the next event, unless the transport is closed, and handle it.\<close>

definition next_event :: "transport \<Rightarrow> (event \<times> transport) option" where
  "next_event t =
    (if t_closed t then None
     else case t_queue t of [] \<Rightarrow> None | ev # q \<Rightarrow> Some (ev, t\<lparr>t_queue := q\<rparr>))"

definition run_once :: "pc_env \<Rightarrow> transport \<Rightarrow> transport" where
  "run_once env t = (case next_event t of None \<Rightarrow> t | Some (ev, t) \<Rightarrow> handle env ev t)"

section \<open>The methods and callbacks around the loop\<close>

definition Negotiate :: "bool \<Rightarrow> transport \<Rightarrow> transport" where
  "Negotiate force t =
    (if t_closed t then t
     else if force then enqueue SendOffer (t\<lparr>t_negotiateTimer := None\<rparr>)
     else if t_negotiateTimer t \<noteq> None then t
     else t\<lparr>t_negotiateTimer := Some (t_timers t), t_timers := t_timers t + 1\<rparr>)"

text \<open>The debounce timer with number \<open>n\<close> goes off.\<close>

definition negotiate_timer_fires :: "nat \<Rightarrow> transport \<Rightarrow> transport" where
  "negotiate_timer_fires n t =
    (if t_negotiateTimer t \<noteq> Some n then t
     else enqueue SendOffer (t\<lparr>t_negotiateTimer := None\<rparr>))"

definition ICERestart :: "pc_env \<Rightarrow> transport \<Rightarrow> terr option \<times> transport" where
  "ICERestart env t =
    (case pc_connection env of
       PCNew \<Rightarrow> (None, t)
     | PCClosed \<Rightarrow> (Some (OtherErr ''ICE restart on closed peer connection''), t)
     | _ \<Rightarrow> (None, enqueue RestartICE t))"

definition HandleRemoteDescriptionWithNegotiationID :: "session_desc \<Rightarrow> uint32 \<Rightarrow> transport \<Rightarrow> transport" where
  "HandleRemoteDescriptionWithNegotiationID sd nid t = enqueue (RemoteDescription sd nid) t"

definition HandleRemoteDescription :: "session_desc \<Rightarrow> transport \<Rightarrow> transport" where
  "HandleRemoteDescription sd t = HandleRemoteDescriptionWithNegotiationID sd invalidNegotiationID t"

definition AddICECandidate :: "ice_candidate \<Rightarrow> transport \<Rightarrow> transport" where
  "AddICECandidate c t = enqueue (RemoteCandidate c) t"

definition Close :: "transport \<Rightarrow> transport" where
  "Close t =
    (if t_closed t then t
     else call ClosePC (t\<lparr>t_closed := True, t_queue := [], t_negotiateTimer := None, t_connectTimer := None\<rparr>))"

definition IsHealthy :: "pc_state \<Rightarrow> ice_state \<Rightarrow> transport \<Rightarrow> bool" where
  "IsHealthy pcs ices t \<longleftrightarrow> \<not> t_closed t \<and> pcs \<noteq> PCFailed \<and> pcs \<noteq> PCClosed \<and> ices \<noteq> ICEFailed \<and> ices \<noteq> ICEClosed"

text \<open>One turn of the inner loop of \<open>sendCandidates\<close>; \<open>sent\<close> is the handler's answer.\<close>

definition send_candidate :: "(ice_candidate \<Rightarrow> string option) \<Rightarrow> transport \<Rightarrow> transport" where
  "send_candidate sent t =
    (if t_closed t then t
     else case t_candidateQueue t of
       [] \<Rightarrow> t
     | c # cs \<Rightarrow>
        (let t = call (SendCandidate c) (t\<lparr>t_candidateQueue := cs\<rparr>) in
         case sent c of None \<Rightarrow> t | Some e \<Rightarrow> enqueue (LocalCandidateFailed e) t))"

text \<open>\<open>bindCallbacks\<close>: what pion's callbacks put into the loop.\<close>

definition on_gathering_state :: "gathering_state \<Rightarrow> transport \<Rightarrow> transport" where
  "on_gathering_state s t = (if s = GatheringComplete then enqueue GatheringDone t else t)"

definition on_local_candidate :: "ice_candidate option \<Rightarrow> transport \<Rightarrow> transport" where
  "on_local_candidate c t = (case c of None \<Rightarrow> t | Some c \<Rightarrow> enqueue (LocalCandidate c) t)"

definition negotiation_timer_fires :: "uint64 \<Rightarrow> transport \<Rightarrow> transport" where
  "negotiation_timer_fires gen t = enqueue (NegotiationTimeout gen) t"

text \<open>\<open>time.Sub\<close> saturates, and a zero start time is far out of range.\<close>

definition maxDuration :: duration where "maxDuration = 2 ^ 63 - 1"

definition connect_timeout :: "transport \<Rightarrow> time \<Rightarrow> duration" where
  "connect_timeout t now =
    (let iceDuration = (case t_iceStartedAt t of None \<Rightarrow> maxDuration | Some s \<Rightarrow> now - s)
     in min (max (i64 (3 * iceDuration)) (t_minConnectTimeout t)) (t_maxConnectTimeout t))"

definition onICEStateChange :: "time \<Rightarrow> ice_state \<Rightarrow> transport \<Rightarrow> transport" where
  "onICEStateChange now s t =
    (let t = (if s \<noteq> ICEClosed then t\<lparr>t_lastICEState := s\<rparr> else t) in
     case s of
       ICEChecking \<Rightarrow> (if t_iceStartedAt t = None then t\<lparr>t_iceStartedAt := Some now\<rparr> else t)
     | ICEConnected \<Rightarrow>
        if t_iceConnectedAt t \<noteq> None \<or> t_closed t then t
        else t\<lparr>t_iceConnectedAt := Some now, t_connectTimer := Some (connect_timeout t now)\<rparr>
     | _ \<Rightarrow> t)"

definition connectionInfo :: "time \<Rightarrow> transport \<Rightarrow> ConnectionInfo" where
  "connectionInfo now t =
    (let phaseStart = (case t_iceConnectedAt t of None \<Rightarrow> t_iceStartedAt t | Some c \<Rightarrow> Some c) in
     \<lparr>ci_ICEState = t_lastICEState t, ci_DTLSState = t_lastDTLSState t,
      ci_Duration = (case phaseStart of None \<Rightarrow> 0 | Some p \<Rightarrow> now - p),
      ci_HasEverConnected = (t_connectedAt t \<noteq> None)\<rparr>)"

definition onConnectTimeout :: "time \<Rightarrow> pc_state \<Rightarrow> transport \<Rightarrow> transport" where
  "onConnectTimeout now pcs t =
    (if pcs = PCClosed \<or> pcs = PCFailed then t
     else if t_connectedAt t \<noteq> None then t
     else call (OnFailed (connectionInfo now t)) t)"

definition onPCStateChange :: "time \<Rightarrow> pc_state \<Rightarrow> transport \<Rightarrow> transport" where
  "onPCStateChange now s t =
    (let prev = t_lastPCState t;
         t = t\<lparr>t_lastPCState := s\<rparr>
     in case s of
       PCConnected \<Rightarrow>
        (let first = (t_connectedAt t = None);
             t = t\<lparr>t_connectTimer := None, t_connectedAt := (if first then Some now else t_connectedAt t)\<rparr>
         in if first then call OnInitialConnected t else t)
     | PCFailed \<Rightarrow> (let t = t\<lparr>t_connectTimer := None\<rparr> in call (OnFailed (connectionInfo now t)) t)
     | PCClosed \<Rightarrow>
        if prev = PCConnecting \<and> \<not> ci_HasEverConnected (connectionInfo now t)
        then call (OnNeverConnected (connectionInfo now t)) t else t
     | _ \<Rightarrow> t)"

definition onDTLSStateChange :: "dtls_state \<Rightarrow> transport \<Rightarrow> transport" where
  "onDTLSStateChange s t = (if s \<noteq> DTLSClosed then t\<lparr>t_lastDTLSState := s\<rparr> else t)"

text \<open>\<open>configureOpus\<close> on the codecs of a sender: the fmtp parameters (the line split at each
  semicolon) and the feedback types.\<close>

record codec_params =
  cp_opus :: bool
  cp_fmtp :: "string list"
  cp_feedback :: "string list"

definition has_prefix :: "string \<Rightarrow> string \<Rightarrow> bool" where
  "has_prefix p s \<longleftrightarrow> take (length p) s = p"

definition configureOpus :: "bool \<Rightarrow> bool \<Rightarrow> codec_params list \<Rightarrow> codec_params list" where
  "configureOpus stereo nack codecs =
    map (\<lambda>c. if \<not> cp_opus c then c
             else
               let params = filter (\<lambda>p. \<not> (p = '''' \<or> has_prefix ''sprop-stereo='' p)) (cp_fmtp c) in
               c\<lparr>cp_fmtp := (if stereo then params @ [''sprop-stereo=1''] else params),
                 cp_feedback := (if nack \<and> ''nack'' \<notin> set (cp_feedback c)
                                 then cp_feedback c @ [''nack''] else cp_feedback c)\<rparr>) codecs"

section \<open>Steps and reachable states\<close>

inductive tstep :: "transport \<Rightarrow> transport \<Rightarrow> bool" where
  loop: "tstep t (run_once env t)"
| negotiate: "tstep t (Negotiate force t)"
| debounced: "tstep t (negotiate_timer_fires n t)"
| restart: "tstep t (snd (ICERestart env t))"
| remote: "tstep t (HandleRemoteDescriptionWithNegotiationID sd nid t)"
| candidate: "tstep t (AddICECandidate c t)"
| send: "tstep t (send_candidate sent t)"
| gathering: "tstep t (on_gathering_state gs t)"
| local_candidate: "tstep t (on_local_candidate lc t)"
| timeout: "t_negotiationTimer t = Some gen \<Longrightarrow> tstep t (negotiation_timer_fires gen t)"
| ice: "tstep t (onICEStateChange now ices t)"
| connect_timeout: "tstep t (onConnectTimeout now pcs t)"
| pc: "tstep t (onPCStateChange now pcs t)"
| dtls: "tstep t (onDTLSStateChange ds t)"
| close: "tstep t (Close t)"

text \<open>The protocol the offers of a transport follow, as an automaton over its calls: the id of the
  last offer and whether it is outstanding. An offer is created only when none is outstanding
  and goes out under the next id; while it is outstanding it may only be sent again under its
  own id.\<close>

fun offer_protocol :: "uint32 \<times> bool \<Rightarrow> tcall list \<Rightarrow> (uint32 \<times> bool) option" where
  "offer_protocol s [] = Some s"
| "offer_protocol (i, out) (CreateOffer r # cs) = (if out then None else offer_protocol (i, out) cs)"
| "offer_protocol (i, out) (OnOffer sd j # cs) =
    (if j = (if out then i else nextNegotiationID i) then offer_protocol (j, True) cs else None)"
| "offer_protocol (i, out) (OnNegotiationStateChanged NegotiationStateIdle # cs) = offer_protocol (i, False) cs"
| "offer_protocol s (c # cs) = offer_protocol s cs"

lemma offer_protocol_append:
  "offer_protocol s (cs @ ds) = Option.bind (offer_protocol s cs) (\<lambda>s'. offer_protocol s' ds)"
  by (induction s cs rule: offer_protocol.induct) auto

definition offers_ok :: "transport \<Rightarrow> bool" where
  "offers_ok t \<longleftrightarrow> offer_protocol (0, False) (t_calls t) =
     Some (t_localNegotiationID t, t_negotiationState t \<noteq> NegotiationStateIdle)"

text \<open>Calls that do not concern the offers.\<close>

definition neutral :: "tcall \<Rightarrow> bool" where
  "neutral c \<longleftrightarrow> (\<forall>r. c \<noteq> CreateOffer r) \<and> (\<forall>sd i. c \<noteq> OnOffer sd i) \<and>
     c \<noteq> OnNegotiationStateChanged NegotiationStateIdle"

lemma neutral_protocol: "neutral c \<Longrightarrow> offer_protocol s [c] = Some s"
  by (cases "(s, [c])" rule: offer_protocol.cases) (auto simp: neutral_def)

lemma offers_ok_call: "neutral c \<Longrightarrow> offers_ok (call c t) \<longleftrightarrow> offers_ok t"
  by (cases "offer_protocol (0, False) (t_calls t)")
     (simp_all add: offers_ok_def call_def offer_protocol_append neutral_protocol)

lemma neutral_simps [simp]:
  "neutral (OnAnswer sd i)" "neutral (OnNegotiationFailed e)" "neutral (AddCandidate c)"
  "neutral OnAddIceCandidateSuccess" "neutral (OnSetLocalDescription sd)" "neutral (SetRemote sd)"
  "neutral OnSetLocalDescriptionSuccess" "neutral OnSetRemoteDescriptionSuccess" "neutral (SendCandidate c)"
  "neutral OnInitialConnected" "neutral (OnFailed ci)" "neutral (OnNeverConnected ci)" "neutral ClosePC"
  "neutral (OnNegotiationStateChanged s) \<longleftrightarrow> s \<noteq> NegotiationStateIdle"
  by (auto simp: neutral_def)

text \<open>The part of the state the protocol reads.\<close>

lemma offers_ok_frame:
  "t_calls t' = t_calls t \<Longrightarrow> t_localNegotiationID t' = t_localNegotiationID t \<Longrightarrow>
   t_negotiationState t' = t_negotiationState t \<Longrightarrow> offers_ok t' \<longleftrightarrow> offers_ok t"
  by (simp add: offers_ok_def)

lemma call_fields [simp]:
  "t_negotiationState (call c t) = t_negotiationState t" "t_localNegotiationID (call c t) = t_localNegotiationID t"
  "t_remoteUfrag (call c t) = t_remoteUfrag t" "t_pendingRemoteCandidates (call c t) = t_pendingRemoteCandidates t"
  "t_calls (call c t) = t_calls t @ [c]" "t_closed (call c t) = t_closed t" "t_queue (call c t) = t_queue t"
  "t_restartAtNextOffer (call c t) = t_restartAtNextOffer t" "t_remoteNegotiationID (call c t) = t_remoteNegotiationID t"
  "t_negotiationGen (call c t) = t_negotiationGen t" "t_negotiationTimer (call c t) = t_negotiationTimer t"
  "t_offerRestartsICE (call c t) = t_offerRestartsICE t"
  by (simp_all add: call_def)

lemma enqueue_offers [simp]: "offers_ok (enqueue ev t) \<longleftrightarrow> offers_ok t"
  by (simp add: enqueue_def offers_ok_def)

lemmas offers_frames = offers_ok_call offers_ok_frame

lemma applyRemoteCandidate_frame [simp]:
  "t_negotiationState (applyRemoteCandidate env c t) = t_negotiationState t"
  "t_localNegotiationID (applyRemoteCandidate env c t) = t_localNegotiationID t"
  "t_remoteUfrag (applyRemoteCandidate env c t) = t_remoteUfrag t"
  "t_pendingRemoteCandidates (applyRemoteCandidate env c t) = t_pendingRemoteCandidates t"
  "t_remoteNegotiationID (applyRemoteCandidate env c t) = t_remoteNegotiationID t"
  "t_restartAtNextOffer (applyRemoteCandidate env c t) = t_restartAtNextOffer t"
  "t_negotiationTimer (applyRemoteCandidate env c t) = t_negotiationTimer t"
  "offers_ok (applyRemoteCandidate env c t) \<longleftrightarrow> offers_ok t"
  by (simp_all add: applyRemoteCandidate_def Let_def offers_ok_call)

lemma apply_pending_frame [simp]:
  "t_negotiationState (apply_pending env cs t) = t_negotiationState t"
  "t_localNegotiationID (apply_pending env cs t) = t_localNegotiationID t"
  "t_remoteUfrag (apply_pending env cs t) = t_remoteUfrag t"
  "t_pendingRemoteCandidates (apply_pending env cs t) = t_pendingRemoteCandidates t"
  "t_remoteNegotiationID (apply_pending env cs t) = t_remoteNegotiationID t"
  "t_restartAtNextOffer (apply_pending env cs t) = t_restartAtNextOffer t"
  "t_negotiationTimer (apply_pending env cs t) = t_negotiationTimer t"
  "offers_ok (apply_pending env cs t) \<longleftrightarrow> offers_ok t"
  by (induction cs arbitrary: t) simp_all

lemma setRemoteDescription_frame:
  assumes "setRemoteDescription env sd t = (e, t')"
  shows "t_negotiationState t' = t_negotiationState t" "t_localNegotiationID t' = t_localNegotiationID t"
    "t_restartAtNextOffer t' = t_restartAtNextOffer t" "t_negotiationTimer t' = t_negotiationTimer t"
    "offers_ok t' \<longleftrightarrow> offers_ok t"
proof -
  have fr: "offers_ok (t\<lparr>t_remoteUfrag := u, t_pendingRemoteCandidates := ps\<rparr>) \<longleftrightarrow> offers_ok t"
    "offers_ok ((call c t)\<lparr>t_remoteUfrag := u, t_pendingRemoteCandidates := ps\<rparr>) \<longleftrightarrow> offers_ok (call c t)" for u ps c t
    by (simp_all add: offers_ok_def)
  show "t_negotiationState t' = t_negotiationState t" "t_localNegotiationID t' = t_localNegotiationID t"
    "t_restartAtNextOffer t' = t_restartAtNextOffer t" "t_negotiationTimer t' = t_negotiationTimer t"
    "offers_ok t' \<longleftrightarrow> offers_ok t"
    using assms by (auto simp: setRemoteDescription_def Let_def fr offers_ok_call split: set_remote_result.splits)
qed

lemma setNegotiationState_offers:
  "offers_ok t \<Longrightarrow> t_negotiationState t \<noteq> NegotiationStateIdle \<Longrightarrow> offers_ok (setNegotiationState s t)"
  by (cases s) (simp_all add: offers_ok_def setNegotiationState_def offer_protocol_append)

lemma setIdle_offers: "offers_ok t \<Longrightarrow> offers_ok (setNegotiationState NegotiationStateIdle t)"
  by (simp add: offers_ok_def setNegotiationState_def offer_protocol_append)

lemma offer_offers: "offers_ok t \<Longrightarrow> offers_ok (snd (offer env r t))"
  by (auto simp: offer_def Let_def setNegotiationState_offers offers_ok_def offer_protocol_append
      setNegotiationState_def armNegotiationTimeout_def stopNegotiationTimeout_def call_def
      split: NegotiationState.split sum.split option.split)

lemma resend_offers:
  "offers_ok t \<Longrightarrow> t_negotiationState t \<noteq> NegotiationStateIdle \<Longrightarrow>
   offers_ok (call (OnOffer sd (t_localNegotiationID t)) t)"
  by (simp add: offers_ok_def offer_protocol_append)

lemma restartICE_offers:
  assumes "offers_ok t"
  shows "offers_ok (snd (restartICE env t))"
proof (cases "t_negotiationState t = NegotiationStateIdle")
  case True
  then show ?thesis
    using assms offer_offers [OF assms]
    by (simp add: restartICE_def offers_ok_frame [of "t\<lparr>t_restartAfterGathering := True\<rparr>" t] split: gathering_state.split)
next
  case False
  then show ?thesis
    using assms
    by (auto simp: restartICE_def Let_def offers_ok_def offer_protocol_append
        setNegotiationState_def split: gathering_state.split option.split)
qed

lemma acceptOffer_offers: "offers_ok t \<Longrightarrow> offers_ok (snd (acceptOffer env sd nid t))"
proof -
  assume t: "offers_ok t"
  let ?t = "t\<lparr>t_remoteNegotiationID := nid, t_deferredOffer := None\<rparr>"
  have "offers_ok ?t"
    using t by (simp add: offers_ok_def)
  then have s: "offers_ok t'" if "setRemoteDescription env sd ?t = (e, t')" for e t'
    using setRemoteDescription_frame(5) [OF that] by simp
  have c: "offers_ok (t'\<lparr>t_offerCredential := cr\<rparr>) \<longleftrightarrow> offers_ok t'" for t' :: transport and cr
    by (simp add: offers_ok_def)
  show ?thesis
    using t s by (auto simp: acceptOffer_def Let_def offers_ok_call c split: sum.split option.split prod.split)
      (simp_all add: offers_ok_def)
qed

lemma acceptAnswer_offers: "offers_ok t \<Longrightarrow> offers_ok (snd (acceptAnswer env sd nid t))"
proof -
  assume t: "offers_ok t"
  have s0: "offers_ok (stopNegotiationTimeout t)"
    using t by (simp add: offers_ok_def stopNegotiationTimeout_def)
  have s: "offers_ok t'" if "setRemoteDescription env sd (stopNegotiationTimeout t) = (e, t')" for e t'
    using setRemoteDescription_frame(5) [OF that] s0 by simp
  have r: "offers_ok (t'\<lparr>t_remoteNegotiationID := n\<rparr>) \<longleftrightarrow> offers_ok t'"
    "offers_ok (t'\<lparr>t_offerRestartsICE := b\<rparr>) \<longleftrightarrow> offers_ok t'" for t' :: transport and n b
    by (simp_all add: offers_ok_def)
  show ?thesis
    using t s0 s by (auto simp: acceptAnswer_def Let_def r setIdle_offers offer_offers split: prod.split option.split)
qed

lemma run_event_offers: "offers_ok t \<Longrightarrow> offers_ok (snd (run_event env ev t))"
proof -
  assume t: "offers_ok t"
  have g: "offers_ok (t\<lparr>t_restartAfterGathering := b\<rparr>) \<longleftrightarrow> offers_ok t"
    "offers_ok (t\<lparr>t_deferredOffer := d\<rparr>) \<longleftrightarrow> offers_ok t"
    "offers_ok (t\<lparr>t_negotiationTimer := nt\<rparr>) \<longleftrightarrow> offers_ok t"
    "offers_ok (t\<lparr>t_candidateQueue := cq\<rparr>) \<longleftrightarrow> offers_ok t"
    "offers_ok (t\<lparr>t_pendingRemoteCandidates := ps\<rparr>) \<longleftrightarrow> offers_ok t" for b d nt cq ps
    by (simp_all add: offers_ok_def)
  show ?thesis
    using t restartICE_offers [of "t\<lparr>t_restartAfterGathering := False\<rparr>"]
      acceptOffer_offers [of "t\<lparr>t_deferredOffer := None\<rparr>"]
    by (auto simp: run_event_def sendOffer_def offer_offers restartICE_offers acceptOffer_offers
        acceptAnswer_offers addRemoteCandidate_def queueCandidate_def onGatheringComplete_def
        onNegotiationTimeout_def g Let_def split: event.split option.split)
qed

lemma handle_offers: "offers_ok t \<Longrightarrow> offers_ok (handle env ev t)"
  using run_event_offers [of t env ev]
  by (auto simp: handle_def offers_ok_call split: prod.split option.split)

lemma run_once_offers: "offers_ok t \<Longrightarrow> offers_ok (run_once env t)"
  using handle_offers [of "t\<lparr>t_queue := q\<rparr>" for q]
  by (auto simp: run_once_def next_event_def offers_ok_def split: option.split list.split)

lemma callback_offers:
  "offers_ok t \<Longrightarrow> offers_ok (onICEStateChange now ices t)"
  "offers_ok t \<Longrightarrow> offers_ok (onConnectTimeout now pcs t)"
  "offers_ok t \<Longrightarrow> offers_ok (onPCStateChange now pcs t)"
  "offers_ok t \<Longrightarrow> offers_ok (onDTLSStateChange ds t)"
  by (auto simp: onICEStateChange_def onConnectTimeout_def onPCStateChange_def onDTLSStateChange_def
      Let_def call_def offers_ok_def offer_protocol_append split: ice_state.split pc_state.split)

lemma method_offers:
  "offers_ok t \<Longrightarrow> offers_ok (Negotiate force t)" "offers_ok t \<Longrightarrow> offers_ok (negotiate_timer_fires n t)"
  "offers_ok t \<Longrightarrow> offers_ok (snd (ICERestart env t))" "offers_ok t \<Longrightarrow> offers_ok (Close t)"
  "offers_ok t \<Longrightarrow> offers_ok (send_candidate sent t)"
  by (auto simp: Negotiate_def negotiate_timer_fires_def ICERestart_def Close_def send_candidate_def
      Let_def enqueue_def call_def offers_ok_def offer_protocol_append
      split: pc_state.split list.split option.split)

lemma tstep_offers: "tstep t t' \<Longrightarrow> offers_ok t \<Longrightarrow> offers_ok t'"
  by (erule tstep.cases)
     (auto simp: run_once_offers method_offers callback_offers HandleRemoteDescriptionWithNegotiationID_def
       AddICECandidate_def on_gathering_state_def on_local_candidate_def negotiation_timer_fires_def
       split: option.split)

interpretation tp: invariant_machine "\<lambda>t. t = NewPCTransport" tstep offers_ok
proof unfold_locales
  show "offers_ok s" if "s = NewPCTransport" for s
    using that by (simp add: offers_ok_def NewPCTransport_def)
qed (rule tstep_offers)

section \<open>Answers\<close>

lemma sint_succ: "0 < sint (nextNegotiationID r - r)"
proof (cases "r + 1 = 0")
  case True
  then have "r = - 1"
    by (simp add: eq_neg_iff_add_eq_0)
  then show ?thesis
    by (simp add: nextNegotiationID_def invalidNegotiationID_def)
qed (simp add: nextNegotiationID_def Let_def invalidNegotiationID_def)

lemma classify_accept_iff:
  "classifyAnswerNegotiationID nid remote loc = negotiationAnswerAccept \<longleftrightarrow>
    nid = 0 \<or> nid = loc \<and> (remote = 0 \<or> 0 < sint (nid - remote))"
  by (auto simp: classifyAnswerNegotiationID_def invalidNegotiationID_def Let_def)

section \<open>Properties\<close>

text \<open>C2: at most one offer is outstanding. In every reachable state the calls a transport has made
  follow the offer protocol: it creates an offer only when none is outstanding, each new offer
  carries the next negotiation id, and an outstanding offer is only ever sent again under its
  own id, whatever order requests, answers, restarts, timeouts and failures come in; and the
  transport's own record of the exchange agrees with its calls.\<close>

theorem transport_offer_protocol:
  assumes "tstep\<^sup>*\<^sup>* NewPCTransport t"
  shows "offer_protocol (0, False) (t_calls t) =
    Some (t_localNegotiationID t, t_negotiationState t \<noteq> NegotiationStateIdle)"
  using tp.reach_inv [OF refl assms] by (simp add: offers_ok_def)

definition sample_sd :: "sd_type \<Rightarrow> session_desc" where
  "sample_sd ty = \<lparr>sd_Type = ty, sd_SDP = ''v=0''\<rparr>"

definition sample_env :: pc_env where
  "sample_env = \<lparr>pc_gathering = GatheringComplete, pc_connection = PCConnected, pc_stable = False,
     pc_local = Some (sample_sd SDPTypeOffer), pc_has_remote = True,
     pc_createOffer = (\<lambda>r. Inr (sample_sd SDPTypeOffer)), pc_createAnswer = Inr (sample_sd SDPTypeAnswer),
     pc_setLocal = None, pc_setRemote = RemoteSet,
     pc_unmarshal = (\<lambda>sd. Some \<lparr>ps_session = (\<lambda>k. if k = ''ice-ufrag'' then Some ''u'' else Some ''p''),
        ps_media = []\<rparr>), pc_addCandidate = (\<lambda>c. True), h_send = None\<rparr>"

definition sample_offered :: transport where
  "sample_offered = run_once sample_env (Negotiate True NewPCTransport)"

lemma sample_offered_reach: "tstep\<^sup>*\<^sup>* NewPCTransport sample_offered"
  unfolding sample_offered_def 
  by (rule rtranclp.rtrancl_into_rtrancl [OF r_into_rtranclp [of tstep, OF tstep.negotiate] tstep.loop])

theorem transport_offer_protocol_witness:
  "offer_protocol (0, False) (t_calls sample_offered) =
    Some (t_localNegotiationID sample_offered, t_negotiationState sample_offered \<noteq> NegotiationStateIdle)"
  by (rule transport_offer_protocol [OF sample_offered_reach])

text \<open>An answer is applied exactly when it carries no id or the id of the outstanding offer and
  that id is ahead, on the ring of 32-bit ids, of the last one accepted; in particular the
  answer to the offer right after an accepted one is never taken for stale, even when the
  counter wraps around, and an id once accepted is never accepted again.\<close>

theorem transport_answer_accept:
  "(classifyAnswerNegotiationID nid remote loc = negotiationAnswerAccept) =
     (nid = 0 \<or> nid = loc \<and> (remote = 0 \<or> 0 < sint (nid - remote))) \<and>
   nextNegotiationID remote \<noteq> invalidNegotiationID \<and>
   classifyAnswerNegotiationID (nextNegotiationID remote) remote (nextNegotiationID remote)
     = negotiationAnswerAccept \<and>
   (remote = 0 \<or> classifyAnswerNegotiationID remote remote loc = negotiationAnswerDuplicate)"
proof -
  have "nextNegotiationID remote \<noteq> invalidNegotiationID"
    by (simp add: nextNegotiationID_def Let_def invalidNegotiationID_def)
  moreover have "remote = 0 \<or> classifyAnswerNegotiationID remote remote loc = negotiationAnswerDuplicate"
    by (simp add: classifyAnswerNegotiationID_def invalidNegotiationID_def)
  ultimately show ?thesis
    using sint_succ [of remote] by (simp add: classify_accept_iff)
qed

text \<open>C17: a renegotiation asked for while an offer is outstanding is not lost. When the answer to
  that offer is accepted and applied, the transport sends a new offer under the next id, and
  that offer restarts ICE if a restart was deferred to it.\<close>

theorem transport_renegotiation_sent:
  assumes "t_negotiationState t = NegotiationStateRenegotiatePending"
    and "classifyAnswerNegotiationID nid (t_remoteNegotiationID t) (t_localNegotiationID t) = negotiationAnswerAccept"
    and "\<not> pc_stable env" "pc_setRemote env = RemoteSet" "pc_setLocal env = None"
    and "pc_createOffer env (t_restartAtNextOffer t) = Inr sd"
  shows "let t' = snd (acceptAnswer env answer nid t) in
    t_negotiationState t' = NegotiationStateAwaitingAnswer \<and>
    t_localNegotiationID t' = nextNegotiationID (t_localNegotiationID t) \<and>
    t_offerRestartsICE t' = t_restartAtNextOffer t \<and> \<not> t_restartAtNextOffer t' \<and>
    last (t_calls t') = OnOffer sd (nextNegotiationID (t_localNegotiationID t)) \<and>
    CreateOffer (t_restartAtNextOffer t) \<in> set (t_calls t')"
proof -
  let ?t0 = "stopNegotiationTimeout t"
  obtain e t1 where s: "setRemoteDescription env answer ?t0 = (e, t1)"
    by fastforce
  have e: "e = None"
    using s assms(4) by (simp add: setRemoteDescription_def Let_def)
  have f: "t_negotiationState t1 = NegotiationStateRenegotiatePending"
    "t_localNegotiationID t1 = t_localNegotiationID t" "t_restartAtNextOffer t1 = t_restartAtNextOffer t"
    using setRemoteDescription_frame [OF s] assms(1) by (simp_all add: stopNegotiationTimeout_def)
  show ?thesis
    using assms(2,3,5,6) s e f
    by (simp add: acceptAnswer_def Let_def offer_def setNegotiationState_def armNegotiationTimeout_def
        stopNegotiationTimeout_def)
qed

definition sample_pending :: transport where
  "sample_pending = run_once sample_env (Negotiate True sample_offered)"

theorem transport_renegotiation_sent_witness:
  "let t' = snd (acceptAnswer sample_env (sample_sd SDPTypeAnswer) 1 sample_pending) in
    t_negotiationState t' = NegotiationStateAwaitingAnswer \<and>
    t_localNegotiationID t' = nextNegotiationID (t_localNegotiationID sample_pending) \<and>
    t_offerRestartsICE t' = t_restartAtNextOffer sample_pending \<and> \<not> t_restartAtNextOffer t' \<and>
    last (t_calls t') = OnOffer (sample_sd SDPTypeOffer) (nextNegotiationID (t_localNegotiationID sample_pending)) \<and>
    CreateOffer (t_restartAtNextOffer sample_pending) \<in> set (t_calls t')"
proof (rule transport_renegotiation_sent)
  show "t_negotiationState sample_pending = NegotiationStateRenegotiatePending"
    "classifyAnswerNegotiationID 1 (t_remoteNegotiationID sample_pending) (t_localNegotiationID sample_pending)
       = negotiationAnswerAccept"
    by code_simp+
qed (simp_all add: sample_env_def)

lemma apply_pending_calls:
  "filter (\<lambda>x. \<exists>c. x = AddCandidate c) (t_calls (apply_pending env cs t)) =
   filter (\<lambda>x. \<exists>c. x = AddCandidate c) (t_calls t) @ map AddCandidate (filter (matchesRemote t) cs)"
proof (induction cs arbitrary: t)
  case (Cons c cs)
  have "matchesRemote (applyRemoteCandidate env c t) = matchesRemote t"
    by (simp add: fun_eq_iff matchesRemote_def)
  then show ?case
    using Cons by (simp add: applyRemoteCandidate_def Let_def)
qed simp

text \<open>A remote candidate that overtakes its description is kept for it, and only candidates of
  the description's own ICE generation are applied. When a description is set, the candidates
  handed to the peer connection are exactly the waiting ones without a ufrag or with the
  description's ufrag, in the order they came, and none is left waiting.\<close>

theorem transport_pending_candidates:
  assumes "pc_setRemote env = RemoteSet" "iceCredentialOf env sd = Inr (ufrag @ '':'' @ pwd)" "CHR '':'' \<notin> set ufrag"
  shows "let t' = snd (setRemoteDescription env sd t) in
    t_pendingRemoteCandidates t' = [] \<and> t_remoteUfrag t' = ufrag \<and>
    filter (\<lambda>x. \<exists>c. x = AddCandidate c) (t_calls t') = filter (\<lambda>x. \<exists>c. x = AddCandidate c) (t_calls t)
      @ map AddCandidate (filter (\<lambda>c. ufrag = '''' \<or> c_UsernameFragment c \<in> {None, Some '''', Some ufrag})
          (t_pendingRemoteCandidates t))"
proof -
  have "takeWhile (\<lambda>ch. ch \<noteq> CHR '':'') (ufrag @ '':'' @ pwd) = ufrag"
    using assms(3) by (subst takeWhile_append2) auto
  moreover have "matchesRemote (u\<lparr>t_remoteUfrag := ufrag, t_pendingRemoteCandidates := []\<rparr>) =
      (\<lambda>c. ufrag = '''' \<or> c_UsernameFragment c \<in> {None, Some '''', Some ufrag})" for u
    by (auto simp: fun_eq_iff matchesRemote_def)
  ultimately show ?thesis
    using assms(1,2) by (simp add: setRemoteDescription_def Let_def apply_pending_calls)
qed

definition sample_waiting :: transport where
  "sample_waiting = sample_offered\<lparr>t_pendingRemoteCandidates :=
     [\<lparr>c_Candidate = ''a'', c_UsernameFragment = Some ''u''\<rparr>, \<lparr>c_Candidate = ''b'', c_UsernameFragment = Some ''old''\<rparr>]\<rparr>"

theorem transport_pending_candidates_witness:
  "let t' = snd (setRemoteDescription sample_env (sample_sd SDPTypeAnswer) sample_waiting) in
    t_pendingRemoteCandidates t' = [] \<and> t_remoteUfrag t' = ''u'' \<and>
    filter (\<lambda>x. \<exists>c. x = AddCandidate c) (t_calls t')
      = filter (\<lambda>x. \<exists>c. x = AddCandidate c) (t_calls sample_waiting)
      @ map AddCandidate (filter (\<lambda>c. ''u'' = '''' \<or> c_UsernameFragment c \<in> {None, Some '''', Some ''u''})
          (t_pendingRemoteCandidates sample_waiting))"
  by (rule transport_pending_candidates [where pwd = "''p''"])
     (simp_all add: sample_env_def iceCredentialOf_def ExtractICECredential_def attr_values_def)

text \<open>An accepted answer that pion refuses leaves the exchange stuck. The transport still counts
  its offer as outstanding, but the negotiation timeout has been stopped, so neither a timeout nor
  a further \<open>Negotiate\<close> sends anything: the next request only marks a renegotiation as pending.\<close>

theorem transport_refused_answer_stalls:
  assumes "t_negotiationState t = NegotiationStateAwaitingAnswer" "\<not> pc_stable env"
    and "pc_setRemote env = RemoteFailed e"
    and "classifyAnswerNegotiationID nid (t_remoteNegotiationID t) (t_localNegotiationID t) = negotiationAnswerAccept"
  shows "let t' = snd (acceptAnswer env answer nid t) in
    fst (acceptAnswer env answer nid t) \<noteq> None \<and>
    t_negotiationState t' = NegotiationStateAwaitingAnswer \<and> t_negotiationTimer t' = None \<and>
    t_calls (snd (sendOffer env' t')) = t_calls t' @ [OnNegotiationStateChanged NegotiationStateRenegotiatePending]"
  using assms
  by (simp add: acceptAnswer_def Let_def setRemoteDescription_def stopNegotiationTimeout_def sendOffer_def
      offer_def setNegotiationState_def)

theorem transport_refused_answer_stalls_witness:
  "let env = sample_env\<lparr>pc_setRemote := RemoteFailed ''bad sdp''\<rparr>;
       t' = snd (acceptAnswer env (sample_sd SDPTypeAnswer) 1 sample_offered) in
    fst (acceptAnswer env (sample_sd SDPTypeAnswer) 1 sample_offered) \<noteq> None \<and>
    t_negotiationState t' = NegotiationStateAwaitingAnswer \<and> t_negotiationTimer t' = None \<and>
    t_calls (snd (sendOffer sample_env t')) = t_calls t' @ [OnNegotiationStateChanged NegotiationStateRenegotiatePending]"
proof -
  have "t_negotiationState sample_offered = NegotiationStateAwaitingAnswer"
    "classifyAnswerNegotiationID 1 (t_remoteNegotiationID sample_offered) (t_localNegotiationID sample_offered)
       = negotiationAnswerAccept"
    by code_simp+
  then show ?thesis
    using transport_refused_answer_stalls [of sample_offered "sample_env\<lparr>pc_setRemote := RemoteFailed ''bad sdp''\<rparr>"
        "''bad sdp''" 1 "sample_sd SDPTypeAnswer" sample_env]
    by (simp add: sample_env_def)
qed

text \<open>Once ICE connects, the wait for DTLS is bounded: the connect timer always runs for at least
  the smaller of the two configured bounds and at most the upper one, however long ICE took and
  even when its start was never seen, and it is armed only once.\<close>

theorem transport_connect_timer_bounds:
  "t_connectTimer (onICEStateChange now s t) \<in> {t_connectTimer t, Some (connect_timeout t now)} \<and>
   min (t_minConnectTimeout t) (t_maxConnectTimeout t) \<le> connect_timeout t now \<and>
   connect_timeout t now \<le> t_maxConnectTimeout t \<and>
   t_connectTimer (onICEStateChange now' ICEConnected (onICEStateChange now ICEConnected t))
     = t_connectTimer (onICEStateChange now ICEConnected t)"
proof -
  have c: "connect_timeout (t\<lparr>t_lastICEState := x\<rparr>) now = connect_timeout t now" for x
    by (simp add: connect_timeout_def)
  show ?thesis
    by (auto simp: onICEStateChange_def Let_def c split: ice_state.split)
       (auto simp: connect_timeout_def Let_def)
qed

end
