(* ===== verification/IceRecovery.thy ===== *)
theory IceRecovery
  imports Transport
begin

text \<open>
  Repairing a peer connection, \<open>ice_recovery.go\<close>: when to restart ICE and when to give up and
  escalate. The restart itself and the escalation are functions the owner passes in; they are
  recorded, and a restart's success is an argument. A step is one region under the mutex or one of
  these calls, which run without it: whoever calls \<open>tryRestart\<close> is a thread of the state, and
  between its steps the connection may come up, fail again or be closed.
\<close>

record ICERecoveryConfig =
  DisconnectedRestartDelay :: duration
  MaxRestartsWithoutRecovery :: int

definition defaultDisconnectedICERestartDelay :: duration where
  "defaultDisconnectedICERestartDelay = 2500 * Millisecond"
definition defaultMaxICERestartsWithoutRecovery :: int where
  "defaultMaxICERestartsWithoutRecovery = 2"

definition defaultICERecoveryConfig :: ICERecoveryConfig where
  "defaultICERecoveryConfig = \<lparr>DisconnectedRestartDelay = defaultDisconnectedICERestartDelay,
     MaxRestartsWithoutRecovery = defaultMaxICERestartsWithoutRecovery\<rparr>"

definition ice_withDefaults :: "ICERecoveryConfig \<Rightarrow> ICERecoveryConfig" where
  "ice_withDefaults c =
    \<lparr>DisconnectedRestartDelay = (if DisconnectedRestartDelay c \<le> 0
        then DisconnectedRestartDelay defaultICERecoveryConfig else DisconnectedRestartDelay c),
     MaxRestartsWithoutRecovery = (if MaxRestartsWithoutRecovery c \<le> 0
        then MaxRestartsWithoutRecovery defaultICERecoveryConfig else MaxRestartsWithoutRecovery c)\<rparr>"

datatype ir_call = Restart | Escalate string

text \<open>Where a goroutine stands: the callback of timer \<open>n\<close> before it takes the mutex, at the start of
  \<open>tryRestart\<close>, in the restart it was granted, or about to escalate.\<close>

datatype ir_thread = Fired nat | Trying | Restarting | Escalating string

text \<open>\<open>ir_timer\<close> is the number of the timer the field points to; \<open>ir_running\<close> are the timers that have
  not gone off or been stopped, \<open>ir_threads\<close> the goroutines between two steps. \<open>ir_calls\<close> are the calls
  made and \<open>ir_epoch\<close> those since the last \<open>onConnected\<close>, \<open>ir_connects\<close> how often the connection came up
  and \<open>ir_carried\<close> the restarts that were granted but not over when it last did.\<close>

record iceRecovery =
  ir_cfg :: ICERecoveryConfig
  ir_timer :: "nat option"
  ir_attempts :: int
  ir_closed :: bool
  ir_timers :: nat
  ir_running :: "nat list"
  ir_threads :: "ir_thread list"
  ir_calls :: "ir_call list"
  ir_epoch :: "ir_call list"
  ir_connects :: nat
  ir_carried :: nat

definition newICERecovery :: "ICERecoveryConfig \<Rightarrow> iceRecovery" where
  "newICERecovery cfg = \<lparr>ir_cfg = ice_withDefaults cfg, ir_timer = None, ir_attempts = 0, ir_closed = False,
     ir_timers = 0, ir_running = [], ir_threads = [], ir_calls = [], ir_epoch = [], ir_connects = 0, ir_carried = 0\<rparr>"

definition ir_call :: "ir_call \<Rightarrow> iceRecovery \<Rightarrow> iceRecovery" where
  "ir_call c r = r\<lparr>ir_calls := ir_calls r @ [c], ir_epoch := ir_epoch r @ [c]\<rparr>"

definition granted :: "iceRecovery \<Rightarrow> nat" where
  "granted r = count_list (ir_threads r) Restarting"

definition stopTimerLocked :: "iceRecovery \<Rightarrow> iceRecovery" where
  "stopTimerLocked r =
    (case ir_timer r of
       None \<Rightarrow> r
     | Some n \<Rightarrow> r\<lparr>ir_timer := None, ir_running := removeAll n (ir_running r)\<rparr>)"

definition onConnected :: "iceRecovery \<Rightarrow> iceRecovery" where
  "onConnected r = (stopTimerLocked r)\<lparr>ir_attempts := 0, ir_epoch := [], ir_connects := ir_connects r + 1, ir_carried := granted r\<rparr>"

definition onDisconnected :: "iceRecovery \<Rightarrow> iceRecovery" where
  "onDisconnected r =
    (if ir_closed r \<or> ir_timer r \<noteq> None then r
     else r\<lparr>ir_timer := Some (ir_timers r), ir_running := ir_timers r # ir_running r,
            ir_timers := ir_timers r + 1\<rparr>)"

text \<open>The region of \<open>onFailed\<close> under the mutex, and what its goroutine does next.\<close>

definition onFailed :: "ConnectionInfo \<Rightarrow> iceRecovery \<Rightarrow> iceRecovery" where
  "onFailed info r =
    (let r = stopTimerLocked r in
     r\<lparr>ir_threads := ir_threads r @ [if \<not> ci_HasEverConnected info
         then Escalating ''peer connection failed before ever connecting'' else Trying]\<rparr>)"

text \<open>The region of \<open>tryRestart\<close> under the mutex: whether there is nothing to do, the goroutine has to
  escalate, or it is granted a restart.\<close>

definition tryRestart :: "iceRecovery \<Rightarrow> ir_thread option \<times> iceRecovery" where
  "tryRestart r =
    (if ir_closed r then (None, r)
     else if ir_attempts r \<ge> MaxRestartsWithoutRecovery (ir_cfg r) then
       (Some (Escalating ''ice restarts did not restore the connection''), r)
     else (Some Restarting, r\<lparr>ir_attempts := ir_attempts r + 1\<rparr>))"

text \<open>The rest of it, without the mutex: the restart, with \<open>ok\<close> for whether it starts. Nothing is looked
  up again before the escalation.\<close>

definition restart_returns :: "bool \<Rightarrow> iceRecovery \<Rightarrow> ir_thread option \<times> iceRecovery" where
  "restart_returns ok r = ((if ok then None else Some (Escalating ''ice restart failed'')), ir_call Restart r)"

definition timer_goes_off :: "nat \<Rightarrow> iceRecovery \<Rightarrow> iceRecovery" where
  "timer_goes_off n r =
    (if n \<in> set (ir_running r)
     then r\<lparr>ir_running := removeAll n (ir_running r), ir_threads := ir_threads r @ [Fired n]\<rparr> else r)"

definition timer_callback :: "iceRecovery \<Rightarrow> ir_thread option \<times> iceRecovery" where
  "timer_callback r = (Some Trying, r\<lparr>ir_timer := None\<rparr>)"

definition thread_runs :: "bool \<Rightarrow> ir_thread \<Rightarrow> iceRecovery \<Rightarrow> ir_thread option \<times> iceRecovery" where
  "thread_runs ok t r =
    (case t of
       Fired n \<Rightarrow> timer_callback r
     | Trying \<Rightarrow> tryRestart r
     | Restarting \<Rightarrow> restart_returns ok r
     | Escalating reason \<Rightarrow> (None, ir_call (Escalate reason) r))"

definition option_list :: "'a option \<Rightarrow> 'a list" where
  "option_list x = (case x of None \<Rightarrow> [] | Some a \<Rightarrow> [a])"

text \<open>One step of the \<open>i\<close>-th goroutine.\<close>

definition run_thread :: "bool \<Rightarrow> nat \<Rightarrow> iceRecovery \<Rightarrow> iceRecovery" where
  "run_thread ok i r =
    (if i < length (ir_threads r) then
       let (next, r') = thread_runs ok (ir_threads r ! i) r in
       r'\<lparr>ir_threads := take i (ir_threads r) @ option_list next @ drop (i + 1) (ir_threads r)\<rparr>
     else r)"

definition close_recovery :: "iceRecovery \<Rightarrow> iceRecovery" where
  "close_recovery r = stopTimerLocked (r\<lparr>ir_closed := True\<rparr>)"

definition pendingRestart :: "iceRecovery \<Rightarrow> bool" where
  "pendingRestart r \<longleftrightarrow> ir_timer r \<noteq> None"

inductive irstep :: "iceRecovery \<Rightarrow> iceRecovery \<Rightarrow> bool" where
  connected: "irstep r (onConnected r)"
| disconnected: "irstep r (onDisconnected r)"
| failed: "irstep r (onFailed info r)"
| goes_off: "irstep r (timer_goes_off n r)"
| runs: "irstep r (run_thread ok i r)"
| closed: "irstep r (close_recovery r)"

section \<open>The restart budget\<close>

definition restarts :: "iceRecovery \<Rightarrow> nat" where
  "restarts r = count_list (ir_epoch r) Restart"
definition all_restarts :: "iceRecovery \<Rightarrow> nat" where
  "all_restarts r = count_list (ir_calls r) Restart"

definition ir_inv :: "iceRecovery \<Rightarrow> bool" where
  "ir_inv r \<longleftrightarrow> int (restarts r + granted r) = ir_attempts r + int (ir_carried r) \<and>
     0 \<le> ir_attempts r \<and> ir_attempts r \<le> MaxRestartsWithoutRecovery (ir_cfg r) \<and>
     int (all_restarts r + granted r) \<le> MaxRestartsWithoutRecovery (ir_cfg r) * int (ir_connects r) + ir_attempts r"

lemma stopTimerLocked_frame [simp]:
  "ir_cfg (stopTimerLocked r) = ir_cfg r" "ir_attempts (stopTimerLocked r) = ir_attempts r"
  "ir_epoch (stopTimerLocked r) = ir_epoch r" "ir_closed (stopTimerLocked r) = ir_closed r"
  "ir_calls (stopTimerLocked r) = ir_calls r" "ir_timer (stopTimerLocked r) = None"
  "ir_threads (stopTimerLocked r) = ir_threads r" "ir_connects (stopTimerLocked r) = ir_connects r"
  "ir_carried (stopTimerLocked r) = ir_carried r"
  by (simp_all add: stopTimerLocked_def split: option.split)

lemma nth_split: "i < length xs \<Longrightarrow> count_list xs x = count_list (take i xs) x + (if xs ! i = x then 1 else 0) + count_list (drop (i + 1) xs) x"
  using arg_cong [OF id_take_nth_drop, of i xs "\<lambda>l. count_list l x"] by simp

lemma run_thread_inv: "ir_inv r \<Longrightarrow> ir_inv (run_thread ok i r)"
  by (cases "ir_threads r ! i")
    (auto simp: run_thread_def thread_runs_def timer_callback_def tryRestart_def restart_returns_def ir_call_def option_list_def
      ir_inv_def restarts_def all_restarts_def granted_def nth_split [of i "ir_threads r"])

lemma irstep_inv: "irstep r r' \<Longrightarrow> ir_inv r \<Longrightarrow> ir_inv r'"
proof (induction rule: irstep.induct)
  case (connected r)
  then show ?case
    by (auto simp: onConnected_def ir_inv_def restarts_def all_restarts_def granted_def algebra_simps)
next
  case (runs r ok i)
  then show ?case by (rule run_thread_inv)
qed (auto simp: onFailed_def onDisconnected_def timer_goes_off_def close_recovery_def ir_inv_def restarts_def all_restarts_def
    granted_def Let_def)

lemma ir_runs:
  "irstep\<^sup>*\<^sup>* r r' \<Longrightarrow> irstep\<^sup>*\<^sup>* r (run_thread ok i r')" "irstep\<^sup>*\<^sup>* r r' \<Longrightarrow> irstep\<^sup>*\<^sup>* r (onFailed info r')"
  "irstep\<^sup>*\<^sup>* r r' \<Longrightarrow> irstep\<^sup>*\<^sup>* r (onConnected r')"
  by (auto intro: rtranclp.rtrancl_into_rtrancl irstep.intros)

lemma newICERecovery_inv: "ir_inv (newICERecovery cfg)"
  by (simp add: ir_inv_def newICERecovery_def restarts_def all_restarts_def granted_def ice_withDefaults_def
      defaultICERecoveryConfig_def defaultMaxICERestartsWithoutRecovery_def)

interpretation ir: invariant_machine "\<lambda>r. \<exists>cfg. r = newICERecovery cfg" irstep ir_inv
  by unfold_locales (use newICERecovery_inv irstep_inv in auto)

text \<open>A goroutine that is not disturbed, from \<open>tryRestart\<close> to its end: at most three steps.\<close>

definition undisturbed :: "bool \<Rightarrow> iceRecovery \<Rightarrow> iceRecovery" where
  "undisturbed ok r = (run_thread ok (length (ir_threads r) - 1) ^^ 3) r"

section \<open>Properties\<close>

text \<open>C18: ICE is not restarted in vain for ever. Whatever the order of state changes, timers, goroutines
  and restarts that take their time, at most \<open>MaxRestartsWithoutRecovery\<close> restarts are granted between two
  recoveries of the connection. Since the last recovery exactly those have been made that were granted
  since, and those that were granted before and still under way when it came, less those now under way;
  so the budget can be exceeded only by restarts that overlap a recovery. Over the whole life there are at
  most as many as the budget for each recovery and one budget more.\<close>

theorem ice_restart_budget:
  assumes "irstep\<^sup>*\<^sup>* (newICERecovery cfg) r"
  shows "ir_attempts r \<le> MaxRestartsWithoutRecovery (ir_cfg r) \<and>
    int (restarts r) = ir_attempts r + int (ir_carried r) - int (granted r) \<and>
    int (all_restarts r) \<le> MaxRestartsWithoutRecovery (ir_cfg r) * (int (ir_connects r) + 1)"
proof -
  have "ir_inv r" using ir.reach_inv [OF _ assms] by blast
  then show ?thesis by (simp add: ir_inv_def algebra_simps)
qed

text \<open>With the budget of two, a restart that is under way when the connection comes up is a third one in
  the same period.\<close>

definition sample_lost :: ConnectionInfo where
  "sample_lost = \<lparr>ci_ICEState = ICEFailed, ci_DTLSState = DTLSConnected, ci_Duration = 0, ci_HasEverConnected = True\<rparr>"
definition sample_overlap :: iceRecovery where
  "sample_overlap = fold (\<lambda>f. f)
     [onFailed sample_lost, run_thread True 0, onConnected, run_thread True 0, onFailed sample_lost, run_thread True 0, run_thread True 0,
      onFailed sample_lost, run_thread True 0, run_thread True 0] (newICERecovery defaultICERecoveryConfig)"

lemma ice_restart_budget_witness:
  "restarts sample_overlap = 3 \<and> ir_attempts sample_overlap = 2 \<and> ir_carried sample_overlap = 1 \<and> granted sample_overlap = 0 \<and>
   all_restarts sample_overlap \<le> 4"
proof -
  have "irstep\<^sup>*\<^sup>* (newICERecovery defaultICERecoveryConfig) sample_overlap"
    unfolding sample_overlap_def fold.simps o_def id_def
    by (intro ir_runs rtranclp.rtrancl_refl)
  moreover have "ir_attempts sample_overlap = 2" "ir_carried sample_overlap = 1" "granted sample_overlap = 0"
      "ir_connects sample_overlap = 1" "MaxRestartsWithoutRecovery (ir_cfg sample_overlap) = 2"
    by code_simp+
  ultimately show ?thesis
    using ice_restart_budget by fastforce
qed

text \<open>Every failure of an open recovery that is not disturbed leads to exactly one action, and to an
  escalation when a restart cannot help: a connection that never connected escalates at once; otherwise
  ICE is restarted while the budget lasts, escalating too when the restart does not start; with the
  budget spent it escalates. A closed recovery restarts nothing, but one that is closed while its restart
  is under way still escalates when that fails.\<close>

theorem ice_failure_answered:
  "ir_calls (undisturbed ok (onFailed info r)) = ir_calls r @
     (if \<not> ci_HasEverConnected info then [Escalate ''peer connection failed before ever connecting'']
      else if ir_closed r then []
      else if ir_attempts r \<ge> MaxRestartsWithoutRecovery (ir_cfg r)
        then [Escalate ''ice restarts did not restore the connection'']
      else if ok then [Restart] else [Restart, Escalate ''ice restart failed'']) \<and>
   ir_timer (onFailed info r) = None \<and>
   (i < length (ir_threads r) \<and> ir_threads r ! i = Restarting \<longrightarrow>
     ir_calls (run_thread ok' i (run_thread False i (close_recovery r))) = ir_calls r @ [Restart, Escalate ''ice restart failed''])"
  by (auto simp: onFailed_def undisturbed_def run_thread_def thread_runs_def tryRestart_def restart_returns_def close_recovery_def ir_call_def
      option_list_def nth_append Let_def numeral_eq_Suc)

end
