(* ===== verification/Participants.thy ===== *)
theory Participants
  imports Prelude "HOL-Library.AList"
begin

text \<open>
  The participants of a call: \<open>participant.go\<close>, \<open>participant_store.go\<close> and the event handlers of \<open>call.go\<close> that
  keep the store up to date. A participant is an object that both indexes of the store point to, so
  objects live in a heap and the indexes hold addresses. The indexes and the published track types
  are sets of the package skipset: its operations are arguments, and what the store
  relies on is \<open>skipset_ok\<close>. The fields an index is ordered by do not change after an object is created, so
  an entry is a key and an address. Names, images, roles and custom data are carried over unread
  and left out. The counters are 32 bits wide.
\<close>

section \<open>State\<close>

text \<open>The operations of a set of values ordered by a key.\<close>

record ('k, 'v, 's) skipset =
  ss_New :: 's
  ss_Load :: "'s \<Rightarrow> 'k \<Rightarrow> 'v option"
  ss_Set :: "'s \<Rightarrow> 'k \<Rightarrow> 'v \<Rightarrow> 's"
  ss_Remove :: "'s \<Rightarrow> 'k \<Rightarrow> 's"
  ss_Range :: "'s \<Rightarrow> 'v list"

text \<open>What is relied on. Whether \<open>Set\<close> replaces a value that is already there is left open.\<close>

definition skipset_ok :: "('k, 'v, 's) skipset \<Rightarrow> bool" where
  "skipset_ok S \<longleftrightarrow> (\<forall>k. ss_Load S (ss_New S) k = None) \<and>
     (\<forall>s k v. ss_Load S (ss_Set S s k v) k = Some v \<or> (ss_Load S s k \<noteq> None \<and> ss_Load S (ss_Set S s k v) k = ss_Load S s k)) \<and>
     (\<forall>s k k' v. k' \<noteq> k \<longrightarrow> ss_Load S (ss_Set S s k v) k' = ss_Load S s k') \<and>
     (\<forall>s k. ss_Load S (ss_Remove S s k) k = None) \<and>
     (\<forall>s k k'. k' \<noteq> k \<longrightarrow> ss_Load S (ss_Remove S s k) k' = ss_Load S s k') \<and>
     (\<forall>s v. v \<in> set (ss_Range S s) \<longleftrightarrow> (\<exists>k. ss_Load S s k = Some v))"

type_synonym ParticipantID = "string \<times> string"
type_synonym TrackType = nat

text \<open>A participant in a message of the SFU.\<close>

record participant_pb =
  pb_UserId :: string
  pb_SessionId :: string
  pb_PublishedTracks :: "TrackType list"
  pb_JoinedAt :: time
  pb_TrackLookupPrefix :: string
  pb_ConnectionQuality :: nat
  pb_IsSpeaking :: bool
  pb_IsDominantSpeaker :: bool
  pb_AudioLevel :: "32 word"

record 'u Participant =
  q_ID :: ParticipantID
  q_PublishedTracks :: 'u
  q_JoinedAt :: time
  q_TrackLookupPrefix :: string
  q_ConnectionQuality :: nat
  q_IsSpeaking :: bool
  q_IsDominantSpeaker :: bool
  q_AudioLevel :: "32 word"
  q_pausedTracks :: "TrackType \<rightharpoonup> bool"

definition IsZero :: "ParticipantID \<Rightarrow> bool" where
  "IsZero p \<longleftrightarrow> fst p = [] \<and> snd p = []"

definition Equal_id :: "ParticipantID \<Rightarrow> ParticipantID \<Rightarrow> bool" where
  "Equal_id p other \<longleftrightarrow> fst p = fst other \<and> snd p = snd other"

record ('s, 't, 'u) skipsets =
  by_id :: "(ParticipantID, nat, 's) skipset"
  by_prefix :: "(string, nat, 't) skipset"
  by_type :: "(TrackType, TrackType, 'u) skipset"

record ('s, 't, 'u) ParticipantStore =
  st_heap :: "'u Participant list"
  st_pByID :: 's
  st_pByTrackPrefix :: 't
  st_Total :: int
  st_Anonymous :: int

section \<open>Participants\<close>

definition NewParticipant :: "('s, 't, 'u) skipsets \<Rightarrow> participant_pb \<Rightarrow> 'u Participant" where
  "NewParticipant S p =
     \<lparr>q_ID = (pb_UserId p, pb_SessionId p),
      q_PublishedTracks = fold (\<lambda>t s. ss_Set (by_type S) s t t) (pb_PublishedTracks p) (ss_New (by_type S)),
      q_JoinedAt = pb_JoinedAt p, q_TrackLookupPrefix = pb_TrackLookupPrefix p, q_ConnectionQuality = pb_ConnectionQuality p,
      q_IsSpeaking = pb_IsSpeaking p, q_IsDominantSpeaker = pb_IsDominantSpeaker p, q_AudioLevel = pb_AudioLevel p,
      q_pausedTracks = Map.empty\<rparr>"

definition SetTrackPaused :: "TrackType \<Rightarrow> bool \<Rightarrow> 'u Participant \<Rightarrow> 'u Participant" where
  "SetTrackPaused trackType paused p =
    (if paused then p\<lparr>q_pausedTracks := (q_pausedTracks p)(trackType \<mapsto> True)\<rparr>
     else p\<lparr>q_pausedTracks := (q_pausedTracks p)(trackType := None)\<rparr>)"

definition IsTrackPaused :: "'u Participant \<Rightarrow> TrackType \<Rightarrow> bool" where
  "IsTrackPaused p trackType = (case q_pausedTracks p trackType of None \<Rightarrow> False | Some b \<Rightarrow> b)"

definition PausedTracks :: "'u Participant \<Rightarrow> TrackType set" where
  "PausedTracks p = dom (q_pausedTracks p)"

section \<open>The store\<close>

definition anonymousUserID :: string where "anonymousUserID = ''!anon''"

text \<open>\<open>Set\<close> and \<open>Remove\<close> take the participant they are called with: an object already created for \<open>Set\<close>, a
  probe that only carries keys for \<open>Remove\<close>.\<close>

definition Set_store :: "('s, 't, 'u) skipsets \<Rightarrow> 'u Participant \<Rightarrow> ('s, 't, 'u) ParticipantStore \<Rightarrow> ('s, 't, 'u) ParticipantStore" where
  "Set_store S p s =
    (let a = length (st_heap s) in
     s\<lparr>st_heap := st_heap s @ [p],
       st_pByID := ss_Set (by_id S) (st_pByID s) (q_ID p) a,
       st_pByTrackPrefix := ss_Set (by_prefix S) (st_pByTrackPrefix s) (q_TrackLookupPrefix p) a,
       st_Total := i32 (st_Total s + 1),
       st_Anonymous := (if fst (q_ID p) = anonymousUserID then i32 (st_Anonymous s + 1) else st_Anonymous s)\<rparr>)"

definition Remove_store :: "('s, 't, 'u) skipsets \<Rightarrow> ParticipantID \<Rightarrow> string \<Rightarrow> ('s, 't, 'u) ParticipantStore \<Rightarrow> ('s, 't, 'u) ParticipantStore" where
  "Remove_store S pid prefix s =
     s\<lparr>st_pByID := ss_Remove (by_id S) (st_pByID s) pid,
       st_pByTrackPrefix := ss_Remove (by_prefix S) (st_pByTrackPrefix s) prefix,
       st_Total := i32 (st_Total s - 1),
       st_Anonymous := (if fst pid = anonymousUserID then i32 (st_Anonymous s - 1) else st_Anonymous s)\<rparr>"

definition NewParticipantStore :: "('s, 't, 'u) skipsets \<Rightarrow> participant_pb list \<Rightarrow> uint32 \<Rightarrow> uint32 \<Rightarrow> ('s, 't, 'u) ParticipantStore" where
  "NewParticipantStore S participants headcount anonymous =
    (fold (\<lambda>p. Set_store S (NewParticipant S p)) participants
       \<lparr>st_heap = [], st_pByID = ss_New (by_id S), st_pByTrackPrefix = ss_New (by_prefix S), st_Total = 0, st_Anonymous = 0\<rparr>)
    \<lparr>st_Total := i32 (uint headcount), st_Anonymous := i32 (uint anonymous)\<rparr>"

definition GetByID :: "('s, 't, 'u) skipsets \<Rightarrow> ('s, 't, 'u) ParticipantStore \<Rightarrow> ParticipantID \<Rightarrow> nat option" where
  "GetByID S s pid = ss_Load (by_id S) (st_pByID s) pid"

definition GetByTrackPrefix :: "('s, 't, 'u) skipsets \<Rightarrow> ('s, 't, 'u) ParticipantStore \<Rightarrow> string \<Rightarrow> nat option" where
  "GetByTrackPrefix S s prefix = ss_Load (by_prefix S) (st_pByTrackPrefix s) prefix"

text \<open>\<open>strings.Split\<close> at colons: there is always a first part.\<close>

fun split_colon :: "string \<Rightarrow> string list" where
  "split_colon [] = [[]]"
| "split_colon (c # cs) =
    (if c = CHR '':'' then [] # split_colon cs
     else case split_colon cs of [] \<Rightarrow> [[c]] | w # ws \<Rightarrow> (c # w) # ws)"

text \<open>\<open>track_type_value\<close> is the generated table of track type names, 0 for a name it does not hold. The
  outer \<open>None\<close> is the panic of an index out of range.\<close>

definition LookupParticipantByTrack ::
    "('s, 't, 'u) skipsets \<Rightarrow> (string \<Rightarrow> TrackType) \<Rightarrow> ('s, 't, 'u) ParticipantStore \<Rightarrow> string \<Rightarrow> (nat option \<times> TrackType) option" where
  "LookupParticipantByTrack S track_type_value s streamID =
    (let parts = split_colon streamID in
     case GetByTrackPrefix S s (hd parts) of
       None \<Rightarrow> Some (None, 0)
     | Some p \<Rightarrow> (if length parts < 2 then None else Some (Some p, track_type_value (parts ! 1))))"

section \<open>Events\<close>

text \<open>The handlers run on the store of the call, which is \<open>None\<close> before the first join. A field that is
  missing from a message is \<open>None\<close>.\<close>

type_synonym ('s, 't, 'u) call_store = "('s, 't, 'u) ParticipantStore option"

definition OnParticipantJoined :: "('s, 't, 'u) skipsets \<Rightarrow> participant_pb option \<Rightarrow> ('s, 't, 'u) call_store \<Rightarrow> ('s, 't, 'u) call_store" where
  "OnParticipantJoined S participant st =
    (case (st, participant) of
       (Some s, Some p) \<Rightarrow> Some (Set_store S (NewParticipant S p) s)
     | _ \<Rightarrow> st)"

definition OnParticipantLeft :: "('s, 't, 'u) skipsets \<Rightarrow> participant_pb option \<Rightarrow> ('s, 't, 'u) call_store \<Rightarrow> ('s, 't, 'u) call_store" where
  "OnParticipantLeft S participant st =
    (case (st, participant) of
       (Some s, Some p) \<Rightarrow> Some (Remove_store S (pb_UserId p, pb_SessionId p) [] s)
     | _ \<Rightarrow> st)"

text \<open>The loop over the store updates each object it reaches.\<close>

definition update_object :: "nat \<Rightarrow> ('u Participant \<Rightarrow> 'u Participant) \<Rightarrow> ('s, 't, 'u) ParticipantStore \<Rightarrow> ('s, 't, 'u) ParticipantStore" where
  "update_object a f s = s\<lparr>st_heap := (st_heap s)[a := f (st_heap s ! a)]\<rparr>"

definition OnDominantSpeakerChanged :: "('s, 't, 'u) skipsets \<Rightarrow> ParticipantID \<Rightarrow> ('s, 't, 'u) call_store \<Rightarrow> ('s, 't, 'u) call_store" where
  "OnDominantSpeakerChanged S speaker st =
    map_option (\<lambda>s. fold (\<lambda>a. update_object a (\<lambda>p. p\<lparr>q_IsDominantSpeaker := Equal_id (q_ID p) speaker\<rparr>))
      (ss_Range (by_id S) (st_pByID s)) s) st"

definition OnHealthCheckResponse :: "uint32 \<Rightarrow> uint32 \<Rightarrow> ('s, 't, 'u) call_store \<Rightarrow> ('s, 't, 'u) call_store" where
  "OnHealthCheckResponse headcount anonymous st =
     map_option (\<lambda>s. s\<lparr>st_Total := i32 (uint headcount), st_Anonymous := i32 (uint anonymous)\<rparr>) st"

definition on_object :: "('s, 't, 'u) skipsets \<Rightarrow> ParticipantID \<Rightarrow> ('u Participant \<Rightarrow> 'u Participant) \<Rightarrow> ('s, 't, 'u) ParticipantStore \<Rightarrow> ('s, 't, 'u) ParticipantStore" where
  "on_object S pid f s = (case GetByID S s pid of None \<Rightarrow> s | Some a \<Rightarrow> update_object a f s)"

definition OnTrackPublished ::
    "('s, 't, 'u) skipsets \<Rightarrow> participant_pb option \<Rightarrow> ParticipantID \<Rightarrow> TrackType \<Rightarrow> ('s, 't, 'u) call_store \<Rightarrow> ('s, 't, 'u) call_store" where
  "OnTrackPublished S participant pid t st =
    map_option (\<lambda>s. case participant of
        Some p \<Rightarrow> Set_store S (NewParticipant S p) s
      | None \<Rightarrow> on_object S pid (\<lambda>q. q\<lparr>q_PublishedTracks := ss_Set (by_type S) (q_PublishedTracks q) t t\<rparr>) s) st"

definition OnTrackUnpublished ::
    "('s, 't, 'u) skipsets \<Rightarrow> participant_pb option \<Rightarrow> ParticipantID \<Rightarrow> TrackType \<Rightarrow> ('s, 't, 'u) call_store \<Rightarrow> ('s, 't, 'u) call_store" where
  "OnTrackUnpublished S participant pid t st =
    map_option (\<lambda>s. case participant of
        Some p \<Rightarrow> Set_store S (NewParticipant S p) s
      | None \<Rightarrow> on_object S pid (\<lambda>q. q\<lparr>q_PublishedTracks := ss_Remove (by_type S) (q_PublishedTracks q) t\<rparr>) s) st"

text \<open>The states of an inbound notification; the second component is what the handler, if one is set, is called with.\<close>

record InboundTrackState =
  i_ParticipantID :: ParticipantID
  i_TrackType :: TrackType
  i_Paused :: bool

definition OnInboundStateNotification ::
    "('s, 't, 'u) skipsets \<Rightarrow> InboundTrackState list \<Rightarrow> ('s, 't, 'u) call_store \<Rightarrow> ('s, 't, 'u) call_store \<times> InboundTrackState list" where
  "OnInboundStateNotification S states st =
    (case st of
       None \<Rightarrow> (None, [])
     | Some s \<Rightarrow> (Some (fold (\<lambda>i. on_object S (i_ParticipantID i) (SetTrackPaused (i_TrackType i) (i_Paused i))) states s), states))"

datatype store_event = Joined "participant_pb option" | Left "participant_pb option" | DominantSpeaker ParticipantID
  | HealthCheck uint32 uint32 | Published "participant_pb option" ParticipantID TrackType
  | Unpublished "participant_pb option" ParticipantID TrackType | InboundState "InboundTrackState list"

definition handle_event :: "('s, 't, 'u) skipsets \<Rightarrow> store_event \<Rightarrow> ('s, 't, 'u) call_store \<Rightarrow> ('s, 't, 'u) call_store" where
  "handle_event S e =
    (case e of
       Joined p \<Rightarrow> OnParticipantJoined S p
     | Left p \<Rightarrow> OnParticipantLeft S p
     | DominantSpeaker pid \<Rightarrow> OnDominantSpeakerChanged S pid
     | HealthCheck headcount anonymous \<Rightarrow> OnHealthCheckResponse headcount anonymous
     | Published p pid t \<Rightarrow> OnTrackPublished S p pid t
     | Unpublished p pid t \<Rightarrow> OnTrackUnpublished S p pid t
     | InboundState states \<Rightarrow> fst \<circ> OnInboundStateNotification S states)"

section \<open>Who is in the call\<close>

text \<open>The specification: the ids that have joined, or were announced with a track, and have not left since.\<close>

definition pb_ID :: "participant_pb \<Rightarrow> ParticipantID" where "pb_ID p = (pb_UserId p, pb_SessionId p)"

definition members :: "store_event \<Rightarrow> ParticipantID set \<Rightarrow> ParticipantID set" where
  "members e M =
    (case e of
       Joined (Some p) \<Rightarrow> insert (pb_ID p) M
     | Left (Some p) \<Rightarrow> M - {pb_ID p}
     | Published (Some p) _ _ \<Rightarrow> insert (pb_ID p) M
     | Unpublished (Some p) _ _ \<Rightarrow> insert (pb_ID p) M
     | _ \<Rightarrow> M)"

definition present :: "('s, 't, 'u) skipsets \<Rightarrow> ('s, 't, 'u) ParticipantStore \<Rightarrow> ParticipantID set" where
  "present S s = {pid. GetByID S s pid \<noteq> None}"

text \<open>Both indexes point to objects that carry the key.\<close>

definition store_ok :: "('s, 't, 'u) skipsets \<Rightarrow> ('s, 't, 'u) ParticipantStore \<Rightarrow> bool" where
  "store_ok S s \<longleftrightarrow>
     (\<forall>pid a. GetByID S s pid = Some a \<longrightarrow> a < length (st_heap s) \<and> q_ID (st_heap s ! a) = pid) \<and>
     (\<forall>prefix a. GetByTrackPrefix S s prefix = Some a \<longrightarrow> a < length (st_heap s) \<and> q_TrackLookupPrefix (st_heap s ! a) = prefix)"

definition skipsets_ok :: "('s, 't, 'u) skipsets \<Rightarrow> bool" where
  "skipsets_ok S \<longleftrightarrow> skipset_ok (by_id S) \<and> skipset_ok (by_prefix S)"

lemma skipset_set_cases:
  assumes "skipset_ok S"
  shows "ss_Load S (ss_Set S s k v) k' = (if k' = k then Some v else ss_Load S s k') \<or>
    (k' = k \<and> ss_Load S s k \<noteq> None \<and> ss_Load S (ss_Set S s k v) k' = ss_Load S s k)"
proof -
  have same: "\<forall>s k v. ss_Load S (ss_Set S s k v) k = Some v \<or> (ss_Load S s k \<noteq> None \<and> ss_Load S (ss_Set S s k v) k = ss_Load S s k)"
    using assms unfolding skipset_ok_def by (elim conjE) assumption
  have other: "\<forall>s k k' v. k' \<noteq> k \<longrightarrow> ss_Load S (ss_Set S s k v) k' = ss_Load S s k'"
    using assms unfolding skipset_ok_def by (elim conjE) assumption
  show ?thesis using same[rule_format, of s k v] other[rule_format, of k' k s v] by (cases "k' = k") auto
qed

lemma skipset_new: "skipset_ok S \<Longrightarrow> ss_Load S (ss_New S) k = None"
  unfolding skipset_ok_def by (elim conjE) (erule allE)

lemma skipset_set:
  "skipset_ok S \<Longrightarrow> ss_Load S (ss_Set S s k v) k' = Some w \<Longrightarrow> (k' = k \<and> w = v) \<or> ss_Load S s k' = Some w"
  using skipset_set_cases[of S s k v k'] by (auto split: if_splits)

lemma skipset_set_None:
  "skipset_ok S \<Longrightarrow> ss_Load S (ss_Set S s k v) k' = None \<longleftrightarrow> k' \<noteq> k \<and> ss_Load S s k' = None"
  using skipset_set_cases[of S s k v k'] by (auto split: if_splits)

lemma skipset_remove:
  "skipset_ok S \<Longrightarrow> ss_Load S (ss_Remove S s k) k' = (if k' = k then None else ss_Load S s k')"
  unfolding skipset_ok_def by auto

lemma skipset_range: "skipset_ok S \<Longrightarrow> v \<in> set (ss_Range S s) \<longleftrightarrow> (\<exists>k. ss_Load S s k = Some v)"
  unfolding skipset_ok_def by blast

lemma NewParticipant_keys [simp]: "q_ID (NewParticipant S p) = pb_ID p" "q_TrackLookupPrefix (NewParticipant S p) = pb_TrackLookupPrefix p"
  by (simp_all add: NewParticipant_def pb_ID_def)

lemma Set_store_ok:
  assumes "skipsets_ok S" "store_ok S s"
  shows "store_ok S (Set_store S p s) \<and> present S (Set_store S p s) = insert (q_ID p) (present S s)"
proof
  have "GetByID S (Set_store S p s) pid = Some a \<Longrightarrow> (pid = q_ID p \<and> a = length (st_heap s)) \<or> GetByID S s pid = Some a" for pid a
    using assms(1) skipset_set[of "by_id S"] by (simp add: skipsets_ok_def GetByID_def Set_store_def Let_def)
  moreover have "GetByTrackPrefix S (Set_store S p s) x = Some a \<Longrightarrow>
      (x = q_TrackLookupPrefix p \<and> a = length (st_heap s)) \<or> GetByTrackPrefix S s x = Some a" for x a
    using assms(1) skipset_set[of "by_prefix S"] by (simp add: skipsets_ok_def GetByTrackPrefix_def Set_store_def Let_def)
  moreover have "st_heap (Set_store S p s) = st_heap s @ [p]" by (simp add: Set_store_def Let_def)
  ultimately show "store_ok S (Set_store S p s)"
    using assms(2) unfolding store_ok_def by (fastforce simp: nth_append)
  show "present S (Set_store S p s) = insert (q_ID p) (present S s)"
    using assms(1) skipset_set_None[of "by_id S"]
    by (auto simp: present_def skipsets_ok_def GetByID_def Set_store_def Let_def)
qed

lemma Remove_store_ok:
  assumes "skipsets_ok S" "store_ok S s"
  shows "store_ok S (Remove_store S pid x s) \<and> present S (Remove_store S pid x s) = present S s - {pid}"
  using assms skipset_remove[of "by_id S"] skipset_remove[of "by_prefix S"]
  by (auto simp: skipsets_ok_def store_ok_def present_def GetByID_def GetByTrackPrefix_def Remove_store_def split: if_splits)

text \<open>Updates of an object that leave its keys alone.\<close>

lemma update_object_ok:
  assumes "store_ok S s" "\<And>p. q_ID (f p) = q_ID p" "\<And>p. q_TrackLookupPrefix (f p) = q_TrackLookupPrefix p"
  shows "store_ok S (update_object a f s) \<and> present S (update_object a f s) = present S s"
  using assms by (simp add: store_ok_def present_def GetByID_def GetByTrackPrefix_def update_object_def nth_update_if)

lemma on_object_ok:
  assumes "store_ok S s" "\<And>p. q_ID (f p) = q_ID p" "\<And>p. q_TrackLookupPrefix (f p) = q_TrackLookupPrefix p"
  shows "store_ok S (on_object S pid f s) \<and> present S (on_object S pid f s) = present S s"
  using update_object_ok[OF assms] assms(1) by (simp add: on_object_def split: option.split)

lemma fold_ok:
  assumes "\<And>x s. store_ok S s \<Longrightarrow> store_ok S (g x s) \<and> present S (g x s) = present S s"
  shows "store_ok S s \<Longrightarrow> store_ok S (fold g xs s) \<and> present S (fold g xs s) = present S s"
  by (induction xs arbitrary: s) (simp_all add: assms)

text \<open>One event: the store follows the specification.\<close>

lemma handle_event_ok:
  assumes S: "skipsets_ok S" and s: "store_ok S s"
  shows "\<exists>s'. handle_event S e (Some s) = Some s' \<and> store_ok S s' \<and> present S s' = members e (present S s)"
proof (cases e)
  case (Joined p)
  with Set_store_ok[OF assms] s show ?thesis
    by (cases p) (auto simp: handle_event_def OnParticipantJoined_def members_def)
next
  case (Left p)
  with Remove_store_ok[OF assms] s show ?thesis
    by (cases p) (auto simp: handle_event_def OnParticipantLeft_def members_def pb_ID_def)
next
  case (DominantSpeaker pid)
  have "store_ok S (update_object a (\<lambda>p. p\<lparr>q_IsDominantSpeaker := b p\<rparr>) s) \<and>
      present S (update_object a (\<lambda>p. p\<lparr>q_IsDominantSpeaker := b p\<rparr>) s) = present S s" if "store_ok S s" for a b s
    using that by (rule update_object_ok) simp_all
  from fold_ok[OF this s] DominantSpeaker show ?thesis
    by (simp add: handle_event_def OnDominantSpeakerChanged_def members_def)
next
  case (HealthCheck c n)
  with s show ?thesis
    by (auto simp: handle_event_def OnHealthCheckResponse_def members_def store_ok_def present_def GetByID_def GetByTrackPrefix_def)
next
  case (Published p pid t)
  with Set_store_ok[OF assms] on_object_ok[OF s] show ?thesis
    by (cases p) (auto simp: handle_event_def OnTrackPublished_def members_def)
next
  case (Unpublished p pid t)
  with Set_store_ok[OF assms] on_object_ok[OF s] show ?thesis
    by (cases p) (auto simp: handle_event_def OnTrackUnpublished_def members_def)
next
  case (InboundState states)
  have "store_ok S (on_object S (i_ParticipantID i) (SetTrackPaused (i_TrackType i) (i_Paused i)) s) \<and>
      present S (on_object S (i_ParticipantID i) (SetTrackPaused (i_TrackType i) (i_Paused i)) s) = present S s" if "store_ok S s" for i :: InboundTrackState and s
    using that by (rule on_object_ok) (simp_all add: SetTrackPaused_def)
  from fold_ok[OF this s] InboundState show ?thesis
    by (simp add: handle_event_def OnInboundStateNotification_def members_def)
qed

lemma NewParticipantStore_ok:
  assumes S: "skipsets_ok S"
  shows "store_ok S (NewParticipantStore S ps c n) \<and> present S (NewParticipantStore S ps c n) = set (map pb_ID ps)"
proof -
  have empty: "GetByID S \<lparr>st_heap = [], st_pByID = ss_New (by_id S), st_pByTrackPrefix = ss_New (by_prefix S), st_Total = 0, st_Anonymous = 0\<rparr> pid = None"
      "GetByTrackPrefix S \<lparr>st_heap = [], st_pByID = ss_New (by_id S), st_pByTrackPrefix = ss_New (by_prefix S), st_Total = 0, st_Anonymous = 0\<rparr> x = None"
    for pid x
    using S by (simp_all add: skipsets_ok_def skipset_new GetByID_def GetByTrackPrefix_def)
  have "store_ok S (fold (\<lambda>p. Set_store S (NewParticipant S p)) ps s) \<and>
      present S (fold (\<lambda>p. Set_store S (NewParticipant S p)) ps s) = present S s \<union> set (map pb_ID ps)" if "store_ok S s" for s
    using that by (induction ps arbitrary: s) (simp_all add: Set_store_ok[OF S])
  moreover have "store_ok S (s\<lparr>st_Total := a, st_Anonymous := b\<rparr>) = store_ok S s" "present S (s\<lparr>st_Total := a, st_Anonymous := b\<rparr>) = present S s" for s a b
    by (simp_all add: store_ok_def present_def GetByID_def GetByTrackPrefix_def)
  ultimately show ?thesis by (simp add: NewParticipantStore_def store_ok_def present_def empty)
qed

lemma handle_events_ok:
  assumes S: "skipsets_ok S"
  shows "store_ok S s \<Longrightarrow>
    \<exists>s'. fold (handle_event S) es (Some s) = Some s' \<and> store_ok S s' \<and> present S s' = fold members es (present S s)"
proof (induction es arbitrary: s)
  case (Cons e es)
  obtain s' where "handle_event S e (Some s) = Some s'" "store_ok S s'" "present S s' = members e (present S s)"
    using handle_event_ok[OF S Cons.prems] by metis
  with Cons.IH[of s'] show ?case by simp
qed simp

text \<open>The dominant speaker is unique after every change of it, and a track is paused exactly when the last
  notification about it said so.\<close>

lemma update_object_fields [simp]:
  "st_heap (update_object a f s) = (st_heap s)[a := f (st_heap s ! a)]" "st_pByID (update_object a f s) = st_pByID s"
  by (simp_all add: update_object_def)

lemma fold_update_byID [simp]: "st_pByID (fold (\<lambda>a. update_object a f) as s) = st_pByID s"
  by (induction as arbitrary: s) simp_all

lemma fold_update_object:
  assumes "\<forall>a \<in> set as. a < length (st_heap s)" "\<And>p. f (f p) = f p"
  shows "st_heap (fold (\<lambda>a. update_object a f) as s) ! i = (if i \<in> set as then f (st_heap s ! i) else st_heap s ! i)"
  using assms(1)
proof (induction as arbitrary: s)
  case (Cons a as)
  then have "st_heap (fold (\<lambda>a. update_object a f) as (update_object a f s)) ! i =
      (if i \<in> set as then f (st_heap (update_object a f s) ! i) else st_heap (update_object a f s) ! i)"
    by (intro Cons.IH) simp
  with Cons.prems assms(2) show ?case by (auto simp: nth_update_if)
qed simp

lemma dominant_speaker_unique:
  assumes S: "skipsets_ok S" and s: "store_ok S s" and e: "OnDominantSpeakerChanged S speaker (Some s) = Some s'"
    and g: "GetByID S s' pid = Some a"
  shows "q_IsDominantSpeaker (st_heap s' ! a) \<longleftrightarrow> pid = speaker"
proof -
  define as f where "as = ss_Range (by_id S) (st_pByID s)" and "f = (\<lambda>p :: 'c Participant. p\<lparr>q_IsDominantSpeaker := Equal_id (q_ID p) speaker\<rparr>)"
  have s': "s' = fold (\<lambda>a. update_object a f) as s" using e by (simp add: OnDominantSpeakerChanged_def as_def f_def)
  have rng: "a \<in> set as \<longleftrightarrow> (\<exists>k. GetByID S s k = Some a)" for a
    using S skipset_range[of "by_id S"] by (simp add: as_def GetByID_def skipsets_ok_def)
  have a: "GetByID S s pid = Some a" using g s' by (simp add: GetByID_def)
  then have "a \<in> set as" "q_ID (st_heap s ! a) = pid" using s rng unfolding store_ok_def by blast+
  moreover have "st_heap s' ! a = (if a \<in> set as then f (st_heap s ! a) else st_heap s ! a)"
    unfolding s'
  proof (rule fold_update_object)
    show "\<forall>a \<in> set as. a < length (st_heap s)" using s rng unfolding store_ok_def by blast
  qed (simp add: f_def)
  ultimately show ?thesis by (simp add: f_def Equal_id_def prod_eq_iff)
qed

lemma paused_after [simp]:
  "IsTrackPaused (SetTrackPaused t b p) t' = (if t' = t then b else IsTrackPaused p t')"
  by (simp add: IsTrackPaused_def SetTrackPaused_def)

section \<open>Properties\<close>

text \<open>C14: the store knows exactly who is in the call. After any sequence of events following a join, a participant
  is found by id if and only if it was in the join response, has joined, or was announced with a track,
  and has not left since; and what is found carries that id.\<close>

theorem participants_tracked:
  assumes "skipsets_ok S"
  shows "\<exists>s. fold (handle_event S) es (Some (NewParticipantStore S ps c n)) = Some s \<and>
    (\<forall>pid. GetByID S s pid \<noteq> None \<longleftrightarrow> pid \<in> fold members es (set (map pb_ID ps))) \<and>
    (\<forall>pid a. GetByID S s pid = Some a \<longrightarrow> a < length (st_heap s) \<and> q_ID (st_heap s ! a) = pid)"
proof -
  obtain s where "fold (handle_event S) es (Some (NewParticipantStore S ps c n)) = Some s" "store_ok S s"
      "present S s = fold members es (set (map pb_ID ps))"
    using handle_events_ok[OF assms, of "NewParticipantStore S ps c n" es] NewParticipantStore_ok[OF assms, of ps c n] by auto
  then show ?thesis by (auto simp: present_def store_ok_def)
qed

text \<open>A concrete set: an association list.\<close>

definition alist_skipset :: "('k, 'v, ('k \<times> 'v) list) skipset" where
  "alist_skipset = \<lparr>ss_New = [], ss_Load = map_of, ss_Set = (\<lambda>s k v. AList.update k v s), ss_Remove = (\<lambda>s k. AList.delete k s),
     ss_Range = (\<lambda>s. map snd (AList.clearjunk s))\<rparr>"

lemma clearjunk_values: "v \<in> snd ` set (AList.clearjunk s) \<longleftrightarrow> (\<exists>k. map_of s k = Some v)"
proof -
  have "snd ` set (AList.clearjunk s) = ran (map_of s)"
    using ran_distinct[OF distinct_clearjunk[of s]] by (simp only: ran_clearjunk)
  then show ?thesis by (simp only: ran_def mem_Collect_eq)
qed

lemma alist_skipset_ok: "skipset_ok alist_skipset"
  unfolding skipset_ok_def alist_skipset_def by (simp add: update_conv' delete_conv' clearjunk_values del: image_iff)

definition alist_skipsets :: "((ParticipantID \<times> nat) list, (string \<times> nat) list, (TrackType \<times> TrackType) list) skipsets" where
  "alist_skipsets = \<lparr>by_id = alist_skipset, by_prefix = alist_skipset, by_type = alist_skipset\<rparr>"

lemma alist_skipsets_ok: "skipsets_ok alist_skipsets"
  by (simp add: skipsets_ok_def alist_skipsets_def alist_skipset_ok)

definition sample_pb :: "string \<Rightarrow> participant_pb" where
  "sample_pb u = \<lparr>pb_UserId = u, pb_SessionId = ''s'', pb_PublishedTracks = [], pb_JoinedAt = 0, pb_TrackLookupPrefix = u,
     pb_ConnectionQuality = 0, pb_IsSpeaking = False, pb_IsDominantSpeaker = False, pb_AudioLevel = 0\<rparr>"

theorem participants_tracked_witness:
  "\<exists>s. fold (handle_event alist_skipsets) [Joined (Some (sample_pb ''b'')), Left (Some (sample_pb ''a''))]
      (Some (NewParticipantStore alist_skipsets [sample_pb ''a''] 1 0)) = Some s \<and>
    GetByID alist_skipsets s (''b'', ''s'') \<noteq> None \<and> GetByID alist_skipsets s (''a'', ''s'') = None"
proof -
  define es where "es = [Joined (Some (sample_pb ''b'')), Left (Some (sample_pb ''a''))]"
  have m: "fold members es (set (map pb_ID [sample_pb ''a''])) = {(''b'', ''s'')}"
    by (auto simp: es_def members_def pb_ID_def sample_pb_def)
  obtain s where s: "fold (handle_event alist_skipsets) es (Some (NewParticipantStore alist_skipsets [sample_pb ''a''] 1 0)) = Some s"
      "\<forall>pid. GetByID alist_skipsets s pid \<noteq> None \<longleftrightarrow> pid \<in> fold members es (set (map pb_ID [sample_pb ''a'']))"
    using participants_tracked[OF alist_skipsets_ok] by blast
  have "GetByID alist_skipsets s (''b'', ''s'') \<noteq> None" "\<not> GetByID alist_skipsets s (''a'', ''s'') \<noteq> None"
    unfolding s(2)[rule_format] m by simp_all
  with s(1) show ?thesis unfolding es_def by (intro exI[of _ s]) simp
qed

lemma split_colon_none: "CHR '':'' \<notin> set w \<Longrightarrow> split_colon w = [w]"
  by (induction w) auto

lemma split_colon_first: "CHR '':'' \<notin> set w \<Longrightarrow> split_colon (w @ CHR '':'' # r) = w # split_colon r"
  by (induction w) auto

text \<open>A participant who has left is still found by the prefix of its tracks. \<open>OnParticipantLeft\<close> removes a probe that
  carries no prefix, so only the index by id forgets the participant; a stream with the old prefix is
  attributed to the one who left. A stream id that is a known prefix without a track type panics.\<close>

theorem participant_left_still_owns_tracks:
  assumes S: "skipsets_ok S" and s: "store_ok S s" and new: "GetByTrackPrefix S s (pb_TrackLookupPrefix p) = None"
    and pre: "pb_TrackLookupPrefix p \<noteq> []" "CHR '':'' \<notin> set (pb_TrackLookupPrefix p)" "CHR '':'' \<notin> set name"
  shows "\<exists>s' a. fold (handle_event S) [Joined (Some p), Left (Some p)] (Some s) = Some s' \<and>
    GetByID S s' (pb_ID p) = None \<and> q_ID (st_heap s' ! a) = pb_ID p \<and>
    LookupParticipantByTrack S track_type_value s' (pb_TrackLookupPrefix p @ '':'' @ name) = Some (Some a, track_type_value name) \<and>
    LookupParticipantByTrack S track_type_value s' (pb_TrackLookupPrefix p) = None"
proof -
  define t where "t = Set_store S (NewParticipant S p) s"
  define s' where "s' = Remove_store S (pb_ID p) [] t"
  have ev: "fold (handle_event S) [Joined (Some p), Left (Some p)] (Some s) = Some s'"
    by (simp add: handle_event_def OnParticipantJoined_def OnParticipantLeft_def s'_def t_def pb_ID_def)
  have "GetByTrackPrefix S t (pb_TrackLookupPrefix p) = Some (length (st_heap s))"
    using S new skipset_set_cases[of "by_prefix S" "st_pByTrackPrefix s" "pb_TrackLookupPrefix p" "length (st_heap s)" "pb_TrackLookupPrefix p"]
    by (simp add: skipsets_ok_def GetByTrackPrefix_def t_def Set_store_def Let_def)
  then have g: "GetByTrackPrefix S s' (pb_TrackLookupPrefix p) = Some (length (st_heap s))"
    using S pre(1) skipset_remove[of "by_prefix S"] by (simp add: skipsets_ok_def GetByTrackPrefix_def s'_def Remove_store_def)
  have i: "GetByID S s' (pb_ID p) = None"
    using S skipset_remove[of "by_id S"] by (simp add: skipsets_ok_def GetByID_def s'_def Remove_store_def)
  have "st_heap s' ! length (st_heap s) = NewParticipant S p"
    by (simp add: s'_def t_def Remove_store_def Set_store_def Let_def)
  then show ?thesis
    using ev i g pre
    by (intro exI[of _ s'] exI[of _ "length (st_heap s)"])
       (simp add: LookupParticipantByTrack_def Let_def split_colon_none split_colon_first)
qed

theorem participant_left_still_owns_tracks_witness:
  "(\<lambda>s. \<exists>s' a. fold (handle_event alist_skipsets) [Joined (Some (sample_pb ''b'')), Left (Some (sample_pb ''b''))] (Some s) = Some s' \<and>
    GetByID alist_skipsets s' (''b'', ''s'') = None \<and> q_ID (st_heap s' ! a) = (''b'', ''s'') \<and>
    LookupParticipantByTrack alist_skipsets (\<lambda>_. 2) s' ''b:V'' = Some (Some a, 2))
   (NewParticipantStore alist_skipsets [sample_pb ''a''] 1 0)"
proof -
  define s where "s = NewParticipantStore alist_skipsets [sample_pb ''a''] 1 0"
  have ok: "store_ok alist_skipsets s" using NewParticipantStore_ok[OF alist_skipsets_ok] by (simp add: s_def)
  have "GetByTrackPrefix alist_skipsets s (pb_TrackLookupPrefix (sample_pb ''b'')) = None"
    by (simp add: s_def NewParticipantStore_def GetByTrackPrefix_def Set_store_def alist_skipsets_def alist_skipset_def sample_pb_def NewParticipant_def)
  from participant_left_still_owns_tracks[OF alist_skipsets_ok ok this, of "''V''" "\<lambda>_. 2"]
  show ?thesis unfolding s_def[symmetric] by (simp add: sample_pb_def pb_ID_def) blast
qed

end
