(* ===== verification/EventStore.thy ===== *)
theory EventStore
  imports Prelude
begin

text \<open>
  The event store, package \<open>event\<close>: interceptors that see every event, and awaiters that wait for the first
  event they accept. The store and its callers share the awaiters, so these are objects the store holds
  addresses of. Mapping an event, asserting its type and the caller's condition are together what an
  awaiter accepts. An interceptor is a number; \<open>st_calls\<close> records the calls made. Sending on a closed channel panics, which is
  \<open>None\<close>. Everything runs under the store's mutex, so an operation is one step.
\<close>

section \<open>State and operations\<close>

record 'e EventAwaiter =
  aw_accepts :: "'e \<Rightarrow> bool"
  aw_event :: "'e list"
  aw_closed :: bool
  aw_timeout :: bool

record 'e Store =
  st_objects :: "'e EventAwaiter list"
  st_eventAwaiters :: "nat list"
  st_interceptors :: "(uint64 \<times> nat) list"
  st_nextID :: uint64
  st_calls :: "(nat \<times> 'e) list"

definition NewStore :: "'e Store" where
  "NewStore = \<lparr>st_objects = [], st_eventAwaiters = [], st_interceptors = [], st_nextID = 0, st_calls = []\<rparr>"

definition AddAwaiter :: "nat \<Rightarrow> 'e Store \<Rightarrow> 'e Store" where
  "AddAwaiter a s = s\<lparr>st_eventAwaiters := st_eventAwaiters s @ [a]\<rparr>"

definition NewEventAwaiter :: "('e \<Rightarrow> bool) \<Rightarrow> 'e Store \<Rightarrow> nat \<times> 'e Store" where
  "NewEventAwaiter accepts s =
    (let a = length (st_objects s);
         e = \<lparr>aw_accepts = accepts, aw_event = [], aw_closed = False, aw_timeout = False\<rparr>
     in (a, AddAwaiter a (s\<lparr>st_objects := st_objects s @ [e]\<rparr>)))"

definition AddInterceptor :: "nat \<Rightarrow> 'e Store \<Rightarrow> uint64 \<times> 'e Store" where
  "AddInterceptor f s =
    (let i = st_nextID s + 1
     in (i, s\<lparr>st_nextID := i, st_interceptors := st_interceptors s @ [(i, f)]\<rparr>))"

fun remove_first :: "uint64 \<Rightarrow> (uint64 \<times> nat) list \<Rightarrow> (uint64 \<times> nat) list" where
  "remove_first i [] = []"
| "remove_first i (x # xs) = (if fst x = i then xs else x # remove_first i xs)"

definition removeInterceptor :: "uint64 \<Rightarrow> 'e Store \<Rightarrow> 'e Store" where
  "removeInterceptor i s = s\<lparr>st_interceptors := remove_first i (st_interceptors s)\<rparr>"

definition Close_awaiter :: "'e EventAwaiter \<Rightarrow> 'e EventAwaiter" where
  "Close_awaiter e = e\<lparr>aw_closed := True\<rparr>"

definition match_event :: "'e EventAwaiter \<Rightarrow> 'e \<Rightarrow> (bool \<times> 'e EventAwaiter) option" where
  "match_event e event =
    (if aw_timeout e then Some (True, e)
     else if aw_accepts e event then
       (if aw_closed e then None else Some (True, e\<lparr>aw_event := aw_event e @ [event]\<rparr>))
     else Some (False, e))"

definition Match :: "'e EventAwaiter \<Rightarrow> 'e \<Rightarrow> (bool \<times> 'e EventAwaiter) option" where
  "Match e event =
    (case match_event e event of
       None \<Rightarrow> None
     | Some (matched, e) \<Rightarrow> Some (matched, if matched then Close_awaiter e else e))"

fun match_loop :: "'e \<Rightarrow> nat list \<Rightarrow> 'e EventAwaiter list \<Rightarrow> (nat list \<times> 'e EventAwaiter list) option" where
  "match_loop event [] objs = Some ([], objs)"
| "match_loop event (a # as) objs =
    (case Match (objs ! a) event of
       None \<Rightarrow> None
     | Some (matched, e) \<Rightarrow>
        (case match_loop event as (objs[a := e]) of
           None \<Rightarrow> None
         | Some (remaining, objs) \<Rightarrow> Some (if matched then remaining else a # remaining, objs)))"

definition Intercept :: "'e \<Rightarrow> 'e Store \<Rightarrow> 'e Store option" where
  "Intercept event s =
    (let s = s\<lparr>st_calls := st_calls s @ map (\<lambda>i. (snd i, event)) (st_interceptors s)\<rparr> in
     case match_loop event (st_eventAwaiters s) (st_objects s) of
       None \<Rightarrow> None
     | Some (remaining, objs) \<Rightarrow> Some (s\<lparr>st_eventAwaiters := remaining, st_objects := objs\<rparr>))"

text \<open>\<open>Await\<close> when its timer fires, and when it receives: \<open>None\<close> while there is nothing to receive, \<open>Some None\<close> for the
  zero value of a closed channel.\<close>

definition await_timeout :: "nat \<Rightarrow> 'e Store \<Rightarrow> 'e Store" where
  "await_timeout a s = s\<lparr>st_objects := (st_objects s)[a := (st_objects s ! a)\<lparr>aw_timeout := True\<rparr>]\<rparr>"

definition await_receive :: "nat \<Rightarrow> 'e Store \<Rightarrow> 'e option option" where
  "await_receive a s =
    (case aw_event (st_objects s ! a) of
       e # _ \<Rightarrow> Some (Some e)
     | [] \<Rightarrow> if aw_closed (st_objects s ! a) then Some None else None)"

section \<open>One event\<close>

text \<open>The awaiters the store tracks are open and have received nothing, as long as only the store closes
  them.\<close>

definition store_wf :: "'e Store \<Rightarrow> bool" where
  "store_wf s \<longleftrightarrow> distinct (st_eventAwaiters s) \<and>
     (\<forall>a \<in> set (st_eventAwaiters s). a < length (st_objects s) \<and> \<not> aw_closed (st_objects s ! a) \<and> aw_event (st_objects s ! a) = [])"

definition takes :: "'e EventAwaiter \<Rightarrow> 'e \<Rightarrow> bool" where
  "takes e event \<longleftrightarrow> aw_timeout e \<or> aw_accepts e event"

definition after_event :: "'e \<Rightarrow> 'e EventAwaiter \<Rightarrow> 'e EventAwaiter" where
  "after_event event e =
    (if takes e event then e\<lparr>aw_event := (if aw_timeout e then aw_event e else aw_event e @ [event]), aw_closed := True\<rparr> else e)"

lemma Match_open: "\<not> aw_closed e \<Longrightarrow> Match e event = Some (takes e event, after_event event e)"
  by (simp add: Match_def match_event_def Close_awaiter_def takes_def after_event_def)

lemma match_loop_ok:
  "distinct as \<Longrightarrow> \<forall>a \<in> set as. a < length objs \<and> \<not> aw_closed (objs ! a) \<Longrightarrow>
     \<exists>objs'. match_loop event as objs = Some (filter (\<lambda>a. \<not> takes (objs ! a) event) as, objs') \<and> length objs' = length objs \<and>
       (\<forall>i. objs' ! i = (if i \<in> set as then after_event event (objs ! i) else objs ! i))"
proof (induction as arbitrary: objs)
  case (Cons a as)
  define objs1 where "objs1 = objs[a := after_event event (objs ! a)]"
  have eq: "objs1 ! i = objs ! i" if "i \<in> set as" for i using that Cons.prems(1) by (auto simp: objs1_def nth_update_if)
  have "\<forall>a \<in> set as. a < length objs1 \<and> \<not> aw_closed (objs1 ! a)" using Cons.prems(2) eq by (simp add: objs1_def)
  then obtain objs' where IH: "match_loop event as objs1 = Some (filter (\<lambda>a. \<not> takes (objs1 ! a) event) as, objs')"
      "length objs' = length objs1" "\<forall>i. objs' ! i = (if i \<in> set as then after_event event (objs1 ! i) else objs1 ! i)"
    using Cons.IH[of objs1] Cons.prems(1) by auto
  have "filter (\<lambda>a. \<not> takes (objs1 ! a) event) as = filter (\<lambda>a. \<not> takes (objs ! a) event) as"
    using eq by (intro filter_cong) auto
  moreover have "objs' ! i = (if i \<in> set (a # as) then after_event event (objs ! i) else objs ! i)" for i
    using IH(3) eq Cons.prems by (auto simp: objs1_def nth_update_if)
  ultimately show ?case
    using Cons.prems(2) IH(1,2) by (auto simp: Match_open objs1_def)
qed simp

lemma Intercept_ok:
  assumes "store_wf s"
  obtains s' where "Intercept event s = Some s'" "store_wf s'" "length (st_objects s') = length (st_objects s)"
    "st_eventAwaiters s' = filter (\<lambda>a. \<not> takes (st_objects s ! a) event) (st_eventAwaiters s)"
    "\<And>i. st_objects s' ! i = (if i \<in> set (st_eventAwaiters s) then after_event event (st_objects s ! i) else st_objects s ! i)"
    "st_calls s' = st_calls s @ map (\<lambda>i. (snd i, event)) (st_interceptors s)" "st_interceptors s' = st_interceptors s"
proof -
  obtain objs' where m: "match_loop event (st_eventAwaiters s) (st_objects s) =
        Some (filter (\<lambda>a. \<not> takes (st_objects s ! a) event) (st_eventAwaiters s), objs')" "length objs' = length (st_objects s)"
      "\<forall>i. objs' ! i = (if i \<in> set (st_eventAwaiters s) then after_event event (st_objects s ! i) else st_objects s ! i)"
    using match_loop_ok[of "st_eventAwaiters s" "st_objects s" event] assms by (auto simp: store_wf_def)
  define s' where "s' = s\<lparr>st_calls := st_calls s @ map (\<lambda>i. (snd i, event)) (st_interceptors s),
    st_eventAwaiters := filter (\<lambda>a. \<not> takes (st_objects s ! a) event) (st_eventAwaiters s), st_objects := objs'\<rparr>"
  have "Intercept event s = Some s'" using m(1) by (simp add: Intercept_def s'_def)
  moreover have "store_wf s'" using assms m(2,3) by (auto simp: store_wf_def s'_def after_event_def)
  ultimately show thesis using m(2,3) by (intro that[of s']) (simp_all add: s'_def)
qed

section \<open>Runs\<close>

datatype 'e store_op = OpAwaiter "'e \<Rightarrow> bool" | OpIntercept 'e | OpTimeout nat | OpAddInterceptor nat | OpRemove uint64

definition store_step :: "'e store_op \<Rightarrow> 'e Store \<Rightarrow> 'e Store option" where
  "store_step p s =
    (case p of
       OpAwaiter accepts \<Rightarrow> Some (snd (NewEventAwaiter accepts s))
     | OpIntercept event \<Rightarrow> Intercept event s
     | OpTimeout a \<Rightarrow> Some (if a < length (st_objects s) then await_timeout a s else s)
     | OpAddInterceptor f \<Rightarrow> Some (snd (AddInterceptor f s))
     | OpRemove i \<Rightarrow> Some (removeInterceptor i s))"

fun store_run :: "'e store_op list \<Rightarrow> 'e Store \<Rightarrow> 'e Store option" where
  "store_run [] s = Some s"
| "store_run (p # ps) s = (case store_step p s of None \<Rightarrow> None | Some s \<Rightarrow> store_run ps s)"

text \<open>What an awaiter that accepts \<open>p\<close> is to receive: the first such event before its timeout.\<close>

fun first_match :: "nat \<Rightarrow> ('e \<Rightarrow> bool) \<Rightarrow> 'e store_op list \<Rightarrow> 'e list" where
  "first_match a p [] = []"
| "first_match a p (OpIntercept e # ops) = (if p e then [e] else first_match a p ops)"
| "first_match a p (OpTimeout b # ops) = (if b = a then [] else first_match a p ops)"
| "first_match a p (_ # ops) = first_match a p ops"

lemma store_step_wf:
  assumes "store_wf s"
  shows "\<exists>s'. store_step p s = Some s' \<and> store_wf s' \<and> length (st_objects s) \<le> length (st_objects s')"
proof (cases p)
  case (OpIntercept event)
  with Intercept_ok[OF assms, of event] show ?thesis by (fastforce simp: store_step_def)
next
  case (OpAwaiter accepts)
  with assms show ?thesis
    by (fastforce simp: store_step_def NewEventAwaiter_def AddAwaiter_def store_wf_def Let_def nth_append)
next
  case (OpTimeout a)
  with assms show ?thesis by (auto simp: store_step_def await_timeout_def store_wf_def nth_update_if)
qed (use assms in \<open>auto simp: store_step_def AddInterceptor_def removeInterceptor_def store_wf_def Let_def\<close>)

text \<open>An awaiter that is no longer tracked, or has timed out, receives nothing more.\<close>

definition settled :: "nat \<Rightarrow> 'e Store \<Rightarrow> bool" where
  "settled a s \<longleftrightarrow> a < length (st_objects s) \<and> (a \<notin> set (st_eventAwaiters s) \<or> aw_timeout (st_objects s ! a))"

definition waiting :: "nat \<Rightarrow> ('e \<Rightarrow> bool) \<Rightarrow> 'e Store \<Rightarrow> bool" where
  "waiting a p s \<longleftrightarrow> a \<in> set (st_eventAwaiters s) \<and> \<not> aw_timeout (st_objects s ! a) \<and> aw_accepts (st_objects s ! a) = p"

lemma settled_step:
  assumes "store_wf s" "settled a s" "store_step p s = Some s'"
  shows "settled a s' \<and> aw_event (st_objects s' ! a) = aw_event (st_objects s ! a)"
proof (cases p)
  case (OpIntercept event)
  then have i: "Intercept event s = Some s'" using assms(3) by (simp add: store_step_def)
  show ?thesis
    using assms(2) by (rule_tac Intercept_ok[OF assms(1), of event]) (auto simp: i settled_def after_event_def takes_def)
qed (use assms in \<open>auto simp: settled_def store_step_def NewEventAwaiter_def AddAwaiter_def AddInterceptor_def
      removeInterceptor_def await_timeout_def Let_def nth_append nth_update_if split: if_splits\<close>)

lemma waiting_step:
  assumes "store_wf s" "waiting a p s" "store_step op s = Some s'"
  shows "case op of
      OpIntercept e \<Rightarrow> (if p e then settled a s' \<and> aw_event (st_objects s' ! a) = [e] else waiting a p s')
    | OpTimeout b \<Rightarrow> (if b = a then settled a s' \<and> aw_event (st_objects s' ! a) = [] else waiting a p s')
    | _ \<Rightarrow> waiting a p s'"
proof (cases op)
  case (OpIntercept event)
  then have i: "Intercept event s = Some s'" using assms(3) by (simp add: store_step_def)
  show ?thesis
    using assms(1,2) OpIntercept
    by (rule_tac Intercept_ok[OF assms(1), of event]) (auto simp: i settled_def waiting_def after_event_def takes_def store_wf_def)
qed (use assms in \<open>auto simp: settled_def waiting_def store_wf_def store_step_def NewEventAwaiter_def AddAwaiter_def
      AddInterceptor_def removeInterceptor_def await_timeout_def Let_def nth_append nth_update_if split: if_splits\<close>)

lemma settled_run:
  "store_wf s \<Longrightarrow> settled a s \<Longrightarrow> \<exists>s'. store_run ops s = Some s' \<and> aw_event (st_objects s' ! a) = aw_event (st_objects s ! a)"
proof (induction ops arbitrary: s)
  case (Cons p ops)
  obtain s1 where s1: "store_step p s = Some s1" "store_wf s1" using store_step_wf[OF Cons.prems(1)] by blast
  with settled_step[OF Cons.prems s1(1)] Cons.IH[of s1] show ?case by simp
qed simp

lemma waiting_run:
  "store_wf s \<Longrightarrow> waiting a p s \<Longrightarrow> \<exists>s'. store_run ops s = Some s' \<and> aw_event (st_objects s' ! a) = first_match a p ops"
proof (induction ops arbitrary: s)
  case Nil
  then show ?case by (simp add: waiting_def store_wf_def)
next
  case (Cons q ops)
  obtain s1 where s1: "store_step q s = Some s1" "store_wf s1" using store_step_wf[OF Cons.prems(1)] by blast
  note w = waiting_step[OF Cons.prems s1(1)]
  show ?case
  proof (cases q)
    case (OpIntercept e)
    with w s1 Cons.IH[OF s1(2)] settled_run[OF s1(2), of a ops] show ?thesis by (cases "p e") auto
  next
    case (OpTimeout b)
    with w s1 Cons.IH[OF s1(2)] settled_run[OF s1(2), of a ops] show ?thesis by (cases "b = a") auto
  qed (use w s1 Cons.IH[OF s1(2)] in auto)
qed

text \<open>An awaiter receives exactly the first event it accepts. Whatever other awaiters and interceptors come and
  go, and whatever the store has seen before, no operation panics, and the awaiter's channel ends up with the
  first accepted event intercepted after its registration and before its timeout, and nothing else; an event
  that comes after the timeout is not delivered.\<close>

theorem awaiter_first_match:
  assumes "store_wf s" and "NewEventAwaiter p s = (a, s1)"
  shows "\<exists>s'. store_run ops s1 = Some s' \<and> aw_event (st_objects s' ! a) = first_match a p ops"
proof (rule waiting_run)
  have s1: "store_step (OpAwaiter p) s = Some s1" using assms(2) by (simp add: store_step_def)
  then show "store_wf s1" using store_step_wf[OF assms(1), of "OpAwaiter p"] by simp
  show "waiting a p s1" using assms(2) by (auto simp: waiting_def NewEventAwaiter_def AddAwaiter_def Let_def nth_append)
qed

theorem awaiter_first_match_witness:
  "\<exists>s'. store_run [OpIntercept 1, OpAwaiter (\<lambda>_. True), OpIntercept 7, OpIntercept 8] (snd (NewEventAwaiter (\<lambda>e. e > (5::nat)) NewStore)) = Some s' \<and>
     aw_event (st_objects s' ! 0) = [7]"
proof -
  have wf: "store_wf NewStore" by (simp add: store_wf_def NewStore_def)
  have n: "NewEventAwaiter (\<lambda>e. e > (5::nat)) NewStore = (0, snd (NewEventAwaiter (\<lambda>e. e > 5) NewStore))"
    by (simp add: NewEventAwaiter_def NewStore_def)
  from awaiter_first_match[OF wf n, of "[OpIntercept 1, OpAwaiter (\<lambda>_. True), OpIntercept 7, OpIntercept 8]"]
  show ?thesis by simp
qed

text \<open>Closing an awaiter does not take it out of the store: the next event it accepts is sent on the closed channel,
  and \<open>Intercept\<close> panics.\<close>

lemma closed_awaiter_panics:
  "Intercept e (s\<lparr>st_eventAwaiters := [0], st_objects := [Close_awaiter \<lparr>aw_accepts = (\<lambda>_. True), aw_event = [], aw_closed = False, aw_timeout = False\<rparr>]\<rparr>) = None"
  by (simp add: Intercept_def Match_def match_event_def Close_awaiter_def)

text \<open>Handles are distinct until they wrap, so removing by a handle removes that interceptor only.\<close>

lemma remove_first_distinct: "distinct (map fst xs) \<Longrightarrow> remove_first i xs = filter (\<lambda>x. fst x \<noteq> i) xs"
  by (induction xs) (auto simp: rev_image_eqI intro!: filter_True[symmetric])

end
