(* ===== verification/Signal.thy ===== *)
theory Signal
  imports EventStore
begin

text \<open>
  The signalling client, \<open>signal/client.go\<close>, on top of the websocket connection of \<open>websocket/wsconn.go\<close>: connecting, dispatching
  events to the handler, detaching, disconnecting, and the timing of its two loops, which read messages and
  send health checks. An event is its kind and an opaque payload. The calls made to the handler and the trace events are recorded.
  The RPC client and the wire format are not modelled; dialling, writing and reading
  succeed or fail as the arguments say.
\<close>

section \<open>Events\<close>

datatype sfu_kind = K_HealthCheckResponse | K_JoinResponse | K_ErrorEvent | K_CallEnded | K_CallGrantsUpdated
  | K_GoAway | K_IceRestart | K_PinsUpdated | K_ParticipantMigrationComplete | K_SubscriberOffer |
  K_PublisherAnswer | K_ConnectionQualityChanged | K_AudioLevelChanged | K_IceTrickle | K_ChangePublishQuality |
  K_ChangePublishOptions | K_InboundStateNotification | K_ParticipantJoined | K_ParticipantLeft |
  K_DominantSpeakerChanged | K_TrackPublished | K_TrackUnpublished | K_UnexpectedEvent

type_synonym sfu_event = "sfu_kind \<times> nat"

text \<open>The cases of \<open>handle\<close>: the trace event, if one is emitted, and the handler's method, if one is called.\<close>

definition dispatch :: "sfu_kind \<Rightarrow> string option \<times> string option" where
  "dispatch k =
    (case k of
       K_HealthCheckResponse \<Rightarrow> (None, Some ''OnHealthCheckResponse'')
     | K_JoinResponse \<Rightarrow> (Some ''signal.ws.joinresponse'', Some ''OnJoinResponse'')
     | K_ErrorEvent \<Rightarrow> (Some ''signal.ws.error'', Some ''OnError'')
     | K_CallEnded \<Rightarrow> (Some ''signal.ws.callended'', Some ''OnCallEnded'')
     | K_CallGrantsUpdated \<Rightarrow> (Some ''signal.ws.callgrantsupdated'', Some ''OnCallGrantsUpdated'')
     | K_GoAway \<Rightarrow> (Some ''signal.ws.goaway'', Some ''OnGoAway'')
     | K_IceRestart \<Rightarrow> (Some ''signal.ws.icerestart'', Some ''OnIceRestart'')
     | K_PinsUpdated \<Rightarrow> (None, Some ''OnPinsUpdated'')
     | K_ParticipantMigrationComplete \<Rightarrow> (None, None)
     | K_SubscriberOffer \<Rightarrow> (Some ''signal.ws.subscriberoffer'', Some ''OnSubscriberOffer'')
     | K_PublisherAnswer \<Rightarrow> (Some ''signal.ws.publisheranswer'', Some ''OnPublisherAnswer'')
     | K_ConnectionQualityChanged \<Rightarrow> (Some ''signal.ws.connectionqualitychanged'', Some ''OnConnectionQualityChanged'')
     | K_AudioLevelChanged \<Rightarrow> (None, Some ''OnAudioLevelChanged'')
     | K_IceTrickle \<Rightarrow> (Some ''signal.ws.icetrickle'', Some ''OnIceTrickle'')
     | K_ChangePublishQuality \<Rightarrow> (Some ''signal.ws.changepublishquality'', Some ''OnChangePublishQuality'')
     | K_ChangePublishOptions \<Rightarrow> (None, Some ''OnChangePublishOptions'')
     | K_InboundStateNotification \<Rightarrow> (None, Some ''OnInboundStateNotification'')
     | K_ParticipantJoined \<Rightarrow> (Some ''signal.ws.participantjoined'', Some ''OnParticipantJoined'')
     | K_ParticipantLeft \<Rightarrow> (Some ''signal.ws.participantleft'', Some ''OnParticipantLeft'')
     | K_DominantSpeakerChanged \<Rightarrow> (None, Some ''OnDominantSpeakerChanged'')
     | K_TrackPublished \<Rightarrow> (Some ''signal.ws.trackpublished'', Some ''OnTrackPublished'')
     | K_TrackUnpublished \<Rightarrow> (Some ''signal.ws.trackunpublished'', Some ''OnTrackUnpublished'')
     | K_UnexpectedEvent \<Rightarrow> (None, None))"

section \<open>The client\<close>

record connection =
  cn_closed :: bool

record client =
  sc_conns :: "connection list"
  sc_conn :: "nat option"
  sc_store :: "sfu_event Store"
  sc_detached :: bool
  sc_disconnected :: bool
  sc_calls :: "(string \<times> sfu_event) list"
  sc_traces :: "string list"

text \<open>\<open>Connection.Close\<close>, which closes once, and \<open>Connection.Disconnect\<close>: \<open>ok\<close> is whether the close frame can be written.
  The result is whether an error is returned.\<close>

definition conn_Close :: "nat \<Rightarrow> client \<Rightarrow> client" where
  "conn_Close i c = c\<lparr>sc_conns := (sc_conns c)[i := \<lparr>cn_closed = True\<rparr>]\<rparr>"

definition conn_Disconnect :: "bool \<Rightarrow> bool \<Rightarrow> nat \<Rightarrow> client \<Rightarrow> bool \<times> client" where
  "conn_Disconnect forGood ok i c =
    (if cn_closed (sc_conns c ! i) then (True, c)
     else if forGood \<and> \<not> ok then (True, c)
     else (False, conn_Close i c))"

definition calls_handler :: "string \<Rightarrow> sfu_event \<Rightarrow> client \<Rightarrow> client" where
  "calls_handler m e c = c\<lparr>sc_calls := sc_calls c @ [(m, e)]\<rparr>"

definition traces :: "string \<Rightarrow> client \<Rightarrow> client" where
  "traces t c = c\<lparr>sc_traces := sc_traces c @ [t]\<rparr>"

text \<open>\<open>handle\<close> recovers from a panic of an awaiter, which only a closed awaiter that is still in the store causes; what the store had
  done of the event before it is not kept here. The handler's methods are taken not to panic.\<close>

definition client_handle :: "sfu_event \<Rightarrow> client \<Rightarrow> client" where
  "client_handle msg c =
    (case Intercept msg (sc_store c) of
       None \<Rightarrow> c
     | Some store \<Rightarrow>
        (let c = c\<lparr>sc_store := store\<rparr> in
         if sc_detached c then c
         else
           let c = calls_handler ''RawHandler'' msg c;
               (trace, callback) = dispatch (fst msg);
               c = (case trace of None \<Rightarrow> c | Some t \<Rightarrow> traces t c)
           in (case callback of None \<Rightarrow> c | Some m \<Rightarrow> calls_handler m msg c)))"

datatype connect_error = DialFailed | WriteFailed | ReadFailed | DeadlineFailed | SfuError | UnexpectedResponse

text \<open>\<open>Connect\<close> with the answers of the network: whether dialling, writing and the two calls that set and clear the read
  deadline succeed (the first is not made, and so does not fail, without a deadline), and the first message read.
  The connection is closed on every path but a join response.\<close>

definition Connect :: "bool \<Rightarrow> bool \<Rightarrow> bool \<Rightarrow> bool \<Rightarrow> sfu_event option \<Rightarrow> client \<Rightarrow> (connect_error + sfu_event) \<times> client" where
  "Connect dialled written deadlineSet deadlineCleared response c =
    (if \<not> dialled then (Inl DialFailed, c)
     else
       let i = length (sc_conns c);
           c = traces ''signal.ws.open'' (c\<lparr>sc_conns := sc_conns c @ [\<lparr>cn_closed = False\<rparr>]\<rparr>);
           c = traces ''signal.ws.joinrequest'' c
       in if \<not> written then (Inl WriteFailed, conn_Close i c)
          else if \<not> deadlineSet then (Inl DeadlineFailed, conn_Close i c)
          else case response of
            None \<Rightarrow> (Inl ReadFailed, conn_Close i c)
          | Some msg \<Rightarrow>
             (if \<not> deadlineCleared then (Inl DeadlineFailed, conn_Close i c)
              else case fst msg of
                K_JoinResponse \<Rightarrow> (Inr msg, client_handle msg (c\<lparr>sc_conn := Some i\<rparr>))
              | K_ErrorEvent \<Rightarrow>
                  (Inl SfuError, conn_Close i (client_handle msg (calls_handler ''OnError'' msg (calls_handler ''RawHandler'' msg c))))
              | _ \<Rightarrow> (Inl UnexpectedResponse, conn_Close i c)))"

text \<open>A message read by the read loop, and the end of the loop.\<close>

definition read_ends :: "nat \<Rightarrow> client \<Rightarrow> client" where
  "read_ends i c = (let c = conn_Close i c in if sc_conn c = Some i then c\<lparr>sc_conn := None\<rparr> else c)"

definition Detach :: "client \<Rightarrow> client" where "Detach c = c\<lparr>sc_detached := True\<rparr>"
definition IsDetached :: "client \<Rightarrow> bool" where "IsDetached c = sc_detached c"

definition Close_client :: "client \<Rightarrow> client" where
  "Close_client c = (case sc_conn c of None \<Rightarrow> c | Some i \<Rightarrow> conn_Close i c)"

definition Disconnect :: "bool \<Rightarrow> bool \<Rightarrow> client \<Rightarrow> bool \<times> client" where
  "Disconnect forGood ok c =
    (let c = (if forGood then c\<lparr>sc_disconnected := True\<rparr> else c) in
     case sc_conn c of
       None \<Rightarrow> (False, c)
     | Some i \<Rightarrow>
        (let (err, c) = conn_Disconnect forGood ok i (c\<lparr>sc_conn := None\<rparr>)
         in (err \<and> \<not> cn_closed (sc_conns c ! i), c)))"

text \<open>Whether an error is returned and whether a leave request is written: there has to be a connection, and the write
  has to succeed.\<close>

definition SendLeaveCallRequest :: "bool \<Rightarrow> client \<Rightarrow> bool \<times> bool" where
  "SendLeaveCallRequest written c = (if sc_conn c = None then (False, False) else (\<not> written, written))"

section \<open>Timing\<close>

text \<open>The two loops of one connection. \<open>w_deadline\<close> is the read deadline of the socket, \<open>w_last\<close> the time of the last health
  check response, \<open>w_ping\<close> when the ticker fires next.\<close>

record timing =
  g_interval :: duration
  g_timeout :: duration
  g_readTimeout :: duration

record wire =
  w_now :: time
  w_deadline :: time
  w_last :: time
  w_ping :: time
  w_open :: bool

definition pingReadDeadline :: duration where "pingReadDeadline = 3 * Second"

definition default_timing :: timing where
  "default_timing = \<lparr>g_interval = 5 * Second, g_timeout = 15 * Second, g_readTimeout = 30 * Second\<rparr>"

definition WithHealthCheck :: "duration \<Rightarrow> duration \<Rightarrow> timing \<Rightarrow> timing" where
  "WithHealthCheck interval timeout g =
    (let g = (if interval > 0 then g\<lparr>g_interval := interval\<rparr> else g)
     in if timeout > 0 then g\<lparr>g_timeout := timeout\<rparr> else g)"

definition WithReadTimeout :: "duration \<Rightarrow> timing \<Rightarrow> timing" where
  "WithReadTimeout timeout g = (if timeout > 0 then g\<lparr>g_readTimeout := timeout\<rparr> else g)"

definition start_wire :: "timing \<Rightarrow> time \<Rightarrow> wire" where
  "start_wire g t = \<lparr>w_now = t, w_deadline = t + g_readTimeout g, w_last = t, w_ping = t + g_interval g, w_open = True\<rparr>"

text \<open>The body of the read loop on a message, and that of the ticker loop.\<close>

definition on_message :: "timing \<Rightarrow> bool \<Rightarrow> wire \<Rightarrow> wire" where
  "on_message g healthCheck w =
     w\<lparr>w_last := (if healthCheck then w_now w else w_last w), w_deadline := w_now w + g_readTimeout g\<rparr>"

definition on_ping :: "timing \<Rightarrow> wire \<Rightarrow> wire" where
  "on_ping g w =
    (let w = w\<lparr>w_ping := w_ping w + g_interval g\<rparr> in
     if w_now w - w_last w > g_timeout g then w\<lparr>w_open := False\<rparr>
     else w\<lparr>w_deadline := w_now w + pingReadDeadline\<rparr>)"

text \<open>Steps of an open connection; \<open>True\<close> marks a message. Time passes up to the next ping or deadline.\<close>

inductive wire_step :: "timing \<Rightarrow> bool \<Rightarrow> wire \<Rightarrow> wire \<Rightarrow> bool" for g where
  message: "w_open w \<Longrightarrow> wire_step g True w (on_message g healthCheck w)"
| ping: "w_open w \<Longrightarrow> w_now w = w_ping w \<Longrightarrow> wire_step g False w (on_ping g w)"
| expire: "w_open w \<Longrightarrow> w_now w = w_deadline w \<Longrightarrow> wire_step g False w (w\<lparr>w_open := False\<rparr>)"
| pass: "w_open w \<Longrightarrow> w_now w \<le> t \<Longrightarrow> t \<le> w_ping w \<Longrightarrow> t \<le> w_deadline w \<Longrightarrow> wire_step g False w (w\<lparr>w_now := t\<rparr>)"

inductive_cases wire_stepE: "wire_step g m w w'"

section \<open>Detached clients\<close>

lemma handle_store:
  assumes "store_wf (sc_store c)"
  shows "store_step (OpIntercept e) (sc_store c) = Some (sc_store (client_handle e c)) \<and> store_wf (sc_store (client_handle e c)) \<and>
    sc_detached (client_handle e c) = sc_detached c \<and> (sc_detached c \<longrightarrow> sc_calls (client_handle e c) = sc_calls c \<and> sc_traces (client_handle e c) = sc_traces c)"
proof -
  obtain st where "Intercept e (sc_store c) = Some st" "store_wf st" by (rule Intercept_ok[OF assms, of e])
  then show ?thesis
    by (simp add: store_step_def client_handle_def Let_def calls_handler_def traces_def split: prod.split option.split)
qed

lemma handle_run:
  "store_wf (sc_store c) \<Longrightarrow> store_run (map OpIntercept es) (sc_store c) = Some (sc_store (fold client_handle es c)) \<and>
     (sc_detached c \<longrightarrow> sc_calls (fold client_handle es c) = sc_calls c \<and> sc_traces (fold client_handle es c) = sc_traces c)"
proof (induction es arbitrary: c)
  case (Cons e es)
  note h = handle_store[OF Cons.prems, of e]
  with Cons.IH[of "client_handle e c"] show ?case by simp
qed simp

lemma first_match_events: "first_match a p (map OpIntercept es) = take 1 (filter p es)"
  by (induction es) simp_all

text \<open>A detached client is silent and still listens. Whatever events arrive after \<open>Detach\<close>, no method of the
  handler is called and nothing is traced, while an awaiter registered on its store receives the first event it
  accepts: a migration can wait for its confirmation from the SFU it is leaving.\<close>

theorem detached_client_still_awaits:
  assumes "store_wf (sc_store c)" and "NewEventAwaiter p (sc_store c) = (a, st)"
    and "c' = fold client_handle es (Detach (c\<lparr>sc_store := st\<rparr>))"
  shows "sc_calls c' = sc_calls c \<and> sc_traces c' = sc_traces c \<and> aw_event (st_objects (sc_store c') ! a) = take 1 (filter p es)"
proof -
  define d where "d = Detach (c\<lparr>sc_store := st\<rparr>)"
  have st: "store_step (OpAwaiter p) (sc_store c) = Some st" using assms(2) by (simp add: store_step_def)
  then have wf: "store_wf (sc_store d)" using store_step_wf[OF assms(1), of "OpAwaiter p"] by (simp add: d_def Detach_def)
  have w: "waiting a p (sc_store d)"
    using assms(2) by (auto simp: d_def Detach_def waiting_def NewEventAwaiter_def AddAwaiter_def Let_def nth_append)
  from handle_run[OF wf, of es] waiting_run[OF wf w, of "map OpIntercept es"] show ?thesis
    by (simp add: assms(3) d_def[symmetric] first_match_events) (simp add: d_def Detach_def)
qed

definition new_client :: client where
  "new_client = \<lparr>sc_conns = [], sc_conn = None, sc_store = NewStore, sc_detached = False, sc_disconnected = False, sc_calls = [], sc_traces = []\<rparr>"

theorem detached_client_still_awaits_witness:
  "(\<lambda>c'. sc_calls c' = [] \<and> aw_event (st_objects (sc_store c') ! 0) = [(K_ParticipantMigrationComplete, 4)])
   (fold client_handle [(K_GoAway, 3), (K_ParticipantMigrationComplete, 4), (K_ParticipantMigrationComplete, 5)]
      (Detach (new_client\<lparr>sc_store := snd (NewEventAwaiter (\<lambda>e. fst e = K_ParticipantMigrationComplete) NewStore)\<rparr>)))"
proof -
  define st where "st = snd (NewEventAwaiter (\<lambda>e :: sfu_event. fst e = K_ParticipantMigrationComplete) NewStore)"
  have wf: "store_wf (sc_store new_client)" by (simp add: new_client_def store_wf_def NewStore_def)
  have n: "NewEventAwaiter (\<lambda>e. fst e = K_ParticipantMigrationComplete) (sc_store new_client) = (0, st)"
    by (simp add: st_def new_client_def NewEventAwaiter_def NewStore_def)
  from detached_client_still_awaits[OF wf n refl, of "[(K_GoAway, 3), (K_ParticipantMigrationComplete, 4), (K_ParticipantMigrationComplete, 5)]"]
  show ?thesis unfolding st_def[symmetric] by (simp add: new_client_def)
qed

section \<open>Connecting\<close>

lemma conn_Close_fields [simp]:
  "sc_conn (conn_Close i c) = sc_conn c" "sc_calls (conn_Close i c) = sc_calls c" "sc_conns (conn_Close i c) = (sc_conns c)[i := \<lparr>cn_closed = True\<rparr>]"
  by (simp_all add: conn_Close_def)

lemma handle_fields [simp]: "sc_conns (client_handle e c) = sc_conns c" "sc_conn (client_handle e c) = sc_conn c"
  by (simp_all add: client_handle_def Let_def calls_handler_def traces_def split: option.split prod.split)

lemma calls_handler_fields [simp]: "sc_conns (calls_handler m e c) = sc_conns c" "sc_conn (calls_handler m e c) = sc_conn c"
  by (simp_all add: calls_handler_def)

text \<open>An attempt to connect never leaks a connection. Every way it can end leaves the connections that were there
  alone; unless the SFU answered with a join response, the new one is closed and the client keeps the one
  it had, and after a join response the client's connection is the new, open one. An error response reaches the
  handler twice.\<close>

theorem signal_connect_outcome:
  assumes "Connect dialled written deadlineSet deadlineCleared response c = (r, c')"
  shows "take (length (sc_conns c)) (sc_conns c') = sc_conns c \<and>
    (case r of
       Inr msg \<Rightarrow> response = Some msg \<and> fst msg = K_JoinResponse \<and> sc_conn c' = Some (length (sc_conns c)) \<and>
         sc_conns c' = sc_conns c @ [\<lparr>cn_closed = False\<rparr>]
     | Inl e \<Rightarrow> sc_conn c' = sc_conn c \<and> list_all cn_closed (drop (length (sc_conns c)) (sc_conns c'))) \<and>
    (\<forall>msg. r = Inl SfuError \<and> response = Some msg \<and> store_wf (sc_store c) \<and> \<not> sc_detached c \<longrightarrow>
       sc_calls c' = sc_calls c @ [(''RawHandler'', msg), (''OnError'', msg), (''RawHandler'', msg), (''OnError'', msg)])"
proof -
  have twice: "sc_calls (client_handle msg (calls_handler ''OnError'' msg (calls_handler ''RawHandler'' msg d))) =
      sc_calls d @ [(''RawHandler'', msg), (''OnError'', msg), (''RawHandler'', msg), (''OnError'', msg)]"
    if "store_wf (sc_store d)" "\<not> sc_detached d" "fst msg = K_ErrorEvent" for d msg
  proof -
    note d = that
    obtain st where "Intercept msg (sc_store d) = Some st" by (rule Intercept_ok[OF d(1), of msg])
    with d show ?thesis by (simp add: client_handle_def calls_handler_def traces_def dispatch_def)
  qed
  show ?thesis
  proof (cases response)
    case None
    with assms show ?thesis by (auto simp: Connect_def Let_def traces_def split: if_splits)
  next
    case (Some msg)
    with assms twice show ?thesis
      by (cases "fst msg") (auto simp: Connect_def Let_def traces_def list_update_append split: if_splits)
  qed
qed

theorem signal_connect_outcome_witness:
  "(\<lambda>r. Connect True True True True (Some (K_ErrorEvent, 1)) new_client = r \<and> fst r = Inl SfuError \<and> sc_conn (snd r) = None \<and> length (sc_calls (snd r)) = 4)
   (Connect True True True True (Some (K_ErrorEvent, 1)) new_client)"
proof -
  obtain r c' where c: "Connect True True True True (Some (K_ErrorEvent, 1)) new_client = (r, c')" by fastforce
  then have "r = Inl SfuError" by (simp add: Connect_def Let_def)
  moreover have "store_wf (sc_store new_client)" "\<not> sc_detached new_client" "sc_conn new_client = None" "sc_calls new_client = []"
    by (simp_all add: new_client_def store_wf_def NewStore_def)
  ultimately show ?thesis using signal_connect_outcome[OF c] c by simp
qed

section \<open>Losing the connection\<close>

text \<open>A silent stretch after a health check at time \<open>t\<close>: the deadline stays at most three seconds ahead of the check.\<close>

definition silent_since :: "timing \<Rightarrow> time \<Rightarrow> wire \<Rightarrow> bool" where
  "silent_since g t w \<longleftrightarrow> w_now w \<le> t + pingReadDeadline \<and> w_deadline w \<le> t + pingReadDeadline \<and> w_ping w = t + g_interval g"

lemma silent_step:
  "pingReadDeadline < g_interval g \<Longrightarrow> wire_step g False w w' \<Longrightarrow> silent_since g t w \<Longrightarrow> silent_since g t w'"
  by (erule wire_stepE) (auto simp: silent_since_def)

lemma silent_run:
  assumes "pingReadDeadline < g_interval g" "(wire_step g False)\<^sup>*\<^sup>* w w'" "silent_since g t w"
  shows "silent_since g t w'"
  using assms(2,3) by (induction rule: rtranclp_induct) (auto intro: silent_step[OF assms(1)])

text \<open>A health check gives the SFU three seconds, not the configured timeout. The health check replaces the read deadline of
  the socket: when the checks are more than three seconds apart, as they are by default, and no message
  arrives, no run gets past three seconds after the check, and the connection is lost there, although the last
  response may be well within the timeout.\<close>

theorem signal_health_check_deadline:
  assumes "pingReadDeadline < g_interval g" "w_open w" "w_now w = w_ping w" "w_now w - w_last w \<le> g_timeout g"
  shows "(\<forall>w'. (wire_step g False)\<^sup>*\<^sup>* (on_ping g w) w' \<longrightarrow> w_now w' \<le> w_now w + 3 * Second) \<and>
    (\<exists>w'. (wire_step g False)\<^sup>*\<^sup>* (on_ping g w) w' \<and> w_now w' = w_now w + 3 * Second \<and> \<not> w_open w')"
proof -
  define w1 where "w1 = on_ping g w"
  have w1: "w1 = w\<lparr>w_ping := w_now w + g_interval g, w_deadline := w_now w + pingReadDeadline\<rparr>"
    using assms by (simp add: w1_def on_ping_def)
  have s: "silent_since g (w_now w) w1" by (simp add: w1 silent_since_def pingReadDeadline_def)
  define w2 where "w2 = w1\<lparr>w_now := w_now w + pingReadDeadline\<rparr>"
  have "wire_step g False w1 w2"
    unfolding w2_def using assms by (intro pass) (simp_all add: w1 pingReadDeadline_def)
  moreover have "wire_step g False w2 (w2\<lparr>w_open := False\<rparr>)"
    using assms by (intro expire) (simp_all add: w2_def w1)
  ultimately have "(wire_step g False)\<^sup>*\<^sup>* w1 (w2\<lparr>w_open := False\<rparr>)" by (meson converse_rtranclp_into_rtranclp rtranclp.rtrancl_refl)
  moreover have "w_now (w2\<lparr>w_open := False\<rparr>) = w_now w + 3 * Second" by (simp add: w2_def pingReadDeadline_def)
  moreover have "w_now w' \<le> w_now w + 3 * Second" if "(wire_step g False)\<^sup>*\<^sup>* w1 w'" for w'
    using silent_run[OF assms(1) that s] by (simp add: silent_since_def pingReadDeadline_def)
  ultimately show ?thesis unfolding w1_def[symmetric] by (metis (no_types, lifting) wire.select_convs(5) wire.surjective wire.update_convs(5))
qed

theorem signal_health_check_deadline_witness:
  "(\<lambda>w. w_now w - w_last w = 5 * Second \<and> g_timeout default_timing = 15 * Second \<and>
     (\<exists>w'. (wire_step default_timing False)\<^sup>*\<^sup>* (on_ping default_timing w) w' \<and> w_now w' - w_last w = 8 * Second \<and> \<not> w_open w'))
   ((start_wire default_timing 0)\<lparr>w_now := 5 * Second\<rparr>)"
proof -
  define w where "w = (start_wire default_timing 0)\<lparr>w_now := 5 * Second\<rparr>"
  have f: "w_open w" "w_now w = w_ping w" "w_now w = 5 * Second" "w_last w = 0" by (simp_all add: w_def start_wire_def default_timing_def)
  have "w_now w - w_last w \<le> g_timeout default_timing" "pingReadDeadline < g_interval default_timing"
    using f by (simp_all add: default_timing_def pingReadDeadline_def)
  from signal_health_check_deadline[OF this(2) f(1,2) this(1)] f show ?thesis
    unfolding w_def[symmetric] by (auto simp: default_timing_def)
qed

section \<open>RPCs\<close>

text \<open>The methods of the SFU's RPC service and what of a call is traced: the request before it is sent, the response when there is no error.\<close>

datatype rpc_method =
    R_SetPublisher | R_SendAnswer | R_IceTrickle | R_UpdateSubscriptions | R_UpdateMuteStates | R_IceRestart | R_SendStats | R_SendMetrics
  | R_StartNoiseCancellation | R_StopNoiseCancellation

definition rpc_events :: "rpc_method \<Rightarrow> string option \<times> string option" where
  "rpc_events r =
    (case r of
       R_SetPublisher \<Rightarrow> (Some ''signal.rpc.setpublisher'', Some ''signal.rpc.setpublisher.response'')
     | R_SendAnswer \<Rightarrow> (Some ''signal.rpc.sendanswer'', Some ''signal.rpc.sendanswer.response'')
     | R_IceTrickle \<Rightarrow> (Some ''signal.rpc.icetrickle'', None)
     | R_UpdateSubscriptions \<Rightarrow> (Some ''signal.rpc.updatesubscriptions'', Some ''signal.rpc.updatesubscriptions.response'')
     | R_UpdateMuteStates \<Rightarrow> (Some ''signal.rpc.updatemutestates'', None)
     | R_IceRestart \<Rightarrow> (Some ''signal.rpc.icerestart'', None)
     | R_SendStats \<Rightarrow> (None, None)
     | R_SendMetrics \<Rightarrow> (None, None)
     | R_StartNoiseCancellation \<Rightarrow> (Some ''signal.rpc.startnoisecancellation'', None)
     | R_StopNoiseCancellation \<Rightarrow> (Some ''signal.rpc.stopnoisecancellation'', None))"

text \<open>The answer, an error or a response, goes back to the caller as it is.\<close>

definition call_rpc :: "rpc_method \<Rightarrow> (client \<Rightarrow> 'e + 'r) \<Rightarrow> client \<Rightarrow> ('e + 'r) \<times> client" where
  "call_rpc r send c =
    (let (request, response) = rpc_events r;
         c = (case request of None \<Rightarrow> c | Some t \<Rightarrow> traces t c);
         answer = send c
     in (answer, case (answer, response) of (Inr _, Some t) \<Rightarrow> traces t c | _ \<Rightarrow> c))"

lemma call_rpc_traces:
  "sc_traces (snd (call_rpc r send c)) = sc_traces c @ (case fst (rpc_events r) of None \<Rightarrow> [] | Some t \<Rightarrow> [t]) @
     (case (fst (call_rpc r send c), snd (rpc_events r)) of (Inr _, Some t) \<Rightarrow> [t] | _ \<Rightarrow> [])"
  by (cases r) (simp_all add: call_rpc_def rpc_events_def traces_def Let_def split: sum.split)

end
