(* ===== verification/CallTracks.thy ===== *)
theory CallTracks
  imports Prelude
begin

text \<open>
  What a call publishes and subscribes to: \<open>publish_quality.go\<close>, \<open>publish_options.go\<close> and the track operations of \<open>call.go\<close>. Messages are
  values, so cloning one is the identity and leaves no trace. The RPC to the SFU is an argument, with
  what the SFU did as well as what the client is told; \<open>su_sfu\<close> is what the SFU forwards on the current session.
  The published tracks of a peer are the list in which its set iterates over them; local tracks are numbers.
\<close>

section \<open>Subscriptions\<close>

datatype rpc_result = RpcOk | RpcRefused | RpcLost bool

type_synonym TrackSubscriptionDetails = nat

record subscriptions =
  su_subscribedTracks :: "TrackSubscriptionDetails list"
  su_sentSubscriptions :: "TrackSubscriptionDetails list option"
  su_sfu :: "TrackSubscriptionDetails list option"

definition sameSubscriptions :: "TrackSubscriptionDetails list \<Rightarrow> TrackSubscriptionDetails list \<Rightarrow> bool" where
  "sameSubscriptions current next \<longleftrightarrow> length current = length next \<and> list_all (\<lambda>i. current ! i = next ! i) [0..<length current]"

text \<open>The boolean is whether an error is returned. A lost call fails for the client, but the SFU may have
  applied it.\<close>

definition sendSubscriptions :: "rpc_result \<Rightarrow> TrackSubscriptionDetails list \<Rightarrow> subscriptions \<Rightarrow> bool \<times> subscriptions" where
  "sendSubscriptions r trackDetails s =
    (case r of
       RpcOk \<Rightarrow> (False, s\<lparr>su_sfu := Some trackDetails, su_sentSubscriptions := Some trackDetails\<rparr>)
     | RpcRefused \<Rightarrow> (True, s)
     | RpcLost applied \<Rightarrow> (True, if applied then s\<lparr>su_sfu := Some trackDetails\<rparr> else s))"

definition SubscribeToTracks :: "rpc_result \<Rightarrow> TrackSubscriptionDetails list \<Rightarrow> subscriptions \<Rightarrow> bool \<times> subscriptions" where
  "SubscribeToTracks r trackDetails s =
    (let unchanged = (case su_sentSubscriptions s of None \<Rightarrow> False | Some sent \<Rightarrow> sameSubscriptions sent trackDetails);
         s = s\<lparr>su_subscribedTracks := trackDetails\<rparr>
     in if unchanged then (False, s) else sendSubscriptions r trackDetails s)"

definition restoreSubscribedTracks :: "rpc_result \<Rightarrow> subscriptions \<Rightarrow> bool \<times> subscriptions" where
  "restoreSubscribedTracks r s = sendSubscriptions r (su_subscribedTracks s) s"

text \<open>\<open>initPubAndSub\<close> on a new session: the memo is dropped, and the SFU knows nothing.\<close>

definition new_session :: "subscriptions \<Rightarrow> subscriptions" where
  "new_session s = s\<lparr>su_sentSubscriptions := None, su_sfu := None\<rparr>"

definition getSubscriptions :: "subscriptions \<Rightarrow> TrackSubscriptionDetails list" where
  "getSubscriptions s = su_subscribedTracks s"

section \<open>Published tracks\<close>

record track_info =
  ti_TrackId :: string
  ti_TrackType :: nat
  ti_Mid :: nat

datatype track_call = CallAddTrack track_info nat | CallAddSimulcast track_info "nat list"

text \<open>\<open>pt_peer\<close> is what was added to the current publisher, \<open>None\<close> when there is none.\<close>

record published =
  pt_publishedTracks :: "(track_info \<times> nat list) list"
  pt_peer :: "track_call list option"
  pt_negotiations :: nat

definition peer_call :: "track_info \<Rightarrow> nat list \<Rightarrow> track_call" where
  "peer_call info tracks = (if length tracks = 1 then CallAddTrack info (tracks ! 0) else CallAddSimulcast info tracks)"

text \<open>\<open>AddTrack\<close> and \<open>AddSimulcastTracks\<close> of the call; \<open>ok\<close> is whether the publisher accepts the track. The boolean is whether an error
  is returned.\<close>

definition AddTrack :: "bool \<Rightarrow> track_info \<Rightarrow> nat \<Rightarrow> published \<Rightarrow> bool \<times> published" where
  "AddTrack ok trackInfo track p =
    (let info = trackInfo\<lparr>ti_Mid := length (pt_publishedTracks p)\<rparr>;
         p = p\<lparr>pt_publishedTracks := pt_publishedTracks p @ [(info, [track])]\<rparr>
     in case pt_peer p of
          None \<Rightarrow> (True, p)
        | Some cs \<Rightarrow>
           (if \<not> ok then (True, p)
            else (False, p\<lparr>pt_peer := Some (cs @ [CallAddTrack info track]), pt_negotiations := pt_negotiations p + 1\<rparr>)))"

definition AddSimulcastTracks :: "bool \<Rightarrow> track_info \<Rightarrow> nat list \<Rightarrow> published \<Rightarrow> bool \<times> published" where
  "AddSimulcastTracks ok trackInfo tracks p =
    (let info = trackInfo\<lparr>ti_Mid := length (pt_publishedTracks p)\<rparr>;
         p = p\<lparr>pt_publishedTracks := pt_publishedTracks p @ [(info, tracks)]\<rparr>
     in case pt_peer p of
          None \<Rightarrow> (True, p)
        | Some cs \<Rightarrow>
           (if \<not> ok then (True, p)
            else (False, p\<lparr>pt_peer := Some (cs @ [CallAddSimulcast info tracks]), pt_negotiations := pt_negotiations p + 1\<rparr>)))"

text \<open>The loop of \<open>restorePublishedTracks\<close>; \<open>oks\<close> answers the calls in turn.\<close>

fun restore_loop :: "bool list \<Rightarrow> (track_info \<times> nat list) list \<Rightarrow> track_call list \<Rightarrow> bool \<times> track_call list" where
  "restore_loop oks [] cs = (False, cs)"
| "restore_loop oks ((info, tracks) # ts) cs =
    (case oks of
       True # oks' \<Rightarrow> restore_loop oks' ts (cs @ [peer_call info tracks])
     | _ \<Rightarrow> (True, cs))"

definition restorePublishedTracks :: "bool list \<Rightarrow> published \<Rightarrow> bool \<times> published" where
  "restorePublishedTracks oks p =
    (case pt_peer p of
       None \<Rightarrow> (True, p)
     | Some cs \<Rightarrow>
        (let (err, cs) = restore_loop oks (pt_publishedTracks p) cs; p = p\<lparr>pt_peer := Some cs\<rparr>
         in if err then (True, p) else (False, p\<lparr>pt_negotiations := pt_negotiations p + 1\<rparr>)))"

definition getAnnouncedTracks :: "published \<Rightarrow> track_info list" where
  "getAnnouncedTracks p = map fst (pt_publishedTracks p)"

definition restorePublishedAndSubscribedTracks ::
    "bool list \<Rightarrow> rpc_result \<Rightarrow> published \<Rightarrow> subscriptions \<Rightarrow> bool \<times> published \<times> subscriptions" where
  "restorePublishedAndSubscribedTracks oks r p s =
    (let (err, p) = restorePublishedTracks oks p in
     if err then (True, p, s)
     else let (err, s) = restoreSubscribedTracks r s in (err, p, s))"

section \<open>Publish quality\<close>

record layer_setting =
  ls_Name :: string
  ls_Active :: bool
  ls_MaxBitrate :: int
  ls_MaxFramerate :: uint32
  ls_ScaleResolutionDownBy :: "32 word"
  ls_ScalabilityMode :: string
  ls_Codec :: "nat option"

record video_sender =
  vs_TrackType :: nat
  vs_Codec :: "nat option"
  vs_DegradationPreference :: nat
  vs_Layers :: "layer_setting list"

record PublishQualityTarget =
  pq_RID :: string
  pq_TrackType :: nat
  pq_Active :: bool
  pq_MaxBitrate :: int
  pq_MaxFramerate :: uint32
  pq_ScaleResolutionDownBy :: "32 word"
  pq_ScalabilityMode :: string
  pq_DegradationPreference :: nat
  pq_Codec :: "nat option"

definition publishQualityTarget :: "video_sender \<Rightarrow> layer_setting \<Rightarrow> PublishQualityTarget" where
  "publishQualityTarget sender layer =
     \<lparr>pq_RID = ls_Name layer, pq_TrackType = vs_TrackType sender, pq_Active = ls_Active layer, pq_MaxBitrate = ls_MaxBitrate layer,
      pq_MaxFramerate = ls_MaxFramerate layer, pq_ScaleResolutionDownBy = ls_ScaleResolutionDownBy layer,
      pq_ScalabilityMode = ls_ScalabilityMode layer, pq_DegradationPreference = vs_DegradationPreference sender,
      pq_Codec = (case ls_Codec layer of None \<Rightarrow> vs_Codec sender | Some k \<Rightarrow> Some k)\<rparr>"

text \<open>The tracks of one published media: a local track is its RID and its number; any other implementation is
  \<open>None\<close>.\<close>

record TrackDetails =
  td_TrackType :: nat
  td_Tracks :: "(string \<times> nat) option list"

definition videoTracksByRID :: "TrackDetails list \<Rightarrow> nat \<Rightarrow> (string \<rightharpoonup> nat)" where
  "videoTracksByRID tracks trackType =
    fold (\<lambda>td m. if td_TrackType td \<noteq> trackType then m
                 else fold (\<lambda>tl m. case tl of None \<Rightarrow> m | Some (rid, l) \<Rightarrow> m(rid \<mapsto> l)) (td_Tracks td) m)
      tracks Map.empty"

text \<open>The trace event: the total bitrate in 32 bits, the active layers and all layers.\<close>

definition emitBitrateChange :: "PublishQualityTarget list \<Rightarrow> int \<times> nat \<times> nat" where
  "emitBitrateChange targets =
    (let (bitrate, activeLayers) =
       fold (\<lambda>t (bitrate, n). if \<not> pq_Active t then (bitrate, n) else (i32 (bitrate + pq_MaxBitrate t), n + 1)) targets (0, 0)
     in (bitrate, activeLayers, length targets))"

definition apply_layer :: "(string \<rightharpoonup> nat) \<Rightarrow> layer_setting \<Rightarrow> (nat \<Rightarrow> bool) \<Rightarrow> nat \<Rightarrow> bool" where
  "apply_layer byRID layer muted =
    (case byRID (ls_Name layer) of None \<Rightarrow> muted | Some t \<Rightarrow> muted(t := \<not> ls_Active layer))"

text \<open>\<open>OnChangePublishQuality\<close>: which local tracks are muted afterwards, and the targets handed to the trace and to
  the application's handler, \<open>None\<close> where the event is dropped. The published tracks are \<open>None\<close> without a publisher.\<close>

definition OnChangePublishQuality ::
    "video_sender list \<Rightarrow> TrackDetails list option \<Rightarrow> (nat \<Rightarrow> bool) \<Rightarrow> (nat \<Rightarrow> bool) \<times> PublishQualityTarget list option" where
  "OnChangePublishQuality senders pub muted =
    (if senders = [] then (muted, None)
     else case pub of
       None \<Rightarrow> (muted, None)
     | Some tracks \<Rightarrow>
        fold (\<lambda>sender (muted, targets).
            (fold (apply_layer (videoTracksByRID tracks (vs_TrackType sender))) (vs_Layers sender) muted,
             map_option (\<lambda>ts. ts @ map (publishQualityTarget sender) (vs_Layers sender)) targets))
          senders (muted, Some []))"

section \<open>Publish options\<close>

text \<open>The options kept, and the options the application's handler is called with, if it is.\<close>

definition setPublishOptions :: "nat list \<Rightarrow> nat list \<Rightarrow> nat list \<times> nat list option" where
  "setPublishOptions opts current = (if opts = [] then (current, None) else (opts, Some opts))"

definition OnChangePublishOptions :: "nat list \<Rightarrow> nat list \<Rightarrow> nat list \<times> nat list option" where
  "OnChangePublishOptions opts current = setPublishOptions opts current"

section \<open>Properties\<close>

lemma sameSubscriptions_eq [simp]: "sameSubscriptions a b \<longleftrightarrow> a = b"
  by (auto simp: sameSubscriptions_def list_all_iff intro: nth_equalityI)

text \<open>Operations on the subscriptions, in sequence.\<close>

datatype subs_op = Subscribe rpc_result "TrackSubscriptionDetails list" | Restore rpc_result | NewSession

definition subs_step :: "subs_op \<Rightarrow> subscriptions \<Rightarrow> bool \<times> subscriptions" where
  "subs_step q s =
    (case q of
       Subscribe r ts \<Rightarrow> SubscribeToTracks r ts s
     | Restore r \<Rightarrow> restoreSubscribedTracks r s
     | NewSession \<Rightarrow> (True, new_session s))"

definition certain :: "subs_op \<Rightarrow> bool" where
  "certain q \<longleftrightarrow> (case q of Subscribe r _ \<Rightarrow> r \<noteq> RpcLost True | Restore r \<Rightarrow> r \<noteq> RpcLost True | NewSession \<Rightarrow> True)"

definition memo_ok :: "subscriptions \<Rightarrow> bool" where
  "memo_ok s \<longleftrightarrow> su_sentSubscriptions s = None \<or> su_sentSubscriptions s = su_sfu s"

lemma subs_step_ok:
  "memo_ok s \<Longrightarrow> certain q \<Longrightarrow> subs_step q s = (err, s') \<Longrightarrow> memo_ok s' \<and> (\<not> err \<longrightarrow> su_sfu s' = Some (su_subscribedTracks s'))"
  by (auto simp: subs_step_def certain_def memo_ok_def SubscribeToTracks_def restoreSubscribedTracks_def sendSubscriptions_def
      new_session_def Let_def split: subs_op.splits rpc_result.splits option.splits if_splits)

lemma subs_run_ok: "memo_ok s \<Longrightarrow> list_all certain qs \<Longrightarrow> memo_ok (fold (\<lambda>q s. snd (subs_step q s)) qs s)"
proof (induction qs arbitrary: s)
  case (Cons q qs)
  then show ?case using subs_step_ok[of s q "fst (subs_step q s)" "snd (subs_step q s)"] by simp
qed simp

definition new_subscriptions :: subscriptions where
  "new_subscriptions = \<lparr>su_subscribedTracks = [], su_sentSubscriptions = None, su_sfu = None\<rparr>"



text \<open>The settings of an event in order, each with the sender it belongs to.\<close>

definition settings :: "video_sender list \<Rightarrow> (video_sender \<times> layer_setting) list" where
  "settings senders = concat (map (\<lambda>s. map (Pair s) (vs_Layers s)) senders)"

definition addresses :: "TrackDetails list \<Rightarrow> nat \<Rightarrow> video_sender \<times> layer_setting \<Rightarrow> bool" where
  "addresses tracks t = (\<lambda>(s, l). videoTracksByRID tracks (vs_TrackType s) (ls_Name l) = Some t)"

lemma fold_apply_layer:
  "fold (\<lambda>(s, l). apply_layer (videoTracksByRID tracks (vs_TrackType s)) l) xs muted t =
     (case rev (filter (addresses tracks t) xs) of [] \<Rightarrow> muted t | (s, l) # _ \<Rightarrow> \<not> ls_Active l)"
proof (induction xs arbitrary: muted)
  case (Cons x xs)
  obtain s l where x: "x = (s, l)" by fastforce
  have "apply_layer (videoTracksByRID tracks (vs_TrackType s)) l muted t = (if addresses tracks t x then \<not> ls_Active l else muted t)"
    by (simp add: x apply_layer_def addresses_def split: option.split)
  with Cons x show ?case by (cases "rev (filter (addresses tracks t) xs)") auto
qed simp

lemma quality_fold:
  "fold (\<lambda>sender (muted, targets).
       (fold (apply_layer (videoTracksByRID tracks (vs_TrackType sender))) (vs_Layers sender) muted,
        map_option (\<lambda>ts. ts @ map (publishQualityTarget sender) (vs_Layers sender)) targets)) senders (muted, Some ts) =
   (fold (\<lambda>(s, l). apply_layer (videoTracksByRID tracks (vs_TrackType s)) l) (settings senders) muted,
    Some (ts @ map (\<lambda>(s, l). publishQualityTarget s l) (settings senders)))"
  by (induction senders arbitrary: muted ts) (simp_all add: settings_def fold_map comp_def)

lemma bitrate_fold:
  "fold (\<lambda>t (bitrate, n). if \<not> pq_Active t then (bitrate, n) else (i32 (bitrate + pq_MaxBitrate t), n + 1)) targets (i32 b, n) =
     (i32 (b + sum_list (map pq_MaxBitrate (filter pq_Active targets))), n + length (filter pq_Active targets))"
proof (induction targets arbitrary: b n)
  case (Cons t targets)
  have "i32 (i32 b + pq_MaxBitrate t) = i32 (b + pq_MaxBitrate t)"
    unfolding i32_def by (metis signed_take_bit_add signed_take_bit_signed_take_bit order.refl min.idem)
  with Cons.IH[of "b + pq_MaxBitrate t" "n + 1"] Cons.IH[of b n] show ?case by (simp add: add.assoc)
qed simp

text \<open>A change of the publish quality is applied as asked. A local track ends up muted exactly when the last setting
  that names its type and RID switches its layer off, and every other track keeps its state; the targets are
  reported in order, one for each setting, and the traced bitrate is the sum over the active layers in 32 bits. Without a
  publisher or without senders nothing happens.\<close>

theorem publish_quality_applied:
  assumes "senders \<noteq> []"
  shows "\<exists>muted' targets. OnChangePublishQuality senders (Some tracks) muted = (muted', Some targets) \<and>
    (\<forall>t. muted' t = (case rev (filter (addresses tracks t) (settings senders)) of [] \<Rightarrow> muted t | (s, l) # _ \<Rightarrow> \<not> ls_Active l)) \<and>
    targets = map (\<lambda>(s, l). publishQualityTarget s l) (settings senders) \<and>
    fst (emitBitrateChange targets) = i32 (sum_list (map pq_MaxBitrate (filter pq_Active targets))) \<and>
    OnChangePublishQuality senders None muted = (muted, None)"
proof -
  have "OnChangePublishQuality senders (Some tracks) muted =
      (fold (\<lambda>(s, l). apply_layer (videoTracksByRID tracks (vs_TrackType s)) l) (settings senders) muted,
       Some (map (\<lambda>(s, l). publishQualityTarget s l) (settings senders)))"
    using assms quality_fold[of tracks senders muted "[]"] by (simp add: OnChangePublishQuality_def)
  moreover have "fst (emitBitrateChange ts) = i32 (sum_list (map pq_MaxBitrate (filter pq_Active ts)))" for ts
    using bitrate_fold[of ts 0 0] by (simp add: emitBitrateChange_def i32_def)
  ultimately show ?thesis using assms by (simp add: fold_apply_layer OnChangePublishQuality_def)
qed

definition sample_layer :: "string \<Rightarrow> bool \<Rightarrow> layer_setting" where
  "sample_layer n a = \<lparr>ls_Name = n, ls_Active = a, ls_MaxBitrate = 1000, ls_MaxFramerate = 30, ls_ScaleResolutionDownBy = 0,
     ls_ScalabilityMode = [], ls_Codec = None\<rparr>"

theorem publish_quality_applied_witness:
  "(\<lambda>senders tracks. \<exists>muted' targets. OnChangePublishQuality senders (Some tracks) (\<lambda>_. False) = (muted', Some targets) \<and>
      muted' 1 \<and> \<not> muted' 2 \<and> \<not> muted' 3 \<and> length targets = 2)
   [\<lparr>vs_TrackType = 2, vs_Codec = None, vs_DegradationPreference = 0, vs_Layers = [sample_layer ''f'' False, sample_layer ''q'' True]\<rparr>]
   [\<lparr>td_TrackType = 2, td_Tracks = [Some (''f'', 1), Some (''q'', 2)]\<rparr>, \<lparr>td_TrackType = 3, td_Tracks = [Some (''f'', 3)]\<rparr>]"
proof -
  define senders tracks where
    "senders = [\<lparr>vs_TrackType = 2, vs_Codec = None, vs_DegradationPreference = 0, vs_Layers = [sample_layer ''f'' False, sample_layer ''q'' True]\<rparr>]"
    and "tracks = [\<lparr>td_TrackType = 2, td_Tracks = [Some (''f'', 1), Some (''q'', 2)]\<rparr>, \<lparr>td_TrackType = 3, td_Tracks = [Some (''f'', 3 :: nat)]\<rparr>]"
  have ne: "senders \<noteq> []" by (simp add: senders_def)
  obtain muted' targets where r: "OnChangePublishQuality senders (Some tracks) (\<lambda>_. False) = (muted', Some targets)"
      "\<And>t. muted' t = (case rev (filter (addresses tracks t) (settings senders)) of [] \<Rightarrow> False | (s, l) # _ \<Rightarrow> \<not> ls_Active l)"
      "targets = map (\<lambda>(s, l). publishQualityTarget s l) (settings senders)"
    using publish_quality_applied[OF ne, of tracks "\<lambda>_. False"] by blast
  have "muted' 1" "\<not> muted' 2" "\<not> muted' 3" "length targets = 2"
    unfolding r(2,3) by (simp_all add: senders_def tracks_def settings_def addresses_def videoTracksByRID_def sample_layer_def)
  with r(1) show ?thesis unfolding senders_def[symmetric] tracks_def[symmetric] by blast
qed

section \<open>Restoring published tracks\<close>

lemma restore_loop_all: "restore_loop (replicate (length ts) True) ts cs = (False, cs @ map (\<lambda>(info, tracks). peer_call info tracks) ts)"
  by (induction ts arbitrary: cs) auto

text \<open>After a reconnect the new publisher is given every track that was recorded, under the same info and in the same
  order, and negotiates once. That includes a track whose \<open>AddTrack\<close> returned an error.\<close>

lemma restore_publishes_all:
  assumes "pt_peer p = Some []"
  shows "restorePublishedTracks (replicate (length (pt_publishedTracks p)) True) p =
    (False, p\<lparr>pt_peer := Some (map (\<lambda>(info, tracks). peer_call info tracks) (pt_publishedTracks p)), pt_negotiations := pt_negotiations p + 1\<rparr>)"
  using assms by (simp add: restorePublishedTracks_def restore_loop_all)

lemma add_track_error_recorded:
  "pt_peer p = None \<or> \<not> ok \<Longrightarrow> AddTrack ok info t p = (True, p\<lparr>pt_publishedTracks := pt_publishedTracks p @ [(info\<lparr>ti_Mid := length (pt_publishedTracks p)\<rparr>, [t])]\<rparr>)"
  by (auto simp: AddTrack_def Let_def split: option.split)

end
