(* ===== verification/RateLimit.thy ===== *)
theory RateLimit
  imports Prelude
begin

text \<open>
  The sliding-window limiter, \<open>internal/ratelimit/sliding_window.go\<close>, which bounds how often a call
  may rejoin. The clock is an argument: \<open>Allow\<close> reads it twice, so it takes two times. The limiter's
  contract is the locale \<open>budget\<close>; the lemmas show that it holds for \<open>SlidingWindow\<close>, whatever the
  sequence of calls.
\<close>

record sliding_window =
  limit :: int
  win :: duration
  events :: "time list"

definition New :: "int \<Rightarrow> duration \<Rightarrow> sliding_window" where
  "New l w = \<lparr>limit = l, win = w, events = []\<rparr>"

text \<open>The loop of \<open>evictLocked\<close> counts the leading events that are not after the cutoff.\<close>

fun evict_keep :: "time \<Rightarrow> time list \<Rightarrow> nat" where
  "evict_keep cutoff [] = 0"
| "evict_keep cutoff (at # ats) = (if at > cutoff then 0 else Suc (evict_keep cutoff ats))"

definition evictLocked :: "sliding_window \<Rightarrow> time \<Rightarrow> sliding_window" where
  "evictLocked s now =
    (let keep = evict_keep (now - win s) (events s) in
     if keep > 0 then s\<lparr>events := drop keep (events s)\<rparr> else s)"

definition Allow :: "sliding_window \<Rightarrow> time \<Rightarrow> time \<Rightarrow> bool \<times> sliding_window" where
  "Allow s now now' =
    (if limit s \<le> 0 then (True, s)
     else
       let s = evictLocked s now in
       if int (length (events s)) \<ge> limit s then (False, s)
       else (True, s\<lparr>events := events s @ [now']\<rparr>))"

definition Remaining :: "sliding_window \<Rightarrow> time \<Rightarrow> int \<times> sliding_window" where
  "Remaining s now =
    (if limit s \<le> 0 then (- 1, s)
     else
       let s = evictLocked s now; remaining = limit s - int (length (events s)) in
       (if remaining > 0 then remaining else 0, s))"

definition Reset :: "sliding_window \<Rightarrow> sliding_window" where
  "Reset s = s\<lparr>events := []\<rparr>"

section \<open>Eviction\<close>

lemma evict_keep_drop: "drop (evict_keep c ats) ats = dropWhile (\<lambda>at. at \<le> c) ats"
  by (induction ats) auto

lemma evictLocked_events: "events (evictLocked s now) = dropWhile (\<lambda>at. at \<le> now - win s) (events s)"
  by (auto simp: evictLocked_def Let_def simp flip: evict_keep_drop)

lemma evictLocked_config [simp]: "limit (evictLocked s now) = limit s" "win (evictLocked s now) = win s"
  by (auto simp: evictLocked_def Let_def)

lemma Allow_config [simp]: "limit (snd (Allow s now now')) = limit s" "win (snd (Allow s now now')) = win s"
  by (auto simp: Allow_def Let_def)

section \<open>The contract of a budget\<close>

text \<open>Readings that never go back.\<close>

fun clock_ok :: "time \<Rightarrow> (time \<times> time) list \<Rightarrow> bool" where
  "clock_ok now [] = True"
| "clock_ok now ((t, t') # calls) \<longleftrightarrow> now \<le> t \<and> t \<le> t' \<and> clock_ok t' calls"

text \<open>A budget answers timed requests; \<open>granted\<close> lists the times it still remembers. A request
  is refused exactly when the remembered grants fill the limit, and a grant is forgotten only
  once it is a whole window old.\<close>

locale budget =
  fixes ask :: "'s \<Rightarrow> time \<Rightarrow> time \<Rightarrow> bool \<times> 's"
    and granted :: "'s \<Rightarrow> time list"
    and cap :: "'s \<Rightarrow> nat"
    and span :: "'s \<Rightarrow> duration"
    and inv :: "'s \<Rightarrow> bool"
  assumes ask_grant: "inv s \<Longrightarrow> fst (ask s t t') \<Longrightarrow>
      \<exists>old rest. granted s = old @ rest \<and> (\<forall>x \<in> set old. x \<le> t - span s) \<and>
        granted (snd (ask s t t')) = rest @ [t'] \<and> length rest < cap s"
    and ask_refuse: "inv s \<Longrightarrow> \<not> fst (ask s t t') \<Longrightarrow>
      \<exists>old. granted s = old @ granted (snd (ask s t t')) \<and> (\<forall>x \<in> set old. x \<le> t - span s)"
    and ask_config: "inv s \<Longrightarrow> inv (snd (ask s t t'))" "inv s \<Longrightarrow> cap (snd (ask s t t')) = cap s"
      "inv s \<Longrightarrow> span (snd (ask s t t')) = span s"
begin

text \<open>The times granted in a sequence of requests, each with its two clock readings.\<close>

fun grants :: "'s \<Rightarrow> (time \<times> time) list \<Rightarrow> time list" where
  "grants s [] = []"
| "grants s ((t, t') # calls) =
    (if fst (ask s t t') then [t'] else []) @ grants (snd (ask s t t')) calls"

definition in_window :: "duration \<Rightarrow> time \<Rightarrow> time list \<Rightarrow> time list" where
  "in_window w t xs = filter (\<lambda>x. t - w < x \<and> x \<le> t) xs"

lemma in_window_append: "in_window w t (xs @ ys) = in_window w t xs @ in_window w t ys"
  by (simp add: in_window_def)

lemma in_window_old: "\<forall>x \<in> set xs. x \<le> t - w \<Longrightarrow> in_window w t xs = []"
  by (auto simp: in_window_def filter_empty_conv)

lemma in_window_new: "t < x \<Longrightarrow> in_window w t [x] = []"
  by (simp add: in_window_def)

lemma length_in_window: "length (in_window w t xs) \<le> length xs"
  by (simp add: in_window_def)

text \<open>The invariant behind the bound: the grants so far are the forgotten ones, each a window
  old by the last reading \<open>now\<close>, followed by the remembered ones.\<close>

definition consistent :: "'s \<Rightarrow> time list \<Rightarrow> time \<Rightarrow> bool" where
  "consistent s acc now \<longleftrightarrow> inv s \<and> (\<exists>old. acc = old @ granted s \<and> (\<forall>x \<in> set old. x \<le> now - span s)) \<and>
     (\<forall>t. length (in_window (span s) t acc) \<le> cap s)"

lemma consistent_later: "consistent s acc now \<Longrightarrow> now \<le> now' \<Longrightarrow> consistent s acc now'"
  unfolding consistent_def by fastforce

lemma consistent_ask:
  assumes "consistent s acc t" "t \<le> t'"
  shows "consistent (snd (ask s t t')) (acc @ (if fst (ask s t t') then [t'] else [])) t'"
proof -
  obtain old where old: "acc = old @ granted s" "\<forall>x \<in> set old. x \<le> t - span s" and i: "inv s"
    and cap: "\<And>u. length (in_window (span s) u acc) \<le> cap s"
    using assms(1) by (auto simp: consistent_def)
  show ?thesis
  proof (cases "fst (ask s t t')")
    case True
    then obtain old' rest where g: "granted s = old' @ rest" "\<forall>x \<in> set old'. x \<le> t - span s"
      "granted (snd (ask s t t')) = rest @ [t']" "length rest < cap s"
      using ask_grant [OF i True] by blast
    let ?old = "old @ old'"
    have o: "\<forall>x \<in> set ?old. x \<le> t' - span s"
      using old(2) g(2) assms(2) by fastforce
    have "length (in_window (span s) u (acc @ [t'])) \<le> cap s" for u
    proof (cases "u < t'")
      case True
      then show ?thesis using cap by (simp add: in_window_append in_window_new)
    next
      case False
      then have "in_window (span s) u ?old = []"
        using o by (intro in_window_old) fastforce
      then have "in_window (span s) u (acc @ [t']) = in_window (span s) u (rest @ [t'])"
        using old(1) g(1) by (simp add: in_window_append)
      also have "length \<dots> \<le> cap s"
        using g(4) length_in_window [of "span s" u "rest @ [t']"] by simp
      finally show ?thesis .
    qed
    then show ?thesis
      using True i old(1) g(1,3) o by (auto simp: consistent_def ask_config intro!: exI [of _ ?old])
  next
    case False
    then obtain old' where g: "granted s = old' @ granted (snd (ask s t t'))"
      "\<forall>x \<in> set old'. x \<le> t - span s"
      using ask_refuse [OF i False] by blast
    have "\<forall>x \<in> set (old @ old'). x \<le> t' - span s"
      using old(2) g(2) assms(2) by fastforce
    moreover have "acc = (old @ old') @ granted (snd (ask s t t'))"
      using old(1) g(1) by simp
    ultimately show ?thesis
      using False i cap ask_config(1) [OF i] unfolding consistent_def ask_config(2,3) [OF i]
      by (auto intro!: exI [of _ "old @ old'"])
  qed
qed

lemma grants_bounded:
  assumes "consistent s acc now" "clock_ok now calls"
  shows "length (in_window (span s) t (acc @ grants s calls)) \<le> cap s"
  using assms
proof (induction calls arbitrary: s acc now)
  case Nil
  then show ?case by (simp add: consistent_def)
next
  case (Cons c calls)
  obtain a b where c: "c = (a, b)" by fastforce
  have "consistent s acc a"
    using Cons.prems c consistent_later by simp
  then have s': "consistent (snd (ask s a b)) (acc @ (if fst (ask s a b) then [b] else [])) b"
    using consistent_ask Cons.prems c by simp
  have i: "inv s"
    using Cons.prems by (simp add: consistent_def)
  from Cons.IH [OF s'] show ?case
    using Cons.prems c ask_config [OF i] by simp
qed

end

interpretation sw: budget Allow events "\<lambda>s. nat (limit s)" win "\<lambda>s. 0 < limit s"
proof unfold_locales
  fix s :: sliding_window and t t' :: time
  let ?old = "takeWhile (\<lambda>at. at \<le> t - win s) (events s)"
  have split: "events s = ?old @ events (evictLocked s t)"
    by (simp add: evictLocked_events)
  have old: "\<forall>x \<in> set ?old. x \<le> t - win s"
    by (auto dest: set_takeWhileD)
  assume l: "0 < limit s"
  show "\<exists>old rest. events s = old @ rest \<and> (\<forall>x \<in> set old. x \<le> t - win s) \<and>
      events (snd (Allow s t t')) = rest @ [t'] \<and> length rest < nat (limit s)" if "fst (Allow s t t')"
    using split old l that
    by (intro exI [of _ ?old] exI [of _ "events (evictLocked s t)"])
       (auto simp: Allow_def Let_def split: if_splits)
  show "\<exists>old. events s = old @ events (snd (Allow s t t')) \<and> (\<forall>x \<in> set old. x \<le> t - win s)"
    if "\<not> fst (Allow s t t')"
    using split old l that
    by (intro exI [of _ ?old]) (auto simp: Allow_def Let_def split: if_splits)
qed simp_all

lemma sw_fresh: "0 < l \<Longrightarrow> sw.consistent (New l w) [] now"
  by (simp add: sw.consistent_def New_def sw.in_window_def)

text \<open>The times a limiter grants in a sequence of calls of \<open>Allow\<close>.\<close>

fun allow_times :: "sliding_window \<Rightarrow> (time \<times> time) list \<Rightarrow> time list" where
  "allow_times s [] = []"
| "allow_times s ((now, now') # calls) =
    (case Allow s now now' of
       (True, s') \<Rightarrow> now' # allow_times s' calls
     | (False, s') \<Rightarrow> allow_times s' calls)"

lemma allow_times_grants: "allow_times s calls = sw.grants s calls"
  by (induction s calls rule: allow_times.induct) (auto split: prod.split bool.split)

section \<open>Properties\<close>

text \<open>C16: at most \<open>limit\<close> events are allowed in any period one window long. For every sequence of
  calls to a new limiter, at clock readings that never go back, the number of granted times in
  any interval \<open>(t - window, t]\<close> is at most the limit.\<close>

theorem ratelimit_any_window:
  assumes "0 < l" "clock_ok now calls"
  shows "int (length (filter (\<lambda>x. t - w < x \<and> x \<le> t) (allow_times (New l w) calls))) \<le> l"
proof -
  have "length (sw.in_window (win (New l w)) t ([] @ sw.grants (New l w) calls)) \<le> nat (limit (New l w))"
    by (rule sw.grants_bounded [OF sw_fresh [OF assms(1)] assms(2)])
  then show ?thesis
    using assms(1) by (simp add: sw.in_window_def New_def allow_times_grants)
qed

theorem ratelimit_any_window_witness:
  "int (length (filter (\<lambda>x. 5 - 10 < x \<and> x \<le> 5)
     (allow_times (New 2 10) [(0, 0), (1, 2), (3, 3), (11, 11), (12, 12)]))) \<le> 2"
  by (rule ratelimit_any_window [of _ 0]) simp_all

text \<open>The limiter never refuses while there is budget: \<open>Allow\<close> answers yes exactly when the
  limiter is off or \<open>Remaining\<close> at that moment is positive, a grant records one more event and a
  refusal none, and after \<open>Reset\<close> the full budget is back.\<close>

theorem ratelimit_allow_iff_remaining:
  "(fst (Allow s now now') \<longleftrightarrow> fst (Remaining s now) \<noteq> 0) \<and>
   events (snd (Allow s now now')) = events (snd (Remaining s now)) @
     (if limit s > 0 \<and> fst (Remaining s now) > 0 then [now'] else []) \<and>
   fst (Remaining (Reset s) now) = (if limit s > 0 then limit s else - 1)"
  by (auto simp: Allow_def Remaining_def Let_def Reset_def evictLocked_events)

end
