(* ===== verification/Reconnect.thy ===== *)
theory Reconnect
  imports RateLimit
begin

text \<open>
  How a call recovers its connection: \<open>reconnect.go\<close> (configuration, backoff, the choice and the
  escalation of strategies), and of \<open>call.go\<close> the health monitor, the outage marks and the
  retries of a first join. The reconnect strategies are an enumeration of the SFU's protocol
  buffers, code outside the repository that the source compares and increments as numbers: its
  constants are the argument \<open>S\<close>, and \<open>proto_numbers\<close> is the numbering it is published with. The
  monitor loop is a machine whose steps interleave with strategy changes from other goroutines;
  the reconnect itself, the clock and the peer connections answer through the steps' arguments.
\<close>

record strategy_enum =
  UNSPECIFIED :: int
  DISCONNECT :: int
  FAST :: int
  REJOIN :: int
  MIGRATE :: int

definition proto_numbers :: "strategy_enum \<Rightarrow> bool" where
  "proto_numbers S \<longleftrightarrow> UNSPECIFIED S = 0 \<and> DISCONNECT S = 1 \<and> FAST S = 2 \<and> REJOIN S = 3 \<and> MIGRATE S = 4"

definition published_enum :: strategy_enum where
  "published_enum = \<lparr>UNSPECIFIED = 0, DISCONNECT = 1, FAST = 2, REJOIN = 3, MIGRATE = 4\<rparr>"

section \<open>Configuration\<close>

record ReconnectConfig =
  InitialBackoff :: duration
  MaxBackoff :: duration
  MaxFastAttempts :: int
  FallbackFastReconnectDeadline :: duration
  RejoinLimit :: int
  RejoinWindow :: duration
  DisconnectionTimeout :: duration
  MigrationCompleteTimeout :: duration

definition initialReconnectBackoff :: duration where "initialReconnectBackoff = 100 * Millisecond"
definition maxReconnectBackoff :: duration where "maxReconnectBackoff = 5 * Second"
definition livenessPollInterval :: duration where "livenessPollInterval = Second"
definition defaultMaxFastReconnectAttempts :: int where "defaultMaxFastReconnectAttempts = 3"
definition defaultFastReconnectDeadline :: duration where "defaultFastReconnectDeadline = 3 * Second"
definition defaultRejoinLimit :: int where "defaultRejoinLimit = 10"
definition defaultRejoinWindow :: duration where "defaultRejoinWindow = 120 * Second"
definition defaultMigrationCompleteTimeout :: duration where "defaultMigrationCompleteTimeout = 7 * Second"

lemmas reconnect_consts = initialReconnectBackoff_def maxReconnectBackoff_def
  defaultMaxFastReconnectAttempts_def defaultFastReconnectDeadline_def defaultRejoinLimit_def
  defaultRejoinWindow_def defaultMigrationCompleteTimeout_def

definition defaultReconnectConfig :: ReconnectConfig where
  "defaultReconnectConfig =
    \<lparr>InitialBackoff = initialReconnectBackoff, MaxBackoff = maxReconnectBackoff,
     MaxFastAttempts = defaultMaxFastReconnectAttempts,
     FallbackFastReconnectDeadline = defaultFastReconnectDeadline, RejoinLimit = defaultRejoinLimit,
     RejoinWindow = defaultRejoinWindow, DisconnectionTimeout = 0,
     MigrationCompleteTimeout = defaultMigrationCompleteTimeout\<rparr>"

definition withDefaults :: "ReconnectConfig \<Rightarrow> ReconnectConfig" where
  "withDefaults c =
    (let d = defaultReconnectConfig; pick = (\<lambda>f. if f c \<le> 0 then f d else f c) in
     \<lparr>InitialBackoff = pick InitialBackoff, MaxBackoff = pick MaxBackoff,
      MaxFastAttempts = pick MaxFastAttempts,
      FallbackFastReconnectDeadline = pick FallbackFastReconnectDeadline,
      RejoinLimit = pick RejoinLimit, RejoinWindow = pick RejoinWindow,
      DisconnectionTimeout = DisconnectionTimeout c,
      MigrationCompleteTimeout = pick MigrationCompleteTimeout\<rparr>)"

definition nextReconnectBackoff :: "ReconnectConfig \<Rightarrow> duration \<Rightarrow> duration" where
  "nextReconnectBackoff c backoff =
    (if backoff \<ge> MaxBackoff c then MaxBackoff c else min (i64 (2 * backoff)) (MaxBackoff c))"

definition escalateReconnectStrategy :: "strategy_enum \<Rightarrow> int \<Rightarrow> int" where
  "escalateReconnectStrategy S current =
    (if current = DISCONNECT S then current
     else if current = MIGRATE S then REJOIN S
     else if current < REJOIN S then current + 1
     else current)"

definition newRejoinLimiter :: "ReconnectConfig \<Rightarrow> sliding_window" where
  "newRejoinLimiter cfg = New (RejoinLimit cfg) (RejoinWindow cfg)"

definition consumesRejoinBudget :: "strategy_enum \<Rightarrow> int \<Rightarrow> bool" where
  "consumesRejoinBudget S strategy \<longleftrightarrow> strategy = REJOIN S \<or> strategy = MIGRATE S"

section \<open>The health monitor\<close>

datatype CallConnectionState = Connecting | Connected | Migrating | Disconnected

text \<open>Where the loop of \<open>monitorHealth\<close> is: at its top, inside \<open>runReconnect\<close> with the strategy it
  chose, or returned.\<close>

datatype monitor_at = Top | Reconnecting int | Returned

text \<open>The fields of \<open>Call\<close> the monitor uses. \<open>m_disconnectedSince\<close> is \<open>None\<close> for zero nanoseconds;
  \<open>m_backoff\<close> is the loop's variable. \<open>m_attempts\<close> records every reconnect the monitor starts, with
  the time the limiter was asked, \<open>m_epoch\<close> those since the last successful one, \<open>m_errors\<close> the
  calls of the unretryable error handler.\<close>

record monitor =
  m_cfg :: ReconnectConfig
  m_reconnectBackoff :: duration
  m_connState :: CallConnectionState
  m_next :: int
  m_disconnectedSince :: "time option"
  m_fastReconnectAttempts :: uint32
  m_fastDeadlineSeconds :: int
  m_limiter :: sliding_window
  m_backoff :: duration
  m_at :: monitor_at
  m_attempts :: "(int \<times> time) list"
  m_epoch :: "(int \<times> time) list"
  m_errors :: nat

definition markDisconnected :: "time \<Rightarrow> monitor \<Rightarrow> monitor" where
  "markDisconnected now m =
    (if m_disconnectedSince m = None then m\<lparr>m_disconnectedSince := Some now\<rparr> else m)"

definition markConnected :: "monitor \<Rightarrow> monitor" where
  "markConnected m = m\<lparr>m_disconnectedSince := None, m_fastReconnectAttempts := 0,
     m_limiter := Reset (m_limiter m), m_epoch := []\<rparr>"

definition abandonCall :: "strategy_enum \<Rightarrow> monitor \<Rightarrow> monitor" where
  "abandonCall S m = m\<lparr>m_next := DISCONNECT S, m_errors := m_errors m + 1\<rparr>"

definition fastReconnectDeadline :: "monitor \<Rightarrow> duration" where
  "fastReconnectDeadline m =
    (if m_fastDeadlineSeconds m > 0 then i64 (m_fastDeadlineSeconds m * Second)
     else FallbackFastReconnectDeadline (m_cfg m))"

text \<open>\<open>uint32(MaxFastAttempts)\<close> truncates. \<open>pub\<close> and \<open>sub\<close> are the health of the peers, \<open>None\<close> for a
  nil peer.\<close>

definition canFastReconnect :: "time \<Rightarrow> bool option \<Rightarrow> bool option \<Rightarrow> monitor \<Rightarrow> bool" where
  "canFastReconnect now pub sub m \<longleftrightarrow>
     \<not> m_fastReconnectAttempts m \<ge> word_of_int (MaxFastAttempts (m_cfg m)) \<and>
     \<not> (case m_disconnectedSince m of None \<Rightarrow> False | Some since \<Rightarrow> now - since > fastReconnectDeadline m) \<and>
     pub = Some True \<and> sub = Some True"

definition selectReconnectStrategy ::
    "strategy_enum \<Rightarrow> time \<Rightarrow> bool option \<Rightarrow> bool option \<Rightarrow> monitor \<Rightarrow> int \<Rightarrow> int" where
  "selectReconnectStrategy S now pub sub m requested =
    (if requested \<noteq> FAST S then requested
     else if canFastReconnect now pub sub m then requested else REJOIN S)"

definition start_monitor :: "strategy_enum \<Rightarrow> ReconnectConfig \<Rightarrow> int \<Rightarrow> monitor" where
  "start_monitor S cfg secs = markConnected
    \<lparr>m_cfg = cfg, m_reconnectBackoff = InitialBackoff cfg, m_connState = Connected, m_next = REJOIN S,
     m_disconnectedSince = None, m_fastReconnectAttempts = 0, m_fastDeadlineSeconds = secs,
     m_limiter = newRejoinLimiter cfg, m_backoff = InitialBackoff cfg, m_at = Top, m_attempts = [],
     m_epoch = [], m_errors = 0\<rparr>"

definition leave_loop :: "monitor \<Rightarrow> monitor" where
  "leave_loop m = m\<lparr>m_at := Returned, m_connState := Disconnected\<rparr>"

text \<open>The top of the loop with no signal connection, up to \<open>runReconnect\<close>. \<open>now\<close> is the first clock
  reading, \<open>lnow\<close> and \<open>lnow'\<close> the limiter's.\<close>

definition monitor_lost ::
    "strategy_enum \<Rightarrow> time \<Rightarrow> time \<Rightarrow> time \<Rightarrow> bool option \<Rightarrow> bool option \<Rightarrow> monitor \<Rightarrow> monitor" where
  "monitor_lost S now lnow lnow' pub sub m =
    (let m = markDisconnected now (m\<lparr>m_connState := Connecting\<rparr>);
         down = (case m_disconnectedSince m of None \<Rightarrow> 0 | Some s \<Rightarrow> now - s);
         timeout = DisconnectionTimeout (m_cfg m)
     in if timeout > 0 \<and> down > timeout then leave_loop (abandonCall S m)
        else if m_next m = DISCONNECT S then leave_loop m
        else
          let strategy = (if m_next m < FAST S then REJOIN S else m_next m);
              strategy = selectReconnectStrategy S now pub sub m strategy;
              (ok, limiter) = (if consumesRejoinBudget S strategy then Allow (m_limiter m) lnow lnow'
                               else (True, m_limiter m));
              m = m\<lparr>m_limiter := limiter\<rparr>
          in if \<not> ok then leave_loop (abandonCall S m)
             else m\<lparr>m_at := Reconnecting strategy,
                    m_fastReconnectAttempts := (if strategy = FAST S then m_fastReconnectAttempts m + 1
                                                else m_fastReconnectAttempts m),
                    m_attempts := m_attempts m @ [(strategy, lnow')],
                    m_epoch := m_epoch m @ [(strategy, lnow')]\<rparr>)"

text \<open>\<open>runReconnect\<close> returns: \<open>None\<close> for success, otherwise whether the error is retryable.\<close>

definition monitor_reconnected :: "strategy_enum \<Rightarrow> bool option \<Rightarrow> monitor \<Rightarrow> monitor" where
  "monitor_reconnected S err m =
    (case err of
       None \<Rightarrow> markConnected (m\<lparr>m_connState := Connected\<rparr>)\<lparr>m_backoff := m_reconnectBackoff m, m_at := Top\<rparr>
     | Some retryable \<Rightarrow>
        m\<lparr>m_errors := (if retryable then m_errors m else m_errors m + 1),
          m_backoff := nextReconnectBackoff (m_cfg m) (m_backoff m),
          m_next := escalateReconnectStrategy S (m_next m), m_at := Top\<rparr>)"

text \<open>The top of the loop with a live connection, and what the select then sees.\<close>

datatype monitor_event = LivenessLost time | MigrateRequested | PollElapsed

definition monitor_live :: "strategy_enum \<Rightarrow> monitor_event \<Rightarrow> monitor \<Rightarrow> monitor" where
  "monitor_live S ev m =
    (if m_next m = DISCONNECT S then leave_loop m
     else
       let m = m\<lparr>m_next := FAST S\<rparr> in
       case ev of
         LivenessLost now \<Rightarrow> markDisconnected now (m\<lparr>m_connState := Connecting\<rparr>)
       | MigrateRequested \<Rightarrow> m\<lparr>m_next := MIGRATE S, m_connState := Connecting\<rparr>
       | PollElapsed \<Rightarrow> m)"

text \<open>\<open>setReconnectStrategyAndDisconnect\<close>, called from event handlers at any time; closing the peers
  and the websocket shows in the next steps' arguments.\<close>

definition setReconnectStrategyAndDisconnect :: "strategy_enum \<Rightarrow> int \<Rightarrow> monitor \<Rightarrow> monitor" where
  "setReconnectStrategyAndDisconnect S strategy m =
    (if strategy = UNSPECIFIED S then m else m\<lparr>m_next := strategy\<rparr>)"

definition OnGoAway :: "strategy_enum \<Rightarrow> monitor \<Rightarrow> monitor" where
  "OnGoAway S m = setReconnectStrategyAndDisconnect S (MIGRATE S) m"

section \<open>The first join\<close>

text \<open>An error, by what \<open>errors.Is\<close> and \<open>errors.As\<close> find in it.\<close>

record join_error =
  je_deadline :: bool
  je_canceled :: bool
  je_net :: bool
  je_wsStatus :: "int option"
  je_coordinator :: "bool option"
  je_signal :: bool

definition isJoinErrorRetryable :: "join_error option \<Rightarrow> bool" where
  "isJoinErrorRetryable err =
    (case err of
       None \<Rightarrow> False
     | Some e \<Rightarrow>
        (if je_deadline e then True
        else if je_canceled e then False
        else if je_net e then True
        else case je_wsStatus e of
          Some code \<Rightarrow> code > 500
        | None \<Rightarrow> (case je_coordinator e of Some shouldRetry \<Rightarrow> shouldRetry | None \<Rightarrow> je_signal e)))"

text \<open>The loop of \<open>retryFirstJoin\<close> with \<open>i\<close> attempts left. An attempt fetches credentials and joins;
  \<open>attempt\<close> gives its result by its number, \<open>cancelled\<close> whether the context ends while it waits.
  The result carries the waits.\<close>

fun retry_join ::
    "(nat \<Rightarrow> join_error + 'r) \<Rightarrow> (nat \<Rightarrow> bool) \<Rightarrow> nat \<Rightarrow> nat \<Rightarrow> duration \<Rightarrow> join_error \<Rightarrow>
     duration list \<times> (join_error + 'r)" where
  "retry_join attempt cancelled 0 n backoff lastError = ([], Inl lastError)"
| "retry_join attempt cancelled (Suc i) n backoff lastError =
    (if \<not> isJoinErrorRetryable (Some lastError) then ([], Inl lastError)
     else if cancelled n then ([], Inl lastError)
     else
       let backoff' = min (2 * backoff) (1000 * Millisecond) in
       case attempt n of
         Inr resp \<Rightarrow> ([backoff], Inr resp)
       | Inl err \<Rightarrow>
          (let (ws, r) = retry_join attempt cancelled i (Suc n) backoff' err in (backoff # ws, r)))"

definition retryFirstJoin ::
    "(nat \<Rightarrow> join_error + 'r) \<Rightarrow> (nat \<Rightarrow> bool) \<Rightarrow> join_error \<Rightarrow> duration list \<times> (join_error + 'r)" where
  "retryFirstJoin attempt cancelled firstError =
     retry_join attempt cancelled 20 0 (10 * Millisecond) firstError"

section \<open>Runs of the monitor\<close>

text \<open>A state together with the latest clock reading, which never goes back.\<close>

inductive mstep :: "strategy_enum \<Rightarrow> time \<times> monitor \<Rightarrow> time \<times> monitor \<Rightarrow> bool" for S where
  lost: "m_at m = Top \<Longrightarrow> c \<le> now \<Longrightarrow> now \<le> lnow \<Longrightarrow> lnow \<le> lnow' \<Longrightarrow>
    mstep S (c, m) (lnow', monitor_lost S now lnow lnow' pub sub m)"
| reconnected: "m_at m = Reconnecting s \<Longrightarrow> mstep S (c, m) (c, monitor_reconnected S err m)"
| live: "m_at m = Top \<Longrightarrow> mstep S (c, m) (c, monitor_live S ev m)"
| requested: "mstep S (c, m) (c, setReconnectStrategyAndDisconnect S strategy m)"

inductive_cases mstepE: "mstep S cm cm'"

definition expensive :: "strategy_enum \<Rightarrow> monitor \<Rightarrow> time list" where
  "expensive S m = map snd (filter (\<lambda>a. consumesRejoinBudget S (fst a)) (m_epoch m))"

definition fast_count :: "strategy_enum \<Rightarrow> monitor \<Rightarrow> nat" where
  "fast_count S m = length (filter (\<lambda>a. fst a = FAST S) (m_epoch m))"

definition monitor_inv :: "strategy_enum \<Rightarrow> ReconnectConfig \<Rightarrow> time \<times> monitor \<Rightarrow> bool" where
  "monitor_inv S cfg cm \<longleftrightarrow> (let (c, m) = cm in
     m_cfg m = cfg \<and> m_reconnectBackoff m = InitialBackoff cfg \<and>
     limit (m_limiter m) = RejoinLimit cfg \<and> win (m_limiter m) = RejoinWindow cfg \<and>
     sw.consistent (m_limiter m) (expensive S m) c \<and>
     fast_count S m = unat (m_fastReconnectAttempts m) \<and> fast_count S m \<le> nat (MaxFastAttempts cfg) \<and>
     InitialBackoff cfg \<le> m_backoff m \<and> m_backoff m \<le> MaxBackoff cfg)"

definition config_ok :: "ReconnectConfig \<Rightarrow> bool" where
  "config_ok cfg \<longleftrightarrow> 0 < RejoinLimit cfg \<and> 0 < MaxFastAttempts cfg \<and> MaxFastAttempts cfg < 2 ^ 32 \<and>
     0 < InitialBackoff cfg \<and> InitialBackoff cfg \<le> MaxBackoff cfg \<and> MaxBackoff cfg \<le> 2 ^ 62"

lemma nextReconnectBackoff_bounds:
  assumes "0 < b" "b \<le> MaxBackoff cfg" "MaxBackoff cfg \<le> 2 ^ 62"
  shows "b \<le> nextReconnectBackoff cfg b" "nextReconnectBackoff cfg b \<le> MaxBackoff cfg"
proof -
  have "i64 (2 * b) = 2 * b" if "b < MaxBackoff cfg"
    using that assms by (intro i64_id) (simp add: in_i64_def)
  then show "b \<le> nextReconnectBackoff cfg b" "nextReconnectBackoff cfg b \<le> MaxBackoff cfg"
    using assms by (auto simp: nextReconnectBackoff_def)
qed

lemma sw_reset: "0 < limit s \<Longrightarrow> sw.consistent (Reset s) [] now"
  by (simp add: sw.consistent_def Reset_def sw.in_window_def)

lemma start_monitor_inv: "config_ok cfg \<Longrightarrow> monitor_inv S cfg (c, start_monitor S cfg secs)"
  using sw_reset [of "newRejoinLimiter cfg" c]
  by (simp add: monitor_inv_def start_monitor_def markConnected_def config_ok_def newRejoinLimiter_def New_def
      expensive_def fast_count_def Reset_def)

lemma markDisconnected_frame [simp]:
  "m_cfg (markDisconnected now m) = m_cfg m" "m_limiter (markDisconnected now m) = m_limiter m"
  "m_epoch (markDisconnected now m) = m_epoch m" "m_next (markDisconnected now m) = m_next m"
  "m_fastReconnectAttempts (markDisconnected now m) = m_fastReconnectAttempts m"
  "m_backoff (markDisconnected now m) = m_backoff m" "m_at (markDisconnected now m) = m_at m"
  "m_reconnectBackoff (markDisconnected now m) = m_reconnectBackoff m"
  "m_attempts (markDisconnected now m) = m_attempts m"
  by (simp_all add: markDisconnected_def)

lemma monitor_inv_frame:
  "m_cfg m' = m_cfg m \<Longrightarrow> m_limiter m' = m_limiter m \<Longrightarrow> m_epoch m' = m_epoch m \<Longrightarrow>
   m_fastReconnectAttempts m' = m_fastReconnectAttempts m \<Longrightarrow> m_backoff m' = m_backoff m \<Longrightarrow>
   m_reconnectBackoff m' = m_reconnectBackoff m \<Longrightarrow> monitor_inv S cfg (c, m') \<longleftrightarrow> monitor_inv S cfg (c, m)"
  by (simp add: monitor_inv_def expensive_def fast_count_def)

lemma monitor_inv_later: "monitor_inv S cfg (c, m) \<Longrightarrow> c \<le> c' \<Longrightarrow> monitor_inv S cfg (c', m)"
  by (auto simp: monitor_inv_def intro: sw.consistent_later)

lemma fast_attempt_counts:
  assumes "\<not> (a :: uint32) \<ge> word_of_int n" "0 < n" "n < 2 ^ 32"
  shows "unat (a + 1) = Suc (unat a)" "Suc (unat a) \<le> nat n"
proof -
  have "uint (word_of_int n :: uint32) = n"
    using assms(2,3) by (simp add: uint_word_of_int)
  then have lt: "uint a < n"
    using assms(1) by (simp add: word_le_def)
  then have "int (unat a) < n"
    by simp
  then show le: "Suc (unat a) \<le> nat n"
    by linarith
  have "nat n < 2 ^ 32"
    using assms(2,3) by (simp add: nat_less_iff)
  then have "unat a + 1 < 2 ^ 32"
    using le by simp
  then show "unat (a + 1) = Suc (unat a)"
    using unat_add_lem [of a 1] by simp
qed

text \<open>One attempt, of either kind.\<close>

lemma attempt_inv:
  assumes i: "monitor_inv S cfg (c, m)" and c: "c \<le> lnow" "lnow \<le> lnow'"
    and S: "proto_numbers S" and cfg: "config_ok cfg"
    and f: "s = FAST S \<Longrightarrow> \<not> m_fastReconnectAttempts m \<ge> word_of_int (MaxFastAttempts cfg)"
    and a: "(if consumesRejoinBudget S s then Allow (m_limiter m) lnow lnow' else (True, m_limiter m)) = (ok, l)"
  shows "\<not> ok \<Longrightarrow> monitor_inv S cfg (lnow', m\<lparr>m_limiter := l\<rparr>)"
    and "ok \<Longrightarrow> monitor_inv S cfg (lnow', m\<lparr>m_limiter := l, m_at := x,
        m_fastReconnectAttempts := (if s = FAST S then m_fastReconnectAttempts m + 1 else m_fastReconnectAttempts m),
        m_attempts := as, m_epoch := m_epoch m @ [(s, lnow')]\<rparr>)"
proof -
  have con: "sw.consistent (m_limiter m) (expensive S m) lnow"
    using i c by (auto simp: monitor_inv_def intro: sw.consistent_later)
  have sw: "sw.consistent l (expensive S m @ (if consumesRejoinBudget S s \<and> ok then [lnow'] else [])) lnow'"
    using sw.consistent_ask [OF con c(2)] sw.consistent_later [OF con c(2)] a
    by (auto split: if_splits)
  have cfgl: "limit l = RejoinLimit cfg" "win l = RejoinWindow cfg"
  proof -
    have "l = snd (if consumesRejoinBudget S s then Allow (m_limiter m) lnow lnow' else (True, m_limiter m))"
      using a by simp
    then show "limit l = RejoinLimit cfg" "win l = RejoinWindow cfg"
      using i by (simp_all add: monitor_inv_def)
  qed
  show ok: "ok \<Longrightarrow> monitor_inv S cfg (lnow', m\<lparr>m_limiter := l, m_at := x,
        m_fastReconnectAttempts := (if s = FAST S then m_fastReconnectAttempts m + 1 else m_fastReconnectAttempts m),
        m_attempts := as, m_epoch := m_epoch m @ [(s, lnow')]\<rparr>)"
    using i sw cfgl S fast_attempt_counts [OF f] cfg
    by (auto simp: monitor_inv_def expensive_def fast_count_def consumesRejoinBudget_def proto_numbers_def
        config_ok_def split: if_splits)
  show "\<not> ok \<Longrightarrow> monitor_inv S cfg (lnow', m\<lparr>m_limiter := l\<rparr>)"
    using i sw cfgl by (simp add: monitor_inv_def expensive_def fast_count_def)
qed

lemma leave_loop_inv [simp]: "monitor_inv S cfg (c, leave_loop m) \<longleftrightarrow> monitor_inv S cfg (c, m)"
  by (rule monitor_inv_frame) (simp_all add: leave_loop_def)

lemma abandonCall_inv [simp]: "monitor_inv S cfg (c, abandonCall S m) \<longleftrightarrow> monitor_inv S cfg (c, m)"
  by (rule monitor_inv_frame) (simp_all add: abandonCall_def)

lemma monitor_lost_inv:
  assumes i: "monitor_inv S cfg (c, m)" and t: "c \<le> now" "now \<le> lnow" "lnow \<le> lnow'"
    and S: "proto_numbers S" and cfg: "config_ok cfg"
  shows "monitor_inv S cfg (lnow', monitor_lost S now lnow lnow' pub sub m)"
proof -
  define m1 where "m1 = markDisconnected now (m\<lparr>m_connState := Connecting\<rparr>)"
  define s where "s = selectReconnectStrategy S now pub sub m1 (if m_next m1 < FAST S then REJOIN S else m_next m1)"
  obtain ok l where a: "(if consumesRejoinBudget S s then Allow (m_limiter m1) lnow lnow'
      else (True, m_limiter m1)) = (ok, l)" by fastforce
  have i1: "monitor_inv S cfg (c, m1)"
    using i monitor_inv_frame [of m1 m S cfg c] by (simp add: m1_def)
  then have mc: "m_cfg m1 = cfg"
    by (simp add: monitor_inv_def)
  have f: "\<not> m_fastReconnectAttempts m1 \<ge> word_of_int (MaxFastAttempts cfg)" if "s = FAST S"
    using that S mc unfolding s_def
    by (auto simp: selectReconnectStrategy_def canFastReconnect_def proto_numbers_def split: if_splits)
  note A = attempt_inv [OF i1 order_trans [OF t(1,2)] t(3) S cfg f a]
  have late: "monitor_inv S cfg (lnow', m1)"
    using i1 t monitor_inv_later by fastforce
  let ?m = "m1\<lparr>m_limiter := l, m_at := Reconnecting s,
      m_fastReconnectAttempts := (if s = FAST S then m_fastReconnectAttempts m1 + 1 else m_fastReconnectAttempts m1),
      m_attempts := m_attempts m1 @ [(s, lnow')], m_epoch := m_epoch m1 @ [(s, lnow')]\<rparr>"
  have "monitor_lost S now lnow lnow' pub sub m \<in> {leave_loop (abandonCall S m1), leave_loop m1} \<or>
      (if ok then monitor_lost S now lnow lnow' pub sub m = ?m
       else monitor_lost S now lnow lnow' pub sub m = leave_loop (abandonCall S (m1\<lparr>m_limiter := l\<rparr>)))"
    using a unfolding monitor_lost_def Let_def m1_def [symmetric] s_def [symmetric] by simp
  then show ?thesis
    using A(1) A(2) [where x = "Reconnecting s" and as = "m_attempts m1 @ [(s, lnow')]"] late
    by (cases ok) auto
qed

lemma monitor_reconnected_inv:
  assumes i: "monitor_inv S cfg (c, m)" and cfg: "config_ok cfg"
  shows "monitor_inv S cfg (c, monitor_reconnected S err m)"
proof (cases err)
  case None
  have "sw.consistent (Reset (m_limiter m)) [] c"
    using i cfg by (intro sw_reset) (simp add: monitor_inv_def config_ok_def)
  then show ?thesis
    using None i cfg
    by (simp add: monitor_reconnected_def markConnected_def monitor_inv_def expensive_def fast_count_def
        Reset_def config_ok_def)
next
  case (Some r)
  have b: "m_backoff m \<le> nextReconnectBackoff cfg (m_backoff m)"
    "nextReconnectBackoff cfg (m_backoff m) \<le> MaxBackoff cfg"
    using i cfg by (auto simp: monitor_inv_def config_ok_def intro!: nextReconnectBackoff_bounds)
  then show ?thesis
    using Some i by (auto simp: monitor_reconnected_def monitor_inv_def expensive_def fast_count_def)
qed

lemma monitor_live_inv: "monitor_inv S cfg (c, m) \<Longrightarrow> monitor_inv S cfg (c, monitor_live S ev m)"
  by (subst monitor_inv_frame [of _ m])
     (simp_all add: monitor_live_def leave_loop_def Let_def split: monitor_event.split)

lemma mstep_inv:
  assumes "proto_numbers S" "config_ok cfg"
  shows "mstep S cm cm' \<Longrightarrow> monitor_inv S cfg cm \<Longrightarrow> monitor_inv S cfg cm'"
proof (erule mstepE)
  fix c m strategy
  assume "monitor_inv S cfg cm" "cm = (c, m)" "cm' = (c, setReconnectStrategyAndDisconnect S strategy m)"
  then show "monitor_inv S cfg cm'"
    using monitor_inv_frame [of "setReconnectStrategyAndDisconnect S strategy m" m]
    by (simp add: setReconnectStrategyAndDisconnect_def)
qed (use assms monitor_lost_inv monitor_reconnected_inv monitor_live_inv in auto)

lemma monitor_reach_inv:
  assumes "proto_numbers S" "config_ok cfg" "(mstep S)\<^sup>*\<^sup>* (c, start_monitor S cfg secs) (c', m)"
  shows "monitor_inv S cfg (c', m)"
  using assms(3)
  by (induction "(c', m)" arbitrary: c' m rule: rtranclp_induct)
     (auto intro: start_monitor_inv [OF assms(2)] mstep_inv [OF assms(1,2)])

section \<open>Properties\<close>

text \<open>C5: a call that cannot be restored does not hammer the coordinator. In every run of the monitor,
  with strategies changed from outside at any moment, the rejoins and migrations started since
  the last successful reconnect number at most \<open>RejoinLimit\<close> in any period of \<open>RejoinWindow\<close>.\<close>

theorem reconnect_rejoin_budget:
  assumes "proto_numbers S" "config_ok cfg" "(mstep S)\<^sup>*\<^sup>* (c, start_monitor S cfg secs) (c', m)"
  shows "int (length (filter (\<lambda>x. t - RejoinWindow cfg < x \<and> x \<le> t)
    (map snd (filter (\<lambda>a. fst a = REJOIN S \<or> fst a = MIGRATE S) (m_epoch m))))) \<le> RejoinLimit cfg"
proof -
  have "sw.consistent (m_limiter m) (expensive S m) c'" "limit (m_limiter m) = RejoinLimit cfg"
    "win (m_limiter m) = RejoinWindow cfg"
    using monitor_reach_inv [OF assms] by (simp_all add: monitor_inv_def)
  then have "length (sw.in_window (RejoinWindow cfg) t (expensive S m)) \<le> nat (RejoinLimit cfg)"
    by (simp add: sw.consistent_def)
  then have "int (length (sw.in_window (RejoinWindow cfg) t (expensive S m))) \<le> RejoinLimit cfg"
    using assms(2) by (simp add: config_ok_def le_nat_iff)
  then show ?thesis
    by (simp add: sw.in_window_def expensive_def consumesRejoinBudget_def)
qed

definition sample_lost :: "time \<times> monitor" where
  "sample_lost = (7, monitor_lost published_enum 5 6 7 None None (start_monitor published_enum defaultReconnectConfig 0))"

lemma sample_lost_reach:
  "(mstep published_enum)\<^sup>*\<^sup>* (0, start_monitor published_enum defaultReconnectConfig 0) sample_lost"
  unfolding sample_lost_def
  by (rule r_into_rtranclp, rule mstep.lost) (simp_all add: start_monitor_def markConnected_def)

lemma sample_config_ok: "config_ok defaultReconnectConfig" "proto_numbers published_enum"
  by (simp_all add: config_ok_def defaultReconnectConfig_def reconnect_consts proto_numbers_def published_enum_def)

theorem reconnect_rejoin_budget_witness:
  "int (length (filter (\<lambda>x. 10 - RejoinWindow defaultReconnectConfig < x \<and> x \<le> 10)
    (map snd (filter (\<lambda>a. fst a = REJOIN published_enum \<or> fst a = MIGRATE published_enum)
       (m_epoch (snd sample_lost)))))) \<le> RejoinLimit defaultReconnectConfig"
proof -
  have "(mstep published_enum)\<^sup>*\<^sup>* (0, start_monitor published_enum defaultReconnectConfig 0)
      (fst sample_lost, snd sample_lost)"
    using sample_lost_reach by simp
  from reconnect_rejoin_budget [OF sample_config_ok(2,1) this] show ?thesis .
qed

text \<open>Fast reconnects are tried only while they can work, and not for ever: since the last
  successful reconnect at most \<open>MaxFastAttempts\<close> of them were started, and the backoff between
  attempts always lies between \<open>InitialBackoff\<close> and \<open>MaxBackoff\<close>.\<close>

theorem reconnect_fast_attempts_bounded:
  assumes "proto_numbers S" "config_ok cfg" "(mstep S)\<^sup>*\<^sup>* (c, start_monitor S cfg secs) (c', m)"
  shows "int (length (filter (\<lambda>a. fst a = FAST S) (m_epoch m))) \<le> MaxFastAttempts cfg \<and>
    InitialBackoff cfg \<le> m_backoff m \<and> m_backoff m \<le> MaxBackoff cfg"
proof -
  have "fast_count S m \<le> nat (MaxFastAttempts cfg)" "InitialBackoff cfg \<le> m_backoff m" "m_backoff m \<le> MaxBackoff cfg"
    using monitor_reach_inv [OF assms] by (simp_all add: monitor_inv_def)
  moreover from this(1) have "int (fast_count S m) \<le> MaxFastAttempts cfg"
    using assms(2) by (simp add: config_ok_def le_nat_iff)
  ultimately show ?thesis
    by (simp add: fast_count_def)
qed

theorem reconnect_fast_attempts_bounded_witness:
  "int (length (filter (\<lambda>a. fst a = FAST published_enum) (m_epoch (snd sample_lost))))
     \<le> MaxFastAttempts defaultReconnectConfig \<and>
    InitialBackoff defaultReconnectConfig \<le> m_backoff (snd sample_lost) \<and>
    m_backoff (snd sample_lost) \<le> MaxBackoff defaultReconnectConfig"
proof -
  have "(mstep published_enum)\<^sup>*\<^sup>* (0, start_monitor published_enum defaultReconnectConfig 0)
      (fst sample_lost, snd sample_lost)"
    using sample_lost_reach by simp
  from reconnect_fast_attempts_bounded [OF sample_config_ok(2,1) this] show ?thesis .
qed

text \<open>Giving up is final and failures walk towards a rejoin. With \<open>DISCONNECT\<close> requested the loop
  ends at its next turn, with or without a connection, and starts no attempt; a failed attempt
  keeps \<open>DISCONNECT\<close>, turns \<open>FAST\<close> and \<open>MIGRATE\<close> into \<open>REJOIN\<close>, and stays there.\<close>

theorem reconnect_disconnect_final:
  assumes "proto_numbers S"
  shows "(m_next m = DISCONNECT S \<longrightarrow>
      m_at (monitor_lost S now lnow lnow' pub sub m) = Returned \<and>
      m_attempts (monitor_lost S now lnow lnow' pub sub m) = m_attempts m \<and>
      m_at (monitor_live S ev m) = Returned \<and> m_attempts (monitor_live S ev m) = m_attempts m \<and>
      m_next (monitor_reconnected S (Some b) m) = DISCONNECT S) \<and>
    escalateReconnectStrategy S (FAST S) = REJOIN S \<and> escalateReconnectStrategy S (MIGRATE S) = REJOIN S \<and>
    escalateReconnectStrategy S (REJOIN S) = REJOIN S"
  using assms
  by (auto simp: monitor_lost_def monitor_live_def monitor_reconnected_def leave_loop_def abandonCall_def
      escalateReconnectStrategy_def proto_numbers_def Let_def)

theorem reconnect_disconnect_final_witness:
  "(let m = (start_monitor published_enum defaultReconnectConfig 0)\<lparr>m_next := DISCONNECT published_enum\<rparr> in
      m_at (monitor_lost published_enum 1 2 3 None None m) = Returned \<and>
      m_attempts (monitor_live published_enum PollElapsed m) = m_attempts m) \<and>
    escalateReconnectStrategy published_enum (FAST published_enum) = REJOIN published_enum"
  using reconnect_disconnect_final [OF sample_config_ok(2),
      of "(start_monitor published_enum defaultReconnectConfig 0)\<lparr>m_next := DISCONNECT published_enum\<rparr>"
        1 2 3 None None PollElapsed]
  by simp

fun wait_total :: "nat \<Rightarrow> duration \<Rightarrow> duration" where
  "wait_total 0 b = 0"
| "wait_total (Suc i) b = b + wait_total i (min (2 * b) (1000 * Millisecond))"

lemma wait_total_nonneg: "0 \<le> b \<Longrightarrow> 0 \<le> wait_total i b"
  by (induction i arbitrary: b) auto

lemma retry_join_bounds:
  "0 \<le> b \<Longrightarrow> length (fst (retry_join attempt cancelled i n b e)) \<le> i \<and>
    sum_list (fst (retry_join attempt cancelled i n b e)) \<le> wait_total i b"
proof (induction i arbitrary: n b e)
  case (Suc i)
  let ?b = "min (2 * b) (1000 * Millisecond)"
  have b: "0 \<le> ?b"
    using Suc.prems by simp
  have "0 \<le> wait_total i ?b"
    using wait_total_nonneg [OF b] .
  moreover have "length (fst (retry_join attempt cancelled i (Suc n) ?b e')) \<le> i \<and>
      sum_list (fst (retry_join attempt cancelled i (Suc n) ?b e')) \<le> wait_total i ?b" for e'
    using Suc.IH [OF b] .
  ultimately show ?case
    using Suc.prems by (simp add: Let_def split_beta split: sum.split)
qed simp

lemma retry_join_first:
  "(isJoinErrorRetryable (Some e) \<or> retry_join attempt cancelled (Suc i) n b e = ([], Inl e)) \<and>
   (\<not> isJoinErrorRetryable (Some e) \<or> cancelled n \<or>
      (case attempt n of Inr r \<Rightarrow> snd (retry_join attempt cancelled (Suc i) n b e) = Inr r | Inl _ \<Rightarrow> True))"
  by (auto split: sum.split)

text \<open>The first join is retried a bounded number of times and always comes to an end: at most
  twenty attempts, at most 14.27 seconds of waiting in all, an error that is not retryable ends it
  at once, and a successful attempt is the result.\<close>

theorem reconnect_first_join_bounded:
  "length (fst (retryFirstJoin attempt cancelled e)) \<le> 20 \<and>
   sum_list (fst (retryFirstJoin attempt cancelled e)) \<le> 14270 * Millisecond \<and>
   (isJoinErrorRetryable (Some e) \<or> retryFirstJoin attempt cancelled e = ([], Inl e)) \<and>
   (\<not> isJoinErrorRetryable (Some e) \<or> cancelled 0 \<or>
      (case attempt 0 of Inr r \<Rightarrow> snd (retryFirstJoin attempt cancelled e) = Inr r | Inl _ \<Rightarrow> True))"
proof -
  have total: "wait_total 20 (10 * Millisecond) = 14270 * Millisecond"
    by (simp add: numeral_eq_Suc)
  have unroll: "retryFirstJoin attempt cancelled e =
      retry_join attempt cancelled (Suc 19) 0 (10 * Millisecond) e"
    by (simp add: retryFirstJoin_def del: retry_join.simps)
  have "length (fst (retryFirstJoin attempt cancelled e)) \<le> 20 \<and>
      sum_list (fst (retryFirstJoin attempt cancelled e)) \<le> wait_total 20 (10 * Millisecond)"
    unfolding retryFirstJoin_def by (rule retry_join_bounds) simp
  then show ?thesis
    using retry_join_first [of e attempt cancelled 19 0 "10 * Millisecond", folded unroll] total by simp
qed

theorem reconnect_first_join_bounded_witness:
  "(\<lambda>e. isJoinErrorRetryable (Some e) \<and>
      retryFirstJoin (\<lambda>n. if n = 1 then Inr (7::nat) else Inl e) (\<lambda>_. False) e =
        ([10 * Millisecond, 20 * Millisecond], Inr 7) \<and>
      snd (retryFirstJoin (\<lambda>_. Inr (7::nat)) (\<lambda>_. False) e) = Inr 7)
   \<lparr>je_deadline = False, je_canceled = False, je_net = True, je_wsStatus = None, je_coordinator = None, je_signal = False\<rparr>"
  using reconnect_first_join_bounded [of "\<lambda>_. Inr (7::nat)" "\<lambda>_. False"
      "\<lparr>je_deadline = False, je_canceled = False, je_net = True, je_wsStatus = None, je_coordinator = None, je_signal = False\<rparr>"]
  by (simp add: isJoinErrorRetryable_def retryFirstJoin_def numeral_eq_Suc)

end
