(* ===== verification/CallSession.thy ===== *)
theory CallSession
  imports Signal CallTracks Reconnect
begin

text \<open>
  A call's session with an SFU, \<open>call.go\<close>: the join options, \<open>Join\<close> with the peer connections it builds, the three ways to
  reconnect, and leaving. It composes the signalling client, the published and subscribed tracks and the reconnect
  strategies. Signalling clients and peer connections are objects in two heaps, since a migration keeps those
  of the SFU it leaves beside those of the SFU it joins. What the coordinator, pion and the SFU answer is in the
  environment records, as are fresh ids. Closing a peer connection in a goroutine of its own is
  taken to have happened when the function that starts it returns. Logging, traces and the JSON of the coordinator are
  left out.
\<close>

section \<open>Join options\<close>

record ReconnectDetails =
  rd_Strategy :: int
  rd_AnnouncedTracks :: "track_info list"
  rd_Subscriptions :: "TrackSubscriptionDetails list"
  rd_ReconnectAttempt :: uint32
  rd_FromSfuId :: string
  rd_PreviousSessionId :: string

record joinOptions =
  jo_externalRTCP :: bool
  jo_sessionID :: string
  jo_subscriber :: nat
  jo_reconnectDetails :: ReconnectDetails
  jo_codecsFromMediaEngine :: bool
  jo_subscriberPeerConfig :: nat
  jo_publisherPeerConfig :: nat
  jo_preferredPublishOptions :: "nat list"
  jo_capabilities :: "int list"
  jo_create :: bool
  jo_ring :: bool
  jo_notify :: bool
  jo_e2ee :: bool
  jo_membersLimit :: "int option"
  jo_location :: string
  jo_migratingFrom :: string

type_synonym JoinOption = "joinOptions \<Rightarrow> joinOptions"

definition defaultJoinOptions :: "strategy_enum \<Rightarrow> joinOptions" where
  "defaultJoinOptions S =
     \<lparr>jo_externalRTCP = False, jo_sessionID = [], jo_subscriber = 0,
      jo_reconnectDetails = \<lparr>rd_Strategy = UNSPECIFIED S, rd_AnnouncedTracks = [], rd_Subscriptions = [], rd_ReconnectAttempt = 0,
        rd_FromSfuId = [], rd_PreviousSessionId = []\<rparr>,
      jo_codecsFromMediaEngine = False, jo_subscriberPeerConfig = 0, jo_publisherPeerConfig = 0, jo_preferredPublishOptions = [],
      jo_capabilities = [], jo_create = True, jo_ring = False, jo_notify = False, jo_e2ee = False, jo_membersLimit = None,
      jo_location = [], jo_migratingFrom = []\<rparr>"

definition WithSessionID :: "string \<Rightarrow> JoinOption" where "WithSessionID s o' = o'\<lparr>jo_sessionID := s\<rparr>"
definition WithOnTrack :: "nat \<Rightarrow> JoinOption" where "WithOnTrack f o' = o'\<lparr>jo_subscriber := f\<rparr>"
definition WithExternalRTCP :: JoinOption where "WithExternalRTCP o' = o'\<lparr>jo_externalRTCP := True\<rparr>"
definition WithCodecsFromMediaEngine :: JoinOption where "WithCodecsFromMediaEngine o' = o'\<lparr>jo_codecsFromMediaEngine := True\<rparr>"
definition WithSubscriberPeerConfiguration :: "nat \<Rightarrow> JoinOption" where
  "WithSubscriberPeerConfiguration conf o' = o'\<lparr>jo_subscriberPeerConfig := conf\<rparr>"
definition WithPublisherPeerConfiguration :: "nat \<Rightarrow> JoinOption" where
  "WithPublisherPeerConfiguration conf o' = o'\<lparr>jo_publisherPeerConfig := conf\<rparr>"
definition WithoutCreate :: JoinOption where "WithoutCreate o' = o'\<lparr>jo_create := False\<rparr>"
definition WithRing :: JoinOption where "WithRing o' = o'\<lparr>jo_ring := True\<rparr>"
definition WithNotify :: JoinOption where "WithNotify o' = o'\<lparr>jo_notify := True\<rparr>"
definition WithE2EE :: JoinOption where "WithE2EE o' = o'\<lparr>jo_e2ee := True\<rparr>"
definition WithMembersLimit :: "int \<Rightarrow> JoinOption" where "WithMembersLimit n o' = o'\<lparr>jo_membersLimit := Some n\<rparr>"
definition WithLocation :: "string \<Rightarrow> JoinOption" where "WithLocation l o' = o'\<lparr>jo_location := l\<rparr>"
definition WithMigratingFrom :: "string \<Rightarrow> JoinOption" where "WithMigratingFrom sfu o' = o'\<lparr>jo_migratingFrom := sfu\<rparr>"
definition WithPreferredPublishOptions :: "nat list \<Rightarrow> JoinOption" where
  "WithPreferredPublishOptions opts o' = o'\<lparr>jo_preferredPublishOptions := opts\<rparr>"
definition WithClientCapabilities :: "int list \<Rightarrow> JoinOption" where
  "WithClientCapabilities caps o' = o'\<lparr>jo_capabilities := jo_capabilities o' @ caps\<rparr>"
definition withReconnectDetails :: "ReconnectDetails \<Rightarrow> JoinOption" where
  "withReconnectDetails details o' = o'\<lparr>jo_reconnectDetails := details\<rparr>"

definition apply_join_options :: "strategy_enum \<Rightarrow> JoinOption list \<Rightarrow> joinOptions" where
  "apply_join_options S opts = fold (\<lambda>f o'. f o') opts (defaultJoinOptions S)"

text \<open>The capabilities to advertise; \<open>unspecified\<close> and \<open>pause\<close> are two constants of the SFU's protocol.\<close>

definition clientCapabilities :: "int \<Rightarrow> int \<Rightarrow> joinOptions \<Rightarrow> int list" where
  "clientCapabilities unspecified pause o' =
     fst (fold (\<lambda>cap (caps, seen). if cap = unspecified \<or> cap \<in> seen then (caps, seen) else (caps @ [cap], insert cap seen))
       (jo_capabilities o') ([pause], {pause}))"

record JoinCallRequest =
  jr_Create :: bool
  jr_Ring :: bool
  jr_Notify :: bool
  jr_Location :: string
  jr_MembersLimit :: "int option"
  jr_E2Ee :: "bool option"
  jr_MigratingFrom :: "string option"

definition coordinatorRequest :: "joinOptions \<Rightarrow> JoinCallRequest" where
  "coordinatorRequest o' =
     \<lparr>jr_Create = jo_create o', jr_Ring = jo_ring o', jr_Notify = jo_notify o', jr_Location = jo_location o',
      jr_MembersLimit = jo_membersLimit o', jr_E2Ee = (if jo_e2ee o' then Some True else None),
      jr_MigratingFrom = (if jo_migratingFrom o' \<noteq> [] then Some (jo_migratingFrom o') else None)\<rparr>"

section \<open>The call\<close>

record Credentials =
  cr_EdgeName :: string
  cr_URL :: string
  cr_WsEndpoint :: string
  cr_Token :: string

text \<open>What the coordinator answered besides the credentials (the call, its members, the capabilities, the stats options)
  is one opaque \<open>cs_Response\<close>.\<close>

record CallState =
  cs_EdgeName :: string
  cs_Url :: string
  cs_Token :: string
  cs_WebsocketUrl :: string
  cs_JoinCallRequest :: "JoinCallRequest option"
  cs_Response :: nat

text \<open>A publisher's or subscriber's peer connection: whether its callbacks are bound, and whether it was
  closed.\<close>

record peerconn =
  pc_bound :: bool
  pc_closed :: bool

record peer =
  pe_client :: "nat option"
  pe_subscriber :: "nat option"
  pe_publisher :: "nat option"

record call =
  ca_clients :: "client list"
  ca_conns :: "peerconn list"
  ca_peer :: peer
  ca_joinOptions :: "JoinOption list option"
  ca_GetCred :: bool
  ca_cred :: "Credentials option"
  ca_state :: "CallState option"
  ca_SessionID :: string
  ca_unifiedSessionId :: "string option"
  ca_store :: "nat option"
  ca_connState :: CallConnectionState
  ca_next :: int
  ca_reconnectAttempt :: uint32
  ca_fastDeadlineSeconds :: int
  ca_publishOptions :: "nat list"
  ca_subs :: subscriptions
  ca_published :: published
  ca_externalRTCP :: bool
  ca_started :: bool

definition newCall :: "strategy_enum \<Rightarrow> call" where
  "newCall S =
     \<lparr>ca_clients = [], ca_conns = [], ca_peer = \<lparr>pe_client = None, pe_subscriber = None, pe_publisher = None\<rparr>, ca_joinOptions = None,
      ca_GetCred = False, ca_cred = None, ca_state = None, ca_SessionID = [], ca_unifiedSessionId = None, ca_store = None,
      ca_connState = Connecting, ca_next = REJOIN S, ca_reconnectAttempt = 0, ca_fastDeadlineSeconds = 0, ca_publishOptions = [],
      ca_subs = \<lparr>su_subscribedTracks = [], su_sentSubscriptions = None, su_sfu = None\<rparr>,
      ca_published = \<lparr>pt_publishedTracks = [], pt_peer = None, pt_negotiations = 0\<rparr>, ca_externalRTCP = False, ca_started = False\<rparr>"

section \<open>Peers\<close>

definition on_client :: "(client \<Rightarrow> client) \<Rightarrow> nat option \<Rightarrow> call \<Rightarrow> call" where
  "on_client f i c = (case i of None \<Rightarrow> c | Some i \<Rightarrow> ca_clients_update (\<lambda>cs. cs[i := f (cs ! i)]) c)"

definition Unbind_pc :: "nat option \<Rightarrow> call \<Rightarrow> call" where
  "Unbind_pc i c = (case i of None \<Rightarrow> c | Some i \<Rightarrow> ca_conns_update (\<lambda>cs. cs[i := (cs ! i)\<lparr>pc_bound := False\<rparr>]) c)"

definition Close_pc :: "nat option \<Rightarrow> call \<Rightarrow> call" where
  "Close_pc i c = (case i of None \<Rightarrow> c | Some i \<Rightarrow> ca_conns_update (\<lambda>cs. cs[i := (cs ! i)\<lparr>pc_closed := True\<rparr>]) c)"

definition detach_peer :: "peer \<Rightarrow> call \<Rightarrow> call" where
  "detach_peer p c = Unbind_pc (pe_publisher p) (Unbind_pc (pe_subscriber p) (on_client Detach (pe_client p) c))"

definition Close_peer :: "peer \<Rightarrow> call \<Rightarrow> call" where
  "Close_peer p c = Close_pc (pe_publisher p) (Close_pc (pe_subscriber p) c)"

definition release :: "peer \<Rightarrow> call \<Rightarrow> call" where
  "release p c = on_client Close_client (pe_client p) (Close_peer p (detach_peer p c))"

definition releaseOldPubSub :: "call \<Rightarrow> call" where
  "releaseOldPubSub c =
    (let p = ca_peer c
     in Close_pc (pe_subscriber p) (Close_pc (pe_publisher p) (Unbind_pc (pe_publisher p) (Unbind_pc (pe_subscriber p) c))))"

text \<open>The whole of \<open>setReconnectStrategyAndDisconnect\<close>, of which \<open>Reconnect\<close> has what the monitor sees; \<open>ok\<close> is whether a close
  frame can be written.\<close>

definition disconnect_with :: "strategy_enum \<Rightarrow> bool \<Rightarrow> int \<Rightarrow> call \<Rightarrow> call" where
  "disconnect_with S ok strategy c =
    (if strategy = UNSPECIFIED S then c
     else
       let c = c\<lparr>ca_next := strategy\<rparr>;
           c = (if strategy = DISCONNECT S then Close_pc (pe_subscriber (ca_peer c)) (Close_pc (pe_publisher (ca_peer c)) c) else c)
       in on_client (\<lambda>cl. snd (Disconnect (strategy = DISCONNECT S) ok cl)) (pe_client (ca_peer c)) c)"

section \<open>Joining\<close>

text \<open>The answers one \<open>Join\<close> gets. The coordinator fails or gives credentials and the call's state; the join SDPs, the
  subscriber, the publisher and the two halves of an ICE restart each fail with an error or not; \<open>jv_response\<close> is the first message
  on the new websocket. \<open>jv_strategy\<close>, \<open>jv_deadline\<close> and \<open>jv_options\<close> read fields of a response, \<open>jv_error\<close> is the error \<open>Connect\<close> returns.\<close>

record join_env =
  jv_coordinator :: "join_error + Credentials \<times> nat"
  jv_uuid :: string
  jv_unified :: string
  jv_sdp :: "join_error option"
  jv_newSubscriber :: "join_error option"
  jv_newPublisher :: "join_error option"
  jv_dialled :: bool
  jv_written :: bool
  jv_deadlineSet :: bool
  jv_deadlineCleared :: bool
  jv_response :: "sfu_event option"
  jv_closeFrame :: bool
  jv_strategy :: "nat \<Rightarrow> int"
  jv_deadline :: "nat \<Rightarrow> int"
  jv_options :: "nat \<Rightarrow> nat list"
  jv_error :: "connect_error \<Rightarrow> join_error"
  jv_publisherRestart :: "join_error option"
  jv_subscriberRestart :: "join_error option"

definition SetCredentials :: "Credentials \<Rightarrow> call \<Rightarrow> call" where
  "SetCredentials cred c =
    (let state = (case ca_state c of
                    None \<Rightarrow> \<lparr>cs_EdgeName = [], cs_Url = [], cs_Token = [], cs_WebsocketUrl = [], cs_JoinCallRequest = None, cs_Response = 0\<rparr>
                  | Some state \<Rightarrow> state)
     in c\<lparr>ca_state := Some (state\<lparr>cs_EdgeName := cr_EdgeName cred, cs_WebsocketUrl := cr_WsEndpoint cred, cs_Token := cr_Token cred,
            cs_Url := cr_URL cred\<rparr>), ca_cred := Some cred\<rparr>)"

definition joinCoordinator :: "join_env \<Rightarrow> joinOptions \<Rightarrow> call \<Rightarrow> join_error option \<times> call" where
  "joinCoordinator env options c =
    (if ca_GetCred c then (None, c)
     else case jv_coordinator env of
       Inl err \<Rightarrow> (Some err, c)
     | Inr (cred, response) \<Rightarrow>
        (let c = c\<lparr>ca_GetCred := True,
               ca_state := Some \<lparr>cs_EdgeName = cr_EdgeName cred, cs_Url = cr_URL cred, cs_Token = cr_Token cred,
                 cs_WebsocketUrl = cr_WsEndpoint cred, cs_JoinCallRequest = Some (coordinatorRequest options), cs_Response = response\<rparr>,
               ca_peer := (ca_peer c)\<lparr>pe_client := Some (length (ca_clients c))\<rparr>, ca_clients := ca_clients c @ [new_client]\<rparr>
         in (None, SetCredentials cred c)))"

text \<open>A subscriber that was created is lost when creating the publisher fails.\<close>

definition initPubAndSub :: "strategy_enum \<Rightarrow> join_env \<Rightarrow> joinOptions \<Rightarrow> call \<Rightarrow> join_error option \<times> call" where
  "initPubAndSub S env options c =
    (let strategy = rd_Strategy (jo_reconnectDetails options) in
     if strategy = FAST S then (None, c)
     else
       let c = (if strategy \<noteq> MIGRATE S then releaseOldPubSub c else c);
           c = c\<lparr>ca_subs := new_session (ca_subs c)\<rparr>
       in case jv_newSubscriber env of
            Some err \<Rightarrow> (Some err, c)
          | None \<Rightarrow>
             (let sub = length (ca_conns c);
                  c = c\<lparr>ca_conns := ca_conns c @ [\<lparr>pc_bound = True, pc_closed = False\<rparr>]\<rparr>
              in case jv_newPublisher env of
                   Some err \<Rightarrow> (Some err, c)
                 | None \<Rightarrow>
                    (let pub = length (ca_conns c);
                         c = c\<lparr>ca_conns := ca_conns c @ [\<lparr>pc_bound = True, pc_closed = False\<rparr>]\<rparr>
                     in (None, c\<lparr>ca_peer := \<lparr>pe_client = pe_client (ca_peer c), pe_subscriber = Some sub, pe_publisher = Some pub\<rparr>,
                                ca_published := (ca_published c)\<lparr>pt_peer := Some []\<rparr>\<rparr>))))"

definition errNoPeerConnection :: join_error where
  "errNoPeerConnection = \<lparr>je_deadline = False, je_canceled = False, je_net = False, je_wsStatus = None, je_coordinator = None, je_signal = False\<rparr>"

definition restoreICE :: "join_env \<Rightarrow> call \<Rightarrow> join_error option" where
  "restoreICE env c =
    (if pe_publisher (ca_peer c) = None then Some errNoPeerConnection
     else case jv_publisherRestart env of
       Some err \<Rightarrow> Some err
     | None \<Rightarrow> jv_subscriberRestart env)"

definition applyJoinResponse :: "join_env \<Rightarrow> nat \<Rightarrow> call \<Rightarrow> call" where
  "applyJoinResponse env resp c =
    (let c = (if jv_deadline env resp > 0 then c\<lparr>ca_fastDeadlineSeconds := jv_deadline env resp\<rparr> else c)
     in c\<lparr>ca_publishOptions := fst (setPublishOptions (jv_options env resp) (ca_publishOptions c))\<rparr>)"

text \<open>\<open>Client().Connect\<close> with the call as the handler. Of its callbacks only \<open>OnError\<close> has an effect on the call; it is applied, as often as it was
  called, after the attempt, whose own connection it does not see.\<close>

definition connect_call :: "strategy_enum \<Rightarrow> join_env \<Rightarrow> call \<Rightarrow> (join_error + sfu_event) \<times> call" where
  "connect_call S env c =
    (case pe_client (ca_peer c) of
       None \<Rightarrow> (Inl errNoPeerConnection, c)
     | Some i \<Rightarrow>
        (let cl = ca_clients c ! i;
             (r, cl') = Connect (jv_dialled env) (jv_written env) (jv_deadlineSet env) (jv_deadlineCleared env) (jv_response env) cl;
             c = c\<lparr>ca_clients := (ca_clients c)[i := cl']\<rparr>;
             errors = filter (\<lambda>(m, e). m = ''OnError'') (drop (length (sc_calls cl)) (sc_calls cl'));
             c = fold (\<lambda>(m, e). disconnect_with S (jv_closeFrame env) (jv_strategy env (snd e))) errors c
         in (case r of Inl e \<Rightarrow> Inl (jv_error env e) | Inr msg \<Rightarrow> Inr msg, c)))"

text \<open>The parts of \<open>Join\<close>: what it records before it connects, the connection with the retries of a first join, and
  what it does with the response. \<open>retry\<close> is \<open>retryFirstJoin\<close>, which calls \<open>Join\<close> again with a strategy and so never a second time.\<close>

definition prepare_join :: "join_env \<Rightarrow> joinOptions \<Rightarrow> JoinOption list \<Rightarrow> call \<Rightarrow> call" where
  "prepare_join env options opts c =
     c\<lparr>ca_SessionID := (if jo_sessionID options \<noteq> [] then jo_sessionID options
                       else if ca_SessionID c = [] then jv_uuid env else ca_SessionID c),
       ca_joinOptions := (if ca_joinOptions c = None then Some opts else ca_joinOptions c),
       ca_externalRTCP := jo_externalRTCP options\<rparr>"

definition unifiedSessionID :: "join_env \<Rightarrow> call \<Rightarrow> call" where
  "unifiedSessionID env c = (if ca_unifiedSessionId c = None then c\<lparr>ca_unifiedSessionId := Some (jv_unified env)\<rparr> else c)"

definition connect_or_retry ::
    "strategy_enum \<Rightarrow> (join_error \<Rightarrow> call \<Rightarrow> (join_error + sfu_event) \<times> call) \<Rightarrow> join_env \<Rightarrow> int \<Rightarrow> call \<Rightarrow> (join_error + sfu_event) \<times> call" where
  "connect_or_retry S retry env strategy c =
    (case connect_call S env c of
       (Inl err, c) \<Rightarrow> if strategy = UNSPECIFIED S then retry err c else (Inl err, c)
     | (Inr resp, c) \<Rightarrow> (Inr resp, c))"

definition finish_join :: "strategy_enum \<Rightarrow> join_env \<Rightarrow> int \<Rightarrow> sfu_event \<Rightarrow> call \<Rightarrow> (join_error + sfu_event) \<times> call" where
  "finish_join S env strategy resp c =
    (let c = applyJoinResponse env (snd resp) (c\<lparr>ca_store := Some (snd resp)\<rparr>) in
     case (if strategy = FAST S then restoreICE env c else None) of
       Some err \<Rightarrow> (Inl err, c)
     | None \<Rightarrow> (Inr resp, c\<lparr>ca_started := True\<rparr>))"

definition Join_with ::
    "strategy_enum \<Rightarrow> (join_error \<Rightarrow> call \<Rightarrow> (join_error + sfu_event) \<times> call) \<Rightarrow> join_env \<Rightarrow> JoinOption list \<Rightarrow> call \<Rightarrow>
     (join_error + sfu_event) \<times> call" where
  "Join_with S retry env opts c =
    (let options = apply_join_options S opts; strategy = rd_Strategy (jo_reconnectDetails options) in
     case joinCoordinator env options c of
       (Some err, c) \<Rightarrow> (Inl err, c)
     | (None, c) \<Rightarrow>
        (let c = prepare_join env options opts c in
         case (if jo_codecsFromMediaEngine options then jv_sdp env else None) of
           Some err \<Rightarrow> (Inl err, c)
         | None \<Rightarrow>
            (case initPubAndSub S env options (unifiedSessionID env c) of
               (Some err, c) \<Rightarrow> (Inl err, c)
             | (None, c) \<Rightarrow>
                (case connect_or_retry S retry env strategy c of
                   (Inl err, c) \<Rightarrow> (Inl err, c)
                 | (Inr resp, c) \<Rightarrow> finish_join S env strategy resp c))))"

definition getReconnectOptions :: "strategy_enum \<Rightarrow> string \<Rightarrow> int \<Rightarrow> string \<Rightarrow> call \<Rightarrow> JoinOption list \<times> call" where
  "getReconnectOptions S uuid strategy fromSFUID c =
    (let opts = (case ca_joinOptions c of None \<Rightarrow> [] | Some opts \<Rightarrow> opts);
         prev = (if strategy = REJOIN S then ca_SessionID c else []);
         opts = (if strategy = REJOIN S then opts @ [WithSessionID uuid] else opts);
         c = c\<lparr>ca_reconnectAttempt := ca_reconnectAttempt c + 1\<rparr>
     in (opts @ [withReconnectDetails
           \<lparr>rd_Strategy = strategy, rd_AnnouncedTracks = getAnnouncedTracks (ca_published c), rd_Subscriptions = getSubscriptions (ca_subs c),
            rd_ReconnectAttempt = ca_reconnectAttempt c, rd_FromSfuId = fromSFUID, rd_PreviousSessionId = prev\<rparr>], c))"

definition edge_name :: "call \<Rightarrow> string" where
  "edge_name c = (case ca_state c of None \<Rightarrow> [] | Some state \<Rightarrow> cs_EdgeName state)"

record retry_env =
  rv_cancelled :: bool
  rv_cred :: "join_error + Credentials"
  rv_uuid :: string
  rv_join :: join_env

fun retry_first ::
    "strategy_enum \<Rightarrow> (nat \<Rightarrow> retry_env) \<Rightarrow> nat \<Rightarrow> nat \<Rightarrow> join_error \<Rightarrow> call \<Rightarrow> (join_error + sfu_event) \<times> call" where
  "retry_first S env 0 n lastError c = (Inl lastError, c)"
| "retry_first S env (Suc i) n lastError c =
    (if \<not> isJoinErrorRetryable (Some lastError) then (Inl lastError, c)
     else if rv_cancelled (env n) then (Inl lastError, c)
     else
       let strategy = (if ca_next c \<noteq> MIGRATE S then REJOIN S else ca_next c); prevSFUID = edge_name c in
       case rv_cred (env n) of
         Inl err \<Rightarrow> retry_first S env i (Suc n) err c
       | Inr cred \<Rightarrow>
          (let (opts, c) = getReconnectOptions S (rv_uuid (env n)) strategy prevSFUID (SetCredentials cred c) in
           case Join_with S (\<lambda>err c. (Inl err, c)) (rv_join (env n)) opts c of
             (Inr resp, c) \<Rightarrow> (Inr resp, c)
           | (Inl err, c) \<Rightarrow> retry_first S env i (Suc n) err c))"

definition Join :: "strategy_enum \<Rightarrow> (nat \<Rightarrow> retry_env) \<Rightarrow> join_env \<Rightarrow> JoinOption list \<Rightarrow> call \<Rightarrow> (join_error + sfu_event) \<times> call" where
  "Join S renv env opts c = Join_with S (retry_first S renv 20 0) env opts c"

section \<open>Reconnecting\<close>

text \<open>The boolean of these functions is whether an error is returned. \<open>cred\<close> is what \<open>GetCred\<close> answers; \<open>oks\<close> and \<open>rpc\<close> answer the
  calls that restore the tracks.\<close>

definition restore_tracks :: "bool list \<Rightarrow> rpc_result \<Rightarrow> call \<Rightarrow> bool \<times> call" where
  "restore_tracks oks rpc c =
    (let (err, p, s) = restorePublishedAndSubscribedTracks oks rpc (ca_published c) (ca_subs c)
     in (err, c\<lparr>ca_published := p, ca_subs := s\<rparr>))"

definition rejoinReconnect :: "strategy_enum \<Rightarrow> retry_env \<Rightarrow> bool list \<Rightarrow> rpc_result \<Rightarrow> call \<Rightarrow> bool \<times> call" where
  "rejoinReconnect S env oks rpc c =
    (let prevSFUID = edge_name c in
     case rv_cred env of
       Inl err \<Rightarrow> (True, c)
     | Inr cred \<Rightarrow>
        (let (opts, c) = getReconnectOptions S (rv_uuid env) (REJOIN S) prevSFUID (SetCredentials cred c) in
         case Join S (\<lambda>_. env) (rv_join env) opts c of
           (Inl err, c) \<Rightarrow> (True, c)
         | (Inr resp, c) \<Rightarrow> restore_tracks oks rpc c))"

definition fastReconnect :: "strategy_enum \<Rightarrow> retry_env \<Rightarrow> call \<Rightarrow> bool \<times> call" where
  "fastReconnect S env c =
    (let (opts, c) = getReconnectOptions S (rv_uuid env) (FAST S) (edge_name c) c in
     case Join S (\<lambda>_. env) (rv_join env) opts c of
       (Inl err, c) \<Rightarrow> (True, c)
     | (Inr resp, c) \<Rightarrow> (False, c))"

text \<open>The events that reach a client's read loop: none without an open websocket.\<close>

definition readable :: "client \<Rightarrow> sfu_event list \<Rightarrow> sfu_event list" where
  "readable cl es =
    (case sc_conn cl of None \<Rightarrow> [] | Some k \<Rightarrow> if cn_closed (sc_conns cl ! k) then [] else es)"

definition awaitMigrationCompleteOn :: "nat \<Rightarrow> call \<Rightarrow> nat \<times> call" where
  "awaitMigrationCompleteOn i c =
    (let cl = ca_clients c ! i; (a, st) = NewEventAwaiter (\<lambda>e. fst e = K_ParticipantMigrationComplete) (sc_store cl)
     in (a, c\<lparr>ca_clients := (ca_clients c)[i := cl\<lparr>sc_store := st\<rparr>]\<rparr>))"

text \<open>\<open>migrateToNewSFU\<close>; \<open>previous\<close> is the client of the SFU being left with the awaiter, \<open>arrived\<close> what that SFU sends before the deadline.\<close>

definition migrateToNewSFU ::
    "strategy_enum \<Rightarrow> retry_env \<Rightarrow> bool list \<Rightarrow> rpc_result \<Rightarrow> sfu_event list \<Rightarrow> string \<Rightarrow> (nat \<times> nat) option \<Rightarrow> call \<Rightarrow> bool \<times> call" where
  "migrateToNewSFU S env oks rpc arrived fromEdge previous c =
    (let (opts, c) = getReconnectOptions S (rv_uuid env) (MIGRATE S) fromEdge c in
     case Join S (\<lambda>_. env) (rv_join env) opts c of
       (Inl err, c) \<Rightarrow> (True, c)
     | (Inr resp, c) \<Rightarrow>
        (case restore_tracks oks rpc c of
           (True, c) \<Rightarrow> (True, c)
         | (False, c) \<Rightarrow>
            (case previous of
               None \<Rightarrow> (False, c)
             | Some (i, a) \<Rightarrow>
                (let c = on_client (\<lambda>cl. fold client_handle (readable cl arrived) cl) (Some i) c
                 in case await_receive a (sc_store (ca_clients c ! i)) of
                      None \<Rightarrow> (True, on_client (\<lambda>cl. cl\<lparr>sc_store := await_timeout a (sc_store cl)\<rparr>) (Some i) c)
                    | Some _ \<Rightarrow> (False, c)))))"

text \<open>\<open>migrate\<close>: the awaiter on the old SFU, the old peer detached and a fresh one installed; then the new SFU, and what is released
  when that is done or has failed.\<close>

definition begin_migration :: "Credentials \<Rightarrow> call \<Rightarrow> (nat \<times> nat) option \<times> call" where
  "begin_migration targetCred c =
    (let previous = ca_peer c;
         (migrationComplete, c) =
           (case pe_client previous of
              None \<Rightarrow> (None, c)
            | Some i \<Rightarrow> (let (a, c) = awaitMigrationCompleteOn i c in (Some (i, a), c)));
         c = detach_peer previous c;
         c = c\<lparr>ca_connState := Migrating,
               ca_peer := \<lparr>pe_client = Some (length (ca_clients c)), pe_subscriber = None, pe_publisher = None\<rparr>,
               ca_published := (ca_published c)\<lparr>pt_peer := None\<rparr>, ca_clients := ca_clients c @ [new_client]\<rparr>
     in (migrationComplete, SetCredentials targetCred c))"

definition migrate ::
    "strategy_enum \<Rightarrow> retry_env \<Rightarrow> bool list \<Rightarrow> rpc_result \<Rightarrow> sfu_event list \<Rightarrow> string \<Rightarrow> Credentials \<Rightarrow> call \<Rightarrow> bool \<times> call" where
  "migrate S env oks rpc arrived fromEdge targetCred c =
    (let previous = ca_peer c; (migrationComplete, c) = begin_migration targetCred c
     in case migrateToNewSFU S env oks rpc arrived fromEdge migrationComplete c of
          (True, c) \<Rightarrow> (True, release previous (release (ca_peer c) c))
        | (False, c) \<Rightarrow> (False, (release previous c)\<lparr>ca_connState := Connected\<rparr>))"

definition migrateReconnect ::
    "strategy_enum \<Rightarrow> retry_env \<Rightarrow> bool list \<Rightarrow> rpc_result \<Rightarrow> sfu_event list \<Rightarrow> call \<Rightarrow> bool \<times> call" where
  "migrateReconnect S env oks rpc arrived c =
    (let fromEdge = (case ca_cred c of None \<Rightarrow> [] | Some cred \<Rightarrow> cr_EdgeName cred) in
     case rv_cred env of
       Inl err \<Rightarrow> (True, c)
     | Inr cred \<Rightarrow> migrate S env oks rpc arrived fromEdge cred c)"

definition reconnect ::
    "strategy_enum \<Rightarrow> int \<Rightarrow> retry_env \<Rightarrow> bool list \<Rightarrow> rpc_result \<Rightarrow> sfu_event list \<Rightarrow> call \<Rightarrow> bool \<times> call" where
  "reconnect S strategy env oks rpc arrived c =
    (if strategy = FAST S then fastReconnect S env c
     else if strategy = REJOIN S then rejoinReconnect S env oks rpc c
     else if strategy = MIGRATE S then migrateReconnect S env oks rpc arrived c
     else (False, c))"

section \<open>Leaving\<close>

text \<open>\<open>Leave\<close> once the last report is sent: the error returned, if one is. Without a client the call panics.\<close>

datatype leave_result = LeaveOk | LeaveError | LeavePanic

definition Leave :: "strategy_enum \<Rightarrow> bool \<Rightarrow> bool \<Rightarrow> call \<Rightarrow> leave_result \<times> call" where
  "Leave S written ok c =
    (case pe_client (ca_peer c) of
       None \<Rightarrow> (LeavePanic, c)
     | Some i \<Rightarrow>
        (if fst (SendLeaveCallRequest written (ca_clients c ! i)) then (LeaveError, c)
         else (LeaveOk, disconnect_with S ok (DISCONNECT S) c)))"

definition RefreshState :: "(join_error + Credentials \<times> nat) \<Rightarrow> call \<Rightarrow> bool \<times> call" where
  "RefreshState answer c =
    (case ca_state c of
       None \<Rightarrow> (True, c)
     | Some state \<Rightarrow>
        (if cs_JoinCallRequest state = None then (True, c)
         else case answer of
           Inl err \<Rightarrow> (True, c)
         | Inr (cred, response) \<Rightarrow> (False, SetCredentials cred (c\<lparr>ca_state := Some (state\<lparr>cs_Response := response\<rparr>)\<rparr>))))"

end
