(* ===== verification/Peers.thy ===== *)
theory Peers
  imports Codecs IceRecovery Participants CallSession
begin

text \<open>
  The two peer connections of a call, \<open>publisher.go\<close> and \<open>subscriber.go\<close>: how they are set up, what they do as handlers of
  their \<open>Transport\<close> and with their \<open>iceRecovery\<close>, and how the events of the SFU reach them. pion, the RPCs and the set of
  tracks are arguments.
\<close>

section \<open>Setting up\<close>

text \<open>Interceptors in the order of the registry. A registry that the application passes in is a pointer: what is added to it stays there.\<close>

datatype interceptor = OwnInterceptor nat | StatsInterceptor | NackResponder | NackGenerator nat | RTCPReports | TWCCSender | RTXProber

record ice_server =
  is_URLs :: "string list"
  is_Username :: string
  is_Credential :: string

text \<open>\<open>pcf_engine\<close> is what the media engine was given: \<open>None\<close> is a nil engine. Feedback is a type and a parameter, for video.\<close>

record peer_config =
  pcf_engine :: "(string \<times> string) list option"
  pcf_registry :: "interceptor list option"
  pcf_ICEServers :: "ice_server list option"

text \<open>What the call passes: the attempt and the edge it is on, its ICE servers, whether it traces and whether RTCP is left to the application.\<close>

record peer_params =
  pp_attempts :: uint32
  pp_edge :: string
  pp_iceServers :: "ice_server list"
  pp_statsEnabled :: bool
  pp_externalRTCP :: bool
  pp_recovery :: ICERecoveryConfig

text \<open>Each constructor of pion's that can fail, by the error it returns.\<close>

record setup_env =
  se_codecs :: "string option"
  se_stats :: "string option"
  se_nack :: "string option"
  se_reports :: "string option"
  se_twcc :: "string option"
  se_transport :: "string option"

definition attempt_number :: "peer_params \<Rightarrow> int" where
  "attempt_number P = uint (pp_attempts P) - 1"

definition nack_feedback :: "(string \<times> string) list" where
  "nack_feedback = [(''nack'', []), (''nack'', ''pli'')]"

text \<open>The configuration as it is after a constructor; the error is \<open>Inl\<close>. \<open>configureNack\<close> registers the feedback before its interceptor can fail.\<close>

definition configureNack :: "string option \<Rightarrow> (string \<times> string) list \<times> interceptor list \<Rightarrow> string option \<times> (string \<times> string) list \<times> interceptor list" where
  "configureNack err s =
    (let (me, reg) = s; me = me @ nack_feedback
     in case err of Some e \<Rightarrow> (Some e, me, reg) | None \<Rightarrow> (None, me, reg @ [NackResponder]))"

definition publisher_ice_servers :: "peer_params \<Rightarrow> ice_server list option \<Rightarrow> ice_server list option" where
  "publisher_ice_servers P given =
    (case given of Some ss \<Rightarrow> Some ss | None \<Rightarrow> (if pp_iceServers P = [] then None else Some (pp_iceServers P)))"

definition engine_of :: "peer_config \<Rightarrow> (string \<times> string) list" where
  "engine_of cfg = (case pcf_engine cfg of None \<Rightarrow> [] | Some me \<Rightarrow> me)"

definition registry_of :: "peer_config \<Rightarrow> interceptor list" where
  "registry_of cfg = (case pcf_registry cfg of None \<Rightarrow> [] | Some reg \<Rightarrow> reg)"

definition publisher_interceptors ::
    "setup_env \<Rightarrow> (string \<times> string) list \<times> interceptor list \<Rightarrow> string option \<times> (string \<times> string) list \<times> interceptor list" where
  "publisher_interceptors E s =
    (let (me, reg) = s in
     case se_stats E of Some e \<Rightarrow> (Some e, me, reg) | None \<Rightarrow>
       (case configureNack (se_nack E) (me, reg @ [StatsInterceptor]) of
          (Some e, me, reg) \<Rightarrow> (Some e, me, reg)
        | (None, me, reg) \<Rightarrow>
           (case se_reports E of
              Some e \<Rightarrow> (Some e, me, reg)
            | None \<Rightarrow> (None, me, reg @ [RTCPReports, RTXProber]))))"

definition subscriber_interceptors ::
    "bool \<Rightarrow> setup_env \<Rightarrow> (string \<times> string) list \<times> interceptor list \<Rightarrow> string option \<times> (string \<times> string) list \<times> interceptor list" where
  "subscriber_interceptors externalRTCP E s =
    (let (me, reg) = s in
     case se_stats E of Some e \<Rightarrow> (Some e, me, reg) | None \<Rightarrow>
       (let reg = reg @ [StatsInterceptor] in
        if externalRTCP then (None, me, reg)
        else case se_nack E of
               Some e \<Rightarrow> (Some e, me, reg)
             | None \<Rightarrow>
                (let me = me @ nack_feedback; reg = reg @ [NackGenerator 3] in
                 case se_reports E of
                   Some e \<Rightarrow> (Some e, me, reg)
                 | None \<Rightarrow>
                    (case se_twcc E of
                       Some e \<Rightarrow> (Some e, me, reg @ [RTCPReports])
                     | None \<Rightarrow> (None, me, reg @ [RTCPReports, TWCCSender])))))"

text \<open>What is left in the application's own engine and registry.\<close>

definition written_back :: "peer_config \<Rightarrow> (string \<times> string) list \<times> interceptor list \<Rightarrow> peer_config" where
  "written_back cfg s = cfg\<lparr>pcf_engine := map_option (\<lambda>_. fst s) (pcf_engine cfg), pcf_registry := map_option (\<lambda>_. snd s) (pcf_registry cfg)\<rparr>"

section \<open>The publisher\<close>

record full_info = track_info +
  ti_Stereo :: bool
  ti_Red :: bool

text \<open>A local track: the MIME type of its codec, if it says, and whether it is one of package \<open>track\<close>.\<close>

record local_track =
  lt_Codec :: "string option"
  lt_isLocal :: bool

record transceiver =
  tc_stereo :: bool
  tc_nack :: bool
  tc_tracks :: "nat list"
  tc_preferences :: "rtp_codec list option"

record track_details =
  td_Info :: full_info
  td_Tracks :: "nat list"
  td_Transceiver :: "nat option"

record 's publisher =
  pu_transport :: transport
  pu_tracks :: 's
  pu_iceRecovery :: iceRecovery
  pu_Tracing :: "TraceBuffer option"
  pu_bound :: bool
  pu_interceptors :: "interceptor list"
  pu_iceServers :: "ice_server list option"
  pu_transceivers :: "transceiver list"
  pu_setTransceiver :: "(nat \<times> nat) list"

definition newPublisher ::
    "(json list \<Rightarrow> string) \<Rightarrow> int \<Rightarrow> json \<Rightarrow> 's \<Rightarrow> setup_env \<Rightarrow> peer_params \<Rightarrow> peer_config \<Rightarrow> (string + 's publisher) \<times> peer_config" where
  "newPublisher marshal ts config s0 E P cfg =
    (case publisher_interceptors E (engine_of cfg, registry_of cfg) of
       (Some e, s) \<Rightarrow> (Inl e, written_back cfg s)
     | (None, s) \<Rightarrow>
        (let cfg' = written_back cfg s in
         case se_transport E of
           Some e \<Rightarrow> (Inl e, cfg')
         | None \<Rightarrow>
            (Inr \<lparr>pu_transport = NewPCTransport, pu_tracks = s0, pu_iceRecovery = newICERecovery (pp_recovery P),
               pu_Tracing = Emit marshal ''create'' config ts
                 (if pp_statsEnabled P then Some (NewPubTraceBuffer [] (attempt_number P) (pp_edge P)) else None),
               pu_bound = True, pu_interceptors = snd s, pu_iceServers = publisher_ice_servers P (pcf_ICEServers cfg),
               pu_transceivers = [], pu_setTransceiver = []\<rparr>, cfg')))"

text \<open>What pion answers to adding a track: errors of \<open>AddTransceiverFromTrack\<close>, of \<open>SetCodecPreferences\<close> and of each
  \<open>AddEncoding\<close>, whether the transceiver has a sender and the codecs of its parameters.\<close>

record add_env =
  ae_transceiver :: "string option"
  ae_sender :: bool
  ae_codecs :: "rtp_codec list"
  ae_preferences :: "string option"
  ae_encoding :: "nat \<Rightarrow> string option"

definition ErrNoSender :: string where "ErrNoSender = ''sender not available''"

definition RTPCodecParameters :: "bool \<Rightarrow> pion_names \<Rightarrow> local_track \<Rightarrow> rtp_codec list" where
  "RTPCodecParameters audio_first N t =
    (case lt_Codec t of None \<Rightarrow> [] | Some mime \<Rightarrow> GetCodecPreferencesByMimeType audio_first N mime)"

definition on_transceiver :: "nat \<Rightarrow> (transceiver \<Rightarrow> transceiver) \<Rightarrow> 's publisher \<Rightarrow> 's publisher" where
  "on_transceiver k f p = p\<lparr>pu_transceivers := (pu_transceivers p)[k := f (pu_transceivers p ! k)]\<rparr>"

definition configureTransceiver :: "pion_names \<Rightarrow> add_env \<Rightarrow> nat \<Rightarrow> rtp_codec list \<Rightarrow> 's publisher \<Rightarrow> string option \<times> 's publisher" where
  "configureTransceiver N A k desiredCodecs p =
    (if \<not> ae_sender A then (Some ErrNoSender, p)
     else case preferences_for N desiredCodecs (ae_codecs A) of
            None \<Rightarrow> (None, p)
          | Some codecs \<Rightarrow>
             (case ae_preferences A of
                Some e \<Rightarrow> (Some e, p)
              | None \<Rightarrow> (None, on_transceiver k (\<lambda>t. t\<lparr>tc_preferences := Some codecs\<rparr>) p)))"

text \<open>\<open>Transport.AddTrack\<close>: a send-only transceiver for the track.\<close>

definition Transport_AddTrack :: "add_env \<Rightarrow> nat \<Rightarrow> bool \<Rightarrow> bool \<Rightarrow> 's publisher \<Rightarrow> (string + nat) \<times> 's publisher" where
  "Transport_AddTrack A t stereo red p =
    (case ae_transceiver A of
       Some e \<Rightarrow> (Inl e, p)
     | None \<Rightarrow> (Inr (length (pu_transceivers p)),
         p\<lparr>pu_transceivers := pu_transceivers p @ [\<lparr>tc_stereo = stereo, tc_nack = \<not> red, tc_tracks = [t], tc_preferences = None\<rparr>]\<rparr>))"

definition Set_tracks :: "(string, track_details, 's) skipset \<Rightarrow> track_details \<Rightarrow> 's publisher \<Rightarrow> 's publisher" where
  "Set_tracks S d p = p\<lparr>pu_tracks := ss_Set S (pu_tracks p) (ti_TrackId (td_Info d)) d\<rparr>"

definition AddTrack_pub ::
    "(string, track_details, 's) skipset \<Rightarrow> bool \<Rightarrow> pion_names \<Rightarrow> (nat \<Rightarrow> local_track) \<Rightarrow> add_env \<Rightarrow> full_info \<Rightarrow> nat \<Rightarrow> 's publisher \<Rightarrow> (string + nat option) \<times> 's publisher" where
  "AddTrack_pub S af N locals A info t p =
    (case Transport_AddTrack A t (ti_Stereo info \<and> \<not> ti_Red info) (ti_Red info) p of
       (Inl e, p) \<Rightarrow> (Inl e, p)
     | (Inr k, p) \<Rightarrow>
        (case configureTransceiver N A k (RTPCodecParameters af N (locals t)) p of
           (Some e, p) \<Rightarrow> (Inl e, p)
         | (None, p) \<Rightarrow>
            (Inr (Some k), Set_tracks S \<lparr>td_Info = info, td_Tracks = [t], td_Transceiver = Some k\<rparr> p)))"

definition SetTransceiver_local :: "(nat \<Rightarrow> local_track) \<Rightarrow> nat \<Rightarrow> nat \<Rightarrow> 's publisher \<Rightarrow> 's publisher" where
  "SetTransceiver_local locals t k p =
    (if lt_isLocal (locals t) then p\<lparr>pu_setTransceiver := pu_setTransceiver p @ [(t, k)]\<rparr> else p)"

text \<open>The layers after the first.\<close>

fun add_encodings :: "(nat \<Rightarrow> local_track) \<Rightarrow> add_env \<Rightarrow> nat \<Rightarrow> nat list \<Rightarrow> 's publisher \<Rightarrow> string option \<times> 's publisher" where
  "add_encodings locals A k [] p = (None, p)"
| "add_encodings locals A k (t # ts) p =
    (case ae_encoding A t of
       Some e \<Rightarrow> (Some e, p)
     | None \<Rightarrow> add_encodings locals A k ts
         (SetTransceiver_local locals t k (on_transceiver k (\<lambda>tc. tc\<lparr>tc_tracks := tc_tracks tc @ [t]\<rparr>) p)))"

definition AddSimulcastTracks_pub ::
    "(string, track_details, 's) skipset \<Rightarrow> bool \<Rightarrow> pion_names \<Rightarrow> (nat \<Rightarrow> local_track) \<Rightarrow> add_env \<Rightarrow> full_info \<Rightarrow> nat list \<Rightarrow> 's publisher \<Rightarrow> (string + nat option) \<times> 's publisher" where
  "AddSimulcastTracks_pub S af N locals A info tracks p =
    (case tracks of
       [] \<Rightarrow> (Inr None, Set_tracks S \<lparr>td_Info = info, td_Tracks = [], td_Transceiver = None\<rparr> p)
     | t # ts \<Rightarrow>
        (case Transport_AddTrack A t (ti_Stereo info) (ti_Red info) p of
           (Inl e, p) \<Rightarrow> (Inl e, p)
         | (Inr k, p) \<Rightarrow>
            (case configureTransceiver N A k (RTPCodecParameters af N (locals t)) p of
               (Some e, p) \<Rightarrow> (Inl e, p)
             | (None, p) \<Rightarrow>
                (case add_encodings locals A k ts (SetTransceiver_local locals t k p) of
                   (Some e, p) \<Rightarrow> (Inl e, p)
                 | (None, p) \<Rightarrow>
                    (Inr (Some k), Set_tracks S \<lparr>td_Info = info, td_Tracks = tracks, td_Transceiver = Some k\<rparr> p)))))"

section \<open>The publisher as a handler\<close>

record SetPublisherRequest =
  sp_Sdp :: string
  sp_SessionId :: string
  sp_Tracks :: "full_info list"

text \<open>The answer of an RPC: it fails, or it holds an error of the SFU or not.\<close>

datatype rpc_answer = RpcFailed string | RpcAnswered "sfu_error option" string

definition publisher_request :: "(string, track_details, 's) skipset \<Rightarrow> session_desc \<Rightarrow> string \<Rightarrow> 's publisher \<Rightarrow> SetPublisherRequest" where
  "publisher_request S sd session p = \<lparr>sp_Sdp = sd_SDP sd, sp_SessionId = session, sp_Tracks = map td_Info (ss_Range S (pu_tracks p))\<rparr>"

definition OnOffer_pub ::
    "(string, track_details, 's) skipset \<Rightarrow> (SetPublisherRequest \<Rightarrow> rpc_answer) \<Rightarrow> session_desc \<Rightarrow> uint32 \<Rightarrow> string \<Rightarrow> 's publisher \<Rightarrow> terr option \<times> 's publisher" where
  "OnOffer_pub S SetPublisher sd nid session p =
    (case SetPublisher (publisher_request S sd session p) of
       RpcFailed e \<Rightarrow> (Some (OtherErr e), p)
     | RpcAnswered (Some err) sdp \<Rightarrow> (Some (NegErr (NewNegotiationError ''SetPublisher failed'' None (Some err))), p)
     | RpcAnswered None sdp \<Rightarrow>
        (None, p\<lparr>pu_transport := HandleRemoteDescriptionWithNegotiationID \<lparr>sd_Type = SDPTypeAnswer, sd_SDP = sdp\<rparr> nid (pu_transport p)\<rparr>))"

text \<open>A local candidate: \<open>marshalled\<close> is its JSON or the error of encoding it, \<open>None\<close> a nil candidate; \<open>IceTrickle\<close> is the RPC. The
  publisher does not look at the error in the answer.\<close>

definition OnICECandidateSender_pub :: "(string \<Rightarrow> rpc_answer) \<Rightarrow> (string + string) option \<Rightarrow> string option" where
  "OnICECandidateSender_pub IceTrickle marshalled =
    (case marshalled of
       None \<Rightarrow> None
     | Some (Inl e) \<Rightarrow> Some e
     | Some (Inr json) \<Rightarrow> (case IceTrickle json of RpcFailed e \<Rightarrow> Some e | RpcAnswered _ _ \<Rightarrow> None))"

definition OnICECandidateSender_sub :: "(string \<Rightarrow> rpc_answer) \<Rightarrow> (string + string) option \<Rightarrow> string option" where
  "OnICECandidateSender_sub IceTrickle marshalled =
    (case marshalled of
       None \<Rightarrow> None
     | Some (Inl e) \<Rightarrow> Some e
     | Some (Inr json) \<Rightarrow>
        (case IceTrickle json of
           RpcFailed e \<Rightarrow> Some e
         | RpcAnswered (Some err) _ \<Rightarrow> Some (sfu_Message err)
         | RpcAnswered None _ \<Rightarrow> None))"

text \<open>The callbacks of the peer connection that are traced, with what is traced as JSON.\<close>

datatype pion_callback =
    AddIceCandidate_cb json | AddIceCandidateSuccess_cb | ConnectionStateChange_cb pc_state string | ICECandidate_cb "json option"
  | ICEConnectionStateChange_cb string | ICEGatheringStateChange_cb string | NegotiationNeeded_cb | SetLocalDescription_cb json
  | SetLocalDescriptionSuccess_cb | SetRemoteDescription_cb json | SetRemoteDescriptionSuccess_cb | SignalingStateChange_cb string

definition callback_event :: "pion_callback \<Rightarrow> string \<times> json" where
  "callback_event cb =
    (case cb of
       AddIceCandidate_cb j \<Rightarrow> (''addicecandidate'', j)
     | AddIceCandidateSuccess_cb \<Rightarrow> (''addicecandidatesuccess'', JNull)
     | ConnectionStateChange_cb st text \<Rightarrow> (''connectionstatechange'', JStr text)
     | ICECandidate_cb c \<Rightarrow> (''icecandidate'', case c of None \<Rightarrow> JNull | Some j \<Rightarrow> j)
     | ICEConnectionStateChange_cb text \<Rightarrow> (''iceconnectionstatechange'', JStr text)
     | ICEGatheringStateChange_cb text \<Rightarrow> (''icegatheringstatechange'', JStr text)
     | NegotiationNeeded_cb \<Rightarrow> (''negotiationneeded'', JNull)
     | SetLocalDescription_cb j \<Rightarrow> (''setlocaldescription'', j)
     | SetLocalDescriptionSuccess_cb \<Rightarrow> (''setlocaldescriptionsuccess'', JNull)
     | SetRemoteDescription_cb j \<Rightarrow> (''setremotedescription'', j)
     | SetRemoteDescriptionSuccess_cb \<Rightarrow> (''setremotedescriptionsuccess'', JNull)
     | SignalingStateChange_cb text \<Rightarrow> (''signalingstatechange'', JStr text))"

definition recovery_callback :: "pion_callback \<Rightarrow> iceRecovery \<Rightarrow> iceRecovery" where
  "recovery_callback cb r =
    (case cb of
       ConnectionStateChange_cb PCConnected _ \<Rightarrow> onConnected r
     | ConnectionStateChange_cb PCDisconnected _ \<Rightarrow> onDisconnected r
     | _ \<Rightarrow> r)"

definition OnCallback_pub :: "(json list \<Rightarrow> string) \<Rightarrow> int \<Rightarrow> pion_callback \<Rightarrow> 's publisher \<Rightarrow> 's publisher" where
  "OnCallback_pub marshal ts cb p =
    (let (event, payload) = callback_event cb
     in p\<lparr>pu_Tracing := Emit marshal event payload ts (pu_Tracing p), pu_iceRecovery := recovery_callback cb (pu_iceRecovery p)\<rparr>)"

definition OnInitialConnected_pub :: "'s publisher \<Rightarrow> 's publisher" where
  "OnInitialConnected_pub p = p\<lparr>pu_iceRecovery := onConnected (pu_iceRecovery p)\<rparr>"

text \<open>What the callbacks of the recovery do next runs in their goroutines, \<open>i\<close> being one of them; the publisher restarts
  ICE through its own transport.\<close>

definition OnFailed_pub :: "ConnectionInfo \<Rightarrow> 's publisher \<Rightarrow> 's publisher" where
  "OnFailed_pub info p = p\<lparr>pu_iceRecovery := onFailed info (pu_iceRecovery p)\<rparr>"

definition at_restart :: "nat \<Rightarrow> iceRecovery \<Rightarrow> bool" where
  "at_restart i r \<longleftrightarrow> i < length (ir_threads r) \<and> ir_threads r ! i = Restarting"

definition recovery_runs_pub :: "pc_env \<Rightarrow> nat \<Rightarrow> 's publisher \<Rightarrow> 's publisher" where
  "recovery_runs_pub env i p =
    (let (err, t) = ICERestart env (pu_transport p)
     in p\<lparr>pu_iceRecovery := run_thread (err = None) i (pu_iceRecovery p),
          pu_transport := (if at_restart i (pu_iceRecovery p) then t else pu_transport p)\<rparr>)"

definition Unbind_pub :: "'s publisher \<Rightarrow> 's publisher" where
  "Unbind_pub p = p\<lparr>pu_bound := False\<rparr>"

definition Close_pub :: "'s publisher \<Rightarrow> 's publisher" where
  "Close_pub p = p\<lparr>pu_iceRecovery := close_recovery (pu_iceRecovery p), pu_transport := Transport.Close (pu_transport p)\<rparr>"

section \<open>The subscriber\<close>

record subscribedTrackEntry =
  ste_SSRC :: uint32
  ste_TrackID :: string
  ste_StreamID :: string
  ste_TrackType :: TrackType
  ste_Codec :: RtcStats.codec_params
  ste_RID :: string

text \<open>What the application's \<open>OnTrack\<close> is called with; a participant is its address in the store.\<close>

record OnTrackReceived =
  otr_ParticipantID :: ParticipantID
  otr_TrackType :: TrackType
  otr_Participant :: "nat option"
  otr_SSRC :: uint32

text \<open>\<open>sb_restarts\<close> counts the ICE restarts asked for after failed negotiations, \<open>sb_rejoins\<close> the rejoins the subscriber forces itself,
  \<open>sb_failures\<close> are the negotiation errors handed to the call.\<close>

record 't subscriber =
  sb_transport :: transport
  sb_iceRestartRequestNum :: int
  sb_subscribedTracks :: 't
  sb_iceRecovery :: iceRecovery
  sb_Tracing :: "TraceBuffer option"
  sb_bound :: bool
  sb_interceptors :: "interceptor list"
  sb_received :: "OnTrackReceived list"
  sb_restarts :: nat
  sb_rejoins :: nat
  sb_failures :: "NegotiationError list"

definition newSubscriber ::
    "(json list \<Rightarrow> string) \<Rightarrow> int \<Rightarrow> json \<Rightarrow> 't \<Rightarrow> setup_env \<Rightarrow> peer_params \<Rightarrow> peer_config \<Rightarrow> (string + 't subscriber) \<times> peer_config" where
  "newSubscriber marshal ts config s0 E P cfg =
    (if pcf_engine cfg = None \<and> se_codecs E \<noteq> None then (Inl (the (se_codecs E)), cfg)
     else
       case subscriber_interceptors (pp_externalRTCP P) E (engine_of cfg, registry_of cfg) of
         (Some e, s) \<Rightarrow> (Inl e, written_back cfg s)
       | (None, s) \<Rightarrow>
          (let cfg' = written_back cfg s in
           case se_transport E of
             Some e \<Rightarrow> (Inl e, cfg')
           | None \<Rightarrow>
              (Inr \<lparr>sb_transport = NewPCTransport, sb_iceRestartRequestNum = 0, sb_subscribedTracks = s0,
                 sb_iceRecovery = newICERecovery (pp_recovery P),
                 sb_Tracing = Emit marshal ''create'' config ts
                   (if pp_statsEnabled P then Some (NewSubTraceBuffer [] (attempt_number P) (pp_edge P)) else None),
                 sb_bound = True, sb_interceptors = snd s, sb_received = [], sb_restarts = 0, sb_rejoins = 0, sb_failures = []\<rparr>, cfg')))"

text \<open>\<open>requestICERestart\<close>: \<open>None\<close> when the SFU accepts.\<close>

definition requestICERestart :: "rpc_answer \<Rightarrow> string option" where
  "requestICERestart answer =
    (case answer of
       RpcFailed e \<Rightarrow> Some e
     | RpcAnswered (Some err) _ \<Rightarrow> Some (''sfu rejected the subscriber ice restart: '' @ sfu_Message err)
     | RpcAnswered None _ \<Rightarrow> None)"

definition OnCallback_sub :: "(json list \<Rightarrow> string) \<Rightarrow> int \<Rightarrow> pion_callback \<Rightarrow> 't subscriber \<Rightarrow> 't subscriber" where
  "OnCallback_sub marshal ts cb s =
    (let (event, payload) = callback_event cb
     in s\<lparr>sb_Tracing := Emit marshal event payload ts (sb_Tracing s), sb_iceRecovery := recovery_callback cb (sb_iceRecovery s)\<rparr>)"

definition OnInitialConnected_sub :: "'t subscriber \<Rightarrow> 't subscriber" where
  "OnInitialConnected_sub s = s\<lparr>sb_iceRecovery := onConnected (sb_iceRecovery s)\<rparr>"

text \<open>\<open>conn\<close> is the websocket of the call's client, if it has one, with whether it is closed.\<close>

definition OnFailed_sub :: "bool option \<Rightarrow> ConnectionInfo \<Rightarrow> 't subscriber \<Rightarrow> 't subscriber" where
  "OnFailed_sub conn info s =
    (let dead = (case conn of None \<Rightarrow> True | Some gone \<Rightarrow> gone) in
     if dead then s\<lparr>sb_rejoins := sb_rejoins s + 1\<rparr>
     else s\<lparr>sb_iceRecovery := onFailed info (sb_iceRecovery s)\<rparr>)"

definition OnNegotiationFailed_sub :: "NegotiationError \<Rightarrow> 't subscriber \<Rightarrow> 't subscriber" where
  "OnNegotiationFailed_sub err s =
    (let s = s\<lparr>sb_failures := sb_failures s @ [err]\<rparr> in
     if sb_iceRestartRequestNum s > 3 then s
     else s\<lparr>sb_iceRestartRequestNum := i64 (sb_iceRestartRequestNum s + 1), sb_restarts := sb_restarts s + 1\<rparr>)"

text \<open>A step of a goroutine of the recovery. The restart it may be in asks the SFU, which takes up to five seconds and does not
  hold the mutex.\<close>

definition recovery_runs_sub :: "rpc_answer \<Rightarrow> nat \<Rightarrow> 't subscriber \<Rightarrow> 't subscriber" where
  "recovery_runs_sub answer i s = s\<lparr>sb_iceRecovery := run_thread (requestICERestart answer = None) i (sb_iceRecovery s)\<rparr>"

text \<open>\<open>before\<close> is the application's hook; \<open>SendAnswer\<close> the RPC on the request it leaves.\<close>

record SendAnswerRequest =
  sa_Sdp :: string
  sa_SessionId :: string
  sa_NegotiationId :: uint32

definition OnAnswer_sub ::
    "(SendAnswerRequest \<Rightarrow> string + SendAnswerRequest) option \<Rightarrow> (SendAnswerRequest \<Rightarrow> rpc_answer) \<Rightarrow> session_desc \<Rightarrow> uint32 \<Rightarrow> string \<Rightarrow> string option" where
  "OnAnswer_sub before SendAnswer sd nid session =
    (let req = \<lparr>sa_Sdp = sd_SDP sd, sa_SessionId = session, sa_NegotiationId = nid\<rparr> in
     case (case before of None \<Rightarrow> Inr req | Some f \<Rightarrow> f req) of
       Inl e \<Rightarrow> Some e
     | Inr req \<Rightarrow>
        (case SendAnswer req of
           RpcFailed e \<Rightarrow> Some e
         | RpcAnswered (Some err) _ \<Rightarrow> Some (sfu_Message err)
         | RpcAnswered None _ \<Rightarrow> None))"

definition Unbind_sub :: "'t subscriber \<Rightarrow> 't subscriber" where
  "Unbind_sub s = s\<lparr>sb_bound := False\<rparr>"

definition Close_sub :: "'t subscriber \<Rightarrow> 't subscriber" where
  "Close_sub s = s\<lparr>sb_iceRecovery := close_recovery (sb_iceRecovery s), sb_transport := Transport.Close (sb_transport s)\<rparr>"

section \<open>Tracks that arrive\<close>

text \<open>\<open>trackOwner\<close>: lookup number \<open>n\<close> answers \<open>look n\<close>, \<open>None\<close> for a panic; \<open>clock 0\<close> is when the wait starts and \<open>clock (n + 1)\<close> when
  lookup \<open>n\<close> is followed by a look at the clock. Not returning is \<open>None\<close>.\<close>

definition trackOwnerWait :: duration where "trackOwnerWait = 2 * Second"

partial_function (option) owner_loop ::
    "(nat \<Rightarrow> (nat option \<times> TrackType) option) \<Rightarrow> (nat \<Rightarrow> time) \<Rightarrow> nat \<Rightarrow> ((nat option \<times> TrackType) option \<times> nat) option" where
  "owner_loop look clock n =
    (case look n of
       None \<Rightarrow> Some (None, n)
     | Some (p, tt) \<Rightarrow>
        if p \<noteq> None \<or> clock (n + 1) > clock 0 + trackOwnerWait then Some (Some (p, tt), n)
        else owner_loop look clock (n + 1))"

definition trackOwner ::
    "('s, 't, 'u) skipsets \<Rightarrow> (string \<Rightarrow> TrackType) \<Rightarrow> (nat \<Rightarrow> ('s, 't, 'u) ParticipantStore) \<Rightarrow> (nat \<Rightarrow> time) \<Rightarrow> string \<Rightarrow> ((nat option \<times> TrackType) option \<times> nat) option" where
  "trackOwner S names stores clock streamID = owner_loop (\<lambda>n. LookupParticipantByTrack S names (stores n) streamID) clock 0"

text \<open>A remote track, and the participant's id by its address.\<close>

record remote_track =
  rm_SSRC :: uint32
  rm_ID :: string
  rm_StreamID :: string
  rm_RID :: string
  rm_Codec :: RtcStats.codec_params
  rm_Kind :: string

definition track_entry :: "remote_track \<Rightarrow> TrackType \<Rightarrow> subscribedTrackEntry" where
  "track_entry t tt = \<lparr>ste_SSRC = rm_SSRC t, ste_TrackID = rm_ID t, ste_StreamID = rm_StreamID t, ste_TrackType = tt,
     ste_Codec = rm_Codec t, ste_RID = rm_RID t\<rparr>"

definition OnTrack_sub ::
    "(json list \<Rightarrow> string) \<Rightarrow> int \<Rightarrow> (uint32, subscribedTrackEntry, 't) skipset \<Rightarrow> (nat \<Rightarrow> ParticipantID) \<Rightarrow> remote_track \<Rightarrow> nat option \<times> TrackType \<Rightarrow> 't subscriber \<Rightarrow> 't subscriber" where
  "OnTrack_sub marshal ts S pid t owner s =
    (let (participant, tt) = owner;
         received = \<lparr>otr_ParticipantID = (case participant of None \<Rightarrow> ([], []) | Some a \<Rightarrow> pid a), otr_TrackType = tt,
                     otr_Participant = participant, otr_SSRC = rm_SSRC t\<rparr>
     in s\<lparr>sb_subscribedTracks := ss_Set S (sb_subscribedTracks s) (rm_SSRC t) (track_entry t tt),
          sb_received := sb_received s @ [received],
          sb_Tracing := Emit marshal ''ontrack'' (JStr (rm_Kind t @ '':'' @ rm_ID t @ '' stream:'' @ rm_StreamID t)) ts (sb_Tracing s)\<rparr>)"

section \<open>Events of the SFU\<close>

definition OnSubscriberOffer :: "string \<Rightarrow> uint32 \<Rightarrow> 't subscriber option \<Rightarrow> 't subscriber option" where
  "OnSubscriberOffer sdp nid sub =
    map_option (\<lambda>s. s\<lparr>sb_transport := HandleRemoteDescriptionWithNegotiationID \<lparr>sd_Type = SDPTypeOffer, sd_SDP = sdp\<rparr> nid (sb_transport s)\<rparr>) sub"

text \<open>The peer a candidate is for: the subscriber, the publisher or one the client does not know. A candidate that does not parse is \<open>None\<close>.\<close>

datatype peer_type = PeerSubscriber | PeerPublisher | PeerOther

definition OnIceTrickle ::
    "ice_candidate option \<Rightarrow> peer_type \<Rightarrow> 't subscriber option \<times> 's publisher option \<Rightarrow> 't subscriber option \<times> 's publisher option" where
  "OnIceTrickle candidate ty peers =
    (case candidate of
       None \<Rightarrow> peers
     | Some c \<Rightarrow>
        (case ty of
           PeerSubscriber \<Rightarrow> (map_option (\<lambda>s. s\<lparr>sb_transport := AddICECandidate c (sb_transport s)\<rparr>) (fst peers), snd peers)
         | PeerPublisher \<Rightarrow> (fst peers, map_option (\<lambda>p. p\<lparr>pu_transport := AddICECandidate c (pu_transport p)\<rparr>) (snd peers))
         | PeerOther \<Rightarrow> peers))"

definition OnIceRestart :: "pc_env \<Rightarrow> 's publisher option \<Rightarrow> 's publisher option" where
  "OnIceRestart env pub = map_option (\<lambda>p. p\<lparr>pu_transport := snd (ICERestart env (pu_transport p))\<rparr>) pub"

text \<open>Without a subscriber the error is \<open>Some\<close>; \<open>WriteRTCP\<close> is pion's.\<close>

definition SendSubscriberRTCP :: "('t subscriber \<Rightarrow> string option) \<Rightarrow> 't subscriber option \<Rightarrow> string option" where
  "SendSubscriberRTCP WriteRTCP sub =
    (case sub of None \<Rightarrow> Some ''send subscriber rtcp: no peer connection'' | Some s \<Rightarrow> WriteRTCP s)"

section \<open>Samples\<close>

definition pion_accepts :: setup_env where
  "pion_accepts = \<lparr>se_codecs = None, se_stats = None, se_nack = None, se_reports = None, se_twcc = None, se_transport = None\<rparr>"

definition sample_params :: peer_params where
  "sample_params = \<lparr>pp_attempts = 1, pp_edge = ''sfu'', pp_iceServers = [], pp_statsEnabled = False, pp_externalRTCP = False,
     pp_recovery = defaultICERecoveryConfig\<rparr>"

definition sample_config :: peer_config where
  "sample_config = \<lparr>pcf_engine = None, pcf_registry = Some [], pcf_ICEServers = None\<rparr>"

definition sample_subscriber :: "(uint32 \<times> subscribedTrackEntry) list subscriber" where
  "sample_subscriber = projr (fst (newSubscriber (\<lambda>_. []) 0 JNull [] pion_accepts sample_params sample_config))"

end
