(* ===== verification/PeerStats.thy ===== *)
theory PeerStats
  imports Peers
begin

text \<open>
  The statistics of the two peers, \<open>GetStats\<close> and \<open>GetRtcStats\<close> of \<open>publisher.go\<close> and \<open>subscriber.go\<close>, and reporting them
  on a timer, \<open>report\<close>, \<open>statsTick\<close> and \<open>webrtcStatsWorker\<close> of \<open>call.go\<close>. What pion and the application's providers
  have collected are arguments; \<open>'f\<close> stands for floats and \<open>seconds\<close> for \<open>Duration.Seconds\<close>. Maps that Go iterates
  are lists in the order they are iterated.
\<close>

section \<open>Statistics\<close>

text \<open>What pion's interceptor has collected for an SSRC: what came in, what went out and what the other side said of both.\<close>

record 'f collected =
  in_PacketsReceived :: uint64
  in_PacketsLost :: int
  in_Jitter :: 'f
  in_LastPacketReceivedTimestamp :: time
  in_BytesReceived :: uint64
  in_FIRCount :: uint32
  in_PLICount :: uint32
  in_NACKCount :: uint32
  out_PacketsSent :: uint64
  out_BytesSent :: uint64
  out_FIRCount :: uint32
  out_PLICount :: uint32
  out_NACKCount :: uint32
  rin_PacketsReceived :: uint64
  rin_PacketsLost :: int
  rin_Jitter :: 'f
  rin_RoundTripTime :: duration
  rin_TotalRoundTripTime :: duration
  rin_FractionLost :: 'f
  rin_RoundTripTimeMeasurements :: uint64
  rout_PacketsSent :: uint64
  rout_BytesSent :: uint64
  rout_RemoteTimeStamp :: time
  rout_ReportsSent :: uint64
  rout_RoundTripTime :: duration
  rout_TotalRoundTripTime :: duration
  rout_RoundTripTimeMeasurements :: uint64

record 'f encoder_stats =
  en_FrameHeight :: uint32
  en_FrameWidth :: uint32
  en_FramesPerSecond :: 'f
  en_FramesEncoded :: uint32
  en_KeyFramesEncoded :: uint32
  en_TotalEncodeTime :: 'f

record 'f outbound_stats =
  ob_Timestamp :: int
  ob_ID :: string
  ob_RemoteID :: string
  ob_SSRC :: uint32
  ob_Kind :: string
  ob_CodecID :: string
  ob_TrackID :: string
  ob_Rid :: string
  ob_FIRCount :: uint32
  ob_PLICount :: uint32
  ob_NACKCount :: uint32
  ob_PacketsSent :: uint32
  ob_BytesSent :: uint64
  ob_Encoder :: "'f encoder_stats option"

record 'f remote_inbound_stats =
  ri_Timestamp :: int
  ri_ID :: string
  ri_LocalID :: string
  ri_SSRC :: uint32
  ri_Kind :: string
  ri_CodecID :: string
  ri_PacketsReceived :: uint32
  ri_PacketsLost :: int
  ri_Jitter :: 'f
  ri_RoundTripTime :: 'f
  ri_TotalRoundTripTime :: 'f
  ri_FractionLost :: 'f
  ri_RoundTripTimeMeasurements :: uint64

record 'f inbound_stats =
  ib_Timestamp :: int
  ib_ID :: string
  ib_RemoteID :: string
  ib_SSRC :: uint32
  ib_Kind :: string
  ib_CodecID :: string
  ib_TrackID :: string
  ib_FIRCount :: uint32
  ib_PLICount :: uint32
  ib_NACKCount :: uint32
  ib_PacketsReceived :: uint32
  ib_PacketsLost :: int
  ib_BytesReceived :: uint64
  ib_Jitter :: 'f
  ib_LastPacketReceivedTimestamp :: int

record 'f remote_outbound_stats =
  ro_Timestamp :: int
  ro_ID :: string
  ro_LocalID :: string
  ro_SSRC :: uint32
  ro_Kind :: string
  ro_CodecID :: string
  ro_PacketsSent :: uint32
  ro_BytesSent :: uint64
  ro_RemoteTimestamp :: int
  ro_ReportsSent :: uint64
  ro_RoundTripTime :: 'f
  ro_TotalRoundTripTime :: 'f
  ro_RoundTripTimeMeasurements :: uint64

text \<open>The statistics of pion's own \<open>GetStats\<close> besides codecs, and those of the application's providers, are known by their id.\<close>

datatype 'f stat =
    CodecStat codec_stats | CertificateStat string | OtherStat string | AudioSourceStat string | VideoSourceStat string | AudioPlayoutStat string
  | OutboundStat "'f outbound_stats" | RemoteInboundStat "'f remote_inbound_stats"
  | InboundStat "'f inbound_stats" | RemoteOutboundStat "'f remote_outbound_stats"

definition codec_or_certificate :: "'f stat \<Rightarrow> bool" where
  "codec_or_certificate s \<longleftrightarrow> (case s of CodecStat _ \<Rightarrow> True | CertificateStat _ \<Rightarrow> True | _ \<Rightarrow> False)"

definition codecs_of :: "'f stat list \<Rightarrow> codec_stats list" where
  "codecs_of ss = concat (map (\<lambda>s. case s of CodecStat c \<Rightarrow> [c] | _ \<Rightarrow> []) ss)"

text \<open>\<open>getMediaKindFromTrackType\<close>; the two track types of audio are constants of the protocol.\<close>

definition getMediaKindFromTrackType :: "TrackType \<times> TrackType \<Rightarrow> TrackType \<Rightarrow> string" where
  "getMediaKindFromTrackType audio_types tt = (if tt = fst audio_types \<or> tt = snd audio_types then ''audio'' else ''video'')"

definition ssrc_text :: "uint32 \<Rightarrow> string" where
  "ssrc_text ssrc = dec_nat (unat ssrc)"

section \<open>The publisher\<close>

text \<open>A published track as the statistics see it: an SSRC if it provides one.\<close>

record stat_track =
  st_SSRC :: "uint32 option"
  st_Kind :: string
  st_ID :: string

definition outbound_id :: "uint32 \<Rightarrow> string \<Rightarrow> string \<Rightarrow> string" where
  "outbound_id ssrc kind i = ''outbound-rtp:'' @ ssrc_text ssrc @ ''-'' @ kind @ ''-'' @ i"

definition remote_inbound_id :: "uint32 \<Rightarrow> string \<Rightarrow> string \<Rightarrow> string" where
  "remote_inbound_id ssrc kind i = ''remote-inbound-rtp:'' @ ssrc_text ssrc @ ''-'' @ kind @ ''-'' @ i"

definition track_stats :: "(duration \<Rightarrow> 'f) \<Rightarrow> int \<Rightarrow> (uint32 \<Rightarrow> 'f collected option) \<Rightarrow> stat_track \<Rightarrow> 'f stat list" where
  "track_stats seconds tm get t =
    (case st_SSRC t of
       None \<Rightarrow> []
     | Some ssrc \<Rightarrow>
        (if ssrc = 0 then []
         else case get ssrc of
                None \<Rightarrow> []
              | Some c \<Rightarrow>
                 [OutboundStat
                    \<lparr>ob_Timestamp = tm, ob_ID = outbound_id ssrc (st_Kind t) (st_ID t), ob_RemoteID = remote_inbound_id ssrc (st_Kind t) (st_ID t),
                     ob_SSRC = ssrc, ob_Kind = st_Kind t, ob_CodecID = [], ob_TrackID = st_ID t, ob_Rid = [], ob_FIRCount = out_FIRCount c,
                     ob_PLICount = out_PLICount c, ob_NACKCount = out_NACKCount c, ob_PacketsSent = ucast (out_PacketsSent c),
                     ob_BytesSent = out_BytesSent c, ob_Encoder = None\<rparr>,
                  RemoteInboundStat
                    \<lparr>ri_Timestamp = tm, ri_ID = remote_inbound_id ssrc (st_Kind t) (st_ID t), ri_LocalID = outbound_id ssrc (st_Kind t) (st_ID t),
                     ri_SSRC = ssrc, ri_Kind = st_Kind t, ri_CodecID = [], ri_PacketsReceived = SafeUint64ToUint32 (rin_PacketsReceived c),
                     ri_PacketsLost = SafeInt64ToInt32 (rin_PacketsLost c), ri_Jitter = rin_Jitter c,
                     ri_RoundTripTime = seconds (rin_RoundTripTime c), ri_TotalRoundTripTime = seconds (rin_TotalRoundTripTime c),
                     ri_FractionLost = rin_FractionLost c, ri_RoundTripTimeMeasurements = rin_RoundTripTimeMeasurements c\<rparr>]))"

text \<open>A provider that has nothing answers \<open>None\<close>. \<open>locals\<close> are the tracks by address.\<close>

definition provided :: "(string \<Rightarrow> 'f stat) \<Rightarrow> string option list \<Rightarrow> 'f stat list" where
  "provided mk ps = concat (map (\<lambda>p. case p of None \<Rightarrow> [] | Some i \<Rightarrow> [mk i]) ps)"

definition GetStats_pub ::
    "(duration \<Rightarrow> 'f) \<Rightarrow> time \<Rightarrow> (string, track_details, 's) skipset \<Rightarrow> (nat \<Rightarrow> stat_track) \<Rightarrow> 'f stat list \<Rightarrow> string option list \<Rightarrow> string option list \<Rightarrow> (uint32 \<Rightarrow> 'f collected option) \<Rightarrow> 's publisher \<Rightarrow> 'f stat list" where
  "GetStats_pub seconds now S locals pionStats audio video get p =
    filter codec_or_certificate pionStats @ provided AudioSourceStat audio @ provided VideoSourceStat video @
    concat (map (\<lambda>td. concat (map (\<lambda>tl. track_stats seconds (toStatsTimestamp now) get (locals tl)) (td_Tracks td))) (ss_Range S (pu_tracks p)))"

text \<open>\<open>GetRtcStats\<close> fills a map; setting a key again replaces its value. A sender is the payload types of its codecs, its track if it has one
  and its encodings.\<close>

record rtp_sender =
  rs_Codecs :: "uint8 list"
  rs_Track :: "(string \<times> string \<times> bool) option"
  rs_Encodings :: "(string \<times> uint32) list"

type_synonym 'f stats_map = "(string \<times> 'f stat) list"

definition put_stat :: "string \<Rightarrow> 'f stat \<Rightarrow> 'f stats_map \<Rightarrow> 'f stats_map" where
  "put_stat k v m = AList.update k v m"

text \<open>The codec statistics are kept for the payload types in use, and the last one for a payload type names it.\<close>

definition active_codec :: "uint8 list \<Rightarrow> (string \<times> 'f stat) list \<Rightarrow> uint8 \<Rightarrow> string" where
  "active_codec used pionStats pt =
    (if pt \<in> set used
     then (case find (\<lambda>c. cs_PayloadType c = pt) (rev (codecs_of (map snd pionStats))) of None \<Rightarrow> [] | Some c \<Rightarrow> cs_ID c) else [])"

definition used_pion_stats :: "uint8 list \<Rightarrow> (string \<times> 'f stat) list \<Rightarrow> 'f stats_map" where
  "used_pion_stats used pionStats =
    fold (\<lambda>(k, s) m. case s of CodecStat c \<Rightarrow> if cs_PayloadType c \<in> set used then put_stat k s m else m | _ \<Rightarrow> put_stat k s m) pionStats []"

definition sender_stats ::
    "(duration \<Rightarrow> 'f) \<Rightarrow> int \<Rightarrow> (uint32 \<Rightarrow> 'f collected option) \<Rightarrow> (uint8 \<Rightarrow> string) \<Rightarrow> (string \<Rightarrow> 'f encoder_stats option) \<Rightarrow> rtp_sender \<Rightarrow> string \<times> string \<times> bool \<Rightarrow> string \<times> uint32 \<Rightarrow> 'f stats_map \<Rightarrow> 'f stats_map" where
  "sender_stats seconds tm get codecId ridStats sender track encoding m =
    (let (trackId, kind, video) = track; (rid, ssrc) = encoding;
         codec_id = (case rs_Codecs sender of [] \<Rightarrow> [] | pt # _ \<Rightarrow> codecId pt)
     in if ssrc = 0 then m
        else case get ssrc of
               None \<Rightarrow> m
             | Some c \<Rightarrow>
                put_stat (remote_inbound_id ssrc kind trackId)
                  (RemoteInboundStat
                    \<lparr>ri_Timestamp = tm, ri_ID = remote_inbound_id ssrc kind trackId, ri_LocalID = [], ri_SSRC = ssrc, ri_Kind = kind,
                     ri_CodecID = codec_id, ri_PacketsReceived = SafeUint64ToUint32 (rin_PacketsReceived c),
                     ri_PacketsLost = SafeInt64ToInt32 (rin_PacketsLost c), ri_Jitter = rin_Jitter c,
                     ri_RoundTripTime = seconds (rin_RoundTripTime c), ri_TotalRoundTripTime = seconds (rin_TotalRoundTripTime c),
                     ri_FractionLost = rin_FractionLost c, ri_RoundTripTimeMeasurements = rin_RoundTripTimeMeasurements c\<rparr>)
                  (put_stat (outbound_id ssrc kind trackId)
                    (OutboundStat
                      \<lparr>ob_Timestamp = tm, ob_ID = outbound_id ssrc kind trackId, ob_RemoteID = remote_inbound_id ssrc kind trackId,
                       ob_SSRC = ssrc, ob_Kind = kind, ob_CodecID = codec_id, ob_TrackID = trackId, ob_Rid = (if video then rid else []),
                       ob_FIRCount = (if video then out_FIRCount c else 0), ob_PLICount = (if video then out_PLICount c else 0),
                       ob_NACKCount = out_NACKCount c, ob_PacketsSent = SafeUint64ToUint32 (out_PacketsSent c),
                       ob_BytesSent = out_BytesSent c, ob_Encoder = (if video then ridStats rid else None)\<rparr>) m))"

text \<open>A video provider may answer with its source and with its encoder's statistics by RID. The map is then encoded as JSON; \<open>encode\<close> is
  that or \<open>None\<close>, a nil map.\<close>

definition rid_stats :: "(string \<times> 'f encoder_stats) option list \<Rightarrow> string \<Rightarrow> 'f encoder_stats option" where
  "rid_stats ps rid = map_of (rev (concat (map (\<lambda>p. case p of None \<Rightarrow> [] | Some e \<Rightarrow> [e]) ps))) rid"

definition GetRtcStats_pub ::
    "(duration \<Rightarrow> 'f) \<Rightarrow> time \<Rightarrow> ('f stats_map \<Rightarrow> report option) \<Rightarrow> (string \<times> 'f stat) list \<Rightarrow> rtp_sender list \<Rightarrow> string option list \<Rightarrow> (string option \<times> (string \<times> 'f encoder_stats) option) list \<Rightarrow> (uint32 \<Rightarrow> 'f collected option) \<Rightarrow> report option" where
  "GetRtcStats_pub seconds now encode pionStats senders audio video get =
    (let tm = toStatsTimestamp now; used = concat (map rs_Codecs senders);
         m = used_pion_stats used pionStats;
         m = fold (\<lambda>p m. case p of None \<Rightarrow> m | Some i \<Rightarrow> put_stat i (AudioSourceStat i) m) audio m;
         m = fold (\<lambda>p m. case fst p of None \<Rightarrow> m | Some i \<Rightarrow> put_stat i (VideoSourceStat i) m) video m;
         m = fold (\<lambda>sender m.
               case rs_Track sender of
                 None \<Rightarrow> m
               | Some track \<Rightarrow> fold (sender_stats seconds tm get (active_codec used pionStats) (rid_stats (map snd video)) sender track) (rs_Encodings sender) m)
             senders m
     in encode m)"

section \<open>The subscriber\<close>

definition inbound_id :: "uint32 \<Rightarrow> string \<Rightarrow> string" where
  "inbound_id ssrc i = ''inbound-rtp:'' @ ssrc_text ssrc @ ''-'' @ i"

definition remote_outbound_id :: "uint32 \<Rightarrow> string \<Rightarrow> string" where
  "remote_outbound_id ssrc i = ''remote-outbound-rtp:'' @ ssrc_text ssrc @ ''-'' @ i"

definition buildInboundRTPStreamStats ::
    "TrackType \<times> TrackType \<Rightarrow> subscribedTrackEntry \<Rightarrow> int \<Rightarrow> codec_stats list \<Rightarrow> 'f collected \<Rightarrow> 'f inbound_stats" where
  "buildInboundRTPStreamStats audio_types ste tm codecStats c =
     \<lparr>ib_Timestamp = tm, ib_ID = inbound_id (ste_SSRC ste) (ste_TrackID ste), ib_RemoteID = remote_outbound_id (ste_SSRC ste) (ste_TrackID ste),
      ib_SSRC = ste_SSRC ste, ib_Kind = getMediaKindFromTrackType audio_types (ste_TrackType ste), ib_CodecID = getCodecStatsID (ste_Codec ste) codecStats,
      ib_TrackID = ste_TrackID ste, ib_FIRCount = in_FIRCount c, ib_PLICount = in_PLICount c, ib_NACKCount = in_NACKCount c,
      ib_PacketsReceived = ucast (in_PacketsReceived c), ib_PacketsLost = i32 (in_PacketsLost c), ib_BytesReceived = in_BytesReceived c,
      ib_Jitter = in_Jitter c, ib_LastPacketReceivedTimestamp = toStatsTimestamp (in_LastPacketReceivedTimestamp c)\<rparr>"

definition buildRemoteOutboundRTPStreamStats ::
    "(duration \<Rightarrow> 'f) \<Rightarrow> TrackType \<times> TrackType \<Rightarrow> subscribedTrackEntry \<Rightarrow> int \<Rightarrow> codec_stats list \<Rightarrow> 'f collected \<Rightarrow> 'f remote_outbound_stats" where
  "buildRemoteOutboundRTPStreamStats seconds audio_types ste tm codecStats c =
     \<lparr>ro_Timestamp = tm, ro_ID = remote_outbound_id (ste_SSRC ste) (ste_TrackID ste), ro_LocalID = inbound_id (ste_SSRC ste) (ste_TrackID ste),
      ro_SSRC = ste_SSRC ste, ro_Kind = getMediaKindFromTrackType audio_types (ste_TrackType ste), ro_CodecID = getCodecStatsID (ste_Codec ste) codecStats,
      ro_PacketsSent = SafeUint64ToUint32 (rout_PacketsSent c), ro_BytesSent = rout_BytesSent c, ro_RemoteTimestamp = tm,
      ro_ReportsSent = rout_ReportsSent c, ro_RoundTripTime = seconds (rout_RoundTripTime c), ro_TotalRoundTripTime = seconds (rout_TotalRoundTripTime c),
      ro_RoundTripTimeMeasurements = rout_RoundTripTimeMeasurements c\<rparr>"

text \<open>\<open>None\<close> is the panic on an SSRC nothing was collected for.\<close>

fun entries_stats ::
    "(duration \<Rightarrow> 'f) \<Rightarrow> TrackType \<times> TrackType \<Rightarrow> int \<Rightarrow> codec_stats list \<Rightarrow> (uint32 \<Rightarrow> 'f collected option) \<Rightarrow> subscribedTrackEntry list \<Rightarrow> 'f stat list option" where
  "entries_stats seconds audio_types tm codecStats get [] = Some []"
| "entries_stats seconds audio_types tm codecStats get (ste # es) =
    (case get (ste_SSRC ste) of
       None \<Rightarrow> None
     | Some c \<Rightarrow>
        map_option (\<lambda>ss. InboundStat (buildInboundRTPStreamStats audio_types ste tm codecStats c) #
            RemoteOutboundStat (buildRemoteOutboundRTPStreamStats seconds audio_types ste tm codecStats c) # ss)
          (entries_stats seconds audio_types tm codecStats get es))"

definition GetStats_sub ::
    "(duration \<Rightarrow> 'f) \<Rightarrow> TrackType \<times> TrackType \<Rightarrow> time \<Rightarrow> (uint32, subscribedTrackEntry, 't) skipset \<Rightarrow> 'f stat list \<Rightarrow> string option list \<Rightarrow> (uint32 \<Rightarrow> 'f collected option) \<Rightarrow> 't subscriber \<Rightarrow> 'f stat list option" where
  "GetStats_sub seconds audio_types now S pionStats playout get s =
    map_option (\<lambda>ss. filter codec_or_certificate pionStats @ provided AudioPlayoutStat playout @ ss)
      (entries_stats seconds audio_types (toStatsTimestamp now) (codecs_of pionStats) get (ss_Range S (sb_subscribedTracks s)))"

text \<open>A receiver is the payload types of its codecs and its track if it has one.\<close>

record receiver_track =
  rt_ID :: string
  rt_Kind :: string
  rt_SSRC :: uint32
  rt_PayloadType :: uint8
  rt_video :: bool

record rtp_receiver =
  rr_Codecs :: "uint8 list"
  rr_Track :: "receiver_track option"

definition receiver_stats ::
    "(duration \<Rightarrow> 'f) \<Rightarrow> int \<Rightarrow> (uint32 \<Rightarrow> 'f collected option) \<Rightarrow> (uint8 \<Rightarrow> string) \<Rightarrow> receiver_track \<Rightarrow> 'f stats_map \<Rightarrow> 'f stats_map" where
  "receiver_stats seconds tm get codecId t m =
    (let ssrc = rt_SSRC t in
     if ssrc = 0 then m
     else case get ssrc of
            None \<Rightarrow> m
          | Some c \<Rightarrow>
             put_stat (remote_outbound_id ssrc (rt_ID t))
               (RemoteOutboundStat
                 \<lparr>ro_Timestamp = tm, ro_ID = remote_outbound_id ssrc (rt_ID t), ro_LocalID = inbound_id ssrc (rt_ID t), ro_SSRC = ssrc,
                  ro_Kind = rt_Kind t, ro_CodecID = codecId (rt_PayloadType t), ro_PacketsSent = SafeUint64ToUint32 (rout_PacketsSent c),
                  ro_BytesSent = rout_BytesSent c, ro_RemoteTimestamp = toStatsTimestamp (rout_RemoteTimeStamp c),
                  ro_ReportsSent = rout_ReportsSent c, ro_RoundTripTime = seconds (rout_RoundTripTime c),
                  ro_TotalRoundTripTime = seconds (rout_TotalRoundTripTime c), ro_RoundTripTimeMeasurements = rout_RoundTripTimeMeasurements c\<rparr>)
               (put_stat (inbound_id ssrc (rt_ID t))
                 (InboundStat
                   \<lparr>ib_Timestamp = tm, ib_ID = inbound_id ssrc (rt_ID t), ib_RemoteID = remote_outbound_id ssrc (rt_ID t), ib_SSRC = ssrc,
                    ib_Kind = rt_Kind t, ib_CodecID = codecId (rt_PayloadType t), ib_TrackID = rt_ID t,
                    ib_FIRCount = (if rt_video t then in_FIRCount c else 0), ib_PLICount = (if rt_video t then in_PLICount c else 0),
                    ib_NACKCount = in_NACKCount c, ib_PacketsReceived = SafeUint64ToUint32 (in_PacketsReceived c),
                    ib_PacketsLost = SafeInt64ToInt32 (in_PacketsLost c), ib_BytesReceived = in_BytesReceived c, ib_Jitter = in_Jitter c,
                    ib_LastPacketReceivedTimestamp = toStatsTimestamp (in_LastPacketReceivedTimestamp c)\<rparr>) m))"

definition GetRtcStats_sub ::
    "(duration \<Rightarrow> 'f) \<Rightarrow> time \<Rightarrow> ('f stats_map \<Rightarrow> report option) \<Rightarrow> (string \<times> 'f stat) list \<Rightarrow> rtp_receiver list \<Rightarrow> (uint32 \<Rightarrow> 'f collected option) \<Rightarrow> report option" where
  "GetRtcStats_sub seconds now encode pionStats receivers get =
    (let tm = toStatsTimestamp now; used = concat (map rr_Codecs receivers);
         m = fold (\<lambda>r m. case rr_Track r of None \<Rightarrow> m | Some t \<Rightarrow> receiver_stats seconds tm get (active_codec used pionStats) t m)
               receivers (used_pion_stats used pionStats)
     in encode m)"

section \<open>Reporting\<close>

text \<open>The interval an application sets wins; otherwise it is the coordinator's, if that enables statistics.\<close>

definition statsInterval :: "duration \<Rightarrow> (bool \<times> int) option \<Rightarrow> duration" where
  "statsInterval explicit stats_options =
    (if explicit > 0 then explicit
     else case stats_options of
            None \<Rightarrow> 0
          | Some (enabled, ms) \<Rightarrow> (if \<not> enabled then 0 else if ms > 0 then i64 (ms * Millisecond) else 0))"

definition statsEnabled :: "duration \<Rightarrow> (bool \<times> int) option \<Rightarrow> bool" where
  "statsEnabled explicit stats_options \<longleftrightarrow> statsInterval explicit stats_options > 0"

datatype 'f sent = StatsRequest "'f stat list" "'f stat list" | RtcRequest string

text \<open>What one tick is answered: the statistics of the peers that exist, with \<open>Some None\<close> for a subscriber whose \<open>GetStats\<close> panics; whether each
  side encodes; whether the SFU accepts; and the same for the second kind of report, as in \<open>reportRtcStats\<close>.\<close>

record 'f tick_env =
  te_pub :: "'f stat list option"
  te_sub :: "'f stat list option option"
  te_encodes :: "bool \<times> bool"
  te_accepted :: bool
  te_now :: time
  te_rtcPub :: "(bool \<times> report option) option"
  te_rtcSub :: "(bool \<times> report option) option"
  te_rtcAccepted :: bool
  te_rtcNow :: time

definition report_stats :: "'f tick_env \<Rightarrow> 'f sent list \<times> CallStatsReportingMetrics \<Rightarrow> ('f sent list \<times> CallStatsReportingMetrics) option" where
  "report_stats E sm =
    (let (sent, m) = sm; publisherStats = (case te_pub E of None \<Rightarrow> [] | Some ss \<Rightarrow> ss) in
     case (case te_sub E of None \<Rightarrow> Some [] | Some r \<Rightarrow> r) of
       None \<Rightarrow> None
     | Some subscriberStats \<Rightarrow>
        Some (if \<not> fst (te_encodes E) then (sent, countFailed m)
              else if \<not> snd (te_encodes E) then (sent, countFailed m)
              else (sent @ [StatsRequest publisherStats subscriberStats],
                    if te_accepted E then countSuccessful (te_now E) m else countFailed m)))"

text \<open>A panic is recovered in \<open>statsTick\<close>, which ends the tick.\<close>

definition statsTick :: "(json list \<Rightarrow> string) \<Rightarrow> int \<Rightarrow> 'f tick_env \<Rightarrow> 'f sent list \<times> stats_state \<Rightarrow> 'f sent list \<times> stats_state" where
  "statsTick marshal ts E st =
    (let (sent, s) = st in
     case report_stats E (sent, ss_metrics s) of
       None \<Rightarrow> (sent, s\<lparr>ss_metrics := countFailed (ss_metrics s)\<rparr>)
     | Some (sent, m) \<Rightarrow>
        (let (out, s) = reportRtcStats marshal ts (te_rtcPub E) (te_rtcSub E) (te_rtcAccepted E) (te_rtcNow E) (s\<lparr>ss_metrics := m\<rparr>)
         in (case out of StatsSent body \<Rightarrow> sent @ [RtcRequest body] | StatsFailed body \<Rightarrow> sent @ [RtcRequest body] | _ \<Rightarrow> sent, s)))"

datatype 'f worker_event = CallDone | Ticked CallConnectionState "'f tick_env"

text \<open>The worker over the events it receives, with whether it has returned.\<close>

fun worker_loop :: "(json list \<Rightarrow> string) \<Rightarrow> int \<Rightarrow> 'f worker_event list \<Rightarrow> 'f sent list \<times> stats_state \<Rightarrow> bool \<times> 'f sent list \<times> stats_state" where
  "worker_loop marshal ts [] st = (False, st)"
| "worker_loop marshal ts (CallDone # evs) st = (True, st)"
| "worker_loop marshal ts (Ticked connState E # evs) st =
    (if connState = Disconnected then (True, st)
     else if connState = Connecting then worker_loop marshal ts evs (fst st, (snd st)\<lparr>ss_metrics := countSkipped (ss_metrics (snd st))\<rparr>)
     else worker_loop marshal ts evs (statsTick marshal ts E st))"

definition webrtcStatsWorker ::
    "(json list \<Rightarrow> string) \<Rightarrow> int \<Rightarrow> duration \<Rightarrow> 'f worker_event list \<Rightarrow> 'f sent list \<times> stats_state \<Rightarrow> bool \<times> 'f sent list \<times> stats_state" where
  "webrtcStatsWorker marshal ts interval evs st = (if interval = 0 then (True, st) else worker_loop marshal ts evs st)"

section \<open>What the statistics say\<close>

text \<open>Every stream that goes out is reported together with what the other side says of it, under the ids the two name each other by.\<close>

lemma outbound_linked:
  assumes "OutboundStat o' \<in> set (GetStats_pub seconds now S locals pionStats audio video get p)"
  shows "ob_SSRC o' \<noteq> 0 \<and> (\<exists>r. RemoteInboundStat r \<in> set (GetStats_pub seconds now S locals pionStats audio video get p) \<and>
    ri_ID r = ob_RemoteID o' \<and> ri_LocalID r = ob_ID o' \<and> ri_SSRC r = ob_SSRC o')"
proof -
  let ?tm = "toStatsTimestamp now"
  have "\<not> OutboundStat o' \<in> set (filter codec_or_certificate pionStats @ provided AudioSourceStat audio @ provided VideoSourceStat video)"
    by (auto simp: codec_or_certificate_def provided_def split: option.splits)
  then obtain td tl where td: "td \<in> set (ss_Range S (pu_tracks p))" "tl \<in> set (td_Tracks td)"
      and o': "OutboundStat o' \<in> set (track_stats seconds ?tm get (locals tl))"
    using assms by (auto simp: GetStats_pub_def)
  have "ob_SSRC o' \<noteq> 0 \<and> (\<exists>r. RemoteInboundStat r \<in> set (track_stats seconds ?tm get (locals tl)) \<and>
      ri_ID r = ob_RemoteID o' \<and> ri_LocalID r = ob_ID o' \<and> ri_SSRC r = ob_SSRC o')"
  proof -
    obtain ssrc c where sc: "st_SSRC (locals tl) = Some ssrc" "ssrc \<noteq> 0" "get ssrc = Some c"
      using o' by (cases "st_SSRC (locals tl)"; cases "get (the (st_SSRC (locals tl)))") (auto simp: track_stats_def split: if_splits)
    then show ?thesis using o' by (simp add: track_stats_def)
  qed
  then show ?thesis using td by (auto simp: GetStats_pub_def)
qed

lemma entries_stats_None: "entries_stats seconds audio_types tm cs get es = None \<longleftrightarrow> (\<exists>e \<in> set es. get (ste_SSRC e) = None)"
  by (induction es) (auto split: option.splits)

lemma GetStats_sub_panics:
  "GetStats_sub seconds audio_types now S pionStats playout get s = None \<longleftrightarrow> (\<exists>e \<in> set (ss_Range S (sb_subscribedTracks s)). get (ste_SSRC e) = None)"
  by (simp add: GetStats_sub_def entries_stats_None)

text \<open>The two kinds of statistics disagree about a counter that has outgrown 32 bits: one starts again, the other stays at the maximum.\<close>

lemma received_counter_wraps:
  assumes "uint (in_PacketsReceived c) = 2 ^ 32"
  shows "ib_PacketsReceived (buildInboundRTPStreamStats audio_types ste tm cs c) = 0 \<and> SafeUint64ToUint32 (in_PacketsReceived c) = - 1"
proof -
  have "unsigned (in_PacketsReceived c) = (2 :: int) ^ 32" using assms by simp
  then have "(ucast (in_PacketsReceived c) :: uint32) = 0"
    by (intro word_uint_eqI) (simp add: unsigned_ucast_eq take_bit_eq_mod)
  then show ?thesis using assms by (simp add: buildInboundRTPStreamStats_def SafeUint64ToUint32_def)
qed

text \<open>A track that has arrived stays in the set of subscribed tracks.\<close>

lemma subscribed_stays:
  assumes "skipset_ok S" "ss_Load S (sb_subscribedTracks s) k \<noteq> None"
  shows "ss_Load S (sb_subscribedTracks (OnTrack_sub marshal ts S pid t owner s)) k \<noteq> None"
proof -
  have "ss_Load S (ss_Set S x j v) k \<noteq> None" if "ss_Load S x k \<noteq> None" for x j v
    using assms(1) that unfolding skipset_ok_def by (cases "j = k") (metis option.distinct(1))+
  then show ?thesis using assms(2) by (simp add: OnTrack_sub_def Let_def split: prod.split)
qed

text \<open>The map of the subscriber's \<open>GetRtcStats\<close>: every stream that comes in is found under its id, with the entry it names as its remote side, which
  names it in turn.\<close>

definition inbound_linked :: "'f stats_map \<Rightarrow> bool" where
  "inbound_linked m \<longleftrightarrow> (\<forall>k i. map_of m k = Some (InboundStat i) \<longrightarrow>
     (\<exists>x r. k = ''inbound-rtp:'' @ x \<and> ib_ID i = k \<and> ib_RemoteID i = ''remote-outbound-rtp:'' @ x \<and>
        map_of m (''remote-outbound-rtp:'' @ x) = Some (RemoteOutboundStat r) \<and> ro_LocalID r = k))"

lemma map_of_put_stat [simp]: "map_of (put_stat k s m) k' = (if k' = k then Some s else map_of m k')"
  by (simp add: put_stat_def update_conv')

lemma put_linked:
  assumes "inbound_linked m" "ib_ID i = ''inbound-rtp:'' @ x" "ib_RemoteID i = ''remote-outbound-rtp:'' @ x" "ro_LocalID r = ''inbound-rtp:'' @ x"
  shows "inbound_linked (put_stat (''remote-outbound-rtp:'' @ x) (RemoteOutboundStat r) (put_stat (''inbound-rtp:'' @ x) (InboundStat i) m))"
  unfolding inbound_linked_def
proof (intro allI impI)
  let ?m = "put_stat (''remote-outbound-rtp:'' @ x) (RemoteOutboundStat r) (put_stat (''inbound-rtp:'' @ x) (InboundStat i) m)"
  fix k j
  assume k: "map_of ?m k = Some (InboundStat j)"
  show "\<exists>x r. k = ''inbound-rtp:'' @ x \<and> ib_ID j = k \<and> ib_RemoteID j = ''remote-outbound-rtp:'' @ x \<and>
        map_of ?m (''remote-outbound-rtp:'' @ x) = Some (RemoteOutboundStat r) \<and> ro_LocalID r = k"
  proof (cases "k = ''inbound-rtp:'' @ x")
    case True
    then show ?thesis using k assms by (intro exI [of _ x] exI [of _ r]) simp
  next
    case False
    then have "map_of m k = Some (InboundStat j)" using k by (simp split: if_splits)
    then obtain y q where y: "k = ''inbound-rtp:'' @ y" "ib_ID j = k" "ib_RemoteID j = ''remote-outbound-rtp:'' @ y"
        "map_of m (''remote-outbound-rtp:'' @ y) = Some (RemoteOutboundStat q)" "ro_LocalID q = k"
      using assms(1) unfolding inbound_linked_def by blast
    then have "y \<noteq> x" using False by simp
    then show ?thesis using y by (intro exI [of _ y] exI [of _ q]) simp
  qed
qed

lemma receiver_linked:
  assumes "inbound_linked m"
  shows "inbound_linked (receiver_stats seconds tm get codecId t m)"
proof (cases "rt_SSRC t = 0 \<or> get (rt_SSRC t) = None")
  case True
  then show ?thesis using assms by (auto simp: receiver_stats_def Let_def)
next
  case False
  then show ?thesis
    using put_linked [OF assms, of _ "ssrc_text (rt_SSRC t) @ ''-'' @ rt_ID t"]
    by (auto simp: receiver_stats_def inbound_id_def remote_outbound_id_def Let_def)
qed

lemma used_pion_linked:
  assumes "\<forall>s \<in> snd ` set pionStats. \<forall>i. s \<noteq> InboundStat i"
  shows "inbound_linked (used_pion_stats used pionStats)"
proof -
  define P where "P m \<longleftrightarrow> (\<forall>k i. map_of m k \<noteq> Some (InboundStat i))" for m :: "'a stats_map"
  have "P m \<Longrightarrow> P (fold (\<lambda>(k, s) m. case s of CodecStat c \<Rightarrow> if cs_PayloadType c \<in> set used then put_stat k s m else m | _ \<Rightarrow> put_stat k s m) pionStats m)" for m
    using assms
  proof (induction pionStats arbitrary: m)
    case (Cons ks pionStats)
    obtain k s where "ks = (k, s)" by fastforce
    then have "P (case s of CodecStat c \<Rightarrow> if cs_PayloadType c \<in> set used then put_stat k s m else m | _ \<Rightarrow> put_stat k s m)"
      using Cons.prems by (cases s) (auto simp: P_def)
    then show ?case using Cons \<open>ks = (k, s)\<close> by simp
  qed simp
  moreover have "P []" by (simp add: P_def)
  ultimately have "P (used_pion_stats used pionStats)" by (simp add: used_pion_stats_def)
  then show ?thesis by (simp add: P_def inbound_linked_def)
qed

lemma rtc_stats_linked:
  assumes "\<forall>s \<in> snd ` set pionStats. \<forall>i. s \<noteq> InboundStat i"
  shows "\<exists>m. GetRtcStats_sub seconds now encode pionStats receivers get = encode m \<and> inbound_linked m"
proof -
  have "inbound_linked m \<Longrightarrow> inbound_linked (fold (\<lambda>r m. case rr_Track r of None \<Rightarrow> m | Some t \<Rightarrow> receiver_stats seconds tm get cid t m) receivers m)"
    for m tm cid
    by (induction receivers arbitrary: m) (auto simp: receiver_linked split: option.split)
  then show ?thesis using used_pion_linked [OF assms] by (auto simp: GetRtcStats_sub_def Let_def)
qed

lemma statsTick_panics:
  assumes "te_sub E = Some None"
  shows "statsTick marshal ts E (sent, s) = (sent, s\<lparr>ss_metrics := countFailed (ss_metrics s)\<rparr>)"
  using assms by (simp add: statsTick_def report_stats_def Let_def)

lemma statsTick_reports:
  assumes "te_sub E = Some (Some subs)" "te_encodes E = (True, True)"
  shows "\<exists>rest s'. statsTick marshal ts E (sent, s) =
    (sent @ StatsRequest (case te_pub E of None \<Rightarrow> [] | Some ss \<Rightarrow> ss) subs # rest, s')"
  using assms
  by (auto simp: statsTick_def report_stats_def Let_def split: prod.split stats_outcome.split)

text \<open>The ticks the worker handles before it returns, and those of them at which the call is still connecting.\<close>

definition keeps_working :: "'f worker_event \<Rightarrow> bool" where
  "keeps_working ev = (case ev of CallDone \<Rightarrow> False | Ticked connState E \<Rightarrow> connState \<noteq> Disconnected)"
definition while_connecting :: "'f worker_event \<Rightarrow> bool" where
  "while_connecting ev = (case ev of CallDone \<Rightarrow> False | Ticked connState E \<Rightarrow> connState = Connecting)"

lemma while_connecting_simps [simp]: "while_connecting (Ticked connState E) \<longleftrightarrow> connState = Connecting"
  by (simp add: while_connecting_def)

lemma worker_panics:
  assumes "\<And>connState E. Ticked connState E \<in> set evs \<Longrightarrow> te_sub E = Some None"
  shows "worker_loop marshal ts evs (sent, s) =
    (let handled = takeWhile keeps_working evs; m = ss_metrics s in
     (\<exists>ev \<in> set evs. \<not> keeps_working ev,
      sent, s\<lparr>ss_metrics := m\<lparr>m_FailedReports := m_FailedReports m + of_nat (length (filter (\<lambda>ev. \<not> while_connecting ev) handled)),
        m_SkippedReports := m_SkippedReports m + of_nat (length (filter while_connecting handled))\<rparr>\<rparr>))"
  using assms
proof (induction evs arbitrary: s)
  case (Cons ev evs)
  show ?case
  proof (cases "keeps_working ev")
    case False
    then show ?thesis by (cases ev) (auto simp: keeps_working_def)
  next
    case True
    then obtain connState E where ev: "ev = Ticked connState E" "connState \<noteq> Disconnected"
      by (cases ev) (auto simp: keeps_working_def)
    have panics: "te_sub E = Some None" by (rule Cons.prems [of connState]) (simp add: ev)
    define s' where "s' = s\<lparr>ss_metrics := (if connState = Connecting then countSkipped (ss_metrics s) else countFailed (ss_metrics s))\<rparr>"
    have "worker_loop marshal ts (ev # evs) (sent, s) = worker_loop marshal ts evs (sent, s')"
      using ev statsTick_panics [OF panics] by (simp add: s'_def)
    moreover have "te_sub E' = Some None" if "Ticked connState' E' \<in> set evs" for connState' E'
      using Cons.prems that by auto
    note Cons.IH [OF this, where s = s']
    ultimately show ?thesis
      using True ev by (cases "connState = Connecting") (simp_all add: s'_def countSkipped_def countFailed_def Let_def add.assoc)
  qed
qed simp

text \<open>C40: The subscriber's statistics can be read exactly when something was collected for every track that ever arrived. One track for which there is nothing
  makes every tick of the reporting worker panic, recover and count a failure, and the worker goes on: as long as that holds, nothing is sent to the
  SFU, neither kind of report and also nothing about the publisher, and no trace buffer is drained. The failures count exactly the ticks with the
  call connected, the skipped reports those with the call connecting, and the worker returns only where it does anyway: when the call is
  done or disconnected, or at once when reporting is off.\<close>

theorem missing_stats_stop_reporting:
  assumes "e \<in> set (ss_Range S (sb_subscribedTracks sub))" "get (ste_SSRC e) = None"
    and "\<And>connState E. Ticked connState E \<in> set evs \<Longrightarrow>
      \<exists>now pionStats playout. te_sub E = Some (GetStats_sub seconds audio_types now S pionStats playout get sub)"
  shows "webrtcStatsWorker marshal ts interval evs (sent, s) =
    (if interval = 0 then (True, sent, s)
     else
       let handled = takeWhile keeps_working evs; m = ss_metrics s in
       (\<exists>ev \<in> set evs. \<not> keeps_working ev,
        sent, s\<lparr>ss_metrics := m\<lparr>m_FailedReports := m_FailedReports m + of_nat (length (filter (\<lambda>ev. \<not> while_connecting ev) handled)),
          m_SkippedReports := m_SkippedReports m + of_nat (length (filter while_connecting handled))\<rparr>\<rparr>))"
proof -
  have "te_sub E = Some None" if "Ticked connState E \<in> set evs" for connState E
    using assms(3) [OF that] GetStats_sub_panics [of seconds audio_types _ S _ _ get sub] assms(1,2) by metis
  then show ?thesis using worker_panics [of evs marshal ts sent s] by (simp add: webrtcStatsWorker_def)
qed

definition arrived_track :: remote_track where
  "arrived_track = \<lparr>rm_SSRC = 7, rm_ID = ''t'', rm_StreamID = ''p:V'', rm_RID = [],
     rm_Codec = \<lparr>cp_MimeType = [], cp_ClockRate = 0, cp_Channels = 0, cp_SDPFmtpLine = [], cp_PayloadType = 0\<rparr>, rm_Kind = ''video''\<rparr>"

definition receiving_subscriber :: "(uint32 \<times> subscribedTrackEntry) list subscriber" where
  "receiving_subscriber = OnTrack_sub (\<lambda>_. []) 0 alist_skipset (\<lambda>_. ([], [])) arrived_track (None, 0) sample_subscriber"

definition publishing_tick :: "rat tick_env" where
  "publishing_tick = \<lparr>te_pub = Some [OtherStat ''transport''],
     te_sub = Some (GetStats_sub (\<lambda>_. 0) (1, 4) 0 alist_skipset [] [] (\<lambda>_. None) receiving_subscriber),
     te_encodes = (True, True), te_accepted = True, te_now = 0, te_rtcPub = None, te_rtcSub = None, te_rtcAccepted = True, te_rtcNow = 0\<rparr>"

definition fresh_stats :: stats_state where
  "fresh_stats = \<lparr>ss_prevPublisher = [], ss_prevSubscriber = [], ss_clientTracing = None, ss_callTracing = None, ss_pubTracing = None,
     ss_subTracing = None,
     ss_metrics = \<lparr>m_LastSuccessfulReportAt = None, m_SuccessfulReports = 0, m_FailedReports = 0, m_SkippedReports = 0\<rparr>\<rparr>"

lemma missing_stats_stop_reporting_witness:
  "webrtcStatsWorker (\<lambda>_. []) 0 Second [Ticked Connecting publishing_tick, Ticked Connected publishing_tick, Ticked Connected publishing_tick] ([], fresh_stats) =
     (False, [], fresh_stats\<lparr>ss_metrics := \<lparr>m_LastSuccessfulReportAt = None, m_SuccessfulReports = 0, m_FailedReports = 2, m_SkippedReports = 1\<rparr>\<rparr>) \<and>
   fst (snd (webrtcStatsWorker (\<lambda>_. []) 0 Second [Ticked Connected (publishing_tick\<lparr>te_sub := None\<rparr>)] ([], fresh_stats))) \<noteq> []"
proof
  let ?evs = "[Ticked Connecting publishing_tick, Ticked Connected publishing_tick, Ticked Connected publishing_tick]"
  have entry: "track_entry arrived_track 0 \<in> set (ss_Range alist_skipset (sb_subscribedTracks receiving_subscriber))"
    by (simp add: receiving_subscriber_def OnTrack_sub_def alist_skipset_def sample_subscriber_def newSubscriber_def
        subscriber_interceptors_def pion_accepts_def sample_params_def sample_config_def Let_def)
  have tick: "\<exists>now pionStats playout. te_sub publishing_tick =
      Some (GetStats_sub (\<lambda>_. 0) (1, 4) now alist_skipset pionStats playout (\<lambda>_. None) receiving_subscriber)"
    unfolding publishing_tick_def tick_env.select_convs by blast
  have "webrtcStatsWorker (\<lambda>_. []) 0 Second ?evs ([], fresh_stats) =
    (if Second = 0 then (True, [], fresh_stats)
     else let handled = takeWhile keeps_working ?evs; m = ss_metrics fresh_stats in
       (\<exists>ev \<in> set ?evs. \<not> keeps_working ev,
        [], fresh_stats\<lparr>ss_metrics := m\<lparr>m_FailedReports := m_FailedReports m + of_nat (length (filter (\<lambda>ev. \<not> while_connecting ev) handled)),
          m_SkippedReports := m_SkippedReports m + of_nat (length (filter while_connecting handled))\<rparr>\<rparr>))"
    by (rule missing_stats_stop_reporting [OF entry, where get = "\<lambda>_. None" and seconds = "\<lambda>_. 0" and audio_types = "(1, 4)"])
       (use tick in \<open>auto simp del: One_nat_def\<close>)
  then show "webrtcStatsWorker (\<lambda>_. []) 0 Second ?evs ([], fresh_stats) =
     (False, [], fresh_stats\<lparr>ss_metrics := \<lparr>m_LastSuccessfulReportAt = None, m_SuccessfulReports = 0, m_FailedReports = 2, m_SkippedReports = 1\<rparr>\<rparr>)"
    by (simp add: keeps_working_def while_connecting_def fresh_stats_def)
  show "fst (snd (webrtcStatsWorker (\<lambda>_. []) 0 Second [Ticked Connected (publishing_tick\<lparr>te_sub := None\<rparr>)] ([], fresh_stats))) \<noteq> []"
    by (simp add: webrtcStatsWorker_def statsTick_def report_stats_def publishing_tick_def Let_def split: prod.split stats_outcome.split)
qed

end
