(* ===== verification/PeerRecovery.thy ===== *)
theory PeerRecovery
  imports Peers
begin

text \<open>
  What the peers promise: the tracks an offer names, how long a track waits for its publisher, and what the recovery of a
  subscriber asks of the SFU and of the call over its life, while it is bound and after it was detached.
\<close>

section \<open>The tracks of an offer\<close>

definition offered :: "(string, track_details, 's) skipset \<Rightarrow> 's publisher \<Rightarrow> full_info set" where
  "offered S p = set (map td_Info (ss_Range S (pu_tracks p)))"

lemma Set_tracks_offered:
  assumes "skipset_ok S" "ss_Load S (pu_tracks p) (ti_TrackId (td_Info d)) = None"
  shows "offered S (Set_tracks S d p) = insert (td_Info d) (offered S p)"
proof -
  let ?k = "ti_TrackId (td_Info d)"
  have load: "ss_Load S (ss_Set S (pu_tracks p) ?k d) k = (if k = ?k then Some d else ss_Load S (pu_tracks p) k)" for k
    using assms unfolding skipset_ok_def by (metis option.distinct(1))
  have range: "v \<in> set (ss_Range S s) \<longleftrightarrow> (\<exists>k. ss_Load S s k = Some v)" for v s
    using assms(1) by (simp add: skipset_ok_def)
  have "v \<in> set (ss_Range S (ss_Set S (pu_tracks p) ?k d)) \<longleftrightarrow> v = d \<or> v \<in> set (ss_Range S (pu_tracks p))" for v
    unfolding range load using assms(2) by (metis option.distinct(1) option.inject)
  then have "set (ss_Range S (ss_Set S (pu_tracks p) ?k d)) = insert d (set (ss_Range S (pu_tracks p)))" by blast
  then show ?thesis by (simp add: offered_def Set_tracks_def)
qed

lemma on_transceiver_frame [simp]:
  "pu_tracks (on_transceiver k f p) = pu_tracks p" "length (pu_transceivers (on_transceiver k f p)) = length (pu_transceivers p)"
  by (simp_all add: on_transceiver_def)

lemma configureTransceiver_frame:
  assumes "configureTransceiver N A k ds p = (e, p')"
  shows "pu_tracks p' = pu_tracks p" "length (pu_transceivers p') = length (pu_transceivers p)"
  using assms by (auto simp: configureTransceiver_def split: if_splits option.splits)

lemma SetTransceiver_local_frame [simp]:
  "pu_tracks (SetTransceiver_local l t k p) = pu_tracks p" "pu_transceivers (SetTransceiver_local l t k p) = pu_transceivers p"
  by (simp_all add: SetTransceiver_local_def)

lemma add_encodings_frame:
  assumes "add_encodings l A k ts p = (e, p')"
  shows "pu_tracks p' = pu_tracks p" "length (pu_transceivers p') = length (pu_transceivers p)"
  using assms by (induction ts arbitrary: p) (auto split: option.splits)

lemma Transport_AddTrack_frame:
  assumes "Transport_AddTrack A t st red p = (r, p')"
  shows "pu_tracks p' = pu_tracks p"
    and "length (pu_transceivers p') = length (pu_transceivers p) + (if ae_transceiver A = None then 1 else 0)"
  using assms by (auto simp: Transport_AddTrack_def split: option.splits)

lemma AddTrack_pub_cases:
  assumes "AddTrack_pub S af N l A info t p = (r, p')"
  obtains (failed) e where "r = Inl e" "pu_tracks p' = pu_tracks p"
      "length (pu_transceivers p') = length (pu_transceivers p) + (if ae_transceiver A = None then 1 else 0)"
    | (added) k q where "r = Inr (Some k)" "pu_tracks q = pu_tracks p"
      "p' = Set_tracks S \<lparr>td_Info = info, td_Tracks = [t], td_Transceiver = Some k\<rparr> q"
proof -
  let ?st = "ti_Stereo info \<and> \<not> ti_Red info"
  obtain r1 p1 where t: "Transport_AddTrack A t ?st (ti_Red info) p = (r1, p1)" by fastforce
  show thesis
  proof (cases r1)
    case (Inl e)
    then show thesis using assms t Transport_AddTrack_frame [OF t] by (auto simp: AddTrack_pub_def intro: failed)
  next
    case (Inr k)
    obtain r2 p2 where c: "configureTransceiver N A k (RTPCodecParameters af N (l t)) p1 = (r2, p2)" by fastforce
    have fr: "pu_tracks p2 = pu_tracks p" "length (pu_transceivers p2) = length (pu_transceivers p1)"
      using Transport_AddTrack_frame [OF t] configureTransceiver_frame [OF c] by simp_all
    show thesis
      by (cases r2) (use assms t c Inr fr Transport_AddTrack_frame [OF t] in \<open>auto simp: AddTrack_pub_def intro: failed added\<close>)
  qed
qed

lemma AddSimulcastTracks_pub_cases:
  assumes "AddSimulcastTracks_pub S af N l A info (t # ts) p = (r, p')"
  obtains (failed) e where "r = Inl e" "pu_tracks p' = pu_tracks p"
      "length (pu_transceivers p') = length (pu_transceivers p) + (if ae_transceiver A = None then 1 else 0)"
    | (added) k q where "r = Inr (Some k)" "pu_tracks q = pu_tracks p"
      "p' = Set_tracks S \<lparr>td_Info = info, td_Tracks = t # ts, td_Transceiver = Some k\<rparr> q"
proof -
  obtain r1 p1 where t: "Transport_AddTrack A t (ti_Stereo info) (ti_Red info) p = (r1, p1)" by fastforce
  show thesis
  proof (cases r1)
    case (Inl e)
    then show thesis using assms t Transport_AddTrack_frame [OF t] by (auto simp: AddSimulcastTracks_pub_def intro: failed)
  next
    case (Inr k)
    obtain r2 p2 where c: "configureTransceiver N A k (RTPCodecParameters af N (l t)) p1 = (r2, p2)" by fastforce
    obtain r3 p3 where e: "add_encodings l A k ts (SetTransceiver_local l t k p2) = (r3, p3)" by fastforce
    have fr: "pu_tracks p2 = pu_tracks p" "length (pu_transceivers p2) = length (pu_transceivers p1)"
        "pu_tracks p3 = pu_tracks p" "length (pu_transceivers p3) = length (pu_transceivers p1)"
      using Transport_AddTrack_frame [OF t] configureTransceiver_frame [OF c] add_encodings_frame [OF e] by simp_all
    show thesis
      by (cases r2; cases r3)
        (use assms t c e Inr fr Transport_AddTrack_frame [OF t] in \<open>auto simp: AddSimulcastTracks_pub_def intro: failed added\<close>)
  qed
qed

text \<open>C36: The offer sent to the SFU names exactly the tracks that were added. Adding a track under a new id makes the next offer name it
  beside those it named before, whether as one track or as simulcast layers. When adding fails the next offer names the same tracks as
  before, but unless it was the transceiver that could not be made, a transceiver that is not named stays on the connection.\<close>

theorem publisher_tracks_offered:
  assumes "skipset_ok S"
    and "AddTrack_pub S af N l A info t p = (r, p') \<or> AddSimulcastTracks_pub S af N l A info (t # ts) p = (r, p')"
  shows "(\<forall>k. r = Inr k \<and> ss_Load S (pu_tracks p) (ti_TrackId info) = None \<longrightarrow>
      set (sp_Tracks (publisher_request S sd session p')) = insert info (set (sp_Tracks (publisher_request S sd session p)))) \<and>
    (\<forall>e. r = Inl e \<longrightarrow> sp_Tracks (publisher_request S sd session p') = sp_Tracks (publisher_request S sd session p) \<and>
      length (pu_transceivers p') = length (pu_transceivers p) + (if ae_transceiver A = None then 1 else 0))"
proof (intro conjI allI)
  have named: "set (sp_Tracks (publisher_request S sd session q)) = offered S q" for q
    by (simp add: publisher_request_def offered_def)
  consider (failed) e where "r = Inl e" "pu_tracks p' = pu_tracks p"
        "length (pu_transceivers p') = length (pu_transceivers p) + (if ae_transceiver A = None then 1 else 0)"
    | (added) k q d where "r = Inr k" "pu_tracks q = pu_tracks p" "p' = Set_tracks S d q" "td_Info d = info"
    using assms(2) by (elim disjE AddTrack_pub_cases AddSimulcastTracks_pub_cases) (metis track_details.select_convs(1))+
  note outcome = this
  fix k
  show "r = Inr k \<and> ss_Load S (pu_tracks p) (ti_TrackId info) = None \<longrightarrow>
      set (sp_Tracks (publisher_request S sd session p')) = insert info (set (sp_Tracks (publisher_request S sd session p)))"
  proof (cases rule: outcome)
    case (added k' q d)
    then have "ss_Load S (pu_tracks p) (ti_TrackId info) = None \<Longrightarrow> offered S p' = insert info (offered S p)"
      using Set_tracks_offered [OF assms(1), of q d] by (simp add: offered_def)
    then show ?thesis unfolding named by blast
  qed simp
  fix e
  show "r = Inl e \<longrightarrow> sp_Tracks (publisher_request S sd session p') = sp_Tracks (publisher_request S sd session p) \<and>
      length (pu_transceivers p') = length (pu_transceivers p) + (if ae_transceiver A = None then 1 else 0)"
    by (cases rule: outcome) (simp_all add: publisher_request_def)
qed

definition sample_publisher :: "(string \<times> track_details) list publisher" where
  "sample_publisher = projr (fst (newPublisher (\<lambda>_. []) 0 JNull [] pion_accepts sample_params sample_config))"

definition sample_info :: full_info where
  "sample_info = \<lparr>ti_TrackId = ''v'', ti_TrackType = 2, ti_Mid = 0, ti_Stereo = False, ti_Red = False\<rparr>"

definition sample_add :: add_env where
  "sample_add = \<lparr>ae_transceiver = None, ae_sender = True, ae_codecs = [], ae_preferences = None,
     ae_encoding = (\<lambda>t. if t = 2 then Some ''too many layers'' else None)\<rparr>"

lemma publisher_tracks_offered_witness:
  "\<exists>p1 p2. AddTrack_pub alist_skipset True published_names (\<lambda>_. \<lparr>lt_Codec = None, lt_isLocal = True\<rparr>) sample_add sample_info 0 sample_publisher =
      (Inr (Some 0), p1) \<and>
    set (sp_Tracks (publisher_request alist_skipset \<lparr>sd_Type = SDPTypeOffer, sd_SDP = []\<rparr> [] p1)) = {sample_info} \<and>
    AddSimulcastTracks_pub alist_skipset True published_names (\<lambda>_. \<lparr>lt_Codec = None, lt_isLocal = True\<rparr>) sample_add
      (sample_info\<lparr>ti_TrackId := ''w''\<rparr>) [1, 2] p1 = (Inl ''too many layers'', p2) \<and>
    set (sp_Tracks (publisher_request alist_skipset \<lparr>sd_Type = SDPTypeOffer, sd_SDP = []\<rparr> [] p2)) = {sample_info} \<and>
    length (pu_transceivers p2) = 2"
proof -
  let ?l = "\<lambda>_ :: nat. \<lparr>lt_Codec = None, lt_isLocal = True\<rparr>" and ?sd = "\<lparr>sd_Type = SDPTypeOffer, sd_SDP = []\<rparr>"
  note defs = sample_add_def AddTrack_pub_def AddSimulcastTracks_pub_def Transport_AddTrack_def configureTransceiver_def
    RTPCodecParameters_def preferences_for_def
  have pub: "pu_transceivers sample_publisher = []" "pu_tracks sample_publisher = []"
    by (simp_all add: sample_publisher_def newPublisher_def publisher_interceptors_def configureNack_def pion_accepts_def Let_def)
  obtain p1 where one: "AddTrack_pub alist_skipset True published_names ?l sample_add sample_info 0 sample_publisher = (Inr (Some 0), p1)"
      "length (pu_transceivers p1) = 1"
    by (simp add: defs pub Set_tracks_def)
  obtain p2 where two: "AddSimulcastTracks_pub alist_skipset True published_names ?l sample_add (sample_info\<lparr>ti_TrackId := ''w''\<rparr>) [1, 2] p1 =
      (Inl ''too many layers'', p2)"
    by (simp add: defs)
  have "set (sp_Tracks (publisher_request alist_skipset ?sd [] sample_publisher)) = {}"
    by (simp add: publisher_request_def pub alist_skipset_def)
  moreover have "ss_Load alist_skipset (pu_tracks sample_publisher) (ti_TrackId sample_info) = None"
    by (simp add: pub alist_skipset_def)
  ultimately have "set (sp_Tracks (publisher_request alist_skipset ?sd [] p1)) = {sample_info}"
    using publisher_tracks_offered [OF alist_skipset_ok disjI1 [OF one(1)], of ?sd "[]"] by simp
  moreover have "sp_Tracks (publisher_request alist_skipset ?sd [] p2) = sp_Tracks (publisher_request alist_skipset ?sd [] p1)"
      "length (pu_transceivers p2) = 2"
    using publisher_tracks_offered [OF alist_skipset_ok disjI2 [OF two], of ?sd "[]"] one(2)
    by (simp_all add: sample_add_def)
  ultimately show ?thesis using one(1) two by (intro exI [of _ p1] exI [of _ p2]) simp
qed

text \<open>A registry that the application passes in collects the interceptors of every publisher that is made with it.\<close>

lemma newPublisher_registry:
  assumes "pcf_registry cfg = Some reg"
  shows "pcf_registry (snd (newPublisher marshal ts config s0 pion_accepts P cfg)) =
    Some (reg @ [StatsInterceptor, NackResponder, RTCPReports, RTXProber])"
  using assms
  by (simp add: newPublisher_def publisher_interceptors_def configureNack_def pion_accepts_def registry_of_def written_back_def Let_def)

lemma registry_accumulates:
  assumes "pcf_registry cfg = Some reg"
  shows "\<exists>reg'. pcf_registry (((\<lambda>cfg. snd (newPublisher marshal ts config s0 pion_accepts P cfg)) ^^ n) cfg) = Some reg' \<and>
    count_list reg' NackResponder = count_list reg NackResponder + n"
  by (induction n) (use assms in \<open>auto simp: newPublisher_registry\<close>)

section \<open>The owner of a track\<close>

lemma owner_loop_ends:
  assumes "clock (n + j + 1) > clock 0 + trackOwnerWait"
  shows "\<exists>m. owner_loop look clock n = Some (look m, m) \<and> n \<le> m \<and> m \<le> n + j \<and>
    (\<forall>i. n \<le> i \<and> i < m \<longrightarrow> (\<exists>tt. look i = Some (None, tt)) \<and> clock (i + 1) \<le> clock 0 + trackOwnerWait) \<and>
    (\<forall>tt. look m = Some (None, tt) \<longrightarrow> clock (m + 1) > clock 0 + trackOwnerWait)"
  using assms
proof (induction j arbitrary: n)
  case (0 n)
  then have "owner_loop look clock n = Some (look n, n)"
    by (subst owner_loop.simps) (auto split: option.split)
  then show ?case using 0 by auto
next
  case (Suc j n)
  show ?case
  proof (cases "\<exists>tt. look n = Some (None, tt) \<and> clock (n + 1) \<le> clock 0 + trackOwnerWait")
    case True
    then have step: "owner_loop look clock n = owner_loop look clock (n + 1)" by (subst owner_loop.simps) auto
    obtain m where m: "owner_loop look clock (n + 1) = Some (look m, m)" "n + 1 \<le> m" "m \<le> n + 1 + j"
        "\<forall>i. n + 1 \<le> i \<and> i < m \<longrightarrow> (\<exists>tt. look i = Some (None, tt)) \<and> clock (i + 1) \<le> clock 0 + trackOwnerWait"
        "\<forall>tt. look m = Some (None, tt) \<longrightarrow> clock (m + 1) > clock 0 + trackOwnerWait"
      using Suc.IH [of "n + 1"] Suc.prems by auto
    have "(\<exists>tt. look i = Some (None, tt)) \<and> clock (i + 1) \<le> clock 0 + trackOwnerWait" if "n \<le> i" "i < m" for i
      using that True m(4) by (cases "i = n") auto
    then show ?thesis using step m by (intro exI [of _ m]) simp
  next
    case False
    then have "owner_loop look clock n = Some (look n, n)"
      by (subst owner_loop.simps) (auto split: option.split)
    then show ?thesis using False by (intro exI [of _ n]) auto
  qed
qed

lemma polling_clock:
  assumes "clock 0 \<le> clock 1" "\<And>n. n > 0 \<Longrightarrow> clock n + 20 * Millisecond \<le> clock (n + 1)"
  shows "clock (n + 1) \<ge> clock 0 + int n * (20 * Millisecond)"
proof (induction n)
  case (Suc n)
  then show ?case using assms(2) [of "n + 1"] by (simp add: algebra_simps)
qed (use assms(1) in simp)

text \<open>C37: Looking for the participant who published a track ends: with a clock that goes on and the pause of 20 ms between lookups there are at
  most 102 of them. It gives what the first lookup that finds a participant gives, and nobody only when every lookup found nobody and two seconds
  have passed.\<close>

theorem track_owner_found:
  assumes "clock 0 \<le> clock 1" "\<And>n. n > 0 \<Longrightarrow> clock n + 20 * Millisecond \<le> clock (n + 1)"
  shows "\<exists>m \<le> 101. trackOwner S names stores clock streamID = Some (LookupParticipantByTrack S names (stores m) streamID, m) \<and>
    (\<forall>i < m. \<exists>tt. LookupParticipantByTrack S names (stores i) streamID = Some (None, tt)) \<and>
    (\<forall>tt. LookupParticipantByTrack S names (stores m) streamID = Some (None, tt) \<longrightarrow> clock (m + 1) > clock 0 + trackOwnerWait)"
proof -
  have "clock (0 + 101 + 1) > clock 0 + trackOwnerWait"
    using polling_clock [OF assms, of 101] by (simp add: trackOwnerWait_def)
  from owner_loop_ends [OF this, of "\<lambda>n. LookupParticipantByTrack S names (stores n) streamID"]
  show ?thesis unfolding trackOwner_def by auto
qed

definition sample_stores :: "nat \<Rightarrow> ((ParticipantID \<times> nat) list, (string \<times> nat) list, (TrackType \<times> TrackType) list) ParticipantStore" where
  "sample_stores n = NewParticipantStore alist_skipsets (if n < 3 then [] else [sample_pb ''p'']) 1 0"

lemma track_owner_found_witness:
  "trackOwner alist_skipsets (\<lambda>_. 2) sample_stores (\<lambda>n. int (n - 1) * (20 * Millisecond)) ''p:V'' = Some (Some (Some 0, 2), 3)"
proof -
  let ?clock = "\<lambda>n. int (n - 1) * (20 * Millisecond)"
  have look: "LookupParticipantByTrack alist_skipsets (\<lambda>_. 2) (sample_stores n) ''p:V'' = (if n < 3 then Some (None, 0) else Some (Some 0, 2))" for n
    by (simp add: LookupParticipantByTrack_def GetByTrackPrefix_def sample_stores_def NewParticipantStore_def Set_store_def NewParticipant_def
        alist_skipsets_def alist_skipset_def sample_pb_def Let_def)
  obtain m where m: "m \<le> 101"
      "trackOwner alist_skipsets (\<lambda>_. 2) sample_stores ?clock ''p:V'' =
        Some (LookupParticipantByTrack alist_skipsets (\<lambda>_. 2) (sample_stores m) ''p:V'', m)"
      "\<forall>i < m. \<exists>tt. LookupParticipantByTrack alist_skipsets (\<lambda>_. 2) (sample_stores i) ''p:V'' = Some (None, tt)"
      "\<forall>tt. LookupParticipantByTrack alist_skipsets (\<lambda>_. 2) (sample_stores m) ''p:V'' = Some (None, tt) \<longrightarrow> ?clock (m + 1) > ?clock 0 + trackOwnerWait"
    using track_owner_found [of ?clock alist_skipsets "\<lambda>_. 2" sample_stores "''p:V''"] by (auto simp: of_nat_diff algebra_simps)
  have "m \<le> 3"
  proof (rule ccontr)
    assume "\<not> m \<le> 3"
    then show False using m(3) [rule_format, of 3] by (simp add: look)
  qed
  moreover have "\<not> m < 3" using m(4) by (auto simp: look trackOwnerWait_def)
  ultimately show ?thesis using m(2) by (simp add: look)
qed

section \<open>The subscriber's recovery\<close>

text \<open>What can happen to a subscriber. pion's callbacks stop when it is unbound; the connect and negotiation timers of its transport, the
  timer of its recovery and the goroutines in it do not. The transport moves by its own steps.\<close>

inductive substep :: "'t subscriber \<Rightarrow> 't subscriber \<Rightarrow> bool" where
  callback: "sb_bound s \<Longrightarrow> substep s (OnCallback_sub marshal ts cb s)"
| connected: "sb_bound s \<Longrightarrow> substep s (OnInitialConnected_sub s)"
| failed: "substep s (OnFailed_sub conn info s)"
| negotiation_failed: "substep s (OnNegotiationFailed_sub err s)"
| goes_off: "substep s (s\<lparr>sb_iceRecovery := timer_goes_off n (sb_iceRecovery s)\<rparr>)"
| runs: "substep s (recovery_runs_sub answer i s)"
| track: "sb_bound s \<Longrightarrow> substep s (OnTrack_sub marshal ts S pid t owner s)"
| transport: "tstep (sb_transport s) t' \<Longrightarrow> substep s (s\<lparr>sb_transport := t'\<rparr>)"
| unbind: "substep s (Unbind_sub s)"
| close: "substep s (Close_sub s)"

definition sub_inv :: "'t subscriber \<Rightarrow> bool" where
  "sub_inv s \<longleftrightarrow> int (sb_restarts s) = sb_iceRestartRequestNum s \<and> sb_iceRestartRequestNum s \<le> 4 \<and>
     ir_inv (sb_iceRecovery s) \<and> offers_ok (sb_transport s)"

lemma recovery_callback_step: "recovery_callback cb r = r \<or> irstep r (recovery_callback cb r)"
  by (auto simp: recovery_callback_def intro: irstep.intros split: pion_callback.split pc_state.split)

lemma substep_recovery:
  assumes "substep s s'"
  shows "sb_iceRecovery s' = sb_iceRecovery s \<or> irstep (sb_iceRecovery s) (sb_iceRecovery s')"
  using assms
proof cases
  case (callback marshal ts cb)
  then show ?thesis using recovery_callback_step by (simp add: OnCallback_sub_def split: prod.split)
qed (auto simp: OnInitialConnected_sub_def OnFailed_sub_def OnNegotiationFailed_sub_def recovery_runs_sub_def OnTrack_sub_def
  Unbind_sub_def Close_sub_def Let_def intro: irstep.intros split: prod.splits)

lemma substep_transport:
  assumes "substep s s'"
  shows "sb_transport s' = sb_transport s \<or> tstep (sb_transport s) (sb_transport s')"
  using assms
  by cases (auto simp: OnCallback_sub_def OnInitialConnected_sub_def OnFailed_sub_def OnNegotiationFailed_sub_def recovery_runs_sub_def
    OnTrack_sub_def Unbind_sub_def Close_sub_def Let_def intro: tstep.close split: prod.splits)

lemma substep_restarts:
  assumes "substep s s'"
  shows "sb_restarts s' = sb_restarts s \<and> sb_iceRestartRequestNum s' = sb_iceRestartRequestNum s \<or>
    sb_iceRestartRequestNum s \<le> 3 \<and> sb_restarts s' = sb_restarts s + 1 \<and> sb_iceRestartRequestNum s' = i64 (sb_iceRestartRequestNum s + 1)"
  using assms
  by cases (auto simp: OnCallback_sub_def OnInitialConnected_sub_def OnFailed_sub_def OnNegotiationFailed_sub_def recovery_runs_sub_def
    OnTrack_sub_def Unbind_sub_def Close_sub_def Let_def split: prod.splits)

lemma substep_inv:
  assumes "substep s s'" "sub_inv s"
  shows "sub_inv s'"
proof -
  have "ir_inv (sb_iceRecovery s')" using assms substep_recovery [OF assms(1)] irstep_inv by (auto simp: sub_inv_def)
  moreover have "offers_ok (sb_transport s')" using assms substep_transport [OF assms(1)] tstep_offers by (auto simp: sub_inv_def)
  moreover have "int (sb_restarts s') = sb_iceRestartRequestNum s' \<and> sb_iceRestartRequestNum s' \<le> 4"
    using assms(2) substep_restarts [OF assms(1)] by (auto simp: sub_inv_def i64_id in_i64_def)
  ultimately show ?thesis by (simp add: sub_inv_def)
qed

lemma newSubscriber_inv:
  assumes "newSubscriber marshal ts config s0 E P cfg = (Inr sub, cfg')"
  shows "sub_inv sub \<and> ir_cfg (sb_iceRecovery sub) = ice_withDefaults (pp_recovery P)"
  using assms
  by (auto simp: newSubscriber_def sub_inv_def newICERecovery_inv newICERecovery_def [THEN arg_cong [of _ _ ir_cfg]]
      offers_ok_def NewPCTransport_def Let_def split: if_splits prod.splits option.splits)

interpretation subscriber_machine: invariant_machine
    "\<lambda>sub. \<exists>marshal ts config s0 E P cfg cfg'. newSubscriber marshal ts config s0 E P cfg = (Inr sub, cfg')" substep sub_inv
proof (unfold_locales, goal_cases)
  case (1 s)
  then show ?case by (elim exE) (drule newSubscriber_inv, simp)
qed (rule substep_inv)

lemma restarts_monotone: "substep\<^sup>*\<^sup>* s s' \<Longrightarrow> sb_restarts s \<le> sb_restarts s'"
  by (induction rule: rtranclp_induct) (use substep_restarts le_trans in fastforce)+

text \<open>C38: Whatever happens to a subscriber over its life, it asks the SFU at most four times to restart ICE because a negotiation failed. The
  four are for the whole life: once they are used up no failed negotiation is answered with a restart any more, however often the connection was
  up in between. Its recovery grants at most as many restarts as it is configured to between two connections; those made since the last
  connection are the granted ones that are over, and those that were under way when it came, and over the whole life there are at most the
  budget for every connection and once more. The offers of its transport follow the protocol.\<close>

theorem subscriber_restarts_bounded:
  assumes "newSubscriber marshal ts config s0 E P cfg = (Inr sub, cfg')" "substep\<^sup>*\<^sup>* sub s"
  shows "sb_restarts s \<le> 4 \<and>
    (let r = sb_iceRecovery s; most = MaxRestartsWithoutRecovery (ir_cfg r) in
     ir_attempts r \<le> most \<and> int (restarts r) = ir_attempts r + int (ir_carried r) - int (granted r) \<and>
     int (all_restarts r) \<le> most * (int (ir_connects r) + 1)) \<and>
    offer_protocol (0, False) (t_calls (sb_transport s)) \<noteq> None \<and>
    (\<forall>s'. sb_restarts s = 4 \<and> substep\<^sup>*\<^sup>* s s' \<longrightarrow> sb_restarts s' = 4)"
proof -
  have "\<exists>marshal ts config s0 E P cfg cfg'. newSubscriber marshal ts config s0 E P cfg = (Inr sub, cfg')" using assms(1) by blast
  then have inv: "sub_inv s" using assms(2) by (rule subscriber_machine.reach_inv)
  have "sb_restarts s' = 4" if "sb_restarts s = 4" "substep\<^sup>*\<^sup>* s s'" for s'
    using that restarts_monotone [of s s'] subscriber_machine.run_inv [OF that(2) inv] by (simp add: sub_inv_def)
  then show ?thesis using inv by (simp add: sub_inv_def ir_inv_def offers_ok_def Let_def algebra_simps)
qed

lemma sample_subscriber_new:
  "newSubscriber (\<lambda>_. []) 0 JNull [] pion_accepts sample_params sample_config =
    (Inr sample_subscriber, snd (newSubscriber (\<lambda>_. []) 0 JNull ([] :: (uint32 \<times> subscribedTrackEntry) list) pion_accepts sample_params sample_config))"
  by (simp add: sample_subscriber_def newSubscriber_def subscriber_interceptors_def pion_accepts_def sample_params_def sample_config_def Let_def)

lemma subscriber_restarts_bounded_witness:
  "(\<lambda>err. sb_restarts ((OnNegotiationFailed_sub err ^^ 4) sample_subscriber) = 4 \<and>
     sb_restarts (OnNegotiationFailed_sub err (OnInitialConnected_sub ((OnNegotiationFailed_sub err ^^ 4) sample_subscriber))) = 4)
   \<lparr>ne_Reason = [], ne_Code = 0, ne_Message = [], ne_Err = None\<rparr>"
proof -
  define err where "err = \<lparr>ne_Reason = [], ne_Code = 0, ne_Message = [], ne_Err = None\<rparr>"
  define s where "s = (OnNegotiationFailed_sub err ^^ 4) sample_subscriber"
  have run: "substep\<^sup>*\<^sup>* sub ((OnNegotiationFailed_sub err ^^ n) sub)" for n and sub :: "'t subscriber"
    by (induction n) (auto intro: rtranclp.rtrancl_into_rtrancl substep.negotiation_failed)
  have start: "sb_iceRestartRequestNum sample_subscriber = 0" "sb_restarts sample_subscriber = 0" "sb_bound sample_subscriber"
    by (simp_all add: sample_subscriber_def newSubscriber_def subscriber_interceptors_def pion_accepts_def sample_params_def sample_config_def Let_def)
  have four: "sb_restarts s = 4 \<and> sb_bound s"
    by (simp add: s_def numeral_eq_Suc OnNegotiationFailed_sub_def Let_def start i64_def)
  then have "substep s (OnInitialConnected_sub s)" by (simp add: substep.connected)
  moreover have "substep (OnInitialConnected_sub s) (OnNegotiationFailed_sub err (OnInitialConnected_sub s))" by (rule substep.negotiation_failed)
  ultimately have "substep\<^sup>*\<^sup>* s (OnNegotiationFailed_sub err (OnInitialConnected_sub s))" by simp
  then have "sb_restarts (OnNegotiationFailed_sub err (OnInitialConnected_sub s)) = 4"
    using subscriber_restarts_bounded [OF sample_subscriber_new, of s] run four by (auto simp: s_def)
  then show ?thesis using four unfolding s_def err_def by simp
qed

section \<open>A peer that was detached\<close>

text \<open>Giving up calls \<open>setReconnectStrategyAndDisconnect\<close> of the call, which is the one that owns the peer now or owned it once; \<open>ok\<close> is
  whether a close frame can be written.\<close>

definition escalating :: "ir_thread \<Rightarrow> bool" where
  "escalating t = (case t of Escalating _ \<Rightarrow> True | _ \<Rightarrow> False)"

definition escalates :: "nat \<Rightarrow> iceRecovery \<Rightarrow> bool" where
  "escalates i r \<longleftrightarrow> i < length (ir_threads r) \<and> escalating (ir_threads r ! i)"

definition recovery_step_sub :: "strategy_enum \<Rightarrow> bool \<Rightarrow> rpc_answer \<Rightarrow> nat \<Rightarrow> 't subscriber \<times> call \<Rightarrow> 't subscriber \<times> call" where
  "recovery_step_sub S ok answer i sc =
    (let (s, c) = sc
     in (recovery_runs_sub answer i s, if escalates i (sb_iceRecovery s) then disconnect_with S ok (REJOIN S) c else c))"

definition timer_fires_sub :: "nat \<Rightarrow> 't subscriber \<Rightarrow> 't subscriber" where
  "timer_fires_sub n s = s\<lparr>sb_iceRecovery := timer_goes_off n (sb_iceRecovery s)\<rparr>"

text \<open>The timer goes off and its goroutine runs to the end: it takes the mutex to forget the timer, again to be granted the restart,
  waits for the SFU's answer, and escalates. \<open>closing\<close> is the step before which \<open>Close\<close> runs, if it does.\<close>

definition expiry_step :: "strategy_enum \<Rightarrow> bool \<Rightarrow> rpc_answer \<Rightarrow> nat \<Rightarrow> nat option \<Rightarrow> nat \<Rightarrow> nat \<Rightarrow> 't subscriber \<times> call \<Rightarrow> 't subscriber \<times> call" where
  "expiry_step S ok answer n closing i k sc =
    (let (s, c) = sc; s = (if closing = Some k then Close_sub s else s)
     in if k = 0 then (timer_fires_sub n s, c) else recovery_step_sub S ok answer i (s, c))"

definition expiry :: "strategy_enum \<Rightarrow> bool \<Rightarrow> rpc_answer \<Rightarrow> nat \<Rightarrow> nat option \<Rightarrow> 't subscriber \<times> call \<Rightarrow> 't subscriber \<times> call" where
  "expiry S ok answer n closing sc =
    fold (expiry_step S ok answer n closing (length (ir_threads (sb_iceRecovery (fst sc))))) [0, 1, 2, 3, 4] sc"

text \<open>What one goroutine, the last one, does to the recovery and to the call.\<close>

definition last_thread :: "'t subscriber \<Rightarrow> ir_thread list \<Rightarrow> ir_thread option \<Rightarrow> bool \<Rightarrow> bool \<Rightarrow> bool" where
  "last_thread s ts t cl spent \<longleftrightarrow> ir_threads (sb_iceRecovery s) = ts @ option_list t \<and> ir_closed (sb_iceRecovery s) = cl \<and>
     (ir_attempts (sb_iceRecovery s) \<ge> MaxRestartsWithoutRecovery (ir_cfg (sb_iceRecovery s)) \<longleftrightarrow> spent)"

lemma last_thread_close: "last_thread s ts t cl sp \<Longrightarrow> last_thread (Close_sub s) ts t True sp"
  by (simp add: last_thread_def Close_sub_def close_recovery_def)

definition next_thread :: "bool \<Rightarrow> bool \<Rightarrow> bool \<Rightarrow> ir_thread option \<Rightarrow> ir_thread option" where
  "next_thread refused sp cl t =
    (case t of
       None \<Rightarrow> None
     | Some (Fired n) \<Rightarrow> Some Trying
     | Some Trying \<Rightarrow> if cl then None else Some (if sp then Escalating ''ice restarts did not restore the connection'' else Restarting)
     | Some Restarting \<Rightarrow> if refused then Some (Escalating ''ice restart failed'') else None
     | Some (Escalating reason) \<Rightarrow> None)"

definition told :: "strategy_enum \<Rightarrow> bool \<Rightarrow> ir_thread option \<Rightarrow> call \<Rightarrow> call" where
  "told S ok t c = (case t of Some (Escalating reason) \<Rightarrow> disconnect_with S ok (REJOIN S) c | _ \<Rightarrow> c)"

lemmas thread_defs = recovery_step_sub_def recovery_runs_sub_def run_thread_def thread_runs_def timer_callback_def tryRestart_def
  restart_returns_def ir_call_def last_thread_def escalates_def escalating_def option_list_def next_thread_def told_def

lemma last_thread_step:
  assumes "last_thread s ts t cl sp"
  shows "\<exists>s' sp'. recovery_step_sub S ok answer (length ts) (s, c) = (s', told S ok t c) \<and>
    last_thread s' ts (next_thread (requestICERestart answer \<noteq> None) sp cl t) cl sp' \<and> (t \<noteq> Some Trying \<longrightarrow> sp' = sp)"
proof (cases t)
  case None
  then show ?thesis using assms by (intro exI [of _ s] exI [of _ sp]) (simp add: thread_defs)
next
  case (Some th)
  then show ?thesis using assms by (cases th) (auto simp: thread_defs)
qed

lemma timer_fires_last:
  "last_thread s ts None cl sp \<Longrightarrow>
    last_thread (timer_fires_sub n s) ts (if n \<in> set (ir_running (sb_iceRecovery s)) then Some (Fired n) else None) cl sp"
  by (simp add: last_thread_def timer_fires_sub_def timer_goes_off_def option_list_def)

lemma expiry_step_last:
  assumes "last_thread s ts t cl sp" "0 < k"
  shows "\<exists>s' sp'. expiry_step S ok answer n closing (length ts) k (s, c) = (s', told S ok t c) \<and>
    last_thread s' ts (next_thread (requestICERestart answer \<noteq> None) sp (cl \<or> closing = Some k) t) (cl \<or> closing = Some k) sp' \<and>
    (t \<noteq> Some Trying \<longrightarrow> sp' = sp)"
proof -
  define s1 where "s1 = (if closing = Some k then Close_sub s else s)"
  have "last_thread s1 ts t (cl \<or> closing = Some k) sp"
    using assms(1) last_thread_close [OF assms(1)] by (auto simp: s1_def)
  moreover have "expiry_step S ok answer n closing (length ts) k (s, c) = recovery_step_sub S ok answer (length ts) (s1, c)"
    using assms(2) by (simp add: expiry_step_def s1_def)
  ultimately show ?thesis using last_thread_step by metis
qed

text \<open>The call is told to rejoin exactly when the restart is refused or none is left, unless \<open>Close\<close> runs before the restart is granted.\<close>

lemma expiry_call:
  assumes "n \<in> set (ir_running (sb_iceRecovery s))" "\<not> ir_closed (sb_iceRecovery s)"
  shows "snd (expiry S ok answer n closing (s, c)) =
    (if (requestICERestart answer \<noteq> None \<or> ir_attempts (sb_iceRecovery s) \<ge> MaxRestartsWithoutRecovery (ir_cfg (sb_iceRecovery s))) \<and>
        closing \<notin> {Some 0, Some 1, Some 2}
     then disconnect_with S ok (REJOIN S) c else c)"
proof -
  define ts where "ts = ir_threads (sb_iceRecovery s)"
  define sp where "sp \<longleftrightarrow> ir_attempts (sb_iceRecovery s) \<ge> MaxRestartsWithoutRecovery (ir_cfg (sb_iceRecovery s))"
  let ?nx = "next_thread (requestICERestart answer \<noteq> None)"
  let ?step = "expiry_step S ok answer n closing (length ts)"
  have s: "last_thread s ts None False sp" using assms(2) by (simp add: last_thread_def ts_def sp_def option_list_def)
  obtain s1 t1 where 1: "?step 0 (s, c) = (s1, c)" "last_thread s1 ts t1 (closing = Some 0) sp"
      "t1 = Some (Fired n) \<or> t1 = None \<and> closing = Some 0"
  proof (cases "closing = Some 0")
    case True
    then show ?thesis using that timer_fires_last [OF last_thread_close [OF s], of n] by (auto simp: expiry_step_def split: if_splits)
  next
    case False
    then show ?thesis using that timer_fires_last [OF s, of n] assms(1) by (auto simp: expiry_step_def)
  qed
  define cl1 cl2 cl3 cl4 where "cl1 \<longleftrightarrow> closing = Some 0 \<or> closing = Some 1" and "cl2 \<longleftrightarrow> cl1 \<or> closing = Some 2"
    and "cl3 \<longleftrightarrow> cl2 \<or> closing = Some 3" and "cl4 \<longleftrightarrow> cl3 \<or> closing = Some 4"
  obtain s2 where 2: "?step 1 (s1, c) = (s2, told S ok t1 c)" "last_thread s2 ts (?nx sp cl1 t1) cl1 sp"
    using expiry_step_last [OF 1(2), of 1 S ok answer n closing c] 1(3) by (auto simp: cl1_def)
  obtain s3 sp3 where 3: "?step 2 (s2, c) = (s3, told S ok (?nx sp cl1 t1) c)" "last_thread s3 ts (?nx sp cl2 (?nx sp cl1 t1)) cl2 sp3"
    using expiry_step_last [OF 2(2), of 2 S ok answer n closing c] by (auto simp: cl2_def)
  define t3 where "t3 = ?nx sp cl2 (?nx sp cl1 t1)"
  obtain s4 sp4 where 4: "?step 3 (s3, c) = (s4, told S ok t3 c)" "last_thread s4 ts (?nx sp3 cl3 t3) cl3 sp4"
    using expiry_step_last [OF 3(2), of 3 S ok answer n closing c] by (auto simp: cl3_def t3_def)
  define t4 where "t4 = ?nx sp3 cl3 t3"
  have 5: "\<exists>s5. ?step 4 (s4, c') = (s5, told S ok t4 c')" for c'
    using expiry_step_last [OF 4(2), of 4 S ok answer n closing c'] by (auto simp: t4_def)
  have t3: "t3 = (if cl2 then None else Some (if sp then Escalating ''ice restarts did not restore the connection'' else Restarting))"
    using 1(3) by (auto simp: t3_def next_thread_def cl1_def cl2_def)
  have quiet: "told S ok t1 c = c" "told S ok (?nx sp cl1 t1) c = c"
    using 1(3) by (auto simp: told_def next_thread_def)
  obtain s5 where "?step 4 (s4, told S ok t3 c) = (s5, told S ok t4 (told S ok t3 c))" using 5 by blast
  then have "snd (expiry S ok answer n closing (s, c)) = told S ok t4 (told S ok t3 c)"
    using 1(1) 2(1) 3(1) 4(1) quiet unfolding expiry_def fst_conv ts_def [symmetric] by simp
  moreover have "told S ok t4 (told S ok t3 c) =
      (if (requestICERestart answer \<noteq> None \<or> sp) \<and> \<not> cl2 then disconnect_with S ok (REJOIN S) c else c)"
    by (simp add: t4_def t3 next_thread_def told_def)
  moreover have "\<not> cl2 \<longleftrightarrow> closing \<notin> {Some 0, Some 1, Some 2}" by (auto simp: cl1_def cl2_def)
  ultimately show ?thesis unfolding sp_def by simp
qed

text \<open>C39: A migration and a rejoin detach the old subscriber, which only takes its callbacks off. If its connection had been lost before, the
  timer of its recovery is still running. When it goes off, the call is told to rejoin and the websocket of its current client, the one to the new
  SFU, is dropped, if the SFU refuses the restart or the restarts are used up; if it accepts one, nothing happens to the call. Closing the
  subscriber helps only before \<open>tryRestart\<close> has taken the mutex: closed while it waits for the answer, it still disconnects the call.\<close>

theorem detached_subscriber_disconnects_call:
  assumes "n \<in> set (ir_running (sb_iceRecovery s))" "\<not> ir_closed (sb_iceRecovery s)" "proto_numbers S"
    and "pe_client (ca_peer c) = Some i" "i < length (ca_clients c)"
  shows "(let c' = snd (expiry S ok answer n closing (Unbind_sub s, c));
        spent = (ir_attempts (sb_iceRecovery s) \<ge> MaxRestartsWithoutRecovery (ir_cfg (sb_iceRecovery s)))
     in if (requestICERestart answer \<noteq> None \<or> spent) \<and> closing \<notin> {Some 0, Some 1, Some 2}
        then ca_next c' = REJOIN S \<and> sc_conn (ca_clients c' ! i) = None \<and>
          (\<forall>k < length (sc_conns (ca_clients c ! i)). sc_conn (ca_clients c ! i) = Some k \<longrightarrow> cn_closed (sc_conns (ca_clients c' ! i) ! k))
        else c' = c)"
proof -
  have u: "sb_iceRecovery (Unbind_sub s) = sb_iceRecovery s" by (simp add: Unbind_sub_def)
  have "REJOIN S \<noteq> UNSPECIFIED S" "REJOIN S \<noteq> DISCONNECT S" using assms(3) by (simp_all add: proto_numbers_def)
  then have "ca_next d = REJOIN S \<and> sc_conn (ca_clients d ! i) = None \<and>
      (\<forall>k < length (sc_conns (ca_clients c ! i)). sc_conn (ca_clients c ! i) = Some k \<longrightarrow> cn_closed (sc_conns (ca_clients d ! i) ! k))"
    if "d = disconnect_with S ok (REJOIN S) c" for d
    using that assms(4, 5)
    by (auto simp: disconnect_with_def on_client_def Disconnect_def conn_Disconnect_def conn_Close_def Let_def split: option.splits)
  then show ?thesis
    using expiry_call [of n "Unbind_sub s" S ok answer closing c] assms(1, 2) unfolding u by (simp add: Let_def)
qed

text \<open>A call on the new SFU, and the old subscriber after its connection was lost.\<close>

definition migrated_call :: call where
  "migrated_call = (newCall published_enum)\<lparr>ca_clients := [new_client, new_client\<lparr>sc_conns := [\<lparr>cn_closed = False\<rparr>], sc_conn := Some 0\<rparr>],
     ca_peer := \<lparr>pe_client = Some 1, pe_subscriber = None, pe_publisher = None\<rparr>\<rparr>"

text \<open>Closed in time, in the middle of the request (before step 3), and never.\<close>

lemma detached_subscriber_disconnects_call_witness:
  "(let s = sample_subscriber\<lparr>sb_iceRecovery := onDisconnected (sb_iceRecovery sample_subscriber)\<rparr>;
        run = (\<lambda>answer closing. snd (expiry published_enum True answer 0 closing (Unbind_sub s, migrated_call)))
    in ca_next (run (RpcFailed ''unavailable'') None) = 3 \<and> sc_conn (ca_clients (run (RpcFailed ''unavailable'') None) ! 1) = None \<and>
       cn_closed (sc_conns (ca_clients (run (RpcFailed ''unavailable'') (Some 3)) ! 1) ! 0) \<and>
       run (RpcFailed ''unavailable'') (Some 2) = migrated_call \<and> run (RpcAnswered None []) None = migrated_call)"
proof -
  define s where "s = sample_subscriber\<lparr>sb_iceRecovery := onDisconnected (sb_iceRecovery sample_subscriber)\<rparr>"
  have r: "sb_iceRecovery sample_subscriber = newICERecovery defaultICERecoveryConfig"
    by (simp add: sample_subscriber_def newSubscriber_def subscriber_interceptors_def pion_accepts_def sample_params_def sample_config_def Let_def)
  have s: "0 \<in> set (ir_running (sb_iceRecovery s))" "\<not> ir_closed (sb_iceRecovery s)"
    by (simp_all add: s_def r onDisconnected_def newICERecovery_def)
  have left: "\<not> ir_attempts (sb_iceRecovery s) \<ge> MaxRestartsWithoutRecovery (ir_cfg (sb_iceRecovery s))"
    by (simp add: s_def r onDisconnected_def newICERecovery_def ice_withDefaults_def defaultICERecoveryConfig_def
        defaultMaxICERestartsWithoutRecovery_def defaultDisconnectedICERestartDelay_def)
  have p: "proto_numbers published_enum" "REJOIN published_enum = 3" by (simp_all add: proto_numbers_def published_enum_def)
  have c: "pe_client (ca_peer migrated_call) = Some 1" "1 < length (ca_clients migrated_call)"
    "sc_conns (ca_clients migrated_call ! 1) = [\<lparr>cn_closed = False\<rparr>]" "sc_conn (ca_clients migrated_call ! 1) = Some 0"
    by (simp_all add: migrated_call_def)
  note th = detached_subscriber_disconnects_call [OF s p(1) c(1,2), where ok = True]
  show ?thesis
    using th [of "RpcFailed ''unavailable''" None] th [of "RpcFailed ''unavailable''" "Some 3"] th [of "RpcFailed ''unavailable''" "Some 2"]
      th [of "RpcAnswered None []" None] left c p(2)
    unfolding Let_def s_def [symmetric] by (simp add: requestICERestart_def)
qed

end
