(* ===== verification/CoordEvents.thy ===== *)
theory CoordEvents
  imports EventStore
begin

text \<open>
  The events of the coordinator: the types and tables the code generator writes (\<open>wsevent_types.gen.go\<close>, \<open>events.gen.go\<close>, \<open>handler.gen.go\<close>,
  the event union of \<open>models.gen.go\<close>, \<open>events_dispatch.gen.go\<close>, the payload types of \<open>signal/events.gen.go\<close>), parsing a frame, and the functions that register
  handlers and awaiters on the event store (\<open>coordinator/client.go\<close>, \<open>events.go\<close>). An event is its Go type, its call id and
  an opaque rest. Decoding JSON is an argument. The timestamps of \<open>models/time.go\<close> are at the end.
\<close>

section \<open>The generated tables\<close>

text \<open>The Go types of the union, and the type names they carry on the wire.\<close>

datatype (plugins only: code) event_kind =
    AppUpdatedEvent | BlockedUserEvent | CallAcceptedEvent | CallClosedCaptionsFailedEvent | CallClosedCaptionsStartedEvent |
    CallClosedCaptionsStoppedEvent | CallCreatedEvent | CallDTMFEvent | CallDeletedEvent | CallEndedEvent | CallFrameRecordingFailedEvent |
    CallFrameRecordingFrameReadyEvent | CallFrameRecordingStartedEvent | CallFrameRecordingStoppedEvent | CallHLSBroadcastingFailedEvent |
    CallHLSBroadcastingStartedEvent | CallHLSBroadcastingStoppedEvent | CallLiveStartedEvent | CallMemberAddedEvent |
    CallMemberRemovedEvent | CallMemberUpdatedEvent | CallMemberUpdatedPermissionEvent | CallMissedEvent | CallModerationBlurEvent |
    CallModerationWarningEvent | CallNotificationEvent | CallReactionEvent | CallRecordingFailedEvent | CallRecordingReadyEvent |
    CallRecordingStartedEvent | CallRecordingStoppedEvent | CallRejectedEvent | CallRingEvent | CallRtmpBroadcastFailedEvent |
    CallRtmpBroadcastStartedEvent | CallRtmpBroadcastStoppedEvent | CallSessionEndedEvent | CallSessionParticipantCountsUpdatedEvent |
    CallSessionParticipantJoinedEvent | CallSessionParticipantLeftEvent | CallSessionStartedEvent | CallStatsReportReadyEvent |
    CallTranscriptionFailedEvent | CallTranscriptionReadyEvent | CallTranscriptionStartedEvent | CallTranscriptionStoppedEvent |
    CallUpdatedEvent | CallUserFeedbackSubmittedEvent | CallUserMutedEvent | ClosedCaptionEvent | ConnectedEvent | ConnectionErrorEvent |
    CustomVideoEvent | HealthCheckEvent | IngressErrorEvent | IngressStartedEvent | IngressStoppedEvent | KickedUserEvent |
    PermissionRequestEvent | UnblockedUserEvent | UpdatedCallPermissionsEvent | UserBannedEvent | UserDeactivatedEvent | UserDeletedEvent |
    UserPresenceChangedEvent | UserReactivatedEvent | UserUnbannedEvent | UserUpdatedEvent

definition GetEventType :: "event_kind \<Rightarrow> string" where
  "GetEventType k =
    (case k of
       AppUpdatedEvent \<Rightarrow> ''app.updated'' | BlockedUserEvent \<Rightarrow> ''call.blocked_user'' |
       CallAcceptedEvent \<Rightarrow> ''call.accepted'' | CallClosedCaptionsFailedEvent \<Rightarrow> ''call.closed_captions_failed'' |
       CallClosedCaptionsStartedEvent \<Rightarrow> ''call.closed_captions_started'' |
       CallClosedCaptionsStoppedEvent \<Rightarrow> ''call.closed_captions_stopped'' | CallCreatedEvent \<Rightarrow> ''call.created'' |
       CallDTMFEvent \<Rightarrow> ''call.dtmf'' | CallDeletedEvent \<Rightarrow> ''call.deleted'' |
       CallEndedEvent \<Rightarrow> ''call.ended'' | CallFrameRecordingFailedEvent \<Rightarrow> ''call.frame_recording_failed'' |
       CallFrameRecordingFrameReadyEvent \<Rightarrow> ''call.frame_recording_ready'' |
       CallFrameRecordingStartedEvent \<Rightarrow> ''call.frame_recording_started'' |
       CallFrameRecordingStoppedEvent \<Rightarrow> ''call.frame_recording_stopped'' |
       CallHLSBroadcastingFailedEvent \<Rightarrow> ''call.hls_broadcasting_failed'' |
       CallHLSBroadcastingStartedEvent \<Rightarrow> ''call.hls_broadcasting_started'' |
       CallHLSBroadcastingStoppedEvent \<Rightarrow> ''call.hls_broadcasting_stopped'' |
       CallLiveStartedEvent \<Rightarrow> ''call.live_started'' | CallMemberAddedEvent \<Rightarrow> ''call.member_added'' |
       CallMemberRemovedEvent \<Rightarrow> ''call.member_removed'' | CallMemberUpdatedEvent \<Rightarrow> ''call.member_updated'' |
       CallMemberUpdatedPermissionEvent \<Rightarrow> ''call.member_updated_permission'' | CallMissedEvent \<Rightarrow> ''call.missed'' |
       CallModerationBlurEvent \<Rightarrow> ''call.moderation_blur'' |
       CallModerationWarningEvent \<Rightarrow> ''call.moderation_warning'' | CallNotificationEvent \<Rightarrow> ''call.notification'' |
       CallReactionEvent \<Rightarrow> ''call.reaction_new'' | CallRecordingFailedEvent \<Rightarrow> ''call.recording_failed'' |
       CallRecordingReadyEvent \<Rightarrow> ''call.recording_ready'' | CallRecordingStartedEvent \<Rightarrow> ''call.recording_started'' |
       CallRecordingStoppedEvent \<Rightarrow> ''call.recording_stopped'' | CallRejectedEvent \<Rightarrow> ''call.rejected'' |
       CallRingEvent \<Rightarrow> ''call.ring'' | CallRtmpBroadcastFailedEvent \<Rightarrow> ''call.rtmp_broadcast_failed'' |
       CallRtmpBroadcastStartedEvent \<Rightarrow> ''call.rtmp_broadcast_started'' |
       CallRtmpBroadcastStoppedEvent \<Rightarrow> ''call.rtmp_broadcast_stopped'' |
       CallSessionEndedEvent \<Rightarrow> ''call.session_ended'' |
       CallSessionParticipantCountsUpdatedEvent \<Rightarrow> ''call.session_participant_count_updated'' |
       CallSessionParticipantJoinedEvent \<Rightarrow> ''call.session_participant_joined'' |
       CallSessionParticipantLeftEvent \<Rightarrow> ''call.session_participant_left'' |
       CallSessionStartedEvent \<Rightarrow> ''call.session_started'' |
       CallStatsReportReadyEvent \<Rightarrow> ''call.stats_report_ready'' |
       CallTranscriptionFailedEvent \<Rightarrow> ''call.transcription_failed'' |
       CallTranscriptionReadyEvent \<Rightarrow> ''call.transcription_ready'' |
       CallTranscriptionStartedEvent \<Rightarrow> ''call.transcription_started'' |
       CallTranscriptionStoppedEvent \<Rightarrow> ''call.transcription_stopped'' | CallUpdatedEvent \<Rightarrow> ''call.updated'' |
       CallUserFeedbackSubmittedEvent \<Rightarrow> ''call.user_feedback_submitted'' |
       CallUserMutedEvent \<Rightarrow> ''call.user_muted'' | ClosedCaptionEvent \<Rightarrow> ''call.closed_caption'' |
       ConnectedEvent \<Rightarrow> ''connection.ok'' | ConnectionErrorEvent \<Rightarrow> ''connection.error'' |
       CustomVideoEvent \<Rightarrow> ''custom'' | HealthCheckEvent \<Rightarrow> ''health.check'' |
       IngressErrorEvent \<Rightarrow> ''ingress.error'' | IngressStartedEvent \<Rightarrow> ''ingress.started'' |
       IngressStoppedEvent \<Rightarrow> ''ingress.stopped'' | KickedUserEvent \<Rightarrow> ''call.kicked_user'' |
       PermissionRequestEvent \<Rightarrow> ''call.permission_request'' | UnblockedUserEvent \<Rightarrow> ''call.unblocked_user'' |
       UpdatedCallPermissionsEvent \<Rightarrow> ''call.permissions_updated'' | UserBannedEvent \<Rightarrow> ''user.banned'' |
       UserDeactivatedEvent \<Rightarrow> ''user.deactivated'' | UserDeletedEvent \<Rightarrow> ''user.deleted'' |
       UserPresenceChangedEvent \<Rightarrow> ''user.presence.changed'' | UserReactivatedEvent \<Rightarrow> ''user.reactivated'' |
       UserUnbannedEvent \<Rightarrow> ''user.unbanned'' | UserUpdatedEvent \<Rightarrow> ''user.updated'')"

text \<open>The switch of \<open>VideoEvent.ValueByDiscriminator\<close>.\<close>

definition discriminators :: "(string \<times> event_kind) list" where
  "discriminators =
    [(''app.updated'', AppUpdatedEvent), (''call.accepted'', CallAcceptedEvent), (''call.blocked_user'', BlockedUserEvent),
     (''call.closed_caption'', ClosedCaptionEvent), (''call.closed_captions_failed'', CallClosedCaptionsFailedEvent),
     (''call.closed_captions_started'', CallClosedCaptionsStartedEvent), (''call.closed_captions_stopped'', CallClosedCaptionsStoppedEvent),
     (''call.created'', CallCreatedEvent), (''call.deleted'', CallDeletedEvent), (''call.dtmf'', CallDTMFEvent),
     (''call.ended'', CallEndedEvent), (''call.frame_recording_failed'', CallFrameRecordingFailedEvent),
     (''call.frame_recording_ready'', CallFrameRecordingFrameReadyEvent),
     (''call.frame_recording_started'', CallFrameRecordingStartedEvent), (''call.frame_recording_stopped'', CallFrameRecordingStoppedEvent),
     (''call.hls_broadcasting_failed'', CallHLSBroadcastingFailedEvent),
     (''call.hls_broadcasting_started'', CallHLSBroadcastingStartedEvent),
     (''call.hls_broadcasting_stopped'', CallHLSBroadcastingStoppedEvent), (''call.kicked_user'', KickedUserEvent),
     (''call.live_started'', CallLiveStartedEvent), (''call.member_added'', CallMemberAddedEvent),
     (''call.member_removed'', CallMemberRemovedEvent), (''call.member_updated'', CallMemberUpdatedEvent),
     (''call.member_updated_permission'', CallMemberUpdatedPermissionEvent), (''call.missed'', CallMissedEvent),
     (''call.moderation_blur'', CallModerationBlurEvent), (''call.moderation_warning'', CallModerationWarningEvent),
     (''call.notification'', CallNotificationEvent), (''call.permission_request'', PermissionRequestEvent),
     (''call.permissions_updated'', UpdatedCallPermissionsEvent), (''call.reaction_new'', CallReactionEvent),
     (''call.recording_failed'', CallRecordingFailedEvent), (''call.recording_ready'', CallRecordingReadyEvent),
     (''call.recording_started'', CallRecordingStartedEvent), (''call.recording_stopped'', CallRecordingStoppedEvent),
     (''call.rejected'', CallRejectedEvent), (''call.ring'', CallRingEvent), (''call.rtmp_broadcast_failed'', CallRtmpBroadcastFailedEvent),
     (''call.rtmp_broadcast_started'', CallRtmpBroadcastStartedEvent), (''call.rtmp_broadcast_stopped'', CallRtmpBroadcastStoppedEvent),
     (''call.session_ended'', CallSessionEndedEvent),
     (''call.session_participant_count_updated'', CallSessionParticipantCountsUpdatedEvent),
     (''call.session_participant_joined'', CallSessionParticipantJoinedEvent),
     (''call.session_participant_left'', CallSessionParticipantLeftEvent), (''call.session_started'', CallSessionStartedEvent),
     (''call.stats_report_ready'', CallStatsReportReadyEvent), (''call.transcription_failed'', CallTranscriptionFailedEvent),
     (''call.transcription_ready'', CallTranscriptionReadyEvent), (''call.transcription_started'', CallTranscriptionStartedEvent),
     (''call.transcription_stopped'', CallTranscriptionStoppedEvent), (''call.unblocked_user'', UnblockedUserEvent),
     (''call.updated'', CallUpdatedEvent), (''call.user_feedback_submitted'', CallUserFeedbackSubmittedEvent),
     (''call.user_muted'', CallUserMutedEvent), (''connection.error'', ConnectionErrorEvent), (''connection.ok'', ConnectedEvent),
     (''custom'', CustomVideoEvent), (''health.check'', HealthCheckEvent), (''ingress.error'', IngressErrorEvent),
     (''ingress.started'', IngressStartedEvent), (''ingress.stopped'', IngressStoppedEvent), (''user.banned'', UserBannedEvent),
     (''user.deactivated'', UserDeactivatedEvent), (''user.deleted'', UserDeletedEvent),
     (''user.presence.changed'', UserPresenceChangedEvent), (''user.reactivated'', UserReactivatedEvent),
     (''user.unbanned'', UserUnbannedEvent), (''user.updated'', UserUpdatedEvent)]"

definition ValueByDiscriminator :: "string \<Rightarrow> event_kind option" where
  "ValueByDiscriminator s = map_of discriminators s"

text \<open>The methods of the interface \<open>Handler\<close>, and which one \<open>dispatch\<close> calls.\<close>

definition Handler :: "string list" where
  "Handler =
    [''OnAppUpdatedEvent'', ''OnBlockedUserEvent'', ''OnCallAcceptedEvent'', ''OnCallClosedCaptionsFailedEvent'',
     ''OnCallClosedCaptionsStartedEvent'', ''OnCallClosedCaptionsStoppedEvent'', ''OnCallCreatedEvent'', ''OnCallDTMFEvent'',
     ''OnCallDeletedEvent'', ''OnCallEndedEvent'', ''OnCallFrameRecordingFailedEvent'', ''OnCallFrameRecordingFrameReadyEvent'',
     ''OnCallFrameRecordingStartedEvent'', ''OnCallFrameRecordingStoppedEvent'', ''OnCallHLSBroadcastingFailedEvent'',
     ''OnCallHLSBroadcastingStartedEvent'', ''OnCallHLSBroadcastingStoppedEvent'', ''OnCallLiveStartedEvent'', ''OnCallMemberAddedEvent'',
     ''OnCallMemberRemovedEvent'', ''OnCallMemberUpdatedEvent'', ''OnCallMemberUpdatedPermissionEvent'', ''OnCallMissedEvent'',
     ''OnCallModerationBlurEvent'', ''OnCallModerationWarningEvent'', ''OnCallNotificationEvent'', ''OnCallReactionEvent'',
     ''OnCallRecordingFailedEvent'', ''OnCallRecordingReadyEvent'', ''OnCallRecordingStartedEvent'', ''OnCallRecordingStoppedEvent'',
     ''OnCallRejectedEvent'', ''OnCallRingEvent'', ''OnCallRtmpBroadcastFailedEvent'', ''OnCallRtmpBroadcastStartedEvent'',
     ''OnCallRtmpBroadcastStoppedEvent'', ''OnCallSessionEndedEvent'', ''OnCallSessionParticipantCountsUpdatedEvent'',
     ''OnCallSessionParticipantJoinedEvent'', ''OnCallSessionParticipantLeftEvent'', ''OnCallSessionStartedEvent'',
     ''OnCallStatsReportReadyEvent'', ''OnCallTranscriptionFailedEvent'', ''OnCallTranscriptionReadyEvent'',
     ''OnCallTranscriptionStartedEvent'', ''OnCallTranscriptionStoppedEvent'', ''OnCallUpdatedEvent'', ''OnCallUserFeedbackSubmittedEvent'',
     ''OnCallUserMutedEvent'', ''OnClosedCaptionEvent'', ''OnConnectedEvent'', ''OnConnectionErrorEvent'', ''OnCustomVideoEvent'',
     ''OnHealthCheckEvent'', ''OnIngressErrorEvent'', ''OnIngressStartedEvent'', ''OnIngressStoppedEvent'', ''OnKickedUserEvent'',
     ''OnPermissionRequestEvent'', ''OnUnblockedUserEvent'', ''OnUpdatedCallPermissionsEvent'', ''OnUserBannedEvent'',
     ''OnUserDeactivatedEvent'', ''OnUserDeletedEvent'', ''OnUserPresenceChangedEvent'', ''OnUserReactivatedEvent'',
     ''OnUserUnbannedEvent'', ''OnUserUpdatedEvent'']"

definition dispatch_event :: "event_kind \<Rightarrow> string option" where
  "dispatch_event k =
    (case k of
       AppUpdatedEvent \<Rightarrow> Some ''OnAppUpdatedEvent'' | BlockedUserEvent \<Rightarrow> Some ''OnBlockedUserEvent'' |
       CallAcceptedEvent \<Rightarrow> Some ''OnCallAcceptedEvent'' |
       CallClosedCaptionsFailedEvent \<Rightarrow> Some ''OnCallClosedCaptionsFailedEvent'' |
       CallClosedCaptionsStartedEvent \<Rightarrow> Some ''OnCallClosedCaptionsStartedEvent'' |
       CallClosedCaptionsStoppedEvent \<Rightarrow> Some ''OnCallClosedCaptionsStoppedEvent'' |
       CallCreatedEvent \<Rightarrow> Some ''OnCallCreatedEvent'' | CallDTMFEvent \<Rightarrow> Some ''OnCallDTMFEvent'' |
       CallDeletedEvent \<Rightarrow> Some ''OnCallDeletedEvent'' | CallEndedEvent \<Rightarrow> Some ''OnCallEndedEvent'' |
       CallFrameRecordingFailedEvent \<Rightarrow> Some ''OnCallFrameRecordingFailedEvent'' |
       CallFrameRecordingFrameReadyEvent \<Rightarrow> Some ''OnCallFrameRecordingFrameReadyEvent'' |
       CallFrameRecordingStartedEvent \<Rightarrow> Some ''OnCallFrameRecordingStartedEvent'' |
       CallFrameRecordingStoppedEvent \<Rightarrow> Some ''OnCallFrameRecordingStoppedEvent'' |
       CallHLSBroadcastingFailedEvent \<Rightarrow> Some ''OnCallHLSBroadcastingFailedEvent'' |
       CallHLSBroadcastingStartedEvent \<Rightarrow> Some ''OnCallHLSBroadcastingStartedEvent'' |
       CallHLSBroadcastingStoppedEvent \<Rightarrow> Some ''OnCallHLSBroadcastingStoppedEvent'' |
       CallLiveStartedEvent \<Rightarrow> Some ''OnCallLiveStartedEvent'' |
       CallMemberAddedEvent \<Rightarrow> Some ''OnCallMemberAddedEvent'' |
       CallMemberRemovedEvent \<Rightarrow> Some ''OnCallMemberRemovedEvent'' |
       CallMemberUpdatedEvent \<Rightarrow> Some ''OnCallMemberUpdatedEvent'' |
       CallMemberUpdatedPermissionEvent \<Rightarrow> Some ''OnCallMemberUpdatedPermissionEvent'' |
       CallMissedEvent \<Rightarrow> Some ''OnCallMissedEvent'' | CallModerationBlurEvent \<Rightarrow> Some ''OnCallModerationBlurEvent'' |
       CallModerationWarningEvent \<Rightarrow> Some ''OnCallModerationWarningEvent'' |
       CallNotificationEvent \<Rightarrow> Some ''OnCallNotificationEvent'' | CallReactionEvent \<Rightarrow> Some ''OnCallReactionEvent'' |
       CallRecordingFailedEvent \<Rightarrow> Some ''OnCallRecordingFailedEvent'' |
       CallRecordingReadyEvent \<Rightarrow> Some ''OnCallRecordingReadyEvent'' |
       CallRecordingStartedEvent \<Rightarrow> Some ''OnCallRecordingStartedEvent'' |
       CallRecordingStoppedEvent \<Rightarrow> Some ''OnCallRecordingStoppedEvent'' |
       CallRejectedEvent \<Rightarrow> Some ''OnCallRejectedEvent'' | CallRingEvent \<Rightarrow> Some ''OnCallRingEvent'' |
       CallRtmpBroadcastFailedEvent \<Rightarrow> Some ''OnCallRtmpBroadcastFailedEvent'' |
       CallRtmpBroadcastStartedEvent \<Rightarrow> Some ''OnCallRtmpBroadcastStartedEvent'' |
       CallRtmpBroadcastStoppedEvent \<Rightarrow> Some ''OnCallRtmpBroadcastStoppedEvent'' |
       CallSessionEndedEvent \<Rightarrow> Some ''OnCallSessionEndedEvent'' |
       CallSessionParticipantCountsUpdatedEvent \<Rightarrow> Some ''OnCallSessionParticipantCountsUpdatedEvent'' |
       CallSessionParticipantJoinedEvent \<Rightarrow> Some ''OnCallSessionParticipantJoinedEvent'' |
       CallSessionParticipantLeftEvent \<Rightarrow> Some ''OnCallSessionParticipantLeftEvent'' |
       CallSessionStartedEvent \<Rightarrow> Some ''OnCallSessionStartedEvent'' |
       CallStatsReportReadyEvent \<Rightarrow> Some ''OnCallStatsReportReadyEvent'' |
       CallTranscriptionFailedEvent \<Rightarrow> Some ''OnCallTranscriptionFailedEvent'' |
       CallTranscriptionReadyEvent \<Rightarrow> Some ''OnCallTranscriptionReadyEvent'' |
       CallTranscriptionStartedEvent \<Rightarrow> Some ''OnCallTranscriptionStartedEvent'' |
       CallTranscriptionStoppedEvent \<Rightarrow> Some ''OnCallTranscriptionStoppedEvent'' |
       CallUpdatedEvent \<Rightarrow> Some ''OnCallUpdatedEvent'' |
       CallUserFeedbackSubmittedEvent \<Rightarrow> Some ''OnCallUserFeedbackSubmittedEvent'' |
       CallUserMutedEvent \<Rightarrow> Some ''OnCallUserMutedEvent'' | ClosedCaptionEvent \<Rightarrow> Some ''OnClosedCaptionEvent'' |
       ConnectedEvent \<Rightarrow> Some ''OnConnectedEvent'' | ConnectionErrorEvent \<Rightarrow> Some ''OnConnectionErrorEvent'' |
       CustomVideoEvent \<Rightarrow> Some ''OnCustomVideoEvent'' | HealthCheckEvent \<Rightarrow> Some ''OnHealthCheckEvent'' |
       IngressErrorEvent \<Rightarrow> Some ''OnIngressErrorEvent'' | IngressStartedEvent \<Rightarrow> Some ''OnIngressStartedEvent'' |
       IngressStoppedEvent \<Rightarrow> Some ''OnIngressStoppedEvent'' | KickedUserEvent \<Rightarrow> Some ''OnKickedUserEvent'' |
       PermissionRequestEvent \<Rightarrow> Some ''OnPermissionRequestEvent'' |
       UnblockedUserEvent \<Rightarrow> Some ''OnUnblockedUserEvent'' |
       UpdatedCallPermissionsEvent \<Rightarrow> Some ''OnUpdatedCallPermissionsEvent'' |
       UserBannedEvent \<Rightarrow> Some ''OnUserBannedEvent'' | UserDeactivatedEvent \<Rightarrow> Some ''OnUserDeactivatedEvent'' |
       UserDeletedEvent \<Rightarrow> Some ''OnUserDeletedEvent'' |
       UserPresenceChangedEvent \<Rightarrow> Some ''OnUserPresenceChangedEvent'' |
       UserReactivatedEvent \<Rightarrow> Some ''OnUserReactivatedEvent'' | UserUnbannedEvent \<Rightarrow> Some ''OnUserUnbannedEvent'' |
       UserUpdatedEvent \<Rightarrow> Some ''OnUserUpdatedEvent'')"

text \<open>The types of the constraint \<open>CallEvents\<close>, and those for which \<open>getCallCid\<close> reads a call id.\<close>

definition CallEvents :: "event_kind list" where
  "CallEvents =
    [BlockedUserEvent, CallAcceptedEvent, CallClosedCaptionsFailedEvent, CallClosedCaptionsStartedEvent, CallClosedCaptionsStoppedEvent,
     CallCreatedEvent, CallDTMFEvent, CallDeletedEvent, CallEndedEvent, CallFrameRecordingFailedEvent, CallFrameRecordingFrameReadyEvent,
     CallFrameRecordingStartedEvent, CallFrameRecordingStoppedEvent, CallHLSBroadcastingFailedEvent, CallHLSBroadcastingStartedEvent,
     CallHLSBroadcastingStoppedEvent, CallLiveStartedEvent, CallMemberAddedEvent, CallMemberRemovedEvent, CallMemberUpdatedEvent,
     CallMemberUpdatedPermissionEvent, CallMissedEvent, CallModerationBlurEvent, CallModerationWarningEvent, CallNotificationEvent,
     CallReactionEvent, CallRecordingFailedEvent, CallRecordingReadyEvent, CallRecordingStartedEvent, CallRecordingStoppedEvent,
     CallRejectedEvent, CallRingEvent, CallRtmpBroadcastFailedEvent, CallRtmpBroadcastStartedEvent, CallRtmpBroadcastStoppedEvent,
     CallSessionEndedEvent, CallSessionParticipantCountsUpdatedEvent, CallSessionParticipantJoinedEvent, CallSessionParticipantLeftEvent,
     CallSessionStartedEvent, CallStatsReportReadyEvent, CallTranscriptionFailedEvent, CallTranscriptionReadyEvent,
     CallTranscriptionStartedEvent, CallTranscriptionStoppedEvent, CallUpdatedEvent, CallUserFeedbackSubmittedEvent, CallUserMutedEvent,
     ClosedCaptionEvent, CustomVideoEvent, IngressErrorEvent, IngressStartedEvent, IngressStoppedEvent, KickedUserEvent,
     PermissionRequestEvent, UnblockedUserEvent, UpdatedCallPermissionsEvent]"

definition carries_CallCid :: "event_kind list" where
  "carries_CallCid =
    [BlockedUserEvent, CallAcceptedEvent, CallClosedCaptionsFailedEvent, CallClosedCaptionsStartedEvent, CallClosedCaptionsStoppedEvent,
     CallCreatedEvent, CallDTMFEvent, CallDeletedEvent, CallEndedEvent, CallFrameRecordingFailedEvent, CallFrameRecordingFrameReadyEvent,
     CallFrameRecordingStartedEvent, CallFrameRecordingStoppedEvent, CallHLSBroadcastingFailedEvent, CallHLSBroadcastingStartedEvent,
     CallHLSBroadcastingStoppedEvent, CallLiveStartedEvent, CallMemberAddedEvent, CallMemberRemovedEvent, CallMemberUpdatedEvent,
     CallMemberUpdatedPermissionEvent, CallMissedEvent, CallModerationBlurEvent, CallModerationWarningEvent, CallNotificationEvent,
     CallReactionEvent, CallRecordingFailedEvent, CallRecordingReadyEvent, CallRecordingStartedEvent, CallRecordingStoppedEvent,
     CallRejectedEvent, CallRingEvent, CallRtmpBroadcastFailedEvent, CallRtmpBroadcastStartedEvent, CallRtmpBroadcastStoppedEvent,
     CallSessionEndedEvent, CallSessionParticipantCountsUpdatedEvent, CallSessionParticipantJoinedEvent, CallSessionParticipantLeftEvent,
     CallSessionStartedEvent, CallStatsReportReadyEvent, CallTranscriptionFailedEvent, CallTranscriptionReadyEvent,
     CallTranscriptionStartedEvent, CallTranscriptionStoppedEvent, CallUpdatedEvent, CallUserFeedbackSubmittedEvent, CallUserMutedEvent,
     ClosedCaptionEvent, CustomVideoEvent, IngressErrorEvent, IngressStartedEvent, IngressStoppedEvent, KickedUserEvent,
     PermissionRequestEvent, UnblockedUserEvent, UpdatedCallPermissionsEvent]"

text \<open>The payloads of an SFU event, and the two families of cases of \<open>dispatchCallEvent\<close>.\<close>

datatype sfu_payload =
    SfuEvent_AudioLevelChanged | SfuEvent_CallEnded | SfuEvent_CallGrantsUpdated | SfuEvent_ChangePublishOptions |
    SfuEvent_ChangePublishQuality | SfuEvent_ConnectionQualityChanged | SfuEvent_DominantSpeakerChanged | SfuEvent_Error | SfuEvent_GoAway |
    SfuEvent_HealthCheckResponse | SfuEvent_IceRestart | SfuEvent_IceTrickle | SfuEvent_InboundStateNotification | SfuEvent_JoinResponse |
    SfuEvent_ParticipantJoined | SfuEvent_ParticipantLeft | SfuEvent_ParticipantMigrationComplete | SfuEvent_ParticipantUpdated |
    SfuEvent_PinsUpdated | SfuEvent_PublisherAnswer | SfuEvent_SubscriberOffer | SfuEvent_TrackPublished | SfuEvent_TrackUnpublished

definition routed_to_coordinator :: "event_kind list" where
  "routed_to_coordinator =
    [BlockedUserEvent, CallAcceptedEvent, CallClosedCaptionsFailedEvent, CallClosedCaptionsStartedEvent, CallClosedCaptionsStoppedEvent,
     CallCreatedEvent, CallDTMFEvent, CallDeletedEvent, CallEndedEvent, CallFrameRecordingFailedEvent, CallFrameRecordingFrameReadyEvent,
     CallFrameRecordingStartedEvent, CallFrameRecordingStoppedEvent, CallHLSBroadcastingFailedEvent, CallHLSBroadcastingStartedEvent,
     CallHLSBroadcastingStoppedEvent, CallLiveStartedEvent, CallMemberAddedEvent, CallMemberRemovedEvent, CallMemberUpdatedEvent,
     CallMemberUpdatedPermissionEvent, CallMissedEvent, CallModerationBlurEvent, CallModerationWarningEvent, CallNotificationEvent,
     CallReactionEvent, CallRecordingFailedEvent, CallRecordingReadyEvent, CallRecordingStartedEvent, CallRecordingStoppedEvent,
     CallRejectedEvent, CallRingEvent, CallRtmpBroadcastFailedEvent, CallRtmpBroadcastStartedEvent, CallRtmpBroadcastStoppedEvent,
     CallSessionEndedEvent, CallSessionParticipantCountsUpdatedEvent, CallSessionParticipantJoinedEvent, CallSessionParticipantLeftEvent,
     CallSessionStartedEvent, CallStatsReportReadyEvent, CallTranscriptionFailedEvent, CallTranscriptionReadyEvent,
     CallTranscriptionStartedEvent, CallTranscriptionStoppedEvent, CallUpdatedEvent, CallUserFeedbackSubmittedEvent, CallUserMutedEvent,
     ClosedCaptionEvent, CustomVideoEvent, IngressErrorEvent, IngressStartedEvent, IngressStoppedEvent, KickedUserEvent,
     PermissionRequestEvent, UnblockedUserEvent, UpdatedCallPermissionsEvent]"

definition routed_to_signal :: "sfu_payload list" where
  "routed_to_signal =
    [SfuEvent_AudioLevelChanged, SfuEvent_CallEnded, SfuEvent_CallGrantsUpdated, SfuEvent_ChangePublishOptions,
     SfuEvent_ChangePublishQuality, SfuEvent_ConnectionQualityChanged, SfuEvent_DominantSpeakerChanged, SfuEvent_Error, SfuEvent_GoAway,
     SfuEvent_HealthCheckResponse, SfuEvent_IceRestart, SfuEvent_IceTrickle, SfuEvent_InboundStateNotification, SfuEvent_JoinResponse,
     SfuEvent_ParticipantJoined, SfuEvent_ParticipantLeft, SfuEvent_ParticipantMigrationComplete, SfuEvent_ParticipantUpdated,
     SfuEvent_PinsUpdated, SfuEvent_PublisherAnswer, SfuEvent_SubscriberOffer, SfuEvent_TrackPublished, SfuEvent_TrackUnpublished]"

section \<open>Parsing\<close>

record ws_event =
  we_kind :: event_kind
  we_CallCid :: string
  we_payload :: nat

datatype parse_error = BadEvent | UnknownEvent string | BadBody string

text \<open>\<open>discriminator\<close> reads the field \<open>type\<close> of a frame and \<open>body\<close> decodes the rest as the struct of a type.\<close>

definition GetRawEventType :: "('raw \<Rightarrow> string option) \<Rightarrow> 'raw \<Rightarrow> string" where
  "GetRawEventType discriminator raw = (case discriminator raw of None \<Rightarrow> [] | Some s \<Rightarrow> s)"

definition ParseWebsocketEvent ::
    "('raw \<Rightarrow> string option) \<Rightarrow> (event_kind \<Rightarrow> 'raw \<Rightarrow> (string \<times> nat) option) \<Rightarrow> 'raw \<Rightarrow> parse_error + ws_event" where
  "ParseWebsocketEvent discriminator body raw =
    (case discriminator raw of
       None \<Rightarrow> Inl BadEvent
     | Some d \<Rightarrow>
        (case ValueByDiscriminator d of
           None \<Rightarrow> Inl (UnknownEvent (GetRawEventType discriminator raw))
         | Some k \<Rightarrow>
            (case body k raw of
               None \<Rightarrow> Inl (BadBody (GetRawEventType discriminator raw))
             | Some (cid, p) \<Rightarrow> Inr \<lparr>we_kind = k, we_CallCid = cid, we_payload = p\<rparr>)))"

definition getCallCid :: "ws_event \<Rightarrow> string" where
  "getCallCid e = (if we_kind e \<in> set carries_CallCid then we_CallCid e else [])"

lemma kinds_listed: "k \<in> set (map snd discriminators)"
  by (cases k) (simp_all add: discriminators_def)

lemma discriminators_ok: "list_all (\<lambda>(s, k). GetEventType k = s \<and> (case dispatch_event k of Some m \<Rightarrow> m \<in> set Handler | None \<Rightarrow> False)) discriminators"
  by code_simp

lemma discriminators_distinct: "distinct (map fst discriminators)" "distinct (map (\<lambda>(s, k). dispatch_event k) discriminators)"
  by code_simp+

lemma call_events_agree: "set CallEvents = set carries_CallCid" "set routed_to_coordinator = set CallEvents"
  by (simp_all add: CallEvents_def carries_CallCid_def routed_to_coordinator_def)

lemma sfu_payloads_listed: "p \<in> set routed_to_signal"
  by (cases p) (simp_all add: routed_to_signal_def)

lemma kind_entry: "(GetEventType k, k) \<in> set discriminators"
  using kinds_listed[of k] discriminators_ok by (auto simp: list_all_iff)

section \<open>Handlers and awaiters\<close>

definition AnyCall :: string where "AnyCall = ''*''"

text \<open>The closures that \<open>HandleEvent\<close> and \<open>HandleCallEvent\<close> register: for a type, and for a type and a call.\<close>

datatype closure = OnEvent event_kind | OnCallEvent event_kind string

definition closure_runs :: "closure \<Rightarrow> ws_event \<Rightarrow> bool" where
  "closure_runs c e =
    (case c of
       OnEvent T \<Rightarrow> we_kind e = T
     | OnCallEvent T cid \<Rightarrow> we_kind e = T \<and> (cid = AnyCall \<or> getCallCid e = cid))"

record registry =
  rg_store :: "ws_event Store"
  rg_closures :: "closure list"

definition register :: "closure \<Rightarrow> registry \<Rightarrow> uint64 \<times> registry" where
  "register c r =
    (let (i, s) = AddInterceptor (length (rg_closures r)) (rg_store r)
     in (i, r\<lparr>rg_store := s, rg_closures := rg_closures r @ [c]\<rparr>))"

definition HandleEvent :: "event_kind \<Rightarrow> registry \<Rightarrow> uint64 \<times> registry" where
  "HandleEvent T r = register (OnEvent T) r"

definition HandleCallEvent :: "event_kind \<Rightarrow> string \<Rightarrow> registry \<Rightarrow> uint64 \<times> registry" where
  "HandleCallEvent T cid r = register (OnCallEvent T cid) r"

text \<open>Awaiters: an event of the type, of the call for \<open>AwaitCallEvent\<close>, that satisfies the caller's condition.\<close>

definition AwaitEvent :: "event_kind \<Rightarrow> (ws_event \<Rightarrow> bool) \<Rightarrow> registry \<Rightarrow> nat \<times> registry" where
  "AwaitEvent T match r =
    (let (a, s) = NewEventAwaiter (\<lambda>e. we_kind e = T \<and> match e) (rg_store r) in (a, r\<lparr>rg_store := s\<rparr>))"

definition AwaitCallEvent :: "event_kind \<Rightarrow> string \<Rightarrow> (ws_event \<Rightarrow> bool) \<Rightarrow> registry \<Rightarrow> nat \<times> registry" where
  "AwaitCallEvent T cid match r =
    AwaitEvent T (\<lambda>e. if getCallCid e = cid then match e else False) r"

text \<open>\<open>RawHandler\<close> hands an event to the store, which a client always has; what the function of the \<open>n\<close>-th registration has been called with.\<close>

definition RawHandler :: "ws_event \<Rightarrow> registry \<Rightarrow> registry option" where
  "RawHandler e r = map_option (\<lambda>s. r\<lparr>rg_store := s\<rparr>) (Intercept e (rg_store r))"

definition seen :: "nat \<Rightarrow> registry \<Rightarrow> ws_event list" where
  "seen n r = map snd (filter (\<lambda>(f, e). f = n \<and> closure_runs (rg_closures r ! n) e) (st_calls (rg_store r)))"

text \<open>The two stores a call event can be registered on. \<open>signal\<close> is the number of the call's signalling client, which a call has only once it
  has joined; registering with no client dereferences nil.\<close>

datatype route = ToCoordinator event_kind string | ToSignal nat sfu_payload

definition dispatchCallEvent :: "string \<Rightarrow> nat option \<Rightarrow> event_kind + sfu_payload \<Rightarrow> (route option) option" where
  "dispatchCallEvent cid signal T =
    (case T of
       Inl k \<Rightarrow> Some (if k \<in> set routed_to_coordinator then Some (ToCoordinator k cid) else None)
     | Inr p \<Rightarrow>
        (if p \<in> set routed_to_signal then
           (case signal of None \<Rightarrow> None | Some i \<Rightarrow> Some (Some (ToSignal i p)))
         else Some None))"

section \<open>What handlers see\<close>

text \<open>Whatever happens on the store after a registration: events, other registrations, removals, awaiters and their timeouts.\<close>

datatype reg_op = RgEvent ws_event | RgRegister closure | RgStore "ws_event store_op"

definition reg_step :: "reg_op \<Rightarrow> registry \<Rightarrow> registry option" where
  "reg_step p r =
    (case p of
       RgEvent e \<Rightarrow> RawHandler e r
     | RgRegister c \<Rightarrow> Some (snd (register c r))
     | RgStore op \<Rightarrow> map_option (\<lambda>s. r\<lparr>rg_store := s\<rparr>) (store_step op (rg_store r)))"

fun reg_run :: "reg_op list \<Rightarrow> registry \<Rightarrow> registry option" where
  "reg_run [] r = Some r"
| "reg_run (p # ps) r = Option.bind (reg_step p r) (reg_run ps)"

text \<open>The events of a registration with handle \<open>i\<close>: those that satisfy \<open>P\<close>, until it is removed.\<close>

fun events_for :: "uint64 \<Rightarrow> (ws_event \<Rightarrow> bool) \<Rightarrow> reg_op list \<Rightarrow> ws_event list" where
  "events_for i P [] = []"
| "events_for i P (RgEvent e # ps) = (if P e then e # events_for i P ps else events_for i P ps)"
| "events_for i P (RgStore (OpRemove j) # ps) = (if j = i then [] else events_for i P ps)"
| "events_for i P (_ # ps) = events_for i P ps"

text \<open>Handles are counted up, so they are distinct until the counter wraps.\<close>

definition registry_ok :: "registry \<Rightarrow> bool" where
  "registry_ok r \<longleftrightarrow> store_wf (rg_store r) \<and>
     distinct (map fst (st_interceptors (rg_store r))) \<and> distinct (map snd (st_interceptors (rg_store r))) \<and>
     (\<forall>(i, f) \<in> set (st_interceptors (rg_store r)). i \<le> st_nextID (rg_store r) \<and> f < length (rg_closures r)) \<and>
     (\<forall>(f, e) \<in> set (st_calls (rg_store r)). f < length (rg_closures r))"

definition registrations :: "reg_op list \<Rightarrow> nat" where
  "registrations ps = length (filter (\<lambda>p. case p of RgRegister c \<Rightarrow> True | _ \<Rightarrow> False) ps)"

definition allowed :: "reg_op \<Rightarrow> bool" where
  "allowed p = (case p of RgStore (OpRemove i) \<Rightarrow> True | RgStore (OpAwaiter f) \<Rightarrow> True | RgStore (OpTimeout a) \<Rightarrow> True | RgStore _ \<Rightarrow> False | _ \<Rightarrow> True)"

lemma Intercept_fields:
  assumes "Intercept e s = Some s'"
  shows "st_interceptors s' = st_interceptors s" "st_nextID s' = st_nextID s"
    "st_calls s' = st_calls s @ map (\<lambda>i. (snd i, e)) (st_interceptors s)"
  using assms by (auto simp: Intercept_def Let_def split: option.splits)

lemma calls_once:
  "distinct (map snd xs) \<Longrightarrow> filter (\<lambda>(f, e'). f = n \<and> P e') (map (\<lambda>i. (snd i, e)) xs) = (if n \<in> snd ` set xs \<and> P e then [(n, e)] else [])"
  by (induction xs) auto

definition active :: "uint64 \<Rightarrow> nat \<Rightarrow> closure \<Rightarrow> registry \<Rightarrow> bool" where
  "active i n c r \<longleftrightarrow> (i, n) \<in> set (st_interceptors (rg_store r)) \<and> n < length (rg_closures r) \<and> rg_closures r ! n = c"

definition removed :: "nat \<Rightarrow> registry \<Rightarrow> bool" where
  "removed n r \<longleftrightarrow> n \<notin> snd ` set (st_interceptors (rg_store r)) \<and> n < length (rg_closures r)"

lemma register_unfold:
  "register c r = (st_nextID (rg_store r) + 1,
     r\<lparr>rg_store := (rg_store r)\<lparr>st_nextID := st_nextID (rg_store r) + 1,
          st_interceptors := st_interceptors (rg_store r) @ [(st_nextID (rg_store r) + 1, length (rg_closures r))]\<rparr>,
        rg_closures := rg_closures r @ [c]\<rparr>)"
  by (simp add: register_def AddInterceptor_def Let_def)

lemma register_ok:
  assumes "registry_ok r" "unat (st_nextID (rg_store r)) + 1 < 2 ^ 64"
  shows "registry_ok (snd (register c r))"
    "unat (st_nextID (rg_store (snd (register c r)))) = unat (st_nextID (rg_store r)) + 1"
    "active (fst (register c r)) (length (rg_closures r)) c (snd (register c r))"
    "seen n (snd (register c r)) = (if n < length (rg_closures r) then seen n r else [])"
proof -
  let ?j = "st_nextID (rg_store r)"
  have j: "unat (?j + 1) = unat ?j + 1" using assms(2) by (simp add: unat_word_ariths)
  have lt: "?j < ?j + 1" using j by (simp add: word_less_nat_alt)
  have le: "i < ?j + 1" if "i \<le> ?j" for i by (rule le_less_trans[OF that lt])
  show "unat (st_nextID (rg_store (snd (register c r)))) = unat ?j + 1"
    using j by (simp add: register_unfold)
  show "active (fst (register c r)) (length (rg_closures r)) c (snd (register c r))"
    by (simp add: active_def register_unfold)
  show "registry_ok (snd (register c r))"
    using assms(1) le by (force simp: registry_ok_def register_unfold store_wf_def less_imp_le)
  show "seen n (snd (register c r)) = (if n < length (rg_closures r) then seen n r else [])"
    using assms(1) by (fastforce simp: seen_def register_unfold registry_ok_def nth_append filter_empty_conv intro!: arg_cong[where f = "map snd"] filter_cong)
qed

lemma event_ok:
  assumes "registry_ok r"
  shows "\<exists>r'. RawHandler e r = Some r' \<and> registry_ok r' \<and> rg_closures r' = rg_closures r \<and>
    st_interceptors (rg_store r') = st_interceptors (rg_store r) \<and> st_nextID (rg_store r') = st_nextID (rg_store r) \<and>
    seen n r' = seen n r @ (if n \<in> snd ` set (st_interceptors (rg_store r)) \<and> closure_runs (rg_closures r ! n) e then [e] else [])"
proof -
  have wf: "store_wf (rg_store r)" and d: "distinct (map snd (st_interceptors (rg_store r)))" using assms by (auto simp: registry_ok_def)
  obtain s where s: "Intercept e (rg_store r) = Some s" "store_wf s" using store_step_wf[OF wf, of "OpIntercept e"] by (auto simp: store_step_def)
  note f = Intercept_fields[OF s(1)]
  have "registry_ok (r\<lparr>rg_store := s\<rparr>)" using assms s(2) f by (fastforce simp: registry_ok_def)
  then show ?thesis using s(1) f calls_once[OF d, of n "closure_runs (rg_closures r ! n)" e] by (simp add: RawHandler_def seen_def)
qed

lemma store_op_ok:
  assumes "registry_ok r" "allowed (RgStore p)"
  shows "\<exists>r'. reg_step (RgStore p) r = Some r' \<and> registry_ok r' \<and> rg_closures r' = rg_closures r \<and> seen n r' = seen n r \<and>
    st_nextID (rg_store r') = st_nextID (rg_store r) \<and>
    st_interceptors (rg_store r') = (case p of OpRemove i \<Rightarrow> filter (\<lambda>x. fst x \<noteq> i) (st_interceptors (rg_store r)) | _ \<Rightarrow> st_interceptors (rg_store r))"
proof -
  have wf: "store_wf (rg_store r)" and d: "distinct (map fst (st_interceptors (rg_store r)))" using assms by (auto simp: registry_ok_def)
  obtain s where s: "store_step p (rg_store r) = Some s" "store_wf s" using store_step_wf[OF wf, of p] by auto
  have f: "st_nextID s = st_nextID (rg_store r)" "st_calls s = st_calls (rg_store r)"
    "st_interceptors s = (case p of OpRemove i \<Rightarrow> filter (\<lambda>x. fst x \<noteq> i) (st_interceptors (rg_store r)) | _ \<Rightarrow> st_interceptors (rg_store r))"
    using s(1) assms(2) remove_first_distinct[OF d]
    by (auto simp: store_step_def allowed_def NewEventAwaiter_def AddAwaiter_def await_timeout_def removeInterceptor_def Let_def split: store_op.splits)
  have "registry_ok (r\<lparr>rg_store := s\<rparr>)"
    using assms s(2) f by (cases p) (auto simp: registry_ok_def distinct_map_filter)
  then show ?thesis using s(1) f by (simp add: reg_step_def seen_def)
qed

lemma registrations_simps [simp]:
  "registrations [] = 0" "registrations (RgRegister c # ps) = Suc (registrations ps)"
  "registrations (RgEvent e # ps) = registrations ps" "registrations (RgStore q # ps) = registrations ps"
  by (simp_all add: registrations_def)

text \<open>One step, for a registration that is gone and for one that is active.\<close>

lemma reg_step_ok:
  assumes ok: "registry_ok r" and p: "allowed p" and n: "n < length (rg_closures r)"
    and few: "unat (st_nextID (rg_store r)) + registrations (p # ps) < 2 ^ 64"
  shows "\<exists>r'. reg_step p r = Some r' \<and> registry_ok r' \<and> unat (st_nextID (rg_store r')) + registrations ps < 2 ^ 64 \<and>
    (removed n r \<longrightarrow> removed n r' \<and> seen n r' = seen n r) \<and>
    (active i n c r \<longrightarrow>
       (case p of
          RgEvent e \<Rightarrow> active i n c r' \<and> seen n r' = seen n r @ (if closure_runs c e then [e] else [])
        | _ \<Rightarrow> seen n r' = seen n r \<and> (if p = RgStore (OpRemove i) then removed n r' else active i n c r')))"
proof (cases p)
  case (RgEvent e)
  with event_ok[OF ok, of e n] few show ?thesis by (force simp: reg_step_def active_def removed_def)
next
  case (RgRegister d)
  with register_ok(1-3)[OF ok, of d] register_ok(4)[OF ok, of n d] few n show ?thesis
    by (auto simp: reg_step_def active_def removed_def register_unfold nth_append)
next
  case (RgStore q)
  with p have "allowed (RgStore q)" by simp
  then obtain r' where r': "reg_step p r = Some r'" "registry_ok r'" "rg_closures r' = rg_closures r" "seen n r' = seen n r"
    "st_nextID (rg_store r') = st_nextID (rg_store r)"
    "st_interceptors (rg_store r') = (case q of OpRemove i \<Rightarrow> filter (\<lambda>x. fst x \<noteq> i) (st_interceptors (rg_store r)) | _ \<Rightarrow> st_interceptors (rg_store r))"
    using store_op_ok[OF ok, of q n] RgStore by auto
  have d: "distinct (map snd (st_interceptors (rg_store r)))" using ok by (simp add: registry_ok_def)
  have "removed n r'" if "removed n r" using that r'(3,6) by (auto simp: removed_def split: store_op.splits)
  moreover have "removed n r'" if "active i n c r" "q = OpRemove i"
    using that d r'(3,6) by (fastforce simp: removed_def active_def distinct_map inj_on_def)
  moreover have "active i n c r'" if "active i n c r" "q \<noteq> OpRemove i"
    using that r'(3,6) by (auto simp: active_def split: store_op.splits)
  ultimately show ?thesis using r'(1,2,4,5) few RgStore by auto
qed

lemma removed_run:
  "registry_ok r \<Longrightarrow> removed n r \<Longrightarrow> list_all allowed ps \<Longrightarrow> unat (st_nextID (rg_store r)) + registrations ps < 2 ^ 64 \<Longrightarrow>
     \<exists>r'. reg_run ps r = Some r' \<and> seen n r' = seen n r"
proof (induction ps arbitrary: r)
  case (Cons p ps)
  have "allowed p" "n < length (rg_closures r)" using Cons.prems by (simp_all add: removed_def)
  from reg_step_ok[OF Cons.prems(1) this Cons.prems(4)] Cons.prems(2)
  obtain r1 where "reg_step p r = Some r1" "registry_ok r1" "unat (st_nextID (rg_store r1)) + registrations ps < 2 ^ 64"
    "removed n r1" "seen n r1 = seen n r" by blast
  with Cons.IH[of r1] Cons.prems(3) show ?case by simp
qed simp

lemma active_run:
  "registry_ok r \<Longrightarrow> active i n c r \<Longrightarrow> list_all allowed ps \<Longrightarrow> unat (st_nextID (rg_store r)) + registrations ps < 2 ^ 64 \<Longrightarrow>
     \<exists>r'. reg_run ps r = Some r' \<and> seen n r' = seen n r @ events_for i (closure_runs c) ps"
proof (induction ps arbitrary: r)
  case (Cons p ps)
  have "allowed p" "n < length (rg_closures r)" using Cons.prems by (simp_all add: active_def)
  from reg_step_ok[OF Cons.prems(1) this Cons.prems(4), of i c] Cons.prems(2)
  obtain r1 where r1: "reg_step p r = Some r1" "registry_ok r1" "unat (st_nextID (rg_store r1)) + registrations ps < 2 ^ 64"
    "case p of
        RgEvent e \<Rightarrow> active i n c r1 \<and> seen n r1 = seen n r @ (if closure_runs c e then [e] else [])
      | _ \<Rightarrow> seen n r1 = seen n r \<and> (if p = RgStore (OpRemove i) then removed n r1 else active i n c r1)" by blast
  show ?case
  proof (cases "p = RgStore (OpRemove i)")
    case True
    then have "removed n r1" "seen n r1 = seen n r" using r1(4) by simp_all
    with removed_run[OF r1(2) _ _ r1(3), of n] Cons.prems(3) r1(1) True show ?thesis by simp
  next
    case False
    with r1(4) have a: "active i n c r1" by (auto split: reg_op.splits)
    have "seen n r1 @ events_for i (closure_runs c) ps = seen n r @ events_for i (closure_runs c) (p # ps)"
      using r1(4) False by (cases "(i, closure_runs c, p # ps)" rule: events_for.cases) auto
    with Cons.IH[OF r1(2) a _ r1(3)] Cons.prems(3) r1(1) show ?thesis by simp
  qed
qed simp

text \<open>C27: a handler sees exactly its events. Whatever is registered, removed and awaited besides, a function registered for a type, or for a type and a
  call, is called with every later event of that type (and call, or of any call for \<open>AnyCall\<close>) once and in order, until
  its registration is removed, and never after; no operation panics. Up to \<open>2 ^ 64\<close> registrations no other handle
  removes it.\<close>

theorem handler_sees_its_events:
  assumes "registry_ok r" and "list_all allowed ps" and "unat (st_nextID (rg_store r)) + 1 + registrations ps < 2 ^ 64"
    and "HandleCallEvent T cid r = (i, r1)"
  shows "\<exists>r2. reg_run ps r1 = Some r2 \<and> seen (length (rg_closures r)) r2 = events_for i (\<lambda>e. we_kind e = T \<and> (cid = AnyCall \<or> getCallCid e = cid)) ps"
proof -
  have r1: "register (OnCallEvent T cid) r = (i, r1)" using assms(4) by (simp add: HandleCallEvent_def)
  have "unat (st_nextID (rg_store r)) + 1 < 2 ^ 64" using assms(3) by simp
  note o = register_ok[OF assms(1) this, where c = "OnCallEvent T cid", unfolded r1 fst_conv snd_conv]
  have "unat (st_nextID (rg_store r1)) + registrations ps < 2 ^ 64" using o(2) assms(3) by simp
  from active_run[OF o(1,3) assms(2) this] show ?thesis by (simp add: o(4) closure_runs_def[abs_def])
qed

definition ended :: "string \<Rightarrow> ws_event" where
  "ended cid = \<lparr>we_kind = CallEndedEvent, we_CallCid = cid, we_payload = 0\<rparr>"

theorem handler_sees_its_events_witness:
  "\<exists>r2. reg_run [RgEvent (ended ''a''), RgRegister (OnEvent CallEndedEvent), RgEvent (ended ''b''), RgEvent (ended ''a''), RgStore (OpRemove 1), RgEvent (ended ''a'')]
       (snd (HandleCallEvent CallEndedEvent ''a'' \<lparr>rg_store = NewStore, rg_closures = []\<rparr>)) = Some r2 \<and>
     seen 0 r2 = [ended ''a'', ended ''a'']"
proof -
  define r where "r = \<lparr>rg_store = (NewStore :: ws_event Store), rg_closures = []\<rparr>"
  have ok: "registry_ok r" by (simp add: r_def registry_ok_def store_wf_def NewStore_def)
  have few: "unat (st_nextID (rg_store r)) + 1 + registrations [RgEvent (ended ''a''), RgRegister (OnEvent CallEndedEvent), RgEvent (ended ''b''),
      RgEvent (ended ''a''), RgStore (OpRemove 1), RgEvent (ended ''a'')] < 2 ^ 64" by (simp add: r_def NewStore_def)
  have h: "HandleCallEvent CallEndedEvent ''a'' r = (1, snd (HandleCallEvent CallEndedEvent ''a'' r))"
    by (simp add: HandleCallEvent_def register_unfold r_def NewStore_def)
  have e: "we_kind (ended c) = CallEndedEvent" "getCallCid (ended c) = c" for c
    by (simp_all add: ended_def getCallCid_def carries_CallCid_def)
  show ?thesis
    using handler_sees_its_events[OF ok _ few h] e by (simp add: allowed_def r_def AnyCall_def)
qed

section \<open>The tables agree\<close>

lemma ValueByDiscriminator_iff: "ValueByDiscriminator d = Some k \<longleftrightarrow> d = GetEventType k"
proof
  assume "ValueByDiscriminator d = Some k"
  then have "(d, k) \<in> set discriminators" by (simp add: ValueByDiscriminator_def map_of_SomeD)
  then show "d = GetEventType k" using discriminators_ok by (auto simp: list_all_iff)
next
  assume "d = GetEventType k"
  then show "ValueByDiscriminator d = Some k"
    using kind_entry[of k] discriminators_distinct(1) by (simp add: ValueByDiscriminator_def)
qed

lemma ValueByDiscriminator_GetEventType [simp]: "ValueByDiscriminator (GetEventType k) = Some k"
  by (simp add: ValueByDiscriminator_iff)

lemma GetEventType_inject: "GetEventType k = GetEventType k' \<longleftrightarrow> k = k'"
  by (metis ValueByDiscriminator_iff option.inject)

lemma dispatch_event_ok: "\<exists>m. dispatch_event k = Some m \<and> m \<in> set Handler" "dispatch_event k' = dispatch_event k \<longleftrightarrow> k' = k"
proof -
  show "\<exists>m. dispatch_event k = Some m \<and> m \<in> set Handler"
    using kind_entry[of k] discriminators_ok by (fastforce simp: list_all_iff split: option.splits)
  show "dispatch_event k' = dispatch_event k \<longleftrightarrow> k' = k"
    using kind_entry[of k] kind_entry[of k'] discriminators_distinct(2) by (fastforce simp: distinct_map inj_on_def)
qed

lemma ParseWebsocketEvent_iff:
  "ParseWebsocketEvent discriminator body raw = Inr e \<longleftrightarrow>
     discriminator raw = Some (GetEventType (we_kind e)) \<and> body (we_kind e) raw = Some (we_CallCid e, we_payload e)"
  by (cases e) (auto simp: ParseWebsocketEvent_def ValueByDiscriminator_iff GetEventType_inject split: option.splits)

text \<open>C26: the generated tables agree. A frame is parsed as an event exactly when its type field is the wire name of the event's type and the body
  decodes as that type, so every type can be received and no name stands for two. Each type is dispatched to a method of the interface \<open>Handler\<close> of its own.
  The types that can be handled per call are exactly those whose call id is read, and exactly those
  \<open>dispatchCallEvent\<close> registers on the coordinator's store; it registers every SFU payload on the store of the call's
  signalling client.\<close>

theorem event_tables_agree:
  "(ParseWebsocketEvent discriminator body raw = Inr e \<longleftrightarrow>
      discriminator raw = Some (GetEventType (we_kind e)) \<and> body (we_kind e) raw = Some (we_CallCid e, we_payload e)) \<and>
   (GetEventType k = GetEventType k' \<longleftrightarrow> k = k') \<and>
   (\<exists>m. dispatch_event k = Some m \<and> m \<in> set Handler) \<and> (dispatch_event k = dispatch_event k' \<longleftrightarrow> k = k') \<and>
   (k \<in> set CallEvents \<longleftrightarrow> k \<in> set carries_CallCid) \<and>
   (k \<in> set CallEvents \<longleftrightarrow> dispatchCallEvent cid signal (Inl k) = Some (Some (ToCoordinator k cid))) \<and>
   dispatchCallEvent cid (Some i) (Inr p) = Some (Some (ToSignal i p))"
proof -
  have "dispatchCallEvent cid (Some i) (Inr p) = Some (Some (ToSignal i p))"
    by (simp add: dispatchCallEvent_def sfu_payloads_listed)
  with GetEventType_inject show ?thesis
    using ParseWebsocketEvent_iff[of discriminator body raw e] dispatch_event_ok[of k] dispatch_event_ok(2)[of k k']
    by (simp add: call_events_agree dispatchCallEvent_def)
qed

text \<open>Before the first join a call has no signalling client, and registering for an SFU event dereferences nil.\<close>

lemma signal_handler_before_join_panics: "dispatchCallEvent cid None (Inr p) = None"
  by (simp add: dispatchCallEvent_def sfu_payloads_listed)

end
