(* ===== verification/Websocket.thy ===== *)
theory Websocket
  imports Prelude
begin

text \<open>
  Reading and writing messages on a websocket: \<open>websocket/wsconn.go\<close> and \<open>websocket/codec.go\<close>. The library that reads and writes frames is an argument.
  Its reader hands out a frame's header and leaves the payload on the connection until it is read; the
  connection is the bytes that are still to come. Closing a connection is in \<open>Signal\<close>.
\<close>

section \<open>Codecs and writing\<close>

datatype Format = FormatBinary | FormatText

record ('r, 'w) Codec =
  cd_encode :: "'w \<Rightarrow> byte list option"
  cd_decode :: "byte list \<Rightarrow> 'r option"

definition NewCodec :: "('w \<Rightarrow> byte list option) \<Rightarrow> (byte list \<Rightarrow> 'r option) \<Rightarrow> ('r, 'w) Codec" where
  "NewCodec encode decode = \<lparr>cd_encode = encode, cd_decode = decode\<rparr>"

record ('r, 'w) wsconn =
  ws_isClient :: bool
  ws_format :: Format
  ws_codec :: "('r, 'w) Codec"

definition NewConnection :: "bool \<Rightarrow> Format \<Rightarrow> ('r, 'w) Codec \<Rightarrow> ('r, 'w) wsconn" where
  "NewConnection isClient format cd = \<lparr>ws_isClient = isClient, ws_format = format, ws_codec = cd\<rparr>"

datatype opcode = OpContinuation | OpText | OpBinary | OpClose | OpPing | OpPong | OpReserved

record ws_frame =
  fr_opcode :: opcode
  fr_masked :: bool
  fr_payload :: "byte list"

datatype write_error = EncodeFailed | FrameFailed

text \<open>\<open>ok\<close> is whether the frame can be written. The result is the error, if any, and the frame that was written.\<close>

definition conn_Write :: "bool \<Rightarrow> 'w \<Rightarrow> ('r, 'w) wsconn \<Rightarrow> write_error + ws_frame" where
  "conn_Write ok msg w =
    (case cd_encode (ws_codec w) msg of
       None \<Rightarrow> Inl EncodeFailed
     | Some out \<Rightarrow>
        (let op = (case ws_format w of FormatText \<Rightarrow> OpText | FormatBinary \<Rightarrow> OpBinary);
             f = \<lparr>fr_opcode = op, fr_masked = ws_isClient w, fr_payload = out\<rparr>
         in if ok then Inr f else Inl FrameFailed))"

section \<open>Reading\<close>

text \<open>The library: the next header (its opcode, a reader for the payload, and what follows the header), and reading a payload to its end.\<close>

record 'h frame_reader =
  fl_NextReader :: "byte list \<Rightarrow> (opcode \<times> 'h \<times> byte list) option"
  fl_ReadAll :: "'h \<Rightarrow> byte list \<Rightarrow> (byte list \<times> byte list) option"

datatype 'r read_result = Message 'r | DecodeError | EndOfFile | ReadError

partial_function (option) conn_Read :: "'h frame_reader \<Rightarrow> ('r, 'w) wsconn \<Rightarrow> byte list \<Rightarrow> ('r read_result \<times> byte list) option" where
  "conn_Read L w s =
    (case fl_NextReader L s of
       None \<Rightarrow> Some (ReadError, s)
     | Some (op, r, s) \<Rightarrow>
        (if op = OpClose then Some (EndOfFile, s)
         else if op = OpPing \<or> op = OpPong then conn_Read L w s
         else if op = OpBinary \<or> op = OpText then
           (case fl_ReadAll L r s of
              None \<Rightarrow> Some (ReadError, s)
            | Some (payload, s) \<Rightarrow>
               (case cd_decode (ws_codec w) payload of
                  None \<Rightarrow> Some (DecodeError, s)
                | Some msg \<Rightarrow> Some (Message msg, s)))
         else conn_Read L w s))"

section \<open>What is read\<close>

text \<open>What the library documents: it reads the header of a frame and leaves the payload, which the reader then gives.\<close>

definition frame_reader_ok :: "'h frame_reader \<Rightarrow> (opcode \<Rightarrow> byte list \<Rightarrow> byte list) \<Rightarrow> bool" where
  "frame_reader_ok L wire \<longleftrightarrow>
     (\<forall>op p s. \<exists>r. fl_NextReader L (wire op p @ s) = Some (op, r, p @ s) \<and> fl_ReadAll L r (p @ s) = Some (p, s))"

definition decoded_as :: "('r, 'w) wsconn \<Rightarrow> byte list \<Rightarrow> 'r read_result" where
  "decoded_as w p = (case cd_decode (ws_codec w) p of None \<Rightarrow> DecodeError | Some m \<Rightarrow> Message m)"

lemma read_frame:
  assumes "frame_reader_ok L wire"
  shows "conn_Read L w (wire op p @ s) =
    (if op = OpClose then Some (EndOfFile, p @ s)
     else if op = OpBinary \<or> op = OpText then Some (decoded_as w p, s)
     else conn_Read L w (p @ s))"
proof -
  obtain r where r: "fl_NextReader L (wire op p @ s) = Some (op, r, p @ s)" "fl_ReadAll L r (p @ s) = Some (p, s)"
    using assms unfolding frame_reader_ok_def by blast
  show ?thesis by (subst conn_Read.simps) (auto simp: r decoded_as_def split: option.splits)
qed

definition control :: "opcode \<Rightarrow> bool" where
  "control op \<longleftrightarrow> op = OpPing \<or> op = OpPong"


text \<open>A wire format with the length in unary, and a ping that carries a message.\<close>

definition op_byte :: "opcode \<Rightarrow> byte" where
  "op_byte op = (case op of OpContinuation \<Rightarrow> 0 | OpText \<Rightarrow> 1 | OpBinary \<Rightarrow> 2 | OpReserved \<Rightarrow> 3 | OpClose \<Rightarrow> 8 | OpPing \<Rightarrow> 9 | OpPong \<Rightarrow> 10)"

definition unary_wire :: "opcode \<Rightarrow> byte list \<Rightarrow> byte list" where
  "unary_wire op p = op_byte op # replicate (length p) 1 @ 0 # p"

definition unary_reader :: "nat frame_reader" where
  "unary_reader =
    \<lparr>fl_NextReader = (\<lambda>s. case s of
        [] \<Rightarrow> None
      | b # s \<Rightarrow> map_option (\<lambda>op. (op, length (takeWhile (\<lambda>x. x = 1) s), drop 1 (dropWhile (\<lambda>x. x = 1) s)))
          (List.find (\<lambda>op. op_byte op = b) [OpContinuation, OpText, OpBinary, OpReserved, OpClose, OpPing, OpPong])),
     fl_ReadAll = (\<lambda>n s. if length s < n then None else Some (take n s, drop n s))\<rparr>"

lemma unary_reader_ok: "frame_reader_ok unary_reader unary_wire"
proof -
  have "takeWhile (\<lambda>x. x = 1) (replicate n 1 @ 0 # s) = replicate n (1 :: byte)" for n s by (induction n) auto
  moreover have "dropWhile (\<lambda>x. x = 1) (replicate n 1 @ 0 # s) = (0 :: byte) # s" for n s by (induction n) auto
  ultimately show ?thesis
    by (auto simp: frame_reader_ok_def unary_reader_def unary_wire_def op_byte_def split: opcode.splits)
qed


text \<open>A client masks every frame it writes, and a server none.\<close>

lemma conn_Write_masks: "conn_Write ok msg w = Inr f \<Longrightarrow> fr_masked f = ws_isClient w"
  by (auto simp: conn_Write_def Let_def split: option.splits if_splits)

end
