(* ===== verification/Coordinator.thy ===== *)
theory Coordinator
  imports Retry "HOL-Library.Char_ord" "HOL-Library.List_Lexorder"
begin

text \<open>
  The REST half of the coordinator's client: \<open>coordinator/client.go\<close> and \<open>coordinator/error.go\<close>, with the errors of \<open>internal/xerr\<close> and the timestamps of \<open>coordinator/models/time.go\<close>.
  A string is its bytes. Parsing a URL, JSON and the HTTP exchange are an environment; the exchange itself runs on the transport of \<open>Retry\<close>.
\<close>

section \<open>Strings\<close>

text \<open>\<open>strings.ReplaceAll\<close> for a text to replace that is not empty.\<close>

function ReplaceAll :: "string \<Rightarrow> string \<Rightarrow> string \<Rightarrow> string" where
  "ReplaceAll old new [] = []"
| "ReplaceAll old new (c # s) =
     (if take (length old) (c # s) = old \<and> old \<noteq> [] then new @ ReplaceAll old new (drop (length old) (c # s))
      else c # ReplaceAll old new s)"
  by pat_completeness auto
termination by (relation "measure (\<lambda>(old, new, s). length s)") (auto simp: length_greater_0_conv[symmetric] simp del: length_greater_0_conv)

text \<open>\<open>url.PathEscape\<close> and \<open>url.QueryEscape\<close>.\<close>

definition alphanumeric :: "char \<Rightarrow> bool" where
  "alphanumeric c \<longleftrightarrow> (let n = (of_char c :: nat) in n \<ge> 97 \<and> n \<le> 122 \<or> n \<ge> 65 \<and> n \<le> 90 \<or> n \<ge> 48 \<and> n \<le> 57)"

definition kept_in_path :: "char \<Rightarrow> bool" where
  "kept_in_path c \<longleftrightarrow> alphanumeric c \<or> c \<in> set ''-_.~$&+:=@''"

definition kept_in_query :: "char \<Rightarrow> bool" where
  "kept_in_query c \<longleftrightarrow> alphanumeric c \<or> c \<in> set ''-_.~''"

definition hex_digit :: "nat \<Rightarrow> char" where
  "hex_digit n = ''0123456789ABCDEF'' ! n"

definition percent :: "char \<Rightarrow> string" where
  "percent c = [CHR ''%'', hex_digit (of_char c div 16), hex_digit (of_char c mod 16)]"

definition PathEscape :: "string \<Rightarrow> string" where
  "PathEscape s = concat (map (\<lambda>c. if kept_in_path c then [c] else percent c) s)"

definition QueryEscape :: "string \<Rightarrow> string" where
  "QueryEscape s = concat (map (\<lambda>c. if c = CHR '' '' then ''+'' else if kept_in_query c then [c] else percent c) s)"

text \<open>\<open>url.PathUnescape\<close>, the inverse a server applies to each segment.\<close>

definition unhex :: "char \<Rightarrow> nat option" where
  "unhex c = (let n = of_char c in
     if n \<ge> 48 \<and> n \<le> 57 then Some (n - 48) else if n \<ge> 65 \<and> n \<le> 70 then Some (n - 55) else if n \<ge> 97 \<and> n \<le> 102 then Some (n - 87) else None)"

fun PathUnescape :: "string \<Rightarrow> string option" where
  "PathUnescape [] = Some []"
| "PathUnescape (c # s) =
     (if c = CHR ''%'' then
        (case s of
           a # b # s \<Rightarrow>
             (case (unhex a, unhex b) of
                (Some x, Some y) \<Rightarrow> map_option ((#) (char_of (16 * x + y))) (PathUnescape s)
              | _ \<Rightarrow> None)
         | _ \<Rightarrow> None)
      else map_option ((#) c) (PathUnescape s))"

section \<open>Errors\<close>

text \<open>An error is the coordinator's own, one that wraps another with a message, or any other.\<close>

datatype go_error = CoordError int string bool | Wrapped string go_error | OtherError string

definition NewError :: "int \<Rightarrow> string \<Rightarrow> bool \<Rightarrow> go_error" where
  "NewError code message again = CoordError code message again"

definition Wrapf :: "go_error \<Rightarrow> string \<Rightarrow> go_error" where
  "Wrapf err msg = Wrapped msg err"

text \<open>\<open>errors.As\<close> for an \<open>Error\<close>: the first one of the chain.\<close>

fun as_Error :: "go_error \<Rightarrow> (int \<times> string \<times> bool) option" where
  "as_Error (CoordError code message again) = Some (code, message, again)"
| "as_Error (Wrapped msg err) = as_Error err"
| "as_Error (OtherError msg) = None"

definition IsRetryableError :: "go_error \<Rightarrow> bool" where
  "IsRetryableError err = (case as_Error err of Some (code, message, again) \<Rightarrow> again | None \<Rightarrow> True)"

text \<open>\<open>reported\<close> is the body decoded as an \<open>APIError\<close>, if it can be: its code and message.\<close>

definition statusError :: "int \<Rightarrow> string \<Rightarrow> (int \<times> string) option \<Rightarrow> go_error" where
  "statusError status body reported =
    (let retry = (status = 429 \<or> tdiv status 100 = 5)
     in case reported of
          Some (code, message) \<Rightarrow>
            if message \<noteq> [] then NewError code message retry
            else NewError 0 (''unexpected status code '' @ FormatInt status @ '': '' @ body) retry
        | None \<Rightarrow> NewError 0 (''unexpected status code '' @ FormatInt status @ '': '' @ body) retry)"

section \<open>Values and templates\<close>

text \<open>A Go value as \<open>toString\<close> tells them apart. The text of a float, a struct and any other kind is the one the formatter gives.\<close>

datatype go_value = NilValue | Stringer string | Ptr "go_value option" | StringValue string | IntValue int | UintValue uint64 |
  FloatValue string | BoolValue bool | SliceValue "go_value list" | MapValue "(go_value \<times> go_value) list" | OtherValue string

fun join_with :: "string \<Rightarrow> string list \<Rightarrow> string" where
  "join_with sep [] = []"
| "join_with sep [s] = s"
| "join_with sep (s # ss) = s @ sep @ join_with sep ss"

fun toString :: "go_value \<Rightarrow> string" where
  "toString NilValue = []"
| "toString (Stringer s) = s"
| "toString (Ptr None) = []"
| "toString (Ptr (Some v)) = toString v"
| "toString (StringValue s) = s"
| "toString (IntValue i) = FormatInt i"
| "toString (UintValue w) = FormatInt (uint w)"
| "toString (FloatValue s) = s"
| "toString (BoolValue b) = (if b then ''true'' else ''false'')"
| "toString (SliceValue vs) = ''['' @ join_with '', '' (map toString vs) @ '']''"
| "toString (MapValue kvs) = ''{'' @ join_with '', '' (map (\<lambda>(k, v). toString k @ '': '' @ toString v) kvs) @ ''}''"
| "toString (OtherValue s) = s"

text \<open>The parameters are a map, which Go iterates in any order: the list is one of them.\<close>

fun replaceTemplate :: "string \<Rightarrow> (string \<times> go_value) list \<Rightarrow> string" where
  "replaceTemplate path [] = path"
| "replaceTemplate path ((key, v) # params) = replaceTemplate (ReplaceAll (''{'' @ key @ ''}'') (PathEscape (toString v)) path) params"

section \<open>The client\<close>

record coord_options =
  co_apiURL :: string
  co_wsURL :: string
  co_versionHeader :: string
  co_logger :: nat
  co_enableWs :: bool

type_synonym coord_option = "coord_options \<Rightarrow> coord_options"

text \<open>A logger is a number, and 0 the one that logs nothing.\<close>

definition defaultCoordOptions :: coord_options where
  "defaultCoordOptions = \<lparr>co_apiURL = ''https://video.stream-io-api.com'', co_wsURL = ''wss://video.stream-io-api.com/api/v2/connect'',
     co_versionHeader = [], co_logger = 0, co_enableWs = True\<rparr>"

definition WithoutWebsocket :: coord_option where "WithoutWebsocket opt = opt\<lparr>co_enableWs := False\<rparr>"
definition WithVersionHeader :: "string \<Rightarrow> coord_option" where "WithVersionHeader v opt = opt\<lparr>co_versionHeader := v\<rparr>"
definition ApiURL :: "string \<Rightarrow> coord_option" where "ApiURL u opt = opt\<lparr>co_apiURL := u\<rparr>"
definition WithWsURL :: "string \<Rightarrow> coord_option" where "WithWsURL u opt = opt\<lparr>co_wsURL := u\<rparr>"
definition WithCoordLogger :: "nat \<Rightarrow> coord_option" where "WithCoordLogger l opt = opt\<lparr>co_logger := l\<rparr>"

definition apply_coord_options :: "coord_option list \<Rightarrow> coord_options" where
  "apply_coord_options opts = foldl (\<lambda>acc opt. opt acc) defaultCoordOptions opts"

text \<open>A URL is the part before the query and the query's pairs. \<open>Values.Encode\<close> sorts the pairs by their keys, keeping the order of equal ones.\<close>

record url =
  ur_base :: string
  ur_query :: "(string \<times> string) list"

definition EncodeValues :: "(string \<times> string) list \<Rightarrow> string" where
  "EncodeValues q = join_with ''&'' (map (\<lambda>(k, v). QueryEscape k @ ''='' @ QueryEscape v) (sort_key fst q))"

definition url_String :: "string \<Rightarrow> string \<Rightarrow> string" where
  "url_String base rawQuery = (if rawQuery = [] then base else base @ ''?'' @ rawQuery)"

definition auth_query :: "string \<Rightarrow> string \<Rightarrow> (string \<times> string) list" where
  "auth_query apiKey userID = [(''api_key'', apiKey), (''user_id'', userID), (''stream-auth-type'', ''jwt'')]"

record coord_client =
  cc_options :: coord_options
  cc_apiKey :: string
  cc_userID :: string
  cc_token :: "string option"
  cc_ws :: "string option"

text \<open>\<open>parse\<close> is \<open>url.Parse\<close>. The websocket client is the URL it dials.\<close>

definition NewCoordClient ::
    "(string \<Rightarrow> url option) \<Rightarrow> string \<Rightarrow> string \<Rightarrow> (string \<Rightarrow> go_error + string) \<Rightarrow> coord_option list \<Rightarrow> go_error + coord_client" where
  "NewCoordClient parse apiKey userID tokenProvider opts =
    (let opt = apply_coord_options opts in
     case tokenProvider userID of
       Inl err \<Rightarrow> Inl (Wrapf err ''get token for user'')
     | Inr token \<Rightarrow>
        (case parse (co_wsURL opt) of
           None \<Rightarrow> Inl (Wrapf (OtherError ''parse'') ''parse websocket url'')
         | Some u \<Rightarrow>
            Inr \<lparr>cc_options = opt, cc_apiKey = apiKey, cc_userID = userID, cc_token = Some token,
              cc_ws = (if co_enableWs opt then Some (url_String (ur_base u) (EncodeValues (ur_query u @ auth_query apiKey userID))) else None)\<rparr>))"

record rest_request =
  rr_Method :: string
  rr_URL :: string
  rr_Header :: "(string \<times> string) list"
  rr_Body :: "string option"

text \<open>What a request needs from outside: parsing the URL, encoding the request, whether it can be built, sending it (a transport error, or status and
  body), and decoding the body, as the response or as an \<open>APIError\<close>.\<close>

record ('req, 'resp) rest =
  re_Parse :: "string \<Rightarrow> url option"
  re_Marshal :: "'req \<Rightarrow> string option"
  re_builds :: "string \<Rightarrow> bool"
  re_Do :: "rest_request \<Rightarrow> string + (int \<times> string)"
  re_Decode :: "string \<Rightarrow> string + 'resp"
  re_APIError :: "string \<Rightarrow> (int \<times> string) option"

text \<open>The request is never nil here. \<open>queryParams\<close> is one of the orders of a map, as for the path's parameters.\<close>

definition request_url :: "coord_client \<Rightarrow> url \<Rightarrow> (string \<times> go_value) list \<Rightarrow> string" where
  "request_url c u queryParams =
    url_String (ur_base u)
      (EncodeValues (ur_query u @ map (\<lambda>(k, v). (k, toString v)) queryParams @ auth_query (cc_apiKey c) (cc_userID c)))"

text \<open>The token goes out as it is, with no scheme before it.\<close>

definition request_header :: "coord_client \<Rightarrow> (string \<times> string) list" where
  "request_header c =
    (case cc_token c of Some token \<Rightarrow> [(''authorization'', token)] | None \<Rightarrow> []) @
    (if co_versionHeader (cc_options c) \<noteq> [] then [(''X-Stream-Client'', co_versionHeader (cc_options c))] else [])"

definition makeRequest ::
    "('req, 'resp) rest \<Rightarrow> coord_client \<Rightarrow> string \<Rightarrow> string \<Rightarrow> (string \<times> go_value) list \<Rightarrow> (string \<times> go_value) list \<Rightarrow> 'req \<Rightarrow> go_error + 'resp" where
  "makeRequest E c method path pathParams queryParams request =
    (let path = replaceTemplate path pathParams in
     case re_Parse E (co_apiURL (cc_options c) @ path) of
       None \<Rightarrow> Inl (Wrapf (OtherError ''parse'') ''parse url'')
     | Some u \<Rightarrow>
        (let url = request_url c u queryParams in
         case re_Marshal E request of
           None \<Rightarrow> Inl (Wrapf (OtherError ''marshal'') ''marshal request'')
         | Some b \<Rightarrow>
            (if \<not> re_builds E url then Inl (Wrapf (OtherError ''request'') ''build request'')
             else
               (case re_Do E \<lparr>rr_Method = method, rr_URL = url, rr_Header = request_header c, rr_Body = Some b\<rparr> of
                  Inl msg \<Rightarrow> Inl (Wrapf (OtherError msg) (method @ '' '' @ path))
                | Inr (status, body) \<Rightarrow>
                   (if tdiv status 100 \<noteq> 2 then Inl (statusError status body (re_APIError E body))
                    else (case re_Decode E body of
                            Inl msg \<Rightarrow> Inl (NewError 0 (''decode response: '' @ msg) False)
                          | Inr response \<Rightarrow> Inr response))))))"

definition join_template :: string where
  "join_template = ''/api/v2/video/call/{type}/{id}/join''"

text \<open>\<open>order\<close> is the order in which the map of path parameters is iterated.\<close>

definition path_params :: "bool \<Rightarrow> string \<Rightarrow> string \<Rightarrow> (string \<times> go_value) list" where
  "path_params order ty ident =
    (let ps = [(''type'', StringValue ty), (''id'', StringValue ident)] in if order then ps else rev ps)"

definition JoinCall ::
    "('req, 'resp) rest \<Rightarrow> bool \<Rightarrow> coord_client \<Rightarrow> string \<Rightarrow> string \<Rightarrow> 'req \<Rightarrow> string option \<Rightarrow> go_error + 'resp" where
  "JoinCall E order c ty ident joinCallRequest connectionID =
    (case makeRequest E c ''POST'' join_template (path_params order ty ident)
            [(''connection_id'', Ptr (map_option StringValue connectionID))] joinCallRequest of
       Inl err \<Rightarrow> Inl (Wrapf err (''join call '' @ ty @ '':'' @ ident))
     | Inr response \<Rightarrow> Inr response)"

section \<open>The path of a join\<close>

lemma kept_in_path_bytes: "kept_in_path c \<Longrightarrow> c \<notin> set ''/?#%{};, ''"
  by (auto simp: kept_in_path_def alphanumeric_def Let_def)

lemma hex_digits_ok: "list_all (\<lambda>n. hex_digit n \<notin> set ''/?#%{};, '' \<and> unhex (hex_digit n) = Some n) [0..<16]"
  by code_simp

lemma hex_digit_ok: "n < 16 \<Longrightarrow> hex_digit n \<notin> set ''/?#%{};, '' \<and> unhex (hex_digit n) = Some n"
  using hex_digits_ok unfolding list_all_iff by simp

lemma byte_halves: "(of_char c :: nat) div 16 < 16" "(of_char c :: nat) mod 16 < 16"
  using nat_of_char_less_256[of c] by (simp_all add: div_less_iff_less_mult del: nat_of_char_less_256)

lemma percent_ok:
  "set (percent c) \<inter> set ''/?#{};, '' = {}"
  "PathUnescape (percent c @ s) = map_option ((#) c) (PathUnescape s)"
proof -
  note h = hex_digit_ok[OF byte_halves(1)[of c]] hex_digit_ok[OF byte_halves(2)[of c]]
  show "set (percent c) \<inter> set ''/?#{};, '' = {}" using h by (simp add: percent_def)
  have "char_of (16 * (of_char c div 16) + of_char c mod (16 :: nat)) = c" by simp
  then show "PathUnescape (percent c @ s) = map_option ((#) c) (PathUnescape s)"
    using h by (simp add: percent_def)
qed

lemma PathEscape_Cons: "PathEscape (c # s) = (if kept_in_path c then [c] else percent c) @ PathEscape s"
  by (simp add: PathEscape_def)

lemma PathEscape_bytes: "set (PathEscape s) \<inter> set ''/?#{};, '' = {}"
proof (induction s)
  case (Cons c s)
  have "set (if kept_in_path c then [c] else percent c) \<inter> set ''/?#{};, '' = {}"
    using kept_in_path_bytes[of c] percent_ok(1)[of c] by auto
  with Cons show ?case unfolding PathEscape_Cons set_append by blast
qed (simp add: PathEscape_def)

lemma PathUnescape_PathEscape: "PathUnescape (PathEscape s) = Some s"
proof (induction s)
  case (Cons c s)
  have "c \<noteq> CHR ''%''" if "kept_in_path c" using kept_in_path_bytes[OF that] by auto
  with Cons show ?case by (auto simp: PathEscape_Cons percent_ok(2) simp del: PathUnescape.simps) (simp add: PathUnescape.simps)
qed (simp add: PathEscape_def)

lemma ReplaceAll_skip:
  "CHR ''{'' \<notin> set xs \<Longrightarrow> ReplaceAll (CHR ''{'' # k) new (xs @ s) = xs @ ReplaceAll (CHR ''{'' # k) new s"
  by (induction xs) auto

lemma ReplaceAll_hit: "ReplaceAll (CHR ''{'' # k) new (CHR ''{'' # k @ s) = new @ ReplaceAll (CHR ''{'' # k) new s"
  by simp

lemma join_path:
  "replaceTemplate join_template (path_params order ty ident) =
     ''/api/v2/video/call/'' @ PathEscape ty @ ''/'' @ PathEscape ident @ ''/join''"
proof -
  have b: "CHR ''{'' \<notin> set (PathEscape s)" for s using PathEscape_bytes[of s] by auto
  note sk = ReplaceAll_skip[OF b]
  show ?thesis by (cases order) (simp_all add: path_params_def join_template_def sk)
qed

text \<open>C29: the path of a join is safe. Whatever the call's type and id are and in whatever order the map of parameters is iterated, the path has its
  two parameters between the same slashes, neither contains a slash, a question mark, a hash or a brace, and a server that unescapes them has the type and
  the id back. So no id can reach another endpoint, add to the query or be replaced by the other parameter.\<close>

theorem join_path_safe:
  "\<exists>a b. replaceTemplate join_template (path_params order ty ident) = ''/api/v2/video/call/'' @ a @ ''/'' @ b @ ''/join'' \<and>
     PathUnescape a = Some ty \<and> PathUnescape b = Some ident \<and> (set a \<union> set b) \<inter> set ''/?#{}'' = {}"
proof (intro exI conjI)
  show "(set (PathEscape ty) \<union> set (PathEscape ident)) \<inter> set ''/?#{}'' = {}"
    using PathEscape_bytes[of ty] PathEscape_bytes[of ident] by auto
qed (rule join_path PathUnescape_PathEscape)+

text \<open>Dots are not escaped, though, so an id of two dots is a segment that a server may resolve.\<close>

lemma dots_not_escaped: "PathEscape ''..'' = ''..''"
  by (simp add: PathEscape_def kept_in_path_def)

section \<open>The outcome of a join\<close>

lemma statusError_as_Error:
  "\<exists>code msg. as_Error (statusError status body reported) = Some (code, msg, status = 429 \<or> tdiv status 100 = 5) \<and>
     (\<forall>c m. reported = Some (c, m) \<and> m \<noteq> [] \<longrightarrow> code = c \<and> msg = m)"
  by (auto simp: statusError_def NewError_def Let_def split: option.splits)

text \<open>C30: a join reports what the coordinator said. Once the request can be built, it is sent as a POST with the token as it is. The response of a success is
  returned; a success whose body cannot be read is final. A refusal is an error with the coordinator's own code and message when the body has them, and is worth
  retrying exactly when the status is 429 or 5xx. A transport error is worth retrying.\<close>

theorem join_outcome:
  assumes "re_Parse E (co_apiURL (cc_options c) @ replaceTemplate join_template (path_params order ty ident)) = Some u"
    and "re_Marshal E req = Some b" and "url = request_url c u [(''connection_id'', Ptr (map_option StringValue conn))]" and "re_builds E url"
    and "answer = re_Do E \<lparr>rr_Method = ''POST'', rr_URL = url, rr_Header = request_header c, rr_Body = Some b\<rparr>"
  shows "case (answer, JoinCall E order c ty ident req conn) of
      (Inl msg, Inl err) \<Rightarrow> IsRetryableError err
    | (Inr (status, body), Inl err) \<Rightarrow>
        (if tdiv status 100 = 2 then \<not> IsRetryableError err \<and> (\<exists>msg. re_Decode E body = Inl msg)
         else (IsRetryableError err \<longleftrightarrow> status = 429 \<or> tdiv status 100 = 5) \<and>
           (\<forall>code m. re_APIError E body = Some (code, m) \<and> m \<noteq> [] \<longrightarrow> (\<exists>r. as_Error err = Some (code, m, r))))
    | (Inr (status, body), Inr resp) \<Rightarrow> tdiv status 100 = 2 \<and> re_Decode E body = Inr resp
    | (Inl msg, Inr resp) \<Rightarrow> False"
proof -
  have J: "JoinCall E order c ty ident req conn =
      (case (case answer of
               Inl msg \<Rightarrow> Inl (Wrapf (OtherError msg) (''POST'' @ '' '' @ replaceTemplate join_template (path_params order ty ident)))
             | Inr (status, body) \<Rightarrow>
                (if tdiv status 100 \<noteq> 2 then Inl (statusError status body (re_APIError E body))
                 else (case re_Decode E body of Inl msg \<Rightarrow> Inl (NewError 0 (''decode response: '' @ msg) False) | Inr response \<Rightarrow> Inr response))) of
         Inl err \<Rightarrow> Inl (Wrapf err (''join call '' @ ty @ '':'' @ ident))
       | Inr response \<Rightarrow> Inr response)"
    using assms(1-4) by (simp add: JoinCall_def makeRequest_def Let_def assms(5))
  show ?thesis
  proof (cases answer)
    case (Inl msg)
    then show ?thesis by (simp add: J Wrapf_def IsRetryableError_def)
  next
    case (Inr a)
    obtain status body where "a = (status, body)" by fastforce
    with Inr statusError_as_Error[of status body "re_APIError E body"] show ?thesis
      by (auto simp: J Wrapf_def IsRetryableError_def NewError_def split: sum.splits)
  qed
qed

definition test_rest :: "(string, string) rest" where
  "test_rest = \<lparr>re_Parse = (\<lambda>s. Some \<lparr>ur_base = s, ur_query = []\<rparr>), re_Marshal = Some, re_builds = (\<lambda>_. True),
     re_Do = (\<lambda>r. if rr_Body r = Some ''gone'' then Inr (404, ''no such user'') else Inr (201, ''joined'')),
     re_Decode = Inr, re_APIError = (\<lambda>body. Some (16, body))\<rparr>"

definition test_client :: coord_client where
  "test_client = \<lparr>cc_options = defaultCoordOptions, cc_apiKey = ''key'', cc_userID = ''ann'', cc_token = Some ''jwt'', cc_ws = None\<rparr>"

theorem join_outcome_witness:
  "\<exists>err. JoinCall test_rest True test_client ''default'' ''a/b'' ''gone'' None = Inl err \<and> \<not> IsRetryableError err \<and> (\<exists>r. as_Error err = Some (16, ''no such user'', r))"
proof -
  have t: "tdiv 404 100 = 4" by (simp add: tdiv_nonneg)
  have "\<exists>err. JoinCall test_rest True test_client ''default'' ''a/b'' ''gone'' None = Inl err"
    by (simp add: JoinCall_def makeRequest_def test_rest_def t)
  then obtain err where err: "JoinCall test_rest True test_client ''default'' ''a/b'' ''gone'' None = Inl err" ..
  from join_outcome[where E = test_rest and c = test_client and order = True and ty = "''default''" and ident = "''a/b''"
      and req = "''gone''" and conn = None, OF _ _ refl _ refl, unfolded err]
  show ?thesis using err t by (simp add: test_rest_def)
qed

text \<open>The transport may not repeat a join: a POST is not marked as safe to repeat.\<close>

lemma join_sent_once:
  "RoundTrip defaultOptions \<lparr>rq_Method = ''POST'', rq_marked = False, rq_hasBody = True, rq_hasGetBody = True\<rparr> env =
     (Returned (at_answer (env 0)), 1, [])"
  by (simp add: RoundTrip_def isRequestMarkedAsRetryable_def defaultOptions_def DefaultMaxAttempts_def rt_loop.simps[of _ _ _ 0] shouldRetry_def)

section \<open>Timestamps\<close>

text \<open>\<open>bytes.TrimSpace\<close> on a JSON value, whose surrounding blanks are ASCII.\<close>

definition blank :: "char \<Rightarrow> bool" where
  "blank c \<longleftrightarrow> (of_char c :: nat) \<in> {9, 10, 11, 12, 13, 32}"

definition TrimSpace :: "string \<Rightarrow> string" where
  "TrimSpace s = rev (dropWhile blank (rev (dropWhile blank s)))"

text \<open>\<open>rfc3339\<close> is \<open>time.Time.UnmarshalJSON\<close> on a quoted string.\<close>

definition Time_UnmarshalJSON :: "(string \<Rightarrow> go_error + time) \<Rightarrow> string \<Rightarrow> time \<Rightarrow> go_error + time" where
  "Time_UnmarshalJSON rfc3339 data t =
    (let raw = TrimSpace data in
     if raw = [] \<or> raw = ''null'' then Inr t
     else if hd raw = CHR 0x22 then rfc3339 raw
     else (case ParseInt raw of
             None \<Rightarrow> Inl (OtherError (''timestamp '' @ raw @ '' is neither epoch nanoseconds nor an RFC 3339 string''))
           | Some nanos \<Rightarrow> Inr nanos))"

lemma parse_digits_dec_nat: "dec_nat n \<noteq> [] \<and> list_all is_digit (dec_nat n) \<and> foldl (\<lambda>n c. 10 * n + (of_char c - 48)) 0 (dec_nat n) = int n"
proof (induction n rule: dec_nat.induct)
  case (1 n)
  have d: "is_digit (char_of (48 + m))" "(of_char (char_of (48 + m :: nat)) :: int) = 48 + int m" if "m < 10" for m
  proof -
    show "is_digit (char_of (48 + m))" using that by (simp add: is_digit_def)
    have "(of_char (char_of (48 + m :: nat)) :: int) = int (of_char (char_of (48 + m :: nat)))" by (simp only: of_nat_of_char)
    also have "\<dots> = 48 + int m" using that by simp
    finally show "(of_char (char_of (48 + m :: nat)) :: int) = 48 + int m" .
  qed
  show ?case
  proof (cases "n < 10")
    case True
    then show ?thesis using d[of n] by (simp add: dec_nat.simps[of n])
  next
    case False
    have "10 * int (n div 10) + int (n mod 10) = int n" by presburger
    with False 1 d[of "n mod 10"] show ?thesis by (simp add: dec_nat.simps[of n])
  qed
qed

text \<open>Epoch nanoseconds are read exactly, over the whole range of 64 bits.\<close>

lemma FormatInt_ParseInt:
  assumes "in_i64 n"
  shows "ParseInt (FormatInt n) = Some n"
proof -
  have p: "parse_digits (dec_nat m) = Some (int m)" for m using parse_digits_dec_nat[of m] by (simp add: parse_digits_def)
  have h: "dec_nat m = c # cs \<Longrightarrow> c \<noteq> CHR ''-'' \<and> c \<noteq> CHR ''+''" for m c cs
    using parse_digits_dec_nat[of m] by (auto simp: is_digit_def)
  show ?thesis
  proof (cases "n < 0")
    case True
    then show ?thesis using assms p[of "nat (- n)"] by (simp add: ParseInt_def FormatInt_def)
  next
    case False
    obtain c cs where "dec_nat (nat n) = c # cs" using parse_digits_dec_nat[of "nat n"] by (cases "dec_nat (nat n)") auto
    then show ?thesis using False assms p[of "nat n"] h[of "nat n"] by (simp add: ParseInt_def FormatInt_def)
  qed
qed

text \<open>A timestamp in epoch nanoseconds is read exactly.\<close>

lemma Time_reads_nanoseconds:
  assumes "in_i64 n"
  shows "Time_UnmarshalJSON rfc3339 (FormatInt n) t = Inr n"
proof -
  have c: "c = CHR ''-'' \<or> is_digit c" if "c \<in> set (FormatInt n)" for c
    using that parse_digits_dec_nat[of "nat n"] parse_digits_dec_nat[of "nat (- n)"] by (auto simp: FormatInt_def list_all_iff split: if_splits)
  have e: "FormatInt n \<noteq> []" using parse_digits_dec_nat[of "nat n"] by (simp add: FormatInt_def)
  have b: "\<not> blank c" if "c \<in> set (FormatInt n)" for c
    using c[OF that] by (auto simp: is_digit_def blank_def)
  have id: "dropWhile blank xs = xs" if "set xs \<subseteq> set (FormatInt n)" for xs
    using that b by (cases xs) auto
  have tr: "TrimSpace (FormatInt n) = FormatInt n" by (simp add: TrimSpace_def id)
  have "FormatInt n \<noteq> ''null''" using c[of "CHR ''n''"] by (auto simp: is_digit_def)
  moreover have "hd (FormatInt n) \<noteq> CHR 0x22" using c[OF hd_in_set[OF e]] by (auto simp: is_digit_def)
  ultimately show ?thesis using e by (simp add: Time_UnmarshalJSON_def tr FormatInt_ParseInt[OF assms])
qed

end
