(* ===== verification/CoordSocket.thy ===== *)
theory CoordSocket
  imports CoordEvents Coordinator Websocket
begin

text \<open>
  The coordinator's websocket, \<open>coordinator/websocket.go\<close>: connecting, the loop that reads events and the loop that sends health checks. A connection is a number and whether
  it has been closed; what the network answers is an argument. An event goes to the registry of \<open>CoordEvents\<close> and to the handler; a panic of a closed
  awaiter is \<open>None\<close>.
\<close>

section \<open>The client\<close>

definition pingInterval :: duration where "pingInterval = 20 * Second"
definition readDeadline :: duration where "readDeadline = 60 * Second"

text \<open>\<open>wc_deadline\<close> is the read deadline of the stored connection's socket, and \<open>wc_checks\<close> counts the health checks sent.\<close>

record wsclient =
  wc_closed :: "bool list"
  wc_conn :: "nat option"
  wc_lastHealthCheck :: time
  wc_deadline :: time
  wc_registry :: registry
  wc_handled :: "(string \<times> ws_event) list"
  wc_checks :: nat

definition newWsClient :: wsclient where
  "newWsClient = \<lparr>wc_closed = [], wc_conn = None, wc_lastHealthCheck = 0, wc_deadline = 0,
     wc_registry = \<lparr>rg_store = NewStore, rg_closures = []\<rparr>, wc_handled = [], wc_checks = 0\<rparr>"

definition close_conn :: "nat \<Rightarrow> wsclient \<Rightarrow> wsclient" where
  "close_conn i w = w\<lparr>wc_closed := (wc_closed w)[i := True]\<rparr>"

definition ws_handle :: "ws_event \<Rightarrow> wsclient \<Rightarrow> wsclient option" where
  "ws_handle e w =
    (case RawHandler e (wc_registry w) of
       None \<Rightarrow> None
     | Some r \<Rightarrow>
        (let w = w\<lparr>wc_registry := r\<rparr> in
         case dispatch_event (we_kind e) of
           Some m \<Rightarrow> Some (w\<lparr>wc_handled := wc_handled w @ [(m, e)]\<rparr>)
         | None \<Rightarrow> Some w))"

text \<open>\<open>Connect\<close>: whether there is a websocket client, dialling and writing succeed, and what the first read gives. \<open>error_of\<close> reads the code and message of
  a connection error. The read has no deadline. On success the two loops are started; the read loop first takes the time \<open>now\<close>.\<close>

definition Connect_coordinator ::
    "(ws_event \<Rightarrow> int \<times> string) \<Rightarrow> bool \<Rightarrow> bool \<Rightarrow> bool \<Rightarrow> ws_event read_result \<Rightarrow> time \<Rightarrow> wsclient \<Rightarrow> ((go_error + ws_event) \<times> wsclient) option" where
  "Connect_coordinator error_of enabled dialled written response now w =
    (if \<not> enabled then Some (Inl (OtherError ''ws client is nil''), w)
     else if \<not> dialled then Some (Inl (Wrapf (OtherError ''dial'') ''dial''), w)
     else
       let i = length (wc_closed w); w = w\<lparr>wc_closed := wc_closed w @ [False]\<rparr> in
       if \<not> written then Some (Inl (Wrapf (OtherError ''write'') ''send auth message''), w)
       else case response of
         Message e \<Rightarrow>
           (if we_kind e = ConnectedEvent then
              map_option (Pair (Inr e)) (ws_handle e (w\<lparr>wc_conn := Some i, wc_lastHealthCheck := now, wc_deadline := now + readDeadline\<rparr>))
            else if we_kind e = ConnectionErrorEvent then
              (let err = NewError (fst (error_of e)) (snd (error_of e)) False
               in map_option (Pair (Inl (Wrapf err ''error response from server''))) (ws_handle e w))
            else Some (Inl (OtherError ''unexpected response from server''), w))
       | _ \<Rightarrow> Some (Inl (Wrapf (OtherError ''read'') ''read auth response''), w))"

text \<open>A tick of the health check loop for the connection \<open>i\<close>; the result is whether the loop goes on. It ends without closing the connection.\<close>

definition ws_ping :: "nat \<Rightarrow> time \<Rightarrow> wsclient \<Rightarrow> bool \<times> wsclient" where
  "ws_ping i now w =
    (if now - wc_lastHealthCheck w > pingInterval * 2 then (False, w)
     else if wc_closed w ! i then (False, w)
     else (True, w\<lparr>wc_deadline := now + 3 * Second, wc_checks := wc_checks w + 1\<rparr>))"

text \<open>The end of the read loop of \<open>i\<close>, and a turn of it: whether the deadline can be set, what the read gives, the time before it and the time
  after it. A panic in handling an event ends the loop, too: it is recovered from after the deferred calls.\<close>

definition read_loop_ends :: "nat \<Rightarrow> wsclient \<Rightarrow> wsclient" where
  "read_loop_ends i w = (close_conn i w)\<lparr>wc_conn := None\<rparr>"

definition ws_read_turn :: "nat \<Rightarrow> bool \<Rightarrow> ws_event read_result \<Rightarrow> time \<Rightarrow> time \<Rightarrow> wsclient \<Rightarrow> bool \<times> wsclient" where
  "ws_read_turn i deadlineSet result before now w =
    (if \<not> deadlineSet then (False, read_loop_ends i w)
     else
       let w = w\<lparr>wc_deadline := before + readDeadline\<rparr> in
       case result of
         DecodeError \<Rightarrow> (True, w)
       | Message e \<Rightarrow>
          (let w = (if we_kind e = HealthCheckEvent then w\<lparr>wc_lastHealthCheck := now\<rparr> else w) in
           case ws_handle e w of
             Some w \<Rightarrow> (True, w)
           | None \<Rightarrow> (False, read_loop_ends i w))
       | _ \<Rightarrow> (False, read_loop_ends i w))"

definition Close_coordinator :: "wsclient \<Rightarrow> wsclient" where
  "Close_coordinator w = (case wc_conn w of None \<Rightarrow> w | Some i \<Rightarrow> close_conn i w)"

section \<open>Connecting\<close>

text \<open>The connections nobody can close: open, and not the stored one.\<close>

definition leaked :: "wsclient \<Rightarrow> nat set" where
  "leaked w = {i. i < length (wc_closed w) \<and> \<not> wc_closed w ! i \<and> wc_conn w \<noteq> Some i}"

lemma ws_handle_ok:
  assumes "registry_ok (wc_registry w)"
  shows "\<exists>w' m. ws_handle e w = Some w' \<and> dispatch_event (we_kind e) = Some m \<and> wc_handled w' = wc_handled w @ [(m, e)] \<and> registry_ok (wc_registry w') \<and>
    wc_closed w' = wc_closed w \<and> wc_conn w' = wc_conn w \<and> wc_lastHealthCheck w' = wc_lastHealthCheck w \<and> wc_deadline w' = wc_deadline w \<and> wc_checks w' = wc_checks w"
proof -
  obtain r where "RawHandler e (wc_registry w) = Some r" "registry_ok r" using event_ok[OF assms, of e] by blast
  moreover obtain m where "dispatch_event (we_kind e) = Some m" using dispatch_event_ok(1)[of "we_kind e"] by blast
  ultimately show ?thesis by (simp add: ws_handle_def)
qed

definition answer_of :: "bool \<Rightarrow> bool \<Rightarrow> bool \<Rightarrow> ws_event read_result \<Rightarrow> ws_event option" where
  "answer_of enabled dialled written response =
    (case response of Message e \<Rightarrow> if enabled \<and> dialled \<and> written then Some e else None | _ \<Rightarrow> None)"

lemma connect_coordinator_ok:
  assumes "registry_ok (wc_registry w)" and "wc_conn w = None"
  shows "\<exists>res w'. Connect_coordinator error_of enabled dialled written response now w = Some (res, w') \<and> registry_ok (wc_registry w') \<and>
    length (wc_closed w') = length (wc_closed w) + (if enabled \<and> dialled then 1 else 0) \<and>
    (case answer_of enabled dialled written response of
       Some e \<Rightarrow>
        if we_kind e = ConnectedEvent then
          res = Inr e \<and> wc_conn w' = Some (length (wc_closed w)) \<and> leaked w' = leaked w \<and>
          (\<exists>m. dispatch_event (we_kind e) = Some m \<and> wc_handled w' = wc_handled w @ [(m, e)])
        else if we_kind e = ConnectionErrorEvent then
          (\<exists>err. res = Inl err \<and> \<not> IsRetryableError err \<and> as_Error err = Some (fst (error_of e), snd (error_of e), False)) \<and>
          (\<exists>m. dispatch_event (we_kind e) = Some m \<and> wc_handled w' = wc_handled w @ [(m, e)])
        else (\<exists>err. res = Inl err \<and> IsRetryableError err) \<and> wc_handled w' = wc_handled w
     | None \<Rightarrow> (\<exists>err. res = Inl err \<and> IsRetryableError err) \<and> wc_handled w' = wc_handled w) \<and>
    ((\<exists>err. res = Inl err) \<longrightarrow> wc_conn w' = None \<and>
       leaked w' = (if enabled \<and> dialled then insert (length (wc_closed w)) (leaked w) else leaked w))"
proof -
  define i where "i = length (wc_closed w)"
  define w1 where "w1 = w\<lparr>wc_closed := wc_closed w @ [False]\<rparr>"
  define w2 where "w2 = w1\<lparr>wc_conn := Some i, wc_lastHealthCheck := now, wc_deadline := now + readDeadline\<rparr>"
  have reg: "registry_ok (wc_registry w1)" "registry_ok (wc_registry w2)" using assms(1) by (simp_all add: w1_def w2_def)
  have l1: "leaked w' = insert i (leaked w)" if "wc_closed w' = wc_closed w1" "wc_conn w' = None" for w'
    using that assms(2) by (auto simp: leaked_def w1_def i_def nth_append less_Suc_eq)
  have l2: "leaked w' = leaked w" if "wc_closed w' = wc_closed w1" "wc_conn w' = Some i" for w'
    using that assms(2) by (auto simp: leaked_def w1_def i_def nth_append less_Suc_eq)
  note defs = Connect_coordinator_def answer_of_def Let_def IsRetryableError_def Wrapf_def NewError_def i_def[symmetric] w1_def[symmetric] w2_def[symmetric]
  consider "\<not> enabled \<or> \<not> dialled" | e where "enabled" "dialled" "written" "response = Message e" "we_kind e = ConnectedEvent"
    | e where "enabled" "dialled" "written" "response = Message e" "we_kind e = ConnectionErrorEvent"
    | "enabled" "dialled" "\<not> written \<or> (\<forall>e. response = Message e \<longrightarrow> we_kind e \<noteq> ConnectedEvent \<and> we_kind e \<noteq> ConnectionErrorEvent)"
    by (cases response) blast+
  then show ?thesis
  proof cases
    case 1
    then show ?thesis using assms by (auto simp: Connect_coordinator_def answer_of_def IsRetryableError_def Wrapf_def split: read_result.split)
  next
    case (2 e)
    obtain w3 m where "ws_handle e w2 = Some w3" "dispatch_event (we_kind e) = Some m" "wc_handled w3 = wc_handled w2 @ [(m, e)]" "registry_ok (wc_registry w3)"
      "wc_closed w3 = wc_closed w2" "wc_conn w3 = wc_conn w2" using ws_handle_ok[OF reg(2), of e] by blast
    moreover from this have "leaked w3 = leaked w" by (intro l2) (simp_all add: w2_def)
    ultimately show ?thesis using 2 by (simp add: defs) (simp add: w2_def w1_def i_def)
  next
    case (3 e)
    obtain w3 m where "ws_handle e w1 = Some w3" "dispatch_event (we_kind e) = Some m" "wc_handled w3 = wc_handled w1 @ [(m, e)]" "registry_ok (wc_registry w3)"
      "wc_closed w3 = wc_closed w1" "wc_conn w3 = wc_conn w1" using ws_handle_ok[OF reg(1), of e] by blast
    moreover from this have "leaked w3 = insert i (leaked w)" by (intro l1) (simp_all add: w1_def assms(2))
    ultimately show ?thesis using 3 by (simp add: defs) (simp add: w1_def i_def assms(2))
  next
    case 4
    have "leaked w1 = insert i (leaked w)" by (intro l1) (simp_all add: w1_def assms(2))
    moreover have "wc_conn w1 = None" "length (wc_closed w1) = Suc i" "wc_handled w1 = wc_handled w" by (simp_all add: w1_def i_def assms(2))
    ultimately show ?thesis using 4 reg(1) by (auto simp: defs split: read_result.splits)
  qed
qed

text \<open>C31: connecting to the coordinator. No outcome panics. When the coordinator answers the authentication with a connected event, the connection is stored
  and the event is handled and returned, and only then. When it answers with an error, the error reaches the handler and comes back with its code and
  message, and it is final: it does not count as worth retrying. Every other failure does and handles no event, among them having no
  websocket client at all, which no retry can mend. Every failure after dialling leaves the new socket open where neither
  \<open>Close\<close> nor a loop can reach it.\<close>

theorem connect_coordinator_outcome:
  assumes "registry_ok (wc_registry w)" and "wc_conn w = None"
  shows "\<exists>res w'. Connect_coordinator error_of enabled dialled written response now w = Some (res, w') \<and> registry_ok (wc_registry w') \<and>
    length (wc_closed w') = length (wc_closed w) + (if enabled \<and> dialled then 1 else 0) \<and>
    (case answer_of enabled dialled written response of
       Some e \<Rightarrow>
        if we_kind e = ConnectedEvent then
          res = Inr e \<and> wc_conn w' = Some (length (wc_closed w)) \<and> leaked w' = leaked w \<and>
          (\<exists>m. dispatch_event (we_kind e) = Some m \<and> wc_handled w' = wc_handled w @ [(m, e)])
        else if we_kind e = ConnectionErrorEvent then
          (\<exists>err. res = Inl err \<and> \<not> IsRetryableError err \<and> as_Error err = Some (fst (error_of e), snd (error_of e), False)) \<and>
          (\<exists>m. dispatch_event (we_kind e) = Some m \<and> wc_handled w' = wc_handled w @ [(m, e)])
        else (\<exists>err. res = Inl err \<and> IsRetryableError err) \<and> wc_handled w' = wc_handled w
     | None \<Rightarrow> (\<exists>err. res = Inl err \<and> IsRetryableError err) \<and> wc_handled w' = wc_handled w) \<and>
    ((\<exists>err. res = Inl err) \<longrightarrow> wc_conn w' = None \<and>
       leaked w' = (if enabled \<and> dialled then insert (length (wc_closed w)) (leaked w) else leaked w))"
  using assms by (rule connect_coordinator_ok)

definition error_event :: ws_event where
  "error_event = \<lparr>we_kind = ConnectionErrorEvent, we_CallCid = [], we_payload = 5\<rparr>"

theorem connect_coordinator_outcome_witness:
  "\<exists>err w'. Connect_coordinator (\<lambda>e. (40, ''token expired'')) True True True (Message error_event) 0 newWsClient = Some (Inl err, w') \<and>
     \<not> IsRetryableError err \<and> leaked w' = {0}"
proof -
  have ok: "registry_ok (wc_registry newWsClient)" "wc_conn newWsClient = None"
    by (simp_all add: newWsClient_def registry_ok_def store_wf_def NewStore_def)
  have "leaked newWsClient = {}" "answer_of True True True (Message error_event) = Some error_event" "we_kind error_event = ConnectionErrorEvent"
      "length (wc_closed newWsClient) = 0"
    by (simp_all add: leaked_def newWsClient_def answer_of_def error_event_def)
  then show ?thesis
    using connect_coordinator_outcome[OF ok, of "\<lambda>e. (40, ''token expired'')" True True True "Message error_event" 0] by auto
qed

section \<open>The two loops\<close>

text \<open>A health check shortens the read deadline to three seconds, well below two intervals. When none has come back for two intervals the loop ends and the connection stays open.\<close>

lemma ping_shortens_deadline:
  "ws_ping i now w = (True, w') \<Longrightarrow> wc_deadline w' = now + 3 * Second"
  by (auto simp: ws_ping_def split: if_splits)

lemma ping_gives_up_without_closing:
  "now - wc_lastHealthCheck w > 2 * pingInterval \<Longrightarrow> ws_ping i now w = (False, w)"
  by (simp add: ws_ping_def)

text \<open>While the peer sends anything but health checks, the read loop goes on, so the connection is kept although it counts as dead.\<close>

lemma read_loop_goes_on:
  assumes "registry_ok (wc_registry w)" "we_kind e \<noteq> HealthCheckEvent"
  shows "\<exists>w'. ws_read_turn i True (Message e) before now w = (True, w') \<and> wc_lastHealthCheck w' = wc_lastHealthCheck w \<and>
    wc_closed w' = wc_closed w \<and> wc_deadline w' = before + readDeadline"
proof -
  have "registry_ok (wc_registry (w\<lparr>wc_deadline := before + readDeadline\<rparr>))" using assms(1) by simp
  from ws_handle_ok[OF this, of e] assms(2) show ?thesis by (auto simp: ws_read_turn_def Let_def)
qed

text \<open>The end of one connection's read loop drops the stored connection whichever it is, so after a second \<open>Connect\<close> the end of the first loop leaves
  the second connection where \<open>Close\<close> does not find it.\<close>

lemma old_loop_drops_new_connection:
  assumes "i < length (wc_closed w)" "j < length (wc_closed w)" "i \<noteq> j" "\<not> wc_closed w ! j"
  shows "\<not> wc_closed (Close_coordinator (read_loop_ends i w)) ! j"
  using assms by (simp add: Close_coordinator_def read_loop_ends_def close_conn_def)

end
