(* ===== verification/ClientRetry.thy ===== *)
theory ClientRetry
  imports Coordinator
begin

text \<open>
  The two retry loops of \<open>client.go\<close>, \<open>connectWithRetries\<close> and \<open>connectWsWithRetries\<close>. They are the same loop over different calls. A context is the time of its deadline and the time at which it is
  cancelled. A call is made at a time, takes some time, and may change a state. The result \<open>None\<close> stands for a
  loop that does not return, or a panic of the call.
\<close>

section \<open>The loop\<close>

record go_context =
  cx_deadline :: "time option"
  cx_cancelled :: "time option"

definition DeadlineExceeded :: go_error where "DeadlineExceeded = OtherError ''context deadline exceeded''"
definition Canceled :: go_error where "Canceled = OtherError ''context canceled''"

definition reached :: "time option \<Rightarrow> time \<Rightarrow> bool" where
  "reached at t = (case at of None \<Rightarrow> False | Some x \<Rightarrow> x \<le> t)"

text \<open>\<open>ctx.Err\<close>: the earlier of the two ends the context.\<close>

definition ctx_Err :: "go_context \<Rightarrow> time \<Rightarrow> go_error option" where
  "ctx_Err cx t =
    (if reached (cx_deadline cx) t \<and> \<not> (reached (cx_cancelled cx) t \<and> the (cx_cancelled cx) < the (cx_deadline cx)) then Some DeadlineExceeded
     else if reached (cx_cancelled cx) t then Some Canceled
     else None)"

definition next_backoff :: "duration \<Rightarrow> duration" where
  "next_backoff b = (if b < 1200 * Millisecond then (if 2 * b > 1200 * Millisecond then 1200 * Millisecond else 2 * b) else b)"

text \<open>The result of the loop: what it returns, the time at which each call was made with what it gave, the time of the return, and the state.
  The context is looked at before each call only: the sleep is not cut short.\<close>

type_synonym ('s, 'r) call_fun = "nat \<Rightarrow> time \<Rightarrow> 's \<Rightarrow> ((go_error + 'r) \<times> nat \<times> 's) option"
type_synonym ('s, 'r) retry_result = "(go_error + 'r) \<times> (time \<times> (go_error + 'r)) list \<times> time \<times> 's"

partial_function (option) retry_loop ::
    "go_context \<Rightarrow> ('s, 'r) call_fun \<Rightarrow> nat \<Rightarrow> time \<Rightarrow> duration \<Rightarrow> go_error option \<Rightarrow> 's \<Rightarrow> ('s, 'r) retry_result option" where
  "retry_loop cx f n t backoff lastError s =
    (case ctx_Err cx t of
       Some e \<Rightarrow> Some (Inl (case lastError of Some l \<Rightarrow> l | None \<Rightarrow> e), [], t, s)
     | None \<Rightarrow>
        Option.bind (f n t s) (\<lambda>(r, d, s).
          case r of
            Inr x \<Rightarrow> Some (Inr x, [(t, Inr x)], t + int d, s)
          | Inl err \<Rightarrow>
             (if \<not> IsRetryableError err then Some (Inl err, [(t, Inl err)], t + int d, s)
              else Option.bind (retry_loop cx f (n + 1) (t + int d + backoff) (next_backoff backoff) (Some err) s)
                     (\<lambda>(res, log, t', s). Some (res, (t, Inl err) # log, t', s)))))"

declare retry_loop.simps [code]

definition retries :: "go_context \<Rightarrow> ('s, 'r) call_fun \<Rightarrow> time \<Rightarrow> 's \<Rightarrow> ('s, 'r) retry_result option" where
  "retries cx f t s = retry_loop cx f 0 t (100 * Millisecond) None s"

section \<open>What it returns\<close>

text \<open>The wait after the call \<open>n\<close>.\<close>

definition wait_after :: "nat \<Rightarrow> duration" where
  "wait_after n = min (1200 * Millisecond) (100 * Millisecond * 2 ^ n)"

lemma wait_after_0: "wait_after 0 = 100 * Millisecond"
  by (simp add: wait_after_def)

lemma wait_after_Suc: "next_backoff (wait_after n) = wait_after (Suc n)"
  by (simp add: next_backoff_def wait_after_def min_def)

lemma wait_after_pos: "100 * Millisecond \<le> wait_after n"
proof -
  have "(1::int) \<le> 2 ^ n" by simp
  then show ?thesis by (simp add: wait_after_def)
qed

text \<open>A log of calls from number \<open>n\<close> on: all made while the context lives, each but the last failing in a way worth retrying, and each
  followed by its wait.\<close>

fun paced_log :: "go_context \<Rightarrow> nat \<Rightarrow> (time \<times> (go_error + 'r)) list \<Rightarrow> bool" where
  "paced_log cx n [] \<longleftrightarrow> True"
| "paced_log cx n [(t, r)] \<longleftrightarrow> ctx_Err cx t = None"
| "paced_log cx n ((t, r) # (t', r') # log) \<longleftrightarrow>
     ctx_Err cx t = None \<and> (\<exists>err. r = Inl err \<and> IsRetryableError err) \<and> t + wait_after n \<le> t' \<and> paced_log cx (Suc n) ((t', r') # log)"

definition retry_spec :: "go_context \<Rightarrow> nat \<Rightarrow> time \<Rightarrow> go_error option \<Rightarrow> ('s, 'r) retry_result \<Rightarrow> bool" where
  "retry_spec cx n t lastError res =
    (case res of (r, log, t', s) \<Rightarrow>
       paced_log cx n log \<and> (log \<noteq> [] \<longrightarrow> fst (hd log) = t) \<and> t \<le> t' \<and>
       (if log = [] then r = Inl (case lastError of Some l \<Rightarrow> l | None \<Rightarrow> the (ctx_Err cx t)) \<and> ctx_Err cx t \<noteq> None \<and> t' = t else r = snd (last log)) \<and>
       (\<forall>err. r = Inl err \<and> IsRetryableError err \<and> log \<noteq> [] \<longrightarrow> ctx_Err cx t' \<noteq> None))"

lemma retry_loop_spec:
  assumes "retry_loop cx f n t b lastError s = Some res"
  shows "b = wait_after n \<longrightarrow> retry_spec cx n t lastError res"
proof (rule retry_loop.raw_induct[where P = "\<lambda>cx f n t b lastError s res. b = wait_after n \<longrightarrow> retry_spec cx n t lastError res", OF _ assms], goal_cases)
  case (1 loop cx f n t b lastError s res)
  show ?case
  proof (cases "ctx_Err cx t")
    case (Some e)
    with 1(2) show ?thesis by (auto simp: retry_spec_def split: option.splits)
  next
    case None
    with 1(2) obtain r d s1 where f: "f n t s = Some (r, d, s1)" by (auto simp: bind_eq_Some_conv)
    show ?thesis
    proof (cases "\<exists>err. r = Inl err \<and> IsRetryableError err")
      case False
      with 1(2) None f show ?thesis by (auto simp: retry_spec_def split: sum.splits)
    next
      case True
      then obtain err where err: "r = Inl err" "IsRetryableError err" by blast
      with 1(2) None f obtain res1 log t' s2 where
        l: "loop cx f (n + 1) (t + int d + b) (next_backoff b) (Some err) s1 = Some (res1, log, t', s2)"
        and res: "res = (res1, (t, Inl err) # log, t', s2)" by (auto simp: bind_eq_Some_conv)
      show ?thesis
      proof
        assume b: "b = wait_after n"
        then have "next_backoff b = wait_after (n + 1)" by (simp add: wait_after_Suc)
        with 1(1)[OF l] have sp: "retry_spec cx (n + 1) (t + int d + b) (Some err) (res1, log, t', s2)" by simp
        have "paced_log cx n ((t, Inl err) # log)"
          using sp None err b by (cases log) (auto simp: retry_spec_def)
        moreover have "0 < b" using b wait_after_pos[of n] by simp
        ultimately show "retry_spec cx n t lastError res"
          using sp err by (auto simp: retry_spec_def res split: if_splits)
      qed
    qed
  qed
qed

lemma no_call_made: "retries cx f t s = Some (r, [], t', s') \<Longrightarrow> ctx_Err cx t \<noteq> None"
  using retry_loop_spec[of cx f 0 t "wait_after 0" None s] by (auto simp: retries_def wait_after_0 retry_spec_def)

lemma ctx_live: "ctx_Err cx t = None \<Longrightarrow> cx_deadline cx = Some D \<Longrightarrow> t < D"
  by (auto simp: ctx_Err_def reached_def split: if_splits)

lemma retry_loop_ends:
  assumes "cx_deadline cx = Some D" and "\<And>n t s. P s \<Longrightarrow> \<exists>r d s'. f n t s = Some (r, d, s') \<and> (\<forall>err. r = Inl err \<longrightarrow> P s')" and "0 < b" and "P s"
  shows "\<exists>res. retry_loop cx f n t b lastError s = Some res"
  using assms(3,4)
proof (induction "nat (D - t)" arbitrary: n t b lastError s rule: less_induct)
  case less
  show ?case
  proof (cases "ctx_Err cx t")
    case (Some e)
    then show ?thesis by (subst retry_loop.simps) simp
  next
    case None
    obtain r d s1 where f: "f n t s = Some (r, d, s1)" "\<forall>err. r = Inl err \<longrightarrow> P s1" using assms(2)[OF less.prems(2)] by blast
    show ?thesis
    proof (cases "\<exists>err. r = Inl err \<and> IsRetryableError err")
      case False
      with None f(1) show ?thesis by (subst retry_loop.simps) (auto split: sum.splits)
    next
      case True
      then obtain err where err: "r = Inl err" "IsRetryableError err" by blast
      have "t < D" using ctx_live[OF None assms(1)] .
      then have "nat (D - (t + int d + b)) < nat (D - t)" using less.prems(1) by simp
      moreover have "0 < next_backoff b" using less.prems(1) by (simp add: next_backoff_def)
      ultimately obtain res where "retry_loop cx f (n + 1) (t + int d + b) (next_backoff b) (Some err) s1 = Some res"
        using less.hyps f(2) err(1) by blast
      with None f(1) err show ?thesis by (subst retry_loop.simps) (auto split: prod.splits)
    qed
  qed
qed

lemma paced_log_span:
  "paced_log cx n log \<Longrightarrow> log \<noteq> [] \<Longrightarrow> fst (hd log) + (\<Sum>i < length log - 1. wait_after (n + i)) \<le> fst (last log) \<and> ctx_Err cx (fst (last log)) = None"
proof (induction cx n log rule: paced_log.induct)
  case (3 cx n t r t' r' log)
  have "(\<Sum>i < Suc (length log). wait_after (n + i)) = wait_after n + (\<Sum>i < length log. wait_after (Suc n + i))"
    by (simp add: sum.lessThan_Suc_shift del: sum.lessThan_Suc)
  with 3 show ?case by auto
qed simp_all

lemma first_waits: "(\<Sum>i < 7. wait_after i) = 5100 * Millisecond"
  by (simp add: wait_after_def lessThan_nat_numeral lessThan_Suc eval_nat_numeral)

lemma few_attempts:
  assumes "paced_log cx 0 log" "log \<noteq> []" "cx_deadline cx = Some D" "D \<le> fst (hd log) + 5 * Second"
  shows "length log \<le> 7"
proof (rule ccontr)
  assume "\<not> length log \<le> 7"
  then have "(\<Sum>i < 7. wait_after i) \<le> (\<Sum>i < length log - 1. wait_after i)"
    using order_trans[OF _ wait_after_pos] by (intro sum_mono2) auto
  moreover have "fst (hd log) + (\<Sum>i < length log - 1. wait_after i) \<le> fst (last log)" "fst (last log) < D"
    using paced_log_span[OF assms(1,2)] ctx_live[OF _ assms(3)] by auto
  ultimately show False using assms(4) by (simp add: first_waits)
qed

lemma retries_ok:
  assumes "cx_deadline cx = Some D" and "\<And>n t s. P s \<Longrightarrow> \<exists>r d s'. f n t s = Some (r, d, s') \<and> (\<forall>err. r = Inl err \<longrightarrow> P s')" and "P s"
  shows "\<exists>r log t' s'. retries cx f t s = Some (r, log, t', s') \<and> paced_log cx 0 log \<and> (log \<noteq> [] \<longrightarrow> fst (hd log) = t) \<and>
    (if log = [] then r = Inl (the (ctx_Err cx t)) else r = snd (last log)) \<and>
    (\<forall>err. r = Inl err \<and> IsRetryableError err \<and> log \<noteq> [] \<longrightarrow> ctx_Err cx t' \<noteq> None) \<and>
    (D \<le> t + 5 * Second \<longrightarrow> length log \<le> 7)"
proof -
  obtain res where res: "retry_loop cx f 0 t (wait_after 0) None s = Some res"
    using retry_loop_ends[OF assms(1,2) _ assms(3), where b = "wait_after 0"] wait_after_pos[of 0] by force
  obtain r log t' s' where r: "res = (r, log, t', s')" by (cases res) auto
  have "retry_spec cx 0 t None (r, log, t', s')" using retry_loop_spec[OF res] by (simp add: r)
  moreover have "length log \<le> 7" if "D \<le> t + 5 * Second" "retry_spec cx 0 t None (r, log, t', s')"
    using that few_attempts[of cx log D] assms(1) by (cases "log = []") (auto simp: retry_spec_def)
  ultimately show ?thesis using res by (auto simp: retries_def r wait_after_0 retry_spec_def split: if_splits)
qed

text \<open>C32: retrying ends with its deadline. If every call returns, the loop returns. Each call is made while the context lives, every call but the last failed with an error that is worth retrying,
  and the wait after the call \<open>n\<close> is \<open>100 ms * 2 ^ n\<close>, at most 1.2 s. What is returned is what the last call gave: its value, an error that is not worth retrying, or, when the context has ended, the last error;
  the context's own error only when no call was made. Within the default timeout of five seconds there are at most seven
  calls.\<close>

theorem retries_end:
  assumes "cx_deadline cx = Some D" and "\<And>n t s. f n t s \<noteq> None"
  shows "\<exists>r log t' s'. retries cx f t s = Some (r, log, t', s') \<and> paced_log cx 0 log \<and> (log \<noteq> [] \<longrightarrow> fst (hd log) = t) \<and>
    (if log = [] then r = Inl (the (ctx_Err cx t)) else r = snd (last log)) \<and>
    (\<forall>err. r = Inl err \<and> IsRetryableError err \<and> log \<noteq> [] \<longrightarrow> ctx_Err cx t' \<noteq> None) \<and>
    (D \<le> t + 5 * Second \<longrightarrow> length log \<le> 7)"
proof (rule retries_ok[OF assms(1), of "\<lambda>_. True"])
  show "\<exists>r d s'. f n t s = Some (r, d, s') \<and> (\<forall>err. r = Inl err \<longrightarrow> True)" for n t s using assms(2)[of n t s] by auto
qed simp

text \<open>A service that is down for two calls, each of which takes 3 ns.\<close>

definition busy :: "(unit, nat) call_fun" where
  "busy n t s = Some (if n < 2 then Inl (OtherError ''busy'') else Inr n, 3, ())"

definition five_seconds :: go_context where
  "five_seconds = \<lparr>cx_deadline = Some (5 * Second), cx_cancelled = None\<rparr>"

theorem retries_end_witness:
  "retries five_seconds busy 0 () =
     Some (Inr 2, [(0, Inl (OtherError ''busy'')), (100000003, Inl (OtherError ''busy'')), (300000006, Inr 2)], 300000009, ()) \<and>
   (\<exists>r log t' s'. retries five_seconds busy 0 () = Some (r, log, t', s') \<and> length log \<le> 7)"
proof (rule conjI)
  show "retries five_seconds busy 0 () =
     Some (Inr 2, [(0, Inl (OtherError ''busy'')), (100000003, Inl (OtherError ''busy'')), (300000006, Inr 2)], 300000009, ())"
    by code_simp
  have "busy n t s \<noteq> None" for n t s by (simp add: busy_def)
  from retries_end[of five_seconds "5 * Second" busy, OF _ this, of 0 "()"]
  show "\<exists>r log t' s'. retries five_seconds busy 0 () = Some (r, log, t', s') \<and> length log \<le> 7"
    unfolding five_seconds_def by fastforce
qed

text \<open>Without a deadline the loop goes on for as long as the calls fail in a way worth retrying.\<close>

lemma retries_for_ever:
  fixes f :: "('s, 'r) call_fun"
  assumes "\<And>t. ctx_Err cx t = None" and "\<And>n t s. \<exists>err d s'. f n t s = Some (Inl err, d, s') \<and> IsRetryableError err"
  shows "retries cx f t s = None"
proof -
  have never: "cx' = cx \<and> f' = f \<longrightarrow> False" if A: "retry_loop cx' f' n t b l s = Some res" for cx' f' n t b l s and res :: "('s, 'r) retry_result"
  proof (rule retry_loop.raw_induct[where P = "\<lambda>cx' f' n t b l s res. cx' = cx \<and> f' = f \<longrightarrow> False", OF _ A], goal_cases)
    case (1 loop cx' f' n t b l s res)
    show ?case
    proof
      assume e: "cx' = cx \<and> f' = f"
      obtain err d s' where "f n t s = Some (Inl err, d, s')" "IsRetryableError err" using assms(2) by blast
      with 1(2) e assms(1) obtain res1 where "loop cx f (n + 1) (t + int d + b) (next_backoff b) (Some err) s' = Some res1"
        by (auto simp: bind_eq_Some_conv)
      from 1(1)[OF this] show False by simp
    qed
  qed
  have "retry_loop cx f 0 t (100 * Millisecond) None s \<noteq> Some res" for res
    using never[of cx f 0 t "100 * Millisecond" None s res] by blast
  then show ?thesis unfolding retries_def by (cases "retry_loop cx f 0 t (100 * Millisecond) None s") auto
qed

end
