(* ===== verification/Client.thy ===== *)
theory Client
  imports ClientRetry CoordSocket CallSession IceRecovery
begin

text \<open>
  The client of the SDK: \<open>client.go\<close>, \<open>location.go\<close> and \<open>buildinfo.go\<close>. Its options, its construction with the coordinator's websocket, discovering the location, and the
  coordinator's half of a join with the function that fetches credentials again. Tokens, URLs, the network, JWT claims and build information answer
  through arguments. Traces, loggers and the stats providers, which only collect, are left out.
\<close>

section \<open>Details and versions\<close>

record SDKVersion =
  sv_Major :: string
  sv_Minor :: string
  sv_Patch :: string

record ClientDetails =
  cd_SDKVersion :: SDKVersion
  cd_OSName :: string
  cd_SDKType :: int
  cd_BrowserName :: string

text \<open>The numbers of the protocol's \<open>SDK_TYPE_UNSPECIFIED\<close> and \<open>SDK_TYPE_GO\<close> are arguments.\<close>

definition sdkType :: "int \<Rightarrow> int \<Rightarrow> ClientDetails \<Rightarrow> int" where
  "sdkType unspecified go c = (if cd_SDKType c = unspecified then go else cd_SDKType c)"

definition SDKVersionString :: "ClientDetails \<Rightarrow> string" where
  "SDKVersionString c =
    (let v = cd_SDKVersion c in ''stream-go-'' @ sv_Major v @ ''.'' @ sv_Minor v @ ''.'' @ sv_Patch v)"

definition pionModulePath :: string where "pionModulePath = ''github.com/pion/webrtc/v4''"
definition sdkModulePath :: string where "sdkModulePath = ''github.com/GetStream/getstream-go-webrtc''"
definition unknownVersion :: string where "unknownVersion = ''0.0.0''"

definition normalizeVersion :: "string \<Rightarrow> string" where
  "normalizeVersion v =
    (if v = [] \<or> v = ''(devel)'' then [] else case v of c # cs \<Rightarrow> if c = CHR ''v'' then cs else v | [] \<Rightarrow> v)"

text \<open>Build information: the main module and the dependencies, as path and version.\<close>

record build_info =
  bi_Main :: "string \<times> string"
  bi_Deps :: "(string \<times> string) list"

definition read_dep :: "string \<times> string \<Rightarrow> string \<times> string \<Rightarrow> string \<times> string" where
  "read_dep versions dep =
    (let (sdk, webrtc) = versions; (path, version) = dep; v = normalizeVersion version in
     if path = sdkModulePath then (if v \<noteq> [] then v else sdk, webrtc)
     else if path = pionModulePath then (sdk, if v \<noteq> [] then v else webrtc)
     else (sdk, webrtc))"

definition readBuildVersions :: "build_info option \<Rightarrow> string \<times> string" where
  "readBuildVersions info =
    (case info of
       None \<Rightarrow> (unknownVersion, unknownVersion)
     | Some bi \<Rightarrow>
        (let v = normalizeVersion (snd (bi_Main bi));
             sdk = (if v \<noteq> [] \<and> fst (bi_Main bi) = sdkModulePath then v else unknownVersion)
         in foldl read_dep (sdk, unknownVersion) (bi_Deps bi)))"

definition SDKBuildVersion :: "build_info option \<Rightarrow> string" where "SDKBuildVersion info = fst (readBuildVersions info)"
definition WebRTCBuildVersion :: "build_info option \<Rightarrow> string" where "WebRTCBuildVersion info = snd (readBuildVersions info)"

definition version_string :: "SDKVersion \<Rightarrow> string" where
  "version_string v =
    (if sv_Major v = [] \<and> sv_Minor v = [] \<and> sv_Patch v = [] then unknownVersion
     else sv_Major v @ ''.'' @ sv_Minor v @ ''.'' @ sv_Patch v)"

definition sdkVersion :: "build_info option \<Rightarrow> ClientDetails \<Rightarrow> string" where
  "sdkVersion info c =
    (let v = version_string (cd_SDKVersion c) in if v \<noteq> unknownVersion then v else SDKBuildVersion info)"

datatype Source = SourceWebRTC | SourceRTMP | SourceSIP | SourceSRT | SourceRTSP | SourceOther int

text \<open>The participant sources of the protocol are an argument.\<close>

record participant_source =
  ps_WEBRTC_UNSPECIFIED :: int
  ps_RTMP :: int
  ps_SIP :: int
  ps_SRT :: int
  ps_RTSP :: int

definition toSfuParticipantSource :: "participant_source \<Rightarrow> Source \<Rightarrow> int" where
  "toSfuParticipantSource P c =
    (case c of SourceRTMP \<Rightarrow> ps_RTMP P | SourceSIP \<Rightarrow> ps_SIP P | SourceSRT \<Rightarrow> ps_SRT P | SourceRTSP \<Rightarrow> ps_RTSP P
     | _ \<Rightarrow> ps_WEBRTC_UNSPECIFIED P)"

section \<open>Options\<close>

definition UserTypeAuthenticated :: string where "UserTypeAuthenticated = ''authenticated''"
definition UserTypeGuest :: string where "UserTypeGuest = ''guest''"
definition UserTypeAnonymous :: string where "UserTypeAnonymous = ''anonymous''"

record User =
  us_ID :: string
  us_Name :: string
  us_Type :: string

record options =
  op_coordinatorOptions :: "coord_option list"
  op_detectLocation :: bool
  op_logger :: nat
  op_clientDetails :: ClientDetails
  op_statsReportingInterval :: duration
  op_source :: Source
  op_connectTimeout :: duration
  op_withCoordinatorWS :: bool
  op_locationHintURL :: string
  op_iceRecoveryConfig :: ICERecoveryConfig
  op_reconnectConfig :: ReconnectConfig
  op_healthCheckInterval :: duration
  op_healthCheckTimeout :: duration
  op_user :: User

definition defaultClientOptions :: options where
  "defaultClientOptions = \<lparr>op_coordinatorOptions = [], op_detectLocation = True, op_logger = 0,
     op_clientDetails = \<lparr>cd_SDKVersion = \<lparr>sv_Major = ''0'', sv_Minor = ''0'', sv_Patch = ''0''\<rparr>, cd_OSName = ''linux'', cd_SDKType = 0, cd_BrowserName = []\<rparr>,
     op_statsReportingInterval = 0, op_source = SourceWebRTC, op_connectTimeout = 5 * Second, op_withCoordinatorWS = True, op_locationHintURL = [],
     op_iceRecoveryConfig = defaultICERecoveryConfig, op_reconnectConfig = defaultReconnectConfig, op_healthCheckInterval = 0,
     op_healthCheckTimeout = 0, op_user = \<lparr>us_ID = ''agent'', us_Name = ''Agent'', us_Type = []\<rparr>\<rparr>"

type_synonym option_fun = "options \<Rightarrow> options"

definition WithUser :: "User \<Rightarrow> option_fun" where "WithUser u p = p\<lparr>op_user := u\<rparr>"
definition WithLogger :: "nat \<Rightarrow> option_fun" where
  "WithLogger l p = p\<lparr>op_logger := l, op_coordinatorOptions := op_coordinatorOptions p @ [WithCoordLogger l]\<rparr>"
definition WithLocationHintURL :: "string \<Rightarrow> option_fun" where "WithLocationHintURL u p = p\<lparr>op_locationHintURL := u\<rparr>"
definition WithoutCoordinatorWS :: option_fun where "WithoutCoordinatorWS p = p\<lparr>op_withCoordinatorWS := False\<rparr>"
definition WithoutLocationDiscovery :: option_fun where "WithoutLocationDiscovery p = p\<lparr>op_detectLocation := False\<rparr>"
definition WithCoordinatorOptions :: "coord_option list \<Rightarrow> option_fun" where
  "WithCoordinatorOptions opts p = p\<lparr>op_coordinatorOptions := opts\<rparr>"
definition WithClientDetails :: "ClientDetails \<Rightarrow> option_fun" where
  "WithClientDetails d p =
    p\<lparr>op_clientDetails := d, op_coordinatorOptions := op_coordinatorOptions p @ [WithVersionHeader (SDKVersionString d)]\<rparr>"
definition WithStatsInterval :: "duration \<Rightarrow> option_fun" where "WithStatsInterval d p = p\<lparr>op_statsReportingInterval := d\<rparr>"
definition WithConnectTimeout :: "duration \<Rightarrow> option_fun" where
  "WithConnectTimeout d p = (if d > 0 then p\<lparr>op_connectTimeout := d\<rparr> else p)"
definition WithSource :: "Source \<Rightarrow> option_fun" where "WithSource s p = p\<lparr>op_source := s\<rparr>"
definition WithICERecovery :: "ICERecoveryConfig \<Rightarrow> option_fun" where
  "WithICERecovery cfg p = p\<lparr>op_iceRecoveryConfig := ice_withDefaults cfg\<rparr>"
definition WithReconnectConfig :: "ReconnectConfig \<Rightarrow> option_fun" where
  "WithReconnectConfig cfg p = p\<lparr>op_reconnectConfig := withDefaults cfg\<rparr>"
definition WithDisconnectionTimeout :: "duration \<Rightarrow> option_fun" where
  "WithDisconnectionTimeout d p = p\<lparr>op_reconnectConfig := (op_reconnectConfig p)\<lparr>DisconnectionTimeout := d\<rparr>\<rparr>"
definition WithHealthCheck_client :: "duration \<Rightarrow> duration \<Rightarrow> option_fun" where
  "WithHealthCheck_client interval timeout p =
    (let p = (if interval > 0 then p\<lparr>op_healthCheckInterval := interval\<rparr> else p)
     in if timeout > 0 then p\<lparr>op_healthCheckTimeout := timeout\<rparr> else p)"

definition apply_client_options :: "option_fun list \<Rightarrow> options" where
  "apply_client_options opts = foldl (\<lambda>p opt. opt p) defaultClientOptions opts"

section \<open>Location\<close>

definition FallbackLocationName :: string where "FallbackLocationName = ''IAD''"
definition DefaultLocationHintURL :: string where "DefaultLocationHintURL = ''https://hint.stream-io-video.com/''"

record discovery =
  ld_url :: string
  ld_maxRetries :: int

definition NewCloudFrontDiscovery :: "string \<Rightarrow> int \<Rightarrow> discovery" where
  "NewCloudFrontDiscovery u maxRetries = \<lparr>ld_url = (if u = [] then DefaultLocationHintURL else u), ld_maxRetries = maxRetries\<rparr>"

text \<open>\<open>builds\<close> is whether the request can be made; \<open>reply i\<close> is what the request \<open>i\<close> gives: a failure, or the status and the header's runes (the names
  of points of presence are ASCII). The result is the location and how many requests were sent.\<close>

fun discover_loop :: "(nat \<Rightarrow> (int \<times> string) option) \<Rightarrow> nat \<Rightarrow> nat \<Rightarrow> string \<times> nat" where
  "discover_loop reply i 0 = (FallbackLocationName, i)"
| "discover_loop reply i (Suc k) =
    (case reply i of
       None \<Rightarrow> discover_loop reply (i + 1) k
     | Some (status, popName) \<Rightarrow>
        (if status \<noteq> 200 then discover_loop reply (i + 1) k
         else if length popName < 3 then (FallbackLocationName, i + 1)
         else (take 3 popName, i + 1)))"

definition Discover :: "bool \<Rightarrow> (nat \<Rightarrow> (int \<times> string) option) \<Rightarrow> discovery \<Rightarrow> string \<times> nat" where
  "Discover builds reply c =
    (if \<not> builds then (FallbackLocationName, 0) else discover_loop reply 0 (nat (ld_maxRetries c)))"

lemma discover_loop_result: "length (fst (discover_loop reply i k)) = 3 \<and> snd (discover_loop reply i k) \<le> i + k"
proof (induction k arbitrary: i)
  case (Suc k)
  then show ?case using Suc.IH[of "i + 1"] by (auto simp: FallbackLocationName_def split: option.splits)
qed (simp add: FallbackLocationName_def)

section \<open>The client\<close>

record rtc_client =
  rc_apiKey :: string
  rc_token :: string
  rc_locationCache :: string
  rc_locationDiscovery :: "discovery option"
  rc_server :: bool
  rc_options :: options
  rc_coordinator :: coord_client
  rc_ws :: wsclient
  rc_User :: User
  rc_UserID :: string
  rc_ConnectionID :: string

text \<open>What an attempt to connect the websocket meets: the network's answers, how long dialling takes, and how long the message and the read of the
  answer take, with \<open>None\<close> when the answer never comes. The context ends the dialling; the read has no deadline.\<close>

record ws_answer =
  wa_dialled :: bool
  wa_dial :: nat
  wa_written :: bool
  wa_response :: "ws_event read_result"
  wa_auth :: "nat option"

definition ctx_end :: "go_context \<Rightarrow> time option" where
  "ctx_end cx =
    (case cx_deadline cx of
       None \<Rightarrow> cx_cancelled cx
     | Some d \<Rightarrow> Some (case cx_cancelled cx of None \<Rightarrow> d | Some c \<Rightarrow> min d c))"

definition dials :: "go_context \<Rightarrow> ws_answer \<Rightarrow> time \<Rightarrow> bool" where
  "dials cx a t \<longleftrightarrow> wa_dialled a \<and> ctx_Err cx (t + int (wa_dial a)) = None"

definition dial_time :: "go_context \<Rightarrow> ws_answer \<Rightarrow> time \<Rightarrow> nat" where
  "dial_time cx a t = (case ctx_end cx of None \<Rightarrow> wa_dial a | Some e \<Rightarrow> min (wa_dial a) (nat (e - t)))"

definition connect_attempt :: "(ws_event \<Rightarrow> int \<times> string) \<Rightarrow> go_context \<Rightarrow> bool \<Rightarrow> (nat \<Rightarrow> ws_answer) \<Rightarrow> (wsclient, ws_event) call_fun" where
  "connect_attempt error_of cx enabled answers n t w =
    (let a = answers n;
         took = (if \<not> enabled then Some 0
                 else if \<not> dials cx a t then Some (dial_time cx a t)
                 else map_option (\<lambda>d. dial_time cx a t + d) (wa_auth a))
     in case took of
          None \<Rightarrow> None
        | Some d \<Rightarrow>
           map_option (\<lambda>(r, w). (r, d, w))
             (Connect_coordinator error_of enabled (dials cx a t) (wa_written a) (wa_response a) (t + int d) w))"

definition connectWsWithRetries ::
    "(ws_event \<Rightarrow> int \<times> string) \<Rightarrow> go_context \<Rightarrow> bool \<Rightarrow> (nat \<Rightarrow> ws_answer) \<Rightarrow> time \<Rightarrow> wsclient \<Rightarrow> (wsclient, ws_event) retry_result option" where
  "connectWsWithRetries error_of cx enabled answers t w = retries cx (connect_attempt error_of cx enabled answers) t w"

text \<open>\<open>claims\<close> is the string claim \<open>user_id\<close> of a token that parses.\<close>

definition extractUserID :: "(string \<Rightarrow> string option) \<Rightarrow> string \<Rightarrow> string" where
  "extractUserID claims token = (case claims token of Some u \<Rightarrow> u | None \<Rightarrow> [])"

definition nonEmpty :: "string \<Rightarrow> string option" where
  "nonEmpty s = (if s = [] then None else Some s)"

text \<open>The environment of a construction: URLs, claims, the reading of coordinator events, the answers to the attempts and the time.\<close>

record client_env =
  ce_parse :: "string \<Rightarrow> url option"
  ce_claims :: "string \<Rightarrow> string option"
  ce_error_of :: "ws_event \<Rightarrow> int \<times> string"
  ce_connection_id :: "ws_event \<Rightarrow> string"
  ce_answers :: "nat \<Rightarrow> ws_answer"
  ce_now :: time

definition new_client_of :: "client_env \<Rightarrow> string \<Rightarrow> User \<Rightarrow> (string \<Rightarrow> go_error + string) \<Rightarrow> options \<Rightarrow> (go_error + rtc_client) option" where
  "new_client_of E apiKey user token p =
    (case token (us_ID user) of
       Inl err \<Rightarrow> Some (Inl (Wrapf err ''get token for user''))
     | Inr tok \<Rightarrow>
        (let userID = (if us_ID user = [] then extractUserID (ce_claims E) tok else us_ID user);
             coordOptions = op_coordinatorOptions p @ (if \<not> op_withCoordinatorWS p then [WithoutWebsocket] else [])
         in case NewCoordClient (ce_parse E) apiKey userID (\<lambda>_. Inr tok) coordOptions of
              Inl err \<Rightarrow> Some (Inl err)
            | Inr cc \<Rightarrow>
               (let c = \<lparr>rc_apiKey = apiKey, rc_token = tok, rc_locationCache = [],
                      rc_locationDiscovery = (if op_detectLocation p then Some (NewCloudFrontDiscovery (op_locationHintURL p) 3) else None),
                      rc_server = False, rc_options = p, rc_coordinator = cc, rc_ws = newWsClient, rc_User = user, rc_UserID = userID, rc_ConnectionID = []\<rparr>
                in if op_withCoordinatorWS p then
                     map_option (\<lambda>(r, log, t, w).
                         case r of
                           Inl err \<Rightarrow> Inl err
                         | Inr e \<Rightarrow> Inr (c\<lparr>rc_ws := w, rc_ConnectionID := ce_connection_id E e\<rparr>))
                       (connectWsWithRetries (ce_error_of E) \<lparr>cx_deadline = Some (ce_now E + op_connectTimeout p), cx_cancelled = None\<rparr>
                          (cc_ws cc \<noteq> None) (ce_answers E) (ce_now E) newWsClient)
                   else Some (Inr c))))"

definition NewClient :: "client_env \<Rightarrow> string \<Rightarrow> User \<Rightarrow> (string \<Rightarrow> go_error + string) option \<Rightarrow> option_fun list \<Rightarrow> (go_error + rtc_client) option" where
  "NewClient E apiKey user token opts =
    (if apiKey = [] then Some (Inl (OtherError ''api key is required''))
     else case token of
       None \<Rightarrow> Some (Inl (OtherError ''token provider is required''))
     | Some token \<Rightarrow> new_client_of E apiKey user token (apply_client_options opts))"

text \<open>\<open>NewRTCClient\<close> mixes options of its own with those of the server's SDK, and stops at anything else. \<open>server\<close> is whether that SDK can be built from its options,
  and \<open>createToken\<close> mints its tokens.\<close>

datatype client_option = RtcOption option_fun | ServerOption nat | UnsupportedOption

fun split_options :: "client_option list \<Rightarrow> options \<Rightarrow> nat list \<Rightarrow> go_error + (options \<times> nat list)" where
  "split_options [] p serverOpts = Inr (p, serverOpts)"
| "split_options (RtcOption opt # opts) p serverOpts = split_options opts (opt p) serverOpts"
| "split_options (ServerOption s # opts) p serverOpts = split_options opts p (serverOpts @ [s])"
| "split_options (UnsupportedOption # opts) p serverOpts = Inl (OtherError ''unsupported option'')"

definition NewRTCClient ::
    "client_env \<Rightarrow> (nat list \<Rightarrow> go_error option) \<Rightarrow> (string \<Rightarrow> go_error + string) \<Rightarrow> string \<Rightarrow> string \<Rightarrow> client_option list \<Rightarrow> (go_error + rtc_client) option" where
  "NewRTCClient E server createToken apiKey apiSecret opts =
    (if apiKey = [] then Some (Inl (OtherError ''api key is required''))
     else if apiSecret = [] then Some (Inl (OtherError ''api secret is required''))
     else case split_options opts defaultClientOptions [] of
       Inl err \<Rightarrow> Some (Inl err)
     | Inr (p, serverOpts) \<Rightarrow>
        (case server serverOpts of
           Some err \<Rightarrow> Some (Inl (Wrapf err ''build server client''))
         | None \<Rightarrow> map_option (map_sum (\<lambda>e. e) (\<lambda>c. c\<lparr>rc_server := True\<rparr>)) (new_client_of E apiKey (op_user p) createToken p)))"

section \<open>The coordinator's half of a join\<close>

text \<open>\<open>found\<close> is what discovery finds, with the requests it takes, when it is asked. Without a discovery the code does not get here.\<close>

definition detectLocationCached :: "bool \<Rightarrow> (nat \<Rightarrow> (int \<times> string) option) \<Rightarrow> rtc_client \<Rightarrow> string \<times> nat \<times> rtc_client" where
  "detectLocationCached builds reply c =
    (if rc_locationCache c = [] then
       (case rc_locationDiscovery c of
          None \<Rightarrow> ([], 0, c)
        | Some d \<Rightarrow> (let (loc, n) = Discover builds reply d; c = c\<lparr>rc_locationCache := loc\<rparr> in (rc_locationCache c, n, c)))
     else (rc_locationCache c, 0, c))"

text \<open>\<open>E n\<close> is the REST environment of the attempt \<open>n\<close> and how long it takes. \<open>order\<close> is an iteration order of a map, as in \<open>JoinCall\<close>.\<close>

type_synonym 'resp rest_attempts = "nat \<Rightarrow> (JoinCallRequest, 'resp) rest \<times> nat"

definition connectWithRetries ::
    "'resp rest_attempts \<Rightarrow> bool \<Rightarrow> go_context \<Rightarrow> string \<Rightarrow> string \<Rightarrow> JoinCallRequest \<Rightarrow> time \<Rightarrow> rtc_client \<Rightarrow> (unit, 'resp) retry_result option" where
  "connectWithRetries E order cx ty ident req t c =
    retries cx (\<lambda>n t s. let (R, d) = E n in Some (JoinCall R order (rc_coordinator c) ty ident req (Some (rc_ConnectionID c)), d, s)) t ()"

text \<open>What a join keeps for \<open>GetCred\<close>: the response and the request it was made with. \<open>creds\<close> reads the credentials of a response.\<close>

record 'resp get_cred =
  gc_result :: 'resp
  gc_type :: string
  gc_id :: string
  gc_request :: JoinCallRequest

definition joinCoordinator_client ::
    "'resp rest_attempts \<Rightarrow> bool \<Rightarrow> bool \<Rightarrow> (nat \<Rightarrow> (int \<times> string) option) \<Rightarrow> go_context \<Rightarrow> string \<Rightarrow> string \<Rightarrow> JoinCallRequest \<Rightarrow> time \<Rightarrow> rtc_client \<Rightarrow>
      ((go_error + 'resp get_cred) \<times> rtc_client) option" where
  "joinCoordinator_client E order builds reply cx ty ident req t c =
    (let (req, c) = (if jr_Location req = [] \<and> op_detectLocation (rc_options c) then
                       (let (loc, n, c) = detectLocationCached builds reply c in (req\<lparr>jr_Location := loc\<rparr>, c))
                     else (req, c))
     in map_option (\<lambda>(r, log, t', s).
            (case r of
               Inl err \<Rightarrow> Inl err
             | Inr result \<Rightarrow> Inr \<lparr>gc_result = result, gc_type = ty, gc_id = ident, gc_request = req\<rparr>, c))
          (connectWithRetries E order cx ty ident req t c))"

definition getCred ::
    "('resp \<Rightarrow> Credentials) \<Rightarrow> 'resp rest_attempts \<Rightarrow> bool \<Rightarrow> 'resp get_cred \<Rightarrow> bool \<Rightarrow> string \<Rightarrow> time \<Rightarrow> rtc_client \<Rightarrow>
      ((go_error + Credentials) \<times> (time \<times> (go_error + 'resp)) list) option" where
  "getCred creds E order g forceReload excludeSFUID t c =
    (if \<not> forceReload \<and> excludeSFUID = [] then Some (Inr (creds (gc_result g)), [])
     else
       let req = (if excludeSFUID \<noteq> [] then (gc_request g)\<lparr>jr_MigratingFrom := Some excludeSFUID\<rparr> else gc_request g);
           cx = \<lparr>cx_deadline = Some (t + 5 * Second), cx_cancelled = None\<rparr>
       in map_option (\<lambda>(r, log, t', s). (case r of Inl err \<Rightarrow> Inl err | Inr resp \<Rightarrow> Inr (creds resp), log))
            (connectWithRetries E order cx (gc_type g) (gc_id g) req t c))"

section \<open>Connecting a client\<close>

lemma connect_attempt_total:
  assumes "registry_ok (wc_registry w)" "wc_conn w = None" "wa_dialled (answers n) \<longrightarrow> wa_auth (answers n) \<noteq> None"
  shows "connect_attempt error_of cx enabled answers n t w \<noteq> None"
proof -
  have total: "Connect_coordinator error_of enabled dl written response t' w \<noteq> None" for dl written response t'
    using connect_coordinator_ok[OF assms(1,2), of error_of enabled dl written response t'] by auto
  show ?thesis
  proof (cases "enabled \<and> dials cx (answers n) t")
    case True
    then obtain d where "wa_auth (answers n) = Some d" using assms(3) by (auto simp: dials_def)
    then show ?thesis using total True by (simp add: connect_attempt_def Let_def)
  next
    case False
    then show ?thesis using total by (cases enabled) (simp_all add: connect_attempt_def Let_def)
  qed
qed

text \<open>What the retries keep of the state: \<open>I s k\<close> after \<open>k\<close> failed calls, and \<open>J s k\<close> after a success.\<close>

lemma retry_loop_state:
  assumes "\<And>n t s k r d s1. I s k \<Longrightarrow> f n t s = Some (r, d, s1) \<Longrightarrow> (case r of Inl err \<Rightarrow> I s1 (Suc k) | Inr x \<Rightarrow> J s1 k) \<and> Q r"
    and "retry_loop cx f n t b l s = Some (r, log, t', s')" and "I s k"
  shows "(case r of Inl err \<Rightarrow> I s' (k + length log) | Inr x \<Rightarrow> J s' (k + length log - 1)) \<and> list_all (\<lambda>(t, r). Q r) log"
proof -
  have "I s k \<longrightarrow> f' = f \<longrightarrow> (case res of (r, log, t', s') \<Rightarrow> (case r of Inl err \<Rightarrow> I s' (k + length log) | Inr x \<Rightarrow> J s' (k + length log - 1)) \<and> list_all (\<lambda>(t, r). Q r) log)"
    if A: "retry_loop cx f' n t b l s = Some res" for cx f' n t b l s res k
  proof (rule retry_loop.raw_induct[where P = "\<lambda>cx f' n t b l s res. \<forall>k. I s k \<longrightarrow> f' = f \<longrightarrow>
      (case res of (r, log, t', s') \<Rightarrow> (case r of Inl err \<Rightarrow> I s' (k + length log) | Inr x \<Rightarrow> J s' (k + length log - 1)) \<and> list_all (\<lambda>(t, r). Q r) log)", OF _ A, THEN spec], goal_cases)
    case (1 loop cx f' n t b l s res)
    show ?case
    proof (intro allI impI)
      fix k
      assume k: "I s k" and f': "f' = f"
      show "case res of (r, log, t', s') \<Rightarrow> (case r of Inl err \<Rightarrow> I s' (k + length log) | Inr x \<Rightarrow> J s' (k + length log - 1)) \<and> list_all (\<lambda>(t, r). Q r) log"
      proof (cases "ctx_Err cx t")
        case (Some e)
        with 1(2) k show ?thesis by auto
      next
        case None
        with 1(2) f' obtain r d s1 where f: "f n t s = Some (r, d, s1)" by (auto simp: bind_eq_Some_conv)
        note step = assms(1)[OF k f]
        show ?thesis
        proof (cases "\<exists>err. r = Inl err \<and> IsRetryableError err")
          case False
          with 1(2) None f f' step show ?thesis by (auto split: sum.splits)
        next
          case True
          then obtain err where err: "r = Inl err" "IsRetryableError err" by blast
          with 1(2) None f f' obtain r1 log t' s2 where
            L: "loop cx f (n + 1) (t + int d + b) (next_backoff b) (Some err) s1 = Some (r1, log, t', s2)"
            and res: "res = (r1, (t, Inl err) # log, t', s2)" by (auto simp: bind_eq_Some_conv)
          have "(case r1 of Inl err \<Rightarrow> I s2 (Suc k + length log) | Inr x \<Rightarrow> J s2 (Suc k + length log - 1)) \<and> list_all (\<lambda>(t, r). Q r) log"
            using 1(1)[OF L, rule_format, OF _ refl, of "Suc k"] step err by simp
          then show ?thesis using step err by (simp add: res split: sum.splits)
        qed
      qed
    qed
  qed
  from this[OF assms(2), of k] assms(3) show ?thesis by simp
qed

text \<open>Sockets of failed attempts.\<close>

definition failed_conns :: "wsclient \<Rightarrow> nat \<Rightarrow> bool" where
  "failed_conns w k \<longleftrightarrow> registry_ok (wc_registry w) \<and> wc_conn w = None \<and> length (wc_closed w) = k \<and> leaked w = {..<k}"

definition connected_conns :: "wsclient \<Rightarrow> nat \<Rightarrow> bool" where
  "connected_conns w k \<longleftrightarrow> wc_conn w = Some k \<and> leaked w = {..<k}"

lemma connect_attempt_state:
  assumes ok: "failed_conns w k" and c: "connect_attempt error_of cx True answers n t w = Some (r, d', w1)"
  shows "case r of Inl err \<Rightarrow> failed_conns w1 (k + (if dials cx (answers n) t then 1 else 0)) | Inr x \<Rightarrow> dials cx (answers n) t \<and> connected_conns w1 k"
    and "dials cx (answers n) t \<Longrightarrow> wa_auth (answers n) = Some d \<Longrightarrow> d' = dial_time cx (answers n) t + d"
    and "\<not> dials cx (answers n) t \<Longrightarrow> d' = dial_time cx (answers n) t"
proof -
  let ?a = "answers n"
  have w: "registry_ok (wc_registry w)" "wc_conn w = None" using ok by (simp_all add: failed_conns_def)
  from c have r: "Connect_coordinator error_of True (dials cx ?a t) (wa_written ?a) (wa_response ?a) (t + int d') w = Some (r, w1)"
    by (auto simp: connect_attempt_def Let_def split: option.splits)
  obtain res w' where res: "Connect_coordinator error_of True (dials cx ?a t) (wa_written ?a) (wa_response ?a) (t + int d') w = Some (res, w')"
    "registry_ok (wc_registry w')" "length (wc_closed w') = length (wc_closed w) + (if dials cx ?a t then 1 else 0)"
    "\<And>e. res = Inr e \<Longrightarrow> dials cx ?a t \<and> wc_conn w' = Some (length (wc_closed w)) \<and> leaked w' = leaked w"
    "\<And>err. res = Inl err \<Longrightarrow> wc_conn w' = None \<and> leaked w' = (if dials cx ?a t then insert (length (wc_closed w)) (leaked w) else leaked w)"
    using connect_coordinator_ok[OF w, of error_of True "dials cx ?a t" "wa_written ?a" "wa_response ?a" "t + int d'"]
    by (auto simp: answer_of_def split: read_result.splits if_splits)
  then show "case r of Inl err \<Rightarrow> failed_conns w1 (k + (if dials cx ?a t then 1 else 0)) | Inr x \<Rightarrow> dials cx ?a t \<and> connected_conns w1 k"
    using r ok by (cases r) (auto simp: failed_conns_def connected_conns_def lessThan_Suc)
  show "dials cx ?a t \<Longrightarrow> wa_auth ?a = Some d \<Longrightarrow> d' = dial_time cx ?a t + d" "\<not> dials cx ?a t \<Longrightarrow> d' = dial_time cx ?a t"
    using c by (auto simp: connect_attempt_def Let_def split: option.splits)
qed

text \<open>How many of the attempts in a log, from the attempt \<open>n\<close> on, got a socket.\<close>

fun sockets :: "go_context \<Rightarrow> (nat \<Rightarrow> ws_answer) \<Rightarrow> nat \<Rightarrow> (time \<times> (go_error + ws_event)) list \<Rightarrow> nat" where
  "sockets cx answers n [] = 0"
| "sockets cx answers n ((t, r) # log) = (if dials cx (answers n) t then 1 else 0) + sockets cx answers (Suc n) log"

definition conns_after :: "(go_error + ws_event) \<Rightarrow> wsclient \<Rightarrow> nat \<Rightarrow> bool" where
  "conns_after r w k = (case r of Inl err \<Rightarrow> failed_conns w k | Inr x \<Rightarrow> 0 < k \<and> connected_conns w (k - 1))"

lemma paced_all: "paced_log cx n log \<Longrightarrow> (start, r) \<in> set log \<Longrightarrow> ctx_Err cx start = None"
  by (induction cx n log rule: paced_log.induct) auto

lemma dial_ends: "cx_deadline cx = Some D \<Longrightarrow> t < D \<Longrightarrow> t + int (dial_time cx a t) \<le> D"
  by (auto simp: dial_time_def ctx_end_def split: option.splits)

lemma connect_run:
  assumes "retry_loop cx (connect_attempt error_of cx True answers) n t b l s = Some (r, log, t', w)" "failed_conns s k"
  shows "conns_after r w (k + sockets cx answers n log) \<and>
    (\<forall>D. cx_deadline cx = Some D \<and> b \<le> 1200 * Millisecond \<and> (\<forall>n d. wa_auth (answers n) = Some d \<longrightarrow> d \<le> most) \<longrightarrow>
      t' \<le> max t (D + int most + 1200 * Millisecond))"
proof -
  have "f' = connect_attempt error_of cx True answers \<longrightarrow> cx' = cx \<longrightarrow> (\<forall>k. failed_conns s k \<longrightarrow> (case res of (r, log, t', w) \<Rightarrow>
      conns_after r w (k + sockets cx answers n log) \<and>
      (\<forall>D. cx_deadline cx = Some D \<and> b \<le> 1200 * Millisecond \<and> (\<forall>n d. wa_auth (answers n) = Some d \<longrightarrow> d \<le> most) \<longrightarrow>
        t' \<le> max t (D + int most + 1200 * Millisecond))))"
    if A: "retry_loop cx' f' n t b l s = Some res" for cx' f' n t b l s res
  proof (rule retry_loop.raw_induct[where P = "\<lambda>cx' f' n t b l s res. f' = connect_attempt error_of cx True answers \<longrightarrow> cx' = cx \<longrightarrow>
      (\<forall>k. failed_conns s k \<longrightarrow> (case res of (r, log, t', w) \<Rightarrow> conns_after r w (k + sockets cx answers n log) \<and>
        (\<forall>D. cx_deadline cx = Some D \<and> b \<le> 1200 * Millisecond \<and> (\<forall>n d. wa_auth (answers n) = Some d \<longrightarrow> d \<le> most) \<longrightarrow>
          t' \<le> max t (D + int most + 1200 * Millisecond))))", OF _ A], goal_cases)
    case (1 loop cx' f' n t b l s res)
    show ?case
    proof (intro impI allI)
      fix k
      assume f': "f' = connect_attempt error_of cx True answers" and cx': "cx' = cx" and k: "failed_conns s k"
      let ?goal = "case res of (r, log, t', w) \<Rightarrow> conns_after r w (k + sockets cx answers n log) \<and>
        (\<forall>D. cx_deadline cx = Some D \<and> b \<le> 1200 * Millisecond \<and> (\<forall>n d. wa_auth (answers n) = Some d \<longrightarrow> d \<le> most) \<longrightarrow>
          t' \<le> max t (D + int most + 1200 * Millisecond))"
      show ?goal
      proof (cases "ctx_Err cx t")
        case (Some e)
        with 1(2) f' cx' k show ?thesis by (auto simp: conns_after_def)
      next
        case None
        with 1(2) f' cx' obtain r d s1 where f: "connect_attempt error_of cx True answers n t s = Some (r, d, s1)"
          by (auto simp: bind_eq_Some_conv)
        note st = connect_attempt_state[OF k f]
        have took: "int d + t \<le> D + int most" if "cx_deadline cx = Some D" "\<forall>n d. wa_auth (answers n) = Some d \<longrightarrow> d \<le> most" for D
        proof -
          have "t + int (dial_time cx (answers n) t) \<le> D" using dial_ends[OF that(1)] ctx_live[OF None that(1)] by simp
          moreover have "d \<le> dial_time cx (answers n) t + most"
          proof (cases "dials cx (answers n) t")
            case True
            then obtain d1 where "wa_auth (answers n) = Some d1" using f by (auto simp: connect_attempt_def Let_def split: option.splits)
            then show ?thesis using st(2)[OF True] that(2) by fastforce
          qed (use st(3) in simp)
          ultimately show ?thesis by simp
        qed
        show ?thesis
        proof (cases "\<exists>err. r = Inl err \<and> IsRetryableError err")
          case False
          with 1(2) None f f' cx' have "res = (r, [(t, r)], t + int d, s1)" by (auto split: sum.splits)
          then show ?thesis using st(1) took by (fastforce simp: conns_after_def split: sum.splits)
        next
          case True
          then obtain err where err: "r = Inl err" "IsRetryableError err" by blast
          with 1(2) None f f' cx' obtain r1 log t' s2 where
            L: "loop cx f' (n + 1) (t + int d + b) (next_backoff b) (Some err) s1 = Some (r1, log, t', s2)"
            and res: "res = (r1, (t, Inl err) # log, t', s2)" by (auto simp: bind_eq_Some_conv)
          have k1: "failed_conns s1 (k + (if dials cx (answers n) t then 1 else 0))" using st(1) err by simp
          have ih: "conns_after r1 s2 (k + (if dials cx (answers n) t then 1 else 0) + sockets cx answers (n + 1) log) \<and>
              (\<forall>D. cx_deadline cx = Some D \<and> next_backoff b \<le> 1200 * Millisecond \<and> (\<forall>n d. wa_auth (answers n) = Some d \<longrightarrow> d \<le> most) \<longrightarrow>
                t' \<le> max (t + int d + b) (D + int most + 1200 * Millisecond))"
            using 1(1)[OF L[unfolded f'], THEN mp, OF refl, THEN mp, OF refl, rule_format, OF k1] by simp
          have "b \<le> 1200 * Millisecond \<Longrightarrow> next_backoff b \<le> 1200 * Millisecond" by (simp add: next_backoff_def)
          then have "t' \<le> max t (D + int most + 1200 * Millisecond)"
            if "cx_deadline cx = Some D" "b \<le> 1200 * Millisecond" "\<forall>n d. wa_auth (answers n) = Some d \<longrightarrow> d \<le> most" for D
            using ih that took[OF that(1,3)] by fastforce
          then show ?thesis using ih by (auto simp: res add.assoc)
        qed
      qed
    qed
  qed
  from this[OF assms(1)] assms(2) show ?thesis by simp
qed

lemma connecting_returns:
  assumes "cx_deadline cx = Some D" "\<And>n. wa_dialled (answers n) \<Longrightarrow> wa_auth (answers n) \<noteq> None" "failed_conns w k"
  shows "retries cx (connect_attempt error_of cx True answers) t w \<noteq> None"
proof -
  let ?f = "connect_attempt error_of cx True answers"
  have "\<exists>r d s'. ?f n t s = Some (r, d, s') \<and> (\<forall>err. r = Inl err \<longrightarrow> (\<exists>k. failed_conns s' k))" if "\<exists>k. failed_conns s k" for n t s
  proof -
    from that obtain k where k: "failed_conns s k" ..
    then have "?f n t s \<noteq> None"
      using assms(2)[of n] by (intro connect_attempt_total) (simp_all add: failed_conns_def)
    then obtain r d s1 where f: "?f n t s = Some (r, d, s1)" by auto
    with connect_attempt_state(1)[OF k f] show ?thesis by (auto split: sum.splits)
  qed
  moreover have "\<exists>k. failed_conns w k" using assms(3) by blast
  ultimately obtain r log t' s' where "retries cx ?f t w = Some (r, log, t', s')"
    using retries_ok[OF assms(1), of "\<lambda>s. \<exists>k. failed_conns s k" ?f w t] by blast
  then show ?thesis by simp
qed

text \<open>C33: connecting retries until the deadline, and leaks a socket for every attempt that got one and failed. The deadline bounds the start of every attempt and its dialling, not the read
  of the coordinator's answer: when connecting does not return, some attempt was dialled and its answer never comes, and the first attempt is enough for that, whatever
  the deadline. When it returns, a success stores the connection of the last attempt, and a failure that is not final comes when
  the context has ended; every other socket that was opened is left open where nothing closes it. It returns by the deadline and the longest wait for an answer
  and the longest pause of 1.2 s.\<close>

theorem connecting_leaks_sockets:
  assumes "cx_deadline cx = Some D"
  shows "(case connectWsWithRetries error_of cx True answers t newWsClient of
      None \<Rightarrow> \<exists>n. wa_dialled (answers n) \<and> wa_auth (answers n) = None
    | Some (r, log, t', w) \<Rightarrow>
       list_all (\<lambda>(start, r). start < D) log \<and>
       (case r of
          Inr e \<Rightarrow> 0 < sockets cx answers 0 log \<and> wc_conn w = Some (sockets cx answers 0 log - 1) \<and> leaked w = {..<sockets cx answers 0 log - 1}
        | Inl err \<Rightarrow> wc_conn w = None \<and> leaked w = {..<sockets cx answers 0 log} \<and> (IsRetryableError err \<and> log \<noteq> [] \<longrightarrow> ctx_Err cx t' \<noteq> None)) \<and>
       (\<forall>most. (\<forall>n d. wa_auth (answers n) = Some d \<longrightarrow> d \<le> most) \<longrightarrow> t' \<le> max t (D + int most + 1200 * Millisecond))) \<and>
    (ctx_Err cx t = None \<and> dials cx (answers 0) t \<and> wa_auth (answers 0) = None \<longrightarrow>
      connectWsWithRetries error_of cx True answers t newWsClient = None)"
proof (rule conjI)
  let ?f = "connect_attempt error_of cx True answers"
  have new: "failed_conns newWsClient 0"
    by (simp add: failed_conns_def newWsClient_def registry_ok_def store_wf_def NewStore_def leaked_def)
  show "case connectWsWithRetries error_of cx True answers t newWsClient of
      None \<Rightarrow> \<exists>n. wa_dialled (answers n) \<and> wa_auth (answers n) = None
    | Some (r, log, t', w) \<Rightarrow>
       list_all (\<lambda>(start, r). start < D) log \<and>
       (case r of
          Inr e \<Rightarrow> 0 < sockets cx answers 0 log \<and> wc_conn w = Some (sockets cx answers 0 log - 1) \<and> leaked w = {..<sockets cx answers 0 log - 1}
        | Inl err \<Rightarrow> wc_conn w = None \<and> leaked w = {..<sockets cx answers 0 log} \<and> (IsRetryableError err \<and> log \<noteq> [] \<longrightarrow> ctx_Err cx t' \<noteq> None)) \<and>
       (\<forall>most. (\<forall>n d. wa_auth (answers n) = Some d \<longrightarrow> d \<le> most) \<longrightarrow> t' \<le> max t (D + int most + 1200 * Millisecond))"
  proof (cases "connectWsWithRetries error_of cx True answers t newWsClient")
    case None
    have "\<exists>n. wa_dialled (answers n) \<and> wa_auth (answers n) = None"
    proof (rule ccontr)
      assume "\<not> ?thesis"
      then have answered: "wa_auth (answers n) \<noteq> None" if "wa_dialled (answers n)" for n using that by (metis (full_types))
      from connecting_returns[where answers = answers and error_of = error_of and t = t, OF assms answered new] None show False by (simp add: connectWsWithRetries_def)
    qed
    then show ?thesis using None by simp
  next
    case (Some res)
    obtain r log t' w where res: "res = (r, log, t', w)" by (cases res) auto
    have run: "retry_loop cx ?f 0 t (wait_after 0) None newWsClient = Some (r, log, t', w)"
      using Some by (simp add: connectWsWithRetries_def retries_def res wait_after_0)
    have spec: "retry_spec cx 0 t None (r, log, t', w)" using retry_loop_spec[OF run] by simp
    then have "paced_log cx 0 log" by (simp add: retry_spec_def)
    then have "list_all (\<lambda>(start, r). start < D) log"
      using paced_all[of cx 0 log] ctx_live[OF _ assms] by (auto simp: list_all_iff)
    moreover have "conns_after r w (sockets cx answers 0 log)" using connect_run[OF run new] by simp
    moreover have "t' \<le> max t (D + int most + 1200 * Millisecond)" if "\<forall>n d. wa_auth (answers n) = Some d \<longrightarrow> d \<le> most" for most
      using connect_run[OF run new, of most] assms that by (simp add: wait_after_def)
    ultimately show ?thesis
      using spec Some by (cases r) (auto simp: res conns_after_def failed_conns_def connected_conns_def retry_spec_def)
  qed
  show "ctx_Err cx t = None \<and> dials cx (answers 0) t \<and> wa_auth (answers 0) = None \<longrightarrow>
      connectWsWithRetries error_of cx True answers t newWsClient = None"
    unfolding connectWsWithRetries_def retries_def by (subst retry_loop.simps) (simp add: connect_attempt_def)
qed

text \<open>A coordinator that cannot be dialled at first, then refuses the message, then answers; and one that accepts and says nothing.\<close>

definition third_time :: "nat \<Rightarrow> ws_answer" where
  "third_time n = \<lparr>wa_dialled = n > 0, wa_dial = 1, wa_written = n > 1,
     wa_response = Message \<lparr>we_kind = ConnectedEvent, we_CallCid = [], we_payload = 0\<rparr>, wa_auth = Some 2\<rparr>"

definition silent :: "nat \<Rightarrow> ws_answer" where
  "silent n = \<lparr>wa_dialled = True, wa_dial = 1, wa_written = True, wa_response = DecodeError, wa_auth = None\<rparr>"

theorem connecting_leaks_sockets_witness:
  "(\<exists>log w. connectWsWithRetries (\<lambda>e. (0, [])) five_seconds True third_time 0 newWsClient =
     Some (Inr \<lparr>we_kind = ConnectedEvent, we_CallCid = [], we_payload = 0\<rparr>, log, 300000007, w) \<and> length log = 3 \<and> wc_conn w = Some 1 \<and> leaked w = {0}) \<and>
   connectWsWithRetries (\<lambda>e. (0, [])) five_seconds True silent 0 newWsClient = None"
proof
  let ?run = "connectWsWithRetries (\<lambda>e. (0, [])) five_seconds True third_time 0 newWsClient"
  let ?f = "connect_attempt (\<lambda>e. (0, [])) five_seconds True third_time"
  let ?w = "newWsClient\<lparr>wc_closed := [False]\<rparr>"
  have live: "ctx_Err five_seconds t = None" if "t < 5 * Second" for t using that by (simp add: ctx_Err_def reached_def five_seconds_def)
  have dial: "dial_time five_seconds (third_time n) t = 1" if "t < 4 * Second" for n t
    using that by (simp add: dial_time_def ctx_end_def five_seconds_def third_time_def)
  have dialled: "dials five_seconds (third_time n) t \<longleftrightarrow> n > 0" if "t < 4 * Second" for n t
    using that by (simp add: dials_def third_time_def live)
  have third: "wa_auth (third_time n) = Some 2" "wa_written (third_time n) \<longleftrightarrow> n > 1"
      "wa_response (third_time n) = Message \<lparr>we_kind = ConnectedEvent, we_CallCid = [], we_payload = 0\<rparr>" for n
    by (simp_all add: third_time_def)
  have f0: "?f 0 0 newWsClient = Some (Inl (Wrapf (OtherError ''dial'') ''dial''), 1, newWsClient)"
    by (simp add: connect_attempt_def dialled dial Connect_coordinator_def)
  have f1: "?f (Suc 0) 100000001 newWsClient = Some (Inl (Wrapf (OtherError ''write'') ''send auth message''), 3, ?w)"
    by (simp add: connect_attempt_def dialled dial third Connect_coordinator_def newWsClient_def)
  have "registry_ok (wc_registry ?w)" "wc_conn ?w = None"
    by (simp_all add: newWsClient_def registry_ok_def store_wf_def NewStore_def)
  from connect_coordinator_ok[OF this, of "\<lambda>e. (0, [])" True True True "wa_response (third_time 2)" "300000007"]
  obtain w where f2: "?f (Suc (Suc 0)) 300000004 ?w = Some (Inr \<lparr>we_kind = ConnectedEvent, we_CallCid = [], we_payload = 0\<rparr>, 3, w)"
    by (simp add: connect_attempt_def dialled dial third Let_def answer_of_def) auto
  let ?e = "\<lparr>we_kind = ConnectedEvent, we_CallCid = [], we_payload = 0\<rparr>"
  let ?log = "[(0, Inl (Wrapf (OtherError ''dial'') ''dial'')), (100000001, Inl (Wrapf (OtherError ''write'') ''send auth message'')), (300000004, Inr ?e)]"
  have run: "?run = Some (Inr ?e, ?log, 300000007, w)"
    unfolding connectWsWithRetries_def retries_def
    by (subst retry_loop.simps, subst retry_loop.simps, subst retry_loop.simps)
       (simp add: live f0 f1 f2 IsRetryableError_def Wrapf_def next_backoff_def)
  have "sockets five_seconds third_time 0 ?log = 2" by (simp add: dialled)
  then obtain log where run: "?run = Some (Inr ?e, log, 300000007, w)" "length log = 3" "sockets five_seconds third_time 0 log = 2"
    using run by simp
  have "leaked w = {0} \<and> wc_conn w = Some 1"
    using connecting_leaks_sockets[of five_seconds "5 * Second", where error_of = "\<lambda>e. (0, [])" and answers = third_time and t = 0] run
    by (auto simp: five_seconds_def)
  with run show "\<exists>log w. ?run = Some (Inr \<lparr>we_kind = ConnectedEvent, we_CallCid = [], we_payload = 0\<rparr>, log, 300000007, w) \<and>
      length log = 3 \<and> wc_conn w = Some 1 \<and> leaked w = {0}" by blast
  have "ctx_Err five_seconds 0 = None \<and> dials five_seconds (silent 0) 0 \<and> wa_auth (silent 0) = None"
    by (simp add: ctx_Err_def reached_def five_seconds_def dials_def silent_def)
  then show "connectWsWithRetries (\<lambda>e. (0, [])) five_seconds True silent 0 newWsClient = None"
    using connecting_leaks_sockets[of five_seconds "5 * Second", where error_of = "\<lambda>e. (0, [])" and answers = silent and t = 0] by (simp add: five_seconds_def)
qed

text \<open>A client whose coordinator options switch the websocket off does not connect. Only \<open>WithoutCoordinatorWS\<close> keeps the client from connecting; if the websocket is switched off among the coordinator's
  options instead, every attempt fails with an error that counts as worth retrying, and the construction fails only when the
  connect timeout has passed.\<close>

theorem disabled_websocket_times_out:
  assumes "p = apply_client_options opts" and "op_withCoordinatorWS p" and "\<not> co_enableWs (apply_coord_options (op_coordinatorOptions p))"
    and "0 < op_connectTimeout p" and "apiKey \<noteq> []" and "token (us_ID user) = Inr tok" and "ce_parse E (co_wsURL (apply_coord_options (op_coordinatorOptions p))) = Some u"
  shows "NewClient E apiKey user (Some token) opts = Some (Inl (OtherError ''ws client is nil'')) \<and>
    (\<exists>log t' w. connectWsWithRetries (ce_error_of E) \<lparr>cx_deadline = Some (ce_now E + op_connectTimeout p), cx_cancelled = None\<rparr> False
        (ce_answers E) (ce_now E) newWsClient = Some (Inl (OtherError ''ws client is nil''), log, t', w) \<and> ce_now E + op_connectTimeout p \<le> t')"
proof -
  let ?cx = "\<lparr>cx_deadline = Some (ce_now E + op_connectTimeout p), cx_cancelled = None\<rparr>"
  let ?f = "connect_attempt (ce_error_of E) ?cx False (ce_answers E)"
  let ?nil = "OtherError ''ws client is nil''"
  have f: "?f n t s = Some (Inl ?nil, 0, s)" for n t s
    by (simp add: connect_attempt_def Connect_coordinator_def Let_def)
  obtain r log t' w where r: "retries ?cx ?f (ce_now E) newWsClient = Some (r, log, t', w)"
    "if log = [] then r = Inl (the (ctx_Err ?cx (ce_now E))) else r = snd (last log)"
    "\<forall>err. r = Inl err \<and> IsRetryableError err \<and> log \<noteq> [] \<longrightarrow> ctx_Err ?cx t' \<noteq> None"
    using retries_ok[where P = "\<lambda>_. True" and f = ?f and cx = ?cx and s = newWsClient and t = "ce_now E"] f by fastforce
  have all: "list_all (\<lambda>(t, r). r = Inl ?nil) log"
    using retry_loop_state[where Q = "\<lambda>r. r = Inl ?nil" and I = "\<lambda>_ _. True" and J = "\<lambda>_ _. True" and f = ?f, OF _ r(1)[unfolded retries_def]] f by auto
  have live: "ctx_Err ?cx (ce_now E) = None" using assms(4) by (simp add: ctx_Err_def reached_def)
  have ne: "log \<noteq> []"
    using no_call_made[of ?cx ?f "ce_now E" newWsClient r t' w] r(1) live by auto
  with r(2) all have ri: "r = Inl ?nil" by (cases log rule: rev_cases) auto
  then have "ctx_Err ?cx t' \<noteq> None" using r(3) ne by (simp add: IsRetryableError_def)
  then have t': "ce_now E + op_connectTimeout p \<le> t'" by (auto simp: ctx_Err_def reached_def split: if_splits)
  have "NewCoordClient (ce_parse E) apiKey uid (\<lambda>_. Inr tok) (op_coordinatorOptions p) =
      Inr \<lparr>cc_options = apply_coord_options (op_coordinatorOptions p), cc_apiKey = apiKey, cc_userID = uid, cc_token = Some tok, cc_ws = None\<rparr>" for uid
    using assms(3,7) by (simp add: NewCoordClient_def Let_def)
  then have "NewClient E apiKey user (Some token) opts = Some (Inl ?nil)"
    using assms(2,5,6) r(1) ri by (simp add: NewClient_def new_client_of_def Let_def connectWsWithRetries_def flip: assms(1))
  then show ?thesis using r(1) ri t' by (auto simp: connectWsWithRetries_def)
qed

definition test_env :: client_env where
  "test_env = \<lparr>ce_parse = (\<lambda>s. Some \<lparr>ur_base = s, ur_query = []\<rparr>), ce_claims = (\<lambda>_. None), ce_error_of = (\<lambda>_. (0, [])),
     ce_connection_id = (\<lambda>_. ''c1''), ce_answers = third_time, ce_now = 0\<rparr>"

theorem disabled_websocket_times_out_witness:
  "NewClient test_env ''key'' \<lparr>us_ID = ''ann'', us_Name = [], us_Type = []\<rparr> (Some (\<lambda>_. Inr ''jwt'')) [WithCoordinatorOptions [WithoutWebsocket]] =
     Some (Inl (OtherError ''ws client is nil''))"
  using disabled_websocket_times_out[OF refl, of "[WithCoordinatorOptions [WithoutWebsocket]]" "''key''" "\<lambda>_. Inr ''jwt''"
      "\<lparr>us_ID = ''ann'', us_Name = [], us_Type = []\<rparr>" "''jwt''" test_env]
  by (simp add: apply_client_options_def WithCoordinatorOptions_def defaultClientOptions_def apply_coord_options_def WithoutWebsocket_def
      defaultCoordOptions_def test_env_def)

section \<open>Location and credentials\<close>

text \<open>A location that has been found, or not found, is kept: the cache is never empty afterwards, so the fallback stays for the life of the client.\<close>

lemma location_found_once:
  assumes "rc_locationDiscovery c \<noteq> None" "detectLocationCached builds reply c = (loc, n, c1)"
  shows "loc \<noteq> [] \<and> rc_locationCache c1 = loc \<and> detectLocationCached builds2 reply2 c1 = (loc, 0, c1)"
proof -
  have "length (fst (Discover builds reply d)) = 3" for d
    using discover_loop_result[of reply 0] by (simp add: Discover_def FallbackLocationName_def)
  then have "Discover builds reply d \<noteq> ([], m)" for d m by (metis fst_conv list.size(3) zero_neq_numeral)
  then show ?thesis using assms by (auto simp: detectLocationCached_def Let_def split: if_splits prod.splits option.splits)
qed

text \<open>C34: the credentials of a call. After a join, asking for credentials without a reload or an edge to avoid answers with those of the join and sends nothing. Otherwise the join is
  repeated, with the edge to avoid named as the one migrated from and everything else as it was, the flags that ring and notify included, at
  most seven times within five seconds, and the answer is that of the last attempt. The location in the request is the caller's, or the
  one discovered.\<close>

theorem credentials_of_a_join:
  assumes "joinCoordinator_client E0 order builds reply cx ty ident req t0 c = Some (Inr g, c1)"
  shows "getCred creds E order g False [] t c1 = Some (Inr (creds (gc_result g)), []) \<and>
    gc_request g = req\<lparr>jr_Location := jr_Location (gc_request g)\<rparr> \<and> (jr_Location req \<noteq> [] \<longrightarrow> gc_request g = req) \<and>
    (force \<or> avoid \<noteq> [] \<longrightarrow>
      (\<exists>r log t' s res. connectWithRetries E order \<lparr>cx_deadline = Some (t + 5 * Second), cx_cancelled = None\<rparr> ty ident
           ((gc_request g)\<lparr>jr_MigratingFrom := (if avoid = [] then jr_MigratingFrom (gc_request g) else Some avoid)\<rparr>) t c1 = Some (r, log, t', s) \<and>
         getCred creds E order g force avoid t c1 = Some (res, log) \<and> 1 \<le> length log \<and> length log \<le> 7 \<and>
         res = (case snd (last log) of Inl err \<Rightarrow> Inl err | Inr resp \<Rightarrow> Inr (creds resp))))"
proof -
  have g: "gc_type g = ty" "gc_id g = ident" "gc_request g = req\<lparr>jr_Location := jr_Location (gc_request g)\<rparr>" "jr_Location req \<noteq> [] \<longrightarrow> gc_request g = req"
  proof -
    obtain req' c2 where p: "(if jr_Location req = [] \<and> op_detectLocation (rc_options c) then
        (case detectLocationCached builds reply c of (loc, n, c) \<Rightarrow> (req\<lparr>jr_Location := loc\<rparr>, c)) else (req, c)) = (req', c2)" by fastforce
    have q: "req' = req\<lparr>jr_Location := jr_Location req'\<rparr>" "jr_Location req \<noteq> [] \<longrightarrow> req' = req"
      using p by (auto split: if_splits prod.splits)
    obtain r log t' s where "connectWithRetries E0 order cx ty ident req' t0 c2 = Some (r, log, t', s)"
      "(case r of Inl err \<Rightarrow> Inl err | Inr result \<Rightarrow> Inr \<lparr>gc_result = result, gc_type = ty, gc_id = ident, gc_request = req'\<rparr>) = Inr g"
      using assms unfolding joinCoordinator_client_def Let_def p by auto
    then have "gc_type g = ty \<and> gc_id g = ident \<and> gc_request g = req'" by (cases r) auto
    with q show "gc_type g = ty" "gc_id g = ident" "gc_request g = req\<lparr>jr_Location := jr_Location (gc_request g)\<rparr>"
      "jr_Location req \<noteq> [] \<longrightarrow> gc_request g = req" by auto
  qed
  have cached: "getCred creds E order g False [] t c1 = Some (Inr (creds (gc_result g)), [])" by (simp add: getCred_def)
  let ?cx = "\<lparr>cx_deadline = Some (t + 5 * Second), cx_cancelled = None\<rparr>"
  let ?req = "(gc_request g)\<lparr>jr_MigratingFrom := (if avoid = [] then jr_MigratingFrom (gc_request g) else Some avoid)\<rparr>"
  define f :: "(unit, _) call_fun" where
    "f = (\<lambda>n t s. let (R, d) = E n in Some (JoinCall R order (rc_coordinator c1) ty ident ?req (Some (rc_ConnectionID c1)), d, s))"
  have f: "\<exists>r d s'. f n t s = Some (r, d, s') \<and> (\<forall>err. r = Inl err \<longrightarrow> True)" for n t s by (simp add: f_def split: prod.splits)
  have live: "ctx_Err ?cx t = None" by (simp add: ctx_Err_def reached_def)
  obtain r log t' s where r: "retries ?cx f t () = Some (r, log, t', s)" "log \<noteq> [] \<longrightarrow> r = snd (last log)" "length log \<le> 7"
    using retries_ok[of ?cx "t + 5 * Second" "\<lambda>_. True" f "()" t] f by auto
  have ne: "log \<noteq> []"
    using no_call_made[of ?cx f t "()" r t' s] r(1) live by auto
  have cw: "connectWithRetries E order ?cx ty ident ?req t c1 = Some (r, log, t', s)" using r(1) by (simp add: connectWithRetries_def f_def)
  have same: "(gc_request g)\<lparr>jr_MigratingFrom := jr_MigratingFrom (gc_request g)\<rparr> = gc_request g" by simp
  have "getCred creds E order g force avoid t c1 = Some (case snd (last log) of Inl err \<Rightarrow> Inl err | Inr resp \<Rightarrow> Inr (creds resp), log)"
    if "force \<or> avoid \<noteq> []"
    using that cw r(2) ne by (auto simp: getCred_def g(1,2) Let_def)
  with g cached cw ne r(3) show ?thesis by (auto simp: Suc_le_eq)
qed

definition ok_rest :: "(JoinCallRequest, string) rest" where
  "ok_rest = \<lparr>re_Parse = (\<lambda>s. Some \<lparr>ur_base = s, ur_query = []\<rparr>), re_Marshal = (\<lambda>req. Some (jr_Location req)), re_builds = (\<lambda>_. True),
     re_Do = (\<lambda>r. Inr (200, ''joined'')), re_Decode = Inr, re_APIError = (\<lambda>body. None)\<rparr>"

definition test_rtc_client :: rtc_client where
  "test_rtc_client = \<lparr>rc_apiKey = ''key'', rc_token = ''jwt'', rc_locationCache = ''AMS'', rc_locationDiscovery = Some (NewCloudFrontDiscovery [] 3),
     rc_server = False, rc_options = defaultClientOptions, rc_coordinator = test_client, rc_ws = newWsClient,
     rc_User = \<lparr>us_ID = ''ann'', us_Name = [], us_Type = []\<rparr>, rc_UserID = ''ann'', rc_ConnectionID = ''c1''\<rparr>"

definition test_join :: JoinCallRequest where
  "test_join = \<lparr>jr_Create = True, jr_Ring = True, jr_Notify = False, jr_Location = [], jr_MembersLimit = None, jr_E2Ee = None, jr_MigratingFrom = None\<rparr>"

theorem credentials_of_a_join_witness:
  "\<exists>g. joinCoordinator_client (\<lambda>_. (ok_rest, 1)) True True (\<lambda>_. None) five_seconds ''default'' ''a'' test_join 0 test_rtc_client = Some (Inr g, test_rtc_client) \<and>
     jr_Location (gc_request g) = ''AMS'' \<and> jr_Ring (gc_request g) \<and>
     getCred (\<lambda>r. \<lparr>cr_EdgeName = r, cr_URL = [], cr_WsEndpoint = [], cr_Token = []\<rparr>) (\<lambda>_. (ok_rest, 1)) True g False [] 9 test_rtc_client =
       Some (Inr \<lparr>cr_EdgeName = ''joined'', cr_URL = [], cr_WsEndpoint = [], cr_Token = []\<rparr>, [])"
proof -
  have live: "ctx_Err five_seconds 0 = None" by (simp add: ctx_Err_def reached_def five_seconds_def)
  have t: "tdiv 200 100 = 2" by (simp add: tdiv_nonneg)
  let ?g = "\<lparr>gc_result = ''joined'', gc_type = ''default'', gc_id = ''a'', gc_request = test_join\<lparr>jr_Location := ''AMS''\<rparr>\<rparr>"
  have "JoinCall ok_rest True c ''default'' ''a'' req conn = Inr ''joined''" for c req conn
    by (simp add: JoinCall_def makeRequest_def ok_rest_def t)
  then have j: "joinCoordinator_client (\<lambda>_. (ok_rest, 1)) True True (\<lambda>_. None) five_seconds ''default'' ''a'' test_join 0 test_rtc_client = Some (Inr ?g, test_rtc_client)"
    by (simp add: joinCoordinator_client_def test_join_def test_rtc_client_def defaultClientOptions_def detectLocationCached_def
        connectWithRetries_def retries_def retry_loop.simps[of five_seconds] live)
  from credentials_of_a_join[OF j, of "\<lambda>r. \<lparr>cr_EdgeName = r, cr_URL = [], cr_WsEndpoint = [], cr_Token = []\<rparr>" "\<lambda>_. (ok_rest, 1)" 9 False "[]"] j
  show ?thesis by (intro exI[of _ ?g]) (simp add: test_join_def)
qed

end
