(* ===== verification/Nack.thy ===== *)
theory Nack
  imports Prelude
begin

text \<open>
  Retransmission on NACK, \<open>internal/nack/responder_interceptor.go\<close>: the ring buffer of sent packets,
  the reference-counted packets in it, the factory that copies a packet and rewrites it for RTX,
  and the responder that decides for each requested sequence number whether to send it again.
  Packets are shared between the buffer and the resends under way, so they live in a heap (a
  list, an address is an index) and the buffer holds addresses. A resend takes three steps in the
  code, a locked decision, the write outside the lock and the release, and the step relation
  interleaves them with new packets in any order. The RTP writer, the RTX sequencer and the
  parsing of RTCP are pion's: the writes are recorded, the other two are arguments.
\<close>

section \<open>Packets\<close>

definition uint16SizeHalf :: uint16 where "uint16SizeHalf = 0x8000"
definition maxPayloadLen :: nat where "maxPayloadLen = 1460"
definition rtxSSRCByteLength :: nat where "rtxSSRCByteLength = 2"

datatype nack_error = ErrInvalidSize | errPacketReleased | errPaddingOverflow | ErrShortBuffer

record retainablePacket =
  rp_count :: int
  rp_header :: "rtp_header option"
  rp_payload :: "byte list"
  rp_sequenceNumber :: uint16
  rp_sentAt :: time
  rp_lastResendAt :: "time option"
  rp_resendCount :: uint8

definition Retain :: "retainablePacket \<Rightarrow> nack_error + retainablePacket" where
  "Retain p = (if rp_count p = 0 then Inl errPacketReleased
               else Inr (p\<lparr>rp_count := rp_count p + 1\<rparr>))"

definition Release :: "retainablePacket \<Rightarrow> retainablePacket" where
  "Release p =
    (let p = p\<lparr>rp_count := rp_count p - 1\<rparr> in
     if rp_count p = 0 then p\<lparr>rp_header := None, rp_payload := []\<rparr> else p)"

text \<open>\<open>packetFactoryCopy.NewPacket\<close>. The payload is \<open>None\<close> for a nil slice; \<open>nextSeq\<close> is what the RTX
  sequencer returns. The pooled buffer is \<open>maxPayloadLen\<close> bytes, which is what \<open>copy\<close> truncates to.\<close>

definition NewPacket ::
    "rtp_header \<Rightarrow> byte list option \<Rightarrow> uint32 \<Rightarrow> uint8 \<Rightarrow> uint16 \<Rightarrow> time \<Rightarrow> nack_error + retainablePacket"
where
  "NewPacket header payload rtxSSRC rtxPayloadType nextSeq now =
    (let n = (case payload of None \<Rightarrow> 0 | Some b \<Rightarrow> length b);
         rtx = (rtxSSRC \<noteq> 0 \<and> rtxPayloadType \<noteq> 0);
         packet = \<lparr>rp_count = 1, rp_header = Some header, rp_payload = [],
           rp_sequenceNumber = SequenceNumber header, rp_sentAt = now, rp_lastResendAt = None,
           rp_resendCount = 0\<rparr>
     in if n > maxPayloadLen then Inl ErrShortBuffer
     else if \<not> rtx then
       Inr (packet\<lparr>rp_payload := (case payload of None \<Rightarrow> [] | Some b \<Rightarrow> take maxPayloadLen b)\<rparr>)
     else
       let copied = (case payload of None \<Rightarrow> []
                     | Some b \<Rightarrow> take (maxPayloadLen - rtxSSRCByteLength) b);
           pl = be_bytes16 (SequenceNumber header) @ copied;
           header1 = header\<lparr>SSRC := rtxSSRC, PayloadType := rtxPayloadType, SequenceNumber := nextSeq\<rparr>
       in if \<not> Padding header then Inr (packet\<lparr>rp_header := Some header1, rp_payload := pl\<rparr>)
       else
         let header2 = header1\<lparr>Padding := False, PaddingSize := 0\<rparr> in
         if PaddingSize header = 0 \<and> length pl > 0 then
           let paddingLength = unat (last pl) in
           if paddingLength > length pl then Inl errPaddingOverflow
           else Inr (packet\<lparr>rp_header := Some header2,
                            rp_payload := take (length pl - paddingLength) pl\<rparr>)
         else Inr (packet\<lparr>rp_header := Some header2, rp_payload := pl\<rparr>))"

text \<open>\<open>packetFactoryNoOp.NewPacket\<close> keeps the caller's header and payload.\<close>

definition NewPacketNoOp ::
    "rtp_header \<Rightarrow> byte list option \<Rightarrow> time \<Rightarrow> nack_error + retainablePacket" where
  "NewPacketNoOp header payload now =
     Inr \<lparr>rp_count = 1, rp_header = Some header,
       rp_payload = (case payload of None \<Rightarrow> [] | Some b \<Rightarrow> b),
       rp_sequenceNumber = SequenceNumber header, rp_sentAt = now, rp_lastResendAt = None,
       rp_resendCount = 0\<rparr>"

section \<open>The ring buffer\<close>

type_synonym pheap = "retainablePacket list"

record rtpBuffer =
  rb_packets :: "nat option list"
  rb_size :: uint16
  rb_highestAdded :: uint16
  rb_started :: bool

definition newRTPBuffer :: "uint16 \<Rightarrow> nack_error + rtpBuffer" where
  "newRTPBuffer sz =
    (if list_ex (\<lambda>i. sz = push_bit i 1) [0..<16] then
       Inr \<lparr>rb_packets = replicate (unat sz) None, rb_size = sz, rb_highestAdded = 0,
            rb_started = False\<rparr>
     else Inl ErrInvalidSize)"

definition slot :: "rtpBuffer \<Rightarrow> uint16 \<Rightarrow> nat" where
  "slot r s = unat (s mod rb_size r)"

definition release_at :: "pheap \<Rightarrow> nat \<Rightarrow> pheap" where
  "release_at h a = h[a := Release (h ! a)]"

text \<open>Release what a slot holds and put a new address (or nil) there.\<close>

definition put_slot :: "pheap \<times> rtpBuffer \<Rightarrow> nat \<Rightarrow> nat option \<Rightarrow> pheap \<times> rtpBuffer" where
  "put_slot hr idx new =
    (let (h, r) = hr in
     ((case rb_packets r ! idx of None \<Rightarrow> h | Some prev \<Rightarrow> release_at h prev),
      r\<lparr>rb_packets := (rb_packets r)[idx := new]\<rparr>))"

text \<open>The loop of \<open>Add\<close> that empties the slots of the numbers skipped, from \<open>i\<close> up to \<open>s\<close>.\<close>

function clear_gap :: "pheap \<times> rtpBuffer \<Rightarrow> uint16 \<Rightarrow> uint16 \<Rightarrow> pheap \<times> rtpBuffer" where
  "clear_gap hr i s =
    (if i = s then hr else clear_gap (put_slot hr (slot (snd hr) i) None) (i + 1) s)"
  by pat_completeness auto
termination
proof (relation "measure (\<lambda>(_, i, s). unat (s - i))")
  fix hr :: "pheap \<times> rtpBuffer" and i s :: uint16
  assume "i \<noteq> s"
  then have "s - i \<noteq> 0"
    by simp
  then have "unat (s - i - 1) < unat (s - i)"
    by (simp add: measure_unat)
  then show "((put_slot hr (slot (snd hr) i) None, i + 1, s), hr, i, s)
      \<in> measure (\<lambda>(_, i, s). unat (s - i))"
    by (simp add: diff_diff_eq)
qed simp

declare clear_gap.simps [simp del]

definition Add :: "pheap \<times> rtpBuffer \<Rightarrow> nat \<Rightarrow> pheap \<times> rtpBuffer" where
  "Add hr a =
    (let (h, r) = hr; s = rp_sequenceNumber (h ! a) in
     if \<not> rb_started r then
       (h, r\<lparr>rb_packets := (rb_packets r)[slot r s := Some a], rb_highestAdded := s,
             rb_started := True\<rparr>)
     else
       let diff = s - rb_highestAdded r in
       if diff = 0 then (h, r)
       else
         let (h', r') =
           (if diff < uint16SizeHalf then
              let (h1, r1) = clear_gap (h, r) (rb_highestAdded r + 1) s
              in (h1, r1\<lparr>rb_highestAdded := s\<rparr>)
            else (h, r))
         in put_slot (h', r') (slot r' s) (Some a))"

definition Get :: "pheap \<times> rtpBuffer \<Rightarrow> uint16 \<Rightarrow> nat option \<times> pheap" where
  "Get hr s =
    (let (h, r) = hr; diff = rb_highestAdded r - s in
     if diff \<ge> uint16SizeHalf then (None, h)
     else if diff \<ge> rb_size r then (None, h)
     else case rb_packets r ! slot r s of
       None \<Rightarrow> (None, h)
     | Some a \<Rightarrow>
        if rp_sequenceNumber (h ! a) \<noteq> s then (None, h)
        else (case Retain (h ! a) of
          Inl _ \<Rightarrow> (None, h)
        | Inr p \<Rightarrow> (Some a, h[a := p])))"

section \<open>The responder\<close>

record localStream =
  ls_heap :: pheap
  ls_buffer :: rtpBuffer
  ls_maxRetries :: uint8
  ls_minInterval :: duration
  ls_maxAge :: duration

text \<open>What is left to do once the buffer's lock is released: nothing, give the reference back,
  or send the packet and then give the reference back.\<close>

datatype resend_next = Skip | Drop nat | Send nat

definition resend_check :: "localStream \<Rightarrow> uint16 \<Rightarrow> time \<Rightarrow> resend_next \<times> localStream" where
  "resend_check st s now =
    (case Get (ls_heap st, ls_buffer st) s of
       (None, h) \<Rightarrow> (Skip, st\<lparr>ls_heap := h\<rparr>)
     | (Some a, h) \<Rightarrow>
        (let p = h ! a; st' = st\<lparr>ls_heap := h\<rparr> in
         if ls_maxAge st > 0 \<and> now - rp_sentAt p > ls_maxAge st then (Drop a, st')
         else if ls_maxRetries st > 0 \<and> rp_resendCount p \<ge> ls_maxRetries st then (Drop a, st')
         else if ls_minInterval st > 0 \<and> (case rp_lastResendAt p of None \<Rightarrow> False
                | Some l \<Rightarrow> now - l < ls_minInterval st) then (Drop a, st')
         else (Send a, st'\<lparr>ls_heap := h[a := p\<lparr>rp_lastResendAt := Some now,
                                              rp_resendCount := rp_resendCount p + 1\<rparr>]\<rparr>)))"

text \<open>The write and the release. A write is the header and payload the packet holds then.\<close>

type_synonym rtp_write = "rtp_header option \<times> byte list"

definition resend_finish :: "localStream \<Rightarrow> resend_next \<Rightarrow> rtp_write list \<times> localStream" where
  "resend_finish st n =
    (case n of
       Skip \<Rightarrow> ([], st)
     | Drop a \<Rightarrow> ([], st\<lparr>ls_heap := release_at (ls_heap st) a\<rparr>)
     | Send a \<Rightarrow> ([(rp_header (ls_heap st ! a), rp_payload (ls_heap st ! a))],
                 st\<lparr>ls_heap := release_at (ls_heap st) a\<rparr>))"

text \<open>One NACK, as the sequence numbers it names with the clock read for each.\<close>

fun resend_all :: "localStream \<Rightarrow> (uint16 \<times> time) list \<Rightarrow> rtp_write list \<times> localStream" where
  "resend_all st [] = ([], st)"
| "resend_all st ((s, now) # rest) =
    (let (n, st1) = resend_check st s now;
         (w, st2) = resend_finish st1 n;
         (ws, st3) = resend_all st2 rest
     in (w @ ws, st3))"

record responder =
  re_size :: uint16
  re_copy :: bool
  re_maxRetries :: uint8
  re_minInterval :: duration
  re_maxAge :: duration
  re_streams :: "uint32 \<rightharpoonup> localStream"

type_synonym responderOption = "responder \<Rightarrow> nack_error + responder"

definition ResponderSize :: "uint16 \<Rightarrow> responderOption" where
  "ResponderSize sz r = Inr (r\<lparr>re_size := sz\<rparr>)"
definition ResponderMaxRetries :: "uint8 \<Rightarrow> responderOption" where
  "ResponderMaxRetries n r = Inr (r\<lparr>re_maxRetries := n\<rparr>)"
definition ResponderMinInterval :: "duration \<Rightarrow> responderOption" where
  "ResponderMinInterval d r = Inr (r\<lparr>re_minInterval := d\<rparr>)"
definition ResponderMaxAge :: "duration \<Rightarrow> responderOption" where
  "ResponderMaxAge d r = Inr (r\<lparr>re_maxAge := d\<rparr>)"
definition DisableCopy :: responderOption where
  "DisableCopy r = Inr (r\<lparr>re_copy := False\<rparr>)"

fun apply_options :: "responderOption list \<Rightarrow> responderOption" where
  "apply_options [] r = Inr r"
| "apply_options (opt # opts) r = (case opt r of Inl e \<Rightarrow> Inl e | Inr r' \<Rightarrow> apply_options opts r')"

definition NewInterceptor :: "responderOption list \<Rightarrow> nack_error + responder" where
  "NewInterceptor opts =
    (case apply_options opts \<lparr>re_size = 2048, re_copy = True, re_maxRetries = 3,
        re_minInterval = 20 * Millisecond, re_maxAge = 2 * Second, re_streams = Map.empty\<rparr> of
       Inl e \<Rightarrow> Inl e
     | Inr r \<Rightarrow> (case newRTPBuffer (re_size r) of Inl e \<Rightarrow> Inl e | Inr _ \<Rightarrow> Inr r))"

text \<open>The fields of pion's \<open>StreamInfo\<close> the code reads.\<close>

record stream_info =
  si_SSRC :: uint32
  si_SSRCRetransmission :: uint32
  si_PayloadTypeRetransmission :: uint8
  si_RTCPFeedback :: "(string \<times> string) list"

definition streamSupportNack :: "stream_info \<Rightarrow> bool" where
  "streamSupportNack info = list_ex (\<lambda>(ty, par). ty = ''nack'' \<and> par = '''') (si_RTCPFeedback info)"

text \<open>\<open>BindLocalStream\<close>: \<open>keep\<close> is the answer of the stream filter (\<open>streamSupportNack\<close> by default).
  The ring buffer's error is discarded in the code because \<open>NewInterceptor\<close> has checked the size.\<close>

definition BindLocalStream :: "(stream_info \<Rightarrow> bool) \<Rightarrow> responder \<Rightarrow> stream_info \<Rightarrow> responder" where
  "BindLocalStream keep r info =
    (if \<not> keep info then r
     else case newRTPBuffer (re_size r) of
       Inl _ \<Rightarrow> r
     | Inr buffer \<Rightarrow> r\<lparr>re_streams := (re_streams r)(si_SSRC info \<mapsto>
         \<lparr>ls_heap = [], ls_buffer = buffer, ls_maxRetries = re_maxRetries r,
          ls_minInterval = re_minInterval r, ls_maxAge = re_maxAge r\<rparr>)\<rparr>)"

definition UnbindLocalStream :: "responder \<Rightarrow> stream_info \<Rightarrow> responder" where
  "UnbindLocalStream r info = r\<lparr>re_streams := (re_streams r)(si_SSRC info := None)\<rparr>"

definition add_packet :: "localStream \<Rightarrow> retainablePacket \<Rightarrow> localStream" where
  "add_packet st p =
    (let (h, b) = Add (ls_heap st @ [p], ls_buffer st) (length (ls_heap st))
     in st\<lparr>ls_heap := h, ls_buffer := b\<rparr>)"

text \<open>The writer \<open>BindLocalStream\<close> returns. The packet is stored and then passed on; a packet of
  another SSRC is only passed on, one the factory refuses is neither.\<close>

definition stream_write ::
    "responder \<Rightarrow> stream_info \<Rightarrow> localStream \<Rightarrow> rtp_header \<Rightarrow> byte list option \<Rightarrow> uint16 \<Rightarrow> time \<Rightarrow>
     (nack_error + rtp_header \<times> byte list option) \<times> localStream" where
  "stream_write r info st header payload nextSeq now =
    (if SSRC header \<noteq> si_SSRC info then (Inr (header, payload), st)
     else case (if re_copy r then NewPacket header payload (si_SSRCRetransmission info)
                       (si_PayloadTypeRetransmission info) nextSeq now
                else NewPacketNoOp header payload now) of
       Inl e \<Rightarrow> (Inl e, st)
     | Inr p \<Rightarrow> (Inr (header, payload), add_packet st p))"

definition resendPackets ::
    "responder \<Rightarrow> uint32 \<Rightarrow> (uint16 \<times> time) list \<Rightarrow> rtp_write list \<times> responder" where
  "resendPackets r mediaSSRC seqs =
    (case re_streams r mediaSSRC of
       None \<Rightarrow> ([], r)
     | Some st \<Rightarrow> (let (ws, st') = resend_all st seqs
                  in (ws, r\<lparr>re_streams := (re_streams r)(mediaSSRC \<mapsto> st')\<rparr>)))"

section \<open>Slots\<close>

definition buf_ok :: "rtpBuffer \<Rightarrow> bool" where
  "buf_ok r \<longleftrightarrow> (\<exists>k < 16. rb_size r = 2 ^ k \<and> length (rb_packets r) = 2 ^ k)"

lemma unat_pow2: "k < 16 \<Longrightarrow> unat ((2 :: uint16) ^ k) = 2 ^ k"
  using unat_of_nat [of "2 ^ k", where 'a = 16] power_strict_increasing [of k 16 "2 :: nat"]
  by simp

lemma newRTPBuffer_ok: "newRTPBuffer sz = Inr r \<Longrightarrow> buf_ok r"
  by (auto simp: newRTPBuffer_def buf_ok_def list_ex_iff unat_pow2 split: if_splits)

lemma slot_take_bit: "k < 16 \<Longrightarrow> rb_size r = 2 ^ k \<Longrightarrow> slot r s = unat (take_bit k s)"
  by (simp add: slot_def take_bit_eq_mod)

lemma slot_less: "buf_ok r \<Longrightarrow> slot r s < length (rb_packets r)"
  by (auto simp: buf_ok_def slot_def unat_mod unat_pow2)

text \<open>Two numbers less than the size apart have different slots.\<close>

lemma slot_inj:
  assumes "buf_ok r" "slot r a = slot r b" "unat (a - b) < unat (rb_size r)"
  shows "a = b"
proof -
  obtain k where k: "k < 16" "rb_size r = 2 ^ k"
    using assms(1) by (auto simp: buf_ok_def)
  then have "unat a mod 2 ^ k = unat b mod 2 ^ k"
    using assms(2) by (simp add: slot_def unat_mod unat_pow2)
  then have "int (unat a) mod 2 ^ k = int (unat b) mod 2 ^ k"
    by (metis of_nat_mod of_nat_power of_nat_numeral)
  then have "2 ^ k dvd uint a - uint b"
    by (simp add: mod_eq_dvd_iff)
  moreover have "(2 :: int) ^ k dvd 2 ^ 16"
    using k(1) by (intro le_imp_power_dvd) simp
  ultimately have d: "2 ^ k dvd uint (a - b)"
    by (simp add: uint_word_ariths dvd_mod)
  have "int (unat (a - b)) < int (2 ^ k)"
    using assms(3) k by (simp only: unat_pow2 of_nat_less_iff)
  then have "uint (a - b) < 2 ^ k"
    by simp
  then have "\<not> 0 < uint (a - b)"
    using d zdvd_not_zless by blast
  then have "uint (a - b) = 0"
    using uint_ge_0 [of "a - b"] by linarith
  then show ?thesis
    by (simp add: uint_0_iff)
qed

lemma put_slot_buffer [simp]:
  "rb_size (snd (put_slot hr i v)) = rb_size (snd hr)"
  "rb_highestAdded (snd (put_slot hr i v)) = rb_highestAdded (snd hr)"
  "rb_started (snd (put_slot hr i v)) = rb_started (snd hr)"
  "rb_packets (snd (put_slot hr i v)) = (rb_packets (snd hr))[i := v]"
  by (simp_all add: put_slot_def split_beta)

lemma Release_fields [simp]:
  "rp_sequenceNumber (Release p) = rp_sequenceNumber p" "rp_sentAt (Release p) = rp_sentAt p"
  "rp_lastResendAt (Release p) = rp_lastResendAt p" "rp_resendCount (Release p) = rp_resendCount p"
  "rp_count (Release p) = rp_count p - 1"
  by (simp_all add: Release_def Let_def)

text \<open>The fields of a packet that releasing a reference leaves alone.\<close>

abbreviation tracking :: "retainablePacket \<Rightarrow> uint16 \<times> time \<times> time option \<times> uint8" where
  "tracking p \<equiv> (rp_sequenceNumber p, rp_sentAt p, rp_lastResendAt p, rp_resendCount p)"

lemma release_at_tracking [simp]:
  "length (release_at h a) = length h" "map tracking (release_at h a) = map tracking h"
  by (simp add: release_at_def) (rule nth_equalityI, auto simp: release_at_def nth_update_if)

lemma put_slot_tracking [simp]: "map tracking (fst (put_slot hr i v)) = map tracking (fst hr)"
  by (auto simp: put_slot_def split_beta split: option.split)

lemma clear_gap_frame:
  "map tracking (fst (clear_gap hr i s)) = map tracking (fst hr) \<and>
   rb_size (snd (clear_gap hr i s)) = rb_size (snd hr) \<and>
   rb_highestAdded (snd (clear_gap hr i s)) = rb_highestAdded (snd hr) \<and>
   rb_started (snd (clear_gap hr i s)) = rb_started (snd hr) \<and>
   length (rb_packets (snd (clear_gap hr i s))) = length (rb_packets (snd hr))"
proof (induction hr i s rule: clear_gap.induct)
  case (1 hr i s)
  then show ?case
    by (subst (1 2 3 4 5) clear_gap.simps) (simp split: if_split)
qed

lemma clear_gap_packets:
  assumes "buf_ok (snd hr)" "idx < length (rb_packets (snd hr))"
  shows "rb_packets (snd (clear_gap hr i s)) ! idx =
    (if \<exists>j. unat (j - i) < unat (s - i) \<and> slot (snd hr) j = idx then None
     else rb_packets (snd hr) ! idx)"
  using assms
proof (induction hr i s rule: clear_gap.induct)
  case (1 hr i s)
  show ?case
  proof (cases "i = s")
    case True
    then show ?thesis by (simp add: clear_gap.simps)
  next
    case False
    let ?hr = "put_slot hr (slot (snd hr) i) None"
    have ok: "buf_ok (snd ?hr)" and sl: "slot (snd ?hr) = slot (snd hr)"
      using "1.prems" by (auto simp: buf_ok_def slot_def)
    have step: "unat (j - i) < unat (s - i) \<longleftrightarrow> j = i \<or> unat (j - (i + 1)) < unat (s - (i + 1))" for j
    proof (cases "j = i")
      case True
      then show ?thesis using False by (simp add: unat_gt_0)
    next
      case neq: False
      have "unat (x - (i + 1)) = unat (x - i) - 1" if "x \<noteq> i" for x
        using that unat_minus_one [of "x - i"] by (simp add: diff_diff_eq)
      moreover have "unat (j - i) > 0" "unat (s - i) > 0"
        using False neq by (simp_all add: unat_gt_0)
      ultimately show ?thesis
        using False neq by (auto simp: less_diff_iff)
    qed
    have "rb_packets (snd (clear_gap hr i s)) ! idx = rb_packets (snd (clear_gap ?hr (i + 1) s)) ! idx"
      using False by (subst clear_gap.simps) simp
    also have "\<dots> = (if \<exists>j. unat (j - (i + 1)) < unat (s - (i + 1)) \<and> slot (snd hr) j = idx then None
        else (rb_packets (snd hr))[slot (snd hr) i := None] ! idx)"
      using "1.IH" [OF False ok] "1.prems"(2) sl by auto
    finally show ?thesis
      using step "1.prems"(2) by (auto simp: nth_list_update)
  qed
qed

section \<open>The buffer as a window of the newest packets\<close>

definition reach :: "rtpBuffer \<Rightarrow> uint16 \<Rightarrow> bool" where
  "reach r s \<longleftrightarrow> unat (rb_highestAdded r - s) < unat (rb_size r)"

text \<open>The packet a request finds, before it is retained.\<close>

definition lookup :: "pheap \<times> rtpBuffer \<Rightarrow> uint16 \<Rightarrow> nat option" where
  "lookup hr s =
    (if \<not> reach (snd hr) s then None
     else case rb_packets (snd hr) ! slot (snd hr) s of
       None \<Rightarrow> None
     | Some a \<Rightarrow> if rp_sequenceNumber (fst hr ! a) = s then Some a else None)"

definition slots_ok :: "pheap \<times> rtpBuffer \<Rightarrow> bool" where
  "slots_ok hr \<longleftrightarrow> (\<forall>i < length (rb_packets (snd hr)). \<forall>a. rb_packets (snd hr) ! i = Some a \<longrightarrow>
     a < length (fst hr) \<and> slot (snd hr) (rp_sequenceNumber (fst hr ! a)) = i)"

lemma size_le_half: "buf_ok r \<Longrightarrow> unat (rb_size r) \<le> 2 ^ 15"
  using power_increasing [of _ 15 "2 :: nat"] by (auto simp: buf_ok_def unat_pow2)

lemma reach_iff:
  "buf_ok r \<Longrightarrow> reach r s \<longleftrightarrow>
     \<not> (rb_highestAdded r - s \<ge> uint16SizeHalf \<or> rb_highestAdded r - s \<ge> rb_size r)"
  using size_le_half [of r] by (auto simp: reach_def word_le_nat_alt uint16SizeHalf_def)

lemma seq_eq_tracking:
  assumes "map tracking h' = map tracking h" "a < length h"
  shows "rp_sequenceNumber (h' ! a) = rp_sequenceNumber (h ! a)"
proof -
  have "length h' = length h"
    using assms(1) map_eq_imp_length_eq by blast
  then show ?thesis
    using arg_cong [OF assms(1), of "\<lambda>t. fst (t ! a)"] assms(2) by simp
qed

lemma gap_arith:
  fixes hi s k :: uint16
  defines "d \<equiv> unat (s - hi)" and "e \<equiv> unat (s - k)"
  assumes "0 < d"
  shows "unat (hi - k) = (if d \<le> e then e - d else e + 2 ^ 16 - d)"
    and "unat (s - (hi + 1)) = d - 1"
    and "e < d \<Longrightarrow> unat (k - (hi + 1)) = d - 1 - e"
proof -
  show "unat (hi - k) = (if d \<le> e then e - d else e + 2 ^ 16 - d)"
    using unat_sub_if' [of "s - k" "s - hi"] by (simp add: d_def e_def)
  show one: "unat (s - (hi + 1)) = d - 1"
    using unat_minus_one [of "s - hi"] assms(3) by (cases "s = hi") (simp_all add: d_def diff_diff_eq)
  have q: "(s - (hi + 1)) - (s - k) = k - (hi + 1)"
    by simp
  show "e < d \<Longrightarrow> unat (k - (hi + 1)) = d - 1 - e"
    using unat_sub_if' [of "s - (hi + 1)" "s - k"] unfolding q one e_def by simp
qed

text \<open>A packet ahead of all others: everything that is still in reach keeps its slot.\<close>

lemma clear_gap_keeps:
  assumes ok: "buf_ok (snd hr)" and k: "unat (s - k) < unat (rb_size (snd hr))"
    and d: "0 < unat (s - rb_highestAdded (snd hr))" "unat (s - rb_highestAdded (snd hr)) < 2 ^ 15"
    and "k \<noteq> s"
  shows "rb_packets (snd (clear_gap hr (rb_highestAdded (snd hr) + 1) s)) ! slot (snd hr) k =
    (if reach (snd hr) k then rb_packets (snd hr) ! slot (snd hr) k else None)"
proof -
  let ?hi = "rb_highestAdded (snd hr)" and ?r = "snd hr"
  let ?d = "unat (s - ?hi)" and ?e = "unat (s - k)"
  have hik: "unat (?hi - k) = (if ?d \<le> ?e then ?e - ?d else ?e + 2 ^ 16 - ?d)"
    and gap: "unat (s - (?hi + 1)) = ?d - 1"
    using gap_arith [OF d(1)] by simp_all
  have e0: "0 < ?e"
    using assms(5) by (simp add: unat_gt_0)
  have reach: "reach ?r k \<longleftrightarrow> ?d \<le> ?e"
    using hik k d size_le_half [OF ok] by (auto simp: reach_def)
  have "(\<exists>j. unat (j - (?hi + 1)) < ?d - 1 \<and> slot ?r j = slot ?r k) \<longleftrightarrow> ?e < ?d"
  proof
    assume "\<exists>j. unat (j - (?hi + 1)) < ?d - 1 \<and> slot ?r j = slot ?r k"
    then obtain j where j: "unat (j - (?hi + 1)) < ?d - 1" "slot ?r j = slot ?r k" by blast
    have sj: "unat (s - j) = ?d - 1 - unat (j - (?hi + 1))"
      using unat_sub_if' [of "s - (?hi + 1)" "j - (?hi + 1)"] gap j(1) by simp
    show "?e < ?d"
    proof (rule ccontr)
      assume "\<not> ?e < ?d"
      then have "unat (j - k) = ?e - unat (s - j)"
        using unat_sub_if' [of "s - k" "s - j"] sj by simp
      then have "unat (j - k) < unat (rb_size ?r)"
        using k by simp
      then have "j = k"
        using slot_inj [OF ok j(2)] by blast
      then show False
        using sj j(1) \<open>\<not> ?e < ?d\<close> by simp
    qed
  next
    assume "?e < ?d"
    then show "\<exists>j. unat (j - (?hi + 1)) < ?d - 1 \<and> slot ?r j = slot ?r k"
      using gap_arith(3) [OF d(1)] e0 by (intro exI [of _ k]) simp
  qed
  then show ?thesis
    using clear_gap_packets [OF ok slot_less [OF ok]] gap reach by auto
qed

lemma Add_newer:
  assumes ok: "buf_ok (snd hr)" and so: "slots_ok hr" and st: "rb_started (snd hr)"
    and s: "s = rp_sequenceNumber (fst hr ! a)" "a < length (fst hr)"
    and d: "0 < unat (s - rb_highestAdded (snd hr))" "unat (s - rb_highestAdded (snd hr)) < 2 ^ 15"
  shows "lookup (Add hr a) k =
      (if k = s then Some a
       else if unat (s - k) < unat (rb_size (snd hr)) then lookup hr k else None)"
    and "rb_highestAdded (snd (Add hr a)) = s"
proof -
  let ?r = "snd hr"
  let ?g = "clear_gap hr (rb_highestAdded ?r + 1) s"
  let ?r1 = "(snd ?g)\<lparr>rb_highestAdded := s\<rparr>"
  have frame: "map tracking (fst ?g) = map tracking (fst hr)" "rb_size (snd ?g) = rb_size ?r"
    "length (rb_packets (snd ?g)) = length (rb_packets ?r)"
    using clear_gap_frame by blast+
  have sl: "slot ?r1 = slot ?r" "slot (snd ?g) = slot ?r"
    using frame by (simp_all add: fun_eq_iff slot_def)
  have "s - rb_highestAdded ?r \<noteq> 0" "s - rb_highestAdded ?r < uint16SizeHalf"
    using d by (auto simp: word_less_nat_alt uint16SizeHalf_def)
  then have add: "Add hr a = put_slot (fst ?g, ?r1) (slot ?r s) (Some a)"
    using st s sl by (simp add: Add_def Let_def split_beta)
  then show hi: "rb_highestAdded (snd (Add hr a)) = s"
    by simp
  have track: "map tracking (fst (Add hr a)) = map tracking (fst hr)"
    using frame by (simp add: add)
  have rs: "slot (snd (Add hr a)) = slot ?r" "rb_size (snd (Add hr a)) = rb_size ?r"
    using add sl frame by (simp_all add: fun_eq_iff slot_def)
  have pk: "rb_packets (snd (Add hr a)) = (rb_packets (snd ?g))[slot ?r s := Some a]"
    using add by simp
  show "lookup (Add hr a) k = (if k = s then Some a
      else if unat (s - k) < unat (rb_size ?r) then lookup hr k else None)"
  proof (cases "k = s")
    case True
    have "0 < unat (rb_size ?r)"
      using ok by (auto simp: buf_ok_def unat_pow2)
    then show ?thesis
      using True s slot_less [OF ok] frame(3) seq_eq_tracking [OF track s(2)]
      by (simp add: lookup_def reach_def hi rs pk)
  next
    case False
    show ?thesis
    proof (cases "unat (s - k) < unat (rb_size ?r)")
      case True
      then have "slot ?r s \<noteq> slot ?r k"
        using slot_inj [OF ok] False by metis
      then have "rb_packets (snd (Add hr a)) ! slot ?r k =
          (if reach ?r k then rb_packets ?r ! slot ?r k else None)"
        using clear_gap_keeps [OF ok True d False] by (simp add: pk)
      moreover have "rp_sequenceNumber (fst (Add hr a) ! b) = rp_sequenceNumber (fst hr ! b)"
        if "rb_packets ?r ! slot ?r k = Some b" for b
        using so slot_less [OF ok] that seq_eq_tracking [OF track] by (auto simp: slots_ok_def)
      ultimately show ?thesis
        using False True by (auto simp: lookup_def reach_def hi rs split: option.split)
    next
      case far: False
      then show ?thesis
        using False by (simp add: lookup_def reach_def hi rs)
    qed
  qed
qed

text \<open>A packet that arrives late takes its slot from whatever is there.\<close>

lemma Add_late:
  assumes ok: "buf_ok (snd hr)" and so: "slots_ok hr" and st: "rb_started (snd hr)"
    and s: "s = rp_sequenceNumber (fst hr ! a)" "a < length (fst hr)"
    and d: "2 ^ 15 \<le> unat (s - rb_highestAdded (snd hr))"
  shows "lookup (Add hr a) k =
      (if slot (snd hr) k = slot (snd hr) s then (if k = s \<and> reach (snd hr) s then Some a else None)
       else lookup hr k)"
    and "rb_highestAdded (snd (Add hr a)) = rb_highestAdded (snd hr)"
proof -
  let ?r = "snd hr"
  have "s - rb_highestAdded ?r \<noteq> 0" "\<not> s - rb_highestAdded ?r < uint16SizeHalf"
    using d by (auto simp: word_less_nat_alt uint16SizeHalf_def)
  then have add: "Add hr a = put_slot hr (slot ?r s) (Some a)"
    using st s by (simp add: Add_def Let_def split_beta)
  have rs: "slot (snd (Add hr a)) = slot ?r" "reach (snd (Add hr a)) = reach ?r"
    using add by (simp_all add: fun_eq_iff slot_def reach_def)
  have track: "map tracking (fst (Add hr a)) = map tracking (fst hr)"
    by (simp add: add)
  have old: "rp_sequenceNumber (fst (Add hr a) ! b) = rp_sequenceNumber (fst hr ! b)"
    if "rb_packets ?r ! slot ?r k = Some b" for b
    using so slot_less [OF ok] that seq_eq_tracking [OF track] by (auto simp: slots_ok_def)
  have pk: "rb_packets (snd (Add hr a)) ! slot ?r k =
      (if slot ?r k = slot ?r s then Some a else rb_packets ?r ! slot ?r k)"
    using slot_less [OF ok] by (simp add: add nth_list_update)
  have new: "rp_sequenceNumber (fst (Add hr a) ! a) = s"
    using s seq_eq_tracking [OF track s(2)] by simp
  show "lookup (Add hr a) k =
      (if slot ?r k = slot ?r s then (if k = s \<and> reach ?r s then Some a else None) else lookup hr k)"
  proof (cases "slot ?r k = slot ?r s")
    case True
    then have "rb_packets (snd (Add hr a)) ! slot ?r s = Some a"
      using pk by simp
    then show ?thesis
      using True by (auto simp: lookup_def rs new)
  next
    case False
    then show ?thesis
      by (simp add: lookup_def rs pk) (simp add: old split: option.split)
  qed
  show "rb_highestAdded (snd (Add hr a)) = rb_highestAdded ?r"
    by (simp add: add)
qed

section \<open>Reference counts\<close>

text \<open>Every packet has at least as many references counted as it has owners, and a packet with a
  positive count still has its header.\<close>

definition counted :: "pheap \<Rightarrow> (nat \<Rightarrow> int) \<Rightarrow> bool" where
  "counted h owners \<longleftrightarrow> (\<forall>a < length h. owners a \<le> rp_count (h ! a) \<and>
     (0 < rp_count (h ! a) \<longrightarrow> rp_header (h ! a) \<noteq> None))"

definition in_buffer :: "rtpBuffer \<Rightarrow> nat \<Rightarrow> int" where
  "in_buffer r a = (if Some a \<in> set (rb_packets r) then 1 else 0)"

lemma counted_mono: "counted h f \<Longrightarrow> (\<And>a. a < length h \<Longrightarrow> g a \<le> f a) \<Longrightarrow> counted h g"
  by (meson counted_def order_trans)

lemma counted_release:
  assumes "counted h f" "a < length h"
  shows "counted (release_at h a) (f(a := f a - 1))"
  using assms by (auto simp: counted_def release_at_def nth_update_if Release_def Let_def)

lemma counted_release_owner:
  assumes "counted h f" "a < length h" "g a + 1 \<le> f a" "\<And>b. b \<noteq> a \<Longrightarrow> g b \<le> f b"
  shows "counted (release_at h a) g"
  by (rule counted_mono [OF counted_release [OF assms(1,2)]]) (use assms(3,4) in auto)

lemma put_slot_unique:
  assumes "slots_ok hr" "i < length (rb_packets (snd hr))" "rb_packets (snd hr) ! i = Some b"
  shows "Some b \<notin> set ((rb_packets (snd hr))[i := None])"
proof
  assume "Some b \<in> set ((rb_packets (snd hr))[i := None])"
  then obtain j where "j < length (rb_packets (snd hr))" "(rb_packets (snd hr))[i := None] ! j = Some b"
    by (auto simp: in_set_conv_nth)
  then have "j \<noteq> i" "rb_packets (snd hr) ! j = Some b"
    by (auto simp: nth_update_if split: if_splits)
  then show False
    using assms \<open>j < length (rb_packets (snd hr))\<close> unfolding slots_ok_def by blast
qed

lemma in_buffer_update:
  assumes "slots_ok hr" "i < length (rb_packets (snd hr))"
  shows "in_buffer (snd (put_slot hr i v)) a \<le>
    (if v = Some a then 1 else if rb_packets (snd hr) ! i = Some a then 0 else in_buffer (snd hr) a)"
  using put_slot_unique [OF assms] set_update_subset_insert [of "rb_packets (snd hr)" i v]
    set_update_subset_insert [of "(rb_packets (snd hr))[i := None]" i v]
  by (auto simp: in_buffer_def)

lemma put_slot_ok:
  assumes "slots_ok hr" "buf_ok (snd hr)" "i < length (rb_packets (snd hr))"
    and "\<And>a. v = Some a \<Longrightarrow> a < length (fst hr) \<and> slot (snd hr) (rp_sequenceNumber (fst hr ! a)) = i"
  shows "slots_ok (put_slot hr i v) \<and> buf_ok (snd (put_slot hr i v))"
proof -
  have sl: "slot (snd (put_slot hr i v)) = slot (snd hr)"
    by (simp add: fun_eq_iff slot_def)
  have len: "length (fst (put_slot hr i v)) = length (fst hr)"
    using put_slot_tracking map_eq_imp_length_eq by blast
  have seq: "rp_sequenceNumber (fst (put_slot hr i v) ! a) = rp_sequenceNumber (fst hr ! a)"
    if "a < length (fst hr)" for a
    using seq_eq_tracking [OF put_slot_tracking that] .
  have "slots_ok (put_slot hr i v)"
    unfolding slots_ok_def
  proof (intro allI impI)
    fix j a
    assume "j < length (rb_packets (snd (put_slot hr i v)))"
      "rb_packets (snd (put_slot hr i v)) ! j = Some a"
    then have "a < length (fst hr) \<and> slot (snd hr) (rp_sequenceNumber (fst hr ! a)) = j"
      using assms(1,4) by (auto simp: nth_update_if slots_ok_def split: if_splits)
    then show "a < length (fst (put_slot hr i v)) \<and>
        slot (snd (put_slot hr i v)) (rp_sequenceNumber (fst (put_slot hr i v) ! a)) = j"
      using seq [of a] by (simp add: sl len)
  qed
  then show ?thesis
    using assms(2) by (auto simp: buf_ok_def)
qed

text \<open>Emptying or filling a slot: the previous packet loses the buffer's reference.\<close>

lemma put_slot_counted:
  assumes ok: "slots_ok hr" "i < length (rb_packets (snd hr))"
    and c: "counted (fst hr) (\<lambda>a. in_buffer (snd hr) a + f a)"
    and v: "\<And>a. v = Some a \<Longrightarrow> in_buffer (snd hr) a = 0 \<and> g a + 1 \<le> f a"
    and g: "\<And>a. g a \<le> f a"
  shows "counted (fst (put_slot hr i v)) (\<lambda>a. in_buffer (snd (put_slot hr i v)) a + g a)"
proof -
  note u = in_buffer_update [OF ok, of v]
  have sum: "in_buffer (snd (put_slot hr i v)) a + g a \<le>
      (if rb_packets (snd hr) ! i = Some a then f a else in_buffer (snd hr) a + f a)" for a
    using u [of a] v [of a] g [of a] ok(2)
    by (cases "v = Some a") (auto simp: in_buffer_def split: if_splits)
  show ?thesis
  proof (cases "rb_packets (snd hr) ! i")
    case None
    then have "fst (put_slot hr i v) = fst hr"
      by (simp add: put_slot_def split_beta)
    then show ?thesis
      using counted_mono [OF c] sum None by simp
  next
    case (Some b)
    then have b: "b < length (fst hr)" "in_buffer (snd hr) b = 1"
      using ok by (auto simp: slots_ok_def in_buffer_def in_set_conv_nth)
    have h: "fst (put_slot hr i v) = release_at (fst hr) b"
      using Some by (simp add: put_slot_def split_beta)
    show ?thesis
      unfolding h using sum [of b] b Some
      by (intro counted_release_owner [OF c b(1)]) (simp_all, metis sum option.inject)
  qed
qed

text \<open>The invariant of a stream's buffer, with \<open>f a\<close> the references held outside the buffer.\<close>

definition buffer_inv :: "pheap \<times> rtpBuffer \<Rightarrow> (nat \<Rightarrow> int) \<Rightarrow> bool" where
  "buffer_inv hr f \<longleftrightarrow> buf_ok (snd hr) \<and> slots_ok hr \<and>
     counted (fst hr) (\<lambda>a. in_buffer (snd hr) a + f a)"

lemma put_slot_inv:
  assumes "buffer_inv hr f" "i < length (rb_packets (snd hr))"
    and "\<And>a. v = Some a \<Longrightarrow> a < length (fst hr) \<and> slot (snd hr) (rp_sequenceNumber (fst hr ! a)) = i"
    and "\<And>a. v = Some a \<Longrightarrow> in_buffer (snd hr) a = 0 \<and> g a + 1 \<le> f a"
    and "\<And>a. g a \<le> f a"
  shows "buffer_inv (put_slot hr i v) g"
  using assms put_slot_ok [of hr i v] put_slot_counted [of hr i f v g]
  by (auto simp: buffer_inv_def)

lemma in_buffer_clear: "in_buffer r' a = 0" if "in_buffer r a = 0" "rb_packets r' = (rb_packets r)[i := None]"
  using that set_update_subset_insert [of "rb_packets r" i None] by (auto simp: in_buffer_def split: if_splits)

lemma clear_gap_inv:
  assumes "buffer_inv hr f"
  shows "buffer_inv (clear_gap hr i s) f \<and>
    (\<forall>a. in_buffer (snd hr) a = 0 \<longrightarrow> in_buffer (snd (clear_gap hr i s)) a = 0)"
  using assms
proof (induction hr i s rule: clear_gap.induct)
  case (1 hr i s)
  show ?case
  proof (cases "i = s")
    case True
    then show ?thesis using "1.prems" by (simp add: clear_gap.simps)
  next
    case False
    let ?hr = "put_slot hr (slot (snd hr) i) None"
    have "buffer_inv ?hr f"
      using "1.prems" by (intro put_slot_inv [of hr f]) (auto simp: buffer_inv_def slot_less)
    moreover have "in_buffer (snd ?hr) a = 0" if "in_buffer (snd hr) a = 0" for a
      using in_buffer_clear [OF that, of "snd ?hr"] by simp
    ultimately show ?thesis
      using "1.IH" [OF False] False by (subst (1 2) clear_gap.simps) simp
  qed
qed

lemma buffer_inv_highest [simp]: "buffer_inv (h, r\<lparr>rb_highestAdded := s\<rparr>) f \<longleftrightarrow> buffer_inv (h, r) f"
  by (simp add: buffer_inv_def buf_ok_def slots_ok_def slot_def in_buffer_def)

lemma slot_highest [simp]: "slot (r\<lparr>rb_highestAdded := s\<rparr>) = slot r"
  by (simp add: fun_eq_iff slot_def)

lemma in_buffer_highest [simp]: "in_buffer (r\<lparr>rb_highestAdded := s\<rparr>) = in_buffer r"
  by (simp add: fun_eq_iff in_buffer_def)

text \<open>\<open>Add\<close> takes over the caller's reference; only a packet with the number of the newest one is
  dropped without a release.\<close>

lemma Add_inv:
  assumes i: "buffer_inv hr f" and a: "a < length (fst hr)" "in_buffer (snd hr) a = 0" "1 \<le> f a"
    and fresh: "rb_started (snd hr) \<or> set (rb_packets (snd hr)) \<subseteq> {None}"
  shows "buffer_inv (Add hr a) (f(a := f a - 1))"
proof -
  let ?s = "rp_sequenceNumber (fst hr ! a)" and ?g = "f(a := f a - 1)"
  have put: "buffer_inv (put_slot hr' (slot (snd hr') ?s) (Some a)) ?g"
    if "buffer_inv hr' f" "in_buffer (snd hr') a = 0" "map tracking (fst hr') = map tracking (fst hr)" for hr'
  proof (rule put_slot_inv [OF that(1)])
    show "slot (snd hr') ?s < length (rb_packets (snd hr'))"
      using that(1) by (simp add: buffer_inv_def slot_less)
    have "length (fst hr') = length (fst hr)"
      using that(3) map_eq_imp_length_eq by blast
    then show "x < length (fst hr') \<and> slot (snd hr') (rp_sequenceNumber (fst hr' ! x)) = slot (snd hr') ?s"
      if "Some a = Some x" for x
      using \<open>Some a = Some x\<close> a(1) seq_eq_tracking [OF \<open>map tracking (fst hr') = _\<close> a(1)] by simp
  qed (use that a in auto)
  show ?thesis
  proof (cases "rb_started (snd hr)")
    case False
    then have empty: "rb_packets (snd hr) ! slot (snd hr) ?s = None"
      using fresh slot_less [of "snd hr"] i nth_mem by (fastforce simp: buffer_inv_def)
    have "Add hr a = (fst (put_slot hr (slot (snd hr) ?s) (Some a)),
        (snd (put_slot hr (slot (snd hr) ?s) (Some a)))\<lparr>rb_highestAdded := ?s, rb_started := True\<rparr>)"
      using False empty by (simp add: Add_def put_slot_def Let_def split_beta)
    then show ?thesis
      using put [OF i a(2)] by (simp add: buffer_inv_def buf_ok_def slots_ok_def slot_def in_buffer_def)
  next
    case True
    let ?c = "clear_gap hr (rb_highestAdded (snd hr) + 1) ?s"
    have c: "buffer_inv ?c f" "in_buffer (snd ?c) a = 0" "map tracking (fst ?c) = map tracking (fst hr)"
      using clear_gap_inv [OF i] a(2) clear_gap_frame by blast+
    then have c': "buffer_inv (fst ?c, (snd ?c)\<lparr>rb_highestAdded := ?s\<rparr>) f"
      by simp
    consider "?s - rb_highestAdded (snd hr) = 0" | "?s - rb_highestAdded (snd hr) \<noteq> 0"
        "?s - rb_highestAdded (snd hr) < uint16SizeHalf"
      | "?s - rb_highestAdded (snd hr) \<noteq> 0" "\<not> ?s - rb_highestAdded (snd hr) < uint16SizeHalf"
      by blast
    then show ?thesis
    proof cases
      case 1
      then have "Add hr a = hr"
        using True by (simp add: Add_def Let_def split_beta)
      then show ?thesis
        using i by (auto simp: buffer_inv_def intro: counted_mono)
    next
      case 2
      then have "Add hr a = put_slot (fst ?c, (snd ?c)\<lparr>rb_highestAdded := ?s\<rparr>)
          (slot ((snd ?c)\<lparr>rb_highestAdded := ?s\<rparr>) ?s) (Some a)"
        using True by (simp add: Add_def Let_def split_beta)
      then show ?thesis
        using put [OF c'] c by simp
    next
      case 3
      then have "Add hr a = put_slot hr (slot (snd hr) ?s) (Some a)"
        using True by (simp add: Add_def Let_def split_beta)
      then show ?thesis
        using put [OF i a(2)] by simp
    qed
  qed
qed

lemma lookup_in_buffer:
  assumes "buffer_inv hr f" "lookup hr s = Some a"
  shows "a < length (fst hr)" "in_buffer (snd hr) a = 1" "rp_sequenceNumber (fst hr ! a) = s"
proof -
  have "rb_packets (snd hr) ! slot (snd hr) s = Some a" "rp_sequenceNumber (fst hr ! a) = s"
    using assms(2) by (auto simp: lookup_def split: if_splits option.splits)
  moreover have "slot (snd hr) s < length (rb_packets (snd hr))"
    using assms(1) by (simp add: buffer_inv_def slot_less)
  ultimately show "a < length (fst hr)" "in_buffer (snd hr) a = 1" "rp_sequenceNumber (fst hr ! a) = s"
    using assms(1) by (auto simp: buffer_inv_def slots_ok_def in_buffer_def in_set_conv_nth)
qed

text \<open>A buffered packet has not been released, so \<open>Retain\<close> never fails on it.\<close>

lemma Get_lookup:
  assumes i: "buffer_inv hr f" and f: "\<And>a. 0 \<le> f a"
  shows "Get hr s = (case lookup hr s of
      None \<Rightarrow> (None, fst hr)
    | Some a \<Rightarrow> (Some a, (fst hr)[a := (fst hr ! a)\<lparr>rp_count := rp_count (fst hr ! a) + 1\<rparr>]))"
proof (cases "lookup hr s")
  case None
  then show ?thesis
    using reach_iff [of "snd hr" s] i
    by (auto simp: Get_def lookup_def Let_def split_beta buffer_inv_def
        split: if_splits option.splits sum.splits)
next
  case (Some a)
  have "0 < rp_count (fst hr ! a)"
    using lookup_in_buffer [OF i Some] i f [of a] by (fastforce simp: buffer_inv_def counted_def)
  then show ?thesis
    using Some reach_iff [of "snd hr" s] i
    by (auto simp: Get_def lookup_def Let_def split_beta buffer_inv_def Retain_def
        split: if_splits option.splits)
qed

section \<open>Interleavings of sends, requests and resends\<close>

record nack_state =
  ns_stream :: localStream
  ns_pending :: "resend_next list"
  ns_decided :: "(nat \<times> time) list"
  ns_written :: "rtp_write list"

definition holders :: "resend_next list \<Rightarrow> nat \<Rightarrow> int" where
  "holders ns a = int (count_list ns (Drop a) + count_list ns (Send a))"

inductive nack_step :: "responder \<Rightarrow> stream_info \<Rightarrow> nack_state \<Rightarrow> nack_state \<Rightarrow> bool"
  for r info where
  sent: "stream_write r info (ns_stream \<sigma>) header payload nextSeq now = (res, st)
    \<Longrightarrow> nack_step r info \<sigma> (\<sigma>\<lparr>ns_stream := st\<rparr>)"
| requested: "resend_check (ns_stream \<sigma>) s now = (n, st)
    \<Longrightarrow> nack_step r info \<sigma> (\<sigma>\<lparr>ns_stream := st, ns_pending := ns_pending \<sigma> @ [n],
          ns_decided := ns_decided \<sigma> @ (case n of Send a \<Rightarrow> [(a, now)] | _ \<Rightarrow> [])\<rparr>)"
| finished: "n \<in> set (ns_pending \<sigma>) \<Longrightarrow> resend_finish (ns_stream \<sigma>) n = (ws, st)
    \<Longrightarrow> nack_step r info \<sigma> (\<sigma>\<lparr>ns_stream := st, ns_pending := remove1 n (ns_pending \<sigma>),
          ns_written := ns_written \<sigma> @ ws\<rparr>)"

inductive nack_reach :: "responder \<Rightarrow> stream_info \<Rightarrow> nack_state \<Rightarrow> bool" for r info where
  bound: "re_streams (BindLocalStream (\<lambda>_. True) r info) (si_SSRC info) = Some st \<Longrightarrow>
      newRTPBuffer (re_size r) = Inr b \<Longrightarrow>
      nack_reach r info \<lparr>ns_stream = st, ns_pending = [], ns_decided = [], ns_written = []\<rparr>"
| step: "nack_reach r info \<sigma> \<Longrightarrow> nack_step r info \<sigma> \<sigma>' \<Longrightarrow> nack_reach r info \<sigma>'"

inductive_cases nack_stepE: "nack_step r info \<sigma> \<sigma>'"

definition times_of :: "nat \<Rightarrow> (nat \<times> time) list \<Rightarrow> time list" where
  "times_of a ds = map snd (filter (\<lambda>d. fst d = a) ds)"

text \<open>The retransmission record of one packet agrees with the decisions taken for it.\<close>

definition limits_ok :: "localStream \<Rightarrow> retainablePacket \<Rightarrow> time list \<Rightarrow> bool" where
  "limits_ok st p ts \<longleftrightarrow>
     (ls_maxRetries st > 0 \<longrightarrow> length ts = unat (rp_resendCount p) \<and> rp_resendCount p \<le> ls_maxRetries st) \<and>
     rp_lastResendAt p = (if ts = [] then None else Some (last ts)) \<and>
     (ls_minInterval st > 0 \<longrightarrow> sorted_wrt (\<lambda>t t'. ls_minInterval st \<le> t' - t) ts) \<and>
     (ls_maxAge st > 0 \<longrightarrow> (\<forall>t \<in> set ts. t - rp_sentAt p \<le> ls_maxAge st))"

definition nack_inv :: "responder \<Rightarrow> nack_state \<Rightarrow> bool" where
  "nack_inv r \<sigma> \<longleftrightarrow> (let st = ns_stream \<sigma>; hr = (ls_heap st, ls_buffer st) in
     buffer_inv hr (holders (ns_pending \<sigma>)) \<and>
     (\<forall>a. 0 < holders (ns_pending \<sigma>) a \<longrightarrow> a < length (ls_heap st)) \<and>
     (rb_started (ls_buffer st) \<or> set (rb_packets (ls_buffer st)) \<subseteq> {None}) \<and>
     (\<forall>d \<in> set (ns_decided \<sigma>). fst d < length (ls_heap st)) \<and>
     (\<forall>a < length (ls_heap st). limits_ok st (ls_heap st ! a) (times_of a (ns_decided \<sigma>))) \<and>
     ls_maxRetries st = re_maxRetries r \<and> ls_minInterval st = re_minInterval r \<and>
     ls_maxAge st = re_maxAge r \<and>
     (\<forall>w \<in> set (ns_written \<sigma>). fst w \<noteq> None))"

lemma Add_tracking: "map tracking (fst (Add hr a)) = map tracking (fst hr)"
  by (auto simp: Add_def Let_def split_beta clear_gap_frame [THEN conjunct1])

lemma Add_started: "rb_started (snd (Add hr a))"
  using clear_gap_frame [of hr] by (simp add: Add_def Let_def split_beta)

lemma tracking_nth:
  assumes "map tracking h' = map tracking h"
  shows "length h' = length h" "a < length h \<Longrightarrow> tracking (h' ! a) = tracking (h ! a)"
proof -
  show len: "length h' = length h"
    using assms map_eq_imp_length_eq by blast
  show "a < length h \<Longrightarrow> tracking (h' ! a) = tracking (h ! a)"
    using arg_cong [OF assms, of "\<lambda>t. t ! a"] len by simp
qed

lemma limits_ok_tracking: "tracking p = tracking q \<Longrightarrow> limits_ok st p ts \<longleftrightarrow> limits_ok st q ts"
  by (simp add: limits_ok_def)

lemma limits_ok_stream [simp]:
  "limits_ok (st\<lparr>ls_heap := h\<rparr>) = limits_ok st" "limits_ok (st\<lparr>ls_heap := h, ls_buffer := b\<rparr>) = limits_ok st"
  by (simp_all add: fun_eq_iff limits_ok_def)

definition fresh_packet :: "retainablePacket \<Rightarrow> bool" where
  "fresh_packet p \<longleftrightarrow> rp_count p = 1 \<and> rp_header p \<noteq> None \<and> rp_lastResendAt p = None \<and> rp_resendCount p = 0"

lemma NewPacket_fresh: "NewPacket header payload rs rp q now = Inr p \<Longrightarrow> fresh_packet p"
  by (auto simp: NewPacket_def fresh_packet_def Let_def split: if_splits)

lemma NewPacketNoOp_fresh: "NewPacketNoOp header payload now = Inr p \<Longrightarrow> fresh_packet p"
  by (auto simp: NewPacketNoOp_def fresh_packet_def)

lemma stream_write_cases:
  assumes "stream_write r info st header payload q now = (res, st')"
  shows "st' = st \<or> (\<exists>p. fresh_packet p \<and> st' = add_packet st p)"
  using assms
  by (auto simp: stream_write_def split: if_splits sum.splits dest: NewPacket_fresh NewPacketNoOp_fresh)

text \<open>The heap with a new packet, its one reference held by the caller of \<open>Add\<close>.\<close>

lemma extend_inv:
  assumes i: "buffer_inv (h, b) f" and p: "fresh_packet p" and f: "\<And>a. 0 < f a \<Longrightarrow> a < length h"
    "\<And>a. 0 \<le> f a"
  shows "buffer_inv (h @ [p], b) (f(length h := 1))" "in_buffer b (length h) = 0" "f (length h) = 0"
proof -
  show nb: "in_buffer b (length h) = 0"
    using i by (auto simp: buffer_inv_def slots_ok_def in_buffer_def in_set_conv_nth)
  show "f (length h) = 0"
    using f(1) [of "length h"] f(2) [of "length h"] by force
  have "slots_ok (h @ [p], b)"
    using i by (auto simp: buffer_inv_def slots_ok_def nth_append)
  moreover have "counted (h @ [p]) (\<lambda>a. in_buffer b a + (f(length h := 1)) a)"
    using i p nb by (auto simp: buffer_inv_def counted_def fresh_packet_def nth_append less_Suc_eq)
  ultimately show "buffer_inv (h @ [p], b) (f(length h := 1))"
    using i by (simp add: buffer_inv_def)
qed

lemma holders_nonneg [simp]: "0 \<le> holders ns a"
  by (simp add: holders_def)

lemma add_packet_inv:
  assumes J: "nack_inv r \<sigma>" and p: "fresh_packet p"
  shows "nack_inv r (\<sigma>\<lparr>ns_stream := add_packet (ns_stream \<sigma>) p\<rparr>)"
proof -
  let ?st = "ns_stream \<sigma>" and ?f = "holders (ns_pending \<sigma>)"
  let ?h = "ls_heap ?st" and ?b = "ls_buffer ?st"
  let ?A = "Add (?h @ [p], ?b) (length ?h)"
  have bi: "buffer_inv (?h, ?b) ?f" and lt: "\<And>a. 0 < ?f a \<Longrightarrow> a < length ?h"
    and fr: "rb_started ?b \<or> set (rb_packets ?b) \<subseteq> {None}"
    and dl: "\<forall>d \<in> set (ns_decided \<sigma>). fst d < length ?h"
    and li: "\<forall>a < length ?h. limits_ok ?st (?h ! a) (times_of a (ns_decided \<sigma>))"
    using J by (simp_all add: nack_inv_def Let_def)
  note e = extend_inv [OF bi p lt holders_nonneg]
  have "buffer_inv ?A ((?f(length ?h := 1))(length ?h := (?f(length ?h := 1)) (length ?h) - 1))"
    using e fr by (intro Add_inv) simp_all
  moreover have "(?f(length ?h := 1))(length ?h := (?f(length ?h := 1)) (length ?h) - 1) = ?f"
    using e(3) by auto
  ultimately have A: "buffer_inv ?A ?f"
    by simp
  have tr: "map tracking (fst ?A) = map tracking (?h @ [p])"
    using Add_tracking [of "(?h @ [p], ?b)"] by simp
  note tn = tracking_nth [OF tr]
  have "times_of (length ?h) (ns_decided \<sigma>) = []"
    using dl by (auto simp: times_of_def filter_empty_conv)
  then have "limits_ok ?st p (times_of (length ?h) (ns_decided \<sigma>))"
    using p by (simp add: limits_ok_def fresh_packet_def)
  then have "limits_ok ?st ((?h @ [p]) ! a) (times_of a (ns_decided \<sigma>))" if "a < length (?h @ [p])" for a
    using li that by (cases "a = length ?h") (simp_all add: nth_append)
  then have "\<forall>a < length (fst ?A). limits_ok ?st (fst ?A ! a) (times_of a (ns_decided \<sigma>))"
    using tn limits_ok_tracking by metis
  then show ?thesis
    using J A tn(1) lt dl Add_started [of "(?h @ [p], ?b)" "length ?h"]
    by (auto simp: nack_inv_def Let_def add_packet_def split_beta less_SucI)
qed

lemma retain_inv:
  assumes i: "buffer_inv (h, b) f" and a: "a < length h" "rp_header (h ! a) \<noteq> None"
    and q: "rp_count q = rp_count (h ! a) + 1" "rp_header q = rp_header (h ! a)"
      "rp_sequenceNumber q = rp_sequenceNumber (h ! a)"
  shows "buffer_inv (h[a := q], b) (f(a := f a + 1))"
  using assms by (auto simp: buffer_inv_def slots_ok_def counted_def nth_update_if)

lemma holders_append: "holders (ns @ [n]) =
    (case n of Skip \<Rightarrow> holders ns | Drop a \<Rightarrow> (holders ns)(a := holders ns a + 1)
     | Send a \<Rightarrow> (holders ns)(a := holders ns a + 1))"
  by (auto simp: holders_def fun_eq_iff split: resend_next.split)

text \<open>A packet the checks let through may be sent once more.\<close>

lemma limits_ok_send:
  assumes l: "limits_ok st p ts"
    and age: "\<not> (ls_maxAge st > 0 \<and> now - rp_sentAt p > ls_maxAge st)"
    and retries: "\<not> (ls_maxRetries st > 0 \<and> rp_resendCount p \<ge> ls_maxRetries st)"
    and interval: "\<not> (ls_minInterval st > 0 \<and> (case rp_lastResendAt p of None \<Rightarrow> False
        | Some l \<Rightarrow> now - l < ls_minInterval st))"
  shows "limits_ok st (p\<lparr>rp_lastResendAt := Some now, rp_resendCount := rp_resendCount p + 1\<rparr>) (ts @ [now])"
proof -
  have "unat (rp_resendCount p + 1) = Suc (unat (rp_resendCount p)) \<and> rp_resendCount p + 1 \<le> ls_maxRetries st"
    if "ls_maxRetries st > 0"
  proof -
    have lt: "rp_resendCount p < ls_maxRetries st"
      using retries that by simp
    have "unat (ls_maxRetries st) < 2 ^ LENGTH(8)"
      by (rule unsigned_less)
    then have "unat (rp_resendCount p + 1) = Suc (unat (rp_resendCount p))"
      using unat_add_lem [of "rp_resendCount p" 1] lt
      by (simp add: word_less_nat_alt)
    then show ?thesis
      using lt by (simp add: word_le_nat_alt word_less_nat_alt)
  qed
  moreover have "\<forall>t \<in> set ts. ls_minInterval st \<le> now - t" if m: "ls_minInterval st > 0"
  proof (cases ts rule: rev_cases)
    case (snoc us u)
    then have "sorted_wrt (\<lambda>t t'. ls_minInterval st \<le> t' - t) (us @ [u])" "ls_minInterval st \<le> now - u"
      using l m interval by (auto simp: limits_ok_def)
    then show ?thesis
      using snoc m by (fastforce simp: sorted_wrt_append)
  qed simp
  ultimately show ?thesis
    using l age by (auto simp: limits_ok_def sorted_wrt_append)
qed

lemma times_of_snoc: "times_of b (ds @ [(a, t)]) = times_of b ds @ (if a = b then [t] else [])"
  by (simp add: times_of_def)

lemma resend_taken_inv:
  assumes J: "nack_inv r \<sigma>" and n: "n = Drop a \<and> ds = [] \<or> n = Send a \<and> ds = [(a, now)]"
    and a: "a < length (ls_heap (ns_stream \<sigma>))" "0 < rp_count (ls_heap (ns_stream \<sigma>) ! a)"
    and q: "rp_count q = rp_count (ls_heap (ns_stream \<sigma>) ! a) + 1"
      "rp_header q = rp_header (ls_heap (ns_stream \<sigma>) ! a)"
      "rp_sequenceNumber q = rp_sequenceNumber (ls_heap (ns_stream \<sigma>) ! a)"
    and l: "limits_ok (ns_stream \<sigma>) q (times_of a (ns_decided \<sigma>) @ map snd ds)"
  shows "nack_inv r (\<sigma>\<lparr>ns_stream := (ns_stream \<sigma>)\<lparr>ls_heap := (ls_heap (ns_stream \<sigma>))[a := q]\<rparr>,
    ns_pending := ns_pending \<sigma> @ [n], ns_decided := ns_decided \<sigma> @ ds\<rparr>)"
proof -
  let ?st = "ns_stream \<sigma>" and ?f = "holders (ns_pending \<sigma>)"
  let ?h = "ls_heap ?st"
  have bi: "buffer_inv (?h, ls_buffer ?st) ?f"
    using J by (simp add: nack_inv_def Let_def)
  then have "rp_header (?h ! a) \<noteq> None"
    using a by (auto simp: buffer_inv_def counted_def)
  then have b: "buffer_inv (?h[a := q], ls_buffer ?st) (?f(a := ?f a + 1))"
    using retain_inv [OF bi] a q by simp
  have f: "holders (ns_pending \<sigma> @ [n]) = ?f(a := ?f a + 1)"
    using n by (auto simp: holders_append)
  have t: "times_of b (ns_decided \<sigma> @ ds) = (if b = a then times_of a (ns_decided \<sigma>) @ map snd ds
      else times_of b (ns_decided \<sigma>))" for b
    using n by (auto simp: times_of_snoc)
  have lt: "\<forall>d \<in> set (ns_decided \<sigma> @ ds). fst d < length ?h"
    using J n a by (auto simp: nack_inv_def Let_def)
  have "\<forall>b < length ?h. limits_ok ?st (?h[a := q] ! b) (times_of b (ns_decided \<sigma> @ ds))"
    using J l by (simp add: t nth_update_if nack_inv_def Let_def)
  then show ?thesis
    using J a b f lt by (simp add: nack_inv_def Let_def)
qed

lemma resend_check_inv:
  assumes J: "nack_inv r \<sigma>" and c: "resend_check (ns_stream \<sigma>) s now = (n, st)"
  shows "nack_inv r (\<sigma>\<lparr>ns_stream := st, ns_pending := ns_pending \<sigma> @ [n],
          ns_decided := ns_decided \<sigma> @ (case n of Send a \<Rightarrow> [(a, now)] | _ \<Rightarrow> [])\<rparr>)"
proof -
  let ?st = "ns_stream \<sigma>"
  let ?h = "ls_heap ?st" and ?hr = "(ls_heap ?st, ls_buffer ?st)"
  have bi: "buffer_inv ?hr (holders (ns_pending \<sigma>))"
    using J by (simp add: nack_inv_def Let_def)
  note G = Get_lookup [OF bi holders_nonneg, of s]
  show ?thesis
  proof (cases "lookup ?hr s")
    case None
    then have "n = Skip" "st = ?st"
      using c G by (simp_all add: resend_check_def)
    then show ?thesis
      using J by (simp add: nack_inv_def Let_def holders_append)
  next
    case (Some a)
    let ?p = "(?h ! a)\<lparr>rp_count := rp_count (?h ! a) + 1\<rparr>"
    let ?q = "?p\<lparr>rp_lastResendAt := Some now, rp_resendCount := rp_resendCount (?h ! a) + 1\<rparr>"
    have a: "a < length ?h" and ib: "in_buffer (ls_buffer ?st) a = 1"
      using lookup_in_buffer [OF bi Some] by simp_all
    have "in_buffer (ls_buffer ?st) a + holders (ns_pending \<sigma>) a \<le> rp_count (?h ! a)"
      using bi a by (simp add: buffer_inv_def counted_def)
    then have pos: "0 < rp_count (?h ! a)"
      using ib holders_nonneg [of "ns_pending \<sigma>" a] by linarith
    have "limits_ok ?st (?h ! a) (times_of a (ns_decided \<sigma>))"
      using J a by (simp add: nack_inv_def Let_def)
    then have lp: "limits_ok ?st ?p (times_of a (ns_decided \<sigma>))"
      using limits_ok_tracking [of ?p "?h ! a"] by simp
    note G' = G [unfolded Some option.case fst_conv]
    consider "n = Drop a" "st = ?st\<lparr>ls_heap := ?h[a := ?p]\<rparr>"
      | "n = Send a" "st = ?st\<lparr>ls_heap := ?h[a := ?q]\<rparr>"
        "limits_ok ?st ?q (times_of a (ns_decided \<sigma>) @ [now])"
      using c G' a limits_ok_send [OF lp, of now]
      by (auto simp: resend_check_def Let_def split: if_splits)
    then show ?thesis
    proof cases
      case 1
      then show ?thesis
        using resend_taken_inv [OF J, of n a "[]" now ?p] a pos lp by simp
    next
      case 2
      then show ?thesis
        using resend_taken_inv [OF J, of n a "[(a, now)]" now ?q] a pos by simp
    qed
  qed
qed

lemma holders_remove:
  assumes "n \<in> set ns"
  shows "holders ns a = holders (remove1 n ns) a + (if n = Drop a \<or> n = Send a then 1 else 0)"
proof -
  have "0 < count_list ns n"
    using assms by (simp add: count_list_0_iff flip: neq0_conv)
  then show ?thesis
    by (auto simp: holders_def)
qed

lemma resend_finish_inv:
  assumes J: "nack_inv r \<sigma>" and n: "n \<in> set (ns_pending \<sigma>)"
    and c: "resend_finish (ns_stream \<sigma>) n = (ws, st)"
  shows "nack_inv r (\<sigma>\<lparr>ns_stream := st, ns_pending := remove1 n (ns_pending \<sigma>),
          ns_written := ns_written \<sigma> @ ws\<rparr>)"
proof (cases "n = Skip")
  case True
  then have "holders (remove1 n (ns_pending \<sigma>)) = holders (ns_pending \<sigma>)"
    using holders_remove [OF n] by auto
  then show ?thesis
    using J c True by (simp add: resend_finish_def nack_inv_def Let_def)
next
  case False
  then obtain a where a: "n = Drop a \<or> n = Send a"
    by (cases n) auto
  let ?st = "ns_stream \<sigma>" and ?f = "holders (ns_pending \<sigma>)" and ?g = "holders (remove1 n (ns_pending \<sigma>))"
  let ?h = "ls_heap ?st"
  have bi: "buffer_inv (?h, ls_buffer ?st) ?f"
    using J by (simp add: nack_inv_def Let_def)
  have g: "?f a = ?g a + 1" "\<And>b. b \<noteq> a \<Longrightarrow> ?f b = ?g b"
    using holders_remove [OF n] a by auto
  then have pos: "0 < ?f a"
    using holders_nonneg [of "remove1 n (ns_pending \<sigma>)" a] by linarith
  then have lt: "a < length ?h"
    using J by (simp add: nack_inv_def Let_def)
  have "in_buffer (ls_buffer ?st) a + ?f a \<le> rp_count (?h ! a)" "0 \<le> in_buffer (ls_buffer ?st) a"
    using bi lt by (simp_all add: buffer_inv_def counted_def in_buffer_def)
  then have "0 < rp_count (?h ! a)"
    using pos by linarith
  then have hd: "rp_header (?h ! a) \<noteq> None"
    using bi lt by (auto simp: buffer_inv_def counted_def)
  have "counted (release_at ?h a) (\<lambda>b. in_buffer (ls_buffer ?st) b + ?g b)"
    using bi g lt by (intro counted_release_owner [where f = "\<lambda>b. in_buffer (ls_buffer ?st) b + ?f b"])
      (auto simp: buffer_inv_def)
  moreover have tr: "map tracking (release_at ?h a) = map tracking ?h"
    by simp
  have "slots_ok (release_at ?h a, ls_buffer ?st)"
    using bi seq_eq_tracking [OF tr] by (auto simp: buffer_inv_def slots_ok_def)
  ultimately have b: "buffer_inv (release_at ?h a, ls_buffer ?st) ?g"
    using bi by (simp add: buffer_inv_def)
  have st: "st = ?st\<lparr>ls_heap := release_at ?h a\<rparr>" and ws: "\<forall>w \<in> set ws. fst w \<noteq> None"
    using c a hd by (auto simp: resend_finish_def)
  have li: "\<forall>b < length ?h. limits_ok ?st (?h ! b) (times_of b (ns_decided \<sigma>))"
    and hl: "\<forall>b. 0 < ?f b \<longrightarrow> b < length ?h"
    using J by (simp_all add: nack_inv_def Let_def)
  have "\<forall>b < length ?h. limits_ok ?st (release_at ?h a ! b) (times_of b (ns_decided \<sigma>))"
    using li limits_ok_tracking [OF tracking_nth(2) [OF tr]] by blast
  moreover have "b < length ?h" if "0 < ?g b" for b
    using that hl g lt by (cases "b = a") simp_all
  ultimately show ?thesis
    using J b st ws by (auto simp: nack_inv_def Let_def)
qed

lemma nack_step_inv: "nack_step r info \<sigma> \<sigma>' \<Longrightarrow> nack_inv r \<sigma> \<Longrightarrow> nack_inv r \<sigma>'"
proof (erule nack_stepE)
  fix header payload nextSeq now res st
  assume "nack_inv r \<sigma>" "\<sigma>' = \<sigma>\<lparr>ns_stream := st\<rparr>"
    "stream_write r info (ns_stream \<sigma>) header payload nextSeq now = (res, st)"
  then show "nack_inv r \<sigma>'"
    using stream_write_cases add_packet_inv by fastforce
qed (auto intro: resend_check_inv resend_finish_inv)

lemma nack_reach_inv: "nack_reach r info \<sigma> \<Longrightarrow> nack_inv r \<sigma>"
proof (induction rule: nack_reach.induct)
  case (bound st b)
  then have st: "st = \<lparr>ls_heap = [], ls_buffer = b, ls_maxRetries = re_maxRetries r,
      ls_minInterval = re_minInterval r, ls_maxAge = re_maxAge r\<rparr>"
    by (simp add: BindLocalStream_def)
  have b: "set (rb_packets b) \<subseteq> {None}"
    using bound(2) by (auto simp: newRTPBuffer_def split: if_splits)
  then have "slots_ok ([], b)"
    using nth_mem by (fastforce simp: slots_ok_def)
  then show ?case
    using st b newRTPBuffer_ok [OF bound(2)]
    by (simp add: nack_inv_def Let_def buffer_inv_def counted_def holders_def)
next
  case (step \<sigma> \<sigma>')
  then show ?case using nack_step_inv by blast
qed

section \<open>The contract of a packet history\<close>

text \<open>What a responder needs of its history: a packet stored ahead of the others is found, the
  packets less than \<open>cap\<close> behind it stay as they were, and older ones are gone.\<close>

locale packet_history =
  fixes store :: "'s \<Rightarrow> 'p \<Rightarrow> 's"
    and find :: "'s \<Rightarrow> uint16 \<Rightarrow> nat option"
    and num :: "'p \<Rightarrow> uint16"
    and newest :: "'s \<Rightarrow> uint16"
    and handle :: "'s \<Rightarrow> nat"
    and cap :: "'s \<Rightarrow> nat"
    and inv :: "'s \<Rightarrow> bool"
    and ok :: "'p \<Rightarrow> bool"
  assumes find_store: "inv s \<Longrightarrow> ok p \<Longrightarrow> 0 < unat (num p - newest s) \<Longrightarrow> unat (num p - newest s) < 2 ^ 15 \<Longrightarrow>
      find (store s p) k = (if k = num p then Some (handle s)
        else if unat (num p - k) < cap s then find s k else None)"
    and newest_store: "inv s \<Longrightarrow> ok p \<Longrightarrow> 0 < unat (num p - newest s) \<Longrightarrow> unat (num p - newest s) < 2 ^ 15 \<Longrightarrow>
      newest (store s p) = num p"
    and handle_store: "inv s \<Longrightarrow> ok p \<Longrightarrow> handle (store s p) = Suc (handle s)"
    and cap_store: "inv s \<Longrightarrow> ok p \<Longrightarrow> cap (store s p) = cap s"
    and cap_half: "inv s \<Longrightarrow> cap s \<le> 2 ^ 15"
    and inv_store: "inv s \<Longrightarrow> ok p \<Longrightarrow> inv (store s p)"
begin

abbreviation in_order :: "'s \<Rightarrow> 'p list \<Rightarrow> bool" where
  "in_order s ps \<equiv> (\<forall>i < length ps. ok (ps ! i) \<and> num (ps ! i) = newest s + 1 + of_nat i)"

lemma in_order_snoc:
  assumes "in_order s (ps @ [p])"
  shows "in_order s ps" "num p = newest s + 1 + of_nat (length ps)" "ok p"
proof -
  show "in_order s ps"
  proof (intro allI impI)
    fix i assume "i < length ps"
    then show "ok (ps ! i) \<and> num (ps ! i) = newest s + 1 + of_nat i"
      using assms [rule_format, of i] by (simp add: nth_append)
  qed
  show "num p = newest s + 1 + of_nat (length ps)" "ok p"
    using assms [rule_format, of "length ps"] by simp_all
qed

lemma store_all_frame:
  assumes "inv s" "in_order s ps"
  shows "inv (foldl store s ps) \<and> handle (foldl store s ps) = handle s + length ps \<and>
    cap (foldl store s ps) = cap s \<and> newest (foldl store s ps) = newest s + of_nat (length ps)"
  using assms(2)
proof (induction ps rule: rev_induct)
  case (snoc p ps)
  let ?t = "foldl store s ps"
  have t: "inv ?t" "handle ?t = handle s + length ps" "cap ?t = cap s" "newest ?t = newest s + of_nat (length ps)"
    using snoc.IH [OF in_order_snoc(1) [OF snoc.prems]] by blast+
  moreover have "num p = newest ?t + 1"
    using in_order_snoc(2) [OF snoc.prems] t(4) by (simp add: algebra_simps)
  moreover have "unat (1 :: uint16) = 1"
    by simp
  ultimately show ?case
    using newest_store [OF t(1) in_order_snoc(3) [OF snoc.prems]] in_order_snoc(3) [OF snoc.prems]
    by (simp add: handle_store cap_store inv_store algebra_simps)
qed (use assms in simp)

lemma recent_found:
  assumes "inv s" "in_order s ps" "i < length ps" "length ps - i \<le> cap s"
  shows "find (foldl store s ps) (num (ps ! i)) = Some (handle s + i)"
  using assms(2-)
proof (induction ps rule: rev_induct)
  case (snoc p ps)
  let ?t = "foldl store s ps"
  note o = in_order_snoc(1) [OF snoc.prems(1)] and p = in_order_snoc(2) [OF snoc.prems(1)]
  note t = store_all_frame [OF assms(1) o]
  have np: "num p = newest ?t + 1"
    using p t by (simp add: algebra_simps)
  have f: "find (store ?t p) k = (if k = num p then Some (handle ?t)
      else if unat (num p - k) < cap s then find ?t k else None)" for k
    using find_store [of ?t p k] t np in_order_snoc(3) [OF snoc.prems(1)] by simp
  show ?case
  proof (cases "i = length ps")
    case True
    then show ?thesis using f t by simp
  next
    case False
    then have i: "i < length ps" "length ps - i < cap s"
      using snoc.prems by auto
    have "num p - num (ps ! i) = of_nat (length ps) - of_nat i"
      using o i(1) p by simp
    then have "num p - num (ps ! i) = of_nat (length ps - i)"
      using i(1) by (simp add: of_nat_diff)
    moreover have "length ps - i < 2 ^ 16"
      using i(2) cap_half [OF assms(1)] by simp
    ultimately have u: "unat (num p - num (ps ! i)) = length ps - i"
      by (simp add: unat_of_nat)
    then have "num (ps ! i) \<noteq> num p"
      using i(1) by auto
    then show ?thesis
      using f u i snoc.IH [OF o] by (simp add: nth_append)
  qed
qed simp

end

text \<open>A stream whose packets are referenced from its buffer alone.\<close>

definition stream_ready :: "localStream \<Rightarrow> bool" where
  "stream_ready st \<longleftrightarrow> buffer_inv (ls_heap st, ls_buffer st) (\<lambda>_. 0) \<and> rb_started (ls_buffer st)"

definition stream_find :: "localStream \<Rightarrow> uint16 \<Rightarrow> nat option" where
  "stream_find st s = fst (Get (ls_heap st, ls_buffer st) s)"

lemma lookup_extend:
  assumes "buffer_inv (h, b) f"
  shows "lookup (h @ [p], b) k = lookup (h, b) k"
  using assms slot_less [of b k]
  by (auto simp: buffer_inv_def lookup_def slots_ok_def nth_append split: option.split)

lemma stream_find_lookup: "stream_ready st \<Longrightarrow> stream_find st s = lookup (ls_heap st, ls_buffer st) s"
  using Get_lookup [of "(ls_heap st, ls_buffer st)" "\<lambda>_. 0" s]
  by (simp add: stream_find_def stream_ready_def split: option.split)

lemma add_packet_ready:
  assumes "stream_ready st" "fresh_packet p"
  shows "stream_ready (add_packet st p)" "length (ls_heap (add_packet st p)) = Suc (length (ls_heap st))"
    "rb_size (ls_buffer (add_packet st p)) = rb_size (ls_buffer st)"
proof -
  let ?hr = "(ls_heap st @ [p], ls_buffer st)" and ?a = "length (ls_heap st)"
  have e: "buffer_inv ?hr ((\<lambda>_. 0)(?a := 1))" "in_buffer (ls_buffer st) ?a = 0"
    using extend_inv [of "ls_heap st" "ls_buffer st" "\<lambda>_. 0" p] assms by (simp_all add: stream_ready_def)
  have "buffer_inv (Add ?hr ?a) (((\<lambda>_. 0)(?a := 1))(?a := ((\<lambda>_. 0)(?a := 1)) ?a - 1))"
    using e assms(1) by (intro Add_inv) (simp_all add: stream_ready_def)
  moreover have "((\<lambda>_. 0 :: int)(?a := 1))(?a := ((\<lambda>_. 0)(?a := 1)) ?a - 1) = (\<lambda>_. 0)"
    by auto
  ultimately show "stream_ready (add_packet st p)"
    by (simp add: stream_ready_def add_packet_def split_beta Add_started)
  show "length (ls_heap (add_packet st p)) = Suc ?a"
    using tracking_nth(1) [OF Add_tracking [of ?hr]] by (simp add: add_packet_def split_beta)
  show "rb_size (ls_buffer (add_packet st p)) = rb_size (ls_buffer st)"
    by (simp add: add_packet_def split_beta Add_def Let_def clear_gap_frame)
qed

interpretation ph: packet_history add_packet stream_find rp_sequenceNumber
    "\<lambda>st. rb_highestAdded (ls_buffer st)" "\<lambda>st. length (ls_heap st)" "\<lambda>st. unat (rb_size (ls_buffer st))"
    stream_ready fresh_packet
proof unfold_locales
  fix st :: localStream and p :: retainablePacket and k
  assume st: "stream_ready st" and p: "fresh_packet p"
  let ?hr = "(ls_heap st @ [p], ls_buffer st)" and ?a = "length (ls_heap st)"
  show "stream_ready (add_packet st p)" "length (ls_heap (add_packet st p)) = Suc ?a"
    "unat (rb_size (ls_buffer (add_packet st p))) = unat (rb_size (ls_buffer st))"
    using add_packet_ready [OF st p] by simp_all
  assume d: "0 < unat (rp_sequenceNumber p - rb_highestAdded (ls_buffer st))"
    "unat (rp_sequenceNumber p - rb_highestAdded (ls_buffer st)) < 2 ^ 15"
  have bi: "buffer_inv (ls_heap st, ls_buffer st) (\<lambda>_. 0)" "rb_started (ls_buffer st)"
    using st by (simp_all add: stream_ready_def)
  then have "buffer_inv ?hr ((\<lambda>_. 0)(?a := 1))"
    using extend_inv p by simp
  then have N: "lookup (Add ?hr ?a) k = (if k = rp_sequenceNumber p then Some ?a
      else if unat (rp_sequenceNumber p - k) < unat (rb_size (ls_buffer st)) then lookup ?hr k else None)"
    "rb_highestAdded (snd (Add ?hr ?a)) = rp_sequenceNumber p"
    using Add_newer(1) [of ?hr "rp_sequenceNumber p" ?a k] Add_newer(2) [of ?hr "rp_sequenceNumber p" ?a] bi(2) d by (simp_all add: buffer_inv_def)
  show "rb_highestAdded (ls_buffer (add_packet st p)) = rp_sequenceNumber p"
    using N(2) by (simp add: add_packet_def split_beta)
  show "stream_find (add_packet st p) k = (if k = rp_sequenceNumber p then Some ?a
      else if unat (rp_sequenceNumber p - k) < unat (rb_size (ls_buffer st)) then stream_find st k else None)"
    using N(1) lookup_extend [OF bi(1)]
    unfolding stream_find_lookup [OF st] stream_find_lookup [OF add_packet_ready(1) [OF st p]]
    by (simp add: add_packet_def split_beta)
next
  fix st :: localStream
  assume "stream_ready st"
  then show "unat (rb_size (ls_buffer st)) \<le> 2 ^ 15"
    using size_le_half [of "ls_buffer st"] by (simp add: stream_ready_def buffer_inv_def)
qed

section \<open>Properties\<close>

text \<open>C3: in every interleaving of outgoing packets, NACK requests and resends, a packet that is
  written again still has its header: no resend ever touches a packet whose references have all
  been released, although the ring buffer may drop it between the decision and the write.\<close>

theorem nack_no_use_after_release:
  "nack_reach r info \<sigma> \<Longrightarrow> w \<in> set (ns_written \<sigma>) \<Longrightarrow> fst w \<noteq> None"
  using nack_reach_inv by (fastforce simp: nack_inv_def Let_def)

definition sample_info :: stream_info where
  "sample_info = \<lparr>si_SSRC = 7, si_SSRCRetransmission = 8, si_PayloadTypeRetransmission = 97,
     si_RTCPFeedback = [(''nack'', '''')]\<rparr>"

definition sample_header :: "uint16 \<Rightarrow> rtp_header" where
  "sample_header s = \<lparr>Padding = False, Marker = False, PayloadType = 96, SequenceNumber = s,
     Timestamp = 0, SSRC = 7, PaddingSize = 0\<rparr>"

definition sample_responder :: responder where
  "sample_responder = \<lparr>re_size = 4, re_copy = True, re_maxRetries = 3, re_minInterval = 20,
     re_maxAge = 100, re_streams = Map.empty\<rparr>"

definition sample_stream :: localStream where
  "sample_stream = \<lparr>ls_heap = [], ls_buffer = \<lparr>rb_packets = replicate 4 None, rb_size = 4,
     rb_highestAdded = 0, rb_started = False\<rparr>, ls_maxRetries = 3, ls_minInterval = 20, ls_maxAge = 100\<rparr>"

text \<open>A run of the sample responder: a packet goes out, is requested and sent again.\<close>

definition sample_run :: "nack_state \<times> rtp_write list" where
  "sample_run =
    (let st1 = snd (stream_write sample_responder sample_info sample_stream (sample_header 10) (Some [1]) 500 0);
         (n, st2) = resend_check st1 10 5;
         (ws, st3) = resend_finish st2 n
     in (\<lparr>ns_stream = st3, ns_pending = [], ns_decided = [(0, 5)], ns_written = ws\<rparr>, ws))"

lemma sample_bound: "nack_reach sample_responder sample_info
    \<lparr>ns_stream = sample_stream, ns_pending = [], ns_decided = [], ns_written = []\<rparr>"
proof (rule nack_reach.bound)
  show b: "newRTPBuffer (re_size sample_responder) = Inr (ls_buffer sample_stream)"
    by (simp add: newRTPBuffer_def sample_responder_def sample_stream_def upt_conv_Cons)
  show "re_streams (BindLocalStream (\<lambda>_. True) sample_responder sample_info) (si_SSRC sample_info) =
      Some sample_stream"
    using b by (simp add: BindLocalStream_def) (simp add: sample_responder_def sample_stream_def)
qed

lemma sample_run_reach: "nack_reach sample_responder sample_info (fst sample_run)"
proof -
  let ?w = "stream_write sample_responder sample_info sample_stream (sample_header 10) (Some [1]) 500 0"
  let ?\<sigma> = "\<lparr>ns_stream = sample_stream, ns_pending = [], ns_decided = [], ns_written = []\<rparr>"
  obtain res st1 where w: "?w = (res, st1)" by fastforce
  have r1: "nack_reach sample_responder sample_info (?\<sigma>\<lparr>ns_stream := st1\<rparr>)"
    using w by (intro nack_reach.step [OF sample_bound] nack_step.sent) simp
  obtain n st2 where c: "resend_check st1 10 5 = (n, st2)" by fastforce
  have "fst (resend_check (snd ?w) 10 5) = Send 0"
    by code_simp
  then have n: "n = Send 0"
    using w c by simp
  obtain ws st3 where f: "resend_finish st2 n = (ws, st3)" by fastforce
  have r2: "nack_reach sample_responder sample_info
      \<lparr>ns_stream = st2, ns_pending = [n], ns_decided = [(0, 5)], ns_written = []\<rparr>"
    using nack_reach.step [OF r1 nack_step.requested, of 10 5 n st2] c n by simp
  have "nack_reach sample_responder sample_info
      \<lparr>ns_stream = st3, ns_pending = [], ns_decided = [(0, 5)], ns_written = ws\<rparr>"
    using nack_reach.step [OF r2 nack_step.finished, of n ws st3] f by simp
  then show ?thesis
    using w c f by (simp add: sample_run_def)
qed

lemma sample_run_written: "ns_written (fst sample_run) =
    [(Some ((sample_header 10)\<lparr>SSRC := 8, PayloadType := 97, SequenceNumber := 500\<rparr>), [0, 10, 1])]"
  by code_simp

theorem nack_no_use_after_release_witness:
  "ns_written (fst sample_run) \<noteq> [] \<and> fst (hd (ns_written (fst sample_run))) \<noteq> None"
  using nack_no_use_after_release [OF sample_run_reach, of "hd (ns_written (fst sample_run))"]
  by (simp add: sample_run_written)

text \<open>C12: in every reachable state each packet has been sent again at most \<open>maxRetries\<close> times, two
  resends of it are at least \<open>minInterval\<close> apart, and none happened later than \<open>maxAge\<close> after the
  packet was first sent (each limit when it is switched on).\<close>

theorem nack_resend_limits:
  assumes "nack_reach r info \<sigma>" "a < length (ls_heap (ns_stream \<sigma>))"
  shows "(re_maxRetries r = 0 \<or> length (times_of a (ns_decided \<sigma>)) \<le> unat (re_maxRetries r)) \<and>
    (re_minInterval r \<le> 0 \<or>
       sorted_wrt (\<lambda>t t'. re_minInterval r \<le> t' - t) (times_of a (ns_decided \<sigma>))) \<and>
    (re_maxAge r \<le> 0 \<or> list_all (\<lambda>t. t - rp_sentAt (ls_heap (ns_stream \<sigma>) ! a) \<le> re_maxAge r)
       (times_of a (ns_decided \<sigma>)))"
proof -
  have l: "limits_ok (ns_stream \<sigma>) (ls_heap (ns_stream \<sigma>) ! a) (times_of a (ns_decided \<sigma>))"
    and c: "ls_maxRetries (ns_stream \<sigma>) = re_maxRetries r" "ls_minInterval (ns_stream \<sigma>) = re_minInterval r"
      "ls_maxAge (ns_stream \<sigma>) = re_maxAge r"
    using nack_reach_inv [OF assms(1)] assms(2) by (simp_all add: nack_inv_def Let_def)
  have "length (times_of a (ns_decided \<sigma>)) \<le> unat (re_maxRetries r)" if "re_maxRetries r \<noteq> 0"
    using l c that by (simp add: limits_ok_def word_le_nat_alt word_neq_0_conv)
  then show ?thesis
    using l c by (auto simp: limits_ok_def list_all_iff)
qed

theorem nack_resend_limits_witness:
  "(re_maxRetries sample_responder = 0
      \<or> length (times_of 0 (ns_decided (fst sample_run))) \<le> unat (re_maxRetries sample_responder)) \<and>
    (re_minInterval sample_responder \<le> 0 \<or>
       sorted_wrt (\<lambda>t t'. re_minInterval sample_responder \<le> t' - t) (times_of 0 (ns_decided (fst sample_run)))) \<and>
    (re_maxAge sample_responder \<le> 0 \<or>
       list_all (\<lambda>t. t - rp_sentAt (ls_heap (ns_stream (fst sample_run)) ! 0) \<le> re_maxAge sample_responder)
       (times_of 0 (ns_decided (fst sample_run))))"
proof (rule nack_resend_limits [OF sample_run_reach])
  show "0 < length (ls_heap (ns_stream (fst sample_run)))"
    by code_simp
qed

text \<open>The packets that can be sent again are the newest ones. When packets with consecutive
  numbers have gone through the ring buffer, \<open>Get\<close> finds each of the last \<open>size\<close> of them, and it is
  the packet that was stored, not another one that uses the same slot.\<close>

theorem nack_recent_packets_found:
  assumes "stream_ready st" "i < length ps" "length ps - i \<le> unat (rb_size (ls_buffer st))"
    and "\<forall>i < length ps. fresh_packet (ps ! i) \<and>
      rp_sequenceNumber (ps ! i) = rb_highestAdded (ls_buffer st) + 1 + of_nat i"
  shows "let st' = foldl add_packet st ps in
    fst (Get (ls_heap st', ls_buffer st') (rp_sequenceNumber (ps ! i))) = Some (length (ls_heap st) + i)"
  using ph.recent_found [OF assms(1,4,2,3)] by (simp add: Let_def stream_find_def)

definition sample_sent :: localStream where
  "sample_sent = snd (stream_write sample_responder sample_info sample_stream (sample_header 10) (Some [1]) 500 0)"

lemma sample_sent_ready: "stream_ready sample_sent"
proof -
  let ?w = "stream_write sample_responder sample_info sample_stream (sample_header 10) (Some [1]) 500 0"
  have "nack_reach sample_responder sample_info
      \<lparr>ns_stream = sample_sent, ns_pending = [], ns_decided = [], ns_written = []\<rparr>"
    using nack_reach.step [OF sample_bound nack_step.sent [of _ _ _ "sample_header 10" "Some [1]" 500 0 "fst ?w" "snd ?w"]]
    by (simp add: sample_sent_def)
  from nack_reach_inv [OF this] have "buffer_inv (ls_heap sample_sent, ls_buffer sample_sent) (holders [])"
    by (simp add: nack_inv_def Let_def)
  moreover have "holders [] = (\<lambda>_. 0)"
    by (simp add: fun_eq_iff holders_def)
  moreover have "rb_started (ls_buffer sample_sent)"
    by code_simp
  ultimately show ?thesis
    by (simp add: stream_ready_def)
qed

definition sample_copy :: "uint16 \<Rightarrow> retainablePacket" where
  "sample_copy s = \<lparr>rp_count = 1, rp_header = Some (sample_header s), rp_payload = [1], rp_sequenceNumber = s,
     rp_sentAt = 0, rp_lastResendAt = None, rp_resendCount = 0\<rparr>"

theorem nack_recent_packets_found_witness:
  "let st' = foldl add_packet sample_sent [sample_copy 11, sample_copy 12] in
    fst (Get (ls_heap st', ls_buffer st') (rp_sequenceNumber ([sample_copy 11, sample_copy 12] ! 0)))
      = Some (length (ls_heap sample_sent) + 0)"
proof (rule nack_recent_packets_found [OF sample_sent_ready])
  have "rb_highestAdded (ls_buffer sample_sent) = 10 \<and> unat (rb_size (ls_buffer sample_sent)) = 4"
    by code_simp
  then show "length [sample_copy 11, sample_copy 12] - 0 \<le> unat (rb_size (ls_buffer sample_sent))"
    "\<forall>i < length [sample_copy 11, sample_copy 12]. fresh_packet ([sample_copy 11, sample_copy 12] ! i) \<and>
      rp_sequenceNumber ([sample_copy 11, sample_copy 12] ! i) =
        rb_highestAdded (ls_buffer sample_sent) + 1 + of_nat i"
    by (auto simp: less_Suc_eq sample_copy_def fresh_packet_def)
qed simp

text \<open>An RTX packet carries the original in full (RFC 4588): for a payload of at most 1458 bytes
  without padding the stored packet's first two bytes are the original sequence number, the rest
  is the original payload, and its header is the original one under the RTX SSRC, payload type
  and sequence number.\<close>

theorem nack_rtx_packet:
  assumes "rtxSSRC \<noteq> 0" "rtxPT \<noteq> 0" "\<not> Padding header" "length pl \<le> 1458"
  shows "\<exists>p b0 b1. NewPacket header (Some pl) rtxSSRC rtxPT nextSeq now = Inr p \<and>
    rp_payload p = b0 # b1 # pl \<and> be_uint16 b0 b1 = SequenceNumber header \<and>
    rp_sequenceNumber p = SequenceNumber header \<and>
    rp_header p = Some (header\<lparr>SSRC := rtxSSRC, PayloadType := rtxPT, SequenceNumber := nextSeq\<rparr>)"
  using assms by (simp add: NewPacket_def Let_def maxPayloadLen_def rtxSSRCByteLength_def be_bytes16_def
      be_uint16_bytes)

theorem nack_rtx_packet_witness:
  "\<exists>p b0 b1. NewPacket (sample_header 10) (Some [1, 2]) 8 97 500 0 = Inr p \<and>
    rp_payload p = b0 # b1 # [1, 2] \<and> be_uint16 b0 b1 = SequenceNumber (sample_header 10) \<and>
    rp_sequenceNumber p = SequenceNumber (sample_header 10) \<and>
    rp_header p = Some ((sample_header 10)\<lparr>SSRC := 8, PayloadType := 97, SequenceNumber := 500\<rparr>)"
  by (rule nack_rtx_packet) (simp_all add: sample_header_def)

text \<open>A payload of 1459 or 1460 bytes is accepted but does not fit behind the original sequence
  number: the RTX copy silently loses its last one or two bytes.\<close>

theorem nack_rtx_truncates:
  assumes "rtxSSRC \<noteq> 0" "rtxPT \<noteq> 0" "\<not> Padding header" "1458 < length pl" "length pl \<le> 1460"
  shows "\<exists>p. NewPacket header (Some pl) rtxSSRC rtxPT nextSeq now = Inr p \<and>
    drop 2 (rp_payload p) = take 1458 pl \<and> drop 2 (rp_payload p) \<noteq> pl"
proof -
  have "take 1458 pl \<noteq> pl"
    using assms(4) by (metis length_take less_irrefl min_less_iff_conj)
  then show ?thesis
    using assms by (simp add: NewPacket_def Let_def maxPayloadLen_def rtxSSRCByteLength_def be_bytes16_def)
qed

theorem nack_rtx_truncates_witness:
  "\<exists>p. NewPacket (sample_header 10) (Some (replicate 1460 1)) 8 97 500 0 = Inr p \<and>
    drop 2 (rp_payload p) = take 1458 (replicate 1460 1) \<and> drop 2 (rp_payload p) \<noteq> replicate 1460 1"
  by (rule nack_rtx_truncates) (simp_all add: sample_header_def)

text \<open>A packet that arrives too late to be served still takes a slot: behind packet 10 in a
  buffer of four, adding packet 6 makes packet 10 itself unavailable, and 6 cannot be had either.\<close>

theorem nack_late_packet_evicts_newer:
  "stream_find sample_sent 10 = Some 0 \<and>
   stream_find (add_packet sample_sent (sample_copy 6)) 10 = None \<and>
   stream_find (add_packet sample_sent (sample_copy 6)) 6 = None"
  by code_simp

end
