(* ===== verification/RtxProber.thy ===== *)
theory RtxProber
  imports Prelude
begin

text \<open>
  The RTX prober of package \<open>interceptor\<close>, which sends padding on the retransmission stream of a simulcast layer so that the SFU
  learns its SSRC: configuration, which streams are probed, the writer that starts a probe at its first packet, and the probe itself. The
  goroutine of a probe is a function of the clock readings it makes and of which of its sends succeed. pion's sequencer and header
  extensions and the extension URIs are arguments.
\<close>

section \<open>State\<close>

definition DefaultRTXProbeBatchSize :: int where "DefaultRTXProbeBatchSize = 5"
definition DefaultRTXProbeInterval :: duration where "DefaultRTXProbeInterval = 100 * Millisecond"
definition DefaultRTXProbeDuration :: duration where "DefaultRTXProbeDuration = 1 * Second"
definition DefaultRTXProbeInitialDelay :: duration where "DefaultRTXProbeInitialDelay = 50 * Millisecond"

record RTXProberConfig =
  BatchSize :: int
  ProbeInterval :: duration
  ProbeDuration :: duration
  InitialDelay :: duration

definition NewRTXProberFactory :: RTXProberConfig where
  "NewRTXProberFactory = \<lparr>BatchSize = DefaultRTXProbeBatchSize, ProbeInterval = DefaultRTXProbeInterval,
     ProbeDuration = DefaultRTXProbeDuration, InitialDelay = DefaultRTXProbeInitialDelay\<rparr>"

definition NewRTXProberFactoryWithConfig :: "RTXProberConfig \<Rightarrow> RTXProberConfig" where
  "NewRTXProberFactoryWithConfig c =
    \<lparr>BatchSize = (if BatchSize c = 0 then DefaultRTXProbeBatchSize else BatchSize c),
     ProbeInterval = (if ProbeInterval c = 0 then DefaultRTXProbeInterval else ProbeInterval c),
     ProbeDuration = (if ProbeDuration c = 0 then DefaultRTXProbeDuration else ProbeDuration c),
     InitialDelay = (if InitialDelay c = 0 then DefaultRTXProbeInitialDelay else InitialDelay c)\<rparr>"

text \<open>What the prober reads of pion's \<open>StreamInfo\<close>.\<close>

record StreamInfo =
  si_SSRC :: uint32
  si_SSRCRetransmission :: uint32
  si_PayloadTypeRetransmission :: uint8
  si_MimeType :: string
  si_RTPHeaderExtensions :: "(string \<times> int) list"

record rtxProberStream =
  ps_info :: StreamInfo
  ps_probed :: bool
  ps_midExtID :: uint8
  ps_ridExtID :: uint8
  ps_rsidExtID :: uint8

text \<open>Streams are shared between the map and the writers, so they are addresses into \<open>rp_objects\<close>; \<open>rp_writers\<close> are the writers handed out,
  each with its stream and whether its \<open>once\<close> has run.\<close>

record RTXProber =
  rp_config :: RTXProberConfig
  rp_streams :: "uint32 \<rightharpoonup> nat"
  rp_objects :: "rtxProberStream list"
  rp_writers :: "(nat \<times> bool) list"

definition NewInterceptor :: "RTXProberConfig \<Rightarrow> RTXProber" where
  "NewInterceptor config = \<lparr>rp_config = config, rp_streams = Map.empty, rp_objects = [], rp_writers = []\<rparr>"

text \<open>pion: the URIs of the extensions, a sequencer, the extensions of a header.\<close>

record 'q pion_ext =
  SDESMidURI :: string
  SDESRTPStreamIDURI :: string
  SDESRepairRTPStreamIDURI :: string
  NextSequence :: "'q \<Rightarrow> uint16 \<times> 'q"
  SetHeaderExtension :: "(uint8 \<times> string) list \<Rightarrow> uint8 \<Rightarrow> string \<Rightarrow> (uint8 \<times> string) list option"

section \<open>Binding\<close>

fun getHeaderExtensionID :: "(string \<times> int) list \<Rightarrow> string \<Rightarrow> uint8" where
  "getHeaderExtensionID [] uri = 0"
| "getHeaderExtensionID ((u, i) # exts) uri = (if u = uri then word_of_int i else getHeaderExtensionID exts uri)"

text \<open>\<open>None\<close> is the writer that was passed in; otherwise the number of a writer of the prober.\<close>

definition BindLocalStream :: "'q pion_ext \<Rightarrow> StreamInfo \<Rightarrow> RTXProber \<Rightarrow> nat option \<times> RTXProber" where
  "BindLocalStream P info p =
    (if si_SSRCRetransmission info = 0 \<or> si_PayloadTypeRetransmission info = 0 then (None, p)
     else if si_MimeType info = '''' \<or> take 5 (si_MimeType info) \<noteq> ''video'' then (None, p)
     else
       let midExtID = getHeaderExtensionID (si_RTPHeaderExtensions info) (SDESMidURI P);
           ridExtID = getHeaderExtensionID (si_RTPHeaderExtensions info) (SDESRTPStreamIDURI P);
           rsidExtID = getHeaderExtensionID (si_RTPHeaderExtensions info) (SDESRepairRTPStreamIDURI P)
       in if midExtID = 0 \<or> rsidExtID = 0 then (None, p)
          else
            let stream = \<lparr>ps_info = info, ps_probed = False, ps_midExtID = midExtID, ps_ridExtID = ridExtID, ps_rsidExtID = rsidExtID\<rparr>
            in (Some (length (rp_writers p)),
                p\<lparr>rp_streams := (rp_streams p)(si_SSRC info \<mapsto> length (rp_objects p)),
                  rp_objects := rp_objects p @ [stream], rp_writers := rp_writers p @ [(length (rp_objects p), False)]\<rparr>))"

definition UnbindLocalStream :: "StreamInfo \<Rightarrow> RTXProber \<Rightarrow> RTXProber" where
  "UnbindLocalStream info p = p\<lparr>rp_streams := (rp_streams p)(si_SSRC info := None)\<rparr>"

text \<open>\<open>Write\<close> of writer \<open>i\<close>: the probe its first packet starts, as stream, mid and rid. \<open>ext\<close> is what the header answers for an extension. The packet itself is
  passed on in any case.\<close>

definition Write_rp :: "nat \<Rightarrow> (uint8 \<Rightarrow> string option) \<Rightarrow> RTXProber \<Rightarrow> (nat \<times> string \<times> string) option \<times> RTXProber" where
  "Write_rp i ext p =
    (let (k, done) = rp_writers p ! i; stream = rp_objects p ! k in
     if done then (None, p)
     else
       let mid = (if ps_midExtID stream \<noteq> 0 then (case ext (ps_midExtID stream) of Some e \<Rightarrow> e | None \<Rightarrow> '''') else '''');
           rid = (if ps_ridExtID stream \<noteq> 0 then (case ext (ps_ridExtID stream) of Some e \<Rightarrow> e | None \<Rightarrow> '''') else '''')
       in (Some (k, mid, rid), p\<lparr>rp_writers := (rp_writers p)[i := (k, True)]\<rparr>))"

section \<open>Probing\<close>

record probe_packet =
  pp_header :: rtp_header
  pp_extensions :: "(uint8 \<times> string) list"
  pp_payload :: "byte list"

text \<open>\<open>ok\<close> is whether the writer below accepts the packet. The packet is returned when it is handed to that writer.\<close>

definition sendProbePacket ::
    "'q pion_ext \<Rightarrow> rtxProberStream \<Rightarrow> string \<Rightarrow> string \<Rightarrow> bool \<Rightarrow> 'q \<Rightarrow> (probe_packet option \<times> bool) \<times> 'q" where
  "sendProbePacket P stream mid rid ok q =
    (let info = ps_info stream; (s, q) = NextSequence P q;
         header = \<lparr>Padding = True, Marker = False, PayloadType = si_PayloadTypeRetransmission info, SequenceNumber = s,
                   Timestamp = 0, SSRC = si_SSRCRetransmission info, PaddingSize = 0\<rparr>
     in case SetHeaderExtension P [] (ps_midExtID stream) mid of
          None \<Rightarrow> ((None, False), q)
        | Some exts \<Rightarrow>
           (case SetHeaderExtension P exts (ps_rsidExtID stream) rid of
              None \<Rightarrow> ((None, False), q)
            | Some exts \<Rightarrow> ((Some \<lparr>pp_header = header, pp_extensions = exts, pp_payload = [1]\<rparr>, ok), q)))"

text \<open>A batch of \<open>n\<close> packets, cut short by the first that fails.\<close>

fun send_batch ::
    "'q pion_ext \<Rightarrow> rtxProberStream \<Rightarrow> string \<Rightarrow> string \<Rightarrow> nat \<Rightarrow> (nat \<Rightarrow> bool) \<Rightarrow> 'q \<Rightarrow> (probe_packet list \<times> bool) \<times> 'q" where
  "send_batch P stream mid rid 0 oks q = (([], True), q)"
| "send_batch P stream mid rid (Suc n) oks q =
    (let ((pkt, ok), q) = sendProbePacket P stream mid rid (oks n) q; sent = (case pkt of None \<Rightarrow> [] | Some x \<Rightarrow> [x]) in
     if \<not> ok then ((sent, False), q)
     else let ((more, ok), q) = send_batch P stream mid rid n oks q in ((sent @ more, ok), q))"

text \<open>The loop: one entry per reading of the clock, with the results of the batch that follows. The boolean is whether the loop has ended; otherwise it
  waits for the ticker.\<close>

fun probe_loop ::
    "'q pion_ext \<Rightarrow> RTXProberConfig \<Rightarrow> rtxProberStream \<Rightarrow> string \<Rightarrow> string \<Rightarrow> time \<Rightarrow> (time \<times> (nat \<Rightarrow> bool)) list \<Rightarrow> 'q \<Rightarrow> (probe_packet list \<times> bool) \<times> 'q" where
  "probe_loop P cfg stream mid rid deadline [] q = (([], False), q)"
| "probe_loop P cfg stream mid rid deadline ((now, oks) # ticks) q =
    (if now < deadline then
       let ((sent, ok), q) = send_batch P stream mid rid (nat (BatchSize cfg)) oks q in
       if \<not> ok then ((sent, True), q)
       else let ((more, ended), q) = probe_loop P cfg stream mid rid deadline ticks q in ((sent @ more, ended), q)
     else (([], True), q))"

text \<open>A probe of stream \<open>k\<close>; \<open>start\<close> is the clock when the deadline is set, after the initial delay. \<open>None\<close> is the panic of \<open>NewTicker\<close> for an interval that is not positive.\<close>

definition probeStream ::
    "'q pion_ext \<Rightarrow> nat \<times> string \<times> string \<Rightarrow> time \<Rightarrow> (time \<times> (nat \<Rightarrow> bool)) list \<Rightarrow> 'q \<Rightarrow> RTXProber \<Rightarrow> ((probe_packet list \<times> bool) \<times> RTXProber) option" where
  "probeStream P probe start ticks q p =
    (let (k, mid, rid) = probe; stream = rp_objects p ! k in
     if ps_probed stream then Some (([], True), p)
     else
       let p = p\<lparr>rp_objects := (rp_objects p)[k := stream\<lparr>ps_probed := True\<rparr>]\<rparr> in
       if mid = '''' then Some (([], True), p)
       else if rid = '''' then Some (([], True), p)
       else if ProbeInterval (rp_config p) \<le> 0 then None
       else Some (fst (probe_loop P (rp_config p) stream mid rid (start + ProbeDuration (rp_config p)) ticks q), p))"

section \<open>Properties\<close>

definition probe_of :: "rtxProberStream \<Rightarrow> probe_packet \<Rightarrow> bool" where
  "probe_of stream x \<longleftrightarrow> SSRC (pp_header x) = si_SSRCRetransmission (ps_info stream) \<and>
     PayloadType (pp_header x) = si_PayloadTypeRetransmission (ps_info stream) \<and> Padding (pp_header x) \<and> pp_payload x = [1]"

lemma sendProbePacket_ok: "sendProbePacket P stream mid rid ok q = ((Some x, ok'), q') \<Longrightarrow> probe_of stream x"
  by (auto simp: sendProbePacket_def probe_of_def Let_def split: prod.splits option.splits)

lemma send_batch_ok:
  "send_batch P stream mid rid n oks q = ((sent, ok), q') \<Longrightarrow> length sent \<le> n \<and> list_all (probe_of stream) sent"
proof (induction n arbitrary: q sent ok q')
  case (Suc n)
  obtain pkt ok1 q1 where s: "sendProbePacket P stream mid rid (oks n) q = ((pkt, ok1), q1)"
    by (metis prod.collapse)
  obtain more ok2 q2 where m: "send_batch P stream mid rid n oks q1 = ((more, ok2), q2)" by (metis prod.collapse)
  show ?case
    using Suc.prems Suc.IH[OF m] s m sendProbePacket_ok[of P stream mid rid "oks n" q _ ok1 q1]
    by (auto simp: Let_def split: option.splits if_splits)
qed simp

text \<open>The \<open>k\<close>-th reading comes no earlier than the \<open>k\<close>-th tick.\<close>

fun paced :: "time \<Rightarrow> duration \<Rightarrow> (time \<times> 'b) list \<Rightarrow> bool" where
  "paced t d [] \<longleftrightarrow> True"
| "paced t d ((now, _) # ticks) \<longleftrightarrow> t \<le> now \<and> paced (t + d) d ticks"

lemma probe_loop_ok:
  assumes "0 < d" "0 \<le> b" "BatchSize cfg = b"
  shows "probe_loop P cfg stream mid rid deadline ticks q = ((sent, ended), q') \<Longrightarrow> paced t d ticks \<Longrightarrow>
    int (length sent) \<le> b * max 0 ((deadline - t + d - 1) div d) \<and> list_all (probe_of stream) sent"
proof (induction ticks arbitrary: q sent ended q' t)
  case (Cons a ticks)
  obtain now oks where a: "a = (now, oks)" by (cases a)
  show ?case
  proof (cases "now < deadline")
    case False
    then show ?thesis using Cons.prems(1) assms(2) by (simp add: a)
  next
    case True
    obtain s1 ok q1 where b: "send_batch P stream mid rid (nat b) oks q = ((s1, ok), q1)" by (metis prod.collapse)
    obtain s2 e q2 where l: "probe_loop P cfg stream mid rid deadline ticks q1 = ((s2, e), q2)" by (metis prod.collapse)
    have s1: "int (length s1) \<le> b" "list_all (probe_of stream) s1" using send_batch_ok[OF b] assms(2) by auto
    have s2: "int (length s2) \<le> b * max 0 ((deadline - (t + d) + d - 1) div d)" "list_all (probe_of stream) s2"
      using Cons.IH[OF l, of "t + d"] Cons.prems(2) a by auto
    have t: "t < deadline" using True Cons.prems(2) a by simp
    define K where "K = (deadline - t - 1) div d"
    have K: "0 \<le> K" "(deadline - t + d - 1) div d = K + 1" "(deadline - (t + d) + d - 1) div d = K"
      using t assms(1) by (simp_all add: K_def pos_imp_zdiv_nonneg_iff algebra_simps div_add_self1[symmetric]) (metis add.commute add_diff_eq div_add_self1 less_irrefl)
    have "sent = s1 \<or> sent = s1 @ s2" using Cons.prems(1) a True b l assms(3) by (auto split: if_splits)
    then show ?thesis using s1 s2 K assms(2) by (auto simp: distrib_left)
  qed
qed (use assms in simp)

text \<open>A probe stays within its budget. Whatever the clock shows and whichever sends fail, a probe started with ticker ticks \<open>Interval\<close> apart
  sends at most \<open>BatchSize\<close> packets for each interval begun within \<open>Duration\<close>, all of them one byte of padding on the retransmission SSRC and
  payload type of its stream; and the stream is marked, so that a second probe of it sends nothing. With the defaults that is at most 50 packets.\<close>

theorem rtx_probe_budget:
  assumes "probeStream P (k, mid, rid) start ticks q p = Some ((sent, ended), p')" and "k < length (rp_objects p)"
    and "0 \<le> BatchSize (rp_config p)" and "0 < ProbeInterval (rp_config p)" and "paced start (ProbeInterval (rp_config p)) ticks"
  shows "int (length sent) \<le> BatchSize (rp_config p) *
      max 0 ((ProbeDuration (rp_config p) + ProbeInterval (rp_config p) - 1) div ProbeInterval (rp_config p)) \<and>
    list_all (probe_of (rp_objects p ! k)) sent \<and>
    (sent \<noteq> [] \<longrightarrow> mid \<noteq> [] \<and> rid \<noteq> []) \<and>
    (\<forall>mid rid start ticks q. probeStream P (k, mid, rid) start ticks q p' = Some (([], True), p')) \<and>
    (rp_config p = NewRTXProberFactory \<longrightarrow> length sent \<le> 50)"
proof -
  have m: "ps_probed (rp_objects p' ! k)"
    using assms(1,2) by (auto simp: probeStream_def Let_def split: if_splits)
  have "int (length sent) \<le> BatchSize (rp_config p) *
      max 0 ((ProbeDuration (rp_config p) + ProbeInterval (rp_config p) - 1) div ProbeInterval (rp_config p)) \<and>
    list_all (probe_of (rp_objects p ! k)) sent"
  proof (cases "sent = []")
    case False
    then obtain q' where "probe_loop P (rp_config p) (rp_objects p ! k) mid rid (start + ProbeDuration (rp_config p)) ticks q = ((sent, ended), q')"
      using assms(1) by (auto simp: probeStream_def Let_def split: if_splits) (metis prod.collapse)
    from probe_loop_ok[OF assms(4,3) refl this assms(5)] show ?thesis by simp
  qed (use assms(3) in simp)
  moreover have "sent \<noteq> [] \<longrightarrow> mid \<noteq> [] \<and> rid \<noteq> []"
    using assms(1) by (auto simp: probeStream_def Let_def split: if_splits)
  moreover have "probeStream P (k, mid, rid) start ticks q p' = Some (([], True), p')" for mid rid start ticks q
    using m by (simp add: probeStream_def)
  ultimately show ?thesis
    by (auto simp: NewRTXProberFactory_def DefaultRTXProbeBatchSize_def DefaultRTXProbeInterval_def DefaultRTXProbeDuration_def)
qed

definition counting_ext :: "uint16 pion_ext" where
  "counting_ext = \<lparr>SDESMidURI = ''mid'', SDESRTPStreamIDURI = ''rid'', SDESRepairRTPStreamIDURI = ''rrid'',
     NextSequence = (\<lambda>s. (s, s + 1)), SetHeaderExtension = (\<lambda>l i v. Some (l @ [(i, v)]))\<rparr>"

definition bound_prober :: RTXProber where
  "bound_prober = snd (BindLocalStream counting_ext \<lparr>si_SSRC = 5, si_SSRCRetransmission = 6, si_PayloadTypeRetransmission = 97,
     si_MimeType = ''video/VP8'', si_RTPHeaderExtensions = [(''mid'', 1), (''rid'', 2), (''rrid'', 3)]\<rparr> (NewInterceptor NewRTXProberFactory))"

text \<open>Two batches, the second of which fails at its second packet.\<close>

theorem rtx_probe_budget_witness:
  "\<exists>sent p'. probeStream counting_ext (0, ''0'', ''q'') 1000 [(1000, \<lambda>_. True), (100001000, \<lambda>i. i \<noteq> 3)] 65535 bound_prober = Some ((sent, True), p') \<and>
     length sent = 7 \<and> list_all (probe_of (rp_objects bound_prober ! 0)) sent"
proof -
  have run: "map_option (\<lambda>((sent, ended), p). (length sent, ended))
      (probeStream counting_ext (0, ''0'', ''q'') 1000 [(1000, \<lambda>_. True), (100001000, \<lambda>i. i \<noteq> 3)] 65535 bound_prober) = Some (7, True)"
    by code_simp
  then obtain sent p' where p: "probeStream counting_ext (0, ''0'', ''q'') 1000 [(1000, \<lambda>_. True), (100001000, \<lambda>i. i \<noteq> 3)] 65535 bound_prober = Some ((sent, True), p')"
    "length sent = 7" by auto
  have c: "rp_config bound_prober = NewRTXProberFactory" "0 < length (rp_objects bound_prober)" by code_simp+
  have "0 \<le> BatchSize (rp_config bound_prober)" "0 < ProbeInterval (rp_config bound_prober)"
    "paced 1000 (ProbeInterval (rp_config bound_prober)) [(1000, \<lambda>_. True), (100001000, \<lambda>i. i \<noteq> (3 :: nat))]"
    by (simp_all add: c NewRTXProberFactory_def DefaultRTXProbeBatchSize_def DefaultRTXProbeInterval_def)
  from rtx_probe_budget[OF p(1) c(2) this] p show ?thesis by auto
qed

text \<open>Only the first packet a writer passes on can start a probe.\<close>

lemma first_packet_decides:
  assumes "i < length (rp_writers p)" "Write_rp i ext p = (probe, p')"
  shows "Write_rp i ext' p' = (None, p')"
  using assms by (auto simp: Write_rp_def Let_def split: prod.splits if_splits)

end
