(* ===== verification/AudioPcm.thy ===== *)
theory AudioPcm
  imports Prelude
begin

text \<open>
  PCM buffers, package \<open>audio\<close>: the sample formats and their conversion (\<open>format.go\<close>), the buffer
  itself (\<open>pcm.go\<close>), chunking and padding (\<open>chunk.go\<close>), and the alignment of byte streams to frames
  (\<open>stream.go\<close>). A 16-bit sample is its word and a 32-bit float sample its IEEE bit pattern, so
  encoding is bit exact; the two conversions are computed on sign, exponent and significand in
  integers. Frame and channel counts are integers: they count elements of slices in memory.
  Durations keep their 64 bits. The resampler is an argument here, and the loudness measures,
  which need real square roots and logarithms, are left out.
\<close>

section \<open>Formats and samples\<close>

datatype Format = FormatS16 | FormatF32 | FormatOther uint8

definition BytesPerSample :: "Format \<Rightarrow> int" where
  "BytesPerSample f = (case f of FormatS16 \<Rightarrow> 2 | FormatF32 \<Rightarrow> 4 | FormatOther _ \<Rightarrow> 0)"

definition Valid :: "Format \<Rightarrow> bool" where
  "Valid f \<longleftrightarrow> f = FormatS16 \<or> f = FormatF32"

text \<open>\<open>show_num\<close> is how \<open>fmt\<close> prints the number of an unknown format.\<close>

definition format_string :: "(uint8 \<Rightarrow> string) \<Rightarrow> Format \<Rightarrow> string" where
  "format_string show_num f =
    (case f of FormatS16 \<Rightarrow> ''s16'' | FormatF32 \<Rightarrow> ''f32'' | FormatOther n \<Rightarrow> ''Format('' @ show_num n @ '')'')"

definition ParseFormat :: "string \<Rightarrow> Format option" where
  "ParseFormat s =
    (if s \<in> {''s16'', ''int16'', ''s16le''} then Some FormatS16
     else if s \<in> {''f32'', ''float32'', ''flt'', ''f32le''} then Some FormatF32
     else None)"

text \<open>A float32 by its bits: 1 sign, 8 exponent and 23 fraction bits.\<close>

type_synonym float32 = "32 word"
type_synonym int16 = "16 word"

definition f32_make :: "bool \<Rightarrow> int \<Rightarrow> int \<Rightarrow> float32" where
  "f32_make neg ex frac = word_of_int ((if neg then 2 ^ 31 else 0) + ex * 2 ^ 23 + frac)"

definition f32_sign :: "float32 \<Rightarrow> bool" where "f32_sign w \<longleftrightarrow> uint w div 2 ^ 31 = 1"
definition f32_exp :: "float32 \<Rightarrow> int" where "f32_exp w = uint w div 2 ^ 23 mod 2 ^ 8"
definition f32_frac :: "float32 \<Rightarrow> int" where "f32_frac w = uint w mod 2 ^ 23"

text \<open>The position of the highest set bit.\<close>

function floor_log2 :: "int \<Rightarrow> int" where
  "floor_log2 m = (if m \<le> 1 then 0 else 1 + floor_log2 (m div 2))"
  by pat_completeness auto
termination
  by (relation "measure nat") auto

declare floor_log2.simps [simp del]

text \<open>\<open>float32(v) / 32768\<close>. The magnitude has at most 16 bits, so the product is exact: with the
  highest bit at position \<open>e\<close> the exponent is \<open>e - 15\<close>, biased by 127.\<close>

definition s16ToF32 :: "int16 \<Rightarrow> float32" where
  "s16ToF32 v =
    (let m = \<bar>sint v\<bar>; e = floor_log2 m in
     if m = 0 then 0
     else f32_make (sint v < 0) (e + 112) ((m - 2 ^ nat e) * 2 ^ nat (23 - e)))"

text \<open>\<open>float64(v) * 32768\<close> is exact: its magnitude is \<open>n * 2 ^ (x - 135)\<close> with the significand \<open>n\<close>.
  The result is clamped to 16 bits and rounded half away from zero.\<close>

definition f32ToS16 :: "float32 \<Rightarrow> int16" where
  "f32ToS16 v =
    (let x = f32_exp v; frac = f32_frac v;
         n = (if x = 0 then frac else 2 ^ 23 + frac);
         x' = (if x = 0 then 1 else x);
         up = nat (x' - 135); down = nat (135 - x');
         num = n * 2 ^ up
     in if x = 255 \<and> frac \<noteq> 0 then 0
        else if \<not> f32_sign v \<and> (x = 255 \<or> num \<ge> 32767 * 2 ^ down) then 32767
        else if f32_sign v \<and> (x = 255 \<or> num \<ge> 32768 * 2 ^ down) then - 32768
        else let r = (2 * num + 2 ^ down) div (2 * 2 ^ down)
             in word_of_int (if f32_sign v then - r else r))"

section \<open>The buffer\<close>

record PCM =
  p_Format :: Format
  p_SampleRate :: int
  p_Channels :: int
  p_PTS :: duration
  p_s16 :: "int16 list"
  p_f32 :: "float32 list"

definition zero_PCM :: PCM where
  "zero_PCM = \<lparr>p_Format = FormatS16, p_SampleRate = 0, p_Channels = 0, p_PTS = 0, p_s16 = [], p_f32 = []\<rparr>"

datatype audio_error = InvalidFormat | BadSampleRate | BadChannels | ChannelOutOfRange | InvalidLaw | ResampleError | ReadError

definition validate :: "Format \<Rightarrow> int \<Rightarrow> int \<Rightarrow> audio_error option" where
  "validate format sampleRate channels =
    (if \<not> Valid format then Some InvalidFormat
     else if sampleRate \<le> 0 then Some BadSampleRate
     else if channels \<le> 0 then Some BadChannels
     else None)"

definition NewChecked :: "Format \<Rightarrow> int \<Rightarrow> int \<Rightarrow> audio_error + PCM" where
  "NewChecked format sampleRate channels =
    (case validate format sampleRate channels of
       Some e \<Rightarrow> Inl e
     | None \<Rightarrow> Inr (zero_PCM\<lparr>p_Format := format, p_SampleRate := sampleRate, p_Channels := channels\<rparr>))"

text \<open>\<open>New\<close> panics where \<open>NewChecked\<close> returns an error; a panic is \<open>None\<close>.\<close>

definition New :: "Format \<Rightarrow> int \<Rightarrow> int \<Rightarrow> PCM option" where
  "New format sampleRate channels =
    (case NewChecked format sampleRate channels of Inl _ \<Rightarrow> None | Inr p \<Rightarrow> Some p)"

definition FromInt16 :: "int16 list \<Rightarrow> int \<Rightarrow> int \<Rightarrow> PCM option" where
  "FromInt16 samples sampleRate channels =
     map_option (\<lambda>p. p\<lparr>p_s16 := samples\<rparr>) (New FormatS16 sampleRate channels)"

definition FromFloat32 :: "float32 list \<Rightarrow> int \<Rightarrow> int \<Rightarrow> PCM option" where
  "FromFloat32 samples sampleRate channels =
     map_option (\<lambda>p. p\<lparr>p_f32 := samples\<rparr>) (New FormatF32 sampleRate channels)"

fun decode_s16 :: "byte list \<Rightarrow> int16 list" where
  "decode_s16 (b0 # b1 # bs) = le_uint16 b0 b1 # decode_s16 bs"
| "decode_s16 _ = []"

fun decode_f32 :: "byte list \<Rightarrow> float32 list" where
  "decode_f32 (b0 # b1 # b2 # b3 # bs) = le_uint32 b0 b1 b2 b3 # decode_f32 bs"
| "decode_f32 _ = []"

definition whole_frames :: "byte list \<Rightarrow> Format \<Rightarrow> int \<Rightarrow> byte list" where
  "whole_frames b format channels =
    (let frameSize = nat (BytesPerSample format * channels) in take (length b - length b mod frameSize) b)"

definition FromBytes :: "byte list \<Rightarrow> Format \<Rightarrow> int \<Rightarrow> int \<Rightarrow> audio_error + PCM" where
  "FromBytes b format sampleRate channels =
    (case NewChecked format sampleRate channels of
       Inl e \<Rightarrow> Inl e
     | Inr pcm \<Rightarrow>
        (let b = whole_frames b format channels in
         case format of
           FormatS16 \<Rightarrow> Inr (pcm\<lparr>p_s16 := decode_s16 b\<rparr>)
         | FormatF32 \<Rightarrow> Inr (pcm\<lparr>p_f32 := decode_f32 b\<rparr>)
         | FormatOther _ \<Rightarrow> Inr pcm))"

definition Int16 :: "PCM \<Rightarrow> int16 list" where
  "Int16 p = (if p_Format p \<noteq> FormatS16 then [] else p_s16 p)"

definition Float32 :: "PCM \<Rightarrow> float32 list" where
  "Float32 p = (if p_Format p \<noteq> FormatF32 then [] else p_f32 p)"

definition NumSamples :: "PCM \<Rightarrow> int" where
  "NumSamples p = (if p_Format p = FormatF32 then int (length (p_f32 p)) else int (length (p_s16 p)))"

definition Len :: "PCM \<Rightarrow> int" where
  "Len p = (if p_Channels p \<le> 0 then 0 else tdiv (NumSamples p) (p_Channels p))"

definition IsEmpty :: "PCM \<Rightarrow> bool" where "IsEmpty p \<longleftrightarrow> NumSamples p = 0"

text \<open>\<open>time.Duration(n) * time.Second / rate\<close>, in 64 bits.\<close>

definition frames_duration :: "int \<Rightarrow> int \<Rightarrow> duration" where
  "frames_duration n rate = tdiv (i64 (n * Second)) rate"

definition Duration :: "PCM \<Rightarrow> duration" where
  "Duration p = (if p_SampleRate p \<le> 0 then 0 else frames_duration (Len p) (p_SampleRate p))"

definition Bytes :: "PCM \<Rightarrow> byte list" where
  "Bytes p =
    (if p_Format p = FormatF32 then concat (map le_bytes32 (p_f32 p)) else concat (map le_bytes16 (p_s16 p)))"

definition ToInt16 :: "PCM \<Rightarrow> PCM" where
  "ToInt16 p = (if p_Format p = FormatS16 then p
                else p\<lparr>p_Format := FormatS16, p_f32 := [], p_s16 := map f32ToS16 (p_f32 p)\<rparr>)"

definition ToFloat32 :: "PCM \<Rightarrow> PCM" where
  "ToFloat32 p = (if p_Format p = FormatF32 then p
                  else p\<lparr>p_Format := FormatF32, p_s16 := [], p_f32 := map s16ToF32 (p_s16 p)\<rparr>)"

definition To :: "Format \<Rightarrow> PCM \<Rightarrow> PCM" where
  "To format p = (if format = FormatF32 then ToFloat32 p else ToInt16 p)"

text \<open>A copy shares no samples; buffers here are values.\<close>

definition Clone :: "PCM \<Rightarrow> PCM" where "Clone p = p"

text \<open>A slice expression out of range panics. The samples are taken to fill the backing array: Go
  would let the upper bound go on to the capacity.\<close>

definition slice_list :: "'a list \<Rightarrow> int \<Rightarrow> int \<Rightarrow> 'a list option" where
  "slice_list xs lo hi =
    (if 0 \<le> lo \<and> lo \<le> hi \<and> hi \<le> int (length xs) then Some (take (nat (hi - lo)) (drop (nat lo) xs)) else None)"

definition Slice :: "PCM \<Rightarrow> int \<Rightarrow> int \<Rightarrow> PCM option" where
  "Slice p from to =
    (let lo = from * p_Channels p; hi = to * p_Channels p;
         pts = (if p_SampleRate p > 0 then i64 (p_PTS p + frames_duration from (p_SampleRate p)) else p_PTS p)
     in if p_Format p = FormatF32
        then map_option (\<lambda>xs. p\<lparr>p_f32 := xs, p_PTS := pts\<rparr>) (slice_list (p_f32 p) lo hi)
        else map_option (\<lambda>xs. p\<lparr>p_s16 := xs, p_PTS := pts\<rparr>) (slice_list (p_s16 p) lo hi))"

definition pick_channel :: "'a list \<Rightarrow> int \<Rightarrow> int \<Rightarrow> int \<Rightarrow> 'a list" where
  "pick_channel xs frames channels i = map (\<lambda>f. xs ! (f * nat channels + nat i)) [0..<nat frames]"

definition Channel :: "PCM \<Rightarrow> int \<Rightarrow> audio_error + PCM" where
  "Channel p i =
    (if i < 0 \<or> i \<ge> p_Channels p then Inl ChannelOutOfRange
     else if p_Channels p = 1 then Inr p
     else if p_Format p = FormatF32
       then Inr (p\<lparr>p_Channels := 1, p_f32 := pick_channel (p_f32 p) (Len p) (p_Channels p) i\<rparr>)
       else Inr (p\<lparr>p_Channels := 1, p_s16 := pick_channel (p_s16 p) (Len p) (p_Channels p) i\<rparr>))"

text \<open>\<open>Append\<close>; \<open>resample\<close> converts a buffer to a format, rate and channel count. An error leaves the
  adopted parameters in place.\<close>

definition Append ::
    "(Format \<Rightarrow> int \<Rightarrow> int \<Rightarrow> PCM \<Rightarrow> audio_error + PCM) \<Rightarrow> PCM \<Rightarrow> PCM \<Rightarrow> audio_error option \<times> PCM" where
  "Append resample p other =
    (if IsEmpty other then (None, p)
     else
       let p = (if p_SampleRate p \<le> 0 \<and> p_Channels p \<le> 0 \<and> IsEmpty p
                then p\<lparr>p_Format := p_Format other, p_SampleRate := p_SampleRate other,
                       p_Channels := p_Channels other, p_PTS := p_PTS other\<rparr> else p) in
       case validate (p_Format p) (p_SampleRate p) (p_Channels p) of
         Some e \<Rightarrow> (Some e, p)
       | None \<Rightarrow>
          (case (if p_SampleRate other \<noteq> p_SampleRate p \<or> p_Channels other \<noteq> p_Channels p
                 then resample (p_Format p) (p_SampleRate p) (p_Channels p) other else Inr other) of
             Inl e \<Rightarrow> (Some e, p)
           | Inr other \<Rightarrow>
              (let other = To (p_Format p) other in
               (None, if p_Format p = FormatF32 then p\<lparr>p_f32 := p_f32 p @ p_f32 other\<rparr>
                      else p\<lparr>p_s16 := p_s16 p @ p_s16 other\<rparr>))))"

definition Clear :: "PCM \<Rightarrow> PCM" where
  "Clear p = p\<lparr>p_s16 := [], p_f32 := []\<rparr>"

section \<open>Chunks and padding\<close>

datatype PadPosition = PadEnd | PadStart

definition framesIn :: "PCM \<Rightarrow> duration \<Rightarrow> int" where
  "framesIn p d =
    (if p_SampleRate p \<le> 0 \<or> d \<le> 0 then 0 else tdiv (i64 (d * p_SampleRate p)) Second)"

definition padOffset :: "PadPosition \<Rightarrow> int \<Rightarrow> int" where
  "padOffset at missing = (if at = PadStart then missing else 0)"

text \<open>\<open>make\<close> and \<open>copy\<close>: a buffer of \<open>n\<close> zero samples overwritten from \<open>off\<close> on.\<close>

definition pad_copy :: "int \<Rightarrow> int \<Rightarrow> ('a::len word) list \<Rightarrow> 'a word list" where
  "pad_copy n off xs =
    (let room = nat n - nat off; c = take room xs
     in replicate (nat off) 0 @ c @ replicate (room - length c) 0)"

definition PadTo :: "PCM \<Rightarrow> int \<Rightarrow> PadPosition \<Rightarrow> PCM" where
  "PadTo p frames at =
    (if Len p \<ge> frames then p
     else
       let missing = (frames - Len p) * p_Channels p;
           off = padOffset at missing;
           out = (if p_Format p = FormatF32 then p\<lparr>p_f32 := pad_copy (frames * p_Channels p) off (p_f32 p)\<rparr>
                  else p\<lparr>p_s16 := pad_copy (frames * p_Channels p) off (p_s16 p)\<rparr>)
       in if at = PadStart \<and> p_SampleRate p > 0
          then out\<lparr>p_PTS := i64 (p_PTS p - frames_duration (frames - Len p) (p_SampleRate p))\<rparr> else out)"

text \<open>The loop of \<open>Chunks\<close> from frame \<open>i\<close>, for a consumer that takes every chunk; a panic of \<open>Slice\<close>
  would end it.\<close>

function chunk_loop :: "PCM \<Rightarrow> int \<Rightarrow> int \<Rightarrow> bool \<Rightarrow> int \<Rightarrow> PCM list" where
  "chunk_loop p sz step padLast i =
    (if i < Len p \<and> 1 \<le> step then
       let end' = min (i + sz) (Len p) in
       case Slice p i end' of
         None \<Rightarrow> []
       | Some chunk \<Rightarrow>
          (if end' - i < sz \<and> padLast then PadTo chunk sz PadEnd else chunk)
            # chunk_loop p sz step padLast (i + step)
     else [])"
  by pat_completeness auto
termination
  by (relation "measure (\<lambda>(p, _, _, _, i). nat (Len p - i))") auto

declare chunk_loop.simps [simp del]

definition Chunks :: "PCM \<Rightarrow> int \<Rightarrow> int \<Rightarrow> bool \<Rightarrow> PCM list" where
  "Chunks p sz overlap padLast =
    (if sz \<le> 0 then [] else chunk_loop p sz (max 1 (sz - overlap)) padLast 0)"

definition SlidingWindow :: "PCM \<Rightarrow> duration \<Rightarrow> duration \<Rightarrow> bool \<Rightarrow> PCM list" where
  "SlidingWindow p window hop padLast =
    (let sz = framesIn p window; step = framesIn p hop in Chunks p sz (max 0 (sz - step)) padLast)"

definition Head :: "PCM \<Rightarrow> duration \<Rightarrow> bool \<Rightarrow> PadPosition \<Rightarrow> PCM option" where
  "Head p d pad at =
    (let want = framesIn p d in
     if Len p \<ge> want then Slice p 0 want else if \<not> pad then Some p else Some (PadTo p want at))"

definition Tail :: "PCM \<Rightarrow> duration \<Rightarrow> bool \<Rightarrow> PadPosition \<Rightarrow> PCM option" where
  "Tail p d pad at =
    (let want = framesIn p d; n = Len p in
     if n \<ge> want then Slice p (n - want) n else if \<not> pad then Some p else Some (PadTo p want at))"

section \<open>Byte streams\<close>

record Aligner =
  a_format :: Format
  a_sampleRate :: int
  a_channels :: int
  a_frameSize :: nat
  a_buf :: "byte list"

definition NewAligner :: "Format \<Rightarrow> int \<Rightarrow> int \<Rightarrow> Aligner option" where
  "NewAligner format sampleRate channels =
    (case validate format sampleRate channels of
       Some _ \<Rightarrow> None
     | None \<Rightarrow> Some \<lparr>a_format = format, a_sampleRate = sampleRate, a_channels = channels,
                   a_frameSize = nat (BytesPerSample format * channels), a_buf = []\<rparr>)"

definition aligner_empty :: "Aligner \<Rightarrow> audio_error + PCM" where
  "aligner_empty a = NewChecked (a_format a) (a_sampleRate a) (a_channels a)"

definition Write :: "Aligner \<Rightarrow> byte list \<Rightarrow> (audio_error + PCM) \<times> Aligner" where
  "Write a b =
    (let buf = a_buf a @ b; whole = length buf - length buf mod a_frameSize a in
     if whole = 0 then (aligner_empty a, a\<lparr>a_buf := buf\<rparr>)
     else case FromBytes (take whole buf) (a_format a) (a_sampleRate a) (a_channels a) of
       Inl e \<Rightarrow> (Inl e, a\<lparr>a_buf := buf\<rparr>)
     | Inr pcm \<Rightarrow> (Inr pcm, a\<lparr>a_buf := drop whole buf\<rparr>))"

definition Flush :: "Aligner \<Rightarrow> (audio_error + PCM) \<times> Aligner" where
  "Flush a =
    (if a_buf a = [] then (aligner_empty a, a)
     else
       let fs = a_frameSize a;
           buf = a_buf a @ replicate ((fs - length (a_buf a) mod fs) mod fs) 0
       in (FromBytes buf (a_format a) (a_sampleRate a) (a_channels a), a\<lparr>a_buf := []\<rparr>))"

definition Pending :: "Aligner \<Rightarrow> nat" where "Pending a = length (a_buf a)"

definition yield_tail :: "audio_error + PCM \<Rightarrow> PCM list \<times> audio_error option" where
  "yield_tail r = (case r of Inl e \<Rightarrow> ([], Some e) | Inr t \<Rightarrow> (if IsEmpty t then [] else [t], None))"

text \<open>\<open>FromByteSeq\<close> for a consumer that takes everything: the buffers yielded, and the error that
  ended it if any.\<close>

fun align_chunks :: "Aligner \<Rightarrow> byte list list \<Rightarrow> PCM list \<times> audio_error option \<times> Aligner" where
  "align_chunks a [] = ([], None, a)"
| "align_chunks a (c # cs) =
    (case Write a c of
       (Inl e, a') \<Rightarrow> ([], Some e, a')
     | (Inr pcm, a') \<Rightarrow>
        (let (out, err, a'') = align_chunks a' cs
         in (if IsEmpty pcm then out else pcm # out, err, a'')))"

definition FromByteSeq :: "byte list list \<Rightarrow> Format \<Rightarrow> int \<Rightarrow> int \<Rightarrow> PCM list \<times> audio_error option" where
  "FromByteSeq chunks format sampleRate channels =
    (case NewAligner format sampleRate channels of
       None \<Rightarrow> ([], validate format sampleRate channels)
     | Some a \<Rightarrow>
        (case align_chunks a chunks of
           (out, Some e, _) \<Rightarrow> (out, Some e)
         | (out, None, a') \<Rightarrow> (let (tail, err) = yield_tail (fst (Flush a')) in (out @ tail, err))))"

text \<open>\<open>FromReader\<close> over the answers of the reader's \<open>Read\<close> calls, each the bytes read and how the call
  ended. \<open>reader_buf\<close> is the length of the buffer handed to \<open>Read\<close>, which bounds those bytes.\<close>

datatype read_status = ReadOk | ReadEOF | ReadFailed

definition reader_frames :: "int \<Rightarrow> int \<Rightarrow> int" where
  "reader_frames sampleRate chunkFrames = (if chunkFrames \<le> 0 then tdiv sampleRate 50 else chunkFrames)"

definition reader_buf :: "Format \<Rightarrow> int \<Rightarrow> int \<Rightarrow> int \<Rightarrow> int" where
  "reader_buf format sampleRate channels chunkFrames =
     max (reader_frames sampleRate chunkFrames * BytesPerSample format * channels) 1"

fun read_loop :: "Aligner \<Rightarrow> (byte list \<times> read_status) list \<Rightarrow> PCM list \<times> audio_error option" where
  "read_loop a [] = ([], None)"
| "read_loop a ((b, status) # reads) =
    (case (if b = [] then (Inr zero_PCM, a) else Write a b) of
       (Inl e, a') \<Rightarrow> ([], Some e)
     | (Inr pcm, a') \<Rightarrow>
        (let (out, err) =
           (case status of
              ReadOk \<Rightarrow> read_loop a' reads
            | ReadFailed \<Rightarrow> ([], Some ReadError)
            | ReadEOF \<Rightarrow> yield_tail (fst (Flush a')))
         in (if IsEmpty pcm then out else pcm # out, err)))"

definition FromReader ::
    "(byte list \<times> read_status) list \<Rightarrow> Format \<Rightarrow> int \<Rightarrow> int \<Rightarrow> PCM list \<times> audio_error option" where
  "FromReader reads format sampleRate channels =
    (case NewAligner format sampleRate channels of
       None \<Rightarrow> ([], validate format sampleRate channels)
     | Some a \<Rightarrow> read_loop a reads)"

text \<open>\<open>Collect\<close> over the buffers and the final error of such a sequence.\<close>

fun collect_all ::
    "(Format \<Rightarrow> int \<Rightarrow> int \<Rightarrow> PCM \<Rightarrow> audio_error + PCM) \<Rightarrow> PCM \<Rightarrow> PCM list \<times> audio_error option \<Rightarrow>
     audio_error option \<times> PCM" where
  "collect_all resample out ([], err) = (err, out)"
| "collect_all resample out (pcm # pcms, err) =
    (case Append resample out pcm of
       (Some e, out') \<Rightarrow> (Some e, out')
     | (None, out') \<Rightarrow> collect_all resample out' (pcms, err))"

definition Collect_seq ::
    "(Format \<Rightarrow> int \<Rightarrow> int \<Rightarrow> PCM \<Rightarrow> audio_error + PCM) \<Rightarrow> PCM list \<times> audio_error option \<Rightarrow> audio_error option \<times> PCM" where
  "Collect_seq resample sq = collect_all resample zero_PCM sq"


section \<open>Sample conversion\<close>

lemma floor_log2_bounds: "1 \<le> m \<Longrightarrow> 0 \<le> floor_log2 m \<and> 2 ^ nat (floor_log2 m) \<le> m \<and> m < 2 * 2 ^ nat (floor_log2 m)"
proof (induction m rule: floor_log2.induct)
  case (1 m)
  show ?case
  proof (cases "m = 1")
    case True
    then show ?thesis by (simp add: floor_log2.simps)
  next
    case False
    with 1 have IH: "0 \<le> floor_log2 (m div 2)" "2 ^ nat (floor_log2 (m div 2)) \<le> m div 2"
        "m div 2 < 2 * 2 ^ nat (floor_log2 (m div 2))"
      by auto
    with False 1(2) show ?thesis
      by (subst (1 2 3) floor_log2.simps) (auto simp: nat_add_distrib)
  qed
qed

lemma floor_log2_lt: "1 \<le> m \<Longrightarrow> m < 2 ^ k \<Longrightarrow> floor_log2 m < int k"
proof -
  assume m: "1 \<le> m" "m < 2 ^ k"
  with floor_log2_bounds[OF m(1)] have "(2::int) ^ nat (floor_log2 m) < 2 ^ k" by linarith
  then have "nat (floor_log2 m) < k" by simp
  then show ?thesis by linarith
qed

lemma f32_fields:
  assumes "0 \<le> x" "x < 2 ^ 8" "0 \<le> frac" "frac < 2 ^ 23"
  shows "f32_sign (f32_make neg x frac) = neg" "f32_exp (f32_make neg x frac) = x"
    "f32_frac (f32_make neg x frac) = frac"
proof -
  define s :: int where "s = (if neg then 1 else 0)"
  have s: "s = 0 \<or> s = 1" by (simp add: s_def)
  have w: "uint (f32_make neg x frac) = s * 2 ^ 31 + x * 2 ^ 23 + frac"
    unfolding f32_make_def uint_word_of_int s_def using assms by auto
  have f: "(s * 2 ^ 31 + x * 2 ^ 23 + frac) div 2 ^ 23 = s * 2 ^ 8 + x"
    "(s * 2 ^ 31 + x * 2 ^ 23 + frac) mod 2 ^ 23 = frac"
    using assms div_mult_self1[of "2 ^ 23" frac "s * 2 ^ 8 + x"] mod_mult_self1[of frac "s * 2 ^ 8 + x" "2 ^ 23"]
    by (simp_all add: algebra_simps)
  show "f32_sign (f32_make neg x frac) = neg"
    using assms s unfolding f32_sign_def w by (auto simp: s_def)
  show "f32_exp (f32_make neg x frac) = x"
    using assms unfolding f32_exp_def w by (simp only: f) simp
  show "f32_frac (f32_make neg x frac) = frac"
    using assms unfolding f32_frac_def w by (simp only: f)
qed

text \<open>The significand of a converted sample is the sample's magnitude, shifted.\<close>

lemma s16ToF32_fields:
  assumes m: "m = \<bar>sint v\<bar>" "m \<noteq> 0" and e: "e = floor_log2 m"
  shows "f32_sign (s16ToF32 v) = (sint v < 0)" "f32_exp (s16ToF32 v) = e + 112"
    "2 ^ 23 + f32_frac (s16ToF32 v) = m * 2 ^ nat (23 - e)" "0 \<le> e" "e \<le> 15"
proof -
  have range: "1 \<le> m" "m < 2 ^ 16"
    using m sint_range_size[of v] by (auto simp: word_size)
  note b = floor_log2_bounds[OF range(1), folded e]
  show e15: "0 \<le> e" "e \<le> 15"
    using b floor_log2_lt[OF range] e by auto
  have pow: "(2::int) ^ nat e * 2 ^ nat (23 - e) = 2 ^ 23"
    using e15 by (simp add: power_add[symmetric] nat_add_distrib[symmetric])
  define frac where "frac = (m - 2 ^ nat e) * 2 ^ nat (23 - e)"
  have "frac < 2 ^ nat e * 2 ^ nat (23 - e)"
    unfolding frac_def using b by (intro mult_strict_right_mono) auto
  with b have frac: "0 \<le> frac" "frac < 2 ^ 23"
    unfolding pow by (auto simp: frac_def)
  have eq: "s16ToF32 v = f32_make (sint v < 0) (e + 112) frac"
    using m e by (simp add: s16ToF32_def Let_def frac_def)
  have x: "0 \<le> e + 112" "e + 112 < 2 ^ 8" using e15 by auto
  show "f32_sign (s16ToF32 v) = (sint v < 0)" "f32_exp (s16ToF32 v) = e + 112"
    unfolding eq by (rule f32_fields[OF x frac])+
  show "2 ^ 23 + f32_frac (s16ToF32 v) = m * 2 ^ nat (23 - e)"
    unfolding eq f32_fields(3)[OF x frac] unfolding frac_def pow[symmetric] by (simp add: algebra_simps)
qed

lemma f32ToS16_s16ToF32: "f32ToS16 (s16ToF32 v) = v"
proof (cases "sint v = 0")
  case True
  then have "v = 0" by (simp add: signed_eq_0_iff)
  then show ?thesis by (simp add: s16ToF32_def f32ToS16_def f32_exp_def f32_frac_def f32_sign_def)
next
  case False
  define m e where "m = \<bar>sint v\<bar>" and "e = floor_log2 m"
  note f = s16ToF32_fields[OF m_def _ e_def] 
  have m0: "m \<noteq> 0" using False by (simp add: m_def)
  have range: "- 32768 \<le> sint v" "sint v \<le> 32767"
    using sint_range_size[of v] by (auto simp: word_size)
  define d :: int where "d = 2 ^ nat (23 - e)"
  have d: "0 < d" by (simp add: d_def)
  have r: "(2 * (m * d) + d) div (2 * d) = m"
    using d by (intro int_div_pos_eq[where r = d]) (auto simp: algebra_simps)
  have ge: "k * d \<le> m * d \<longleftrightarrow> k \<le> m" for k using d by simp
  have "f32ToS16 (s16ToF32 v) =
      (if \<not> sint v < 0 \<and> 32767 \<le> m then 32767 else if sint v < 0 \<and> 32768 \<le> m then - 32768
       else word_of_int (if sint v < 0 then - m else m))"
    using f[OF m0] by (simp add: f32ToS16_def Let_def d_def[symmetric] r ge)
  also have "\<dots> = word_of_int (if \<not> sint v < 0 \<and> 32767 \<le> m then 32767
      else if sint v < 0 \<and> 32768 \<le> m then - 32768 else if sint v < 0 then - m else m)"
    by simp
  also have "\<dots> = word_of_int (sint v)"
    using range by (intro arg_cong[where f = word_of_int]) (auto simp: m_def)
  finally show ?thesis by simp
qed

section \<open>Bytes\<close>

lemma decode_s16_bytes: "decode_s16 (concat (map le_bytes16 xs)) = xs"
  by (induction xs) (simp_all add: le_bytes16_def be_bytes16_def bytes_rt)

lemma decode_f32_bytes: "decode_f32 (concat (map le_bytes32 xs)) = xs"
  by (induction xs) (simp_all add: le_bytes32_def be_bytes32_def bytes_rt)

lemma bytes_decode_s16: "length b mod 2 = 0 \<Longrightarrow> concat (map le_bytes16 (decode_s16 b)) = b"
  by (induction b rule: decode_s16.induct) (auto simp: bytes_rt)

lemma bytes_decode_f32: "length b mod 4 = 0 \<Longrightarrow> concat (map le_bytes32 (decode_f32 b)) = b"
  by (induction b rule: decode_f32.induct) (auto simp: bytes_rt)

lemma length_decode: "length (decode_s16 b) = length b div 2" "length (decode_f32 b) = length b div 4"
proof -
  show "length (decode_s16 b) = length b div 2" by (induction b rule: decode_s16.induct) auto
  show "length (decode_f32 b) = length b div 4" by (induction b rule: decode_f32.induct) auto
qed

abbreviation frame_size :: "Format \<Rightarrow> int \<Rightarrow> nat" where
  "frame_size f ch \<equiv> nat (BytesPerSample f * ch)"

lemma validate_None: "validate f sr ch = None \<longleftrightarrow> Valid f \<and> 0 < sr \<and> 0 < ch"
  by (simp add: validate_def not_le)

lemma Valid_cases: "Valid f \<Longrightarrow> (f = FormatS16 \<Longrightarrow> P) \<Longrightarrow> (f = FormatF32 \<Longrightarrow> P) \<Longrightarrow> P"
  by (auto simp: Valid_def)

text \<open>A well-formed buffer: valid parameters, whole frames, and samples of its format only.\<close>

definition pcm_wf :: "PCM \<Rightarrow> bool" where
  "pcm_wf p \<longleftrightarrow> validate (p_Format p) (p_SampleRate p) (p_Channels p) = None \<and>
     NumSamples p mod p_Channels p = 0 \<and> (if p_Format p = FormatF32 then p_s16 p = [] else p_f32 p = [])"

lemma pcm_wf_cases:
  assumes "pcm_wf p"
  obtains (s16) "p_Format p = FormatS16" "p_f32 p = []" "int (length (p_s16 p)) = Len p * p_Channels p"
  | (f32) "p_Format p = FormatF32" "p_s16 p = []" "int (length (p_f32 p)) = Len p * p_Channels p"
  using assms
  by (auto simp: pcm_wf_def validate_None Valid_def NumSamples_def Len_def tdiv_nonneg
      intro: that)

lemma whole_frames_length:
  "0 < frame_size f ch \<Longrightarrow> length (whole_frames b f ch) mod frame_size f ch = 0"
  by (simp add: whole_frames_def Let_def minus_mod_eq_mult_div)

lemma frame_multiple:
  assumes "0 < ch" "0 < k" "n mod nat (int k * ch) = 0"
  shows "n mod k = 0" "int (n div k) mod ch = 0"
proof -
  from assms obtain q where "n = k * nat ch * q" by (auto simp: nat_mult_distrib)
  with assms show "n mod k = 0" "int (n div k) mod ch = 0" by auto
qed

lemma FromBytes_ok:
  assumes v: "validate f sr ch = None"
  obtains p where "FromBytes b f sr ch = Inr p" "Bytes p = whole_frames b f ch" "pcm_wf p"
    "p_Format p = f" "p_SampleRate p = sr" "p_Channels p = ch" "p_PTS p = 0"
    "NumSamples p * BytesPerSample f = int (length (whole_frames b f ch))"
proof -
  from v have f: "Valid f" "0 < sr" "0 < ch" by (auto simp: validate_None)
  define w where "w = whole_frames b f ch"
  have wl: "length w mod frame_size f ch = 0"
    using f unfolding w_def by (intro whole_frames_length) (auto simp: Valid_def BytesPerSample_def)
  define q where "q = zero_PCM\<lparr>p_Format := f, p_SampleRate := sr, p_Channels := ch\<rparr>"
  note defs = FromBytes_def NewChecked_def Bytes_def zero_PCM_def pcm_wf_def NumSamples_def length_decode
    BytesPerSample_def
  show thesis
  proof (rule Valid_cases[OF f(1)])
    assume s: "f = FormatS16"
    have m: "length w mod 2 = 0" "int (length w div 2) mod ch = 0"
      using frame_multiple[of ch 2 "length w"] wl f s by (auto simp: BytesPerSample_def)
    show thesis
      using s v m bytes_decode_s16[OF m(1)]
      by (intro that[of "q\<lparr>p_s16 := decode_s16 w\<rparr>"]) (auto simp: q_def w_def defs)
  next
    assume s: "f = FormatF32"
    have m: "length w mod 4 = 0" "int (length w div 4) mod ch = 0"
      using frame_multiple[of ch 4 "length w"] wl f s by (auto simp: BytesPerSample_def)
    show thesis
      using s v m bytes_decode_f32[OF m(1)]
      by (intro that[of "q\<lparr>p_f32 := decode_f32 w\<rparr>"]) (auto simp: q_def w_def defs)
  qed
qed

section \<open>Alignment\<close>

lemma whole_frames_id: "length b mod frame_size f ch = 0 \<Longrightarrow> whole_frames b f ch = b"
  by (simp add: whole_frames_def Let_def)

definition aligner_ok :: "Aligner \<Rightarrow> bool" where
  "aligner_ok a \<longleftrightarrow> validate (a_format a) (a_sampleRate a) (a_channels a) = None \<and>
     a_frameSize a = frame_size (a_format a) (a_channels a) \<and> length (a_buf a) < a_frameSize a"

text \<open>A buffer of the aligner's stream: well-formed, with the parameters of the stream.\<close>

definition of_stream :: "Format \<Rightarrow> int \<Rightarrow> int \<Rightarrow> PCM \<Rightarrow> bool" where
  "of_stream f sr ch p \<longleftrightarrow> pcm_wf p \<and> p_Format p = f \<and> p_SampleRate p = sr \<and> p_Channels p = ch \<and> p_PTS p = 0"

abbreviation of_aligner :: "Aligner \<Rightarrow> PCM \<Rightarrow> bool" where
  "of_aligner a \<equiv> of_stream (a_format a) (a_sampleRate a) (a_channels a)"

lemma NewAligner_ok:
  "validate f sr ch = None \<Longrightarrow>
     NewAligner f sr ch = Some \<lparr>a_format = f, a_sampleRate = sr, a_channels = ch, a_frameSize = frame_size f ch, a_buf = []\<rparr> \<and>
     aligner_ok \<lparr>a_format = f, a_sampleRate = sr, a_channels = ch, a_frameSize = frame_size f ch, a_buf = []\<rparr>"
  by (frule validate_None[THEN iffD1]) (auto simp: NewAligner_def aligner_ok_def Valid_def BytesPerSample_def)

lemma aligner_empty_ok:
  assumes "aligner_ok a"
  obtains pcm where "aligner_empty a = Inr pcm" "Bytes pcm = []" "of_aligner a pcm" "IsEmpty pcm"
  using assms
  by (auto simp: aligner_empty_def NewChecked_def aligner_ok_def of_stream_def pcm_wf_def zero_PCM_def Bytes_def
      NumSamples_def IsEmpty_def intro!: that)

lemma FromBytes_aligned:
  assumes "aligner_ok a" "length b mod a_frameSize a = 0"
  obtains pcm where "FromBytes b (a_format a) (a_sampleRate a) (a_channels a) = Inr pcm" "Bytes pcm = b"
    "of_aligner a pcm"
proof -
  have v: "validate (a_format a) (a_sampleRate a) (a_channels a) = None"
    and w: "whole_frames b (a_format a) (a_channels a) = b"
    using assms whole_frames_id[of b "a_format a" "a_channels a"] by (auto simp: aligner_ok_def)
  show thesis
    by (rule FromBytes_ok[OF v, of b]) (auto simp: w of_stream_def intro: that)
qed

lemma Write_ok:
  assumes ok: "aligner_ok a"
  obtains pcm buf where "Write a b = (Inr pcm, a\<lparr>a_buf := buf\<rparr>)" "Bytes pcm @ buf = a_buf a @ b"
    "of_aligner a pcm" "aligner_ok (a\<lparr>a_buf := buf\<rparr>)"
proof -
  define all whole where "all = a_buf a @ b" and "whole = length all - length all mod a_frameSize a"
  have fs: "0 < a_frameSize a" using ok unfolding aligner_ok_def by linarith
  have wm: "whole mod a_frameSize a = 0" by (simp add: whole_def minus_mod_eq_mult_div)
  have W: "Write a b = (if whole = 0 then (aligner_empty a, a\<lparr>a_buf := all\<rparr>)
     else case FromBytes (take whole all) (a_format a) (a_sampleRate a) (a_channels a) of
       Inl e \<Rightarrow> (Inl e, a\<lparr>a_buf := all\<rparr>)
     | Inr pcm \<Rightarrow> (Inr pcm, a\<lparr>a_buf := drop whole all\<rparr>))"
    by (simp only: Write_def Let_def all_def whole_def)
  have wl: "length (take whole all) = whole" by (simp add: whole_def)
  have rest: "length all - whole < a_frameSize a"
    using fs by (simp add: whole_def)
  show thesis
  proof (cases "whole = 0")
    case True
    obtain pcm where e: "aligner_empty a = Inr pcm" "Bytes pcm = []" "of_aligner a pcm"
      by (rule aligner_empty_ok[OF ok])
    with True ok rest show thesis
      by (intro that[of pcm all])
         (auto simp: W all_def[symmetric] aligner_ok_def)
  next
    case False
    obtain pcm where "FromBytes (take whole all) (a_format a) (a_sampleRate a) (a_channels a) = Inr pcm"
        "Bytes pcm = take whole all" "of_aligner a pcm"
      using wm wl by (rule_tac FromBytes_aligned[OF ok, of "take whole all"]) simp_all
    with False ok rest show thesis
      by (intro that[of pcm "drop whole all"])
         (auto simp: W all_def[symmetric] aligner_ok_def)
  qed
qed

lemma Flush_ok:
  assumes ok: "aligner_ok a"
  obtains pcm k where "Flush a = (Inr pcm, a\<lparr>a_buf := []\<rparr>)" "Bytes pcm = a_buf a @ replicate k 0"
    "of_aligner a pcm" "k < a_frameSize a"
proof (cases "a_buf a = []")
  case True
  obtain pcm where "aligner_empty a = Inr pcm" "Bytes pcm = []" "of_aligner a pcm"
    by (rule aligner_empty_ok[OF ok])
  moreover have "0 < a_frameSize a" using ok unfolding aligner_ok_def by linarith
  moreover have "a\<lparr>a_buf := []\<rparr> = a" using True by simp
  ultimately show thesis
    using True by (intro that[of pcm 0]) (auto simp: Flush_def)
next
  case False
  define n k where "n = length (a_buf a)" and "k = (a_frameSize a - n mod a_frameSize a) mod a_frameSize a"
  have n: "0 < n" "n < a_frameSize a" using ok False by (auto simp: aligner_ok_def n_def)
  then have k: "k = a_frameSize a - n" by (simp add: k_def)
  obtain pcm where "FromBytes (a_buf a @ replicate k 0) (a_format a) (a_sampleRate a) (a_channels a) = Inr pcm"
      "Bytes pcm = a_buf a @ replicate k 0" "of_aligner a pcm"
    using n k by (rule_tac FromBytes_aligned[OF ok, of "a_buf a @ replicate k 0"]) (auto simp: n_def)
  with False n k show thesis
    by (intro that[of pcm k]) (auto simp: Flush_def n_def[symmetric] k_def[symmetric] Let_def)
qed

lemma IsEmpty_Bytes: "pcm_wf p \<Longrightarrow> IsEmpty p \<longleftrightarrow> Bytes p = []"
  by (erule pcm_wf_cases) (auto simp: IsEmpty_def NumSamples_def Bytes_def le_bytes16_def be_bytes16_def
      le_bytes32_def be_bytes32_def)

definition yielded :: "Format \<Rightarrow> int \<Rightarrow> int \<Rightarrow> PCM list \<Rightarrow> bool" where
  "yielded f sr ch out \<longleftrightarrow> (\<forall>p \<in> set out. of_stream f sr ch p \<and> \<not> IsEmpty p)"

lemma align_chunks_ok:
  "aligner_ok a \<Longrightarrow> align_chunks a cs = (out, err, a') \<Longrightarrow>
     err = None \<and> aligner_ok a' \<and> (\<exists>buf. a' = a\<lparr>a_buf := buf\<rparr>) \<and>
     concat (map Bytes out) @ a_buf a' = a_buf a @ concat cs \<and>
     yielded (a_format a) (a_sampleRate a) (a_channels a) out"
proof (induction cs arbitrary: a out err a')
  case Nil
  then show ?case by (auto simp: yielded_def intro: exI[of _ "a_buf a"])
next
  case (Cons c cs)
  obtain pcm buf where w: "Write a c = (Inr pcm, a\<lparr>a_buf := buf\<rparr>)" "Bytes pcm @ buf = a_buf a @ c"
      "of_aligner a pcm" "aligner_ok (a\<lparr>a_buf := buf\<rparr>)"
    by (rule Write_ok[OF Cons.prems(1)])
  obtain out' err' a'' where r: "align_chunks (a\<lparr>a_buf := buf\<rparr>) cs = (out', err', a'')"
    by (cases "align_chunks (a\<lparr>a_buf := buf\<rparr>) cs") auto
  note IH = Cons.IH[OF w(4) r]
  have e: "IsEmpty pcm \<longleftrightarrow> Bytes pcm = []" using w(3) by (simp add: of_stream_def IsEmpty_Bytes)
  have out: "out = (if IsEmpty pcm then out' else pcm # out')" "err = err'" "a' = a''"
    using Cons.prems(2) w(1) r by auto
  have "concat (map Bytes out) @ a_buf a' = Bytes pcm @ concat (map Bytes out') @ a_buf a''"
    using out e by auto
  also have "\<dots> = (Bytes pcm @ buf) @ concat cs" using IH by simp
  finally have "concat (map Bytes out) @ a_buf a' = a_buf a @ concat (c # cs)"
    unfolding w(2) by simp
  then show ?case
    using IH w out by (auto simp: yielded_def)
qed

lemma yield_tail_ok:
  assumes "aligner_ok a"
  obtains out k where "yield_tail (fst (Flush a)) = (out, None)" "concat (map Bytes out) = a_buf a @ replicate k 0"
    "k < a_frameSize a" "yielded (a_format a) (a_sampleRate a) (a_channels a) out"
proof -
  obtain pcm k where f: "Flush a = (Inr pcm, a\<lparr>a_buf := []\<rparr>)" "Bytes pcm = a_buf a @ replicate k 0"
      "of_aligner a pcm" "k < a_frameSize a"
    by (rule Flush_ok[OF assms])
  moreover have "IsEmpty pcm \<longleftrightarrow> Bytes pcm = []" using f(3) by (simp add: of_stream_def IsEmpty_Bytes)
  ultimately show thesis
    by (intro that[of "if IsEmpty pcm then [] else [pcm]" k]) (auto simp: yield_tail_def yielded_def)
qed

lemma FromByteSeq_ok:
  assumes v: "validate f sr ch = None"
  obtains out k where "FromByteSeq cs f sr ch = (out, None)" "concat (map Bytes out) = concat cs @ replicate k 0"
    "k < frame_size f ch" "yielded f sr ch out"
proof -
  define a where "a = \<lparr>a_format = f, a_sampleRate = sr, a_channels = ch, a_frameSize = frame_size f ch, a_buf = []\<rparr>"
  have a: "NewAligner f sr ch = Some a" "aligner_ok a"
    using NewAligner_ok[OF v] by (simp_all add: a_def)
  obtain out err a' where c: "align_chunks a cs = (out, err, a')" by (cases "align_chunks a cs") auto
  note ok = align_chunks_ok[OF a(2) c]
  from ok obtain tl k where t: "yield_tail (fst (Flush a')) = (tl, None)"
      "concat (map Bytes tl) = a_buf a' @ replicate k 0" "k < a_frameSize a'"
      "yielded (a_format a') (a_sampleRate a') (a_channels a') tl"
    by (blast elim: yield_tail_ok)
  have "concat (map Bytes (out @ tl)) = (concat (map Bytes out) @ a_buf a') @ replicate k 0"
    using t(2) by simp
  also have "\<dots> = concat cs @ replicate k 0" using ok by (simp add: a_def)
  finally show thesis
    using ok t a(1) c by (intro that[of "out @ tl" k]) (auto simp: FromByteSeq_def a_def yielded_def)
qed

lemma Append_stream:
  assumes "of_stream f sr ch q" "\<not> IsEmpty q" "of_stream f sr ch p \<or> p = zero_PCM"
  obtains r where "Append resample p q = (None, r)" "Bytes r = Bytes p @ Bytes q" "of_stream f sr ch r"
proof -
  have q: "pcm_wf q" "validate f sr ch = None" "p_Format q = f" "p_SampleRate q = sr" "p_Channels q = ch" "p_PTS q = 0"
    using assms(1) by (auto simp: of_stream_def pcm_wf_def)
  then have pos: "0 < sr" "0 < ch" by (auto simp: validate_None)
  define p' where "p' = (if p = zero_PCM then p\<lparr>p_Format := f, p_SampleRate := sr, p_Channels := ch, p_PTS := 0\<rparr> else p)"
  have p': "pcm_wf p'" "p_Format p' = f" "p_SampleRate p' = sr" "p_Channels p' = ch" "p_PTS p' = 0" "Bytes p' = Bytes p"
    using assms(3) q by (auto simp: p'_def of_stream_def zero_PCM_def pcm_wf_def NumSamples_def Bytes_def)
  have z: "p_SampleRate zero_PCM \<le> 0 \<and> p_Channels zero_PCM \<le> 0 \<and> IsEmpty zero_PCM"
    by (simp add: zero_PCM_def IsEmpty_def NumSamples_def)
  have adopt: "(if p_SampleRate p \<le> 0 \<and> p_Channels p \<le> 0 \<and> IsEmpty p
      then p\<lparr>p_Format := p_Format q, p_SampleRate := p_SampleRate q, p_Channels := p_Channels q, p_PTS := p_PTS q\<rparr>
      else p) = p'"
    using assms(3) pos z q(3-6) by (auto simp: of_stream_def p'_def)
  have same: "To f q = q"
    using q by (auto simp: To_def ToFloat32_def ToInt16_def elim: pcm_wf_cases)
  define r where "r = (if f = FormatF32 then p'\<lparr>p_f32 := p_f32 p' @ p_f32 q\<rparr> else p'\<lparr>p_s16 := p_s16 p' @ p_s16 q\<rparr>)"
  have "Append resample p q = (None, r)"
    using assms(2) q(2-5) p'(2-4) same
    unfolding Append_def adopt Let_def r_def by auto
  moreover have "Bytes r = Bytes p @ Bytes q"
    using p' q by (auto simp: r_def Bytes_def)
  moreover have "of_stream f sr ch r"
    using p' q pos by (auto simp: r_def of_stream_def pcm_wf_def NumSamples_def dvd_eq_mod_eq_0[symmetric])
  ultimately show thesis by (rule that)
qed

lemma collect_all_ok:
  "yielded f sr ch ps \<Longrightarrow> of_stream f sr ch p \<or> p = zero_PCM \<Longrightarrow>
     \<exists>r. collect_all resample p (ps, None) = (None, r) \<and> Bytes r = Bytes p @ concat (map Bytes ps)"
proof (induction ps arbitrary: p)
  case Nil
  then show ?case by simp
next
  case (Cons q ps)
  then have q: "of_stream f sr ch q" "\<not> IsEmpty q" by (auto simp: yielded_def)
  obtain r where r: "Append resample p q = (None, r)" "Bytes r = Bytes p @ Bytes q" "of_stream f sr ch r"
    by (rule Append_stream[OF q Cons.prems(2)])
  with Cons.IH[of r] Cons.prems(1) show ?case by (auto simp: yielded_def)
qed

section \<open>Slices and padding\<close>

abbreviation pcm_frame :: "PCM \<Rightarrow> nat" where
  "pcm_frame p \<equiv> frame_size (p_Format p) (p_Channels p)"

lemma pcm_wf_pos: "pcm_wf p \<Longrightarrow> 0 < p_Channels p \<and> 0 < p_SampleRate p \<and> 0 < pcm_frame p \<and> 0 \<le> Len p"
  by (auto simp: pcm_wf_def validate_None Valid_def BytesPerSample_def Len_def NumSamples_def tdiv_nonneg
      pos_imp_zdiv_nonneg_iff)

lemma frames_nat: "0 < ch \<Longrightarrow> 0 \<le> n \<Longrightarrow> nat (n * ch) = nat n * nat ch"
  by (simp add: nat_mult_distrib)

lemma length_Bytes: "pcm_wf p \<Longrightarrow> length (Bytes p) = nat (Len p) * pcm_frame p"
proof -
  assume wf: "pcm_wf p"
  note pos = pcm_wf_pos[OF wf]
  from wf show ?thesis
  proof (cases p rule: pcm_wf_cases)
    case s16
    then have "length (p_s16 p) = nat (Len p) * nat (p_Channels p)"
      using pos by (simp add: frames_nat[symmetric])
    then show ?thesis
      using s16 pos length_concat_blocks[of le_bytes16 2 "p_s16 p"]
      by (simp add: Bytes_def BytesPerSample_def nat_mult_distrib)
  next
    case f32
    then have "length (p_f32 p) = nat (Len p) * nat (p_Channels p)"
      using pos by (simp add: frames_nat[symmetric])
    then show ?thesis
      using f32 pos length_concat_blocks[of le_bytes32 4 "p_f32 p"]
      by (simp add: Bytes_def BytesPerSample_def nat_mult_distrib)
  qed
qed

text \<open>Two buffers of the same stream parameters.\<close>

definition same_params :: "PCM \<Rightarrow> PCM \<Rightarrow> bool" where
  "same_params p q \<longleftrightarrow> p_Format p = p_Format q \<and> p_SampleRate p = p_SampleRate q \<and> p_Channels p = p_Channels q"

abbreviation frames_from :: "int \<Rightarrow> int \<Rightarrow> int \<Rightarrow> 'a list \<Rightarrow> 'a list" where
  "frames_from ch i n xs \<equiv> take (nat n * nat ch) (drop (nat i * nat ch) xs)"

lemma slice_list_ok:
  assumes "0 < ch" "0 \<le> i" "i \<le> j" "j \<le> n" "int (length xs) = n * ch"
  shows "slice_list xs (i * ch) (j * ch) = Some (frames_from ch i (j - i) xs)"
    and "length (frames_from ch i (j - i) xs) = nat (j - i) * nat ch"
proof -
  have b: "0 \<le> i * ch" "i * ch \<le> j * ch" "j * ch \<le> n * ch" using assms by auto
  have e: "nat (j * ch - i * ch) = nat (j - i) * nat ch" "nat (i * ch) = nat i * nat ch"
    using assms by (auto simp: left_diff_distrib[symmetric] nat_mult_distrib)
  then show "slice_list xs (i * ch) (j * ch) = Some (frames_from ch i (j - i) xs)"
    using b assms(5) by (simp add: slice_list_def)
  show "length (frames_from ch i (j - i) xs) = nat (j - i) * nat ch"
    unfolding e[symmetric] length_take length_drop using b assms(5) by arith
qed

lemma Slice_ok:
  assumes wf: "pcm_wf p" and ij: "0 \<le> i" "i \<le> j" "j \<le> Len p"
  obtains q where "Slice p i j = Some q" "pcm_wf q" "same_params q p" "Len q = j - i"
    "Bytes q = take (nat (j - i) * pcm_frame p) (drop (nat i * pcm_frame p) (Bytes p))"
    "p_PTS q = i64 (p_PTS p + frames_duration i (p_SampleRate p))"
proof -
  note pos = pcm_wf_pos[OF wf]
  let ?pts = "i64 (p_PTS p + frames_duration i (p_SampleRate p))"
  have len: "tdiv (int (nat (j - i) * nat (p_Channels p))) (p_Channels p) = j - i"
    using pos ij by (simp add: tdiv_nonneg)
  note defs = pcm_wf_def same_params_def Len_def NumSamples_def
  from wf show thesis
  proof (cases p rule: pcm_wf_cases)
    case s16
    define xs where "xs = frames_from (p_Channels p) i (j - i) (p_s16 p)"
    have xs: "slice_list (p_s16 p) (i * p_Channels p) (j * p_Channels p) = Some xs"
        "length xs = nat (j - i) * nat (p_Channels p)"
      unfolding xs_def using slice_list_ok[OF _ ij s16(3)] pos by auto
    have S: "Slice p i j = Some (p\<lparr>p_s16 := xs, p_PTS := ?pts\<rparr>)"
      using s16 xs(1) pos by (simp add: Slice_def)
    have U: "Bytes (p\<lparr>p_s16 := xs, p_PTS := ?pts\<rparr>) = concat (map le_bytes16 xs)"
      using s16 by (simp add: Bytes_def)
    have B: "concat (map le_bytes16 xs) = take (nat (j - i) * pcm_frame p) (drop (nat i * pcm_frame p) (Bytes p))"
      using s16 pos take_concat_blocks[of le_bytes16 2] drop_concat_blocks[of le_bytes16 2]
      by (simp add: xs_def Bytes_def BytesPerSample_def nat_mult_distrib mult.assoc[symmetric] mult.commute[of 2])
    show thesis
      by (rule that[OF S]) (use s16 wf B U xs(2) pos len in \<open>auto simp: defs\<close>)
  next
    case f32
    define xs where "xs = frames_from (p_Channels p) i (j - i) (p_f32 p)"
    have xs: "slice_list (p_f32 p) (i * p_Channels p) (j * p_Channels p) = Some xs"
        "length xs = nat (j - i) * nat (p_Channels p)"
      unfolding xs_def using slice_list_ok[OF _ ij f32(3)] pos by auto
    have S: "Slice p i j = Some (p\<lparr>p_f32 := xs, p_PTS := ?pts\<rparr>)"
      using f32 xs(1) pos by (simp add: Slice_def)
    have U: "Bytes (p\<lparr>p_f32 := xs, p_PTS := ?pts\<rparr>) = concat (map le_bytes32 xs)"
      using f32 by (simp add: Bytes_def)
    have B: "concat (map le_bytes32 xs) = take (nat (j - i) * pcm_frame p) (drop (nat i * pcm_frame p) (Bytes p))"
      using f32 pos take_concat_blocks[of le_bytes32 4] drop_concat_blocks[of le_bytes32 4]
      by (simp add: xs_def Bytes_def BytesPerSample_def nat_mult_distrib mult.assoc[symmetric] mult.commute[of 4])
    show thesis
      by (rule that[OF S]) (use f32 wf B U xs(2) pos len in \<open>auto simp: defs\<close>)
  qed
qed

definition silence_pad :: "PadPosition \<Rightarrow> nat \<Rightarrow> 'a::zero list \<Rightarrow> 'a list" where
  "silence_pad at k xs = (if at = PadStart then replicate k 0 @ xs else xs @ replicate k 0)"

lemma pad_copy_eq:
  assumes "0 < ch" "h \<le> n" "0 \<le> h" "int (length xs) = h * ch"
  shows "pad_copy (n * ch) (padOffset at ((n - h) * ch)) xs = silence_pad at (nat (n - h) * nat ch) xs"
proof -
  have e: "nat (n * ch) = nat n * nat ch" "nat ((n - h) * ch) = nat (n - h) * nat ch" "length xs = nat h * nat ch"
    using assms by (auto simp: nat_mult_distrib[symmetric])
  have "nat n * nat ch = nat (n - h) * nat ch + nat h * nat ch"
    using assms by (simp add: add_mult_distrib[symmetric] nat_add_distrib[symmetric])
  then show ?thesis
    by (simp add: pad_copy_def padOffset_def silence_pad_def Let_def e)
qed

lemma bytes_silence:
  "concat (map le_bytes16 (silence_pad at k xs)) = silence_pad at (k * 2) (concat (map le_bytes16 xs))"
  "concat (map le_bytes32 (silence_pad at k ys)) = silence_pad at (k * 4) (concat (map le_bytes32 ys))"
proof -
  have "le_bytes16 0 = replicate 2 0" "le_bytes32 0 = replicate 4 0"
    by (simp_all add: le_bytes16_def be_bytes16_def le_bytes32_def be_bytes32_def eval_nat_numeral)
  then show "concat (map le_bytes16 (silence_pad at k xs)) = silence_pad at (k * 2) (concat (map le_bytes16 xs))"
    "concat (map le_bytes32 (silence_pad at k ys)) = silence_pad at (k * 4) (concat (map le_bytes32 ys))"
    by (auto simp: silence_pad_def concat_replicate_blocks)
qed

lemma length_silence_pad [simp]: "length (silence_pad at k xs) = length xs + k"
  by (simp add: silence_pad_def)

lemma PadTo_ok:
  assumes wf: "pcm_wf p" and n: "Len p \<le> n"
  shows "pcm_wf (PadTo p n at)" "same_params (PadTo p n at) p" "Len (PadTo p n at) = n"
    "Bytes (PadTo p n at) = silence_pad at (nat (n - Len p) * pcm_frame p) (Bytes p)"
proof -
  note pos = pcm_wf_pos[OF wf]
  have len: "tdiv (int (nat (Len p) * nat (p_Channels p) + nat (n - Len p) * nat (p_Channels p))) (p_Channels p) = n"
    using pos n by (simp add: tdiv_nonneg distrib_right[symmetric])
  have goal: "pcm_wf (PadTo p n at) \<and> same_params (PadTo p n at) p \<and> Len (PadTo p n at) = n \<and>
    Bytes (PadTo p n at) = silence_pad at (nat (n - Len p) * pcm_frame p) (Bytes p)"
  proof (cases "Len p = n")
    case True
    then show ?thesis using wf by (simp add: PadTo_def same_params_def silence_pad_def)
  next
    case False
    with n have lt: "\<not> n \<le> Len p" by simp
    note eq = pad_copy_eq[of "p_Channels p" "Len p" n, OF _ n]
    from wf show ?thesis
    proof (cases p rule: pcm_wf_cases)
      case s16
      have "length (p_s16 p) = nat (Len p) * nat (p_Channels p)"
        using s16 pos by (simp add: nat_mult_distrib[symmetric])
      then show ?thesis
        using s16 wf pos lt eq[of "p_s16 p" at] len
        by (auto simp: PadTo_def Let_def same_params_def pcm_wf_def NumSamples_def Bytes_def bytes_silence
          Len_def[of "p_s16_update _ _"] Len_def[of "p_PTS_update _ _"] BytesPerSample_def nat_mult_distrib
          mult.commute[of _ "2::nat"] mult.left_commute[of _ "2::nat"])
    next
      case f32
      have "length (p_f32 p) = nat (Len p) * nat (p_Channels p)"
        using f32 pos by (simp add: nat_mult_distrib[symmetric])
      then show ?thesis
        using f32 wf pos lt eq[of "p_f32 p" at] len
        by (auto simp: PadTo_def Let_def same_params_def pcm_wf_def NumSamples_def Bytes_def bytes_silence
          Len_def[of "p_f32_update _ _"] Len_def[of "p_PTS_update _ _"] BytesPerSample_def nat_mult_distrib
          mult.commute[of _ "4::nat"] mult.left_commute[of _ "4::nat"])
    qed
  qed
  then show "pcm_wf (PadTo p n at)" "same_params (PadTo p n at) p" "Len (PadTo p n at) = n"
    "Bytes (PadTo p n at) = silence_pad at (nat (n - Len p) * pcm_frame p) (Bytes p)"
    by auto
qed

section \<open>The chunk loop\<close>

text \<open>Chunk number \<open>k\<close> in bytes: \<open>w\<close> bytes from offset \<open>i\<close> of \<open>b\<close>, completed with zeros if \<open>pad\<close>.\<close>

definition byte_window :: "bool \<Rightarrow> nat \<Rightarrow> byte list \<Rightarrow> nat \<Rightarrow> byte list" where
  "byte_window pad w b i =
    (let c = take w (drop i b) in if pad then c @ replicate (w - length c) 0 else c)"

definition ceil_div :: "int \<Rightarrow> int \<Rightarrow> nat" where
  "ceil_div a b = nat ((a + b - 1) div b)"

lemma ceil_div_step: "0 < a \<Longrightarrow> 1 \<le> b \<Longrightarrow> ceil_div a b = Suc (ceil_div (a - b) b)"
proof -
  assume ab: "0 < a" "1 \<le> b"
  have "(a + b - 1) div b = 1 + (a - b + b - 1) div b"
    using ab div_add_self2[of b "a - 1"] by (simp add: algebra_simps)
  moreover have "0 \<le> (a - b + b - 1) div b" using ab by (simp add: pos_imp_zdiv_nonneg_iff)
  ultimately show ?thesis by (simp add: ceil_div_def nat_add_distrib)
qed

lemma ceil_div_zero: "a \<le> 0 \<Longrightarrow> 1 \<le> b \<Longrightarrow> ceil_div a b = 0"
  by (simp add: ceil_div_def) (smt (verit) div_pos_pos_trivial div_neg_pos_less0)

lemma chunk_ok:
  assumes wf: "pcm_wf p" and i: "0 \<le> i" "i < Len p" and sz: "0 < sz"
    and c: "Slice p i (min (i + sz) (Len p)) = Some c"
    and r: "r = (if min (i + sz) (Len p) - i < sz \<and> padLast then PadTo c sz PadEnd else c)"
  shows "pcm_wf r" "same_params r p" "p_PTS r = i64 (p_PTS p + frames_duration i (p_SampleRate p))"
    "Bytes r = byte_window padLast (nat sz * pcm_frame p) (Bytes p) (nat i * pcm_frame p)"
proof -
  define n where "n = min (i + sz) (Len p) - i"
  obtain q where q: "Slice p i (min (i + sz) (Len p)) = Some q" "pcm_wf q" "same_params q p" "Len q = n"
      "Bytes q = take (nat n * pcm_frame p) (drop (nat i * pcm_frame p) (Bytes p))"
      "p_PTS q = i64 (p_PTS p + frames_duration i (p_SampleRate p))"
    unfolding n_def by (rule Slice_ok[OF wf, of i "min (i + sz) (Len p)"]) (use i sz in auto)
  have cq: "c = q" using c q(1) by simp
  have fr: "pcm_frame q = pcm_frame p" using q(3) by (simp add: same_params_def)
  have lq: "length (Bytes q) = nat n * pcm_frame p" using length_Bytes[OF q(2)] q(4) fr by simp
  have nsz: "n \<le> sz" "0 \<le> n" using i sz by (auto simp: n_def)
  have full: "take (nat sz * pcm_frame p) (drop (nat i * pcm_frame p) (Bytes p)) = Bytes q"
  proof (cases "n = sz")
    case False
    then have "n = Len p - i" using nsz by (auto simp: n_def)
    then have "length (drop (nat i * pcm_frame p) (Bytes p)) = nat n * pcm_frame p"
      using i length_Bytes[OF wf] by (simp add: diff_mult_distrib[symmetric] nat_diff_distrib)
    moreover have "nat n * pcm_frame p \<le> nat sz * pcm_frame p" using nsz by (simp add: nat_mono)
    ultimately show ?thesis using q(5) by simp
  qed (use q(5) in simp)
  have pad: "nat sz * pcm_frame p - length (Bytes q) = nat (sz - n) * pcm_frame p"
    using nsz by (simp add: lq diff_mult_distrib[symmetric] nat_diff_distrib)
  have P: "p_PTS (PadTo q sz PadEnd) = p_PTS q" by (simp add: PadTo_def Let_def)
  note padok = PadTo_ok[OF q(2), of sz PadEnd, unfolded q(4) fr, OF nsz(1)]
  show "pcm_wf r" using r cq q padok by simp
  show "same_params r p" using r cq q padok by (auto simp: same_params_def)
  show "p_PTS r = i64 (p_PTS p + frames_duration i (p_SampleRate p))" using r cq q(6) P by simp
  show "Bytes r = byte_window padLast (nat sz * pcm_frame p) (Bytes p) (nat i * pcm_frame p)"
    using r cq padok(4) pad nsz n_def by (auto simp: byte_window_def Let_def full silence_pad_def)
qed

lemma upt_Suc_shift: "map f [0..<Suc n] = f 0 # map (\<lambda>k. f (Suc k)) [0..<n]"
  by (simp only: upt_conv_Cons zero_less_Suc list.map(2)) (simp add: map_Suc_upt[symmetric] del: map_Suc_upt upt_Suc)

lemma chunk_loop_ok:
  assumes wf: "pcm_wf p" and sz: "0 < sz"
  shows "1 \<le> step \<Longrightarrow> 0 \<le> i \<Longrightarrow> cs = chunk_loop p sz step padLast i \<Longrightarrow>
     map Bytes cs = map (\<lambda>k. byte_window padLast (nat sz * pcm_frame p) (Bytes p) ((nat i + k * nat step) * pcm_frame p))
       [0..<ceil_div (Len p - i) step] \<and>
     map p_PTS cs = map (\<lambda>k. i64 (p_PTS p + frames_duration (i + int k * step) (p_SampleRate p)))
       [0..<ceil_div (Len p - i) step] \<and>
     list_all (\<lambda>c. pcm_wf c \<and> same_params c p) cs"
proof (induction "nat (Len p - i)" arbitrary: i cs rule: less_induct)
  case less
  show ?case
  proof (cases "i < Len p")
    case False
    with less.prems show ?thesis by (simp add: chunk_loop.simps ceil_div_zero)
  next
    case True
    obtain c where c: "Slice p i (min (i + sz) (Len p)) = Some c"
      by (rule Slice_ok[OF wf, of i "min (i + sz) (Len p)"]) (use less.prems True sz in auto)
    define r where "r = (if min (i + sz) (Len p) - i < sz \<and> padLast then PadTo c sz PadEnd else c)"
    note ok = chunk_ok[OF wf less.prems(2) True sz c r_def]
    have cs: "cs = r # chunk_loop p sz step padLast (i + step)"
      using True less.prems(1,3) c by (subst (asm) chunk_loop.simps) (simp add: Let_def r_def)
    have n: "ceil_div (Len p - i) step = Suc (ceil_div (Len p - (i + step)) step)"
      using True less.prems(1) ceil_div_step[of "Len p - i" step] by (simp add: algebra_simps)
    have nat_step: "nat (i + step) + k * nat step = nat i + Suc k * nat step"
      "i + step + int k * step = i + int (Suc k) * step" for k
      using less.prems by (auto simp: nat_add_distrib algebra_simps)
    have IH: "map Bytes (chunk_loop p sz step padLast (i + step)) =
        map (\<lambda>k. byte_window padLast (nat sz * pcm_frame p) (Bytes p) ((nat i + Suc k * nat step) * pcm_frame p))
          [0..<ceil_div (Len p - (i + step)) step]"
      "map p_PTS (chunk_loop p sz step padLast (i + step)) =
        map (\<lambda>k. i64 (p_PTS p + frames_duration (i + int (Suc k) * step) (p_SampleRate p)))
          [0..<ceil_div (Len p - (i + step)) step]"
      "list_all (\<lambda>c. pcm_wf c \<and> same_params c p) (chunk_loop p sz step padLast (i + step))"
      using less.hyps[of "i + step", OF _ less.prems(1) _ refl] True less.prems unfolding nat_step by auto
    show ?thesis
      unfolding n upt_Suc_shift cs list.map IH(1,2) list.pred_inject using ok IH(3) by simp
  qed
qed

lemma Chunks_ok:
  assumes "pcm_wf p" "0 < sz"
  shows "map Bytes (Chunks p sz overlap padLast) =
      map (\<lambda>k. byte_window padLast (nat sz * pcm_frame p) (Bytes p) (k * nat (max 1 (sz - overlap)) * pcm_frame p))
        [0..<ceil_div (Len p) (max 1 (sz - overlap))]"
    "map p_PTS (Chunks p sz overlap padLast) =
      map (\<lambda>k. i64 (p_PTS p + frames_duration (int k * max 1 (sz - overlap)) (p_SampleRate p)))
        [0..<ceil_div (Len p) (max 1 (sz - overlap))]"
    "list_all (\<lambda>c. pcm_wf c \<and> same_params c p) (Chunks p sz overlap padLast)"
  using chunk_loop_ok[OF assms, of "max 1 (sz - overlap)" 0 _ padLast] assms(2)
  by (simp_all add: Chunks_def)

lemma concat_windows: "concat (map (\<lambda>k. take w (drop (k * w) b)) [0..<n]) = take (n * w) b"
  by (induction n) (simp_all add: add.commute[of w] take_add)

lemma ceil_div_covers: "0 \<le> a \<Longrightarrow> 0 < b \<Longrightarrow> a \<le> int (ceil_div a b) * b"
proof -
  assume ab: "0 \<le> a" "0 < b"
  have "0 \<le> (a + b - 1) div b" using ab by (simp add: pos_imp_zdiv_nonneg_iff)
  then have "int (ceil_div a b) * b = (a + b - 1) - (a + b - 1) mod b"
    by (simp add: ceil_div_def minus_mod_eq_div_mult)
  with pos_mod_bound[of b "a + b - 1"] ab show ?thesis by linarith
qed

lemma Chunks_cover:
  assumes wf: "pcm_wf p" and sz: "0 < sz"
  shows "concat (map Bytes (Chunks p sz 0 False)) = Bytes p"
proof -
  define n where "n = ceil_div (Len p) sz"
  have m: "max 1 sz = sz" using sz by simp
  have "concat (map Bytes (Chunks p sz 0 False)) = take (n * (nat sz * pcm_frame p)) (Bytes p)"
    unfolding Chunks_ok[OF assms]
    by (simp add: m n_def byte_window_def Let_def mult.assoc concat_windows)
  moreover have "length (Bytes p) \<le> n * (nat sz * pcm_frame p)"
  proof -
    have "nat (Len p) \<le> n * nat sz"
      using ceil_div_covers[of "Len p" sz] pcm_wf_pos[OF wf] sz
      by (simp add: n_def nat_le_iff)
    then have "nat (Len p) * pcm_frame p \<le> (n * nat sz) * pcm_frame p" by (rule mult_right_mono) simp
    then show ?thesis using length_Bytes[OF wf] by (simp add: mult.assoc)
  qed
  ultimately show ?thesis by simp
qed

section \<open>Interfaces\<close>

interpretation s16f32: codec s16ToF32 "\<lambda>w. Some (f32ToS16 w)" "\<lambda>_. True"
  by unfold_locales (simp add: f32ToS16_s16ToF32)

interpretation pcm_bytes: codec Bytes "\<lambda>b. case FromBytes b f sr ch of Inl e \<Rightarrow> None | Inr p \<Rightarrow> Some p" "of_stream f sr ch"
  for f sr ch
proof
  fix p assume p: "of_stream f sr ch p"
  then have wf: "pcm_wf p" "p_PTS p = 0" "p_Format p = f" "p_SampleRate p = sr" "p_Channels p = ch"
    by (auto simp: of_stream_def)
  then have v: "validate f sr ch = None" by (simp add: pcm_wf_def)
  have w: "whole_frames (Bytes p) f ch = Bytes p"
    using length_Bytes[OF wf(1)] wf by (intro whole_frames_id) simp
  have "FromBytes (Bytes p) f sr ch = Inr p"
    using wf(1)
  proof (cases p rule: pcm_wf_cases)
    case s16
    then have "decode_s16 (Bytes p) = p_s16 p" by (simp add: Bytes_def decode_s16_bytes)
    then show ?thesis
      using s16 wf v w by (auto simp: FromBytes_def NewChecked_def zero_PCM_def intro!: PCM.equality)
  next
    case f32
    then have "decode_f32 (Bytes p) = p_f32 p" by (simp add: Bytes_def decode_f32_bytes)
    then show ?thesis
      using f32 wf v w by (auto simp: FromBytes_def NewChecked_def zero_PCM_def intro!: PCM.equality)
  qed
  then show "(case FromBytes (Bytes p) f sr ch of Inl e \<Rightarrow> None | Inr p \<Rightarrow> Some p) = Some p" by simp
qed

section \<open>Properties of streams and formats\<close>

text \<open>C13: raw audio chopped at arbitrary points is reassembled without loss. For valid stream
  parameters \<open>FromByteSeq\<close> reports no error, every buffer it yields is non-empty, well-formed and
  in the stream's format, and the bytes of the buffers are the bytes of the chunks followed by fewer
  zero bytes than a frame has. \<open>Collect\<close> turns them into one buffer of exactly these bytes, whatever the
  resampler does.\<close>

theorem stream_lossless:
  assumes "validate format sampleRate channels = None"
  shows "\<exists>out k r. FromByteSeq chunks format sampleRate channels = (out, None) \<and>
    concat (map Bytes out) = concat chunks @ replicate k 0 \<and>
    k < nat (BytesPerSample format * channels) \<and>
    list_all (\<lambda>p. pcm_wf p \<and> \<not> IsEmpty p \<and> p_Format p = format \<and> p_SampleRate p = sampleRate \<and>
      p_Channels p = channels) out \<and>
    Collect_seq resample (out, None) = (None, r) \<and> Bytes r = concat chunks @ replicate k 0"
proof -
  obtain out k where o: "FromByteSeq chunks format sampleRate channels = (out, None)"
      "concat (map Bytes out) = concat chunks @ replicate k 0"
      "k < frame_size format channels" "yielded format sampleRate channels out"
    by (rule FromByteSeq_ok[OF assms])
  from collect_all_ok[OF o(4), of zero_PCM resample] o(2)
  obtain r where "Collect_seq resample (out, None) = (None, r)" "Bytes r = concat chunks @ replicate k 0"
    by (auto simp: Collect_seq_def zero_PCM_def Bytes_def)
  with o show ?thesis
    by (auto simp: yielded_def of_stream_def list_all_iff)
qed

theorem stream_lossless_witness:
  "validate FormatS16 48000 2 = None \<and>
   (\<exists>out k r. FromByteSeq [[1, 2, 3], [], [4, 5, 6]] FormatS16 48000 2 = (out, None) \<and>
    concat (map Bytes out) = concat [[1, 2, 3], [], [4, 5, 6]] @ replicate k 0 \<and>
    k < nat (BytesPerSample FormatS16 * 2) \<and>
    list_all (\<lambda>p. pcm_wf p \<and> \<not> IsEmpty p \<and> p_Format p = FormatS16 \<and> p_SampleRate p = 48000 \<and>
      p_Channels p = 2) out \<and>
    Collect_seq (\<lambda>f sr ch p. Inl ResampleError) (out, None) = (None, r) \<and>
    Bytes r = concat [[1, 2, 3], [], [4, 5, 6]] @ replicate k 0)"
proof -
  have "validate FormatS16 48000 2 = None" by (simp add: validate_def Valid_def)
  with stream_lossless[OF this] show ?thesis by blast
qed

lemma Write_Nil:
  assumes ok: "aligner_ok a"
  obtains pcm where "Write a [] = (Inr pcm, a)" "IsEmpty pcm"
proof -
  obtain pcm where "aligner_empty a = Inr pcm" "IsEmpty pcm" by (rule aligner_empty_ok[OF ok])
  moreover have "length (a_buf a) mod a_frameSize a = length (a_buf a)"
    using ok by (simp add: aligner_ok_def)
  ultimately show thesis by (intro that[of pcm]) (auto simp: Write_def)
qed

lemma read_loop_eq:
  "aligner_ok a \<Longrightarrow> read_loop a (map (\<lambda>b. (b, ReadOk)) bs @ [(b, ReadEOF)]) =
     (case align_chunks a (bs @ [b]) of
        (out, Some e, _) \<Rightarrow> (out, Some e)
      | (out, None, a') \<Rightarrow> (let (tail, err) = yield_tail (fst (Flush a')) in (out @ tail, err)))"
proof (induction bs arbitrary: a)
  case Nil
  obtain pcm where e: "Write a [] = (Inr pcm, a)" "IsEmpty pcm" by (rule Write_Nil[OF Nil])
  obtain pcm' buf where w: "Write a b = (Inr pcm', a\<lparr>a_buf := buf\<rparr>)" by (rule Write_ok[OF Nil])
  have "IsEmpty zero_PCM" by (simp add: zero_PCM_def IsEmpty_def NumSamples_def)
  with e w show ?case by (cases "b = []") (auto split: prod.splits)
next
  case (Cons c bs)
  obtain pcm where e: "Write a [] = (Inr pcm, a)" "IsEmpty pcm" by (rule Write_Nil[OF Cons.prems])
  obtain pcm' buf where w: "Write a c = (Inr pcm', a\<lparr>a_buf := buf\<rparr>)" "aligner_ok (a\<lparr>a_buf := buf\<rparr>)"
    by (rule Write_ok[OF Cons.prems])
  have "IsEmpty zero_PCM" by (simp add: zero_PCM_def IsEmpty_def NumSamples_def)
  with e w Cons.IH[OF w(2)] Cons.IH[OF Cons.prems] show ?case
    by (cases "c = []") (auto split: prod.splits option.splits)
qed

text \<open>\<open>FromReader\<close> on a reader that ends with \<open>io.EOF\<close> yields exactly what \<open>FromByteSeq\<close> yields on the
  pieces that were read, for all parameters, the invalid ones included; the last read may deliver
  data together with the end.\<close>

theorem reader_is_byte_seq:
  "FromReader (map (\<lambda>b. (b, ReadOk)) bs @ [(b, ReadEOF)]) format sampleRate channels =
   FromByteSeq (bs @ [b]) format sampleRate channels"
proof (cases "validate format sampleRate channels")
  case None
  from NewAligner_ok[OF this] show ?thesis
    by (auto simp: FromReader_def FromByteSeq_def read_loop_eq split: prod.splits option.splits)
next
  case (Some e)
  then show ?thesis by (simp add: FromReader_def FromByteSeq_def NewAligner_def)
qed

text \<open>\<open>Chunks\<close> as a whole. For a well-formed buffer and a positive size there are as many chunks as
  there are multiples of \<open>step = max 1 (size - overlap)\<close> below the length; chunk \<open>k\<close> is well-formed, keeps
  the stream parameters, holds the frames from \<open>k * step\<close> on, at most \<open>size\<close> of them, completed with
  silence to exactly \<open>size\<close> if \<open>padLast\<close> is set, and its timestamp is that of its first frame. Without
  overlap and padding the chunks put together are the buffer.\<close>

theorem chunks_windows:
  fixes overlap :: int
  assumes "pcm_wf p" "0 < sz"
  defines "step \<equiv> max 1 (sz - overlap)"
    and "fs \<equiv> nat (BytesPerSample (p_Format p) * p_Channels p)"
  shows "map Bytes (Chunks p sz overlap padLast) =
      map (\<lambda>k. byte_window padLast (nat sz * fs) (Bytes p) (k * nat step * fs)) [0..<ceil_div (Len p) step] \<and>
    map p_PTS (Chunks p sz overlap padLast) =
      map (\<lambda>k. i64 (p_PTS p + frames_duration (int k * step) (p_SampleRate p))) [0..<ceil_div (Len p) step] \<and>
    list_all (\<lambda>c. pcm_wf c \<and> same_params c p) (Chunks p sz overlap padLast) \<and>
    concat (map Bytes (Chunks p sz 0 False)) = Bytes p"
  using Chunks_ok[OF assms(1,2)] Chunks_cover[OF assms(1,2)] by (simp add: step_def fs_def)

theorem chunks_windows_witness:
  "(\<lambda>p. pcm_wf p \<and> map Bytes (Chunks p 2 1 True) = [[1, 0, 2, 0], [2, 0, 3, 0], [3, 0, 0, 0]] \<and>
      map p_PTS (Chunks p 2 1 True) = [5, 125005, 250005] \<and>
      concat (map Bytes (Chunks p 2 0 False)) = Bytes p)
   (zero_PCM\<lparr>p_SampleRate := 8000, p_Channels := 1, p_PTS := 5, p_s16 := [1, 2, 3]\<rparr>)"
proof -
  define p where "p = zero_PCM\<lparr>p_SampleRate := 8000, p_Channels := 1, p_PTS := 5, p_s16 := [1, 2, 3]\<rparr>"
  have wf: "pcm_wf p" by (simp add: p_def pcm_wf_def zero_PCM_def validate_def Valid_def NumSamples_def)
  have len: "ceil_div (Len p) 1 = Suc (Suc (Suc 0))"
    by (simp add: p_def Len_def NumSamples_def zero_PCM_def tdiv_nonneg ceil_div_def)
  have e: "p_Format p = FormatS16" "p_SampleRate p = 8000" "p_Channels p = 1"
    by (simp_all add: p_def zero_PCM_def)
  have b: "Bytes p = [1, 0, 2, 0, 3, 0]"
    by (simp add: p_def zero_PCM_def Bytes_def le_bytes16_def be_bytes16_def)
  have pts: "p_PTS p = 5" by (simp add: p_def)
  note t = chunks_windows[OF wf, of 2 1 True]
  have "map Bytes (Chunks p 2 1 True) = [[1, 0, 2, 0], [2, 0, 3, 0], [3, 0, 0, 0]]"
    using t by (simp add: len b e byte_window_def BytesPerSample_def Let_def eval_nat_numeral)
  moreover have "map p_PTS (Chunks p 2 1 True) = [5, 125005, 250005]"
    using t pts by (simp add: len e frames_duration_def i64_def tdiv_def)
  ultimately show ?thesis
    using wf t unfolding p_def[symmetric] by simp
qed

text \<open>\<open>SlidingWindow\<close> cuts windows of the given duration that start every \<open>min window hop\<close>: a hop longer
  than the window does not skip frames, the windows then follow one another without a gap.\<close>

theorem sliding_window_hop_capped:
  fixes window hop :: duration
  assumes "pcm_wf p" "0 < framesIn p window"
  defines "step \<equiv> max 1 (min (framesIn p window) (framesIn p hop))"
    and "fs \<equiv> nat (BytesPerSample (p_Format p) * p_Channels p)"
  shows "map Bytes (SlidingWindow p window hop padLast) =
      map (\<lambda>k. byte_window padLast (nat (framesIn p window) * fs) (Bytes p) (k * nat step * fs))
        [0..<ceil_div (Len p) step]"
proof -
  have "max 1 (framesIn p window - max 0 (framesIn p window - framesIn p hop)) = step"
    by (simp add: step_def)
  with Chunks_ok(1)[OF assms(1,2), of "max 0 (framesIn p window - framesIn p hop)" padLast] show ?thesis
    by (simp add: SlidingWindow_def fs_def Let_def)
qed

theorem sliding_window_hop_capped_witness:
  "(\<lambda>p. pcm_wf p \<and> framesIn p 125000 = 1 \<and> framesIn p 375000 = 3 \<and>
      map Bytes (SlidingWindow p 125000 375000 False) = [[1, 0], [2, 0], [3, 0]])
   (zero_PCM\<lparr>p_SampleRate := 8000, p_Channels := 1, p_s16 := [1, 2, 3]\<rparr>)"
proof -
  define p where "p = zero_PCM\<lparr>p_SampleRate := 8000, p_Channels := 1, p_s16 := [1, 2, 3]\<rparr>"
  have wf: "pcm_wf p" by (simp add: p_def pcm_wf_def zero_PCM_def validate_def Valid_def NumSamples_def)
  have f: "framesIn p 125000 = 1" "framesIn p 375000 = 3"
    by (simp_all add: framesIn_def p_def zero_PCM_def i64_def tdiv_def)
  have len: "ceil_div (Len p) 1 = Suc (Suc (Suc 0))"
    by (simp add: p_def Len_def NumSamples_def zero_PCM_def tdiv_nonneg ceil_div_def)
  have e: "p_Format p = FormatS16" "p_SampleRate p = 8000" "p_Channels p = 1"
    by (simp_all add: p_def zero_PCM_def)
  have b: "Bytes p = [1, 0, 2, 0, 3, 0]"
    by (simp add: p_def zero_PCM_def Bytes_def le_bytes16_def be_bytes16_def)
  have "map Bytes (SlidingWindow p 125000 375000 False) = [[1, 0], [2, 0], [3, 0]]"
    using sliding_window_hop_capped[OF wf, of 125000 375000 False]
    by (simp add: f len b e byte_window_def BytesPerSample_def Let_def eval_nat_numeral)
  with wf f show ?thesis unfolding p_def[symmetric] by simp
qed

lemma FromBytes_Bytes:
  assumes "pcm_wf p"
  shows "FromBytes (Bytes p) (p_Format p) (p_SampleRate p) (p_Channels p) = Inr (p\<lparr>p_PTS := 0\<rparr>)"
proof -
  have "of_stream (p_Format p) (p_SampleRate p) (p_Channels p) (p\<lparr>p_PTS := 0\<rparr>)"
    using assms by (auto simp: of_stream_def pcm_wf_def NumSamples_def)
  moreover have "Bytes (p\<lparr>p_PTS := 0\<rparr>) = Bytes p" by (simp add: Bytes_def)
  ultimately show ?thesis
    using pcm_bytes.decode_encode by (fastforce split: sum.splits)
qed

text \<open>Encoding a well-formed buffer and decoding the bytes gives the buffer back, with the timestamp
  at zero; and decoding arbitrary bytes keeps all of them but an incomplete last frame.\<close>

theorem pcm_bytes_roundtrip:
  assumes "pcm_wf p"
  shows "FromBytes (Bytes p) (p_Format p) (p_SampleRate p) (p_Channels p) = Inr (p\<lparr>p_PTS := 0\<rparr>) \<and>
    (\<exists>q. FromBytes b (p_Format p) (p_SampleRate p) (p_Channels p) = Inr q \<and> pcm_wf q \<and>
      Bytes q = take (length b - length b mod nat (BytesPerSample (p_Format p) * p_Channels p)) b)"
proof -
  have "validate (p_Format p) (p_SampleRate p) (p_Channels p) = None"
    using assms by (simp add: pcm_wf_def)
  then obtain q where "FromBytes b (p_Format p) (p_SampleRate p) (p_Channels p) = Inr q"
      "Bytes q = whole_frames b (p_Format p) (p_Channels p)" "pcm_wf q"
    by (rule FromBytes_ok)
  with FromBytes_Bytes[OF assms] show ?thesis by (simp add: whole_frames_def Let_def)
qed

theorem pcm_bytes_roundtrip_witness:
  "(\<lambda>p. pcm_wf p \<and> FromBytes (Bytes p) FormatF32 16000 2 = Inr p \<and>
     (\<exists>q. FromBytes [1, 2, 3, 4, 5, 6, 7, 8, 9] FormatF32 16000 2 = Inr q \<and> pcm_wf q \<and> Bytes q = [1, 2, 3, 4, 5, 6, 7, 8]))
   (zero_PCM\<lparr>p_Format := FormatF32, p_SampleRate := 16000, p_Channels := 2, p_f32 := [0x3F800000, 0xBF000000]\<rparr>)"
proof -
  define p where "p = zero_PCM\<lparr>p_Format := FormatF32, p_SampleRate := 16000, p_Channels := 2,
    p_f32 := [0x3F800000, 0xBF000000]\<rparr>"
  have wf: "pcm_wf p" by (simp add: p_def pcm_wf_def zero_PCM_def validate_def Valid_def NumSamples_def)
  have e: "p_Format p = FormatF32" "p_SampleRate p = 16000" "p_Channels p = 2" "p\<lparr>p_PTS := 0\<rparr> = p"
    by (simp_all add: p_def zero_PCM_def)
  show ?thesis
    using pcm_bytes_roundtrip[OF wf, of "[1, 2, 3, 4, 5, 6, 7, 8, 9]"] wf e
    unfolding p_def[symmetric] by (simp add: BytesPerSample_def)
qed

text \<open>Converting 16-bit samples to float and back is exact for every sample, so distinct samples stay
  distinct as floats and a well-formed 16-bit buffer survives the detour unchanged.\<close>

theorem s16_f32_exact:
  "(\<forall>v. f32ToS16 (s16ToF32 v) = v) \<and> inj s16ToF32 \<and>
   (pcm_wf p \<and> p_Format p = FormatS16 \<longrightarrow> To FormatS16 (To FormatF32 p) = p)"
proof -
  have "To FormatS16 (To FormatF32 p) = p" if "pcm_wf p" "p_Format p = FormatS16"
    using that s16f32.decode_encode_all[of "p_s16 p"]
    by (auto simp: To_def ToInt16_def ToFloat32_def pcm_wf_def comp_def list_all_iff f32ToS16_s16ToF32
        intro!: PCM.equality)
  then show ?thesis
    using s16f32.encode_inj f32ToS16_s16ToF32 by auto
qed

theorem s16_f32_exact_witness:
  "(\<lambda>p. pcm_wf p \<and> p_Format p = FormatS16 \<and> To FormatS16 (To FormatF32 p) = p \<and>
      p_f32 (To FormatF32 p) = [0x3F7FFE00, 0xBF800000])
   (zero_PCM\<lparr>p_SampleRate := 8000, p_Channels := 1, p_s16 := [32767, - 32768]\<rparr>)"
proof -
  define p where "p = zero_PCM\<lparr>p_SampleRate := 8000, p_Channels := 1, p_s16 := [32767, - 32768]\<rparr>"
  have wf: "pcm_wf p" "p_Format p = FormatS16"
    by (simp_all add: p_def pcm_wf_def zero_PCM_def validate_def Valid_def NumSamples_def)
  have f: "p_f32 (To FormatF32 p) = [0x3F7FFE00, 0xBF800000]"
    by (simp add: p_def zero_PCM_def To_def ToFloat32_def s16ToF32_def floor_log2.simps f32_make_def)
  show ?thesis
    using s16_f32_exact[of p] wf f unfolding p_def[symmetric] by simp
qed

end
