(* ===== verification/Resample.thy ===== *)
theory Resample
  imports AudioPcm
begin

text \<open>
  Sample-rate and channel conversion, \<open>resample.go\<close> of package \<open>audio\<close>: the stateless \<open>Resampler\<close> and the
  \<open>StreamResampler\<close> with its pending input, its exact rational read cursor and its output framing.
  The floating-point work is an argument, a \<open>kernel\<close>: the reach of the windowed-sinc filter built for a
  pair of rates, one channel's weighted sum over the taps, and the mean of the channels that are
  mixed down. Everything that decides which samples the filter sees, when an output frame is due and
  how the output is cut is modelled, for every kernel. Positions and counts of samples are integers;
  timestamps keep their 64 bits.
\<close>

section \<open>State\<close>

record kernel =
  k_halfTaps :: "int \<Rightarrow> int \<Rightarrow> int"
  k_interp :: "int \<Rightarrow> int \<Rightarrow> int \<Rightarrow> int \<Rightarrow> float32 list \<Rightarrow> float32"
  k_mean :: "float32 list \<Rightarrow> float32"

text \<open>The filter is present when the rates differ; what the stream reads of it is its reach.\<close>

record StreamResampler =
  r_format :: Format
  r_sampleRate :: int
  r_channels :: int
  r_frameSize :: int
  r_inRate :: int
  r_inChannels :: int
  r_configured :: bool
  r_filter :: "int option"
  r_buf :: "float32 list"
  r_mid :: int
  r_posInt :: int
  r_posFrac :: int
  r_stepNum :: int
  r_stepDen :: int
  r_pending :: "float32 list"
  r_emitted :: int

text \<open>\<open>None\<close> is the panic on invalid parameters or a negative frame size.\<close>

definition NewStreamResampler :: "Format \<Rightarrow> int \<Rightarrow> int \<Rightarrow> int \<Rightarrow> StreamResampler option" where
  "NewStreamResampler format sampleRate channels frameSize =
    (if validate format sampleRate channels \<noteq> None \<or> frameSize < 0 then None
     else Some \<lparr>r_format = format, r_sampleRate = sampleRate, r_channels = channels, r_frameSize = frameSize,
       r_inRate = 0, r_inChannels = 0, r_configured = False, r_filter = None, r_buf = [], r_mid = 0,
       r_posInt = 0, r_posFrac = 0, r_stepNum = 0, r_stepDen = 0, r_pending = [], r_emitted = 0\<rparr>)"

section \<open>Operations\<close>

function go_gcd :: "int \<Rightarrow> int \<Rightarrow> int" where
  "go_gcd a b = (if b = 0 then a else go_gcd b (tmod a b))"
  by pat_completeness auto
termination
proof (relation "measure (\<lambda>(a, b). nat \<bar>b\<bar>)", goal_cases)
  case (2 a b)
  then have "\<bar>tmod a b\<bar> < \<bar>b\<bar>"
    by (simp add: abs_tmod)
  then show ?case by simp
qed simp

declare go_gcd.simps [simp del]

definition Reset_sr :: "StreamResampler \<Rightarrow> StreamResampler" where
  "Reset_sr r = r\<lparr>r_configured := False, r_filter := None, r_buf := [], r_pending := [],
     r_posInt := 0, r_posFrac := 0, r_emitted := 0\<rparr>"

definition configure :: "kernel \<Rightarrow> int \<Rightarrow> int \<Rightarrow> StreamResampler \<Rightarrow> StreamResampler" where
  "configure K inRate inChannels r =
    (let m = min inChannels (r_channels r);
         g = go_gcd inRate (r_sampleRate r);
         r = r\<lparr>r_inRate := inRate, r_inChannels := inChannels, r_mid := m, r_buf := [], r_pending := [],
               r_posInt := 0, r_posFrac := 0, r_stepNum := tdiv inRate g, r_stepDen := tdiv (r_sampleRate r) g\<rparr>;
         h = k_halfTaps K inRate (r_sampleRate r)
     in if inRate \<noteq> r_sampleRate r
        then r\<lparr>r_filter := Some h, r_buf := replicate (nat (h * m)) 0, r_posInt := h, r_configured := True\<rparr>
        else r\<lparr>r_filter := None, r_configured := True\<rparr>)"

text \<open>The mix down to \<open>m\<close> of \<open>ch\<close> channels, frame by frame.\<close>

definition downmix :: "kernel \<Rightarrow> nat \<Rightarrow> nat \<Rightarrow> float32 list \<Rightarrow> float32 list" where
  "downmix K m ch src =
    concat (map (\<lambda>f. map (\<lambda>c. k_mean K (map (\<lambda>s. src ! (f * ch + s)) (filter (\<lambda>s. s mod m = c) [0..<ch]))) [0..<m])
      [0..<length src div ch])"

definition feed :: "kernel \<Rightarrow> PCM \<Rightarrow> StreamResampler \<Rightarrow> StreamResampler" where
  "feed K pcm r =
    (let src = p_f32 (ToFloat32 pcm) in
     if p_Channels pcm = r_mid r then r\<lparr>r_buf := r_buf r @ src\<rparr>
     else r\<lparr>r_buf := r_buf r @ downmix K (nat (r_mid r)) (nat (p_Channels pcm)) src\<rparr>)"

text \<open>One output frame from the values of its first \<open>m\<close> channels.\<close>

definition spreadChannels :: "nat \<Rightarrow> nat \<Rightarrow> (nat \<Rightarrow> float32) \<Rightarrow> float32 list" where
  "spreadChannels m channels v = map (\<lambda>c. v (if c < m then c else c mod m)) [0..<channels]"

definition filter_frame :: "kernel \<Rightarrow> int \<Rightarrow> StreamResampler \<Rightarrow> int \<Rightarrow> int \<Rightarrow> float32 list" where
  "filter_frame K h r posInt posFrac =
    (let start = posInt - h + 1; m = nat (r_mid r) in
     spreadChannels m (nat (r_channels r))
       (\<lambda>c. k_interp K (r_inRate r) (r_sampleRate r) posFrac (r_stepDen r)
              (map (\<lambda>i. r_buf r ! (nat (start + int i) * m + c)) [0..<nat (2 * h)])))"

text \<open>The filter loop of \<open>produce\<close>; it advances because \<open>stepNum\<close> and \<open>stepDen\<close> are positive.\<close>

function produce_loop :: "kernel \<Rightarrow> int \<Rightarrow> StreamResampler \<Rightarrow> int \<Rightarrow> int \<Rightarrow> float32 list \<times> int \<times> int" where
  "produce_loop K h r posInt posFrac =
    (if posInt + h < int (length (r_buf r) div nat (r_mid r)) \<and> 0 < r_stepNum r \<and>
         0 \<le> posFrac \<and> posFrac < r_stepDen r then
       let frac = posFrac + r_stepNum r;
           (out, p, q) = produce_loop K h r (posInt + tdiv frac (r_stepDen r)) (tmod frac (r_stepDen r))
       in (filter_frame K h r posInt posFrac @ out, p, q)
     else ([], posInt, posFrac))"
  by pat_completeness auto
termination
proof (relation "measure (\<lambda>(K, h, r, i, f). nat ((int (length (r_buf r) div nat (r_mid r)) - h - i) * r_stepDen r - f))", goal_cases)
  case (2 K h r i f x)
  define n where "n = int (length (r_buf r) div nat (r_mid r)) - h - i"
  define d s where "d = r_stepDen r" and "s = r_stepNum r"
  have pos: "0 < s" "0 \<le> f" "f < d" "1 \<le> n" using 2 by (auto simp: d_def s_def n_def)
  have "f + s = (f + s) div d * d + (f + s) mod d" by simp
  then have "(n - (f + s) div d) * d - (f + s) mod d = n * d - f - s"
    by (simp only: left_diff_distrib)
  moreover have "1 * d \<le> n * d" using pos by (intro mult_right_mono) auto
  then have "f < n * d" using pos by linarith
  ultimately show ?case
    using pos 2 by (simp add: tdiv_nonneg tmod_nonneg d_def[symmetric] s_def[symmetric] n_def[symmetric] diff_diff_add[symmetric])
qed simp

declare produce_loop.simps [simp del]

definition produceDirect :: "StreamResampler \<Rightarrow> StreamResampler" where
  "produceDirect r =
    (let m = nat (r_mid r) in
     r\<lparr>r_pending := r_pending r @ concat (map (\<lambda>f. spreadChannels m (nat (r_channels r)) (\<lambda>c. r_buf r ! (f * m + c)))
         [0..<length (r_buf r) div m]), r_buf := []\<rparr>)"

text \<open>\<open>None\<close> is the panic of cutting off more input than there is.\<close>

definition produce :: "kernel \<Rightarrow> StreamResampler \<Rightarrow> StreamResampler option" where
  "produce K r =
    (case r_filter r of
       None \<Rightarrow> Some (produceDirect r)
     | Some h \<Rightarrow>
        (let (out, posInt, posFrac) = produce_loop K h r (r_posInt r) (r_posFrac r);
             r = r\<lparr>r_pending := r_pending r @ out, r_posInt := posInt, r_posFrac := posFrac\<rparr>;
             keep = posInt - h + 1
         in if keep > 0
            then if keep * r_mid r > int (length (r_buf r)) then None
                 else Some (r\<lparr>r_buf := drop (nat (keep * r_mid r)) (r_buf r), r_posInt := posInt - keep\<rparr>)
            else Some r))"

text \<open>The loop of \<open>collect\<close>: the buffers cut from \<open>pending\<close> after \<open>taken\<close> frames, and the frames taken in
  all. \<open>n\<close> is positive because \<open>sz\<close> is.\<close>

function collect_loop :: "StreamResampler \<Rightarrow> int \<Rightarrow> bool \<Rightarrow> int \<Rightarrow> int \<Rightarrow> int \<Rightarrow> PCM list \<times> int \<times> int" where
  "collect_loop r sz final available taken emitted =
    (if taken < available \<and> 0 < sz then
       let n = min sz (available - taken) in
       if n < sz \<and> \<not> final then ([], taken, emitted)
       else
         let samples = take (nat (n * r_channels r)) (drop (nat (taken * r_channels r)) (r_pending r));
             pcm = (To (r_format r) (zero_PCM\<lparr>p_Format := FormatF32, p_SampleRate := r_sampleRate r,
                      p_Channels := r_channels r, p_f32 := samples\<rparr>))
                   \<lparr>p_PTS := frames_duration emitted (r_sampleRate r)\<rparr>;
             (out, t, e) = collect_loop r sz final available (taken + n) (i64 (emitted + n))
         in (pcm # out, t, e)
     else ([], taken, emitted))"
  by pat_completeness auto
termination
  by (relation "measure (\<lambda>(r, sz, final, available, taken, emitted). nat (available - taken))") auto

declare collect_loop.simps [simp del]

definition collect :: "bool \<Rightarrow> StreamResampler \<Rightarrow> PCM list \<times> StreamResampler" where
  "collect final r =
    (let available = tdiv (int (length (r_pending r))) (r_channels r) in
     if available = 0 then ([], r)
     else
       let sz = (if r_frameSize r = 0 then available else r_frameSize r);
           (out, taken, emitted) = collect_loop r sz final available 0 (r_emitted r)
       in (out, r\<lparr>r_pending := drop (nat (taken * r_channels r)) (r_pending r), r_emitted := emitted\<rparr>))"

definition Flush_sr :: "kernel \<Rightarrow> StreamResampler \<Rightarrow> (PCM list \<times> StreamResampler) option" where
  "Flush_sr K r =
    (if \<not> r_configured r then Some ([], r)
     else
       let r = (case r_filter r of
                  None \<Rightarrow> r
                | Some h \<Rightarrow> r\<lparr>r_buf := r_buf r @ replicate (nat (h * r_mid r)) 0\<rparr>) in
       case produce K r of
         None \<Rightarrow> None
       | Some r \<Rightarrow> (let (out, r) = collect True r in Some (out, Reset_sr r)))"

definition Write_sr :: "kernel \<Rightarrow> StreamResampler \<Rightarrow> PCM \<Rightarrow> ((audio_error + PCM list) \<times> StreamResampler) option" where
  "Write_sr K r pcm =
    (if IsEmpty pcm then Some (Inr [], r)
     else
       case validate (p_Format pcm) (p_SampleRate pcm) (p_Channels pcm) of
         Some e \<Rightarrow> Some (Inl e, r)
       | None \<Rightarrow>
          (case (if r_configured r \<and> (p_SampleRate pcm \<noteq> r_inRate r \<or> p_Channels pcm \<noteq> r_inChannels r)
                 then Flush_sr K r else Some ([], r)) of
             None \<Rightarrow> None
           | Some (drained, r) \<Rightarrow>
              (let r = (if \<not> r_configured r then configure K (p_SampleRate pcm) (p_Channels pcm) r else r) in
               case produce K (feed K pcm r) of
                 None \<Rightarrow> None
               | Some r \<Rightarrow> (let (out, r) = collect False r in Some (Inr (drained @ out), r)))))"

section \<open>The stateless resampler\<close>

definition append_all :: "PCM \<Rightarrow> PCM list \<Rightarrow> audio_error + PCM" where
  "append_all out frames = foldl (\<lambda>acc f. case acc of Inl e \<Rightarrow> Inl e
     | Inr out \<Rightarrow> (case Append (\<lambda>_ _ _ _. Inl ResampleError) out f of (Some e, _) \<Rightarrow> Inl e | (None, out) \<Rightarrow> Inr out)) (Inr out) frames"

text \<open>\<open>NewResampler\<close> followed by \<open>Resample\<close>; \<open>None\<close> is a panic. The frames appended at the end have the
  parameters of \<open>out\<close>, so \<open>Append\<close> does not resample again.\<close>

definition Resampler_Resample :: "kernel \<Rightarrow> Format \<Rightarrow> int \<Rightarrow> int \<Rightarrow> PCM \<Rightarrow> (audio_error + PCM) option" where
  "Resampler_Resample K format sampleRate channels pcm =
    (if validate format sampleRate channels \<noteq> None then None
     else
       case validate (p_Format pcm) (p_SampleRate pcm) (p_Channels pcm) of
         Some e \<Rightarrow> Some (Inl e)
       | None \<Rightarrow>
          (let out = zero_PCM\<lparr>p_Format := format, p_SampleRate := sampleRate, p_Channels := channels, p_PTS := p_PTS pcm\<rparr> in
           if p_SampleRate pcm = sampleRate \<and> p_Channels pcm = channels then Some (Inr (To format pcm))
           else if IsEmpty pcm then Some (Inr out)
           else
             case NewStreamResampler format sampleRate channels 0 of
               None \<Rightarrow> None
             | Some sr \<Rightarrow>
                (case Write_sr K sr pcm of
                   None \<Rightarrow> None
                 | Some (Inl e, _) \<Rightarrow> Some (Inl e)
                 | Some (Inr frames, sr) \<Rightarrow>
                    (case Flush_sr K sr of
                       None \<Rightarrow> None
                     | Some (tail, _) \<Rightarrow> Some (append_all out (frames @ tail))))))"

definition PCM_Resample :: "kernel \<Rightarrow> PCM \<Rightarrow> int \<Rightarrow> (audio_error + PCM) option" where
  "PCM_Resample K p sampleRate = Resampler_Resample K (p_Format p) sampleRate (p_Channels p) p"

section \<open>The filter loop\<close>

lemma ceil_div_less: "0 < b \<Longrightarrow> k < ceil_div a b \<longleftrightarrow> int k * b < a"
proof -
  assume b: "0 < b"
  have "k < ceil_div a b \<longleftrightarrow> int k + 1 \<le> (a + b - 1) div b"
    unfolding ceil_div_def by linarith
  also have "\<dots> \<longleftrightarrow> (int k + 1) * b \<le> a + b - 1"
    using b by (rule int_le_div_iff)
  also have "\<dots> \<longleftrightarrow> int k * b < a" by (simp add: algebra_simps) linarith
  finally show ?thesis .
qed

text \<open>The output frame at the absolute position \<open>P\<close>, in units of a \<open>stepDen\<close>-th of an input frame, of the
  whole input \<open>B\<close>; and the number of output frames that \<open>F\<close> frames of input allow.\<close>

definition ref_frame :: "kernel \<Rightarrow> int \<Rightarrow> StreamResampler \<Rightarrow> float32 list \<Rightarrow> int \<Rightarrow> float32 list" where
  "ref_frame K h r B P =
     spreadChannels (nat (r_mid r)) (nat (r_channels r))
       (\<lambda>c. k_interp K (r_inRate r) (r_sampleRate r) (P mod r_stepDen r) (r_stepDen r)
          (map (\<lambda>i. B ! (nat (P div r_stepDen r - h + 1 + int i) * nat (r_mid r) + c)) [0..<nat (2 * h)]))"

definition due :: "int \<Rightarrow> StreamResampler \<Rightarrow> float32 list \<Rightarrow> nat" where
  "due h r B = ceil_div ((int (length B div nat (r_mid r)) - 2 * h) * r_stepDen r) (r_stepNum r)"

definition ref_out :: "kernel \<Rightarrow> int \<Rightarrow> StreamResampler \<Rightarrow> float32 list \<Rightarrow> nat \<Rightarrow> nat \<Rightarrow> float32 list" where
  "ref_out K h r B i j = concat (map (\<lambda>k. ref_frame K h r B (h * r_stepDen r + int k * r_stepNum r)) [i..<j])"

lemma due_less: "0 < r_stepNum r \<Longrightarrow>
    k < due h r B \<longleftrightarrow> int k * r_stepNum r < (int (length B div nat (r_mid r)) - 2 * h) * r_stepDen r"
  by (simp add: due_def ceil_div_less)

text \<open>The cursor \<open>(p, q)\<close> into the input from frame \<open>D\<close> on stands at output frame \<open>k\<close>.\<close>

definition cursor_at :: "int \<Rightarrow> StreamResampler \<Rightarrow> nat \<Rightarrow> int \<Rightarrow> int \<Rightarrow> nat \<Rightarrow> bool" where
  "cursor_at h r D p q k \<longleftrightarrow>
     (p + int D) * r_stepDen r + q = h * r_stepDen r + int k * r_stepNum r \<and>
     0 \<le> q \<and> q < r_stepDen r \<and> h - 1 \<le> p"

lemma cursor_div:
  assumes "cursor_at h r D p q k"
  shows "(h * r_stepDen r + int k * r_stepNum r) div r_stepDen r = p + int D"
    "(h * r_stepDen r + int k * r_stepNum r) mod r_stepDen r = q"
proof -
  have e: "h * r_stepDen r + int k * r_stepNum r = q + (p + int D) * r_stepDen r" and q: "0 \<le> q" "q < r_stepDen r"
    using assms by (auto simp: cursor_at_def)
  show "(h * r_stepDen r + int k * r_stepNum r) div r_stepDen r = p + int D"
    "(h * r_stepDen r + int k * r_stepNum r) mod r_stepDen r = q"
    unfolding e using q by (simp_all only: div_mult_self1 mod_mult_self1) simp_all
qed

lemma cursor_step:
  assumes "cursor_at h r D p q k" "0 < r_stepNum r"
  shows "cursor_at h r D (p + tdiv (q + r_stepNum r) (r_stepDen r)) (tmod (q + r_stepNum r) (r_stepDen r)) (Suc k)"
proof -
  define d s where "d = r_stepDen r" and "s = r_stepNum r"
  have c: "(p + int D) * d + q = h * d + int k * s" "0 \<le> q" "q < d" "h - 1 \<le> p" "0 < s"
    using assms by (auto simp: cursor_at_def d_def s_def)
  have e: "(q + s) div d * d + (q + s) mod d = q + s" by simp
  have "(p + (q + s) div d + int D) * d + (q + s) mod d = h * d + int (Suc k) * s"
    using c(1) e by (simp add: algebra_simps)
  moreover have "0 \<le> (q + s) div d" using c by (simp add: pos_imp_zdiv_nonneg_iff)
  ultimately show ?thesis
    using c by (simp add: cursor_at_def tdiv_nonneg tmod_nonneg d_def[symmetric] s_def[symmetric])
qed

lemma filter_frame_ref:
  assumes c: "cursor_at h r D p q k" and B: "r_buf r = drop (D * nat (r_mid r)) B" "D * nat (r_mid r) \<le> length B"
  shows "filter_frame K h r p q = ref_frame K h r B (h * r_stepDen r + int k * r_stepNum r)"
proof -
  have p: "h - 1 \<le> p" using c by (simp add: cursor_at_def)
  have "r_buf r ! (nat (p - h + 1 + int i) * nat (r_mid r) + cc) =
      B ! (nat (p + int D - h + 1 + int i) * nat (r_mid r) + cc)" for i cc
  proof -
    have "nat (p + int D - h + 1 + int i) = D + nat (p - h + 1 + int i)" using p by linarith
    then show ?thesis using B by (simp add: add_mult_distrib add.assoc)
  qed
  then show ?thesis
    unfolding filter_frame_def ref_frame_def cursor_div[OF c] by (simp add: Let_def)
qed

lemma loop_guard:
  assumes c: "cursor_at h r D p q k" and B: "r_buf r = drop (D * nat (r_mid r)) B" "D * nat (r_mid r) \<le> length B"
    and m: "0 < r_mid r" "0 < r_stepNum r"
  shows "p + h < int (length (r_buf r) div nat (r_mid r)) \<longleftrightarrow> k < due h r B"
proof -
  define F where "F = int (length B div nat (r_mid r))"
  have d: "0 < r_stepDen r" using c by (simp add: cursor_at_def)
  have len: "length (r_buf r) div nat (r_mid r) = length B div nat (r_mid r) - D"
    using B m by (simp add: diff_mult_div)
  have "k < due h r B \<longleftrightarrow> int k * r_stepNum r < (F - 2 * h) * r_stepDen r"
    using m by (simp add: due_less F_def)
  also have "\<dots> \<longleftrightarrow> h * r_stepDen r + int k * r_stepNum r < (F - h) * r_stepDen r"
    by (simp add: algebra_simps)
  also have "\<dots> \<longleftrightarrow> (h * r_stepDen r + int k * r_stepNum r) div r_stepDen r < F - h"
    using d by (rule int_div_less_iff[symmetric])
  also have "\<dots> \<longleftrightarrow> p + int D < F - h" unfolding cursor_div[OF c] ..
  finally have "k < due h r B \<longleftrightarrow> p + int D < F - h" .
  moreover have "D \<le> length B div nat (r_mid r)" using B(2) m by (simp add: less_eq_div_iff_mult_less_eq)
  ultimately show ?thesis unfolding len F_def by (auto simp: of_nat_diff)
qed

lemma ref_out_step: "k < n \<Longrightarrow> ref_out K h r B k n =
   ref_frame K h r B (h * r_stepDen r + int k * r_stepNum r) @ ref_out K h r B (Suc k) n"
  by (simp add: ref_out_def upt_conv_Cons)

lemma ref_out_append: "i \<le> j \<Longrightarrow> j \<le> n \<Longrightarrow> ref_out K h r B i j @ ref_out K h r B j n = ref_out K h r B i n"
  using upt_add_eq_append[of i j "n - j"] by (simp add: ref_out_def)

lemma produce_loop_ok:
  assumes B: "r_buf r = drop (D * nat (r_mid r)) B" "D * nat (r_mid r) \<le> length B"
    and m: "0 < r_mid r" "0 < r_stepNum r"
  shows "cursor_at h r D p q k \<Longrightarrow> \<exists>p' q'.
     produce_loop K h r p q = (ref_out K h r B k (max k (due h r B)), p', q') \<and>
     cursor_at h r D p' q' (max k (due h r B))"
proof (induction "due h r B - k" arbitrary: k p q rule: less_induct)
  case less
  note guard = loop_guard[OF less.prems B m]
  have q: "0 \<le> q" "q < r_stepDen r" using less.prems by (auto simp: cursor_at_def)
  show ?case
  proof (cases "k < due h r B")
    case False
    then have "max k (due h r B) = k" by simp
    with False less.prems guard show ?thesis
      by (subst produce_loop.simps) (simp add: ref_out_def)
  next
    case True
    have "due h r B - Suc k < due h r B - k" using True by simp
    from less.hyps[OF this cursor_step[OF less.prems m(2)]] obtain p' q' where
      IH: "produce_loop K h r (p + tdiv (q + r_stepNum r) (r_stepDen r)) (tmod (q + r_stepNum r) (r_stepDen r)) =
          (ref_out K h r B (Suc k) (max (Suc k) (due h r B)), p', q')"
        "cursor_at h r D p' q' (max (Suc k) (due h r B))"
      by blast
    have mx: "max (Suc k) (due h r B) = due h r B" "max k (due h r B) = due h r B" using True by auto
    show ?thesis
      using IH guard True m(2) q filter_frame_ref[OF less.prems B] unfolding mx
      by (subst produce_loop.simps) (simp add: Let_def ref_out_step)
  qed
qed

section \<open>The stream\<close>

text \<open>What the code relies on of the filter built for two rates: it reaches at least one frame, and its
  two sides together are at least as long as one output step. \<open>newSincFilter\<close> makes each side 16 zero
  crossings of the cut-off frequency long, which is more than 16 steps.\<close>

definition kernel_ok :: "kernel \<Rightarrow> int \<Rightarrow> int \<Rightarrow> bool" where
  "kernel_ok K inRate outRate \<longleftrightarrow>
     1 \<le> k_halfTaps K inRate outRate \<and> inRate \<le> 2 * k_halfTaps K inRate outRate * outRate"

text \<open>The configuration of a stream; the buffers and the cursor are left free.\<close>

definition stream_cfg :: "kernel \<Rightarrow> StreamResampler \<Rightarrow> bool" where
  "stream_cfg K r \<longleftrightarrow> r_configured r \<and> validate (r_format r) (r_sampleRate r) (r_channels r) = None \<and>
     0 \<le> r_frameSize r \<and> 0 < r_inRate r \<and> 0 < r_inChannels r \<and> r_mid r = min (r_inChannels r) (r_channels r) \<and>
     0 < r_stepNum r \<and> 0 < r_stepDen r \<and> r_inRate r * r_stepDen r = r_sampleRate r * r_stepNum r \<and>
     r_filter r = (if r_inRate r = r_sampleRate r then None else Some (k_halfTaps K (r_inRate r) (r_sampleRate r)))"

text \<open>\<open>B\<close> is all input so far at the inner channel count, the priming silence included; \<open>out\<close> is all output
  so far, in the buffers returned and in \<open>pending\<close>.\<close>

definition stream_inv :: "kernel \<Rightarrow> StreamResampler \<Rightarrow> float32 list \<Rightarrow> float32 list \<Rightarrow> bool" where
  "stream_inv K r B out \<longleftrightarrow> stream_cfg K r \<and> length B mod nat (r_mid r) = 0 \<and>
     (case r_filter r of
        None \<Rightarrow> r_buf r = [] \<and> out = concat (map (\<lambda>f. spreadChannels (nat (r_mid r)) (nat (r_channels r))
            (\<lambda>c. B ! (f * nat (r_mid r) + c))) [0..<length B div nat (r_mid r)])
      | Some h \<Rightarrow> h \<le> int (length B div nat (r_mid r)) \<and> out = ref_out K h r B 0 (due h r B) \<and>
         (\<exists>D. r_buf r = drop (D * nat (r_mid r)) B \<and> D * nat (r_mid r) \<le> length B \<and>
            cursor_at h r D (r_posInt r) (r_posFrac r) (due h r B)))"

lemma due_mono:
  assumes "length B \<le> length B'" "0 < r_stepNum r" "0 < r_stepDen r"
  shows "due h r B \<le> due h r B'"
proof (rule ccontr)
  assume "\<not> due h r B \<le> due h r B'"
  then have "due h r B' < due h r B" by simp
  then have "int (due h r B') * r_stepNum r < (int (length B div nat (r_mid r)) - 2 * h) * r_stepDen r"
    using assms by (simp only: due_less)
  also have "\<dots> \<le> (int (length B' div nat (r_mid r)) - 2 * h) * r_stepDen r"
    using assms by (intro mult_right_mono) (simp_all add: div_le_mono)
  finally have "due h r B' < due h r B'"
    using assms by (simp only: due_less)
  then show False by simp
qed

lemma ref_out_extend:
  assumes "k \<le> due h r B" "0 < r_mid r" "0 < r_stepNum r" "0 < r_stepDen r" "0 \<le> h"
  shows "ref_out K h r (B @ X) 0 k = ref_out K h r B 0 k"
proof -
  have "ref_frame K h r (B @ X) P = ref_frame K h r B P"
    if j: "j < k" and P: "P = h * r_stepDen r + int j * r_stepNum r" for j P
  proof -
    define m where "m = nat (r_mid r)"
    have m: "0 < m" using assms by (simp add: m_def)
    have "int j * r_stepNum r < (int (length B div m) - 2 * h) * r_stepDen r"
      using j assms due_less[of r j h B] by (simp add: m_def)
    then have "P < (int (length B div m) - h) * r_stepDen r" by (simp add: P algebra_simps)
    then have lim: "P div r_stepDen r + h < int (length B div m)"
      using int_div_less_iff[OF assms(4), of P "int (length B div m) - h"] by linarith
    have P0: "0 \<le> P div r_stepDen r" using assms by (simp add: P pos_imp_zdiv_nonneg_iff)
    have "nat (P div r_stepDen r - h + 1 + int i) * m + c < length B" if "i < nat (2 * h)" "c < m" for i c
    proof -
      have "nat (P div r_stepDen r - h + 1 + int i) < length B div m"
        using lim that(1) assms(5) P0 by linarith
      then have "Suc (nat (P div r_stepDen r - h + 1 + int i)) * m \<le> length B div m * m"
        by (intro mult_le_mono1) simp
      also have "\<dots> \<le> length B" by simp
      finally show ?thesis using that(2) by simp
    qed
    then show ?thesis
      unfolding ref_frame_def spreadChannels_def m_def[symmetric] using m
      by (auto simp: nth_append intro!: arg_cong[where f = "k_interp K _ _ _ _"])
  qed
  then show ?thesis unfolding ref_out_def by (intro arg_cong[where f = concat] map_cong) auto
qed

lemma static_fields [simp]:
  "ref_frame K h (r\<lparr>r_buf := b\<rparr>) = ref_frame K h r" "ref_frame K h (r\<lparr>r_pending := b\<rparr>) = ref_frame K h r"
  "ref_frame K h (r\<lparr>r_posInt := i\<rparr>) = ref_frame K h r" "ref_frame K h (r\<lparr>r_posFrac := i\<rparr>) = ref_frame K h r"
  "ref_frame K h (r\<lparr>r_emitted := i\<rparr>) = ref_frame K h r"
  "due h (r\<lparr>r_buf := b\<rparr>) = due h r" "due h (r\<lparr>r_pending := b\<rparr>) = due h r"
  "due h (r\<lparr>r_posInt := i\<rparr>) = due h r" "due h (r\<lparr>r_posFrac := i\<rparr>) = due h r"
  "due h (r\<lparr>r_emitted := i\<rparr>) = due h r"
  "cursor_at h (r\<lparr>r_buf := b\<rparr>) = cursor_at h r" "cursor_at h (r\<lparr>r_pending := b\<rparr>) = cursor_at h r"
  "cursor_at h (r\<lparr>r_posInt := i\<rparr>) = cursor_at h r" "cursor_at h (r\<lparr>r_posFrac := i\<rparr>) = cursor_at h r"
  "cursor_at h (r\<lparr>r_emitted := i\<rparr>) = cursor_at h r"
  by (simp_all add: fun_eq_iff ref_frame_def due_def cursor_at_def)

lemma static_ref_out [simp]:
  "ref_out K h (r\<lparr>r_buf := b\<rparr>) = ref_out K h r" "ref_out K h (r\<lparr>r_pending := b\<rparr>) = ref_out K h r"
  "ref_out K h (r\<lparr>r_posInt := i\<rparr>) = ref_out K h r" "ref_out K h (r\<lparr>r_posFrac := i\<rparr>) = ref_out K h r"
  "ref_out K h (r\<lparr>r_emitted := i\<rparr>) = ref_out K h r"
  by (simp_all add: fun_eq_iff ref_out_def)

lemma static_cfg [simp]:
  "stream_cfg K (r\<lparr>r_buf := b\<rparr>) = stream_cfg K r" "stream_cfg K (r\<lparr>r_pending := b\<rparr>) = stream_cfg K r"
  "stream_cfg K (r\<lparr>r_posInt := i\<rparr>) = stream_cfg K r" "stream_cfg K (r\<lparr>r_posFrac := i\<rparr>) = stream_cfg K r"
  "stream_cfg K (r\<lparr>r_emitted := i\<rparr>) = stream_cfg K r"
  by (simp_all add: stream_cfg_def)

text \<open>Cutting off the input the filter has passed never takes more than there is.\<close>

lemma keep_in_range:
  assumes cfg: "stream_cfg K r" and K: "kernel_ok K (r_inRate r) (r_sampleRate r)"
    and h: "h = k_halfTaps K (r_inRate r) (r_sampleRate r)"
    and c: "cursor_at h r D p q (due h r B)" and F: "F = int (length B div nat (r_mid r))" "h \<le> F"
  shows "p + int D - h + 1 \<le> F"
proof -
  define d s n where "d = r_stepDen r" and "s = r_stepNum r" and "n = due h r B"
  have pos: "0 < d" "0 < s" "0 < r_sampleRate r" using cfg by (auto simp: stream_cfg_def validate_None d_def s_def)
  have "r_sampleRate r * s = r_inRate r * d" using cfg by (simp add: stream_cfg_def d_def s_def)
  also have "\<dots> \<le> (2 * h * r_sampleRate r) * d" using K pos h by (intro mult_right_mono) (auto simp: kernel_ok_def)
  also have "\<dots> = r_sampleRate r * (2 * h * d)" by simp
  finally have s: "s \<le> 2 * h * d" using pos by simp
  have h1: "1 \<le> h" using K h by (simp add: kernel_ok_def)
  have "int n * s < F * d"
  proof (cases n)
    case 0
    then show ?thesis using pos h1 F(2) by simp
  next
    case (Suc k)
    then have "int k * s < (F - 2 * h) * d"
      using due_less[of r k h B] pos by (simp add: n_def F(1) d_def s_def)
    with s show ?thesis unfolding Suc by (simp add: algebra_simps)
  qed
  then have "(p + int D) * d < (h + F) * d"
    using c by (simp add: cursor_at_def n_def d_def s_def distrib_right)
  then show ?thesis using pos by simp
qed

lemma produce_filter:
  assumes inv: "stream_inv K r B out" and f: "r_filter r = Some h"
    and K: "kernel_ok K (r_inRate r) (r_sampleRate r)" and X: "length X mod nat (r_mid r) = 0"
  obtains buf p q Y where "produce K (r\<lparr>r_buf := r_buf r @ X\<rparr>) =
      Some (r\<lparr>r_buf := buf, r_pending := r_pending r @ Y, r_posInt := p, r_posFrac := q\<rparr>)"
    "stream_inv K (r\<lparr>r_buf := buf, r_pending := r_pending r @ Y, r_posInt := p, r_posFrac := q\<rparr>) (B @ X) (out @ Y)"
proof -
  define m where "m = nat (r_mid r)"
  from inv f obtain D where D: "stream_cfg K r" "length B mod m = 0" "h \<le> int (length B div m)"
      "out = ref_out K h r B 0 (due h r B)" "r_buf r = drop (D * m) B" "D * m \<le> length B"
      "cursor_at h r D (r_posInt r) (r_posFrac r) (due h r B)"
    by (auto simp: stream_inv_def m_def)
  have cfg: "0 < r_mid r" "0 < r_stepNum r" "0 < r_stepDen r" "h = k_halfTaps K (r_inRate r) (r_sampleRate r)"
    using D(1) f by (auto simp: stream_cfg_def validate_None split: if_splits)
  have h1: "1 \<le> h" using K cfg(4) by (simp add: kernel_ok_def)
  let ?B = "B @ X" and ?r = "r\<lparr>r_buf := r_buf r @ X\<rparr>"
  have mono: "due h r B \<le> due h r ?B" using cfg by (intro due_mono) auto
  have "\<exists>p' q'. produce_loop K h ?r (r_posInt r) (r_posFrac r) =
      (ref_out K h ?r ?B (due h r B) (max (due h r B) (due h ?r ?B)), p', q') \<and>
      cursor_at h ?r D p' q' (max (due h r B) (due h ?r ?B))"
    using D cfg by (intro produce_loop_ok[where D = D]) (auto simp: m_def)
  then obtain p q where loop: "produce_loop K h ?r (r_posInt r) (r_posFrac r) =
      (ref_out K h r ?B (due h r B) (due h r ?B), p, q)" "cursor_at h r D p q (due h r ?B)"
    using mono by auto
  define Y where "Y = ref_out K h r ?B (due h r B) (due h r ?B)"
  have out: "out @ Y = ref_out K h r ?B 0 (due h r ?B)"
    using ref_out_extend[of "due h r B" h r B K X] cfg h1 mono
      ref_out_append[of 0 "due h r B" "due h r ?B" K h r ?B] by (simp add: Y_def D(4))
  have F: "h \<le> int (length ?B div m)" using D(3) by (simp add: div_le_mono order_trans[OF D(3)])
  have md: "length ?B mod m = 0" using D(2) X by (simp add: m_def mod_add_eq[symmetric])
  define keep where "keep = p - h + 1"
  have keep: "0 \<le> keep" using loop(2) by (simp add: cursor_at_def keep_def)
  have "keep + int D \<le> int (length ?B div m)"
    using keep_in_range[OF D(1) K cfg(4) loop(2) refl] F by (simp add: keep_def m_def)
  then have kD: "(nat keep + D) * m \<le> length ?B"
    using keep cfg(1) by (simp add: m_def flip: less_eq_div_iff_mult_less_eq)
  define buf where "buf = drop ((nat keep + D) * m) ?B"
  let ?s = "r\<lparr>r_buf := buf, r_pending := r_pending r @ Y, r_posInt := p - keep, r_posFrac := q\<rparr>"
  have buf: "r_buf r @ X = drop (D * m) ?B" using D(5,6) by simp
  have nk: "nat (keep * r_mid r) = nat keep * m" using keep by (simp add: nat_mult_distrib m_def)
  then have b: "buf = drop (nat (keep * r_mid r)) (r_buf r @ X)"
    unfolding buf buf_def by (simp only: add_mult_distrib drop_drop)
  have "int (nat keep * m + D * m) \<le> int (length ?B)" using kD by (simp only: add_mult_distrib of_nat_le_iff)
  then have lk: "keep * r_mid r \<le> int (length (r_buf r @ X))"
    unfolding buf using keep cfg(1) D(6) by (simp add: m_def of_nat_diff)
  have "produce K ?r = Some ?s"
    using lk b keep f loop(1) by (cases "keep = 0") (auto simp: produce_def Let_def Y_def keep_def)
  moreover have "stream_inv K ?s ?B (out @ Y)"
    using D(1) md F out kD loop(2) keep f
    by (auto simp: stream_inv_def m_def[symmetric] buf_def keep_def cursor_at_def intro!: exI[of _ "nat keep + D"])
  ultimately show thesis by (rule that)
qed

lemma produce_direct:
  assumes inv: "stream_inv K r B out" and f: "r_filter r = None" and X: "length X mod nat (r_mid r) = 0"
  obtains Y where "produce K (r\<lparr>r_buf := r_buf r @ X\<rparr>) = Some (r\<lparr>r_buf := [], r_pending := r_pending r @ Y\<rparr>)"
    "stream_inv K (r\<lparr>r_buf := [], r_pending := r_pending r @ Y\<rparr>) (B @ X) (out @ Y)"
proof -
  define m ch where "m = nat (r_mid r)" and "ch = nat (r_channels r)"
  define fr where "fr = (\<lambda>xs f. spreadChannels m ch (\<lambda>c. xs ! (f * m + c)))"
  from inv f have D: "stream_cfg K r" "length B mod m = 0" "r_buf r = []"
      "out = concat (map (fr B) [0..<length B div m])"
    by (auto simp: stream_inv_def m_def ch_def fr_def)
  have m: "0 < m" using D(1) by (auto simp: stream_cfg_def validate_None m_def)
  define n k where "n = length B div m" and "k = length X div m"
  have nB: "length B = n * m" and kX: "length X = k * m" using D(2) X by (auto simp: n_def k_def m_def)
  have lo: "fr (B @ X) f = fr B f" if "f < n" for f
  proof -
    have "f * m + c < length B" if "c < m" for c
      using mult_le_mono1[of "Suc f" n m] \<open>f < n\<close> that by (simp add: nB)
    then show ?thesis using m by (auto simp: fr_def spreadChannels_def nth_append)
  qed
  have hi: "fr (B @ X) (n + f) = fr X f" for f
    by (simp add: fr_def nth_append nB add_mult_distrib add.assoc)
  define Y where "Y = concat (map (fr X) [0..<k])"
  have "length (B @ X) div m = n + k" using nB kX m by (simp add: add_mult_distrib[symmetric])
  moreover have "map (fr (B @ X)) [0..<n + k] = map (fr B) [0..<n] @ map (fr X) [0..<k]"
  proof -
    have "map g [0..<n + k] = map g [0..<n] @ map (\<lambda>f. g (n + f)) [0..<k]" for g :: "nat \<Rightarrow> float32 list"
      by (induction k) auto
    then show ?thesis using lo hi by simp
  qed
  ultimately have out: "out @ Y = concat (map (fr (B @ X)) [0..<length (B @ X) div m])"
    by (simp add: D(4) Y_def n_def)
  let ?s = "r\<lparr>r_buf := [], r_pending := r_pending r @ Y\<rparr>"
  have "produce K (r\<lparr>r_buf := r_buf r @ X\<rparr>) = Some ?s"
    using f D(3) by (simp add: produce_def produceDirect_def Let_def Y_def fr_def k_def m_def ch_def)
  moreover have "length (B @ X) mod m = 0" using nB kX by (simp add: add_mult_distrib[symmetric])
  then have "stream_inv K ?s (B @ X) (out @ Y)"
    using D(1) f out by (simp add: stream_inv_def m_def[symmetric] ch_def[symmetric] fr_def)
  ultimately show thesis by (rule that)
qed

text \<open>Both ways of producing, in one statement.\<close>

lemma produce_ok:
  assumes "stream_inv K r B out" "kernel_ok K (r_inRate r) (r_sampleRate r)" "length X mod nat (r_mid r) = 0"
  obtains buf p q Y where "produce K (r\<lparr>r_buf := r_buf r @ X\<rparr>) =
      Some (r\<lparr>r_buf := buf, r_pending := r_pending r @ Y, r_posInt := p, r_posFrac := q\<rparr>)"
    "stream_inv K (r\<lparr>r_buf := buf, r_pending := r_pending r @ Y, r_posInt := p, r_posFrac := q\<rparr>) (B @ X) (out @ Y)"
proof (cases "r_filter r")
  case None
  obtain Y where Y: "produce K (r\<lparr>r_buf := r_buf r @ X\<rparr>) = Some (r\<lparr>r_buf := [], r_pending := r_pending r @ Y\<rparr>)"
      "stream_inv K (r\<lparr>r_buf := [], r_pending := r_pending r @ Y\<rparr>) (B @ X) (out @ Y)"
    by (rule produce_direct[OF assms(1) None assms(3)])
  show thesis
    by (rule that[where buf = "[]" and p = "r_posInt r" and q = "r_posFrac r" and Y = Y]) (use Y in simp_all)
next
  case (Some h)
  show thesis by (rule produce_filter[OF assms(1) Some assms(2,3)]) (rule that)
qed

section \<open>Cutting the output\<close>

text \<open>The bytes of samples in the output format.\<close>

definition enc :: "Format \<Rightarrow> float32 list \<Rightarrow> byte list" where
  "enc f xs = (if f = FormatF32 then concat (map le_bytes32 xs) else concat (map le_bytes16 (map f32ToS16 xs)))"

lemma enc_append: "enc f (xs @ ys) = enc f xs @ enc f ys"
  by (simp add: enc_def)

lemma Bytes_To: "Valid f \<Longrightarrow> Bytes ((To f (zero_PCM\<lparr>p_Format := FormatF32, p_SampleRate := sr, p_Channels := ch, p_f32 := xs\<rparr>))\<lparr>p_PTS := t\<rparr>) = enc f xs"
  by (auto simp: Valid_def To_def ToInt16_def ToFloat32_def Bytes_def enc_def zero_PCM_def)

lemma Len_To: "0 < ch \<Longrightarrow> Valid f \<Longrightarrow>
  Len ((To f (zero_PCM\<lparr>p_Format := FormatF32, p_SampleRate := sr, p_Channels := ch, p_f32 := xs\<rparr>))\<lparr>p_PTS := t\<rparr>) = tdiv (int (length xs)) ch"
  by (auto simp: Valid_def To_def ToInt16_def ToFloat32_def Len_def NumSamples_def zero_PCM_def)

lemma collect_loop_ok:
  assumes r: "0 < r_channels r" "Valid (r_format r)" and len: "int (length (r_pending r)) = available * r_channels r"
  shows "0 < sz \<Longrightarrow> 0 \<le> taken \<Longrightarrow> taken \<le> available \<Longrightarrow>
    collect_loop r sz final available taken emitted = (out, t, e) \<Longrightarrow>
    taken \<le> t \<and> t \<le> available \<and> (final \<longrightarrow> t = available) \<and> available - t < sz \<and>
    concat (map Bytes out) = enc (r_format r) (take (nat ((t - taken) * r_channels r)) (drop (nat (taken * r_channels r)) (r_pending r))) \<and>
    (\<forall>p \<in> set (if final then butlast out else out). Len p = sz)"
proof (induction "nat (available - taken)" arbitrary: taken emitted out t e rule: less_induct)
  case less
  define c n where "c = r_channels r" and "n = min sz (available - taken)"
  have c: "0 < c" using r by (simp add: c_def)
  show ?case
  proof (cases "taken < available \<and> \<not> (n < sz \<and> \<not> final)")
    case False
    then have res: "out = []" "t = taken"
      using less.prems(4) by (auto simp: collect_loop.simps[of r sz final available taken] Let_def n_def split: if_splits)
    have "available - taken < sz \<and> (final \<longrightarrow> taken = available)"
      using False less.prems(1,3) by (auto simp: n_def)
    then show ?thesis using res less.prems(3) by (simp add: enc_def)
  next
    case True
    define xs where "xs = take (nat (n * c)) (drop (nat (taken * c)) (r_pending r))"
    define pcm where "pcm = (To (r_format r) (zero_PCM\<lparr>p_Format := FormatF32, p_SampleRate := r_sampleRate r,
        p_Channels := r_channels r, p_f32 := xs\<rparr>))\<lparr>p_PTS := frames_duration emitted (r_sampleRate r)\<rparr>"
    obtain out' where rec: "collect_loop r sz final available (taken + n) (i64 (emitted + n)) = (out', t, e)" "out = pcm # out'"
      using less.prems(1,4) True
      by (subst (asm) collect_loop.simps)
         (auto simp: Let_def n_def[symmetric] c_def[symmetric] xs_def[symmetric] pcm_def split: prod.splits if_splits)
    have n: "1 \<le> n" "taken + n \<le> available" using True less.prems(1) by (auto simp: n_def)
    have IH: "taken + n \<le> t" "t \<le> available" "final \<longrightarrow> t = available" "available - t < sz"
        "concat (map Bytes out') = enc (r_format r) (take (nat ((t - (taken + n)) * c)) (drop (nat ((taken + n) * c)) (r_pending r)))"
        "\<forall>p \<in> set (if final then butlast out' else out'). Len p = sz"
      using less.hyps[OF _ less.prems(1) _ n(2) rec(1)] n less.prems(2) unfolding c_def by simp_all
    have sp: "nat ((t - taken) * c) = nat (n * c) + nat ((t - (taken + n)) * c)"
      "nat ((taken + n) * c) = nat (n * c) + nat (taken * c)"
    proof -
      have "(t - taken) * c = n * c + (t - (taken + n)) * c" "(taken + n) * c = n * c + taken * c"
        by (simp_all add: algebra_simps)
      moreover have "0 \<le> n * c" "0 \<le> (t - (taken + n)) * c" "0 \<le> taken * c" using n IH(1) less.prems(2) c by simp_all
      ultimately show "nat ((t - taken) * c) = nat (n * c) + nat ((t - (taken + n)) * c)"
        "nat ((taken + n) * c) = nat (n * c) + nat (taken * c)"
        by (simp_all add: nat_add_distrib)
    qed
    have bytes: "concat (map Bytes out) = enc (r_format r) (take (nat ((t - taken) * c)) (drop (nat (taken * c)) (r_pending r)))"
      unfolding rec(2) sp(1) take_add enc_append using r IH(5)
      by (simp add: pcm_def Bytes_To xs_def sp(2))
    have "(taken + n) * c \<le> available * c" using n c by (intro mult_right_mono) auto
    then have "int (length xs) = n * c"
    proof -
      have "0 \<le> n * c" "0 \<le> taken * c" "n * c + taken * c \<le> int (length (r_pending r))"
        using len n less.prems(2) c \<open>(taken + n) * c \<le> available * c\<close> by (simp_all add: c_def algebra_simps)
      then show ?thesis unfolding xs_def length_take length_drop by linarith
    qed
    then have Lp: "Len pcm = n" using r c n by (simp add: pcm_def Len_To c_def[symmetric] tdiv_nonneg)
    have "n = sz" if "\<not> final \<or> out' \<noteq> []"
    proof (cases final)
      case True
      with that have "out' \<noteq> []" by simp
      then have "taken + n < available"
        using rec(1) n(2) by (subst (asm) collect_loop.simps) (auto split: if_splits)
      then show ?thesis by (auto simp: n_def)
    next
      case False
      then show ?thesis using \<open>taken < available \<and> \<not> (n < sz \<and> \<not> final)\<close> by (auto simp: n_def)
    qed
    then have "\<forall>p \<in> set (if final then butlast out else out). Len p = sz"
      using IH(6) Lp by (auto simp: rec(2))
    then show ?thesis using IH(1-4) n(1) bytes unfolding c_def by simp
  qed
qed

section \<open>Writing a stream\<close>

text \<open>\<open>done\<close> are the samples of the buffers returned so far.\<close>

definition stream_run :: "kernel \<Rightarrow> StreamResampler \<Rightarrow> float32 list \<Rightarrow> float32 list \<Rightarrow> bool" where
  "stream_run K r B done \<longleftrightarrow> stream_inv K r B (done @ r_pending r) \<and> length done mod nat (r_channels r) = 0"

lemma length_spread [simp]: "length (spreadChannels m ch v) = ch"
  by (simp add: spreadChannels_def)

lemma length_blocks: "length (concat (map (\<lambda>x. spreadChannels m ch (v x)) xs)) = length xs * ch"
  by (induction xs) auto

lemma stream_inv_length: "stream_inv K r B out \<Longrightarrow> length out mod nat (r_channels r) = 0"
  by (auto simp: stream_inv_def length_blocks ref_out_def ref_frame_def split: option.splits)

lemma stream_inv_cfg: "stream_inv K r B out \<Longrightarrow> stream_cfg K r"
  by (simp add: stream_inv_def)

lemma stream_inv_pending [simp]:
  "stream_inv K (r\<lparr>r_pending := xs\<rparr>) = stream_inv K r" "stream_inv K (r\<lparr>r_emitted := e\<rparr>) = stream_inv K r"
  by (cases "r_filter r"; simp add: fun_eq_iff stream_inv_def)+

definition frames_ok :: "int \<Rightarrow> bool \<Rightarrow> PCM list \<Rightarrow> bool" where
  "frames_ok fs final out \<longleftrightarrow> (0 < fs \<longrightarrow> (\<forall>p \<in> set (if final then butlast out else out). Len p = fs))"

lemma collect_ok:
  assumes run: "stream_run K r B done"
  obtains out pend e X where "collect final r = (out, r\<lparr>r_pending := pend, r_emitted := e\<rparr>)"
    "stream_run K (r\<lparr>r_pending := pend, r_emitted := e\<rparr>) B (done @ X)"
    "concat (map Bytes out) = enc (r_format r) X" "final \<longrightarrow> pend = []" "frames_ok (r_frameSize r) final out"
proof -
  define c where "c = r_channels r"
  have inv: "stream_inv K r B (done @ r_pending r)" and dm: "length done mod nat c = 0"
    using run by (auto simp: stream_run_def c_def)
  have cfg: "0 < c" "Valid (r_format r)" "0 \<le> r_frameSize r"
    using stream_inv_cfg[OF inv] by (auto simp: stream_cfg_def validate_None c_def)
  have "length (r_pending r) mod nat c = 0"
    using stream_inv_length[OF inv] dm by (simp add: c_def[symmetric] dvd_eq_mod_eq_0[symmetric] dvd_add_right_iff)
  then obtain a where a: "length (r_pending r) = a * nat c" by (metis div_mult_mod_eq add.right_neutral)
  define available where "available = int a"
  have len: "int (length (r_pending r)) = available * c" using a cfg by (simp add: available_def)
  then have av: "tdiv (int (length (r_pending r))) c = available" using cfg by (simp add: tdiv_nonneg available_def)
  show thesis
  proof (cases "available = 0")
    case True
    then have "r_pending r = []" using len by simp
    then have same: "r\<lparr>r_pending := [], r_emitted := r_emitted r\<rparr> = r" by (metis StreamResampler.surjective StreamResampler.update_convs(15,16))
    show thesis
      by (rule that[where X = "[]" and pend = "[]" and out = "[]" and e = "r_emitted r"], unfold same)
         (use True av run in \<open>simp_all add: collect_def c_def[symmetric] frames_ok_def enc_def\<close>)
  next
    case False
    define sz where "sz = (if r_frameSize r = 0 then available else r_frameSize r)"
    have sz: "0 < sz" using cfg False by (auto simp: sz_def available_def)
    obtain out t e where loop: "collect_loop r sz final available 0 (r_emitted r) = (out, t, e)"
      by (cases "collect_loop r sz final available 0 (r_emitted r)") auto
    have l: "0 \<le> t" "t \<le> available" "final \<longrightarrow> t = available"
        "concat (map Bytes out) = enc (r_format r) (take (nat (t * c)) (r_pending r))"
        "\<forall>p \<in> set (if final then butlast out else out). Len p = sz"
      using collect_loop_ok[OF cfg(1)[unfolded c_def] cfg(2) len[unfolded c_def] sz _ _ loop]
      by (simp_all add: c_def available_def)
    define X pend where "X = take (nat (t * c)) (r_pending r)" and "pend = drop (nat (t * c)) (r_pending r)"
    have XP: "X @ pend = r_pending r" by (simp add: X_def pend_def)
    have "t * c \<le> available * c" using l cfg by (intro mult_right_mono) auto
    then have "nat (t * c) \<le> length (r_pending r)" using len by linarith
    then have lx: "length X = nat t * nat c" using l(1) by (simp add: X_def nat_mult_distrib)
    let ?s = "r\<lparr>r_pending := pend, r_emitted := e\<rparr>"
    have col: "collect final r = (out, ?s)"
      using False av loop by (simp add: collect_def c_def[symmetric] sz_def[symmetric] pend_def Let_def)
    have run': "stream_run K ?s B (done @ X)"
      using inv dm lx XP by (simp add: stream_run_def c_def[symmetric] mod_add_eq[symmetric])
    have pend: "final \<longrightarrow> pend = []" using l(3) len by (auto simp: pend_def)
    have fr: "frames_ok (r_frameSize r) final out"
      using l(5) by (auto simp: frames_ok_def sz_def)
    show thesis
      by (rule that[OF col run' _ pend fr]) (use l(4) in \<open>simp add: X_def\<close>)
  qed
qed

text \<open>Producing after more input, whatever comes next.\<close>

lemma produce_run:
  assumes run: "stream_run K r B done" and K: "kernel_ok K (r_inRate r) (r_sampleRate r)" and M: "length M mod nat (r_mid r) = 0"
  obtains s where "produce K (r\<lparr>r_buf := r_buf r @ M\<rparr>) = Some s" "stream_run K s (B @ M) done"
    "\<exists>b pd i q. s = r\<lparr>r_buf := b, r_pending := pd, r_posInt := i, r_posFrac := q\<rparr>"
proof -
  have inv: "stream_inv K r B (done @ r_pending r)" and dm: "length done mod nat (r_channels r) = 0"
    using run by (auto simp: stream_run_def)
  from produce_ok[OF inv K M] obtain buf i q Y where pr:
      "produce K (r\<lparr>r_buf := r_buf r @ M\<rparr>) =
        Some (r\<lparr>r_buf := buf, r_pending := r_pending r @ Y, r_posInt := i, r_posFrac := q\<rparr>)"
      "stream_inv K (r\<lparr>r_buf := buf, r_pending := r_pending r @ Y, r_posInt := i, r_posFrac := q\<rparr>) (B @ M)
         ((done @ r_pending r) @ Y)"
    by metis
  show thesis
    by (rule that[OF pr(1)]) (use pr(2) dm in \<open>auto simp: stream_run_def\<close>)
qed

text \<open>The samples a buffer contributes at \<open>m\<close> channels, and that contribution for a whole stream.\<close>

definition mixdown :: "kernel \<Rightarrow> nat \<Rightarrow> nat \<Rightarrow> float32 list \<Rightarrow> float32 list" where
  "mixdown K m ch X = (if ch = m then X else downmix K m ch X)"

lemma length_downmix: "length (downmix K m ch X) = length X div ch * m"
  unfolding downmix_def by (simp add: length_concat_blocks[where k = m])

lemma downmix_append:
  assumes "0 < ch" "length X = n * ch"
  shows "downmix K m ch (X @ Y) = downmix K m ch X @ downmix K m ch Y"
proof -
  define fr where "fr = (\<lambda>Z f. map (\<lambda>c. k_mean K (map (\<lambda>s. Z ! (f * ch + s)) (filter (\<lambda>s. s mod m = c) [0..<ch]))) [0..<m])"
  define k where "k = length Y div ch"
  have lo: "fr (X @ Y) f = fr X f" if "f < n" for f
  proof -
    have "f * ch + s < length X" if "s < ch" for s
      using mult_le_mono1[of "Suc f" n ch] \<open>f < n\<close> that by (simp add: assms)
    then show ?thesis by (auto simp: fr_def nth_append intro!: arg_cong[where f = "k_mean K"])
  qed
  have hi: "fr (X @ Y) (n + f) = fr Y f" for f
    by (simp add: fr_def nth_append assms(2) add_mult_distrib add.assoc)
  have "length (X @ Y) div ch = n + k" using assms by (simp add: k_def)
  moreover have "map g [0..<n + k] = map g [0..<n] @ map (\<lambda>f. g (n + f)) [0..<k]" for g :: "nat \<Rightarrow> float32 list"
    by (induction k) auto
  moreover have "length X div ch = n" using assms by simp
  moreover have "downmix K m ch Z = concat (map (fr Z) [0..<length Z div ch])" for Z
    by (simp add: downmix_def fr_def)
  moreover have "map (fr (X @ Y)) [0..<n] = map (fr X) [0..<n]" using lo by simp
  ultimately show ?thesis using hi by (simp only: k_def concat_append)
qed

lemma mixdown_length:
  "0 < ch \<Longrightarrow> length X mod ch = 0 \<Longrightarrow> length (mixdown K m ch X) = length X div ch * m"
  by (auto simp: mixdown_def length_downmix)

lemma mixdown_concat:
  assumes "0 < ch" "\<forall>X \<in> set Xs. length X mod ch = 0"
  shows "concat (map (mixdown K m ch) Xs) = mixdown K m ch (concat Xs)"
  using assms(2)
proof (induction Xs)
  case Nil
  then show ?case by (simp add: mixdown_def downmix_def)
next
  case (Cons X Xs)
  then obtain n where "length X = n * ch" 
    by (metis add.right_neutral div_mult_mod_eq list.set_intros(1))
  then show ?case
    using Cons downmix_append[OF assms(1), of X n K m "concat Xs"] by (auto simp: mixdown_def)
qed

definition floats :: "PCM \<Rightarrow> float32 list" where
  "floats p = p_f32 (ToFloat32 p)"

lemma floats_length: "pcm_wf p \<Longrightarrow> int (length (floats p)) = Len p * p_Channels p"
  by (erule pcm_wf_cases) (simp_all add: floats_def ToFloat32_def)

lemma feed_eq:
  assumes "stream_cfg K r" "p_Channels p = r_inChannels r"
  shows "feed K p r = r\<lparr>r_buf := r_buf r @ mixdown K (nat (r_mid r)) (nat (r_inChannels r)) (floats p)\<rparr>"
proof -
  have "0 < r_mid r" "0 < r_inChannels r" using assms by (auto simp: stream_cfg_def validate_None)
  then have "nat (r_inChannels r) = nat (r_mid r) \<longleftrightarrow> p_Channels p = r_mid r" using assms(2) by linarith
  then show ?thesis using assms(2) by (simp add: feed_def mixdown_def floats_def Let_def)
qed

lemma mixdown_floats:
  assumes cfg: "stream_cfg K r" and p: "pcm_wf p" "p_Channels p = r_inChannels r"
  shows "length (mixdown K (nat (r_mid r)) (nat (r_inChannels r)) (floats p)) mod nat (r_mid r) = 0"
proof -
  have ic: "0 < r_inChannels r" using cfg by (simp add: stream_cfg_def)
  have "length (floats p) = nat (Len p) * nat (r_inChannels r)"
    using floats_length[OF p(1)] pcm_wf_pos[OF p(1)] p(2) by (simp add: nat_mult_distrib[symmetric])
  then show ?thesis
    using ic mixdown_length[of "nat (r_inChannels r)" "floats p" K "nat (r_mid r)"] by simp
qed

text \<open>The part of \<open>Write\<close> after the stream is configured.\<close>

definition write_step :: "kernel \<Rightarrow> StreamResampler \<Rightarrow> PCM \<Rightarrow> (PCM list \<times> StreamResampler) option" where
  "write_step K r p = (case produce K (feed K p r) of None \<Rightarrow> None | Some r \<Rightarrow> Some (collect False r))"

lemma write_step_ok:
  assumes run: "stream_run K r B done" and K: "kernel_ok K (r_inRate r) (r_sampleRate r)"
    and p: "pcm_wf p" "p_Channels p = r_inChannels r"
  obtains out r' X where "write_step K r p = Some (out, r')"
    "stream_run K r' (B @ mixdown K (nat (r_mid r)) (nat (r_inChannels r)) (floats p)) (done @ X)"
    "concat (map Bytes out) = enc (r_format r) X" "frames_ok (r_frameSize r) False out"
    "\<exists>b pd i q e. r' = r\<lparr>r_buf := b, r_pending := pd, r_posInt := i, r_posFrac := q, r_emitted := e\<rparr>"
proof -
  define M where "M = mixdown K (nat (r_mid r)) (nat (r_inChannels r)) (floats p)"
  have inv: "stream_inv K r B (done @ r_pending r)" and dm: "length done mod nat (r_channels r) = 0"
    using run by (auto simp: stream_run_def)
  note cfg = stream_inv_cfg[OF inv]
  have "length M mod nat (r_mid r) = 0" unfolding M_def by (rule mixdown_floats[OF cfg p])
  with run K obtain s where pr: "produce K (r\<lparr>r_buf := r_buf r @ M\<rparr>) = Some s" "stream_run K s (B @ M) done"
      "\<exists>b pd i q. s = r\<lparr>r_buf := b, r_pending := pd, r_posInt := i, r_posFrac := q\<rparr>"
    by (rule produce_run)
  from pr(3) obtain buf pd i q where s_def: "s = r\<lparr>r_buf := buf, r_pending := pd, r_posInt := i, r_posFrac := q\<rparr>" by blast
  from pr(2)
  obtain out pend e X where c: "collect False s = (out, s\<lparr>r_pending := pend, r_emitted := e\<rparr>)"
      "stream_run K (s\<lparr>r_pending := pend, r_emitted := e\<rparr>) (B @ M) (done @ X)"
      "concat (map Bytes out) = enc (r_format s) X" "frames_ok (r_frameSize s) False out"
    by (rule collect_ok)
  have "write_step K r p = Some (out, s\<lparr>r_pending := pend, r_emitted := e\<rparr>)"
    using pr(1) c(1) feed_eq[OF cfg p(2)] by (simp add: write_step_def M_def)
  moreover have "\<exists>b pd i q e'. s\<lparr>r_pending := pend, r_emitted := e\<rparr> =
      r\<lparr>r_buf := b, r_pending := pd, r_posInt := i, r_posFrac := q, r_emitted := e'\<rparr>"
    by (intro exI[of _ buf] exI[of _ pend] exI[of _ i] exI[of _ q] exI[of _ e]) (simp add: s_def)
  ultimately show thesis
    using c(2-4) by (intro that) (simp_all add: M_def s_def)
qed

text \<open>Configuring a fresh resampler.\<close>

lemma go_gcd_eq: "0 \<le> a \<Longrightarrow> 0 \<le> b \<Longrightarrow> go_gcd a b = gcd a b"
proof (induction a b rule: go_gcd.induct)
  case (1 a b)
  show ?case
  proof (cases "b = 0")
    case True
    then show ?thesis using 1 by (simp add: go_gcd.simps)
  next
    case False
    then have "tmod a b = a mod b" "0 \<le> a mod b" using 1(2,3) by (auto simp: tmod_nonneg)
    then show ?thesis
      using 1(1)[OF False] 1(3) False by (subst go_gcd.simps) (simp add: gcd_red_int[symmetric] gcd.commute)
  qed
qed

definition prime :: "kernel \<Rightarrow> StreamResampler \<Rightarrow> float32 list" where
  "prime K r = (case r_filter r of None \<Rightarrow> [] | Some h \<Rightarrow> replicate (nat (h * r_mid r)) 0)"

lemma configure_ok:
  assumes r: "validate (r_format r) (r_sampleRate r) (r_channels r) = None" "0 \<le> r_frameSize r"
    and i: "0 < ir" "0 < ic" and K: "kernel_ok K ir (r_sampleRate r)"
  shows "stream_run K (configure K ir ic r) (prime K (configure K ir ic r)) []"
    and "r_inRate (configure K ir ic r) = ir" "r_inChannels (configure K ir ic r) = ic"
      "r_mid (configure K ir ic r) = min ic (r_channels r)"
      "r_sampleRate (configure K ir ic r) = r_sampleRate r" "r_channels (configure K ir ic r) = r_channels r"
      "r_format (configure K ir ic r) = r_format r" "r_frameSize (configure K ir ic r) = r_frameSize r"
      "r_configured (configure K ir ic r)"
      "r_stepNum (configure K ir ic r) = ir div gcd ir (r_sampleRate r)"
      "r_stepDen (configure K ir ic r) = r_sampleRate r div gcd ir (r_sampleRate r)"
proof -
  define s sr g where "s = configure K ir ic r" and "sr = r_sampleRate r" and "g = gcd ir sr"
  have pos: "0 < sr" "0 < r_channels r" using r(1) by (auto simp: validate_None sr_def)
  have g: "0 < g" "g dvd ir" "g dvd sr" "go_gcd ir sr = g" using i pos by (auto simp: g_def go_gcd_eq)
  have st: "tdiv ir g = ir div g" "tdiv sr g = sr div g" using g i pos by (auto simp: tdiv_nonneg)
  have step: "0 < ir div g" "0 < sr div g" "ir * (sr div g) = sr * (ir div g)"
    using g i pos by (auto simp: pos_imp_zdiv_pos_iff zdvd_imp_le div_mult_swap mult.commute)
  show f: "r_inRate (configure K ir ic r) = ir" "r_inChannels (configure K ir ic r) = ic"
      "r_mid (configure K ir ic r) = min ic (r_channels r)"
      "r_sampleRate (configure K ir ic r) = r_sampleRate r" "r_channels (configure K ir ic r) = r_channels r"
      "r_format (configure K ir ic r) = r_format r" "r_frameSize (configure K ir ic r) = r_frameSize r"
      "r_configured (configure K ir ic r)"
    by (simp_all add: configure_def Let_def)
  show f2: "r_stepNum (configure K ir ic r) = ir div gcd ir (r_sampleRate r)"
      "r_stepDen (configure K ir ic r) = r_sampleRate r div gcd ir (r_sampleRate r)"
  proof -
    have "r_stepNum (configure K ir ic r) = tdiv ir (go_gcd ir sr)" "r_stepDen (configure K ir ic r) = tdiv sr (go_gcd ir sr)"
      by (simp_all add: configure_def Let_def sr_def)
    then show "r_stepNum (configure K ir ic r) = ir div gcd ir (r_sampleRate r)"
      "r_stepDen (configure K ir ic r) = r_sampleRate r div gcd ir (r_sampleRate r)"
      unfolding g(4) st by (simp_all only: g_def sr_def)
  qed
  define h where "h = k_halfTaps K ir sr"
  have h: "1 \<le> h" using K by (simp add: kernel_ok_def h_def sr_def)
  have fl: "r_filter s = (if ir = sr then None else Some h)" "r_pending s = []"
    "r_buf s = (if ir = sr then [] else replicate (nat (h * r_mid s)) 0)"
    "ir \<noteq> sr \<Longrightarrow> r_posInt s = h" "r_posFrac s = 0"
    by (simp_all add: s_def configure_def Let_def h_def sr_def)
  have cfg: "stream_cfg K s"
    using r i pos step f f2 fl(1) by (simp add: stream_cfg_def s_def sr_def[symmetric] g_def h_def)
  have m: "0 < r_mid s" using f(3) i pos by (simp add: s_def)
  have "stream_run K s (prime K s) []"
  proof (cases "ir = sr")
    case True
    then show ?thesis using cfg fl by (simp add: stream_run_def stream_inv_def prime_def)
  next
    case False
    have len: "nat (h * r_mid s) = nat h * nat (r_mid s)" using h by (simp add: nat_mult_distrib)
    have F: "length (replicate (nat (h * r_mid s)) (0::float32)) div nat (r_mid s) = nat h" using m by (simp add: len)
    have due: "due h s (replicate (nat (h * r_mid s)) 0) = 0"
    proof (rule ccontr)
      assume "due h s (replicate (nat (h * r_mid s)) 0) \<noteq> 0"
      then have "0 < (int (nat h) - 2 * h) * r_stepDen s"
        using due_less[of s 0 h "replicate (nat (h * r_mid s)) 0"] cfg F by (simp add: stream_cfg_def)
      moreover have "0 < r_stepDen s" using cfg by (simp add: stream_cfg_def)
      moreover have "int (nat h) - 2 * h < 0" using h by simp
      ultimately show False by (meson mult_neg_pos order_less_asym)
    qed
    have "cursor_at h s 0 h 0 0" using cfg by (simp add: cursor_at_def stream_cfg_def)
    then show ?thesis
      using False cfg fl due h m F len
      by (auto simp: stream_run_def stream_inv_def prime_def ref_out_def intro!: exI[of _ 0])
  qed
  then show "stream_run K (configure K ir ic r) (prime K (configure K ir ic r)) []" by (simp add: s_def)
qed

lemma Write_sr_step:
  assumes "stream_cfg K r" "pcm_wf p" "\<not> IsEmpty p" "p_SampleRate p = r_inRate r" "p_Channels p = r_inChannels r"
  shows "Write_sr K r p = map_option (\<lambda>(out, r). (Inr out, r)) (write_step K r p)"
  using assms by (auto simp: Write_sr_def write_step_def stream_cfg_def pcm_wf_def Let_def split: option.splits prod.splits)

lemma Write_sr_fresh:
  assumes "\<not> r_configured r" "pcm_wf p" "\<not> IsEmpty p"
  shows "Write_sr K r p = map_option (\<lambda>(out, r). (Inr out, r)) (write_step K (configure K (p_SampleRate p) (p_Channels p) r) p)"
  using assms by (auto simp: Write_sr_def write_step_def pcm_wf_def Let_def split: option.splits prod.splits)

text \<open>A sequence of writes, all of which must succeed, and a stream converted as a whole.\<close>

fun write_all :: "kernel \<Rightarrow> StreamResampler \<Rightarrow> PCM list \<Rightarrow> (PCM list \<times> StreamResampler) option" where
  "write_all K r [] = Some ([], r)"
| "write_all K r (p # ps) =
    (case Write_sr K r p of
       Some (Inr out, r') \<Rightarrow>
         (case write_all K r' ps of None \<Rightarrow> None | Some (outs, r'') \<Rightarrow> Some (out @ outs, r''))
     | _ \<Rightarrow> None)"

definition convert_stream :: "kernel \<Rightarrow> Format \<Rightarrow> int \<Rightarrow> int \<Rightarrow> int \<Rightarrow> PCM list \<Rightarrow> PCM list option" where
  "convert_stream K format sampleRate channels frameSize ps =
    (case NewStreamResampler format sampleRate channels frameSize of
       None \<Rightarrow> None
     | Some r \<Rightarrow>
        (case write_all K r ps of
           None \<Rightarrow> None
         | Some (outs, r) \<Rightarrow> (case Flush_sr K r of None \<Rightarrow> None | Some (tail, _) \<Rightarrow> Some (outs @ tail))))"

definition same_input :: "int \<Rightarrow> int \<Rightarrow> PCM \<Rightarrow> bool" where
  "same_input ir ic p \<longleftrightarrow> pcm_wf p \<and> p_SampleRate p = ir \<and> p_Channels p = ic"

lemma write_all_ok:
  assumes "stream_run K r B done" "kernel_ok K (r_inRate r) (r_sampleRate r)"
    "\<forall>p \<in> set ps. same_input (r_inRate r) (r_inChannels r) p"
  shows "\<exists>outs r' X b pd i q e. write_all K r ps = Some (outs, r') \<and>
    r' = r\<lparr>r_buf := b, r_pending := pd, r_posInt := i, r_posFrac := q, r_emitted := e\<rparr> \<and>
    stream_run K r' (B @ concat (map (mixdown K (nat (r_mid r)) (nat (r_inChannels r)) \<circ> floats) ps)) (done @ X) \<and>
    concat (map Bytes outs) = enc (r_format r) X \<and> frames_ok (r_frameSize r) False outs"
  using assms
proof (induction ps arbitrary: r B "done")
  case Nil
  have "write_all K r [] = Some ([], r)" "concat (map Bytes []) = enc (r_format r) []" "frames_ok (r_frameSize r) False []"
    by (simp_all add: frames_ok_def enc_def)
  moreover have "r = r\<lparr>r_buf := r_buf r, r_pending := r_pending r, r_posInt := r_posInt r, r_posFrac := r_posFrac r, r_emitted := r_emitted r\<rparr>"
    by simp
  moreover have "stream_run K r (B @ concat (map (mixdown K (nat (r_mid r)) (nat (r_inChannels r)) \<circ> floats) [])) (done @ [])"
    using Nil by simp
  ultimately show ?case by blast
next
  case (Cons p ps)
  let ?mx = "mixdown K (nat (r_mid r)) (nat (r_inChannels r))"
  have p: "pcm_wf p" "p_SampleRate p = r_inRate r" "p_Channels p = r_inChannels r"
    using Cons.prems(3) by (auto simp: same_input_def)
  have cfg: "stream_cfg K r" using Cons.prems(1) by (auto simp: stream_run_def dest: stream_inv_cfg)
  have e0: "floats p = []" "?mx [] = []" if "IsEmpty p"
  proof -
    have "int (length (floats p)) = NumSamples p" using p(1) by (auto elim!: pcm_wf_cases simp: floats_length NumSamples_def)
    then show "floats p = []" using that by (simp add: IsEmpty_def)
    show "?mx [] = []" by (simp add: mixdown_def downmix_def)
  qed
  show ?case
  proof (cases "IsEmpty p")
    case True
    then have "write_all K r (p # ps) = write_all K r ps"
      by (auto simp: Write_sr_def split: option.splits)
    then show ?thesis using Cons.IH[OF Cons.prems(1,2)] Cons.prems(3) e0[OF True] by simp
  next
    case False
    obtain out r1 X1 where w: "write_step K r p = Some (out, r1)" "stream_run K r1 (B @ ?mx (floats p)) (done @ X1)"
        "concat (map Bytes out) = enc (r_format r) X1" "frames_ok (r_frameSize r) False out"
        "\<exists>b pd i q e. r1 = r\<lparr>r_buf := b, r_pending := pd, r_posInt := i, r_posFrac := q, r_emitted := e\<rparr>"
      by (rule write_step_ok[OF Cons.prems(1,2) p(1,3)])
    have st: "r_inRate r1 = r_inRate r" "r_sampleRate r1 = r_sampleRate r" "r_inChannels r1 = r_inChannels r"
        "r_mid r1 = r_mid r" "r_format r1 = r_format r" "r_frameSize r1 = r_frameSize r"
      using w(5) by auto
    obtain outs r' X b pd i q e where IH: "write_all K r1 ps = Some (outs, r')"
        "r' = r1\<lparr>r_buf := b, r_pending := pd, r_posInt := i, r_posFrac := q, r_emitted := e\<rparr>"
        "stream_run K r' ((B @ ?mx (floats p)) @ concat (map (?mx \<circ> floats) ps)) ((done @ X1) @ X)"
        "concat (map Bytes outs) = enc (r_format r) X" "frames_ok (r_frameSize r) False outs"
    proof -
      have "kernel_ok K (r_inRate r1) (r_sampleRate r1)" "\<forall>q \<in> set ps. same_input (r_inRate r1) (r_inChannels r1) q"
        using Cons.prems(2,3) st by simp_all
      from Cons.IH[OF w(2) this] show thesis unfolding st using that by blast
    qed
    have "r' = r\<lparr>r_buf := b, r_pending := pd, r_posInt := i, r_posFrac := q, r_emitted := e\<rparr>"
      using IH(2) w(5) by auto
    moreover have "write_all K r (p # ps) = Some (out @ outs, r')"
      using Write_sr_step[OF cfg p(1) False p(2,3)] w(1) IH(1) by simp
    moreover have "frames_ok (r_frameSize r) False (out @ outs)"
      using w(4) IH(5) by (auto simp: frames_ok_def)
    moreover have "stream_run K r' (B @ concat (map (?mx \<circ> floats) (p # ps))) (done @ (X1 @ X))" using IH(3) by simp
    moreover have "concat (map Bytes (out @ outs)) = enc (r_format r) (X1 @ X)" using IH(4) w(3) by (simp add: enc_append)
    ultimately show ?thesis by blast
  qed
qed

text \<open>All output a stream owes for the input \<open>B\<close>.\<close>

definition stream_out :: "kernel \<Rightarrow> StreamResampler \<Rightarrow> float32 list \<Rightarrow> float32 list" where
  "stream_out K r B =
    (case r_filter r of
       None \<Rightarrow> concat (map (\<lambda>f. spreadChannels (nat (r_mid r)) (nat (r_channels r)) (\<lambda>c. B ! (f * nat (r_mid r) + c)))
         [0..<length B div nat (r_mid r)])
     | Some h \<Rightarrow> ref_out K h r B 0 (due h r B))"

lemma stream_out_static [simp]:
  "stream_out K (r\<lparr>r_buf := b, r_pending := pd, r_posInt := i, r_posFrac := q, r_emitted := e\<rparr>) = stream_out K r"
  by (cases "r_filter r"; simp add: fun_eq_iff stream_out_def)+

lemma stream_inv_out: "stream_inv K r B out \<Longrightarrow> out = stream_out K r B"
  by (auto simp: stream_inv_def stream_out_def split: option.splits)

lemma Flush_sr_ok:
  assumes run: "stream_run K r B done" and K: "kernel_ok K (r_inRate r) (r_sampleRate r)"
  obtains out s X where "Flush_sr K r = Some (out, s)" "concat (map Bytes out) = enc (r_format r) X"
    "frames_ok (r_frameSize r) True out" "done @ X = stream_out K r (B @ prime K r)"
proof -
  have inv: "stream_inv K r B (done @ r_pending r)" and dm: "length done mod nat (r_channels r) = 0"
    using run by (auto simp: stream_run_def)
  have cfg: "r_configured r" using stream_inv_cfg[OF inv] by (simp add: stream_cfg_def)
  have "length (prime K r) mod nat (r_mid r) = 0"
    using stream_inv_cfg[OF inv] by (auto simp: prime_def stream_cfg_def validate_None nat_mult_distrib mult.commute split: option.split)
  with run K obtain s where pr: "produce K (r\<lparr>r_buf := r_buf r @ prime K r\<rparr>) = Some s" "stream_run K s (B @ prime K r) done"
      "\<exists>b pd i q. s = r\<lparr>r_buf := b, r_pending := pd, r_posInt := i, r_posFrac := q\<rparr>"
    by (rule produce_run)
  from pr(3) obtain buf pd i q where s_def: "s = r\<lparr>r_buf := buf, r_pending := pd, r_posInt := i, r_posFrac := q\<rparr>" by blast
  from pr(2)
  obtain out pend e X where c: "collect True s = (out, s\<lparr>r_pending := pend, r_emitted := e\<rparr>)"
      "stream_run K (s\<lparr>r_pending := pend, r_emitted := e\<rparr>) (B @ prime K r) (done @ X)"
      "concat (map Bytes out) = enc (r_format s) X" "True \<longrightarrow> pend = []" "frames_ok (r_frameSize s) True out"
    by (rule collect_ok)
  have "Flush_sr K r = Some (out, Reset_sr (s\<lparr>r_pending := pend, r_emitted := e\<rparr>))"
    using cfg pr(1) c(1) by (cases "r_filter r") (simp_all add: Flush_sr_def prime_def)
  moreover have "done @ X = stream_out K r (B @ prime K r)"
  proof -
    have "s\<lparr>r_pending := pend, r_emitted := e\<rparr> =
        r\<lparr>r_buf := buf, r_pending := pend, r_posInt := i, r_posFrac := q, r_emitted := e\<rparr>" by (simp add: s_def)
    then show ?thesis
      using stream_inv_out[of K "s\<lparr>r_pending := pend, r_emitted := e\<rparr>"] c(2,4) by (simp add: stream_run_def)
  qed
  ultimately show thesis
    using c(3,5) by (intro that) (simp_all add: s_def)
qed

section \<open>The reference conversion\<close>

text \<open>The whole conversion of the samples \<open>X\<close>, which have \<open>m\<close> channels, in one formula: with equal rates
  the frames pass with their channels spread; otherwise the input is surrounded by silence of the
  filter's reach \<open>h\<close>, and output frame \<open>k\<close> is the filter at input position \<open>k * num / den\<close>. As many
  frames come out as fit the duration of the input, rounded up.\<close>

definition resample_ref :: "kernel \<Rightarrow> int \<Rightarrow> int \<Rightarrow> nat \<Rightarrow> nat \<Rightarrow> float32 list \<Rightarrow> float32 list" where
  "resample_ref K ir sr m ch X =
    (let num = ir div gcd ir sr; den = sr div gcd ir sr; n = length X div m; h = nat (k_halfTaps K ir sr);
         S = replicate (h * m) 0 @ X @ replicate (h * m) 0
     in if ir = sr then concat (map (\<lambda>f. spreadChannels m ch (\<lambda>c. X ! (f * m + c))) [0..<n])
        else concat (map (\<lambda>k. spreadChannels m ch (\<lambda>c.
          k_interp K ir sr (int k * num mod den) den
            (map (\<lambda>i. S ! (nat (int k * num div den + 1 + int i) * m + c)) [0..<2 * h])))
          [0..<ceil_div (int n * sr) ir]))"

lemma ceil_div_cong: "0 < b \<Longrightarrow> 0 < b' \<Longrightarrow> (\<And>k. int k * b < a \<longleftrightarrow> int k * b' < a') \<Longrightarrow> ceil_div a b = ceil_div a' b'"
  by (metis ceil_div_less linorder_neqE_nat nat_neq_iff)

lemma stream_out_ref:
  assumes r: "stream_cfg K r" and K: "kernel_ok K (r_inRate r) (r_sampleRate r)" and X: "length X mod nat (r_mid r) = 0"
    and st: "r_stepNum r = r_inRate r div gcd (r_inRate r) (r_sampleRate r)"
      "r_stepDen r = r_sampleRate r div gcd (r_inRate r) (r_sampleRate r)"
  shows "stream_out K r (prime K r @ X @ prime K r) =
    resample_ref K (r_inRate r) (r_sampleRate r) (nat (r_mid r)) (nat (r_channels r)) X"
proof -
  define m h d s where "m = nat (r_mid r)" and "h = k_halfTaps K (r_inRate r) (r_sampleRate r)"
    and "d = r_stepDen r" and "s = r_stepNum r"
  have pos: "0 < m" "0 < r_inRate r" "0 < r_sampleRate r" "0 < s" "0 < d" "r_inRate r * d = r_sampleRate r * s"
    using r by (auto simp: stream_cfg_def validate_None m_def s_def d_def)
  have h: "1 \<le> h" using K by (simp add: kernel_ok_def h_def)
  show ?thesis
  proof (cases "r_inRate r = r_sampleRate r")
    case True
    then have f: "r_filter r = None" using r by (simp add: stream_cfg_def)
    show ?thesis
      unfolding stream_out_def resample_ref_def prime_def f by (simp add: True Let_def)
  next
    case False
    then have f: "r_filter r = Some h" using r by (simp add: stream_cfg_def h_def)
    have P: "prime K r = replicate (nat h * m) 0"
      using f h by (simp add: prime_def m_def nat_mult_distrib)
    define S where "S = replicate (nat h * m) 0 @ X @ replicate (nat h * m) (0::float32)"
    define n where "n = length X div m"
    have "length X = n * m" using X by (simp add: n_def m_def dvd_eq_mod_eq_0[symmetric])
    then have "length S = (n + 2 * nat h) * m" by (simp add: S_def add_mult_distrib)
    then have F: "length S div m = n + 2 * nat h" using pos by simp
    have due: "due h r S = ceil_div (int n * r_sampleRate r) (r_inRate r)"
    proof -
      have "due h r S = ceil_div (int n * d) s" using F h by (simp add: due_def m_def[symmetric] d_def s_def)
      also have "\<dots> = ceil_div (int n * r_sampleRate r) (r_inRate r)"
      proof (rule ceil_div_cong)
        fix k
        have "int k * s < int n * d \<longleftrightarrow> r_sampleRate r * (int k * s) < r_sampleRate r * (int n * d)" using pos by simp
        also have "r_sampleRate r * (int k * s) = d * (int k * r_inRate r)" using pos(6) by (simp add: mult.commute mult.left_commute)
        also have "r_sampleRate r * (int n * d) = d * (int n * r_sampleRate r)" by simp
        also have "d * (int k * r_inRate r) < d * (int n * r_sampleRate r) \<longleftrightarrow> int k * r_inRate r < int n * r_sampleRate r"
          using pos by simp
        finally show "int k * s < int n * d \<longleftrightarrow> int k * r_inRate r < int n * r_sampleRate r" .
      qed (use pos in auto)
      finally show ?thesis .
    qed
    have idx: "(h * d + int k * s) div d - h + 1 + int i = int k * s div d + 1 + int i" "(h * d + int k * s) mod d = int k * s mod d" for k i
      using pos by simp_all
    show ?thesis
      unfolding stream_out_def f option.case P S_def[symmetric] ref_out_def ref_frame_def due d_def[symmetric]
        s_def[symmetric] m_def[symmetric] idx resample_ref_def Let_def
      using False h st by (simp add: S_def n_def h_def d_def s_def m_def nat_mult_distrib)
  qed
qed

section \<open>Properties\<close>

lemma convert_stream_ok:
  assumes v: "validate format sr ch = None" "0 \<le> fs" "0 < ir" "0 < ic" and K: "kernel_ok K ir sr"
    and ps: "\<forall>p \<in> set ps. same_input ir ic p"
  defines "m \<equiv> nat (min ic ch)"
  shows "\<exists>outs. convert_stream K format sr ch fs ps = Some outs \<and>
    concat (map Bytes outs) = enc format (resample_ref K ir sr m (nat ch) (mixdown K m (nat ic) (concat (map floats ps)))) \<and>
    frames_ok fs True outs"
  using ps
proof (induction ps)
  case Nil
  have "resample_ref K ir sr m (nat ch) (mixdown K m (nat ic) []) = []"
    using v(3) by (simp add: resample_ref_def mixdown_def downmix_def Let_def ceil_div_zero)
  with v show ?case
    by (simp add: convert_stream_def NewStreamResampler_def Flush_sr_def frames_ok_def enc_def)
next
  case (Cons p ps)
  obtain r0 where r0: "NewStreamResampler format sr ch fs = Some r0" "\<not> r_configured r0" "r_format r0 = format"
      "r_sampleRate r0 = sr" "r_channels r0 = ch" "r_frameSize r0 = fs"
    using v(1,2) by (simp add: NewStreamResampler_def)
  have p: "pcm_wf p" "p_SampleRate p = ir" "p_Channels p = ic" using Cons.prems by (auto simp: same_input_def)
  show ?case
  proof (cases "IsEmpty p")
    case True
    then have "convert_stream K format sr ch fs (p # ps) = convert_stream K format sr ch fs ps"
      by (auto simp: convert_stream_def Write_sr_def split: option.splits prod.splits)
    moreover have "floats p = []"
      using True p(1) floats_length[OF p(1)] by (auto elim!: pcm_wf_cases simp: IsEmpty_def NumSamples_def floats_def ToFloat32_def)
    ultimately show ?thesis using Cons by simp
  next
    case False
    define r where "r = configure K ir ic r0"
    note c = configure_ok[of r0 ir ic K, unfolded r0(3-6), OF v K, folded r_def]
    have mx: "nat (r_mid r) = m" "nat (r_inChannels r) = nat ic" using c by (simp_all add: m_def)
    have step: "write_all K r0 (p # ps) = write_all K r (p # ps)"
    proof -
      have cfg: "stream_cfg K r" using c(1) by (auto simp: stream_run_def dest: stream_inv_cfg)
      have "Write_sr K r0 p = Write_sr K r p"
        using Write_sr_fresh[OF r0(2) p(1) False] Write_sr_step[OF cfg p(1) False] p c by (simp add: r_def)
      then show ?thesis by simp
    qed
    have "kernel_ok K (r_inRate r) (r_sampleRate r)" "\<forall>p \<in> set (p # ps). same_input (r_inRate r) (r_inChannels r) p"
      using K Cons.prems c by simp_all
    from write_all_ok[OF c(1) this] obtain outs r' X b pd i q e where w: "write_all K r (p # ps) = Some (outs, r')"
        "r' = r\<lparr>r_buf := b, r_pending := pd, r_posInt := i, r_posFrac := q, r_emitted := e\<rparr>"
        "stream_run K r' (prime K r @ concat (map (mixdown K m (nat ic) \<circ> floats) (p # ps))) X"
        "concat (map Bytes outs) = enc format X" "frames_ok fs False outs"
      unfolding mx by (auto simp: c)
    define Y where "Y = mixdown K m (nat ic) (concat (map floats (p # ps)))"
    have whole: "\<forall>Z \<in> set (map floats (p # ps)). length Z mod nat ic = 0"
    proof
      fix Z assume "Z \<in> set (map floats (p # ps))"
      then obtain q where q: "q \<in> set (p # ps)" "Z = floats q" by auto
      with Cons.prems have "pcm_wf q" "p_Channels q = ic" by (auto simp: same_input_def)
      then have "length Z = nat (Len q) * nat ic"
        using floats_length[of q] pcm_wf_pos[of q] by (simp add: q nat_mult_distrib[symmetric])
      then show "length Z mod nat ic = 0" by simp
    qed
    have Y: "concat (map (mixdown K m (nat ic) \<circ> floats) (p # ps)) = Y"
      using mixdown_concat[OF _ whole, of K m] v(4) by (simp only: Y_def map_map)
    have pr: "prime K r' = prime K r" using w(2) by (cases "r_filter r") (simp_all add: prime_def)
    have st: "r_inRate r' = ir" "r_sampleRate r' = sr" "r_format r' = format" "r_frameSize r' = fs"
      using w(2) c by auto
    obtain tl s X' where f: "Flush_sr K r' = Some (tl, s)" "concat (map Bytes tl) = enc format X'"
        "frames_ok fs True tl" "X @ X' = stream_out K r' ((prime K r @ Y) @ prime K r)"
      using Flush_sr_ok[OF w(3)[unfolded Y]] K unfolding st pr by metis
    have "length Y mod m = 0" 
    proof -
      have "length (concat Zs) mod nat ic = 0" if "\<forall>Z \<in> set Zs. length Z mod nat ic = 0" for Zs :: "float32 list list"
        using that by (induction Zs) (auto simp: mod_add_eq[symmetric])
      from mixdown_length[OF _ this[OF whole], of K m] v(4) show ?thesis by (simp add: Y_def)
    qed
    then have "stream_out K r (prime K r @ Y @ prime K r) = resample_ref K ir sr m (nat ch) Y"
    proof -
      assume Ym: "length Y mod m = 0"
      have "stream_cfg K r" using c(1) by (auto simp: stream_run_def dest: stream_inv_cfg)
      moreover have "kernel_ok K (r_inRate r) (r_sampleRate r)" using K c by simp
      moreover have "length Y mod nat (r_mid r) = 0" using Ym mx by simp
      ultimately show ?thesis using stream_out_ref[of K r Y] unfolding mx c(2,5,6) by (simp add: c)
    qed
    then have "X @ X' = resample_ref K ir sr m (nat ch) Y" using f(4) w(2) by simp
    then have "concat (map Bytes (outs @ tl)) = enc format (resample_ref K ir sr m (nat ch) Y)"
      using w(4) f(2) by (simp add: enc_append[symmetric])
    moreover have "frames_ok fs True (outs @ tl)"
      using w(5) f(3) by (cases "tl = []") (auto simp: frames_ok_def butlast_append dest: in_set_butlastD)
    moreover have "convert_stream K format sr ch fs (p # ps) = Some (outs @ tl)"
      using r0(1) step w(1) f(1) by (simp add: convert_stream_def)
    ultimately show ?thesis unfolding Y_def by blast
  qed
qed

lemma resample_ref_length:
  assumes "0 < ir" "0 < sr" "0 < m"
  shows "length (resample_ref K ir sr m ch X) = ceil_div (int (length X div m) * sr) ir * ch"
proof (cases "ir = sr")
  case True
  have "ceil_div (int n * sr) sr = n" for n
    using ceil_div_cong[of sr 1 "int n * sr" "int n"] assms by (simp add: ceil_div_def)
  then show ?thesis by (simp add: True resample_ref_def Let_def length_blocks)
next
  case False
  then show ?thesis by (simp add: resample_ref_def Let_def length_blocks)
qed

lemma enc_length: "Valid f \<Longrightarrow> length (enc f xs) = length xs * nat (BytesPerSample f)"
  using length_concat_blocks[of le_bytes32 4 xs] length_concat_blocks[of le_bytes16 2 "map f32ToS16 xs"]
  by (auto simp: Valid_def enc_def BytesPerSample_def)

lemma floats_total:
  assumes "0 < ic" "\<forall>p \<in> set ps. same_input ir ic p"
  shows "int (length (concat (map floats ps))) = sum_list (map Len ps) * ic"
  using assms(2)
proof (induction ps)
  case (Cons p ps)
  then show ?case using floats_length[of p] by (simp add: same_input_def distrib_right)
qed simp

lemma output_length:
  assumes v: "validate format sr ch = None" "0 < ir" "0 < ic" and ps: "\<forall>p \<in> set ps. same_input ir ic p"
  defines "m \<equiv> nat (min ic ch)"
  shows "length (enc format (resample_ref K ir sr m (nat ch) (mixdown K m (nat ic) (concat (map floats ps))))) =
    ceil_div (sum_list (map Len ps) * sr) ir * frame_size format ch"
proof -
  define N where "N = sum_list (map Len ps)"
  have f: "Valid format" "0 < sr" "0 < ch" using v by (auto simp: validate_None)
  have N0: "0 \<le> N" unfolding N_def using ps pcm_wf_pos by (intro sum_list_nonneg) (auto simp: same_input_def)
  have m: "0 < m" using v f by (simp add: m_def)
  have L: "length (concat (map floats ps)) = nat N * nat ic"
    using floats_total[OF v(3) ps] N0 v(3) by (simp add: N_def nat_mult_distrib[symmetric])
  then have "length (mixdown K m (nat ic) (concat (map floats ps))) div m = nat N"
    using mixdown_length[of "nat ic" "concat (map floats ps)" K m] v(3) m by simp
  then show ?thesis
    using resample_ref_length[OF v(2) f(2) m, of K "nat ch"] enc_length[OF f(1)] f N0
    by (simp add: N_def[symmetric] nat_mult_distrib BytesPerSample_def Valid_def ac_simps split: Format.split)
qed

text \<open>C7: streaming conversion does not depend on how the stream was cut. For any filter kernel of sufficient
  reach, any input buffers of one rate and channel count and any frame size, every \<open>Write\<close> and the \<open>Flush\<close>
  succeed without a panic, and the bytes of all output buffers are those of the one-formula conversion
  of the concatenated input. They last exactly as long as the input, rounded up to a frame, without
  drift however long the stream is; with a frame size set, every buffer but the last holds exactly that many
  frames.\<close>

theorem resample_stream_exact:
  assumes "validate format sampleRate channels = None" "0 \<le> frameSize" "0 < ir" "0 < ic"
    and "kernel_ok K ir sampleRate"
    and "list_all (\<lambda>p. pcm_wf p \<and> p_SampleRate p = ir \<and> p_Channels p = ic) ps"
  shows "\<exists>outs. convert_stream K format sampleRate channels frameSize ps = Some outs \<and>
    concat (map Bytes outs) = enc format (resample_ref K ir sampleRate (nat (min ic channels)) (nat channels)
      (mixdown K (nat (min ic channels)) (nat ic) (concat (map floats ps)))) \<and>
    length (concat (map Bytes outs)) =
      ceil_div (sum_list (map Len ps) * sampleRate) ir * nat (BytesPerSample format * channels) \<and>
    (0 < frameSize \<longrightarrow> list_all (\<lambda>p. Len p = frameSize) (butlast outs))"
proof -
  have ps: "\<forall>p \<in> set ps. same_input ir ic p" using assms(6) by (auto simp: same_input_def list_all_iff)
  show ?thesis
    using convert_stream_ok[OF assms(1-5) ps] output_length[OF assms(1,3,4) ps, of K]
    by (auto simp: list_all_iff frames_ok_def)
qed

text \<open>A kernel that takes the sample at the position, without interpolation.\<close>

definition nearest :: kernel where
  "nearest = \<lparr>k_halfTaps = (\<lambda>_ _. 1), k_interp = (\<lambda>_ _ _ _ xs. hd xs), k_mean = hd\<rparr>"

theorem resample_stream_exact_witness:
  "(\<lambda>p q. kernel_ok nearest 8000 16000 \<and> pcm_wf p \<and> pcm_wf q \<and>
     (\<exists>outs. convert_stream nearest FormatF32 16000 1 3 [p, q] = Some outs \<and>
        concat (map Bytes outs) = enc FormatF32 [5, 5, 7, 7] \<and> list_all (\<lambda>p. Len p = 3) (butlast outs)))
   (zero_PCM\<lparr>p_Format := FormatF32, p_SampleRate := 8000, p_Channels := 1, p_f32 := [5]\<rparr>)
   (zero_PCM\<lparr>p_Format := FormatF32, p_SampleRate := 8000, p_Channels := 1, p_f32 := [7]\<rparr>)"
proof -
  define p q where "p = zero_PCM\<lparr>p_Format := FormatF32, p_SampleRate := 8000, p_Channels := 1, p_f32 := [5]\<rparr>"
    and "q = zero_PCM\<lparr>p_Format := FormatF32, p_SampleRate := 8000, p_Channels := 1, p_f32 := [7]\<rparr>"
  have wf: "pcm_wf p" "pcm_wf q" "p_SampleRate p = 8000" "p_SampleRate q = 8000" "p_Channels p = 1" "p_Channels q = 1"
    by (simp_all add: p_def q_def pcm_wf_def zero_PCM_def validate_def Valid_def NumSamples_def)
  have fl: "floats p = [5]" "floats q = [7]" by (simp_all add: p_def q_def floats_def ToFloat32_def zero_PCM_def)
  have k: "kernel_ok nearest 8000 16000" by (simp add: kernel_ok_def nearest_def)
  have v: "validate FormatF32 16000 1 = None" by (simp add: validate_def Valid_def)
  have ref: "resample_ref nearest 8000 16000 1 1 (mixdown nearest 1 1 [5, 7]) = [5, 5, 7, 7]"
    by code_simp
  show ?thesis
    using resample_stream_exact[OF v, of 3 8000 1 nearest "[p, q]"] wf k ref
    unfolding p_def[symmetric] q_def[symmetric] by (simp add: fl) blast
qed

end
