(* ===== verification/Wav.thy ===== *)
theory Wav
  imports Resample
begin

text \<open>
  WAV files, \<open>wav.go\<close> and \<open>wavwriter.go\<close> of package \<open>audio\<close>: writing a buffer as a RIFF file, reading one back,
  and the writer that records a stream into a file and fills in the sizes when it is closed. Header
  fields are 16 and 32 bits wide and wrap. A file is its bytes and a position; what the operating
  system may refuse is left out, as its errors only pass through. The narrowing of 64-bit floats to 32
  bits is an argument.
\<close>

section \<open>Writing a buffer\<close>

datatype wav_error = AudioError audio_error | ErrNotWAV | ShortFmtChunk | NoFmtChunk | NoDataChunk | UnsupportedEncoding
  | UnsupportedBitDepth | WriterClosed

definition wavFormatPCM :: uint16 where "wavFormatPCM = 1"
definition wavFormatFloat :: uint16 where "wavFormatFloat = 3"
definition wavFormatExtension :: uint16 where "wavFormatExtension = 0xFFFE"

text \<open>The chunk names as bytes: RIFF, WAVE, "fmt ", fact and data.\<close>

definition tag_RIFF :: "byte list" where "tag_RIFF = [0x52, 0x49, 0x46, 0x46]"
definition tag_WAVE :: "byte list" where "tag_WAVE = [0x57, 0x41, 0x56, 0x45]"
definition tag_fmt :: "byte list" where "tag_fmt = [0x66, 0x6D, 0x74, 0x20]"
definition tag_fact :: "byte list" where "tag_fact = [0x66, 0x61, 0x63, 0x74]"
definition tag_data :: "byte list" where "tag_data = [0x64, 0x61, 0x74, 0x61]"

definition writeChunk :: "byte list \<Rightarrow> byte list \<Rightarrow> byte list" where
  "writeChunk name payload =
     name @ le_bytes32 (word_of_nat (length payload)) @ payload @ (if length payload mod 2 = 1 then [0] else [])"

definition fmt_chunk :: "Format \<Rightarrow> int \<Rightarrow> int \<Rightarrow> byte list" where
  "fmt_chunk format rate channels =
    (let formatTag = (if format = FormatF32 then wavFormatFloat else wavFormatPCM);
         bitsPerSample = word_of_int (BytesPerSample format * 8) :: uint16;
         blockAlign = word_of_int (channels * BytesPerSample format) :: uint16
     in le_bytes16 formatTag @ le_bytes16 (word_of_int channels) @ le_bytes32 (word_of_int rate) @
        le_bytes32 (word_of_int rate * ucast blockAlign) @ le_bytes16 blockAlign @ le_bytes16 bitsPerSample)"

definition WriteWAV :: "PCM \<Rightarrow> wav_error + byte list" where
  "WriteWAV p =
    (case validate (p_Format p) (p_SampleRate p) (p_Channels p) of
       Some e \<Rightarrow> Inl (AudioError e)
     | None \<Rightarrow>
        (let data = Bytes p;
             fmtChunk = fmt_chunk (p_Format p) (p_SampleRate p) (p_Channels p);
             factChunk = (if p_Format p = FormatF32 then Some (le_bytes32 (word_of_int (Len p))) else None);
             body = 4 + (8 + length fmtChunk) + (case factChunk of None \<Rightarrow> 0 | Some f \<Rightarrow> 8 + length f) +
               (8 + length data + length data mod 2)
         in Inr (tag_RIFF @ le_bytes32 (word_of_nat body) @ tag_WAVE @ writeChunk tag_fmt fmtChunk @
              (case factChunk of None \<Rightarrow> [] | Some f \<Rightarrow> writeChunk tag_fact f) @ writeChunk tag_data data)))"

section \<open>Reading a file\<close>

record wav =
  wav_formatTag :: uint16
  wav_channels :: int
  wav_sampleRate :: int
  wav_bitsPerSample :: int
  wav_payload :: "byte list"
  wav_haveFormat :: bool
  wav_havePayld :: bool

definition le16_at :: "byte list \<Rightarrow> nat \<Rightarrow> uint16" where
  "le16_at b i = le_uint16 (b ! i) (b ! (i + 1))"

definition le32_at :: "byte list \<Rightarrow> nat \<Rightarrow> uint32" where
  "le32_at b i = le_uint32 (b ! i) (b ! (i + 1)) (b ! (i + 2)) (b ! (i + 3))"

definition wav_chunk :: "byte list \<Rightarrow> byte list \<Rightarrow> wav \<Rightarrow> wav_error + wav" where
  "wav_chunk name chunk w =
    (if name = tag_fmt then
       if length chunk < 16 then Inl ShortFmtChunk
       else
         let formatTag = le16_at chunk 0 in
         Inr (w\<lparr>wav_formatTag := (if formatTag = wavFormatExtension \<and> length chunk \<ge> 26 then le16_at chunk 24 else formatTag),
                wav_channels := uint (le16_at chunk 2), wav_sampleRate := uint (le32_at chunk 4),
                wav_bitsPerSample := uint (le16_at chunk 14), wav_haveFormat := True\<rparr>)
     else if name = tag_data then Inr (w\<lparr>wav_payload := chunk, wav_havePayld := True\<rparr>)
     else Inr w)"

text \<open>The chunk loop over the bytes from the current position on; a chunk that claims more than there is
  is taken to be the rest.\<close>

function read_chunks :: "byte list \<Rightarrow> wav \<Rightarrow> wav_error + wav" where
  "read_chunks rest w =
    (if length rest < 8 then Inr w
     else
       let name = take 4 rest; claimed = unat (le32_at rest 4);
           rest = drop 8 rest;
           sz = (if claimed > length rest then length rest else claimed)
       in case wav_chunk name (take sz rest) w of
            Inl e \<Rightarrow> Inl e
          | Inr w \<Rightarrow> read_chunks (drop (sz + sz mod 2) rest) w)"
  by pat_completeness auto
termination
  by (relation "measure (\<lambda>(rest, w). length rest)") auto

declare read_chunks.simps [simp del]

definition wav_sample :: "nat \<Rightarrow> byte list \<Rightarrow> int16" where
  "wav_sample width b =
    (if width = 1 then word_of_int (uint (b ! 0) - 128) * 256
     else if width = 3 then word_of_int ((uint (b ! 0) + uint (b ! 1) * 2 ^ 8 + sint (b ! 2) * 2 ^ 16) div 2 ^ 8)
     else word_of_int (sint (le32_at b 0) div 2 ^ 16))"

definition from_samples :: "int16 list \<Rightarrow> int \<Rightarrow> int \<Rightarrow> wav_error + PCM" where
  "from_samples xs rate channels =
    (case FromInt16 xs rate channels of None \<Rightarrow> Inl (AudioError BadSampleRate) | Some p \<Rightarrow> Inr p)"

definition of_audio :: "audio_error + PCM \<Rightarrow> wav_error + PCM" where
  "of_audio r = (case r of Inl e \<Rightarrow> Inl (AudioError e) | Inr p \<Rightarrow> Inr p)"

definition wavFromInt :: "byte list \<Rightarrow> int \<Rightarrow> int \<Rightarrow> int \<Rightarrow> wav_error + PCM" where
  "wavFromInt payload bits rate channels =
    (let width = tdiv bits 8 in
     if width < 1 \<or> width > 4 \<or> tmod bits 8 \<noteq> 0 then Inl UnsupportedBitDepth
     else if width = 2 then of_audio (FromBytes payload FormatS16 rate channels)
     else
       let k = nat width; payload = take (length payload - length payload mod (k * nat channels)) payload
       in from_samples (map (\<lambda>i. wav_sample k (take k (drop (i * k) payload))) [0..<length payload div k]) rate channels)"

definition wavFromFloat64 :: "(64 word \<Rightarrow> float32) \<Rightarrow> byte list \<Rightarrow> int \<Rightarrow> int \<Rightarrow> wav_error + PCM" where
  "wavFromFloat64 narrow payload rate channels =
    (let payload = take (length payload - length payload mod (8 * nat channels)) payload;
         out = map (\<lambda>i. narrow (ucast (le32_at payload (8 * i)) + push_bit 32 (ucast (le32_at payload (8 * i + 4)))))
           [0..<length payload div 8]
     in case FromFloat32 out rate channels of None \<Rightarrow> Inl (AudioError BadSampleRate) | Some p \<Rightarrow> Inr p)"

definition ReadWAV :: "(64 word \<Rightarrow> float32) \<Rightarrow> byte list \<Rightarrow> wav_error + PCM" where
  "ReadWAV narrow data =
    (if length data < 12 \<or> take 4 data \<noteq> tag_RIFF \<or> take 4 (drop 8 data) \<noteq> tag_WAVE then Inl ErrNotWAV
     else
       case read_chunks (drop 12 data)
              \<lparr>wav_formatTag = 0, wav_channels = 0, wav_sampleRate = 0, wav_bitsPerSample = 0, wav_payload = [],
               wav_haveFormat = False, wav_havePayld = False\<rparr> of
         Inl e \<Rightarrow> Inl e
       | Inr w \<Rightarrow>
          (if \<not> wav_haveFormat w then Inl NoFmtChunk
           else if \<not> wav_havePayld w then Inl NoDataChunk
           else case validate FormatS16 (wav_sampleRate w) (wav_channels w) of
             Some e \<Rightarrow> Inl (AudioError e)
           | None \<Rightarrow>
              (if wav_formatTag w = wavFormatFloat \<and> wav_bitsPerSample w = 32
               then of_audio (FromBytes (wav_payload w) FormatF32 (wav_sampleRate w) (wav_channels w))
               else if wav_formatTag w = wavFormatFloat \<and> wav_bitsPerSample w = 64
               then wavFromFloat64 narrow (wav_payload w) (wav_sampleRate w) (wav_channels w)
               else if wav_formatTag w = wavFormatPCM
               then wavFromInt (wav_payload w) (wav_bitsPerSample w) (wav_sampleRate w) (wav_channels w)
               else Inl UnsupportedEncoding)))"

section \<open>The incremental writer\<close>

record wfile =
  content :: "byte list"
  at :: nat

definition file_write :: "byte list \<Rightarrow> wfile \<Rightarrow> wfile" where
  "file_write b f = f\<lparr>content := take (at f) (content f) @ b @ drop (at f + length b) (content f), at := at f + length b\<rparr>"

definition seek_to :: "nat \<Rightarrow> wfile \<Rightarrow> wfile" where "seek_to n f = f\<lparr>at := n\<rparr>"
definition seek_end :: "wfile \<Rightarrow> wfile" where "seek_end f = f\<lparr>at := length (content f)\<rparr>"

record WAVWriter =
  ww_file :: wfile
  ww_resampler :: StreamResampler
  ww_format :: Format
  ww_rate :: int
  ww_channels :: int
  ww_written :: int
  ww_closed :: bool

definition NewWAVWriter :: "Format \<Rightarrow> int \<Rightarrow> int \<Rightarrow> wav_error + WAVWriter" where
  "NewWAVWriter format sampleRate channels =
    (case validate format sampleRate channels of
       Some e \<Rightarrow> Inl (AudioError e)
     | None \<Rightarrow>
        (case WriteWAV (zero_PCM\<lparr>p_Format := format, p_SampleRate := sampleRate, p_Channels := channels\<rparr>) of
           Inl e \<Rightarrow> Inl e
         | Inr header \<Rightarrow>
            (case NewStreamResampler format sampleRate channels 0 of
               None \<Rightarrow> Inl (AudioError BadSampleRate)
             | Some r \<Rightarrow> Inr \<lparr>ww_file = file_write header \<lparr>content = [], at = 0\<rparr>, ww_resampler = r, ww_format = format,
                 ww_rate = sampleRate, ww_channels = channels, ww_written = 0, ww_closed = False\<rparr>)))"

definition emit_frame :: "PCM \<Rightarrow> WAVWriter \<Rightarrow> WAVWriter" where
  "emit_frame f w =
    (if IsEmpty f then w
     else w\<lparr>ww_file := file_write (Bytes f) (ww_file w),
            ww_written := i64 (ww_written w + NumSamples f * BytesPerSample (ww_format w))\<rparr>)"

definition emit :: "PCM list \<Rightarrow> WAVWriter \<Rightarrow> WAVWriter" where
  "emit frames w = fold emit_frame frames w"

text \<open>\<open>None\<close> is a panic of the resampler.\<close>

definition Write_ww :: "kernel \<Rightarrow> PCM \<Rightarrow> WAVWriter \<Rightarrow> (wav_error option \<times> WAVWriter) option" where
  "Write_ww K pcm w =
    (if ww_closed w then Some (Some WriterClosed, w)
     else
       case Write_sr K (ww_resampler w) pcm of
         None \<Rightarrow> None
       | Some (Inl e, r) \<Rightarrow> Some (Some (AudioError e), w\<lparr>ww_resampler := r\<rparr>)
       | Some (Inr frames, r) \<Rightarrow> Some (None, emit frames (w\<lparr>ww_resampler := r\<rparr>)))"

definition Frames_ww :: "WAVWriter \<Rightarrow> int" where
  "Frames_ww w = tdiv (ww_written w) (BytesPerSample (ww_format w) * ww_channels w)"

definition Duration_ww :: "WAVWriter \<Rightarrow> duration" where
  "Duration_ww w = frames_duration (Frames_ww w) (ww_rate w)"

definition patch :: "nat \<Rightarrow> uint32 \<Rightarrow> WAVWriter \<Rightarrow> WAVWriter" where
  "patch offset value w = w\<lparr>ww_file := file_write (le_bytes32 value) (seek_to offset (ww_file w))\<rparr>"

definition patchSizes :: "WAVWriter \<Rightarrow> WAVWriter" where
  "patchSizes w =
    (let w = (if tmod (ww_written w) 2 = 1 then w\<lparr>ww_file := file_write [0] (ww_file w)\<rparr> else w);
         (dataSizeAt, headerBytes) = (if ww_format w = FormatF32 then (52, 56) else (40, 44));
         padded = ww_written w + tmod (ww_written w) 2;
         w = patch 4 (word_of_int (headerBytes - 8 + padded)) w;
         w = patch dataSizeAt (word_of_int (ww_written w)) w;
         w = (if ww_format w = FormatF32 then patch 44 (word_of_int (Frames_ww w)) w else w)
     in w\<lparr>ww_file := seek_end (ww_file w)\<rparr>)"

definition Close_ww :: "kernel \<Rightarrow> WAVWriter \<Rightarrow> WAVWriter option" where
  "Close_ww K w =
    (if ww_closed w then Some w
     else
       let w = w\<lparr>ww_closed := True\<rparr> in
       case Flush_sr K (ww_resampler w) of
         None \<Rightarrow> None
       | Some (tail, r) \<Rightarrow> Some (patchSizes (emit tail (w\<lparr>ww_resampler := r\<rparr>))))"

section \<open>Reading what was written\<close>

lemma le_at [simp]:
  "le16_at (le_bytes16 w @ bs) 0 = w" "le32_at (le_bytes32 v @ bs) 0 = v"
  by (simp_all add: le16_at_def le32_at_def le_bytes16_def be_bytes16_def le_bytes32_def be_bytes32_def bytes_rt)

lemma le_at_skip:
  "length as \<le> i \<Longrightarrow> le16_at (as @ bs) i = le16_at bs (i - length as)"
  "length as \<le> i \<Longrightarrow> le32_at (as @ bs) i = le32_at bs (i - length as)"
  by (simp_all add: le16_at_def le32_at_def nth_append Suc_diff_le)

lemma length_writeChunk: "length (writeChunk n b) = length n + 4 + length b + length b mod 2"
  by (simp add: writeChunk_def)

text \<open>The reader takes a written chunk off the front.\<close>

lemma read_chunks_write:
  assumes n: "length name = 4" and b: "length payload < 2 ^ 32"
  shows "read_chunks (writeChunk name payload @ rest) w =
    (case wav_chunk name payload w of Inl e \<Rightarrow> Inl e | Inr w \<Rightarrow> read_chunks rest w)"
proof -
  define body where "body = payload @ (if length payload mod 2 = 1 then [0] else []) @ rest"
  define bs where "bs = writeChunk name payload @ rest"
  have bs: "bs = name @ le_bytes32 (word_of_nat (length payload)) @ body"
    by (simp add: bs_def body_def writeChunk_def)
  have len: "\<not> length bs < 8" using n by (simp add: bs)
  have "le32_at bs 4 = word_of_nat (length payload)" using n by (simp add: bs le_at_skip)
  then have sz: "unat (le32_at bs 4) = length payload"
    using b by (simp add: unat_of_nat take_bit_nat_eq_self)
  have parts: "take 4 bs = name" "drop 8 bs = body" using n by (simp_all add: bs)
  have "length payload \<le> length body" by (simp add: body_def)
  moreover have "take (length payload) body = payload" by (simp add: body_def)
  moreover have "drop (length payload + length payload mod 2) body = rest"
    by (cases "length payload mod 2 = 1") (auto simp: body_def not_mod_2_eq_1_eq_0)
  ultimately show ?thesis
    using len unfolding bs_def[symmetric]
    by (subst read_chunks.simps) (simp add: sz parts Let_def split: sum.split)
qed

lemma read_chunks_end [simp]: "read_chunks [] w = Inr w"
  by (subst read_chunks.simps) simp

lemma length_fmt_chunk [simp]: "length (fmt_chunk f sr ch) = 16"
  by (simp add: fmt_chunk_def Let_def)

lemma fmt_chunk_fields:
  "le16_at (fmt_chunk f sr ch) 0 = (if f = FormatF32 then wavFormatFloat else wavFormatPCM)"
  "le16_at (fmt_chunk f sr ch) 2 = word_of_int ch" "le32_at (fmt_chunk f sr ch) 4 = word_of_int sr"
  "le16_at (fmt_chunk f sr ch) 14 = word_of_int (BytesPerSample f * 8)"
proof -
  show "le16_at (fmt_chunk f sr ch) 14 = word_of_int (BytesPerSample f * 8)"
    using le_at(1)[where bs = "[]"] by (simp add: fmt_chunk_def Let_def le_at_skip)
qed (simp_all add: fmt_chunk_def Let_def le_at_skip)

lemma tags [simp]: "length tag_RIFF = 4" "length tag_WAVE = 4" "length tag_fmt = 4" "length tag_fact = 4" "length tag_data = 4"
  "tag_data \<noteq> tag_fmt" "tag_fact \<noteq> tag_fmt" "tag_fact \<noteq> tag_data"
  by (simp_all add: tag_RIFF_def tag_WAVE_def tag_fmt_def tag_fact_def tag_data_def)

text \<open>The file with the given samples, \<open>n\<close> frames long.\<close>

definition wav_image :: "Format \<Rightarrow> int \<Rightarrow> int \<Rightarrow> int \<Rightarrow> byte list \<Rightarrow> byte list" where
  "wav_image f sr ch n data =
     tag_RIFF @ le_bytes32 (word_of_nat ((if f = FormatF32 then 48 else 36) + length data + length data mod 2)) @ tag_WAVE @
     writeChunk tag_fmt (fmt_chunk f sr ch) @
     (if f = FormatF32 then writeChunk tag_fact (le_bytes32 (word_of_int n)) else []) @ writeChunk tag_data data"

lemma WriteWAV_image:
  "validate (p_Format p) (p_SampleRate p) (p_Channels p) = None \<Longrightarrow>
     WriteWAV p = Inr (wav_image (p_Format p) (p_SampleRate p) (p_Channels p) (Len p) (Bytes p))"
  by (simp add: WriteWAV_def wav_image_def Let_def add.assoc)

lemma ReadWAV_image:
  assumes v: "validate f sr ch = None" and b: "sr < 2 ^ 32" "ch < 2 ^ 16" "length data < 2 ^ 32"
  shows "ReadWAV narrow (wav_image f sr ch n data) = of_audio (FromBytes data f sr ch)"
proof -
  define w0 where "w0 = \<lparr>wav_formatTag = 0, wav_channels = 0, wav_sampleRate = 0, wav_bitsPerSample = 0, wav_payload = [],
               wav_haveFormat = False, wav_havePayld = False\<rparr>"
  have f: "Valid f" "0 < sr" "0 < ch" using v by (auto simp: validate_None)
  have u: "uint (word_of_int ch :: uint16) = ch" "uint (word_of_int sr :: uint32) = sr"
    using f b by (simp_all add: uint_word_of_int)
  define w1 where "w1 = w0\<lparr>wav_formatTag := (if f = FormatF32 then wavFormatFloat else wavFormatPCM), wav_channels := ch,
    wav_sampleRate := sr, wav_bitsPerSample := BytesPerSample f * 8, wav_haveFormat := True\<rparr>"
  have fmt: "wav_chunk tag_fmt (fmt_chunk f sr ch) w0 = Inr w1"
  proof -
    have "uint (word_of_int (BytesPerSample f * 8) :: uint16) = BytesPerSample f * 8"
      using f by (auto simp: Valid_def BytesPerSample_def)
    then show ?thesis
      by (simp add: wav_chunk_def fmt_chunk_fields u w1_def Let_def wavFormatExtension_def wavFormatFloat_def wavFormatPCM_def)
  qed
  have "read_chunks (drop 12 (wav_image f sr ch n data)) w0 = Inr (w1\<lparr>wav_payload := data, wav_havePayld := True\<rparr>)"
  proof -
    have "wav_chunk tag_data data w1 = Inr (w1\<lparr>wav_payload := data, wav_havePayld := True\<rparr>)"
      "wav_chunk tag_fact (le_bytes32 (word_of_int n)) w1 = Inr w1" by (simp_all add: wav_chunk_def)
    then show ?thesis
      using b(3) read_chunks_write[of tag_data data "[]" w1]
      by (simp add: wav_image_def read_chunks_write fmt)
  qed
  moreover have "take 4 (wav_image f sr ch n data) = tag_RIFF" "take 4 (drop 8 (wav_image f sr ch n data)) = tag_WAVE"
      "\<not> length (wav_image f sr ch n data) < 12"
    by (simp_all add: wav_image_def)
  moreover have "validate FormatS16 sr ch = None" using f by (simp add: validate_def Valid_def)
  ultimately show ?thesis
    unfolding ReadWAV_def w0_def[symmetric] using f(1)
    by (auto simp: w1_def Valid_def BytesPerSample_def wavFromInt_def wavFormatFloat_def wavFormatPCM_def tdiv_def tmod_def)
qed

text \<open>C8: a WAV file reads back as the buffer it was written from, exactly, in both sample formats: rate, channels
  and every sample are kept, and the timestamp is zero. The header fields bound the parameters: a
  rate below \<open>2 ^ 32\<close>, fewer than \<open>2 ^ 16\<close> channels and less than \<open>2 ^ 32\<close> bytes of samples.\<close>

theorem wav_roundtrip:
  assumes "pcm_wf p" "p_SampleRate p < 2 ^ 32" "p_Channels p < 2 ^ 16" "length (Bytes p) < 2 ^ 32"
  shows "\<exists>bytes. WriteWAV p = Inr bytes \<and> ReadWAV narrow bytes = Inr (p\<lparr>p_PTS := 0\<rparr>)"
proof -
  have "validate (p_Format p) (p_SampleRate p) (p_Channels p) = None" using assms(1) by (simp add: pcm_wf_def)
  with assms show ?thesis by (simp add: WriteWAV_image ReadWAV_image FromBytes_Bytes of_audio_def)
qed

theorem wav_roundtrip_witness:
  "(\<lambda>p. pcm_wf p \<and> (\<exists>bytes. WriteWAV p = Inr bytes \<and> ReadWAV (\<lambda>_. 0) bytes = Inr (p\<lparr>p_PTS := 0\<rparr>)))
   (zero_PCM\<lparr>p_Format := FormatF32, p_SampleRate := 48000, p_Channels := 2, p_PTS := 7, p_f32 := [0x3F800000, 0xBF000000]\<rparr>)"
proof -
  define p where "p = zero_PCM\<lparr>p_Format := FormatF32, p_SampleRate := 48000, p_Channels := 2, p_PTS := 7,
    p_f32 := [0x3F800000, 0xBF000000]\<rparr>"
  have wf: "pcm_wf p" by (simp add: p_def pcm_wf_def zero_PCM_def validate_def Valid_def NumSamples_def)
  have "p_SampleRate p < 2 ^ 32" "p_Channels p < 2 ^ 16" "length (Bytes p) < 2 ^ 32"
    by (simp_all add: p_def zero_PCM_def Bytes_def)
  from wav_roundtrip[OF wf this] wf show ?thesis unfolding p_def[symmetric] by simp
qed

section \<open>The recorded file\<close>

lemma To_format: "Valid f \<Longrightarrow> p_Format (To f p) = f"
  by (auto simp: Valid_def To_def ToFloat32_def ToInt16_def)

lemma collect_loop_format:
  "Valid (r_format r) \<Longrightarrow> collect_loop r sz final available taken emitted = (out, t, e) \<Longrightarrow> \<forall>p \<in> set out. p_Format p = r_format r"
proof (induction r sz final available taken emitted arbitrary: out t e rule: collect_loop.induct)
  case (1 r sz final available taken emitted)
  define n where "n = min sz (available - taken)"
  show ?case
  proof (cases "taken < available \<and> 0 < sz \<and> \<not> (n < sz \<and> \<not> final)")
    case True
    obtain out' t' e' where rec: "collect_loop r sz final available (taken + n) (i64 (emitted + n)) = (out', t', e')"
      by (cases "collect_loop r sz final available (taken + n) (i64 (emitted + n))")
    have "\<forall>p \<in> set out'. p_Format p = r_format r"
      using 1(1)[OF _ n_def _ refl refl 1(2) rec] True by simp
    moreover have "\<exists>q d. out = (To (r_format r) q)\<lparr>p_PTS := d\<rparr> # out'"
      using 1(3) True rec by (subst (asm) collect_loop.simps) (auto simp: Let_def n_def[symmetric])
    ultimately show ?thesis using To_format[OF 1(2)] by auto
  next
    case False
    then have "out = []" using 1(3) by (subst (asm) collect_loop.simps) (auto simp: Let_def n_def[symmetric] split: if_splits)
    then show ?thesis by simp
  qed
qed

lemma collect_format:
  "Valid (r_format r) \<Longrightarrow> collect final r = (out, r') \<Longrightarrow> (\<forall>p \<in> set out. p_Format p = r_format r) \<and> r_format r' = r_format r"
  by (auto simp: collect_def Let_def split: if_splits prod.splits dest: collect_loop_format)

lemma produce_format: "produce K r = Some r' \<Longrightarrow> r_format r' = r_format r"
  by (auto simp: produce_def produceDirect_def Let_def split: option.splits prod.splits if_splits)

lemma Flush_format:
  assumes v: "Valid (r_format r)" and f: "Flush_sr K r = Some (out, r')"
  shows "(\<forall>p \<in> set out. p_Format p = r_format r) \<and> r_format r' = r_format r"
proof (cases "r_configured r")
  case True
  define s where "s = (case r_filter r of None \<Rightarrow> r | Some h \<Rightarrow> r\<lparr>r_buf := r_buf r @ replicate (nat (h * r_mid r)) 0\<rparr>)"
  from f True obtain t u where p: "produce K s = Some t" "collect True t = (out, u)" "r' = Reset_sr u"
    by (auto simp: Flush_sr_def s_def Let_def split: option.splits prod.splits)
  have "r_format s = r_format r" by (simp add: s_def split: option.split)
  with produce_format[OF p(1)] collect_format[OF _ p(2)] p(3) v show ?thesis by (simp add: Reset_sr_def)
qed (use f in \<open>simp add: Flush_sr_def\<close>)

lemma Write_format:
  assumes v: "Valid (r_format r)" and w: "Write_sr K r p = Some (Inr out, r')"
  shows "(\<forall>p \<in> set out. p_Format p = r_format r) \<and> r_format r' = r_format r"
proof (cases "IsEmpty p")
  case False
  have "validate (p_Format p) (p_SampleRate p) (p_Channels p) = None"
    using w False by (auto simp: Write_sr_def split: option.splits)
  with w False obtain drained s where d: "(if r_configured r \<and> (p_SampleRate p \<noteq> r_inRate r \<or> p_Channels p \<noteq> r_inChannels r)
        then Flush_sr K r else Some ([], r)) = Some (drained, s)"
      and w': "(let r = (if \<not> r_configured s then configure K (p_SampleRate p) (p_Channels p) s else s) in
               case produce K (feed K p r) of
                 None \<Rightarrow> None
               | Some r \<Rightarrow> (let (out, r) = collect False r in Some (Inr (drained @ out), r))) = Some (Inr out, r')"
    by (simp add: Write_sr_def split: option.splits prod.splits)
  have df: "(\<forall>p \<in> set drained. p_Format p = r_format r) \<and> r_format s = r_format r"
    using d Flush_format[OF v, of K drained s] by (auto split: if_splits)
  define c where "c = feed K p (if \<not> r_configured s then configure K (p_SampleRate p) (p_Channels p) s else s)"
  have cf: "r_format c = r_format r" using df by (simp add: c_def feed_def configure_def Let_def)
  from w' obtain t o' where "produce K c = Some t" "collect False t = (o', r')" "out = drained @ o'"
    by (auto simp: c_def Let_def split: option.splits prod.splits)
  with produce_format[of K c t] collect_format[of t False o' r'] cf df v show ?thesis by auto
qed (use w in \<open>simp add: Write_sr_def\<close>)

lemma length_Bytes_format: "Valid f \<Longrightarrow> p_Format p = f \<Longrightarrow> NumSamples p * BytesPerSample f = int (length (Bytes p))"
  using length_concat_blocks[of le_bytes32 4 "p_f32 p"] length_concat_blocks[of le_bytes16 2 "p_s16 p"]
  by (auto simp: Valid_def NumSamples_def Bytes_def BytesPerSample_def)

text \<open>A writer at the end of its file, with \<open>D\<close> written after the header \<open>H\<close>.\<close>

definition recorded :: "byte list \<Rightarrow> byte list \<Rightarrow> WAVWriter \<Rightarrow> bool" where
  "recorded H D w \<longleftrightarrow> ww_file w = \<lparr>content = H @ D, at = length H + length D\<rparr> \<and> ww_written w = int (length D)"

definition add_recorded :: "byte list \<Rightarrow> WAVWriter \<Rightarrow> WAVWriter" where
  "add_recorded D w = w\<lparr>ww_file := \<lparr>content = content (ww_file w) @ D, at = at (ww_file w) + length D\<rparr>,
     ww_written := ww_written w + int (length D)\<rparr>"

lemma add_recorded_simps [simp]:
  "add_recorded [] w = w" "add_recorded D' (add_recorded D w) = add_recorded (D @ D') w"
  "ww_format (add_recorded D w) = ww_format w" "ww_channels (add_recorded D w) = ww_channels w"
  "ww_resampler (add_recorded D w) = ww_resampler w" "ww_closed (add_recorded D w) = ww_closed w"
  "ww_rate (add_recorded D w) = ww_rate w"
  "(add_recorded D w)\<lparr>ww_resampler := r\<rparr> = add_recorded D (w\<lparr>ww_resampler := r\<rparr>)"
  "(add_recorded D w)\<lparr>ww_closed := c\<rparr> = add_recorded D (w\<lparr>ww_closed := c\<rparr>)"
  by (simp_all add: add_recorded_def)

lemma recorded_update [simp]:
  "recorded H D (w\<lparr>ww_resampler := r\<rparr>) = recorded H D w" "recorded H D (w\<lparr>ww_closed := c\<rparr>) = recorded H D w"
  by (simp_all add: recorded_def)

lemma recorded_add: "recorded H D w \<Longrightarrow> recorded H (D @ D') (add_recorded D' w)"
  by (simp add: recorded_def add_recorded_def)

lemma emit_frame_ok:
  assumes "recorded H D w" "Valid (ww_format w)" "p_Format p = ww_format w" "length D + length (Bytes p) < 2 ^ 63"
  shows "emit_frame p w = add_recorded (Bytes p) w"
proof (cases "IsEmpty p")
  case True
  then have "Bytes p = []" using length_Bytes_format[OF assms(2,3)] by (simp add: IsEmpty_def)
  with True show ?thesis by (simp add: emit_frame_def)
next
  case False
  have "in_i64 (int (length D) + int (length (Bytes p)))" using assms(4) by (simp add: in_i64_def)
  then show ?thesis
    using False assms(1) length_Bytes_format[OF assms(2,3)]
    by (simp add: emit_frame_def recorded_def add_recorded_def file_write_def i64_id)
qed

lemma emit_ok:
  "recorded H D w \<Longrightarrow> Valid (ww_format w) \<Longrightarrow> \<forall>p \<in> set frames. p_Format p = ww_format w \<Longrightarrow>
     length D + length (concat (map Bytes frames)) < 2 ^ 63 \<Longrightarrow> emit frames w = add_recorded (concat (map Bytes frames)) w"
proof (induction frames arbitrary: w D)
  case (Cons p frames)
  have e: "emit_frame p w = add_recorded (Bytes p) w" using Cons.prems by (intro emit_frame_ok[of H D]) auto
  have "emit frames (add_recorded (Bytes p) w) = add_recorded (concat (map Bytes frames)) (add_recorded (Bytes p) w)"
    using Cons.prems recorded_add by (intro Cons.IH[of "D @ Bytes p"]) auto
  with e show ?case by (simp add: emit_def)
qed (simp add: emit_def)

fun write_all_ww :: "kernel \<Rightarrow> WAVWriter \<Rightarrow> PCM list \<Rightarrow> WAVWriter option" where
  "write_all_ww K w [] = Some w"
| "write_all_ww K w (p # ps) = (case Write_ww K p w of Some (None, w') \<Rightarrow> write_all_ww K w' ps | _ \<Rightarrow> None)"

lemma write_all_ww_ok:
  "recorded H D w \<Longrightarrow> \<not> ww_closed w \<Longrightarrow> Valid (ww_format w) \<Longrightarrow> r_format (ww_resampler w) = ww_format w \<Longrightarrow>
     write_all K (ww_resampler w) ps = Some (outs, r') \<Longrightarrow> length D + length (concat (map Bytes outs)) < 2 ^ 63 \<Longrightarrow>
     write_all_ww K w ps = Some (add_recorded (concat (map Bytes outs)) (w\<lparr>ww_resampler := r'\<rparr>)) \<and> r_format r' = ww_format w"
proof (induction ps arbitrary: w D outs)
  case (Cons p ps)
  obtain o1 r1 o2 where w1: "Write_sr K (ww_resampler w) p = Some (Inr o1, r1)" "write_all K r1 ps = Some (o2, r')" "outs = o1 @ o2"
    using Cons.prems(5) by (auto split: option.splits prod.splits sum.splits)
  define w' where "w' = add_recorded (concat (map Bytes o1)) (w\<lparr>ww_resampler := r1\<rparr>)"
  have fm: "\<forall>p \<in> set o1. p_Format p = ww_format w" "r_format r1 = ww_format w"
    using Write_format[OF _ w1(1)] Cons.prems by auto
  have "emit o1 (w\<lparr>ww_resampler := r1\<rparr>) = w'"
    unfolding w'_def using Cons.prems fm w1(3) by (intro emit_ok[of H D]) auto
  then have W: "Write_ww K p w = Some (None, w')" using w1(1) Cons.prems(2) by (simp add: Write_ww_def)
  have "write_all_ww K w' ps = Some (add_recorded (concat (map Bytes o2)) (w'\<lparr>ww_resampler := r'\<rparr>)) \<and> r_format r' = ww_format w'"
  proof (rule Cons.IH[of "D @ concat (map Bytes o1)"])
    show "recorded H (D @ concat (map Bytes o1)) w'" unfolding w'_def using Cons.prems by (intro recorded_add) simp
  qed (use Cons.prems w1 fm in \<open>simp_all add: w'_def\<close>)
  with W w1(3) show ?case by (simp add: w'_def)
qed simp

text \<open>Overwriting four bytes in place.\<close>

lemma patch_content:
  assumes "content (ww_file w) = A @ B @ C" "length A = offset" "length B = 4"
  shows "content (ww_file (patch offset v w)) = A @ le_bytes32 v @ C"
  using assms by (simp add: patch_def file_write_def seek_to_def)

lemma patch_fields [simp]:
  "ww_format (patch k v w) = ww_format w" "ww_written (patch k v w) = ww_written w" "ww_channels (patch k v w) = ww_channels w"
  "Frames_ww (patch k v w) = Frames_ww w"
  by (simp_all add: patch_def Frames_ww_def)

lemma tmod_int_2:
  "tmod (int n) 2 = int (n mod 2)"
  by (simp add: tmod_nonneg zmod_int)

lemma patchSizes_ok:
  assumes w: "recorded (wav_image f sr ch 0 []) D w" "ww_format w = f" "ww_channels w = ch" and v: "validate f sr ch = None"
  shows "content (ww_file (patchSizes w)) = wav_image f sr ch (int (length D) div (BytesPerSample f * ch)) D"
proof -
  define pad where "pad = (if length D mod 2 = 1 then [0::byte] else [])"
  define w1 where "w1 = (if tmod (ww_written w) 2 = 1 then w\<lparr>ww_file := file_write [0] (ww_file w)\<rparr> else w)"
  define W F where "W = tag_WAVE @ writeChunk tag_fmt (fmt_chunk f sr ch)"
    and "F = int (length D) div (BytesPerSample f * ch)"
  have bps: "0 < BytesPerSample f * ch" using v by (auto simp: validate_None Valid_def BytesPerSample_def)
  have c1: "content (ww_file w1) = wav_image f sr ch 0 [] @ D @ pad"
    and w1: "ww_format w1 = f" "ww_written w1 = int (length D)" "Frames_ww w1 = F"
    using w bps by (auto simp: w1_def recorded_def pad_def file_write_def tmod_int_2 Frames_ww_def F_def tdiv_nonneg)
  have lW: "length W = 28" by (simp add: W_def length_writeChunk)
  define body :: uint32 where "body = word_of_int ((if f = FormatF32 then 56 else 44) - 8 + (int (length D) + tmod (int (length D)) 2))"
  have body: "word_of_nat ((if f = FormatF32 then 48 else 36) + length D + length D mod 2) = body"
  proof -
    have "(if f = FormatF32 then 56 else 44) - 8 + (int (length D) + tmod (int (length D)) 2) =
        int ((if f = FormatF32 then 48 else 36) + length D + length D mod 2)" by (simp add: tmod_int_2)
    then show ?thesis by (simp only: body_def of_int_of_nat_eq)
  qed
  define w2 where "w2 = patch 4 body w1"
  have f2: "ww_format w2 = f" "ww_written w2 = int (length D)" "Frames_ww w2 = F" using w1 by (simp_all add: w2_def)
  show ?thesis
  proof (cases "f = FormatF32")
    case True
    define X where "X = tag_RIFF @ le_bytes32 body @ W @ tag_fact @ le_bytes32 4"
    have c2: "content (ww_file w2) = X @ le_bytes32 0 @ tag_data @ le_bytes32 0 @ D @ pad"
      unfolding w2_def
      by (subst patch_content[of _ tag_RIFF "le_bytes32 48" "W @ tag_fact @ le_bytes32 4 @ le_bytes32 0 @ tag_data @ le_bytes32 0 @ D @ pad"])
         (simp_all add: c1 True wav_image_def W_def X_def writeChunk_def)
    define w3 where "w3 = patch 52 (word_of_int (int (length D))) w2"
    have c3: "content (ww_file w3) = (X @ le_bytes32 0 @ tag_data) @ le_bytes32 (word_of_int (int (length D))) @ D @ pad"
      unfolding w3_def by (rule patch_content[where B = "le_bytes32 0"]) (simp_all add: c2 X_def lW)
    have "content (ww_file (patch 44 (word_of_int F) w3)) =
        X @ le_bytes32 (word_of_int F) @ tag_data @ le_bytes32 (word_of_int (int (length D))) @ D @ pad"
      by (rule patch_content[where B = "le_bytes32 0"]) (simp_all add: c3 X_def lW)
    moreover have "patchSizes w = (patch 44 (word_of_int F) w3)\<lparr>ww_file := seek_end (ww_file (patch 44 (word_of_int F) w3))\<rparr>"
      unfolding patchSizes_def w1_def[symmetric] using True w1 f2
      by (simp add: Let_def w2_def w3_def body_def)
    ultimately show ?thesis
      using True body unfolding F_def[symmetric]
      by (simp add: seek_end_def wav_image_def W_def X_def writeChunk_def pad_def)
  next
    case False
    define X where "X = tag_RIFF @ le_bytes32 body @ W @ tag_data"
    have c2: "content (ww_file w2) = X @ le_bytes32 0 @ D @ pad"
      unfolding w2_def
      by (subst patch_content[of _ tag_RIFF "le_bytes32 36" "W @ tag_data @ le_bytes32 0 @ D @ pad"])
         (simp_all add: c1 False wav_image_def W_def X_def writeChunk_def)
    have "content (ww_file (patch 40 (word_of_int (int (length D))) w2)) = X @ le_bytes32 (word_of_int (int (length D))) @ D @ pad"
      by (rule patch_content[where B = "le_bytes32 0"]) (simp_all add: c2 X_def lW)
    moreover have "patchSizes w = (patch 40 (word_of_int (int (length D))) w2)
        \<lparr>ww_file := seek_end (ww_file (patch 40 (word_of_int (int (length D))) w2))\<rparr>"
      unfolding patchSizes_def w1_def[symmetric] using False w1 f2 by (simp add: Let_def w2_def body_def)
    ultimately show ?thesis
      using False body unfolding F_def[symmetric]
      by (simp add: seek_end_def wav_image_def W_def X_def writeChunk_def pad_def)
  qed
qed

text \<open>A whole recording: a new writer, a write per buffer, none of which may fail, and the close.\<close>

definition record_wav :: "kernel \<Rightarrow> Format \<Rightarrow> int \<Rightarrow> int \<Rightarrow> PCM list \<Rightarrow> byte list option" where
  "record_wav K format sampleRate channels ps =
    (case NewWAVWriter format sampleRate channels of
       Inl _ \<Rightarrow> None
     | Inr w \<Rightarrow>
        (case write_all_ww K w ps of
           None \<Rightarrow> None
         | Some w \<Rightarrow> map_option (\<lambda>w. content (ww_file w)) (Close_ww K w)))"

lemma record_wav_ok:
  assumes v: "validate f sr ch = None" and c: "convert_stream K f sr ch 0 ps = Some outs"
    and b: "length (concat (map Bytes outs)) < 2 ^ 63"
  shows "record_wav K f sr ch ps =
    Some (wav_image f sr ch (int (length (concat (map Bytes outs))) div (BytesPerSample f * ch)) (concat (map Bytes outs)))"
proof -
  define H where "H = wav_image f sr ch 0 []"
  have vf: "Valid f" using v by (simp add: validate_None)
  obtain r where r: "NewStreamResampler f sr ch 0 = Some r" "r_format r = f"
    using v by (simp add: NewStreamResampler_def)
  obtain o1 r1 o2 r2 where o: "write_all K r ps = Some (o1, r1)" "Flush_sr K r1 = Some (o2, r2)" "outs = o1 @ o2"
    using c r(1) by (auto simp: convert_stream_def split: option.splits prod.splits)
  define w where "w = \<lparr>ww_file = \<lparr>content = H, at = length H\<rparr>, ww_resampler = r, ww_format = f,
                 ww_rate = sr, ww_channels = ch, ww_written = 0, ww_closed = False\<rparr>"
  have "WriteWAV (zero_PCM\<lparr>p_Format := f, p_SampleRate := sr, p_Channels := ch\<rparr>) = Inr H"
    using v WriteWAV_image[of "zero_PCM\<lparr>p_Format := f, p_SampleRate := sr, p_Channels := ch\<rparr>"]
    by (simp add: H_def zero_PCM_def Bytes_def Len_def NumSamples_def tdiv_def)
  then have N: "NewWAVWriter f sr ch = Inr w"
    using v r(1) by (simp add: NewWAVWriter_def w_def file_write_def)
  have rec: "recorded H [] w" by (simp add: w_def recorded_def)
  define w1 where "w1 = add_recorded (concat (map Bytes o1)) (w\<lparr>ww_resampler := r1\<rparr>)"
  have W: "write_all_ww K w ps = Some w1" "r_format r1 = f"
    using write_all_ww_ok[OF rec, of K ps o1 r1] vf r o b by (simp_all add: w_def w1_def)
  define w2 where "w2 = w1\<lparr>ww_closed := True, ww_resampler := r2\<rparr>"
  have rec2: "recorded H (concat (map Bytes o1)) w2"
    using recorded_add[of H "[]" "w\<lparr>ww_closed := True, ww_resampler := r2\<rparr>"] rec by (simp add: w2_def w1_def)
  have f2: "ww_format w2 = f" "ww_channels w2 = ch" "\<forall>p \<in> set o2. p_Format p = f"
    using Flush_format[OF _ o(2)] W(2) vf by (simp_all add: w2_def w1_def w_def)
  have "emit o2 w2 = add_recorded (concat (map Bytes o2)) w2"
    using rec2 f2 vf b o(3) by (intro emit_ok[of H "concat (map Bytes o1)"]) auto
  then have "Close_ww K w1 = Some (patchSizes (add_recorded (concat (map Bytes o2)) w2))"
    using o(2) by (simp add: Close_ww_def w2_def w1_def w_def)
  moreover have "recorded H (concat (map Bytes outs)) (add_recorded (concat (map Bytes o2)) w2)"
    using recorded_add[OF rec2] o(3) by simp
  ultimately show ?thesis
    using N W(1) patchSizes_ok[of f sr ch, OF _ _ _ v, folded H_def] f2 by (simp add: record_wav_def)
qed

text \<open>A recording is exactly the file \<open>WriteWAV\<close> would have written for the whole converted stream. Whatever
  buffers of one rate and channel count are written and however they were cut, no write fails, and
  the sizes patched in on \<open>Close\<close>, wrapped to 32 bits as they are, make the file that of a
  well-formed buffer with the samples of the one-formula conversion of the input; within the limits of the header it
  reads back as that buffer.\<close>

theorem wav_recording:
  assumes "validate format rate channels = None" "0 < ir" "0 < ic" "kernel_ok K ir rate"
    and "list_all (\<lambda>p. pcm_wf p \<and> p_SampleRate p = ir \<and> p_Channels p = ic) ps"
    and "ceil_div (sum_list (map Len ps) * rate) ir * nat (BytesPerSample format * channels) < 2 ^ 63"
  shows "\<exists>q bytes. record_wav K format rate channels ps = Some bytes \<and> WriteWAV q = Inr bytes \<and> pcm_wf q \<and>
    p_Format q = format \<and> p_SampleRate q = rate \<and> p_Channels q = channels \<and>
    Bytes q = enc format (resample_ref K ir rate (nat (min ic channels)) (nat channels)
      (mixdown K (nat (min ic channels)) (nat ic) (concat (map floats ps)))) \<and>
    (rate < 2 ^ 32 \<and> channels < 2 ^ 16 \<and> length (Bytes q) < 2 ^ 32 \<longrightarrow> ReadWAV narrow bytes = Inr q)"
proof -
  have ps: "\<forall>p \<in> set ps. same_input ir ic p" using assms(5) by (auto simp: same_input_def list_all_iff)
  define D where "D = enc format (resample_ref K ir rate (nat (min ic channels)) (nat channels)
      (mixdown K (nat (min ic channels)) (nat ic) (concat (map floats ps))))"
  have L: "length D = ceil_div (sum_list (map Len ps) * rate) ir * frame_size format channels"
    unfolding D_def by (rule output_length[OF assms(1-3) ps])
  obtain outs where c: "convert_stream K format rate channels 0 ps = Some outs" "concat (map Bytes outs) = D"
    using convert_stream_ok[OF assms(1) order.refl assms(2-4) ps] unfolding D_def by blast
  obtain q where q: "FromBytes D format rate channels = Inr q" "Bytes q = whole_frames D format channels" "pcm_wf q"
      "p_Format q = format" "p_SampleRate q = rate" "p_Channels q = channels"
      "NumSamples q * BytesPerSample format = int (length (whole_frames D format channels))"
    by (rule FromBytes_ok[OF assms(1)])
  have whole: "whole_frames D format channels = D" using L by (intro whole_frames_id) simp
  have pos: "0 < BytesPerSample format" "0 < channels"
    using assms(1) by (auto simp: validate_None Valid_def BytesPerSample_def)
  have N: "NumSamples q = Len q * channels" using q(3,6) by (elim pcm_wf_cases) (simp_all add: NumSamples_def)
  then have "int (length D) = Len q * (BytesPerSample format * channels)" using q(7) whole by (simp add: mult_ac)
  then have F: "int (length D) div (BytesPerSample format * channels) = Len q" using pos by simp
  have "record_wav K format rate channels ps = Some (wav_image format rate channels (Len q) D)"
    using record_wav_ok[OF assms(1) c(1)] assms(6) unfolding c(2) F L[symmetric] by simp
  moreover have "WriteWAV q = Inr (wav_image format rate channels (Len q) D)"
    using WriteWAV_image[of q] q(2,4-6) whole assms(1) by simp
  ultimately show ?thesis
    using q whole ReadWAV_image[OF assms(1), of D narrow "Len q"]
    by (intro exI[of _ q] exI[of _ "wav_image format rate channels (Len q) D"]) (simp add: D_def of_audio_def)
qed

theorem wav_recording_witness:
  "(\<lambda>p q. pcm_wf p \<and> pcm_wf q \<and> (\<exists>b bytes. record_wav nearest FormatF32 16000 1 [p, q] = Some bytes \<and>
      ReadWAV (\<lambda>_. 0) bytes = Inr b \<and> Bytes b = enc FormatF32 [5, 5, 7, 7]))
   (zero_PCM\<lparr>p_Format := FormatF32, p_SampleRate := 8000, p_Channels := 1, p_f32 := [5]\<rparr>)
   (zero_PCM\<lparr>p_Format := FormatF32, p_SampleRate := 8000, p_Channels := 1, p_f32 := [7]\<rparr>)"
proof -
  define p q where "p = zero_PCM\<lparr>p_Format := FormatF32, p_SampleRate := 8000, p_Channels := 1, p_f32 := [5]\<rparr>"
    and "q = zero_PCM\<lparr>p_Format := FormatF32, p_SampleRate := 8000, p_Channels := 1, p_f32 := [7]\<rparr>"
  have wf: "pcm_wf p" "pcm_wf q" "p_SampleRate p = 8000" "p_SampleRate q = 8000" "p_Channels p = 1" "p_Channels q = 1"
      "Len p = 1" "Len q = 1" "floats p = [5]" "floats q = [7]"
    by (simp_all add: p_def q_def pcm_wf_def zero_PCM_def validate_def Valid_def NumSamples_def Len_def floats_def ToFloat32_def tdiv_def)
  have k: "kernel_ok nearest 8000 16000" by (simp add: kernel_ok_def nearest_def)
  have v: "validate FormatF32 16000 1 = None" by (simp add: validate_def Valid_def)
  have ref: "resample_ref nearest 8000 16000 1 1 (mixdown nearest 1 1 [5, 7]) = [5, 5, 7, 7]" by code_simp
  have len: "length (enc FormatF32 [5, 5, 7, 7]) = 16" by (simp add: enc_def)
  have "\<exists>b bytes. record_wav nearest FormatF32 16000 1 [p, q] = Some bytes \<and> ReadWAV (\<lambda>_. 0) bytes = Inr b \<and>
      Bytes b = enc FormatF32 [5, 5, 7, 7]"
    using wav_recording[OF v, of 8000 1 nearest "[p, q]" "\<lambda>_. 0"] k wf ref
    by (force simp: ceil_div_def BytesPerSample_def len)
  with wf show ?thesis unfolding p_def[symmetric] q_def[symmetric] by blast
qed

end
