(* ===== verification/Opus.thy ===== *)
theory Opus
  imports Resample
begin

text \<open>
  The Opus encoder and decoder of package \<open>audio/opus\<close>: configurations and their frame sizes, the encoder that
  converts its input with the stream resampler and hands the codec whole frames, and the decoder with
  concealment. The codec itself, gopus, is an argument: a record of its calls on encoder and decoder
  states that the model does not look into. Its errors are opaque texts; a slice out of range and the constructors
  of package \<open>audio\<close> panic, which is \<open>None\<close>.
\<close>

section \<open>The codec and the configuration\<close>

datatype gopus_Application = GopusVoIP | GopusAudio | GopusLowDelay

text \<open>\<open>g_Encode\<close> gets the size of the packet buffer and returns the packet; \<open>g_Decode\<close> and \<open>g_DecodeWithFEC\<close> get a packet and a
  buffer and return the number of frames and the buffer as they leave it. An empty packet stands for a nil one.\<close>

record ('e, 'd) gopus =
  g_NewEncoder :: "int \<Rightarrow> int \<Rightarrow> gopus_Application \<Rightarrow> string + 'e"
  g_SetBitrate :: "int \<Rightarrow> 'e \<Rightarrow> string + 'e"
  g_SetComplexity :: "int \<Rightarrow> 'e \<Rightarrow> string + 'e"
  g_SetInBandFEC :: "'e \<Rightarrow> string + 'e"
  g_SetPacketLoss :: "int \<Rightarrow> 'e \<Rightarrow> string + 'e"
  g_SetDTX :: "bool \<Rightarrow> 'e \<Rightarrow> 'e"
  g_Encode :: "'e \<Rightarrow> float32 list \<Rightarrow> nat \<Rightarrow> (string + byte list) \<times> 'e"
  g_ResetEncoder :: "'e \<Rightarrow> 'e"
  g_MaxPacketSamples :: "int \<Rightarrow> int \<Rightarrow> int"
  g_NewDecoder :: "int \<Rightarrow> int \<Rightarrow> string + 'd"
  g_Decode :: "'d \<Rightarrow> byte list \<Rightarrow> float32 list \<Rightarrow> (string + int) \<times> float32 list \<times> 'd"
  g_DecodeWithFEC :: "'d \<Rightarrow> byte list \<Rightarrow> float32 list \<Rightarrow> bool \<Rightarrow> (string + int) \<times> float32 list \<times> 'd"
  g_ResetDecoder :: "'d \<Rightarrow> 'd"

definition DefaultSampleRate :: int where "DefaultSampleRate = 48000"
definition DefaultChannels :: int where "DefaultChannels = 1"
definition DefaultFrameDuration :: duration where "DefaultFrameDuration = 20 * Millisecond"
definition maxPacketBytes :: nat where "maxPacketBytes = 4000"

datatype Application = ApplicationVoIP | ApplicationAudio | ApplicationLowDelay | ApplicationOther uint8

datatype opus_error = InvalidApplication | RateNotSupported | ChannelsNotSupported | NotAFrameSize | NoSamples
  | Codec string | Resampling audio_error

fun toGopus :: "Application \<Rightarrow> opus_error + gopus_Application" where
  "toGopus ApplicationVoIP = Inr GopusVoIP"
| "toGopus ApplicationAudio = Inr GopusAudio"
| "toGopus ApplicationLowDelay = Inr GopusLowDelay"
| "toGopus (ApplicationOther n) = Inl InvalidApplication"

record opus_Config =
  c_SampleRate :: int
  c_Channels :: int
  c_FrameDuration :: duration
  c_Application :: Application
  c_Bitrate :: int
  c_Complexity :: int
  c_FEC :: bool
  c_PacketLossPercent :: int
  c_DTX :: bool

definition withDefaults :: "opus_Config \<Rightarrow> opus_Config" where
  "withDefaults c =
    (let c = (if c_SampleRate c = 0 then c\<lparr>c_SampleRate := DefaultSampleRate\<rparr> else c);
         c = (if c_Channels c = 0 then c\<lparr>c_Channels := DefaultChannels\<rparr> else c)
     in if c_FrameDuration c = 0 then c\<lparr>c_FrameDuration := DefaultFrameDuration\<rparr> else c)"

fun contains :: "'a list \<Rightarrow> 'a \<Rightarrow> bool" where
  "contains [] needle = False"
| "contains (v # haystack) needle = (if v = needle then True else contains haystack needle)"

definition validDurations :: "duration list" where
  "validDurations = [2500 * Microsecond, 5 * Millisecond, 10 * Millisecond, 20 * Millisecond, 40 * Millisecond,
     60 * Millisecond, 80 * Millisecond, 100 * Millisecond, 120 * Millisecond]"

definition frameSamples :: "opus_Config \<Rightarrow> opus_error + int" where
  "frameSamples c =
    (if c_SampleRate c \<notin> {8000, 12000, 16000, 24000, 48000} then Inl RateNotSupported
     else if c_Channels c \<noteq> 1 \<and> c_Channels c \<noteq> 2 then Inl ChannelsNotSupported
     else if \<not> contains validDurations (c_FrameDuration c) then Inl NotAFrameSize
     else let n = tdiv (i64 (c_FrameDuration c * c_SampleRate c)) Second in
          if n \<le> 0 then Inl NoSamples else Inr n)"

section \<open>The encoder\<close>

record 'e Encoder =
  e_enc :: 'e
  e_cfg :: opus_Config
  e_frameSamples :: int
  e_resampler :: StreamResampler
  e_silence :: PCM

text \<open>A setting is passed on when the configuration asks for it.\<close>

definition apply_setting :: "bool \<Rightarrow> ('e \<Rightarrow> string + 'e) \<Rightarrow> opus_error + 'e \<Rightarrow> opus_error + 'e" where
  "apply_setting wanted set_it r =
    (case r of
       Inl e \<Rightarrow> Inl e
     | Inr ge \<Rightarrow> if wanted then (case set_it ge of Inl e \<Rightarrow> Inl (Codec e) | Inr ge \<Rightarrow> Inr ge) else Inr ge)"

definition configure_gopus :: "('e, 'd) gopus \<Rightarrow> opus_Config \<Rightarrow> 'e \<Rightarrow> opus_error + 'e" where
  "configure_gopus G cfg ge =
    (case apply_setting (c_PacketLossPercent cfg > 0) (g_SetPacketLoss G (c_PacketLossPercent cfg))
       (apply_setting (c_FEC cfg) (g_SetInBandFEC G)
         (apply_setting (c_Complexity cfg > 0) (g_SetComplexity G (c_Complexity cfg))
           (apply_setting (c_Bitrate cfg > 0) (g_SetBitrate G (c_Bitrate cfg)) (Inr ge)))) of
       Inl e \<Rightarrow> Inl e
     | Inr ge \<Rightarrow> Inr (g_SetDTX G (c_DTX cfg) ge))"

definition NewEncoder_opus :: "('e, 'd) gopus \<Rightarrow> opus_Config \<Rightarrow> (opus_error + 'e Encoder) option" where
  "NewEncoder_opus G cfg =
    (let cfg = withDefaults cfg in
     case frameSamples cfg of
       Inl e \<Rightarrow> Some (Inl e)
     | Inr n \<Rightarrow>
        (case toGopus (c_Application cfg) of
           Inl e \<Rightarrow> Some (Inl e)
         | Inr application \<Rightarrow>
            (case g_NewEncoder G (c_SampleRate cfg) (c_Channels cfg) application of
               Inl e \<Rightarrow> Some (Inl (Codec e))
             | Inr ge \<Rightarrow>
                (case configure_gopus G cfg ge of
                   Inl e \<Rightarrow> Some (Inl e)
                 | Inr ge \<Rightarrow>
                    (case (NewStreamResampler FormatF32 (c_SampleRate cfg) (c_Channels cfg) n,
                           New FormatF32 (c_SampleRate cfg) (c_Channels cfg)) of
                       (Some r, Some silence) \<Rightarrow>
                         Some (Inr \<lparr>e_enc = ge, e_cfg = cfg, e_frameSamples = n, e_resampler = r,
                           e_silence = PadTo silence n PadEnd\<rparr>)
                     | _ \<Rightarrow> None)))))"

text \<open>The loop of \<open>encodeFrames\<close>. An error leaves the packets so far behind.\<close>

fun encodeFrames :: "('e, 'd) gopus \<Rightarrow> PCM list \<Rightarrow> 'e Encoder \<Rightarrow> (opus_error + byte list list) \<times> 'e Encoder" where
  "encodeFrames G [] e = (Inr [], e)"
| "encodeFrames G (frame # frames) e =
    (let frame = (if Len frame < e_frameSamples e then PadTo frame (e_frameSamples e) PadEnd else frame) in
     case g_Encode G (e_enc e) (Float32 frame) maxPacketBytes of
       (Inl err, ge) \<Rightarrow> (Inl (Codec err), e\<lparr>e_enc := ge\<rparr>)
     | (Inr packet, ge) \<Rightarrow>
        (case encodeFrames G frames (e\<lparr>e_enc := ge\<rparr>) of
           (Inl err, e) \<Rightarrow> (Inl err, e)
         | (Inr out, e) \<Rightarrow> (Inr (packet # out), e)))"

definition Encode_oe :: "('e, 'd) gopus \<Rightarrow> kernel \<Rightarrow> PCM \<Rightarrow> 'e Encoder \<Rightarrow> ((opus_error + byte list list) \<times> 'e Encoder) option" where
  "Encode_oe G K pcm e =
    (case Write_sr K (e_resampler e) pcm of
       None \<Rightarrow> None
     | Some (Inl err, r) \<Rightarrow> Some (Inl (Resampling err), e\<lparr>e_resampler := r\<rparr>)
     | Some (Inr frames, r) \<Rightarrow> Some (encodeFrames G frames (e\<lparr>e_resampler := r\<rparr>)))"

definition Flush_oe :: "('e, 'd) gopus \<Rightarrow> kernel \<Rightarrow> 'e Encoder \<Rightarrow> ((opus_error + byte list list) \<times> 'e Encoder) option" where
  "Flush_oe G K e =
    (case Flush_sr K (e_resampler e) of
       None \<Rightarrow> None
     | Some (frames, r) \<Rightarrow> Some (encodeFrames G frames (e\<lparr>e_resampler := r\<rparr>)))"

definition Reset_oe :: "('e, 'd) gopus \<Rightarrow> 'e Encoder \<Rightarrow> 'e Encoder" where
  "Reset_oe G e = e\<lparr>e_resampler := Reset_sr (e_resampler e), e_enc := g_ResetEncoder G (e_enc e)\<rparr>"

definition EncodeSilence :: "('e, 'd) gopus \<Rightarrow> 'e Encoder \<Rightarrow> (opus_error + byte list) \<times> 'e Encoder" where
  "EncodeSilence G e =
    (case g_Encode G (e_enc e) (Float32 (e_silence e)) maxPacketBytes of
       (Inl err, ge) \<Rightarrow> (Inl (Codec err), e\<lparr>e_enc := ge\<rparr>)
     | (Inr packet, ge) \<Rightarrow> (Inr packet, e\<lparr>e_enc := ge\<rparr>))"

definition FrameDuration_oe :: "'e Encoder \<Rightarrow> duration" where
  "FrameDuration_oe e = c_FrameDuration (e_cfg e)"

section \<open>The decoder\<close>

record 'd opus_Decoder =
  d_dec :: 'd
  d_cfg :: opus_Config
  d_frameSamples :: int
  d_buf :: "float32 list"

definition NewDecoder_opus :: "('e, 'd) gopus \<Rightarrow> opus_Config \<Rightarrow> (opus_error + 'd opus_Decoder) option" where
  "NewDecoder_opus G cfg =
    (let cfg = withDefaults cfg in
     case frameSamples cfg of
       Inl e \<Rightarrow> Some (Inl e)
     | Inr n \<Rightarrow>
        (case g_NewDecoder G (c_SampleRate cfg) (c_Channels cfg) of
           Inl e \<Rightarrow> Some (Inl (Codec e))
         | Inr dec \<Rightarrow>
            (let size = g_MaxPacketSamples G (c_SampleRate cfg) (c_Channels cfg) * c_Channels cfg in
             if size < 0 then None
             else Some (Inr \<lparr>d_dec = dec, d_cfg = cfg, d_frameSamples = n, d_buf = replicate (nat size) 0\<rparr>))))"

definition FrameDuration_od :: "'d opus_Decoder \<Rightarrow> duration" where
  "FrameDuration_od d = c_FrameDuration (d_cfg d)"

text \<open>\<open>make\<close> of a negative length panics.\<close>

definition output_od :: "'d opus_Decoder \<Rightarrow> int \<Rightarrow> PCM option" where
  "output_od d frames =
    (let n = frames * c_Channels (d_cfg d) in
     if n < 0 then None
     else FromFloat32 (pad_copy n 0 (d_buf d)) (c_SampleRate (d_cfg d)) (c_Channels (d_cfg d)))"

text \<open>What follows a call of the codec on the first \<open>n\<close> samples of the buffer.\<close>

definition decoded :: "'d opus_Decoder \<Rightarrow> nat \<Rightarrow> (string + int) \<times> float32 list \<times> 'd \<Rightarrow> ((opus_error + PCM) \<times> 'd opus_Decoder) option" where
  "decoded d n r =
    (case r of
       (res, buf, dec) \<Rightarrow>
        (let d = d\<lparr>d_dec := dec, d_buf := take n buf @ drop n (d_buf d)\<rparr> in
         case res of
           Inl err \<Rightarrow> Some (Inl (Codec err), d)
         | Inr frames \<Rightarrow> (case output_od d frames of None \<Rightarrow> None | Some pcm \<Rightarrow> Some (Inr pcm, d))))"

definition Conceal :: "('e, 'd) gopus \<Rightarrow> 'd opus_Decoder \<Rightarrow> ((opus_error + PCM) \<times> 'd opus_Decoder) option" where
  "Conceal G d =
    (let n = nat (d_frameSamples d * c_Channels (d_cfg d)) in
     if n > length (d_buf d) then None else decoded d n (g_Decode G (d_dec d) [] (take n (d_buf d))))"

definition Decode_od :: "('e, 'd) gopus \<Rightarrow> byte list \<Rightarrow> 'd opus_Decoder \<Rightarrow> ((opus_error + PCM) \<times> 'd opus_Decoder) option" where
  "Decode_od G packet d =
    (if packet = [] then Conceal G d
     else decoded d (length (d_buf d)) (g_Decode G (d_dec d) packet (d_buf d)))"

definition DecodeFEC :: "('e, 'd) gopus \<Rightarrow> byte list \<Rightarrow> 'd opus_Decoder \<Rightarrow> ((opus_error + PCM) \<times> 'd opus_Decoder) option" where
  "DecodeFEC G packet d =
    (if packet = [] then Conceal G d
     else let n = nat (d_frameSamples d * c_Channels (d_cfg d)) in
          if n > length (d_buf d) then None
          else decoded d n (g_DecodeWithFEC G (d_dec d) packet (take n (d_buf d)) True))"

definition Reset_od :: "('e, 'd) gopus \<Rightarrow> 'd opus_Decoder \<Rightarrow> 'd opus_Decoder" where
  "Reset_od G d = d\<lparr>d_dec := g_ResetDecoder G (d_dec d)\<rparr>"

section \<open>Frame sizes\<close>

text \<open>Every accepted configuration has frames of a whole number of samples.\<close>

lemma frameSamples_exact:
  assumes "frameSamples c = Inr n"
  shows "0 < n" "n * Second = c_FrameDuration c * c_SampleRate c" "0 < c_SampleRate c" "0 < c_Channels c"
proof -
  have r: "c_SampleRate c \<in> {8000, 12000, 16000, 24000, 48000}" and d: "contains validDurations (c_FrameDuration c)"
    and ch: "c_Channels c = 1 \<or> c_Channels c = 2" and n: "0 < n" "n = tdiv (i64 (c_FrameDuration c * c_SampleRate c)) Second"
    using assms by (auto simp: frameSamples_def Let_def split: if_splits)
  show "0 < n" "0 < c_SampleRate c" "0 < c_Channels c" using n r ch by auto
  have d: "c_FrameDuration c \<in> set validDurations" using d by (auto simp: validDurations_def split: if_splits)
  have m: "1000000000 dvd c_FrameDuration c * c_SampleRate c"
    using r d by (auto simp: validDurations_def)
  have "0 \<le> c_FrameDuration c * c_SampleRate c" "c_FrameDuration c * c_SampleRate c < 2 ^ 63"
    using r d by (auto simp: validDurations_def)
  then show "n * Second = c_FrameDuration c * c_SampleRate c"
    using m unfolding n(2) by (simp add: i64_id in_i64_def tdiv_nonneg)
qed

section \<open>The frames a resampler hands out\<close>

definition sr_ok :: "kernel \<Rightarrow> StreamResampler \<Rightarrow> bool" where
  "sr_ok K r \<longleftrightarrow> validate (r_format r) (r_sampleRate r) (r_channels r) = None \<and> 0 < r_frameSize r \<and>
     (r_configured r \<longrightarrow> 0 < r_inRate r \<and> (\<exists>B d. stream_run K r B d))"

definition sr_params :: "StreamResampler \<Rightarrow> Format \<times> int \<times> int \<times> int" where
  "sr_params r = (r_format r, r_sampleRate r, r_channels r, r_frameSize r)"

definition short_frame :: "Format \<times> int \<times> int \<times> int \<Rightarrow> PCM \<Rightarrow> bool" where
  "short_frame P p \<longleftrightarrow> (case P of (f, sr, ch, n) \<Rightarrow>
     pcm_wf p \<and> p_Format p = f \<and> p_SampleRate p = sr \<and> p_Channels p = ch \<and> 0 < Len p \<and> Len p \<le> n)"

lemma To_short:
  assumes "validate f sr ch = None" "int (length xs) = n * ch" "1 \<le> n" "n \<le> sz"
  shows "short_frame (f, sr, ch, sz)
    ((To f (zero_PCM\<lparr>p_Format := FormatF32, p_SampleRate := sr, p_Channels := ch, p_f32 := xs\<rparr>))\<lparr>p_PTS := t\<rparr>)"
proof -
  have v: "0 < ch" "Valid f" using assms(1) by (auto simp: validate_None)
  have "int (length xs) = int (nat n * nat ch)" using assms(2,3) v(1) by simp
  then have "length xs = nat n * nat ch" by (simp only: of_nat_eq_iff)
  then have "tdiv (int (length xs)) ch = n" "length xs mod nat ch = 0" using assms(2,3) v(1) by (simp_all add: tdiv_nonneg)
  then show ?thesis
    using assms v by (auto simp: short_frame_def Valid_def To_def ToInt16_def ToFloat32_def Len_def NumSamples_def zero_PCM_def pcm_wf_def)
qed

lemma collect_loop_short:
  assumes r: "validate (r_format r) (r_sampleRate r) (r_channels r) = None"
    and len: "int (length (r_pending r)) = available * r_channels r"
  shows "0 < sz \<Longrightarrow> 0 \<le> taken \<Longrightarrow> taken \<le> available \<Longrightarrow>
    list_all (short_frame (r_format r, r_sampleRate r, r_channels r, sz)) (fst (collect_loop r sz final available taken emitted))"
proof (induction "nat (available - taken)" arbitrary: taken emitted rule: less_induct)
  case less
  define c n where "c = r_channels r" and "n = min sz (available - taken)"
  have c: "0 < c" using r by (simp add: c_def validate_None)
  show ?case
  proof (cases "taken < available \<and> \<not> (n < sz \<and> \<not> final)")
    case False
    then have "fst (collect_loop r sz final available taken emitted) = []"
      by (subst collect_loop.simps) (auto simp: Let_def n_def)
    then show ?thesis by simp
  next
    case True
    define xs where "xs = take (nat (n * c)) (drop (nat (taken * c)) (r_pending r))"
    have n: "1 \<le> n" "taken + n \<le> available" "n \<le> sz" using True less.prems(1) by (auto simp: n_def)
    have "(taken + n) * c \<le> available * c" using n c by (intro mult_right_mono) auto
    moreover have "0 \<le> n * c" "0 \<le> taken * c" using n less.prems(2) c by simp_all
    ultimately have "int (length xs) = n * c"
      using len unfolding xs_def length_take length_drop c_def[symmetric] distrib_right by linarith
    note fr = To_short[OF r this[unfolded c_def] n(1,3), of "frames_duration emitted (r_sampleRate r)"]
    have "list_all (short_frame (r_format r, r_sampleRate r, r_channels r, sz))
        (fst (collect_loop r sz final available (taken + n) (i64 (emitted + n))))"
      using less.hyps[OF _ less.prems(1) _ n(2)] n less.prems(2) by simp
    then show ?thesis
      using fr True less.prems(1)
      by (subst collect_loop.simps)
         (auto simp: Let_def n_def[symmetric] c_def[symmetric] xs_def[symmetric] split: prod.splits)
  qed
qed

lemma collect_short:
  assumes run: "stream_run K r B d" and fs: "0 < r_frameSize r"
  shows "list_all (short_frame (sr_params r)) (fst (collect final r))"
proof -
  have inv: "stream_inv K r B (d @ r_pending r)" and dm: "length d mod nat (r_channels r) = 0"
    using run by (auto simp: stream_run_def)
  have v: "validate (r_format r) (r_sampleRate r) (r_channels r) = None"
    using stream_inv_cfg[OF inv] by (simp add: stream_cfg_def)
  then have c: "0 < r_channels r" by (simp add: validate_None)
  have "length (r_pending r) mod nat (r_channels r) = 0"
    using stream_inv_length[OF inv] dm by (simp add: dvd_eq_mod_eq_0[symmetric] dvd_add_right_iff)
  then obtain a where a: "length (r_pending r) = a * nat (r_channels r)" by (metis div_mult_mod_eq add.right_neutral)
  then have av: "int (length (r_pending r)) = int a * r_channels r" "tdiv (int (length (r_pending r))) (r_channels r) = int a"
    using c by (simp_all add: tdiv_nonneg)
  show ?thesis
    using collect_loop_short[OF v av(1) fs, of 0 final "r_emitted r"] fs
    by (auto simp: collect_def av(2) sr_params_def Let_def split: prod.splits)
qed

text \<open>A write and a flush end without a panic, hand out frames of at most the frame size and leave the resampler in order.\<close>

definition frames_out :: "kernel \<Rightarrow> StreamResampler \<Rightarrow> PCM list \<times> StreamResampler \<Rightarrow> bool" where
  "frames_out K r res \<longleftrightarrow> (case res of (out, s) \<Rightarrow>
     list_all (short_frame (sr_params r)) out \<and> sr_ok K s \<and> sr_params s = sr_params r)"

lemma collect_out:
  assumes run: "stream_run K s B d" and s: "sr_params s = sr_params r" "0 < r_inRate s" "0 < r_frameSize r"
  shows "frames_out K r (collect final s)" "r_configured (snd (collect final s))"
proof -
  obtain out pend e X where c: "collect final s = (out, s\<lparr>r_pending := pend, r_emitted := e\<rparr>)"
      "stream_run K (s\<lparr>r_pending := pend, r_emitted := e\<rparr>) B (d @ X)"
    using run by (rule collect_ok)
  have cfg: "stream_cfg K s" using run stream_inv_cfg by (auto simp: stream_run_def)
  show "frames_out K r (collect final s)"
    using collect_short[OF run, of final] c s cfg
    by (auto simp: frames_out_def sr_ok_def sr_params_def stream_cfg_def)
  show "r_configured (snd (collect final s))" using c(1) cfg by (simp add: stream_cfg_def)
qed

lemma frames_out_Reset: "frames_out K r (out, s) \<Longrightarrow> frames_out K r (out, Reset_sr s)"
  by (auto simp: frames_out_def sr_ok_def Reset_sr_def sr_params_def)

lemma Flush_sr_short:
  assumes ok: "sr_ok K r" and K: "\<And>ir. 0 < ir \<Longrightarrow> kernel_ok K ir (r_sampleRate r)"
  obtains out s where "Flush_sr K r = Some (out, s)" "frames_out K r (out, s)" "\<not> r_configured s"
proof (cases "r_configured r")
  case False
  show thesis by (rule that[of "[]" r]) (use False ok in \<open>simp_all add: Flush_sr_def frames_out_def\<close>)
next
  case True
  with ok obtain B d where run: "stream_run K r B d" and ir: "0 < r_inRate r" by (auto simp: sr_ok_def)
  have cfg: "stream_cfg K r" using run stream_inv_cfg by (auto simp: stream_run_def)
  have "length (prime K r) mod nat (r_mid r) = 0"
    using cfg by (auto simp: prime_def stream_cfg_def validate_None nat_mult_distrib mult.commute split: option.split)
  with run K[OF ir] obtain s where s: "produce K (r\<lparr>r_buf := r_buf r @ prime K r\<rparr>) = Some s"
      "stream_run K s (B @ prime K r) d" "\<exists>b pd i q. s = r\<lparr>r_buf := b, r_pending := pd, r_posInt := i, r_posFrac := q\<rparr>"
    by (rule produce_run)
  have "sr_params s = sr_params r" "0 < r_inRate s" "0 < r_frameSize r"
    using s(3) ir ok by (auto simp: sr_params_def sr_ok_def)
  note out = collect_out(1)[OF s(2) this, of True]
  obtain o' s' where c: "collect True s = (o', s')" by (cases "collect True s") auto
  have "Flush_sr K r = Some (o', Reset_sr s')"
    using True s(1) c by (cases "r_filter r") (simp_all add: Flush_sr_def prime_def)
  then show thesis using out c by (intro that[of o' "Reset_sr s'"] frames_out_Reset) (simp_all add: Reset_sr_def)
qed

lemma write_step_short:
  assumes run: "stream_run K r B d" and K: "kernel_ok K (r_inRate r) (r_sampleRate r)" and ir: "0 < r_inRate r" "0 < r_frameSize r"
    and p: "pcm_wf p" "p_Channels p = r_inChannels r"
  obtains s where "produce K (feed K p r) = Some s" "frames_out K r (collect False s)"
proof -
  define M where "M = mixdown K (nat (r_mid r)) (nat (r_inChannels r)) (floats p)"
  have cfg: "stream_cfg K r" using run stream_inv_cfg by (auto simp: stream_run_def)
  have "length M mod nat (r_mid r) = 0" unfolding M_def by (rule mixdown_floats[OF cfg p])
  with run K obtain s where s: "produce K (r\<lparr>r_buf := r_buf r @ M\<rparr>) = Some s" "stream_run K s (B @ M) d"
      "\<exists>b pd i q. s = r\<lparr>r_buf := b, r_pending := pd, r_posInt := i, r_posFrac := q\<rparr>"
    by (rule produce_run)
  have "sr_params s = sr_params r" "0 < r_inRate s" using s(3) ir by (auto simp: sr_params_def)
  from collect_out(1)[OF s(2) this ir(2)] s(1) feed_eq[OF cfg p(2)] show thesis
    by (intro that[of s]) (simp_all add: M_def)
qed

lemma Write_sr_short:
  assumes ok: "sr_ok K r" and K: "\<And>ir. 0 < ir \<Longrightarrow> kernel_ok K ir (r_sampleRate r)"
    and p: "validate (p_Format p) (p_SampleRate p) (p_Channels p) = None \<Longrightarrow> pcm_wf p"
  shows "(\<exists>out s. Write_sr K r p = Some (Inr out, s) \<and> frames_out K r (out, s)) \<or> (\<exists>err. Write_sr K r p = Some (Inl err, r))"
proof (cases "IsEmpty p \<or> validate (p_Format p) (p_SampleRate p) (p_Channels p) \<noteq> None")
  case True
  then show ?thesis
    using ok by (cases "IsEmpty p") (auto simp: Write_sr_def frames_out_def)
next
  case False
  then have wf: "pcm_wf p" and v: "validate (p_Format p) (p_SampleRate p) (p_Channels p) = None" using p by auto
  have pos: "0 < p_SampleRate p" "0 < p_Channels p" using pcm_wf_pos[OF wf] by auto
  define change where "change \<longleftrightarrow> r_configured r \<and> (p_SampleRate p \<noteq> r_inRate r \<or> p_Channels p \<noteq> r_inChannels r)"
  obtain drained r1 where d: "(if change then Flush_sr K r else Some ([], r)) = Some (drained, r1)" "frames_out K r (drained, r1)"
      "change \<longrightarrow> \<not> r_configured r1" "\<not> change \<longrightarrow> r1 = r"
  proof (cases change)
    case True
    then show thesis using Flush_sr_short[OF ok K] that by (metis (full_types))
  qed (use ok that in \<open>auto simp: frames_out_def\<close>)
  have same: "sr_params r1 = sr_params r" "sr_ok K r1" using d(2) by (auto simp: frames_out_def)
  then have r1: "validate (r_format r1) (r_sampleRate r1) (r_channels r1) = None" "0 < r_frameSize r1" "r_sampleRate r1 = r_sampleRate r"
    using ok by (auto simp: sr_ok_def sr_params_def)
  define r2 where "r2 = (if \<not> r_configured r1 then configure K (p_SampleRate p) (p_Channels p) r1 else r1)"
  have "\<exists>B d. stream_run K r2 B d" "r_inRate r2 = p_SampleRate p" "p_Channels p = r_inChannels r2" "sr_params r2 = sr_params r"
  proof -
    note cf = configure_ok[OF r1(1) _ pos K[OF pos(1), folded r1(3)]]
    show "\<exists>B d. stream_run K r2 B d" using cf r1(2) same(2) by (cases "r_configured r1") (auto simp: r2_def sr_ok_def)
    show "r_inRate r2 = p_SampleRate p" "p_Channels p = r_inChannels r2" "sr_params r2 = sr_params r"
      using cf r1(2) same(1) d(3,4) by (auto simp: r2_def change_def sr_params_def)
  qed
  then obtain B dn where r2: "stream_run K r2 B dn" "r_inRate r2 = p_SampleRate p" "p_Channels p = r_inChannels r2"
      "sr_params r2 = sr_params r" by blast
  have fs: "0 < r_frameSize r2" "r_sampleRate r2 = r_sampleRate r" using r2(4) ok by (auto simp: sr_params_def sr_ok_def)
  obtain s where w: "produce K (feed K p r2) = Some s" "frames_out K r2 (collect False s)"
    by (rule write_step_short[OF r2(1) _ _ fs(1) wf r2(3)]) (use K[OF pos(1)] r2(2) fs(2) pos in simp_all)
  obtain o' s' where o': "collect False s = (o', s')" by (cases "collect False s") auto
  have "Write_sr K r p = Some (Inr (drained @ o'), s')"
    using False v d(1) w(1) o' unfolding Write_sr_def change_def[symmetric] by (simp add: r2_def[symmetric] Let_def)
  moreover have "frames_out K r (drained @ o', s')"
    using w(2) d(2) o' r2(4) by (auto simp: frames_out_def)
  ultimately show ?thesis by blast
qed

section \<open>What the codec is given\<close>

text \<open>A codec that also keeps the samples of every call of \<open>Encode\<close>.\<close>

definition recording :: "('e, 'd) gopus \<Rightarrow> ('e \<times> float32 list list, 'd) gopus" where
  "recording G =
    \<lparr>g_NewEncoder = (\<lambda>sr ch a. map_sum id (\<lambda>g. (g, [])) (g_NewEncoder G sr ch a)),
     g_SetBitrate = (\<lambda>n (g, l). map_sum id (\<lambda>g. (g, l)) (g_SetBitrate G n g)),
     g_SetComplexity = (\<lambda>n (g, l). map_sum id (\<lambda>g. (g, l)) (g_SetComplexity G n g)),
     g_SetInBandFEC = (\<lambda>(g, l). map_sum id (\<lambda>g. (g, l)) (g_SetInBandFEC G g)),
     g_SetPacketLoss = (\<lambda>n (g, l). map_sum id (\<lambda>g. (g, l)) (g_SetPacketLoss G n g)),
     g_SetDTX = (\<lambda>b (g, l). (g_SetDTX G b g, l)),
     g_Encode = (\<lambda>(g, l) xs n. map_prod id (\<lambda>g. (g, l @ [xs])) (g_Encode G g xs n)),
     g_ResetEncoder = (\<lambda>(g, l). (g_ResetEncoder G g, l)),
     g_MaxPacketSamples = g_MaxPacketSamples G, g_NewDecoder = g_NewDecoder G, g_Decode = g_Decode G,
     g_DecodeWithFEC = g_DecodeWithFEC G, g_ResetDecoder = g_ResetDecoder G\<rparr>"

text \<open>A sequence of calls on an encoder and their results; \<open>None\<close> is a panic. A reset returns nothing, and
  encoded silence is one packet.\<close>

datatype enc_op = EncodeOp PCM | FlushOp | ResetOp | SilenceOp

fun enc_op_result :: "('e, 'd) gopus \<Rightarrow> kernel \<Rightarrow> enc_op \<Rightarrow> 'e Encoder \<Rightarrow> ((opus_error + byte list list) \<times> 'e Encoder) option" where
  "enc_op_result G K (EncodeOp pcm) e = Encode_oe G K pcm e"
| "enc_op_result G K FlushOp e = Flush_oe G K e"
| "enc_op_result G K ResetOp e = Some (Inr [], Reset_oe G e)"
| "enc_op_result G K SilenceOp e = Some (map_prod (map_sum id (\<lambda>p. [p])) id (EncodeSilence G e))"

fun enc_run :: "('e, 'd) gopus \<Rightarrow> kernel \<Rightarrow> enc_op list \<Rightarrow> 'e Encoder \<Rightarrow> ((opus_error + byte list list) list \<times> 'e Encoder) option" where
  "enc_run G K [] e = Some ([], e)"
| "enc_run G K (op # ops) e =
    (case enc_op_result G K op e of
       None \<Rightarrow> None
     | Some (r, e) \<Rightarrow> (case enc_run G K ops e of None \<Rightarrow> None | Some (rs, e) \<Rightarrow> Some (r # rs, e)))"

definition packets_of :: "opus_error + byte list list \<Rightarrow> byte list list" where
  "packets_of r = (case r of Inl _ \<Rightarrow> [] | Inr ps \<Rightarrow> ps)"

definition op_ok :: "enc_op \<Rightarrow> bool" where
  "op_ok op \<longleftrightarrow> (case op of EncodeOp p \<Rightarrow> validate (p_Format p) (p_SampleRate p) (p_Channels p) = None \<longrightarrow> pcm_wf p | _ \<Rightarrow> True)"

text \<open>The encoder is in order, and so were the calls so far.\<close>

definition enc_ok :: "kernel \<Rightarrow> ('e \<times> float32 list list) Encoder \<Rightarrow> bool" where
  "enc_ok K e \<longleftrightarrow> frameSamples (e_cfg e) = Inr (e_frameSamples e) \<and> sr_ok K (e_resampler e) \<and>
     sr_params (e_resampler e) = (FormatF32, c_SampleRate (e_cfg e), c_Channels (e_cfg e), e_frameSamples e) \<and>
     short_frame (FormatF32, c_SampleRate (e_cfg e), c_Channels (e_cfg e), e_frameSamples e) (e_silence e) \<and>
     Len (e_silence e) = e_frameSamples e \<and>
     list_all (\<lambda>xs. int (length xs) = e_frameSamples e * c_Channels (e_cfg e)) (snd (e_enc e))"

definition codec_input :: "int \<Rightarrow> PCM \<Rightarrow> float32 list" where
  "codec_input n p = Float32 (if Len p < n then PadTo p n PadEnd else p)"

lemma codec_input_short:
  assumes "short_frame (FormatF32, sr, ch, n) p"
  shows "int (length (codec_input n p)) = n * ch" "codec_input n p = p_f32 p @ replicate (nat ((n - Len p) * ch)) 0"
proof -
  have p: "pcm_wf p" "p_Format p = FormatF32" "p_Channels p = ch" "Len p \<le> n" using assms by (auto simp: short_frame_def)
  have c: "0 < ch" "0 \<le> Len p" using pcm_wf_pos[OF p(1)] p(3) by auto
  have len: "int (length (p_f32 p)) = Len p * ch" using floats_length[OF p(1)] p(2,3) by (simp add: floats_def ToFloat32_def)
  show eq: "codec_input n p = p_f32 p @ replicate (nat ((n - Len p) * ch)) 0"
  proof (cases "Len p < n")
    case True
    have "length (p_f32 p) \<le> nat (n * ch)" using len p(4) c by (simp add: mult_right_mono le_nat_iff)
    moreover have "nat (n * ch) - length (p_f32 p) = nat ((n - Len p) * ch)" using len by (simp add: left_diff_distrib nat_diff_distrib')
    ultimately show ?thesis
      using True p(2,3) by (simp add: codec_input_def PadTo_def pad_copy_def padOffset_def Float32_def Let_def)
  qed (use p in \<open>simp add: codec_input_def Float32_def\<close>)
  show "int (length (codec_input n p)) = n * ch"
    unfolding eq using len p(4) c by (simp add: algebra_simps mult_right_mono)
qed

lemma encodeFrames_recording:
  assumes "list_all (short_frame (FormatF32, sr, ch, e_frameSamples e)) fs" "encodeFrames (recording G) fs e = (res, e')"
  shows "\<exists>g L. e' = e\<lparr>e_enc := (g, snd (e_enc e) @ L)\<rparr> \<and> list_all (\<lambda>xs. int (length xs) = e_frameSamples e * ch) L \<and>
    (\<forall>out. res = Inr out \<longrightarrow> L = map (codec_input (e_frameSamples e)) fs \<and> length out = length fs)"
  using assms
proof (induction fs arbitrary: e res e')
  case Nil
  then show ?case by (auto intro!: exI[of _ "fst (e_enc e)"])
next
  case (Cons f fs)
  obtain g l where gl: "e_enc e = (g, l)" by (cases "e_enc e") auto
  define x where "x = codec_input (e_frameSamples e) f"
  obtain r g' where enc: "g_Encode G g x maxPacketBytes = (r, g')" by (cases "g_Encode G g x maxPacketBytes") auto
  have x: "int (length x) = e_frameSamples e * ch" using Cons.prems(1) codec_input_short(1)[of sr ch "e_frameSamples e" f] by (simp add: x_def)
  have step: "g_Encode (recording G) (e_enc e) x maxPacketBytes = (r, (g', l @ [x]))" using gl enc by (simp add: recording_def)
  show ?case
  proof (cases r)
    case (Inl err)
    then have "e' = e\<lparr>e_enc := (g', snd (e_enc e) @ [x])\<rparr>" "res = Inl (Codec err)"
      using Cons.prems(2) step gl by (simp_all add: x_def codec_input_def Let_def)
    then show ?thesis using x by (intro exI[of _ g'] exI[of _ "[x]"]) simp
  next
    case (Inr packet)
    obtain res2 e2 where rec: "encodeFrames (recording G) fs (e\<lparr>e_enc := (g', l @ [x])\<rparr>) = (res2, e2)"
      by (cases "encodeFrames (recording G) fs (e\<lparr>e_enc := (g', l @ [x])\<rparr>)") auto
    have res: "e' = e2" "res = (case res2 of Inl err \<Rightarrow> Inl err | Inr out \<Rightarrow> Inr (packet # out))"
      using Cons.prems(2) step rec Inr by (auto simp: x_def codec_input_def Let_def split: sum.splits)
    from Cons.IH[OF _ rec] Cons.prems(1) obtain g2 L where L: "e2 = e\<lparr>e_enc := (g2, l @ x # L)\<rparr>"
        "list_all (\<lambda>xs. int (length xs) = e_frameSamples e * ch) L"
        "\<forall>out. res2 = Inr out \<longrightarrow> L = map (codec_input (e_frameSamples e)) fs \<and> length out = length fs"
      by auto
    then show ?thesis
      using res x gl by (intro exI[of _ g2] exI[of _ "x # L"]) (auto simp: x_def split: sum.splits)
  qed
qed

lemma NewEncoder_ok:
  assumes "NewEncoder_opus (recording G) cfg = Some (Inr e)"
  shows "enc_ok K e" "snd (e_enc e) = []" "e_cfg e = withDefaults cfg" "\<not> r_configured (e_resampler e)"
    "NewStreamResampler FormatF32 (c_SampleRate (e_cfg e)) (c_Channels (e_cfg e)) (e_frameSamples e) = Some (e_resampler e)"
proof -
  define c where "c = withDefaults cfg"
  obtain n app g g2 r s where e: "frameSamples c = Inr n" "g_NewEncoder (recording G) (c_SampleRate c) (c_Channels c) app = Inr g"
      "configure_gopus (recording G) c g = Inr g2" "NewStreamResampler FormatF32 (c_SampleRate c) (c_Channels c) n = Some r"
      "New FormatF32 (c_SampleRate c) (c_Channels c) = Some s"
      "e = \<lparr>e_enc = g2, e_cfg = c, e_frameSamples = n, e_resampler = r, e_silence = PadTo s n PadEnd\<rparr>"
    using assms by (auto simp: NewEncoder_opus_def Let_def c_def split: sum.splits option.splits)
  note n = frameSamples_exact[OF e(1)]
  have "snd g = []" using e(2) by (auto simp: recording_def map_sum_def split: sum.splits)
  have "snd g2 = []"
    using e(3) \<open>snd g = []\<close>
    by (auto simp: configure_gopus_def recording_def apply_setting_def map_sum_def split: sum.splits if_splits prod.splits)
  have s: "s = zero_PCM\<lparr>p_Format := FormatF32, p_SampleRate := c_SampleRate c, p_Channels := c_Channels c\<rparr>"
    using e(5) by (simp add: New_def NewChecked_def split: option.splits sum.splits)
  have wf: "pcm_wf s" "Len s = 0"
    using n by (simp_all add: s pcm_wf_def zero_PCM_def validate_def Valid_def NumSamples_def Len_def tdiv_nonneg)
  have r: "\<not> r_configured r" "sr_params r = (FormatF32, c_SampleRate c, c_Channels c, n)" "validate (r_format r) (r_sampleRate r) (r_channels r) = None"
    using e(4) by (auto simp: NewStreamResampler_def sr_params_def split: if_splits)
  have pad: "short_frame (FormatF32, c_SampleRate c, c_Channels c, n) (PadTo s n PadEnd)" "Len (PadTo s n PadEnd) = n"
    using PadTo_ok[OF wf(1), of n PadEnd] wf(2) n(1) by (auto simp: short_frame_def same_params_def s zero_PCM_def)
  show "enc_ok K e" "snd (e_enc e) = []" "e_cfg e = withDefaults cfg" "\<not> r_configured (e_resampler e)"
      "NewStreamResampler FormatF32 (c_SampleRate (e_cfg e)) (c_Channels (e_cfg e)) (e_frameSamples e) = Some (e_resampler e)"
    using e \<open>snd g2 = []\<close> r pad n(1) by (auto simp: enc_ok_def sr_ok_def sr_params_def c_def)
qed


text \<open>One call keeps the encoder in order; a call that succeeds makes one codec call per packet it returns.\<close>

lemma encodeFrames_ok:
  assumes ok: "enc_ok K e" and fs: "frames_out K (e_resampler e) (fs, r)"
    and run: "encodeFrames (recording G) fs (e\<lparr>e_resampler := r\<rparr>) = (res, e')"
  shows "enc_ok K e'" "e_cfg e' = e_cfg e" "e_frameSamples e' = e_frameSamples e" "e_resampler e' = r"
    "res = Inr out \<Longrightarrow> snd (e_enc e') = snd (e_enc e) @ map (codec_input (e_frameSamples e)) fs \<and> length out = length fs"
proof -
  have "list_all (short_frame (FormatF32, c_SampleRate (e_cfg e), c_Channels (e_cfg e), e_frameSamples (e\<lparr>e_resampler := r\<rparr>))) fs"
    using ok fs by (simp add: enc_ok_def frames_out_def)
  from encodeFrames_recording[OF this run] obtain g L where L: "e' = e\<lparr>e_resampler := r, e_enc := (g, snd (e_enc e) @ L)\<rparr>"
      "list_all (\<lambda>xs. int (length xs) = e_frameSamples e * c_Channels (e_cfg e)) L"
      "\<forall>out. res = Inr out \<longrightarrow> L = map (codec_input (e_frameSamples e)) fs \<and> length out = length fs"
    by auto
  then show "enc_ok K e'" "e_cfg e' = e_cfg e" "e_frameSamples e' = e_frameSamples e" "e_resampler e' = r"
    "res = Inr out \<Longrightarrow> snd (e_enc e') = snd (e_enc e) @ map (codec_input (e_frameSamples e)) fs \<and> length out = length fs"
    using ok fs by (auto simp: enc_ok_def frames_out_def)
qed

definition all_kernels_ok :: "kernel \<Rightarrow> int \<Rightarrow> bool" where
  "all_kernels_ok K rate \<longleftrightarrow> (\<forall>ir > 0. kernel_ok K ir rate)"

lemma enc_ok_rate: "enc_ok K e \<Longrightarrow> r_sampleRate (e_resampler e) = c_SampleRate (e_cfg e) \<and> sr_ok K (e_resampler e)"
  by (simp add: enc_ok_def sr_params_def)

lemma enc_op_ok:
  assumes ok: "enc_ok K e" and K: "all_kernels_ok K (c_SampleRate (e_cfg e))" and op: "op_ok op"
  shows "\<exists>r e'. enc_op_result (recording G) K op e = Some (r, e') \<and> enc_ok K e' \<and> e_cfg e' = e_cfg e \<and>
    e_frameSamples e' = e_frameSamples e \<and> (isl r \<or> length (snd (e_enc e')) = length (snd (e_enc e)) + length (packets_of r))"
proof -
  note rate = enc_ok_rate[OF ok]
  have K': "\<And>ir. 0 < ir \<Longrightarrow> kernel_ok K ir (r_sampleRate (e_resampler e))" using K rate by (simp add: all_kernels_ok_def)
  have frames: "\<exists>r e'. Some (encodeFrames (recording G) fs (e\<lparr>e_resampler := r0\<rparr>)) = Some (r, e') \<and> enc_ok K e' \<and> e_cfg e' = e_cfg e \<and>
      e_frameSamples e' = e_frameSamples e \<and> (isl r \<or> length (snd (e_enc e')) = length (snd (e_enc e)) + length (packets_of r))"
    if "frames_out K (e_resampler e) (fs, r0)" for fs r0
  proof -
    obtain r e' where run: "encodeFrames (recording G) fs (e\<lparr>e_resampler := r0\<rparr>) = (r, e')"
      by (cases "encodeFrames (recording G) fs (e\<lparr>e_resampler := r0\<rparr>)") auto
    note res = encodeFrames_ok[OF ok that run]
    then show ?thesis using run by (cases r) (auto simp: packets_of_def)
  qed
  show ?thesis
  proof (cases op)
    case (EncodeOp p)
    have "(\<exists>out s. Write_sr K (e_resampler e) p = Some (Inr out, s) \<and> frames_out K (e_resampler e) (out, s)) \<or>
        (\<exists>err. Write_sr K (e_resampler e) p = Some (Inl err, e_resampler e))"
      by (rule Write_sr_short) (use rate K' op EncodeOp in \<open>simp_all add: op_ok_def\<close>)
    then show ?thesis using frames ok EncodeOp by (auto simp: Encode_oe_def)
  next
    case FlushOp
    obtain out s where "Flush_sr K (e_resampler e) = Some (out, s)" "frames_out K (e_resampler e) (out, s)"
      using Flush_sr_short[OF conjunct2[OF rate] K'] by blast
    then show ?thesis using frames FlushOp by (auto simp: Flush_oe_def)
  next
    case ResetOp
    then show ?thesis
      using ok by (auto simp: Reset_oe_def recording_def enc_ok_def sr_ok_def Reset_sr_def sr_params_def packets_of_def split: prod.split)
  next
    case SilenceOp
    obtain g l where gl: "e_enc e = (g, l)" by (cases "e_enc e") auto
    have sil: "Float32 (e_silence e) = codec_input (e_frameSamples e) (e_silence e)" using ok by (simp add: enc_ok_def codec_input_def)
    have len: "int (length (Float32 (e_silence e))) = e_frameSamples e * c_Channels (e_cfg e)"
      using ok codec_input_short(1) unfolding sil enc_ok_def by blast
    obtain r g' where enc: "g_Encode G g (Float32 (e_silence e)) maxPacketBytes = (r, g')"
      by (cases "g_Encode G g (Float32 (e_silence e)) maxPacketBytes") auto
    have step: "g_Encode (recording G) (e_enc e) (Float32 (e_silence e)) maxPacketBytes = (r, (g', l @ [Float32 (e_silence e)]))"
      using gl enc by (simp add: recording_def)
    have "enc_ok K (e\<lparr>e_enc := (g', l @ [Float32 (e_silence e)])\<rparr>)" using ok len gl by (simp add: enc_ok_def)
    then show ?thesis using SilenceOp step gl by (cases r) (auto simp: EncodeSilence_def packets_of_def)
  qed
qed

lemma enc_run_ok:
  assumes "enc_ok K e" "all_kernels_ok K (c_SampleRate (e_cfg e))" "list_all op_ok ops"
  shows "\<exists>rs e'. enc_run (recording G) K ops e = Some (rs, e') \<and> enc_ok K e' \<and> e_cfg e' = e_cfg e \<and> e_frameSamples e' = e_frameSamples e \<and>
    (list_ex isl rs \<or> length (snd (e_enc e')) = length (snd (e_enc e)) + length (concat (map packets_of rs)))"
  using assms
proof (induction ops arbitrary: e)
  case (Cons op ops)
  from enc_op_ok[of K e op G] Cons.prems obtain r e1 where s: "enc_op_result (recording G) K op e = Some (r, e1)" "enc_ok K e1"
      "e_cfg e1 = e_cfg e" "e_frameSamples e1 = e_frameSamples e"
      "isl r \<or> length (snd (e_enc e1)) = length (snd (e_enc e)) + length (packets_of r)" by auto
  from Cons.IH[OF s(2)] Cons.prems s(3) obtain rs e' where r: "enc_run (recording G) K ops e1 = Some (rs, e')" "enc_ok K e'"
      "e_cfg e' = e_cfg e1" "e_frameSamples e' = e_frameSamples e1"
      "list_ex isl rs \<or> length (snd (e_enc e')) = length (snd (e_enc e1)) + length (concat (map packets_of rs))" by auto
  with s show ?case by auto
qed auto

section \<open>A stream through the encoder\<close>

lemma enc_run_append:
  "enc_run G K (xs @ ys) e = (case enc_run G K xs e of None \<Rightarrow> None | Some (rs, e) \<Rightarrow>
     (case enc_run G K ys e of None \<Rightarrow> None | Some (rs', e) \<Rightarrow> Some (rs @ rs', e)))"
  by (induction xs arbitrary: e) (auto split: option.splits prod.splits)

lemma enc_run_writes:
  assumes "enc_ok K e" "all_kernels_ok K (c_SampleRate (e_cfg e))" "list_all pcm_wf ps"
    "enc_run (recording G) K (map EncodeOp ps) e = Some (rs, e')" "\<not> list_ex isl rs"
  shows "\<exists>outs. write_all K (e_resampler e) ps = Some (outs, e_resampler e') \<and> enc_ok K e' \<and> e_cfg e' = e_cfg e \<and>
    e_frameSamples e' = e_frameSamples e \<and> list_all (short_frame (sr_params (e_resampler e))) outs \<and>
    snd (e_enc e') = snd (e_enc e) @ map (codec_input (e_frameSamples e)) outs"
  using assms
proof (induction ps arbitrary: e rs)
  case (Cons p ps)
  obtain r e1 rs1 where s: "Encode_oe (recording G) K p e = Some (r, e1)" "enc_run (recording G) K (map EncodeOp ps) e1 = Some (rs1, e')"
      "rs = r # rs1"
    using Cons.prems(4) by (auto split: option.splits)
  have nl: "\<not> isl r" "\<not> list_ex isl rs1" using Cons.prems(5) s(3) by auto
  have "(\<exists>out t. Write_sr K (e_resampler e) p = Some (Inr out, t) \<and> frames_out K (e_resampler e) (out, t)) \<or>
      (\<exists>err. Write_sr K (e_resampler e) p = Some (Inl err, e_resampler e))"
    by (rule Write_sr_short) (use enc_ok_rate[OF Cons.prems(1)] Cons.prems(2,3) in \<open>simp_all add: all_kernels_ok_def\<close>)
  then obtain out t where w: "Write_sr K (e_resampler e) p = Some (Inr out, t)" "frames_out K (e_resampler e) (out, t)"
    using s(1) nl(1) by (auto simp: Encode_oe_def)
  have f: "encodeFrames (recording G) out (e\<lparr>e_resampler := t\<rparr>) = (r, e1)" using s(1) w(1) by (simp add: Encode_oe_def)
  note e1 = encodeFrames_ok[OF Cons.prems(1) w(2) f]
  have log: "snd (e_enc e1) = snd (e_enc e) @ map (codec_input (e_frameSamples e)) out" using nl(1) e1(5) by (cases r) auto
  from Cons.IH[OF e1(1) _ _ s(2) nl(2)] Cons.prems(2,3) e1(2) obtain outs where outs: "write_all K (e_resampler e1) ps = Some (outs, e_resampler e')"
      "enc_ok K e'" "e_cfg e' = e_cfg e1" "e_frameSamples e' = e_frameSamples e1"
      "list_all (short_frame (sr_params (e_resampler e1))) outs" "snd (e_enc e') = snd (e_enc e1) @ map (codec_input (e_frameSamples e1)) outs"
    by auto
  then show ?case
    using w e1(2-4) log by (intro exI[of _ "out @ outs"]) (auto simp: frames_out_def)
qed auto

lemma concat_codec_input:
  assumes "list_all (short_frame (FormatF32, sr, ch, n)) outs" "0 < ch" "0 < n" "frames_ok n True outs"
  shows "\<exists>k < nat (n * ch). concat (map (codec_input n) outs) = concat (map p_f32 outs) @ replicate k 0"
proof (cases outs rule: rev_cases)
  case Nil
  then show ?thesis using assms(2,3) by (intro exI[of _ 0]) simp
next
  case (snoc init p)
  have "codec_input n q = p_f32 q" if "q \<in> set init" for q
  proof -
    have "short_frame (FormatF32, sr, ch, n) q" "Len q = n" using assms(1,3,4) snoc that by (auto simp: list_all_iff frames_ok_def)
    then show ?thesis using codec_input_short(2) by fastforce
  qed
  then have "concat (map (codec_input n) init) = concat (map p_f32 init)" by (simp cong: map_cong)
  moreover have p: "short_frame (FormatF32, sr, ch, n) p" using assms(1) snoc by simp
  moreover have "nat ((n - Len p) * ch) < nat (n * ch)" using p assms(2,3) by (auto simp: short_frame_def nat_mono_iff)
  ultimately show ?thesis using codec_input_short(2)[OF p] snoc by auto
qed

lemma enc_f32: "list_all (short_frame (FormatF32, sr, ch, n)) outs \<Longrightarrow> concat (map Bytes outs) = enc FormatF32 (concat (map p_f32 outs))"
  by (induction outs) (auto simp: enc_append short_frame_def Bytes_def enc_def)

lemma enc_f32_inj: "enc FormatF32 xs = enc FormatF32 ys \<Longrightarrow> xs = ys"
  by (drule arg_cong[where f = decode_f32]) (simp add: enc_def decode_f32_bytes)

section \<open>Properties\<close>

text \<open>The codec always gets whole frames. For every configuration the encoder accepts and every sequence of
  \<open>Encode\<close>, \<open>Flush\<close>, \<open>Reset\<close> and \<open>EncodeSilence\<close>, with buffers of any rates, channel counts and formats that change at will, no call panics and
  every call of the codec gets exactly the samples of one frame, which last the configured frame duration without rounding. When no
  call reports an error, there is exactly one codec call per packet returned.\<close>

theorem opus_whole_frames:
  assumes "NewEncoder_opus (recording G) cfg = Some (Inr e)"
    and "all_kernels_ok K (c_SampleRate (withDefaults cfg))" and "list_all op_ok ops"
  shows "\<exists>rs e'. enc_run (recording G) K ops e = Some (rs, e') \<and>
    list_all (\<lambda>xs. int (length xs) = e_frameSamples e * c_Channels (withDefaults cfg)) (snd (e_enc e')) \<and>
    e_frameSamples e * Second = FrameDuration_oe e * c_SampleRate (withDefaults cfg) \<and>
    (list_ex isl rs \<or> length (snd (e_enc e')) = length (concat (map packets_of rs)))"
proof -
  note new = NewEncoder_ok[OF assms(1)]
  from enc_run_ok[OF new(1)[of K], of ops G] assms(2,3) new(2,3) obtain rs e' where
    "enc_run (recording G) K ops e = Some (rs, e')" "enc_ok K e'" "e_cfg e' = withDefaults cfg" "e_frameSamples e' = e_frameSamples e"
    "list_ex isl rs \<or> length (snd (e_enc e')) = length (concat (map packets_of rs))"
    by auto
  moreover have "frameSamples (withDefaults cfg) = Inr (e_frameSamples e)" using new(1,3) by (simp add: enc_ok_def)
  ultimately show ?thesis
    using frameSamples_exact(2) new(3) by (auto simp: enc_ok_def FrameDuration_oe_def)
qed


text \<open>C23: what the codec hears. For input buffers of one rate and channel count cut in any way, encoding them all and flushing does not panic;
  if no call reports an error, the samples the codec was given, one frame after the other, are the one-formula conversion
  of the whole input followed by less than one frame of silence.\<close>

theorem opus_stream_heard:
  assumes "NewEncoder_opus (recording G) cfg = Some (Inr e)" and "0 < ir" "0 < ic"
    and "all_kernels_ok K (c_SampleRate (withDefaults cfg))"
    and "list_all (\<lambda>p. pcm_wf p \<and> p_SampleRate p = ir \<and> p_Channels p = ic) ps"
  shows "\<exists>rs e'. enc_run (recording G) K (map EncodeOp ps @ [FlushOp]) e = Some (rs, e') \<and>
    (list_ex isl rs \<or> (\<exists>k < nat (e_frameSamples e * c_Channels (withDefaults cfg)).
       concat (snd (e_enc e')) =
         resample_ref K ir (c_SampleRate (withDefaults cfg)) (nat (min ic (c_Channels (withDefaults cfg)))) (nat (c_Channels (withDefaults cfg)))
           (mixdown K (nat (min ic (c_Channels (withDefaults cfg)))) (nat ic) (concat (map floats ps))) @ replicate k 0))"
proof -
  define c where "c = withDefaults cfg"
  note new = NewEncoder_ok[OF assms(1)]
  have ops: "list_all op_ok (map EncodeOp ps @ [FlushOp])" using assms(5) by (auto simp: list_all_iff op_ok_def)
  from enc_run_ok[OF new(1) _ ops] assms(4) new(3) obtain rs e' where
    run: "enc_run (recording G) K (map EncodeOp ps @ [FlushOp]) e = Some (rs, e')" by fastforce
  show ?thesis
  proof (cases "list_ex isl rs")
    case False
    obtain rs1 e1 r where r: "enc_run (recording G) K (map EncodeOp ps) e = Some (rs1, e1)" "Flush_oe (recording G) K e1 = Some (r, e')"
        "rs = rs1 @ [r]"
      using run by (auto simp: enc_run_append split: option.splits)
    have wf: "list_all pcm_wf ps" using assms(5) by (auto simp: list_all_iff)
    obtain outs where w: "write_all K (e_resampler e) ps = Some (outs, e_resampler e1)" "enc_ok K e1" "e_cfg e1 = e_cfg e"
        "e_frameSamples e1 = e_frameSamples e" "list_all (short_frame (sr_params (e_resampler e))) outs"
        "snd (e_enc e1) = map (codec_input (e_frameSamples e)) outs"
      using enc_run_writes[OF new(1) _ wf r(1)] assms(4) new(2,3) False r(3) by auto
    obtain tl s where fl: "Flush_sr K (e_resampler e1) = Some (tl, s)" "frames_out K (e_resampler e1) (tl, s)"
      by (rule Flush_sr_short[of K "e_resampler e1"]) (use enc_ok_rate[OF w(2)] assms(4) new(3) w(3) in \<open>auto simp: all_kernels_ok_def\<close>)
    have "encodeFrames (recording G) tl (e1\<lparr>e_resampler := s\<rparr>) = (r, e')" using r(2) fl(1) by (simp add: Flush_oe_def)
    note e' = encodeFrames_ok(5)[OF w(2) fl(2) this]
    have heard: "snd (e_enc e') = map (codec_input (e_frameSamples e)) (outs @ tl)"
      using e' False r(3) w(4,6) by (cases r) auto
    have P: "sr_params (e_resampler e) = (FormatF32, c_SampleRate c, c_Channels c, e_frameSamples e)"
        "sr_params (e_resampler e1) = sr_params (e_resampler e)"
      using new(1)[of K] w(2-4) new(3) by (auto simp: enc_ok_def c_def)
    have short: "list_all (short_frame (FormatF32, c_SampleRate c, c_Channels c, e_frameSamples e)) (outs @ tl)"
      using w(5) fl(2) P by (simp add: frames_out_def)
    have fsz: "0 < e_frameSamples e" "0 < c_SampleRate c" "0 < c_Channels c"
      using frameSamples_exact new(1)[of K] new(3) by (auto simp: enc_ok_def c_def)
    have cs: "convert_stream K FormatF32 (c_SampleRate c) (c_Channels c) (e_frameSamples e) ps = Some (outs @ tl)"
      using w(1) fl(1) new(3,5) by (simp add: convert_stream_def c_def)
    have "\<exists>o'. convert_stream K FormatF32 (c_SampleRate c) (c_Channels c) (e_frameSamples e) ps = Some o' \<and>
      concat (map Bytes o') = enc FormatF32 (resample_ref K ir (c_SampleRate c) (nat (min ic (c_Channels c))) (nat (c_Channels c))
        (mixdown K (nat (min ic (c_Channels c))) (nat ic) (concat (map floats ps)))) \<and> frames_ok (e_frameSamples e) True o'"
      by (rule convert_stream_ok)
         (use fsz assms(2-5) in \<open>auto simp: validate_None Valid_def all_kernels_ok_def same_input_def list_all_iff c_def\<close>)
    then have cv: "enc FormatF32 (concat (map p_f32 (outs @ tl))) = enc FormatF32 (resample_ref K ir (c_SampleRate c) (nat (min ic (c_Channels c))) (nat (c_Channels c))
        (mixdown K (nat (min ic (c_Channels c))) (nat ic) (concat (map floats ps))))" "frames_ok (e_frameSamples e) True (outs @ tl)"
      using cs enc_f32[OF short] by auto
    from concat_codec_input[OF short fsz(3,1) cv(2)] run heard enc_f32_inj[OF cv(1)] show ?thesis
      unfolding c_def[symmetric] by auto
  qed (use run in auto)
qed

text \<open>A codec whose packets are as many bytes as it was given samples, and a filter as wide as the input rate.\<close>

definition counting_gopus :: "(unit, unit) gopus" where
  "counting_gopus =
    \<lparr>g_NewEncoder = (\<lambda>_ _ _. Inr ()), g_SetBitrate = (\<lambda>_. Inr), g_SetComplexity = (\<lambda>_. Inr), g_SetInBandFEC = Inr, g_SetPacketLoss = (\<lambda>_. Inr),
     g_SetDTX = (\<lambda>_ g. g), g_Encode = (\<lambda>g xs n. (Inr (replicate (length xs) 1), g)), g_ResetEncoder = id,
     g_MaxPacketSamples = (\<lambda>_ _. 5760), g_NewDecoder = (\<lambda>_ _. Inr ()),
     g_Decode = (\<lambda>d p buf. (Inr (if p = [] then int (length buf) else int (length p)), buf, d)),
     g_DecodeWithFEC = (\<lambda>d p buf _. (Inr (int (length buf)), buf, d)), g_ResetDecoder = id\<rparr>"

definition wide_kernel :: kernel where
  "wide_kernel = \<lparr>k_halfTaps = (\<lambda>ir _. max 1 ir), k_interp = (\<lambda>_ _ _ _ xs. hd xs), k_mean = hd\<rparr>"

lemma wide_kernel_ok: "0 < rate \<Longrightarrow> all_kernels_ok wide_kernel rate"
  using mult_left_mono[of 1 rate] by (auto simp: all_kernels_ok_def kernel_ok_def wide_kernel_def intro: order_trans[OF _ mult_left_mono[of 1]])

definition short_cfg :: opus_Config where
  "short_cfg = \<lparr>c_SampleRate = 8000, c_Channels = 0, c_FrameDuration = 2500000, c_Application = ApplicationVoIP, c_Bitrate = 0,
     c_Complexity = 0, c_FEC = True, c_PacketLossPercent = 0, c_DTX = False\<rparr>"

definition short_encoder :: "(unit \<times> float32 list list) Encoder" where
  "short_encoder = \<lparr>e_enc = ((), []), e_cfg = withDefaults short_cfg, e_frameSamples = 20,
     e_resampler = \<lparr>r_format = FormatF32, r_sampleRate = 8000, r_channels = 1, r_frameSize = 20,
       r_inRate = 0, r_inChannels = 0, r_configured = False, r_filter = None, r_buf = [], r_mid = 0,
       r_posInt = 0, r_posFrac = 0, r_stepNum = 0, r_stepDen = 0, r_pending = [], r_emitted = 0\<rparr>,
     e_silence = zero_PCM\<lparr>p_Format := FormatF32, p_SampleRate := 8000, p_Channels := 1, p_f32 := replicate 20 0\<rparr>\<rparr>"

definition one_sample :: PCM where
  "one_sample = zero_PCM\<lparr>p_Format := FormatF32, p_SampleRate := 8000, p_Channels := 1, p_f32 := [5]\<rparr>"

theorem opus_whole_frames_witness:
  "NewEncoder_opus (recording counting_gopus) short_cfg = Some (Inr short_encoder) \<and>
   (\<exists>rs e'. enc_run (recording counting_gopus) wide_kernel [EncodeOp one_sample, FlushOp, SilenceOp] short_encoder = Some (rs, e') \<and>
     list_all (\<lambda>xs. length xs = 20) (snd (e_enc e')) \<and> length (snd (e_enc e')) = 2)"
proof -
  have new: "NewEncoder_opus (recording counting_gopus) short_cfg = Some (Inr short_encoder)" by code_simp
  have rate: "c_SampleRate (withDefaults short_cfg) = 8000" "c_Channels (withDefaults short_cfg) = 1" "e_frameSamples short_encoder = 20"
    by (simp_all add: withDefaults_def short_cfg_def short_encoder_def Let_def DefaultChannels_def)
  have ops: "list_all op_ok [EncodeOp one_sample, FlushOp, SilenceOp]"
    by (simp add: op_ok_def one_sample_def pcm_wf_def zero_PCM_def NumSamples_def validate_def Valid_def)
  have run: "map_option (\<lambda>(rs, e). (map isl rs, map length (snd (e_enc e))))
      (enc_run (recording counting_gopus) wide_kernel [EncodeOp one_sample, FlushOp, SilenceOp] short_encoder) = Some ([False, False, False], [20, 20])"
    by code_simp
  have k: "all_kernels_ok wide_kernel (c_SampleRate (withDefaults short_cfg))" using wide_kernel_ok[of 8000] rate by simp
  from opus_whole_frames[OF new k ops] run rate new show ?thesis
    by (auto simp: list_all_iff)
qed


theorem opus_stream_heard_witness:
  "\<exists>rs e'. enc_run (recording counting_gopus) wide_kernel [EncodeOp one_sample, EncodeOp one_sample, FlushOp] short_encoder = Some (rs, e') \<and>
     (\<exists>k < 20. concat (snd (e_enc e')) = [5, 5] @ replicate k 0)"
proof -
  have new: "NewEncoder_opus (recording counting_gopus) short_cfg = Some (Inr short_encoder)" by code_simp
  have c: "c_SampleRate (withDefaults short_cfg) = 8000" "c_Channels (withDefaults short_cfg) = 1" "e_frameSamples short_encoder = 20"
    by (simp_all add: withDefaults_def short_cfg_def short_encoder_def Let_def DefaultChannels_def)
  have wf: "list_all (\<lambda>p. pcm_wf p \<and> p_SampleRate p = 8000 \<and> p_Channels p = 1) [one_sample, one_sample]"
    by (simp add: one_sample_def pcm_wf_def zero_PCM_def NumSamples_def validate_def Valid_def)
  have run: "map_option (\<lambda>(rs, e). map isl rs)
      (enc_run (recording counting_gopus) wide_kernel [EncodeOp one_sample, EncodeOp one_sample, FlushOp] short_encoder) = Some [False, False, False]"
    by code_simp
  have ref: "resample_ref wide_kernel 8000 8000 1 1 (mixdown wide_kernel 1 1 (floats one_sample @ floats one_sample)) = [5, 5]"
    by code_simp
  have k: "all_kernels_ok wide_kernel (c_SampleRate (withDefaults short_cfg))" using wide_kernel_ok[of 8000] c by simp
  from opus_stream_heard[OF new _ _ k wf] run ref show ?thesis by (simp add: c) fastforce
qed

end
