(* ===== verification/Track.thy ===== *)
theory Track
  imports Prelude
begin

text \<open>
  Writing a published track, \<open>track/local.go\<close>: the sample clock that places samples on the RTP timeline,
  the stamping of header extensions, and \<open>WriteSample\<close>. RTP time is 32 bits wide and wraps; durations are
  multiplied by the clock rate in 64 bits. pion's packetizer, its sequencer, \<open>SetExtension\<close> and the write to
  the wire are arguments (a record \<open>pion\<close>), and what the timeline relies on of the packetizer is the
  hypothesis \<open>packetizer_ok\<close>. The negotiation parameters of a binding come from pion's context.
\<close>

section \<open>The sample clock\<close>

record sample =
  s_Data :: "byte list"
  s_Timestamp :: "time option"
  s_Duration :: duration
  s_PacketTimestamp :: uint32
  s_PrevDroppedPackets :: uint16

text \<open>The zero \<open>time.Time\<close> is \<open>None\<close>.\<close>

record sampleClock =
  c_started :: bool
  c_start :: uint32
  c_end :: uint32
  c_wall :: "time option"

definition new_clock :: sampleClock where
  "new_clock = \<lparr>c_started = False, c_start = 0, c_end = 0, c_wall = None\<rparr>"

datatype track_error = InvalidDurationSample | OutOfOrderSample | ExtensionError | WriteError | NoPayloaderForCodec

text \<open>\<open>uint32(int64(d) * int64(rate) / int64(time.Second))\<close>.\<close>

definition ticks :: "duration \<Rightarrow> uint32 \<Rightarrow> uint32" where
  "ticks d rate = word_of_int (tdiv (i64 (d * uint rate)) Second)"

text \<open>\<open>Time.Sub\<close> saturates at the limits of \<open>Duration\<close>.\<close>

definition time_sub :: "time \<Rightarrow> time \<Rightarrow> duration" where
  "time_sub a b = max (- (2 ^ 63)) (min (2 ^ 63 - 1) (a - b))"

definition clock_target :: "sampleClock \<Rightarrow> sample \<Rightarrow> uint32 \<Rightarrow> uint32 \<Rightarrow> track_error + uint32" where
  "clock_target c s rate start =
    (if s_PacketTimestamp s \<noteq> 0 then
       (if sint (s_PacketTimestamp s - c_start c) < 0 then Inl OutOfOrderSample else Inr (s_PacketTimestamp s))
     else
       case (s_Timestamp s, c_wall c) of
         (Some t, Some w) \<Rightarrow>
           (if t < w then Inl OutOfOrderSample else Inr (c_start c + ticks (time_sub t w) rate))
       | _ \<Rightarrow> Inr start)"

definition place :: "sampleClock \<Rightarrow> sample \<Rightarrow> uint32 \<Rightarrow> (track_error + uint32 \<times> uint32) \<times> sampleClock" where
  "place c s rate =
    (if s_Duration s < 0 then (Inl InvalidDurationSample, c)
     else
       let span = ticks (s_Duration s) rate;
           dropped = ucast (s_PrevDroppedPackets s) * span;
           c = (if \<not> c_started c \<and> s_PacketTimestamp s \<noteq> 0 then c\<lparr>c_end := s_PacketTimestamp s - dropped\<rparr> else c);
           start = c_end c + dropped
       in case (if c_started c then clock_target c s rate start else Inr start) of
            Inl e \<Rightarrow> (Inl e, c)
          | Inr target \<Rightarrow>
             (let start = (if c_started c \<and> sint (target - start) > 0 then target else start) in
              (Inr (start - c_end c, span),
               c\<lparr>c_started := True, c_start := start, c_end := start + span, c_wall := s_Timestamp s\<rparr>)))"

section \<open>Bindings and packets\<close>

text \<open>The operations of pion on its packetizer and sequencer \<open>'p\<close>, on packets, and the track's own
  write. \<open>w_written\<close> records what reached the wire.\<close>

record 'p pion =
  NextSequenceNumber :: "'p \<Rightarrow> 'p"
  SkipSamples :: "'p \<Rightarrow> uint32 \<Rightarrow> 'p"
  Packetize :: "'p \<Rightarrow> byte list \<Rightarrow> uint32 \<Rightarrow> rtp_packet list \<times> 'p"
  SetExtension :: "rtp_packet \<times> (uint8 \<times> byte list) list \<Rightarrow> uint8 \<Rightarrow> byte list \<Rightarrow> (rtp_packet \<times> (uint8 \<times> byte list) list) option"
  AudioLevelMarshal :: "uint8 \<Rightarrow> byte list option"
  wire_ok :: "rtp_packet \<times> (uint8 \<times> byte list) list \<Rightarrow> bool"

type_synonym ext_packet = "rtp_packet \<times> (uint8 \<times> byte list) list"

record 'p binding =
  b_ssrc :: uint32
  b_audioLevelID :: uint8
  b_midID :: uint8
  b_ridID :: uint8
  b_acked :: bool
  b_packetizer :: 'p
  b_clockRate :: uint32
  b_clock :: sampleClock

datatype VideoQuality = VQ_HIGH | VQ_MID | VQ_LOW | VQ_OTHER

text \<open>The RTP stream ID of a simulcast layer.\<close>

definition rid :: "VideoQuality option \<Rightarrow> string" where
  "rid layer =
    (case layer of
       None \<Rightarrow> ''''
     | Some q \<Rightarrow> (case q of VQ_HIGH \<Rightarrow> ''f'' | VQ_MID \<Rightarrow> ''h'' | VQ_LOW \<Rightarrow> ''q'' | VQ_OTHER \<Rightarrow> ''''))"

datatype payloader = H264Payloader | OpusPayloader | VP8Payloader | VP9Payloader | G722Payloader | G711Payloader | AV1Payloader

text \<open>\<open>payloaderForCodec\<close> on the MIME type in lower case.\<close>

definition payloaderForCodec :: "string \<Rightarrow> track_error + payloader" where
  "payloaderForCodec mime =
    (if mime = ''video/h264'' then Inr H264Payloader
     else if mime = ''audio/opus'' \<or> mime = ''audio/red'' then Inr OpusPayloader
     else if mime = ''video/vp8'' then Inr VP8Payloader
     else if mime = ''video/vp9'' then Inr VP9Payloader
     else if mime = ''audio/g722'' then Inr G722Payloader
     else if mime = ''audio/pcmu'' \<or> mime = ''audio/pcma'' then Inr G711Payloader
     else if mime = ''video/av1'' then Inr AV1Payloader
     else Inl NoPayloaderForCodec)"

datatype ext_uri = AudioLevelURI | SDESMidURI | SDESRTPStreamIDURI | OtherURI string

definition bind_extension :: "ext_uri \<times> uint8 \<Rightarrow> 'p binding \<Rightarrow> 'p binding" where
  "bind_extension ext b =
    (case fst ext of
       AudioLevelURI \<Rightarrow> b\<lparr>b_audioLevelID := snd ext\<rparr>
     | SDESMidURI \<Rightarrow> b\<lparr>b_midID := snd ext\<rparr>
     | SDESRTPStreamIDURI \<Rightarrow> b\<lparr>b_ridID := snd ext\<rparr>
     | OtherURI _ \<Rightarrow> b)"

text \<open>\<open>packetizer\<close> builds pion's packetizer for a payloader, and \<open>wrap\<close> the RED packetizer around it.\<close>

definition newBinding ::
    "(payloader \<Rightarrow> 'p) \<Rightarrow> ('p \<Rightarrow> 'p) \<Rightarrow> uint32 \<Rightarrow> (ext_uri \<times> uint8) list \<Rightarrow> string \<Rightarrow> uint32 \<Rightarrow> track_error + 'p binding" where
  "newBinding packetizer wrap ssrc exts mime clockRate =
    (case payloaderForCodec mime of
       Inl e \<Rightarrow> Inl e
     | Inr payloader \<Rightarrow>
        Inr (fold bind_extension exts
          \<lparr>b_ssrc = ssrc, b_audioLevelID = 0, b_midID = 0, b_ridID = 0, b_acked = False,
           b_packetizer = (if mime = ''audio/red'' then wrap (packetizer payloader) else packetizer payloader),
           b_clockRate = clockRate, b_clock = new_clock\<rparr>))"

text \<open>\<open>stamp\<close>: the audio level if there is one, then mid and rid of a simulcast layer until the SFU has
  reported on the stream. \<open>mid\<close> is the transceiver's mid, if a transceiver is set.\<close>

definition set_ext :: "'p pion \<Rightarrow> uint8 \<Rightarrow> byte list \<Rightarrow> ext_packet \<Rightarrow> track_error + ext_packet" where
  "set_ext P i v p = (case SetExtension P p i v of None \<Rightarrow> Inl ExtensionError | Some p \<Rightarrow> Inr p)"

definition stamp_level :: "'p pion \<Rightarrow> 'p binding \<Rightarrow> uint8 option \<Rightarrow> ext_packet \<Rightarrow> track_error + ext_packet" where
  "stamp_level P b level p =
    (case level of
       None \<Rightarrow> Inr p
     | Some l \<Rightarrow>
        (if b_audioLevelID b = 0 then Inr p
         else case AudioLevelMarshal P l of None \<Rightarrow> Inl ExtensionError | Some v \<Rightarrow> set_ext P (b_audioLevelID b) v p))"

definition stamp ::
    "'p pion \<Rightarrow> 'p binding \<Rightarrow> byte list \<Rightarrow> byte list option \<Rightarrow> uint8 option \<Rightarrow> ext_packet \<Rightarrow> track_error + ext_packet" where
  "stamp P b rid_bytes mid level p =
    (case stamp_level P b level p of
       Inl e \<Rightarrow> Inl e
     | Inr p \<Rightarrow>
        (if rid_bytes = [] \<or> b_acked b then Inr p
         else case mid of
           None \<Rightarrow> Inr p
         | Some m \<Rightarrow>
            (if m = [] then Inr p
             else case (if b_midID b \<noteq> 0 then set_ext P (b_midID b) m p else Inr p) of
               Inl e \<Rightarrow> Inl e
             | Inr p \<Rightarrow> (if b_ridID b \<noteq> 0 then set_ext P (b_ridID b) rid_bytes p else Inr p))))"

text \<open>\<open>write\<close>: the packet that reached the wire, if any, and the error.\<close>

definition write_packet ::
    "'p pion \<Rightarrow> 'p binding option \<Rightarrow> byte list \<Rightarrow> byte list option \<Rightarrow> uint8 option \<Rightarrow> rtp_packet \<Rightarrow>
     ext_packet option \<times> track_error option" where
  "write_packet P b rid_bytes mid level p =
    (case (case b of None \<Rightarrow> Inr (p, []) | Some b \<Rightarrow> stamp P b rid_bytes mid level (p, [])) of
       Inl e \<Rightarrow> (None, Some e)
     | Inr p \<Rightarrow> if wire_ok P p then (Some p, None) else (None, Some WriteError))"

definition WriteSample ::
    "'p pion \<Rightarrow> byte list \<Rightarrow> byte list option \<Rightarrow> 'p binding option \<Rightarrow> sample \<Rightarrow> uint8 option \<Rightarrow>
     (ext_packet list \<times> track_error option) \<times> 'p binding option" where
  "WriteSample P rid_bytes mid binding sample level =
    (case binding of
       None \<Rightarrow> (([], None), None)
     | Some b \<Rightarrow>
        (case place (b_clock b) sample (b_clockRate b) of
           (Inl e, clock) \<Rightarrow> (([], Some e), Some (b\<lparr>b_clock := clock\<rparr>))
         | (Inr (skip, span), clock) \<Rightarrow>
            (let pk = (NextSequenceNumber P ^^ unat (s_PrevDroppedPackets sample)) (b_packetizer b);
                 pk = SkipSamples P pk skip;
                 (packets, pk) = Packetize P pk (s_Data sample) span;
                 results = map (write_packet P (Some b) rid_bytes mid level) packets
             in ((List.map_filter fst results,
                  (case List.map_filter snd results of [] \<Rightarrow> None | e # _ \<Rightarrow> Some e)),
                 Some (b\<lparr>b_clock := clock, b_packetizer := pk\<rparr>)))))"

definition reportsOn :: "uint32 list \<Rightarrow> uint32 \<Rightarrow> bool" where
  "reportsOn report_ssrcs ssrc = list_ex (\<lambda>s. s = ssrc) report_ssrcs"

definition WriteRTP ::
    "'p pion \<Rightarrow> byte list \<Rightarrow> byte list option \<Rightarrow> 'p binding option \<Rightarrow> rtp_packet \<Rightarrow> uint8 option \<Rightarrow>
     ext_packet option \<times> track_error option" where
  "WriteRTP P rid_bytes mid binding p level = write_packet P binding rid_bytes mid level p"

definition SSRC_track :: "'p binding option \<Rightarrow> uint32" where
  "SSRC_track binding = (case binding of Some b \<Rightarrow> b_ssrc b | None \<Rightarrow> 0)"

text \<open>A receiver report carries the SSRCs it reports on.\<close>

datatype rtcp = PictureLossIndication | FullIntraRequest | ReceiverReport "uint32 list" | OtherRTCP nat

text \<open>The default handler: whether the provider, if it makes key frames, is asked for one.\<close>

definition requestKeyFrame :: "bool \<Rightarrow> rtcp \<Rightarrow> bool" where
  "requestKeyFrame isKeyFramer pkt \<longleftrightarrow>
    (case pkt of PictureLossIndication \<Rightarrow> isKeyFramer | FullIntraRequest \<Rightarrow> isKeyFramer | _ \<Rightarrow> False)"

text \<open>The loop of \<open>readRTCP\<close> over the reads before the one that fails, each the packets it holds or \<open>None\<close> where they
  do not parse: the packets handed to the handler, and the binding's \<open>acked\<close> flag.\<close>

definition rtcp_packet_in :: "bool \<Rightarrow> rtcp \<Rightarrow> rtcp list \<times> 'p binding \<Rightarrow> rtcp list \<times> 'p binding" where
  "rtcp_packet_in hasHandler pkt = (\<lambda>(handled, b).
    (if hasHandler then handled @ [pkt] else handled,
     case pkt of
       ReceiverReport ssrcs \<Rightarrow> (if reportsOn ssrcs (b_ssrc b) then b\<lparr>b_acked := True\<rparr> else b)
     | _ \<Rightarrow> b))"

fun readRTCP :: "bool \<Rightarrow> rtcp list option list \<Rightarrow> rtcp list \<times> 'p binding \<Rightarrow> rtcp list \<times> 'p binding" where
  "readRTCP hasHandler [] st = st"
| "readRTCP hasHandler (None # reads) st = readRTCP hasHandler reads st"
| "readRTCP hasHandler (Some pkts # reads) st = readRTCP hasHandler reads (fold (rtcp_packet_in hasHandler) pkts st)"

text \<open>The codec a track offers, and the \<open>Red\<close> flag of its info where \<open>NewLocalTrack\<close> sets it.\<close>

record codec_cap =
  cc_MimeType :: string
  cc_ClockRate :: uint32
  cc_Channels :: uint16
  cc_SDPFmtpLine :: string

definition ascii_lower :: "string \<Rightarrow> string" where
  "ascii_lower = map (\<lambda>c. if 65 \<le> (of_char c :: nat) \<and> (of_char c :: nat) \<le> 90 then char_of (of_char c + 32 :: nat) else c)"

definition track_codec :: "bool \<Rightarrow> codec_cap \<Rightarrow> codec_cap \<times> bool option" where
  "track_codec isREDEnabled c =
    (if take 5 (ascii_lower (cc_MimeType c)) = ''audio'' then
       (if isREDEnabled
        then \<lparr>cc_MimeType = ''audio/red'', cc_ClockRate = 48000, cc_Channels = 2, cc_SDPFmtpLine = ''111/111''\<rparr> else c,
        Some isREDEnabled)
     else (c, None))"

record NullSampleProvider =
  n_BytesPerSample :: uint32
  n_SampleDuration :: duration

definition nullSamplesPerSecond :: uint32 where "nullSamplesPerSecond = 30"

definition NewNullSampleProvider :: "uint32 \<Rightarrow> NullSampleProvider" where
  "NewNullSampleProvider bitrate =
     \<lparr>n_BytesPerSample = bitrate div nullSamplesPerSecond div 8,
      n_SampleDuration = tdiv Second (uint nullSamplesPerSecond)\<rparr>"

definition NextSample_null :: "NullSampleProvider \<Rightarrow> sample" where
  "NextSample_null p = \<lparr>s_Data = replicate (unat (n_BytesPerSample p)) 0, s_Timestamp = None,
     s_Duration = n_SampleDuration p, s_PacketTimestamp = 0, s_PrevDroppedPackets = 0\<rparr>"

section \<open>Acknowledged layers\<close>

lemma fold_rtcp_binding:
  "snd (fold (rtcp_packet_in h) pkts (hs, b)) =
     b\<lparr>b_acked := b_acked b \<or> (\<exists>ssrcs. ReceiverReport ssrcs \<in> set pkts \<and> b_ssrc b \<in> set ssrcs)\<rparr>"
proof (induction pkts arbitrary: hs b)
  case (Cons pkt pkts)
  then show ?case by (cases pkt; cases b) (auto simp: rtcp_packet_in_def reportsOn_def list_ex_iff)
qed simp

text \<open>A binding is acknowledged exactly when a report on its SSRC was read; from then on no packet is
  stamped with mid and rid.\<close>

lemma readRTCP_acked:
  "b_acked (snd (readRTCP h reads (hs, b))) \<longleftrightarrow>
     b_acked b \<or> (\<exists>pkts ssrcs. Some pkts \<in> set reads \<and> ReceiverReport ssrcs \<in> set pkts \<and> b_ssrc b \<in> set ssrcs)"
proof (induction reads arbitrary: hs b)
  case (Cons r reads)
  show ?case
  proof (cases r)
    case (Some pkts)
    obtain hs' b' where f: "fold (rtcp_packet_in h) pkts (hs, b) = (hs', b')" by fastforce
    with fold_rtcp_binding[of h pkts hs b] have "b' = b\<lparr>b_acked := b_acked b \<or>
        (\<exists>ssrcs. ReceiverReport ssrcs \<in> set pkts \<and> b_ssrc b \<in> set ssrcs)\<rparr>" by simp
    then show ?thesis using Cons f Some by auto
  qed (use Cons in auto)
qed simp

lemma stamp_acked: "b_acked b \<Longrightarrow> stamp P b rid_bytes mid None p = Inr p"
  by (simp add: stamp_def stamp_level_def)

section \<open>The RTP timeline\<close>

text \<open>What the timeline relies on of pion, with \<open>ts\<close> the packetizer's current timestamp: only \<open>SkipSamples\<close> and
  \<open>Packetize\<close> move it, every packet of one call carries it, and setting an extension leaves the rest
  of a packet alone. A call with no data is not covered: pion returns no packets then and stays put.\<close>

definition pion_ok :: "'p pion \<Rightarrow> ('p \<Rightarrow> uint32) \<Rightarrow> bool" where
  "pion_ok P ts \<longleftrightarrow>
     (\<forall>p. ts (NextSequenceNumber P p) = ts p) \<and> (\<forall>p n. ts (SkipSamples P p n) = ts p + n) \<and>
     (\<forall>p d n. d \<noteq> [] \<longrightarrow> ts (snd (Packetize P p d n)) = ts p + n \<and>
        (\<forall>q \<in> set (fst (Packetize P p d n)). Timestamp (Header q) = ts p)) \<and>
     (\<forall>p i v p'. SetExtension P p i v = Some p' \<longrightarrow> fst p' = fst p)"

lemma next_seq_ts: "pion_ok P ts \<Longrightarrow> ts ((NextSequenceNumber P ^^ n) p) = ts p"
  by (induction n) (auto simp: pion_ok_def)

lemma set_ext_packet: "pion_ok P ts \<Longrightarrow> set_ext P i v p = Inr p' \<Longrightarrow> fst p' = fst p"
proof -
  assume ok: "pion_ok P ts" and e: "set_ext P i v p = Inr p'"
  have law: "\<forall>p i v p'. SetExtension P p i v = Some p' \<longrightarrow> fst p' = fst p"
    using ok unfolding pion_ok_def by (elim conjE)
  have "SetExtension P p i v = Some p'" using e by (cases "SetExtension P p i v") (simp_all add: set_ext_def)
  then show "fst p' = fst p" using law[rule_format] by blast
qed

lemma stamp_packet:
  assumes "pion_ok P ts" "stamp P b rid_bytes mid level p = Inr p'"
  shows "fst p' = fst p"
proof -
  have level: "fst q = fst p" if "stamp_level P b level p = Inr q" for q
    using that set_ext_packet[OF assms(1)] by (auto simp: stamp_level_def split: option.splits if_splits)
  from assms(2) show ?thesis
    using level by (auto simp: stamp_def split: sum.splits option.splits if_splits dest!: set_ext_packet[OF assms(1)])
qed

lemma write_packet_sent: "pion_ok P ts \<Longrightarrow> fst (write_packet P b rid_bytes mid level p) = Some q \<Longrightarrow> fst q = p"
  by (auto simp: write_packet_def split: sum.splits option.splits if_splits dest: stamp_packet)

lemma place_started:
  fixes rate :: uint32
  assumes "c_started c" "0 \<le> s_Duration s"
  defines "span \<equiv> ticks (s_Duration s) rate"
  defines "due \<equiv> c_end c + ucast (s_PrevDroppedPackets s) * span"
  shows "(\<exists>e. place c s rate = (Inl e, c) \<and> clock_target c s rate due = Inl e) \<or>
    (\<exists>start. place c s rate = (Inr (start - c_end c, span),
        c\<lparr>c_started := True, c_start := start, c_end := start + span, c_wall := s_Timestamp s\<rparr>) \<and>
      0 \<le> sint (start - due) \<and>
      (s_PacketTimestamp s \<noteq> 0 \<and> 0 \<le> sint (s_PacketTimestamp s - due) \<longrightarrow> start = s_PacketTimestamp s) \<and>
      (s_PacketTimestamp s = 0 \<and> s_Timestamp s = None \<longrightarrow> start = due))"
proof (cases "clock_target c s rate due")
  case (Inl e)
  then show ?thesis using assms by (simp add: place_def Let_def)
next
  case (Inr t)
  define start where "start = (if 0 < sint (t - due) then t else due)"
  have "place c s rate = (Inr (start - c_end c, span),
        c\<lparr>c_started := True, c_start := start, c_end := start + span, c_wall := s_Timestamp s\<rparr>)"
    using assms Inr by (simp add: place_def Let_def start_def)
  moreover have "0 \<le> sint (start - due)" by (simp add: start_def)
  moreover have "start = s_PacketTimestamp s" if "s_PacketTimestamp s \<noteq> 0" "0 \<le> sint (s_PacketTimestamp s - due)"
  proof -
    have t: "t = s_PacketTimestamp s" using that Inr by (simp add: clock_target_def split: if_splits)
    show ?thesis
    proof (cases "sint (t - due) = 0")
      case True
      then have "t = due" by (simp add: signed_eq_0_iff)
      then show ?thesis using t by (simp add: start_def)
    qed (use that t in \<open>simp add: start_def\<close>)
  qed
  moreover have "start = due" if "s_PacketTimestamp s = 0" "s_Timestamp s = None"
    using that Inr by (simp add: clock_target_def start_def)
  ultimately show ?thesis by (intro disjI2 exI[of _ start]) simp
qed

text \<open>Where samples land on the RTP timeline. Once a track has written a sample, let \<open>due\<close> be the end of
  the previous sample plus the room of the dropped packets. A sample is either refused as out of
  order, and then nothing is sent and nothing changes; or all its packets carry one timestamp, at or
  after \<open>due\<close> on the 32-bit ring and so never inside the previous sample: the sample's own packet
  timestamp if that is not before \<open>due\<close>, and exactly \<open>due\<close> if it brings no time at all. The offset between
  the clock and the packetizer stays the same, so this holds for all following samples.\<close>

theorem track_sample_time:
  assumes pion: "pion_ok P ts" and b: "c_started (b_clock b)" and s: "s_Data s \<noteq> []" "0 \<le> s_Duration s"
    and w: "WriteSample P rid_bytes mid (Some b) s level = ((out, err), Some b')"
  defines "span \<equiv> ticks (s_Duration s) (b_clockRate b)"
  defines "due \<equiv> c_end (b_clock b) + ucast (s_PrevDroppedPackets s) * span"
  shows "(out = [] \<and> b' = b \<and> err = Some OutOfOrderSample) \<or>
    (\<exists>start. 0 \<le> sint (start - due) \<and>
       (\<forall>q \<in> set out. Timestamp (Header (fst q)) = ts (b_packetizer b) - c_end (b_clock b) + start) \<and>
       (s_PacketTimestamp s \<noteq> 0 \<and> 0 \<le> sint (s_PacketTimestamp s - due) \<longrightarrow> start = s_PacketTimestamp s) \<and>
       (s_PacketTimestamp s = 0 \<and> s_Timestamp s = None \<longrightarrow> start = due) \<and>
       c_started (b_clock b') \<and> c_start (b_clock b') = start \<and> c_end (b_clock b') = start + span \<and>
       ts (b_packetizer b') - c_end (b_clock b') = ts (b_packetizer b) - c_end (b_clock b))"
  using place_started[OF b s(2), of "b_clockRate b", folded span_def, folded due_def]
proof (elim disjE exE conjE)
  fix e assume e: "place (b_clock b) s (b_clockRate b) = (Inl e, b_clock b)" "clock_target (b_clock b) s (b_clockRate b) due = Inl e"
  then have "e = OutOfOrderSample" by (auto simp: clock_target_def split: if_splits option.splits)
  then show ?thesis using w e(1) by (simp add: WriteSample_def)
next
  fix start
  assume p: "place (b_clock b) s (b_clockRate b) = (Inr (start - c_end (b_clock b), span),
      (b_clock b)\<lparr>c_started := True, c_start := start, c_end := start + span, c_wall := s_Timestamp s\<rparr>)"
    and spec: "0 \<le> sint (start - due)"
      "s_PacketTimestamp s \<noteq> 0 \<and> 0 \<le> sint (s_PacketTimestamp s - due) \<longrightarrow> start = s_PacketTimestamp s"
      "s_PacketTimestamp s = 0 \<and> s_Timestamp s = None \<longrightarrow> start = due"
  define pk where "pk = SkipSamples P ((NextSequenceNumber P ^^ unat (s_PrevDroppedPackets s)) (b_packetizer b)) (start - c_end (b_clock b))"
  define base where "base = ts (b_packetizer b) - c_end (b_clock b)"
  have ts: "ts pk = base + start"
    using pion next_seq_ts[OF pion] by (simp add: pk_def pion_ok_def base_def)
  obtain packets pk' where pz: "Packetize P pk (s_Data s) span = (packets, pk')" by fastforce
  have pz': "ts pk' = base + start + span" "\<forall>q \<in> set packets. Timestamp (Header q) = base + start"
    using pion s(1) pz ts unfolding pion_ok_def by (metis fst_conv snd_conv)+
  have b': "b' = b\<lparr>b_clock := (b_clock b)\<lparr>c_started := True, c_start := start, c_end := start + span, c_wall := s_Timestamp s\<rparr>,
      b_packetizer := pk'\<rparr>"
    and out: "out = List.map_filter fst (map (write_packet P (Some b) rid_bytes mid level) packets)"
    using w p pz by (auto simp: WriteSample_def pk_def Let_def)
  have "Timestamp (Header (fst q)) = base + start" if q: "q \<in> set out" for q
  proof -
    from q out obtain pkt where "pkt \<in> set packets" "fst (write_packet P (Some b) rid_bytes mid level pkt) = Some q"
      by (force simp: List.map_filter_def)
    then show ?thesis using write_packet_sent[OF pion] pz'(2) by metis
  qed
  then show ?thesis
    using spec b' pz'(1) unfolding base_def[symmetric] by (intro disjI2 exI[of _ start]) simp
qed

text \<open>A packetizer that keeps a timestamp and sends one packet per call.\<close>

definition one_packet :: "uint32 pion" where
  "one_packet =
    \<lparr>NextSequenceNumber = id, SkipSamples = (+),
     Packetize = (\<lambda>t d n. (if d = [] then ([], t) else
       ([\<lparr>Header = \<lparr>Padding = False, Marker = False, PayloadType = 0, SequenceNumber = 0, Timestamp = t,
            SSRC = 0, PaddingSize = 0\<rparr>, Payload = d\<rparr>], t + n))),
     SetExtension = (\<lambda>p i v. Some p), AudioLevelMarshal = (\<lambda>l. Some [l]), wire_ok = (\<lambda>_. True)\<rparr>"

theorem track_sample_time_witness:
  "(\<lambda>b s. pion_ok one_packet id \<and> c_started (b_clock b) \<and> s_Data s \<noteq> [] \<and> 0 \<le> s_Duration s \<and>
     (\<exists>out err b'. WriteSample one_packet [] None (Some b) s None = ((out, err), Some b') \<and> err = None \<and>
        map (\<lambda>q. Timestamp (Header (fst q))) out = [960 + 1000] \<and> id (b_packetizer b') - c_end (b_clock b') = 1000))
   \<lparr>b_ssrc = 7, b_audioLevelID = 0, b_midID = 0, b_ridID = 0, b_acked = False, b_packetizer = 1960, b_clockRate = 48000,
     b_clock = \<lparr>c_started = True, c_start = 0, c_end = 960, c_wall = None\<rparr>\<rparr>
   \<lparr>s_Data = [1], s_Timestamp = None, s_Duration = 20000000, s_PacketTimestamp = 0, s_PrevDroppedPackets = 0\<rparr>"
proof -
  define b where "b = \<lparr>b_ssrc = 7, b_audioLevelID = 0, b_midID = 0, b_ridID = 0, b_acked = False, b_packetizer = 1960 :: uint32,
     b_clockRate = 48000, b_clock = \<lparr>c_started = True, c_start = 0, c_end = 960, c_wall = None\<rparr>\<rparr>"
  define s where "s = \<lparr>s_Data = [1], s_Timestamp = None, s_Duration = 20000000, s_PacketTimestamp = 0, s_PrevDroppedPackets = 0\<rparr>"
  have ok: "pion_ok one_packet id" by (auto simp: pion_ok_def one_packet_def)
  have hyp: "c_started (b_clock b)" "s_Data s \<noteq> []" "0 \<le> s_Duration s" by (simp_all add: b_def s_def)
  have "\<exists>out b'. WriteSample one_packet [] None (Some b) s None = ((out, None), Some b') \<and> length out = 1"
    by (simp add: WriteSample_def place_def clock_target_def one_packet_def b_def s_def write_packet_def stamp_def
        stamp_level_def List.map_filter_def Let_def)
  then obtain out b' where w: "WriteSample one_packet [] None (Some b) s None = ((out, None), Some b')" "length out = 1"
    by blast
  have t: "\<forall>q \<in> set out. Timestamp (Header (fst q)) = 1960" "id (b_packetizer b') - c_end (b_clock b') = 1000"
    using track_sample_time[OF ok hyp w(1)] by (auto simp: b_def s_def)
  obtain q where q: "out = [q]" using w(2) by (auto simp: length_Suc_conv)
  show ?thesis
    unfolding b_def[symmetric] s_def[symmetric] using ok hyp w(1) t q by auto
qed

end
