(* ===== verification/AudioWriter.thy ===== *)
theory AudioWriter
  imports Complex_Main Opus Track "HOL-Library.Sublist"
begin

text \<open>
  Publishing PCM, \<open>writer.go\<close> of package \<open>audio/rtc\<close>: the \<open>TrackWriter\<close> with its bounded queue of encoded frames, the audio level of
  each frame, and the sample provider a track pulls from. The deque that holds the queue is a third-party
  library, so its operations are an argument, and \<open>deque_ok\<close> is what is relied on of them. The loudness of a buffer is
  an argument too: decibels as a rational number, or \<open>None\<close> for minus infinity. \<open>None\<close> as a result is a panic or a loop that does not end.
\<close>

section \<open>State\<close>

record queuedFrame =
  qf_data :: "byte list"
  qf_level :: uint8

record 'q deque =
  dq_New :: 'q
  dq_PushBack :: "'q \<Rightarrow> queuedFrame \<Rightarrow> 'q"
  dq_PopFront :: "'q \<Rightarrow> queuedFrame \<times> 'q"
  dq_Len :: "'q \<Rightarrow> int"
  dq_Clear :: "'q \<Rightarrow> 'q"

text \<open>The deque holds the list \<open>L q\<close>.\<close>

definition deque_ok :: "'q deque \<Rightarrow> ('q \<Rightarrow> queuedFrame list) \<Rightarrow> bool" where
  "deque_ok D L \<longleftrightarrow> L (dq_New D) = [] \<and> (\<forall>q x. L (dq_PushBack D q x) = L q @ [x]) \<and>
     (\<forall>q. L q \<noteq> [] \<longrightarrow> fst (dq_PopFront D q) = hd (L q) \<and> L (snd (dq_PopFront D q)) = tl (L q)) \<and>
     (\<forall>q. dq_Len D q = int (length (L q))) \<and> (\<forall>q. L (dq_Clear D q) = [])"

definition OpusClockRate :: uint32 where "OpusClockRate = 48000"
definition silenceLevel :: uint8 where "silenceLevel = 127"
definition DefaultBufferDuration :: duration where "DefaultBufferDuration = 30 * Second"

record WriterConfig =
  wc_Opus :: opus_Config
  wc_BufferDuration :: duration

record ('e, 'q) TrackWriter =
  w_enc :: "'e Encoder"
  w_frameDuration :: duration
  w_maxFrames :: int
  w_silence :: "byte list"
  w_queue :: 'q
  w_closed :: bool
  w_level :: uint32

datatype writer_error = OpusError opus_error | WriteToClosed | ContextDone | EOF

section \<open>Operations\<close>

definition NewTrackWriter :: "('e, 'd) gopus \<Rightarrow> 'q deque \<Rightarrow> WriterConfig \<Rightarrow> (writer_error + ('e, 'q) TrackWriter) option" where
  "NewTrackWriter G D cfg =
    (case NewEncoder_opus G (wc_Opus cfg) of
       None \<Rightarrow> None
     | Some (Inl err) \<Rightarrow> Some (Inl (OpusError err))
     | Some (Inr ge) \<Rightarrow>
        (let bufferDuration = (if wc_BufferDuration cfg \<le> 0 then DefaultBufferDuration else wc_BufferDuration cfg);
             frameDuration = FrameDuration_oe ge
         in case EncodeSilence G ge of
              (Inl err, _) \<Rightarrow> Some (Inl (OpusError err))
            | (Inr silence, ge) \<Rightarrow>
               Some (Inr \<lparr>w_enc = ge, w_frameDuration = frameDuration, w_maxFrames = max 1 (tdiv bufferDuration frameDuration),
                 w_silence = silence, w_queue = dq_New D, w_closed = False, w_level = ucast silenceLevel\<rparr>)))"

text \<open>\<open>math.Round\<close>: halves are rounded away from zero.\<close>

definition math_Round :: "rat \<Rightarrow> int" where
  "math_Round x = (if x < 0 then - \<lfloor>1 / 2 - x\<rfloor> else \<lfloor>x + 1 / 2\<rfloor>)"

definition audioLevel :: "(PCM \<Rightarrow> rat option) \<Rightarrow> PCM \<Rightarrow> uint8" where
  "audioLevel dbfs pcm =
    (case dbfs pcm of
       None \<Rightarrow> silenceLevel
     | Some x \<Rightarrow>
        (let level = math_Round (- x) in
         if level \<le> 0 then 0 else if level \<ge> uint silenceLevel then silenceLevel else word_of_int level))"

partial_function (option) trim_queue :: "'q deque \<Rightarrow> int \<Rightarrow> 'q \<Rightarrow> 'q option" where
  "trim_queue D maxFrames q =
    (if dq_Len D q > maxFrames then trim_queue D maxFrames (snd (dq_PopFront D q)) else Some q)"

declare trim_queue.simps [code]

definition trim :: "'q deque \<Rightarrow> ('e, 'q) TrackWriter \<Rightarrow> ('e, 'q) TrackWriter option" where
  "trim D w = map_option (\<lambda>q. w\<lparr>w_queue := q\<rparr>) (trim_queue D (w_maxFrames w) (w_queue w))"

definition push_all :: "'q deque \<Rightarrow> queuedFrame list \<Rightarrow> ('e, 'q) TrackWriter \<Rightarrow> ('e, 'q) TrackWriter" where
  "push_all D fs w = w\<lparr>w_queue := foldl (dq_PushBack D) (w_queue w) fs\<rparr>"

text \<open>The packets of a write with their levels.\<close>

definition with_levels :: "(PCM \<Rightarrow> rat option) \<Rightarrow> duration \<Rightarrow> byte list list \<Rightarrow> PCM \<Rightarrow> queuedFrame list" where
  "with_levels dbfs frameDuration packets src =
    (let framesPerPacket = tdiv (i64 (frameDuration * p_SampleRate src)) Second;
         levels = (if framesPerPacket > 0 then map (audioLevel dbfs) (Chunks src framesPerPacket 0 False) else [])
     in map (\<lambda>(i, p). \<lparr>qf_data = p,
          qf_level = (if length levels > 0 then levels ! min i (length levels - 1) else silenceLevel)\<rparr>)
        (enumerate 0 packets))"

definition enqueueWithLevels ::
    "'q deque \<Rightarrow> (PCM \<Rightarrow> rat option) \<Rightarrow> byte list list \<Rightarrow> PCM \<Rightarrow> ('e, 'q) TrackWriter \<Rightarrow> ('e, 'q) TrackWriter option" where
  "enqueueWithLevels D dbfs packets src w =
    (if packets = [] then Some w
     else trim D (push_all D (with_levels dbfs (w_frameDuration w) packets src) w))"

definition enqueue :: "'q deque \<Rightarrow> byte list list \<Rightarrow> uint8 \<Rightarrow> ('e, 'q) TrackWriter \<Rightarrow> ('e, 'q) TrackWriter option" where
  "enqueue D packets level w = trim D (push_all D (map (\<lambda>p. \<lparr>qf_data = p, qf_level = level\<rparr>) packets) w)"

definition Write_tw ::
    "('e, 'd) gopus \<Rightarrow> kernel \<Rightarrow> 'q deque \<Rightarrow> (PCM \<Rightarrow> rat option) \<Rightarrow> PCM \<Rightarrow> ('e, 'q) TrackWriter \<Rightarrow> (writer_error option \<times> ('e, 'q) TrackWriter) option" where
  "Write_tw G K D dbfs pcm w =
    (if IsEmpty pcm then Some (None, w)
     else if w_closed w then Some (Some WriteToClosed, w)
     else
       case Encode_oe G K pcm (w_enc w) of
         None \<Rightarrow> None
       | Some (Inl err, ge) \<Rightarrow> Some (Some (OpusError err), w\<lparr>w_enc := ge\<rparr>)
       | Some (Inr packets, ge) \<Rightarrow> map_option (Pair None) (enqueueWithLevels D dbfs packets pcm (w\<lparr>w_enc := ge\<rparr>)))"

definition Flush_tw ::
    "('e, 'd) gopus \<Rightarrow> kernel \<Rightarrow> 'q deque \<Rightarrow> ('e, 'q) TrackWriter \<Rightarrow> (writer_error option \<times> ('e, 'q) TrackWriter) option" where
  "Flush_tw G K D w =
    (if w_closed w then Some (None, w)
     else
       case Flush_oe G K (w_enc w) of
         None \<Rightarrow> None
       | Some (Inl err, ge) \<Rightarrow> Some (Some (OpusError err), w\<lparr>w_enc := ge\<rparr>)
       | Some (Inr packets, ge) \<Rightarrow> map_option (Pair None) (enqueue D packets (ucast (w_level w)) (w\<lparr>w_enc := ge\<rparr>)))"

definition Clear_tw :: "('e, 'd) gopus \<Rightarrow> 'q deque \<Rightarrow> ('e, 'q) TrackWriter \<Rightarrow> ('e, 'q) TrackWriter" where
  "Clear_tw G D w = w\<lparr>w_queue := dq_Clear D (w_queue w), w_enc := Reset_oe G (w_enc w), w_level := ucast silenceLevel\<rparr>"

definition Buffered :: "'q deque \<Rightarrow> ('e, 'q) TrackWriter \<Rightarrow> duration" where
  "Buffered D w = i64 (dq_Len D (w_queue w) * w_frameDuration w)"

text \<open>\<open>NextSample\<close> takes a frame under the mutex and stores its level after releasing it, so these are two steps.
  \<open>ctx_err\<close> says that the context has ended.\<close>

definition take_frame :: "'q deque \<Rightarrow> ('e, 'q) TrackWriter \<Rightarrow> (writer_error + queuedFrame) \<times> ('e, 'q) TrackWriter" where
  "take_frame D w =
    (if w_closed w then (Inl EOF, w)
     else if dq_Len D (w_queue w) > 0
       then (let (frame, q) = dq_PopFront D (w_queue w) in (Inr frame, w\<lparr>w_queue := q\<rparr>))
     else (Inr \<lparr>qf_data = w_silence w, qf_level = silenceLevel\<rparr>, w))"

definition store_level :: "queuedFrame \<Rightarrow> ('e, 'q) TrackWriter \<Rightarrow> ('e, 'q) TrackWriter" where
  "store_level frame w = w\<lparr>w_level := ucast (qf_level frame)\<rparr>"

definition frame_sample :: "('e, 'q) TrackWriter \<Rightarrow> queuedFrame \<Rightarrow> sample" where
  "frame_sample w frame = \<lparr>s_Data = qf_data frame, s_Timestamp = None, s_Duration = w_frameDuration w,
     s_PacketTimestamp = 0, s_PrevDroppedPackets = 0\<rparr>"

definition NextSample :: "'q deque \<Rightarrow> bool \<Rightarrow> ('e, 'q) TrackWriter \<Rightarrow> (writer_error + sample) \<times> ('e, 'q) TrackWriter" where
  "NextSample D ctx_err w =
    (if ctx_err then (Inl ContextDone, w)
     else case take_frame D w of
       (Inl err, w) \<Rightarrow> (Inl err, w)
     | (Inr frame, w) \<Rightarrow> (Inr (frame_sample w frame), store_level frame w))"

definition CurrentAudioLevel :: "('e, 'q) TrackWriter \<Rightarrow> uint8" where
  "CurrentAudioLevel w = ucast (w_level w)"

definition Close_tw :: "'q deque \<Rightarrow> ('e, 'q) TrackWriter \<Rightarrow> ('e, 'q) TrackWriter" where
  "Close_tw D w = w\<lparr>w_closed := True, w_queue := dq_Clear D (w_queue w)\<rparr>"

section \<open>Runs\<close>

text \<open>Calls in the order in which they take the mutex. The history keeps the frames queued so far, those taken
  out, the samples returned, the frame whose level is still to be stored, and what happened to the queue.\<close>

datatype 'f queue_event = Pushed "'f list" | Popped | Discarded

datatype writer_op = WriteOp PCM | FlushWriterOp | ClearOp | TakeOp | StoreOp | CloseOp

record ('e, 'q) writer_run =
  rn_w :: "('e, 'q) TrackWriter"
  rn_pushed :: "queuedFrame list"
  rn_sent :: "queuedFrame list"
  rn_samples :: "sample list"
  rn_taken :: "queuedFrame option"
  rn_events :: "queuedFrame queue_event list"

definition start_run :: "('e, 'q) TrackWriter \<Rightarrow> ('e, 'q) writer_run" where
  "start_run w = \<lparr>rn_w = w, rn_pushed = [], rn_sent = [], rn_samples = [], rn_taken = None, rn_events = []\<rparr>"

text \<open>The frames a call queues.\<close>

definition written :: "('e, 'd) gopus \<Rightarrow> kernel \<Rightarrow> (PCM \<Rightarrow> rat option) \<Rightarrow> PCM \<Rightarrow> ('e, 'q) TrackWriter \<Rightarrow> queuedFrame list" where
  "written G K dbfs pcm w = (if IsEmpty pcm \<or> w_closed w then [] else
     case Encode_oe G K pcm (w_enc w) of Some (Inr packets, _) \<Rightarrow> with_levels dbfs (w_frameDuration w) packets pcm | _ \<Rightarrow> [])"

definition flushed :: "('e, 'd) gopus \<Rightarrow> kernel \<Rightarrow> ('e, 'q) TrackWriter \<Rightarrow> queuedFrame list" where
  "flushed G K w = (if w_closed w then [] else
     case Flush_oe G K (w_enc w) of Some (Inr packets, _) \<Rightarrow> map (\<lambda>p. \<lparr>qf_data = p, qf_level = ucast (w_level w)\<rparr>) packets | _ \<Rightarrow> [])"

fun writer_step :: "('e, 'd) gopus \<Rightarrow> kernel \<Rightarrow> 'q deque \<Rightarrow> (PCM \<Rightarrow> rat option) \<Rightarrow> writer_op \<Rightarrow> ('e, 'q) writer_run \<Rightarrow> ('e, 'q) writer_run option" where
  "writer_step G K D dbfs (WriteOp pcm) s =
     map_option (\<lambda>(err, w). s\<lparr>rn_w := w, rn_pushed := rn_pushed s @ written G K dbfs pcm (rn_w s),
       rn_events := rn_events s @ [Pushed (written G K dbfs pcm (rn_w s))]\<rparr>) (Write_tw G K D dbfs pcm (rn_w s))"
| "writer_step G K D dbfs FlushWriterOp s =
     map_option (\<lambda>(err, w). s\<lparr>rn_w := w, rn_pushed := rn_pushed s @ flushed G K (rn_w s),
       rn_events := rn_events s @ [Pushed (flushed G K (rn_w s))]\<rparr>) (Flush_tw G K D (rn_w s))"
| "writer_step G K D dbfs ClearOp s = Some (s\<lparr>rn_w := Clear_tw G D (rn_w s), rn_events := rn_events s @ [Discarded]\<rparr>)"
| "writer_step G K D dbfs TakeOp s =
     (case take_frame D (rn_w s) of
        (Inl err, w) \<Rightarrow> Some (s\<lparr>rn_w := w\<rparr>)
      | (Inr frame, w) \<Rightarrow>
          Some (s\<lparr>rn_w := w, rn_sent := rn_sent s @ (if dq_Len D (w_queue (rn_w s)) > 0 then [frame] else []),
                  rn_samples := rn_samples s @ [frame_sample w frame], rn_taken := Some frame, rn_events := rn_events s @ [Popped]\<rparr>))"
| "writer_step G K D dbfs StoreOp s =
     Some (case rn_taken s of None \<Rightarrow> s | Some frame \<Rightarrow> s\<lparr>rn_w := store_level frame (rn_w s), rn_taken := None\<rparr>)"
| "writer_step G K D dbfs CloseOp s = Some (s\<lparr>rn_w := Close_tw D (rn_w s), rn_events := rn_events s @ [Discarded]\<rparr>)"

fun writer_steps :: "('e, 'd) gopus \<Rightarrow> kernel \<Rightarrow> 'q deque \<Rightarrow> (PCM \<Rightarrow> rat option) \<Rightarrow> writer_op list \<Rightarrow> ('e, 'q) writer_run \<Rightarrow> ('e, 'q) writer_run option" where
  "writer_steps G K D dbfs [] s = Some s"
| "writer_steps G K D dbfs (op # ops) s =
    (case writer_step G K D dbfs op s of None \<Rightarrow> None | Some s \<Rightarrow> writer_steps G K D dbfs ops s)"

section \<open>The queue it is meant to be\<close>

text \<open>A queue of at most \<open>m\<close> frames that gives up its oldest: what waits, what was sent from it, and what was heard at each turn,
  \<open>None\<close> being silence.\<close>

definition newest :: "nat \<Rightarrow> 'f list \<Rightarrow> 'f list" where
  "newest m xs = drop (length xs - m) xs"

fun fifo_step :: "nat \<Rightarrow> 'f queue_event \<Rightarrow> 'f list \<times> 'f list \<times> 'f option list \<Rightarrow> 'f list \<times> 'f list \<times> 'f option list" where
  "fifo_step m (Pushed fs) (waiting, sent, heard) = (newest m (waiting @ fs), sent, heard)"
| "fifo_step m Popped (x # waiting, sent, heard) = (waiting, sent @ [x], heard @ [Some x])"
| "fifo_step m Popped ([], sent, heard) = ([], sent, heard @ [None])"
| "fifo_step m Discarded (waiting, sent, heard) = ([], sent, heard)"

definition fifo_run :: "nat \<Rightarrow> 'f queue_event list \<Rightarrow> 'f list \<times> 'f list \<times> 'f option list" where
  "fifo_run m evs = fold (fifo_step m) evs ([], [], [])"

lemma fifo_run_snoc [simp]: "fifo_run m (evs @ [e]) = fifo_step m e (fifo_run m evs)"
  by (simp add: fifo_run_def)

lemma newest_short [simp]: "length xs \<le> m \<Longrightarrow> newest m xs = xs"
  by (simp add: newest_def)

section \<open>The queue\<close>

lemma deque_laws:
  assumes "deque_ok D L"
  shows "L (dq_New D) = []" "L (dq_PushBack D q x) = L q @ [x]" "dq_Len D q = int (length (L q))" "L (dq_Clear D q) = []"
    "L q \<noteq> [] \<Longrightarrow> fst (dq_PopFront D q) = hd (L q)" "L q \<noteq> [] \<Longrightarrow> L (snd (dq_PopFront D q)) = tl (L q)"
  using assms by (simp_all add: deque_ok_def)

lemma push_list: "deque_ok D L \<Longrightarrow> L (foldl (dq_PushBack D) q fs) = L q @ fs"
  by (induction fs arbitrary: q) (simp_all add: deque_laws)

lemma trim_queue_ok:
  assumes "deque_ok D L" "0 \<le> m"
  shows "\<exists>q'. trim_queue D m q = Some q' \<and> L q' = drop (length (L q) - nat m) (L q)"
proof (induction "length (L q)" arbitrary: q)
  case 0
  then show ?case using assms deque_laws[OF assms(1)] by (subst trim_queue.simps) auto
next
  case (Suc n)
  show ?case
  proof (cases "int (length (L q)) > m")
    case True
    then have ne: "L q \<noteq> []" using assms(2) by auto
    define q1 where "q1 = snd (dq_PopFront D q)"
    have q1: "L q1 = tl (L q)" using deque_laws(6)[OF assms(1) ne] by (simp add: q1_def)
    have "n = length (L q1)" using q1 Suc.hyps(2) by (metis length_tl diff_Suc_1)
    from Suc.hyps(1)[OF this] obtain q' where "trim_queue D m q1 = Some q'" "L q' = drop (length (L q1) - nat m) (L q1)" by blast
    moreover obtain x xs where xs: "L q = x # xs" using ne by (cases "L q") auto
    moreover have "length (L q) - nat m = Suc (length xs - nat m)" using True assms(2) xs by auto
    ultimately show ?thesis using True q1 deque_laws(3)[OF assms(1)] by (subst trim_queue.simps) (auto simp: q1_def[symmetric])
  next
    case False
    then show ?thesis using deque_laws(3)[OF assms(1)] by (subst trim_queue.simps) auto
  qed
qed

lemma queue_frames:
  assumes "deque_ok D L" "0 \<le> w_maxFrames w"
  shows "\<exists>q. trim D (push_all D fs w) = Some (w\<lparr>w_queue := q\<rparr>) \<and> L q = drop (length (L (w_queue w) @ fs) - nat (w_maxFrames w)) (L (w_queue w) @ fs)"
  using trim_queue_ok[OF assms, of "foldl (dq_PushBack D) (w_queue w) fs"]
  by (auto simp: trim_def push_all_def push_list[OF assms(1)])


section \<open>The invariant\<close>

text \<open>A buffer may end in the middle of a frame, and the resampler then keeps part of one. What keeps it from reading or cutting beyond what it
  has is less than what makes its output exact: the cursor stays within the whole frames.\<close>

definition cursor_safe :: "int \<Rightarrow> StreamResampler \<Rightarrow> bool" where
  "cursor_safe h r \<longleftrightarrow> h - 1 \<le> r_posInt r \<and> r_posInt r - h + 1 \<le> int (length (r_buf r) div nat (r_mid r)) \<and>
     0 \<le> r_posFrac r \<and> r_posFrac r < r_stepDen r"

definition sr_safe :: "kernel \<Rightarrow> StreamResampler \<Rightarrow> bool" where
  "sr_safe K r \<longleftrightarrow> validate (r_format r) (r_sampleRate r) (r_channels r) = None \<and> 0 < r_frameSize r \<and>
     (r_configured r \<longrightarrow> stream_cfg K r \<and> (\<forall>h. r_filter r = Some h \<longrightarrow> cursor_safe h r))"

lemma produce_loop_bound:
  assumes "0 < r_stepNum r" "r_stepNum r \<le> 2 * h * r_stepDen r"
  shows "0 \<le> q \<Longrightarrow> q < r_stepDen r \<Longrightarrow> produce_loop K h r p q = (out, p', q') \<Longrightarrow>
    p \<le> p' \<and> 0 \<le> q' \<and> q' < r_stepDen r \<and> p' \<le> max p (int (length (r_buf r) div nat (r_mid r)) + h - 1)"
  using assms
proof (induction K h r p q arbitrary: out rule: produce_loop.induct)
  case (1 K h r p q)
  define F where "F = int (length (r_buf r) div nat (r_mid r))"
  show ?case
  proof (cases "p + h < F")
    case False
    then have "p' = p" "q' = q" using 1(4) by (simp_all add: produce_loop.simps[of K h r p q] F_def)
    then show ?thesis using 1(2,3) by simp
  next
    case True
    define d f where "d = r_stepDen r" and "f = q + r_stepNum r"
    have dp: "0 < d" "0 \<le> f" using 1(2,3,5) by (simp_all add: d_def f_def)
    have "f < (2 * h + 1) * d" using 1(3,6) by (simp add: d_def f_def algebra_simps)
    moreover have "f div d * d \<le> f" using dp by (metis div_mult_mod_eq le_add_same_cancel1 pos_mod_sign)
    ultimately have "f div d * d < (2 * h + 1) * d" by simp
    then have "f div d < 2 * h + 1" using dp by (simp add: mult_less_cancel_right)
    then have "f div d \<le> 2 * h" by simp
    moreover have "0 \<le> f div d" using dp by (simp add: pos_imp_zdiv_nonneg_iff)
    moreover obtain out2 where "produce_loop K h r (p + tdiv f d) (tmod f d) = (out2, p', q')"
      using 1(4) True 1(2,3,5) by (auto simp: produce_loop.simps[of K h r p q] F_def f_def d_def Let_def split: prod.splits)
    ultimately show ?thesis
      using 1(1)[of f, OF _ f_def, of out2] True 1(2,3,5,6) dp
      by (auto simp: F_def d_def[symmetric] f_def[symmetric] tdiv_nonneg tmod_nonneg)
  qed
qed

lemma step_bound:
  assumes "stream_cfg K r" "kernel_ok K (r_inRate r) (r_sampleRate r)" "h = k_halfTaps K (r_inRate r) (r_sampleRate r)"
  shows "r_stepNum r \<le> 2 * h * r_stepDen r"
proof -
  have pos: "0 < r_stepDen r" "0 < r_sampleRate r" using assms(1) by (auto simp: stream_cfg_def validate_None)
  have "r_sampleRate r * r_stepNum r = r_inRate r * r_stepDen r" using assms(1) by (simp add: stream_cfg_def)
  also have "\<dots> \<le> (2 * h * r_sampleRate r) * r_stepDen r" using assms(2,3) pos by (intro mult_right_mono) (auto simp: kernel_ok_def)
  also have "\<dots> = r_sampleRate r * (2 * h * r_stepDen r)" by simp
  finally show ?thesis using pos by simp
qed

lemma produce_safe:
  assumes safe: "sr_safe K r" "r_configured r" and K: "kernel_ok K (r_inRate r) (r_sampleRate r)"
  shows "\<exists>s. produce K (r\<lparr>r_buf := r_buf r @ X\<rparr>) = Some s \<and> sr_safe K s \<and> sr_params s = sr_params r"
proof (cases "r_filter r")
  case None
  then show ?thesis using safe by (simp add: produce_def produceDirect_def Let_def sr_safe_def sr_params_def)
next
  case (Some h)
  define m where "m = nat (r_mid r)"
  let ?r = "r\<lparr>r_buf := r_buf r @ X\<rparr>"
  have cfg: "stream_cfg K r" "cursor_safe h r" using safe Some by (auto simp: sr_safe_def)
  then have h: "h = k_halfTaps K (r_inRate r) (r_sampleRate r)" "1 \<le> h" and m: "0 < m" and st: "0 < r_stepNum r"
    using Some K by (auto simp: stream_cfg_def validate_None kernel_ok_def m_def split: if_splits)
  define F where "F = int (length (r_buf r @ X) div m)"
  obtain out p q where loop: "produce_loop K h ?r (r_posInt r) (r_posFrac r) = (out, p, q)" by (metis prod_cases3)
  have b: "r_posInt r \<le> p" "0 \<le> q" "q < r_stepDen r" "p \<le> max (r_posInt r) (F + h - 1)"
    using produce_loop_bound[of ?r h "r_posFrac r" K "r_posInt r" out p q] loop cfg(2) step_bound[OF cfg(1) K h(1)] st
    by (auto simp: F_def m_def cursor_safe_def)
  have "int (length (r_buf r) div m) \<le> F" by (simp add: F_def div_le_mono)
  then have keep: "p - h + 1 \<le> F" "h - 1 \<le> p" using b cfg(2) by (auto simp: cursor_safe_def m_def)
  show ?thesis
  proof (cases "p - h + 1 > 0")
    case True
    have "F * int m \<le> int (length (r_buf r @ X))" unfolding F_def by (metis of_nat_le_iff of_nat_mult div_times_less_eq_dividend)
    moreover have "(p - h + 1) * int m \<le> F * int m" using keep by (intro mult_right_mono) auto
    moreover have "int m = r_mid r" using m by (simp add: m_def)
    ultimately have "\<not> (p - h + 1) * r_mid r > int (length (r_buf r @ X))" by simp
    then show ?thesis
      using True Some loop safe cfg b h
      by (simp add: produce_def Let_def sr_safe_def sr_params_def cursor_safe_def)
  next
    case False
    then show ?thesis
      using Some loop safe cfg b h keep
      by (simp add: produce_def Let_def sr_safe_def sr_params_def cursor_safe_def)
  qed
qed

lemma collect_safe: "sr_safe K r \<Longrightarrow> sr_safe K (snd (collect final r)) \<and> sr_params (snd (collect final r)) = sr_params r"
  by (simp add: collect_def sr_safe_def sr_params_def cursor_safe_def Let_def split: prod.split)

lemma Reset_safe: "sr_safe K r \<Longrightarrow> sr_safe K (Reset_sr r) \<and> sr_params (Reset_sr r) = sr_params r"
  by (simp add: Reset_sr_def sr_safe_def sr_params_def)

lemma configure_safe:
  assumes "sr_safe K r" "0 < ir" "0 < ic" "kernel_ok K ir (r_sampleRate r)"
  shows "sr_safe K (configure K ir ic r) \<and> sr_params (configure K ir ic r) = sr_params r \<and> r_inRate (configure K ir ic r) = ir \<and> r_configured (configure K ir ic r)"
proof -
  let ?s = "configure K ir ic r"
  have v: "validate (r_format r) (r_sampleRate r) (r_channels r) = None" "0 < r_frameSize r" using assms(1) by (auto simp: sr_safe_def)
  then have "stream_cfg K ?s" using configure_ok(1)[OF v(1) _ assms(2-4)] by (auto simp: stream_run_def stream_inv_def)
  moreover have "cursor_safe h ?s" if "r_filter ?s = Some h" for h
  proof -
    have h: "1 \<le> h" "r_buf ?s = replicate (nat (h * r_mid ?s)) 0" "r_posInt ?s = h" "r_posFrac ?s = 0"
      using that assms(4) by (auto simp: configure_def Let_def kernel_ok_def split: if_splits)
    moreover have "0 < r_mid ?s" "0 < r_stepDen ?s" using \<open>stream_cfg K ?s\<close> by (auto simp: stream_cfg_def validate_None)
    moreover from this have "nat (h * r_mid ?s) div nat (r_mid ?s) = nat h" using h(1) by (simp add: nat_mult_distrib)
    ultimately show ?thesis by (simp add: cursor_safe_def)
  qed
  ultimately show ?thesis using v by (auto simp: sr_safe_def sr_params_def) (auto simp: configure_def Let_def)
qed

lemma Flush_safe:
  assumes "sr_safe K r" "\<And>ir. 0 < ir \<Longrightarrow> kernel_ok K ir (r_sampleRate r)"
  shows "\<exists>out s. Flush_sr K r = Some (out, s) \<and> sr_safe K s \<and> sr_params s = sr_params r \<and> \<not> r_configured s"
proof (cases "r_configured r")
  case True
  then have "0 < r_inRate r" using assms(1) by (simp add: sr_safe_def stream_cfg_def)
  define X where "X = (case r_filter r of None \<Rightarrow> [] | Some h \<Rightarrow> replicate (nat (h * r_mid r)) (0 :: float32))"
  have X: "(case r_filter r of None \<Rightarrow> r | Some h \<Rightarrow> r\<lparr>r_buf := r_buf r @ replicate (nat (h * r_mid r)) 0\<rparr>) = r\<lparr>r_buf := r_buf r @ X\<rparr>"
    by (simp add: X_def split: option.split)
  obtain s where s: "produce K (r\<lparr>r_buf := r_buf r @ X\<rparr>) = Some s" "sr_safe K s" "sr_params s = sr_params r"
    using produce_safe[OF assms(1) True assms(2)[OF \<open>0 < r_inRate r\<close>], of X] by blast
  obtain out t where c: "collect True s = (out, t)" by fastforce
  then have t: "sr_safe K t" "sr_params t = sr_params r" using collect_safe[OF s(2), of True] s(3) by auto
  have "Flush_sr K r = Some (out, Reset_sr t)" using True X s(1) c by (simp add: Flush_sr_def)
  then show ?thesis using Reset_safe[OF t(1)] t(2) by (simp add: Reset_sr_def)
qed (use assms in \<open>simp add: Flush_sr_def\<close>)

lemma Write_safe:
  assumes safe: "sr_safe K r" and K: "\<And>ir. 0 < ir \<Longrightarrow> kernel_ok K ir (r_sampleRate r)"
  shows "\<exists>res s. Write_sr K r p = Some (res, s) \<and> sr_safe K s \<and> sr_params s = sr_params r"
proof (cases "IsEmpty p \<or> validate (p_Format p) (p_SampleRate p) (p_Channels p) \<noteq> None")
  case True
  then show ?thesis using safe by (cases "IsEmpty p") (auto simp: Write_sr_def)
next
  case False
  then have pos: "0 < p_SampleRate p" "0 < p_Channels p" by (auto simp: validate_None)
  define change where "change \<longleftrightarrow> r_configured r \<and> (p_SampleRate p \<noteq> r_inRate r \<or> p_Channels p \<noteq> r_inChannels r)"
  obtain drained r1 where d: "(if change then Flush_sr K r else Some ([], r)) = Some (drained, r1)" "sr_safe K r1" "sr_params r1 = sr_params r"
    using Flush_safe[OF safe K] safe by (cases change) auto
  then have rate: "r_sampleRate r1 = r_sampleRate r" by (simp add: sr_params_def)
  define r2 where "r2 = (if \<not> r_configured r1 then configure K (p_SampleRate p) (p_Channels p) r1 else r1)"
  have r2: "sr_safe K r2" "sr_params r2 = sr_params r" "r_configured r2"
    using configure_safe[OF d(2) pos] K[OF pos(1)] rate d(2,3) by (auto simp: r2_def)
  then have "0 < r_inRate r2" "r_sampleRate r2 = r_sampleRate r" by (auto simp: sr_safe_def stream_cfg_def sr_params_def)
  then have K2: "kernel_ok K (r_inRate r2) (r_sampleRate r2)" using K by simp
  have "\<exists>X. feed K p r2 = r2\<lparr>r_buf := r_buf r2 @ X\<rparr>" by (simp add: feed_def Let_def) blast
  then obtain X where X: "feed K p r2 = r2\<lparr>r_buf := r_buf r2 @ X\<rparr>" by blast
  obtain s where s: "produce K (feed K p r2) = Some s" "sr_safe K s" "sr_params s = sr_params r"
    using produce_safe[OF r2(1,3) K2, of X] r2(2) unfolding X by auto
  obtain out t where c: "collect False s = (out, t)" by fastforce
  have "Write_sr K r p = Some (Inr (drained @ out), t)"
    using False d(1) s(1) c unfolding Write_sr_def change_def[symmetric] by (auto simp: r2_def[symmetric] Let_def)
  then show ?thesis using collect_safe[OF s(2), of False] s(3) c by auto
qed

definition writer_enc_ok :: "kernel \<Rightarrow> 'e Encoder \<Rightarrow> bool" where
  "writer_enc_ok K e \<longleftrightarrow> sr_safe K (e_resampler e) \<and> (\<forall>ir > 0. kernel_ok K ir (r_sampleRate (e_resampler e)))"

lemma encodeFrames_resampler: "e_resampler (snd (encodeFrames G fs e)) = e_resampler e"
  by (induction fs arbitrary: e) (auto simp: Let_def split: prod.splits sum.splits, (metis snd_conv Encoder.select_convs(4) Encoder.surjective Encoder.update_convs(1))+)

lemma safe_enc:
  assumes "writer_enc_ok K e" "sr_safe K r" "sr_params r = sr_params (e_resampler e)"
  shows "writer_enc_ok K (e\<lparr>e_resampler := r\<rparr>) \<and> writer_enc_ok K (snd (encodeFrames G fs (e\<lparr>e_resampler := r\<rparr>)))"
  using assms by (auto simp: writer_enc_ok_def encodeFrames_resampler sr_params_def)

lemma Encode_writer_ok:
  assumes ok: "writer_enc_ok K e"
  shows "\<exists>r e'. Encode_oe G K p e = Some (r, e') \<and> writer_enc_ok K e'"
proof -
  obtain res s where w: "Write_sr K (e_resampler e) p = Some (res, s)" "sr_safe K s" "sr_params s = sr_params (e_resampler e)"
    using Write_safe[of K "e_resampler e" p] ok by (auto simp: writer_enc_ok_def)
  show ?thesis
  proof (cases res)
    case (Inr out)
    then show ?thesis
      using w safe_enc[OF ok w(2,3), of G out] by (cases "encodeFrames G out (e\<lparr>e_resampler := s\<rparr>)") (simp add: Encode_oe_def)
  next
    case (Inl err)
    then show ?thesis using w(1) conjunct1[OF safe_enc[OF ok w(2,3)]] by (simp add: Encode_oe_def)
  qed
qed

lemma Flush_writer_ok:
  assumes ok: "writer_enc_ok K e"
  shows "\<exists>r e'. Flush_oe G K e = Some (r, e') \<and> writer_enc_ok K e'"
proof -
  obtain out s where w: "Flush_sr K (e_resampler e) = Some (out, s)" "sr_safe K s" "sr_params s = sr_params (e_resampler e)"
    using Flush_safe[of K "e_resampler e"] ok by (auto simp: writer_enc_ok_def)
  then show ?thesis
    using safe_enc[OF ok w(2,3), of G out] by (cases "encodeFrames G out (e\<lparr>e_resampler := s\<rparr>)") (simp add: Flush_oe_def)
qed

definition writer_inv :: "kernel \<Rightarrow> ('q \<Rightarrow> queuedFrame list) \<Rightarrow> int \<Rightarrow> duration \<Rightarrow> ('e, 'q) writer_run \<Rightarrow> bool" where
  "writer_inv K L m fd s \<longleftrightarrow> writer_enc_ok K (w_enc (rn_w s)) \<and> w_maxFrames (rn_w s) = m \<and> w_frameDuration (rn_w s) = fd \<and>
     subseq (rn_sent s @ L (w_queue (rn_w s))) (rn_pushed s) \<and> suffix (L (w_queue (rn_w s))) (rn_pushed s) \<and>
     int (length (L (w_queue (rn_w s)))) \<le> m \<and>
     (\<exists>heard. fifo_run (nat m) (rn_events s) = (L (w_queue (rn_w s)), rn_sent s, heard) \<and>
        map s_Data (rn_samples s) = map (\<lambda>f. case f of None \<Rightarrow> w_silence (rn_w s) | Some f \<Rightarrow> qf_data f) heard) \<and>
     list_all (\<lambda>x. s_Duration x = fd \<and> s_Timestamp x = None \<and> s_PacketTimestamp x = 0 \<and> s_PrevDroppedPackets x = 0) (rn_samples s)"

lemma suffix_drop_append: "suffix xs ys \<Longrightarrow> suffix (drop k (xs @ zs)) (ys @ zs)"
  by (metis suffix_appendD same_suffix_suffix suffix_drop suffix_order.trans append.assoc suffix_def)

lemma subseq_queue:
  assumes "subseq (xs @ ys) zs"
  shows "subseq (xs @ drop k (ys @ fs)) (zs @ fs)"
proof -
  have "subseq (xs @ drop k (ys @ fs)) (xs @ ys @ fs)"
    by (rule list_emb_append_mono[OF subseq_order.order_refl suffix_imp_subseq[OF suffix_drop]])
  also have "subseq (xs @ ys @ fs) (zs @ fs)" using list_emb_append_mono[OF assms subseq_order.order_refl[of fs]] by simp
  finally show ?thesis .
qed

lemma queued_inv:
  assumes D: "deque_ok D L" and inv: "writer_inv K L m fd s" and m: "0 \<le> m"
    and ge: "writer_enc_ok K ge" and q: "L q = drop (length (L (w_queue (rn_w s)) @ fs) - nat m) (L (w_queue (rn_w s)) @ fs)"
  shows "writer_inv K L m fd (s\<lparr>rn_w := (rn_w s)\<lparr>w_enc := ge, w_queue := q\<rparr>, rn_pushed := rn_pushed s @ fs, rn_events := rn_events s @ [Pushed fs]\<rparr>)"
proof -
  have "subseq (rn_sent s @ L (w_queue (rn_w s))) (rn_pushed s)" "suffix (L (w_queue (rn_w s))) (rn_pushed s)"
    using inv by (auto simp: writer_inv_def)
  then have "subseq (rn_sent s @ L q) (rn_pushed s @ fs)" "suffix (L q) (rn_pushed s @ fs)"
    unfolding q by (simp_all only: subseq_queue suffix_drop_append)
  moreover have "int (length (L q)) \<le> m" unfolding q using m by simp
  moreover have "L q = newest (nat m) (L (w_queue (rn_w s)) @ fs)" by (simp add: q newest_def)
  ultimately show ?thesis using inv ge by (auto simp: writer_inv_def)
qed

text \<open>One step keeps the invariant and never takes back a queued frame; unless it discards the queue, it loses nothing while
  no more than \<open>m\<close> frames were queued in all.\<close>

definition step_ok :: "kernel \<Rightarrow> ('q \<Rightarrow> queuedFrame list) \<Rightarrow> int \<Rightarrow> duration \<Rightarrow> bool \<Rightarrow> ('e, 'q) writer_run \<Rightarrow> ('e, 'q) writer_run \<Rightarrow> bool" where
  "step_ok K L m fd keeps s s' \<longleftrightarrow> writer_inv K L m fd s' \<and> length (rn_pushed s) \<le> length (rn_pushed s') \<and>
     (keeps \<and> rn_sent s @ L (w_queue (rn_w s)) = rn_pushed s \<and> int (length (rn_pushed s')) \<le> m \<longrightarrow>
        rn_sent s' @ L (w_queue (rn_w s')) = rn_pushed s')"

lemma push_step:
  assumes D: "deque_ok D L" and inv: "writer_inv K L m fd s" and m: "1 \<le> m" and ge: "writer_enc_ok K ge"
  shows "\<exists>q. trim D (push_all D fs ((rn_w s)\<lparr>w_enc := ge\<rparr>)) = Some ((rn_w s)\<lparr>w_enc := ge, w_queue := q\<rparr>) \<and>
    step_ok K L m fd True s (s\<lparr>rn_w := (rn_w s)\<lparr>w_enc := ge, w_queue := q\<rparr>, rn_pushed := rn_pushed s @ fs, rn_events := rn_events s @ [Pushed fs]\<rparr>)"
proof -
  let ?w = "rn_w s"
  obtain q where q: "trim D (push_all D fs (?w\<lparr>w_enc := ge\<rparr>)) = Some (?w\<lparr>w_enc := ge, w_queue := q\<rparr>)"
      "L q = drop (length (L (w_queue ?w) @ fs) - nat m) (L (w_queue ?w) @ fs)"
    using queue_frames[OF D, of "?w\<lparr>w_enc := ge\<rparr>" fs] inv m by (auto simp: writer_inv_def)
  have "rn_sent s @ L q = rn_pushed s @ fs"
    if "rn_sent s @ L (w_queue ?w) = rn_pushed s" "int (length (rn_pushed s @ fs)) \<le> m"
  proof -
    have "length (L (w_queue ?w)) \<le> length (rn_pushed s)" using that(1) by (metis length_append le_add2)
    then have "length (L (w_queue ?w) @ fs) - nat m = 0" using that(2) by simp
    then show ?thesis using q(2) that(1) by (metis drop0 append.assoc)
  qed
  then have "step_ok K L m fd True s (s\<lparr>rn_w := ?w\<lparr>w_enc := ge, w_queue := q\<rparr>, rn_pushed := rn_pushed s @ fs, rn_events := rn_events s @ [Pushed fs]\<rparr>)"
    using queued_inv[OF D inv _ ge q(2)] m by (simp add: step_ok_def)
  then show ?thesis using q(1) by blast
qed

lemma step_ok_same: "writer_inv K L m fd s \<Longrightarrow> step_ok K L m fd keeps s s"
  by (simp add: step_ok_def)

lemma step_ok_enc:
  "writer_inv K L m fd s \<Longrightarrow> writer_enc_ok K ge \<Longrightarrow>
    step_ok K L m fd keeps s (s\<lparr>rn_w := (rn_w s)\<lparr>w_enc := ge\<rparr>, rn_events := rn_events s @ [Pushed []]\<rparr>)"
  by (auto simp: step_ok_def writer_inv_def)

lemma step_ok_nothing: "writer_inv K L m fd s \<Longrightarrow> step_ok K L m fd keeps s (s\<lparr>rn_events := rn_events s @ [Pushed []]\<rparr>)"
  by (auto simp: step_ok_def writer_inv_def)

lemma write_step_inv:
  assumes D: "deque_ok D L" and inv: "writer_inv K L m fd s" and m: "1 \<le> m"
  shows "\<exists>s'. writer_step G K D dbfs (WriteOp p) s = Some s' \<and> step_ok K L m fd True s s'"
proof (cases "IsEmpty p \<or> w_closed (rn_w s)")
  case True
  then show ?thesis using step_ok_nothing[OF inv] by (auto simp: Write_tw_def written_def)
next
  case False
  have "writer_enc_ok K (w_enc (rn_w s))" using inv by (simp add: writer_inv_def)
  from Encode_writer_ok[OF this, of G p] obtain r ge where e: "Encode_oe G K p (w_enc (rn_w s)) = Some (r, ge)" "writer_enc_ok K ge"
    by blast
  show ?thesis
  proof (cases r)
    case (Inl err)
    then show ?thesis using False e step_ok_enc[OF inv e(2)] by (simp add: Write_tw_def written_def)
  next
    case (Inr packets)
    define fs where "fs = with_levels dbfs (w_frameDuration (rn_w s)) packets p"
    have fs: "written G K dbfs p (rn_w s) = fs" using False e(1) Inr by (simp add: written_def fs_def)
    show ?thesis
    proof (cases "packets = []")
      case True
      then have "fs = []" by (simp add: fs_def with_levels_def Let_def)
      then show ?thesis using False e Inr True fs step_ok_enc[OF inv e(2)] by (simp add: Write_tw_def enqueueWithLevels_def)
    next
      case ne: False
      from push_step[OF D inv m e(2), of fs] show ?thesis
        using False e(1) Inr ne fs by (auto simp: Write_tw_def enqueueWithLevels_def fs_def)
    qed
  qed
qed

lemma flush_step_inv:
  assumes D: "deque_ok D L" and inv: "writer_inv K L m fd s" and m: "1 \<le> m"
  shows "\<exists>s'. writer_step G K D dbfs FlushWriterOp s = Some s' \<and> step_ok K L m fd True s s'"
proof (cases "w_closed (rn_w s)")
  case True
  then show ?thesis using step_ok_nothing[OF inv] by (auto simp: Flush_tw_def flushed_def)
next
  case False
  have "writer_enc_ok K (w_enc (rn_w s))" using inv by (simp add: writer_inv_def)
  from Flush_writer_ok[OF this] obtain r ge where e: "Flush_oe G K (w_enc (rn_w s)) = Some (r, ge)" "writer_enc_ok K ge"
    by blast
  show ?thesis
  proof (cases r)
    case (Inl err)
    then show ?thesis using False e step_ok_enc[OF inv e(2)] by (simp add: Flush_tw_def flushed_def)
  next
    case (Inr packets)
    from push_step[OF D inv m e(2), of "map (\<lambda>p. \<lparr>qf_data = p, qf_level = ucast (w_level (rn_w s))\<rparr>) packets"] show ?thesis
      using False e(1) Inr by (auto simp: Flush_tw_def flushed_def enqueue_def)
  qed
qed

lemma take_step_inv:
  assumes D: "deque_ok D L" and inv: "writer_inv K L m fd s"
  shows "\<exists>s'. writer_step G K D dbfs TakeOp s = Some s' \<and> step_ok K L m fd True s s'"
proof (cases "w_closed (rn_w s) \<or> L (w_queue (rn_w s)) = []")
  case True
  then show ?thesis using inv deque_laws(3)[OF D]
    by (auto simp: take_frame_def step_ok_def writer_inv_def frame_sample_def)
next
  case False
  define q where "q = snd (dq_PopFront D (w_queue (rn_w s)))"
  have "dq_PopFront D (w_queue (rn_w s)) = (hd (L (w_queue (rn_w s))), q)"
    using False deque_laws(5)[OF D] by (auto simp: q_def prod_eq_iff)
  moreover obtain x xs where x: "L (w_queue (rn_w s)) = x # xs" using False by (cases "L (w_queue (rn_w s))") auto
  moreover have "L q = xs" using False x deque_laws(6)[OF D] by (simp add: q_def)
  ultimately show ?thesis
    using inv False deque_laws(3)[OF D]
    by (auto simp: take_frame_def step_ok_def writer_inv_def frame_sample_def suffix_ConsD)
qed

lemma other_step_inv:
  assumes D: "deque_ok D L" and inv: "writer_inv K L m fd s" and m: "1 \<le> m"
  shows "step_ok K L m fd False s (s\<lparr>rn_w := Clear_tw G D (rn_w s), rn_events := rn_events s @ [Discarded]\<rparr>)"
    "step_ok K L m fd False s (s\<lparr>rn_w := Close_tw D (rn_w s), rn_events := rn_events s @ [Discarded]\<rparr>)"
    "step_ok K L m fd keeps s (case rn_taken s of None \<Rightarrow> s | Some frame \<Rightarrow> s\<lparr>rn_w := store_level frame (rn_w s), rn_taken := None\<rparr>)"
proof -
  have "subseq (rn_sent s @ L (w_queue (rn_w s))) (rn_pushed s)" using inv by (simp add: writer_inv_def)
  then have sub: "subseq (rn_sent s) (rn_pushed s)" by (rule subseq_order.order_trans[rotated]) (simp add: prefix_imp_subseq)
  have "sr_safe K (e_resampler (w_enc (rn_w s)))" using inv by (simp add: writer_inv_def writer_enc_ok_def)
  then have "writer_enc_ok K (Reset_oe G (w_enc (rn_w s)))"
    using inv Reset_safe by (auto simp: writer_inv_def writer_enc_ok_def Reset_oe_def sr_params_def)
  then show "step_ok K L m fd False s (s\<lparr>rn_w := Clear_tw G D (rn_w s), rn_events := rn_events s @ [Discarded]\<rparr>)"
    "step_ok K L m fd False s (s\<lparr>rn_w := Close_tw D (rn_w s), rn_events := rn_events s @ [Discarded]\<rparr>)"
    using inv m deque_laws(4)[OF D] sub
    by (auto simp: step_ok_def writer_inv_def Clear_tw_def Close_tw_def)
  show "step_ok K L m fd keeps s (case rn_taken s of None \<Rightarrow> s | Some frame \<Rightarrow> s\<lparr>rn_w := store_level frame (rn_w s), rn_taken := None\<rparr>)"
    using inv by (simp add: step_ok_def writer_inv_def store_level_def split: option.split)
qed

definition keeps_queue :: "writer_op \<Rightarrow> bool" where
  "keeps_queue op \<longleftrightarrow> op \<noteq> ClearOp \<and> op \<noteq> CloseOp"

lemma writer_step_inv:
  assumes D: "deque_ok D L" and inv: "writer_inv K L m fd s" and m: "1 \<le> m"
  shows "\<exists>s'. writer_step G K D dbfs op s = Some s' \<and> step_ok K L m fd (keeps_queue op) s s'"
  using write_step_inv[OF D inv m] flush_step_inv[OF D inv m, of G dbfs] take_step_inv[OF D inv, of G dbfs]
    other_step_inv[OF D inv m]
  by (cases op) (simp_all add: keeps_queue_def)

lemma writer_steps_inv:
  assumes D: "deque_ok D L" and m: "1 \<le> m"
  shows "writer_inv K L m fd s \<Longrightarrow>
    \<exists>s'. writer_steps G K D dbfs ops s = Some s' \<and> step_ok K L m fd (list_all keeps_queue ops) s s'"
proof (induction ops arbitrary: s)
  case Nil
  then show ?case using step_ok_same by auto
next
  case (Cons op ops)
  from writer_step_inv[OF D Cons.prems m, of G dbfs op] obtain s1 where
    s1: "writer_step G K D dbfs op s = Some s1" "step_ok K L m fd (keeps_queue op) s s1" by auto
  with Cons.IH[of s1] obtain s' where
    "writer_steps G K D dbfs ops s1 = Some s'" "step_ok K L m fd (list_all keeps_queue ops) s1 s'" by (auto simp: step_ok_def)
  with s1 show ?case by (auto simp: step_ok_def)
qed


section \<open>Properties\<close>

lemma NewTrackWriter_ok:
  assumes D: "deque_ok D L" and new: "NewTrackWriter G D cfg = Some (Inr w)" and K: "all_kernels_ok K (c_SampleRate (withDefaults (wc_Opus cfg)))"
  defines "fd \<equiv> c_FrameDuration (withDefaults (wc_Opus cfg))"
  defines "bd \<equiv> (if wc_BufferDuration cfg \<le> 0 then DefaultBufferDuration else wc_BufferDuration cfg)"
  shows "writer_inv K L (max 1 (tdiv bd fd)) fd (start_run w)" "L (w_queue w) = []" "\<exists>n. frameSamples (withDefaults (wc_Opus cfg)) = Inr n"
proof -
  obtain ge ge' sil where e: "NewEncoder_opus G (wc_Opus cfg) = Some (Inr ge)" "EncodeSilence G ge = (Inr sil, ge')"
      "w = \<lparr>w_enc = ge', w_frameDuration = FrameDuration_oe ge, w_maxFrames = max 1 (tdiv bd (FrameDuration_oe ge)),
        w_silence = sil, w_queue = dq_New D, w_closed = False, w_level = ucast silenceLevel\<rparr>"
    using new by (auto simp: NewTrackWriter_def Let_def bd_def split: option.splits sum.splits prod.splits)
  obtain n r where r: "frameSamples (withDefaults (wc_Opus cfg)) = Inr n" "e_resampler ge = r" "e_cfg ge = withDefaults (wc_Opus cfg)"
      "NewStreamResampler FormatF32 (c_SampleRate (withDefaults (wc_Opus cfg))) (c_Channels (withDefaults (wc_Opus cfg))) n = Some r"
    using e(1) by (auto simp: NewEncoder_opus_def Let_def split: option.splits sum.splits)
  have "e_resampler ge' = r" using e(2) r(2) by (auto simp: EncodeSilence_def split: sum.splits prod.splits)
  moreover have "sr_safe K r \<and> r_sampleRate r = c_SampleRate (withDefaults (wc_Opus cfg))"
    using r(4) frameSamples_exact(1)[OF r(1)] by (auto simp: NewStreamResampler_def sr_safe_def split: if_splits)
  ultimately show "writer_inv K L (max 1 (tdiv bd fd)) fd (start_run w)" "L (w_queue w) = []"
    using K deque_laws(1)[OF D] r(3) e(3) unfolding fd_def
    by (simp_all add: writer_inv_def start_run_def writer_enc_ok_def all_kernels_ok_def FrameDuration_oe_def fifo_run_def)
  show "\<exists>n. frameSamples (withDefaults (wc_Opus cfg)) = Inr n" using r(1) by blast
qed

lemma buffered_bound:
  assumes "0 < fd" "0 \<le> len" "len \<le> max 1 (tdiv bd fd)" "0 < bd" "in_i64 bd" "in_i64 fd"
  shows "i64 (len * fd) \<le> max bd fd"
proof -
  have "tdiv bd fd * fd \<le> bd" using assms by (simp add: tdiv_nonneg) (metis div_mult_mod_eq mod_int_pos_iff le_add_same_cancel1)
  moreover have "len * fd \<le> max 1 (tdiv bd fd) * fd" using assms by (intro mult_right_mono) auto
  ultimately have "len * fd \<le> max bd fd" by (auto simp: max_def split: if_splits)
  moreover have "0 \<le> len * fd" using assms by simp
  ultimately have "in_i64 (len * fd)" using assms(5,6) by (auto simp: in_i64_def)
  with \<open>len * fd \<le> max bd fd\<close> show ?thesis by (simp add: i64_id)
qed

text \<open>C24: the writer is a bounded queue that drops the oldest audio, and only when it has to. Whatever is written, flushed, cleared, taken and closed, in whatever order
  and with whatever buffers, whole frames or not, nothing panics or hangs. The queue, what was sent from it and what the track was given are those of a queue of at most
  \<open>maxFrames\<close> frames that keeps the newest ones: going over the cap costs exactly the oldest frames beyond it, each turn gives the oldest frame that
  waits, or silence when none does, and only \<open>Clear\<close> and \<open>Close\<close> discard what waits. What waits never lasts longer
  than the buffer duration (or one frame, if that is longer); and as long as no more frames were queued than fit and nothing was cleared, nothing is lost.\<close>

theorem writer_drops_oldest:
  assumes "deque_ok D L" and "NewTrackWriter G D cfg = Some (Inr w)"
    and "all_kernels_ok K (c_SampleRate (withDefaults (wc_Opus cfg)))" and "in_i64 (wc_BufferDuration cfg)"
  defines "bd \<equiv> (if wc_BufferDuration cfg \<le> 0 then DefaultBufferDuration else wc_BufferDuration cfg)"
  shows "\<exists>s. writer_steps G K D dbfs ops (start_run w) = Some s \<and>
    (\<exists>heard. fifo_run (nat (w_maxFrames w)) (rn_events s) = (L (w_queue (rn_w s)), rn_sent s, heard) \<and>
       map s_Data (rn_samples s) = map (\<lambda>f. case f of None \<Rightarrow> w_silence (rn_w s) | Some f \<Rightarrow> qf_data f) heard) \<and>
    subseq (rn_sent s @ L (w_queue (rn_w s))) (rn_pushed s) \<and> suffix (L (w_queue (rn_w s))) (rn_pushed s) \<and>
    w_maxFrames w = max 1 (tdiv bd (c_FrameDuration (withDefaults (wc_Opus cfg)))) \<and>
    Buffered D (rn_w s) \<le> max bd (c_FrameDuration (withDefaults (wc_Opus cfg))) \<and>
    (list_all keeps_queue ops \<and> int (length (rn_pushed s)) \<le> w_maxFrames w \<longrightarrow>
       rn_sent s @ L (w_queue (rn_w s)) = rn_pushed s)"
proof -
  define fd where "fd = c_FrameDuration (withDefaults (wc_Opus cfg))"
  define m where "m = max 1 (tdiv bd fd)"
  note new = NewTrackWriter_ok[OF assms(1-3), folded bd_def fd_def m_def]
  have m: "1 \<le> m" by (simp add: m_def)
  from writer_steps_inv[OF assms(1) m new(1), of G dbfs ops] obtain s where
    s: "writer_steps G K D dbfs ops (start_run w) = Some s" "step_ok K L m fd (list_all keeps_queue ops) (start_run w) s" by blast
  obtain n where n: "frameSamples (withDefaults (wc_Opus cfg)) = Inr n" using new(3) by blast
  have fd: "0 < fd" "in_i64 fd"
    using n by (auto simp: fd_def frameSamples_def validDurations_def in_i64_def Let_def split: if_splits)
  have inv: "writer_inv K L m fd s" using s(2) by (simp add: step_ok_def)
  have "i64 (int (length (L (w_queue (rn_w s)))) * fd) \<le> max bd fd"
    by (rule buffered_bound) (use fd inv assms(4) in \<open>auto simp: writer_inv_def m_def bd_def DefaultBufferDuration_def in_i64_def\<close>)
  then have "Buffered D (rn_w s) \<le> max bd fd" using inv deque_laws(3)[OF assms(1)] by (simp add: Buffered_def writer_inv_def)
  moreover have wm: "w_maxFrames w = m" using new(1) by (simp add: writer_inv_def start_run_def)
  moreover have "list_all keeps_queue ops \<and> int (length (rn_pushed s)) \<le> m \<longrightarrow> rn_sent s @ L (w_queue (rn_w s)) = rn_pushed s"
    using s(2) new(2) by (simp add: step_ok_def start_run_def)
  ultimately show ?thesis
    using s(1) inv unfolding fd_def[symmetric] wm m_def[symmetric] writer_inv_def by blast
qed

definition list_deque :: "queuedFrame list deque" where
  "list_deque = \<lparr>dq_New = [], dq_PushBack = (\<lambda>q x. q @ [x]), dq_PopFront = (\<lambda>q. (hd q, tl q)), dq_Len = (\<lambda>q. int (length q)), dq_Clear = (\<lambda>_. [])\<rparr>"

lemma list_deque_ok: "deque_ok list_deque id"
  by (simp add: deque_ok_def list_deque_def)

definition short_writer :: "(unit \<times> float32 list list, queuedFrame list) TrackWriter" where
  "short_writer = \<lparr>w_enc = short_encoder\<lparr>e_enc := ((), [replicate 20 0])\<rparr>, w_frameDuration = 2500000, w_maxFrames = 1,
     w_silence = replicate 20 1, w_queue = [], w_closed = False, w_level = 127\<rparr>"

definition short_writer_cfg :: WriterConfig where
  "short_writer_cfg = \<lparr>wc_Opus = short_cfg, wc_BufferDuration = 3000000\<rparr>"

lemma short_writer_new: "NewTrackWriter (recording counting_gopus) list_deque short_writer_cfg = Some (Inr short_writer)"
  by code_simp

lemma short_writer_kernels: "all_kernels_ok wide_kernel (c_SampleRate (withDefaults (wc_Opus short_writer_cfg)))"
  using wide_kernel_ok[of 8000] by (simp add: short_writer_cfg_def withDefaults_def short_cfg_def Let_def)

definition short_ops :: "writer_op list" where
  "short_ops = [TakeOp, WriteOp one_sample, FlushWriterOp, WriteOp one_sample, FlushWriterOp, TakeOp, StoreOp, TakeOp, WriteOp one_sample, FlushWriterOp]"

theorem writer_drops_oldest_witness:
  "\<exists>s. writer_steps (recording counting_gopus) wide_kernel list_deque (\<lambda>_. Some (- 20)) short_ops (start_run short_writer) = Some s \<and>
     subseq (rn_sent s @ w_queue (rn_w s)) (rn_pushed s) \<and> Buffered list_deque (rn_w s) \<le> 3000000 \<and>
     fst (fifo_run 1 (rn_events s)) = w_queue (rn_w s) \<and>
     length (rn_sent s) = 1 \<and> length (w_queue (rn_w s)) = 1 \<and> length (rn_pushed s) = 3"
proof -
  have run: "map_option (\<lambda>s. (length (rn_sent s), length (w_queue (rn_w s)), length (rn_pushed s)))
      (writer_steps (recording counting_gopus) wide_kernel list_deque (\<lambda>_. Some (- 20)) short_ops (start_run short_writer)) = Some (1, 1, 3)"
    by code_simp
  have b: "in_i64 (wc_BufferDuration short_writer_cfg)" by (simp add: in_i64_def short_writer_cfg_def)
  have c: "wc_BufferDuration short_writer_cfg = 3000000" "c_FrameDuration (withDefaults (wc_Opus short_writer_cfg)) = 2500000"
      "w_maxFrames short_writer = 1"
    by (simp_all add: short_writer_cfg_def short_cfg_def withDefaults_def short_writer_def Let_def)
  from writer_drops_oldest[OF list_deque_ok short_writer_new short_writer_kernels b, of "\<lambda>_. Some (- 20)" short_ops] run
  show ?thesis by (auto simp: c)
qed

text \<open>Placing samples one after the other on the RTP clock of a track.\<close>

fun place_all :: "sampleClock \<Rightarrow> sample list \<Rightarrow> uint32 \<Rightarrow> (track_error + uint32 \<times> uint32) list" where
  "place_all c [] rate = []"
| "place_all c (s # ss) rate = (case place c s rate of (r, c) \<Rightarrow> r # place_all c ss rate)"

lemma place_all_even:
  assumes "list_all (\<lambda>x. s_Duration x = fd \<and> s_Timestamp x = None \<and> s_PacketTimestamp x = 0 \<and> s_PrevDroppedPackets x = 0) ss" "0 \<le> fd"
    "c_wall c = None"
  shows "place_all c ss rate = replicate (length ss) (Inr (0, ticks fd rate))"
  using assms by (induction ss arbitrary: c) (auto simp: place_def clock_target_def Let_def)

text \<open>A continuous timeline. In every run, also while the queue is empty and silence is sent, the samples handed to the track
  follow one another on its 48 kHz RTP clock without a gap or an overlap: none asks for a skip, and each takes exactly as many ticks as its
  duration amounts to, without rounding.\<close>

theorem writer_timeline_continuous:
  assumes "deque_ok D L" and "NewTrackWriter G D cfg = Some (Inr w)"
    and "all_kernels_ok K (c_SampleRate (withDefaults (wc_Opus cfg)))"
  defines "fd \<equiv> c_FrameDuration (withDefaults (wc_Opus cfg))"
  shows "\<exists>s t. writer_steps G K D dbfs ops (start_run w) = Some s \<and>
    place_all new_clock (rn_samples s) OpusClockRate = replicate (length (rn_samples s)) (Inr (0, word_of_int t)) \<and>
    t * Second = fd * uint OpusClockRate \<and> 0 < t \<and> t < 2 ^ 32"
proof -
  define m where "m = max 1 (tdiv (if wc_BufferDuration cfg \<le> 0 then DefaultBufferDuration else wc_BufferDuration cfg) fd)"
  note new = NewTrackWriter_ok[OF assms(1-3), folded fd_def, folded m_def]
  have m: "1 \<le> m" by (simp add: m_def)
  from writer_steps_inv[OF assms(1) m new(1), of G dbfs ops] obtain s where
    s: "writer_steps G K D dbfs ops (start_run w) = Some s" "writer_inv K L m fd s" by (auto simp: step_ok_def)
  obtain n where "frameSamples (withDefaults (wc_Opus cfg)) = Inr n" using new(3) by blast
  then have "fd \<in> set validDurations" by (auto simp: fd_def frameSamples_def validDurations_def Let_def split: if_splits)
  then have t: "\<exists>t. ticks fd OpusClockRate = word_of_int t \<and> t * Second = fd * uint OpusClockRate \<and> 0 < t \<and> t < 2 ^ 32" and "0 \<le> fd"
    by (auto simp: validDurations_def ticks_def OpusClockRate_def i64_id in_i64_def tdiv_nonneg intro: exI[of _ 120])
  with place_all_even[of fd "rn_samples s" new_clock OpusClockRate] s show ?thesis
    by (auto simp: writer_inv_def new_clock_def)
qed


theorem writer_timeline_continuous_witness:
  "\<exists>s t. writer_steps (recording counting_gopus) wide_kernel list_deque (\<lambda>_. None) short_ops (start_run short_writer) = Some s \<and>
     place_all new_clock (rn_samples s) OpusClockRate = [Inr (0, word_of_int t), Inr (0, word_of_int t), Inr (0, word_of_int t)] \<and> t = 120"
proof -
  have run: "map_option (\<lambda>s. length (rn_samples s))
      (writer_steps (recording counting_gopus) wide_kernel list_deque (\<lambda>_. None) short_ops (start_run short_writer)) = Some 3"
    by code_simp
  have c: "c_FrameDuration (withDefaults (wc_Opus short_writer_cfg)) = 2500000" "uint OpusClockRate = 48000"
    by (simp_all add: short_writer_cfg_def short_cfg_def withDefaults_def Let_def OpusClockRate_def)
  from writer_timeline_continuous[OF list_deque_ok short_writer_new short_writer_kernels, of "\<lambda>_. None" short_ops] run
  show ?thesis by (auto simp: c eval_nat_numeral)
qed

end
