(* ===== verification/AudioReader.thy ===== *)
theory AudioReader
  imports Opus Red
begin

text \<open>
  Decoding a remote track, \<open>reader.go\<close> of package \<open>audio/rtc\<close>: unwrapping RED, placing packets by their sequence number,
  concealing losses, decoding Opus and giving each buffer its time. The source of RTP packets is the list of answers it will give; a
  reader that asks for more than the list holds is blocked. The codec is the argument of \<open>Opus\<close>; \<open>None\<close> is a panic.
\<close>

section \<open>State\<close>

definition DefaultMaxConceal :: duration where "DefaultMaxConceal = 500 * Millisecond"
definition reader_OpusClockRate :: uint32 where "reader_OpusClockRate = 48000"

record ReaderConfig =
  rc_Opus :: opus_Config
  rc_DisableConcealment :: bool
  rc_MaxConceal :: duration

datatype source_error = SourceEOF | SourceFailed string

datatype reader_error = NilSource | NewDecoderError opus_error | SourceError source_error | DecodeRED red_error | DecodeError opus_error

record 'd TrackReader =
  tr_dec :: "'d opus_Decoder"
  tr_red :: "decoder option"
  tr_conceal :: bool
  tr_maxConceal :: int
  tr_clockRate :: uint32
  tr_pending :: "PCM list"
  tr_expectedSeq :: uint16
  tr_haveSeq :: bool
  tr_baseTimestamp :: uint32
  tr_haveBase :: bool

section \<open>Operations\<close>

text \<open>\<open>EqualFold\<close> with a literal of ASCII letters: besides the letters of the other case nothing that folds to one of
  \<open>audio/red\<close> lies outside ASCII.\<close>

definition lower :: "char \<Rightarrow> char" where
  "lower c = (let n = of_char c :: nat in if 65 \<le> n \<and> n \<le> 90 then char_of (n + 32) else c)"

definition isRED :: "string \<Rightarrow> bool" where
  "isRED mimeType \<longleftrightarrow> map lower mimeType = MimeTypeAudio"

text \<open>\<open>src_nil\<close> says that no source was given; the codec is its MIME type and clock rate.\<close>

definition NewRTPReader ::
    "('e, 'd) gopus \<Rightarrow> bool \<Rightarrow> string \<Rightarrow> uint32 \<Rightarrow> ReaderConfig \<Rightarrow> (reader_error + 'd TrackReader) option" where
  "NewRTPReader G src_nil mimeType codecClock cfg =
    (if src_nil then Some (Inl NilSource)
     else
       case NewDecoder_opus G (rc_Opus cfg) of
         None \<Rightarrow> None
       | Some (Inl e) \<Rightarrow> Some (Inl (NewDecoderError e))
       | Some (Inr dec) \<Rightarrow>
          (let maxConceal = (if rc_MaxConceal cfg \<le> 0 then DefaultMaxConceal else rc_MaxConceal cfg);
               clockRate = (if codecClock = 0 then reader_OpusClockRate else codecClock)
           in Some (Inr \<lparr>tr_dec = dec, tr_red = (if isRED mimeType then Some NewDecoder else None),
                tr_conceal = (\<not> rc_DisableConcealment cfg), tr_maxConceal = max 1 (tdiv maxConceal (FrameDuration_od dec)),
                tr_clockRate = clockRate, tr_pending = [], tr_expectedSeq = 0, tr_haveSeq = False,
                tr_baseTimestamp = 0, tr_haveBase = False\<rparr>)))"

definition append_pcm :: "PCM \<Rightarrow> 'd TrackReader \<Rightarrow> 'd TrackReader" where
  "append_pcm pcm r = (if \<not> IsEmpty pcm then r\<lparr>tr_pending := tr_pending r @ [pcm]\<rparr> else r)"

definition ptsOf :: "'d TrackReader \<Rightarrow> uint32 \<Rightarrow> duration" where
  "ptsOf r timestamp = tdiv (i64 (uint (timestamp - tr_baseTimestamp r) * Second)) (uint (tr_clockRate r))"

definition frameTicks :: "'d TrackReader \<Rightarrow> uint32" where
  "frameTicks r = word_of_int (tdiv (i64 (FrameDuration_od (tr_dec r) * uint (tr_clockRate r))) Second)"

text \<open>The loop of \<open>concealGap\<close>, counting down; an error of the codec ends it.\<close>

fun conceal_loop :: "('e, 'd) gopus \<Rightarrow> uint32 \<Rightarrow> nat \<Rightarrow> 'd TrackReader \<Rightarrow> 'd TrackReader option" where
  "conceal_loop G timestamp 0 r = Some r"
| "conceal_loop G timestamp (Suc i) r =
    (case Conceal G (tr_dec r) of
       None \<Rightarrow> None
     | Some (Inl err, dec) \<Rightarrow> Some (r\<lparr>tr_dec := dec\<rparr>)
     | Some (Inr pcm, dec) \<Rightarrow>
        (let r = r\<lparr>tr_dec := dec\<rparr>;
             pcm = pcm\<lparr>p_PTS := ptsOf r (timestamp - of_nat (Suc i) * frameTicks r)\<rparr>
         in conceal_loop G timestamp i (append_pcm pcm r)))"

definition concealGap :: "('e, 'd) gopus \<Rightarrow> int \<Rightarrow> uint32 \<Rightarrow> 'd TrackReader \<Rightarrow> 'd TrackReader option" where
  "concealGap G n timestamp r =
    (if \<not> tr_conceal r then Some r
     else if n > tr_maxConceal r
       then conceal_loop G timestamp (nat (tr_maxConceal r)) (r\<lparr>tr_dec := Reset_od G (tr_dec r)\<rparr>)
     else conceal_loop G timestamp (nat n) r)"

definition handle :: "('e, 'd) gopus \<Rightarrow> rtp_packet \<Rightarrow> 'd TrackReader \<Rightarrow> (reader_error option \<times> 'd TrackReader) option" where
  "handle G pkt r =
    (let seq = SequenceNumber (Header pkt); ts = Timestamp (Header pkt);
         r = (if \<not> tr_haveBase r then r\<lparr>tr_baseTimestamp := ts, tr_haveBase := True\<rparr> else r);
         gap = seq - tr_expectedSeq r
     in if tr_haveSeq r \<and> gap > 0x8000 then Some (None, r)
        else case (if tr_haveSeq r \<and> gap > 0 then concealGap G (uint gap) ts r else Some r) of
          None \<Rightarrow> None
        | Some r \<Rightarrow>
           (let r = r\<lparr>tr_expectedSeq := seq + 1, tr_haveSeq := True\<rparr> in
            case Decode_od G (Payload pkt) (tr_dec r) of
              None \<Rightarrow> None
            | Some (Inl err, dec) \<Rightarrow>
               (let r = r\<lparr>tr_dec := dec\<rparr> in
                if tr_conceal r then map_option (Pair None) (concealGap G 1 ts r)
                else Some (Some (DecodeError err), r))
            | Some (Inr pcm, dec) \<Rightarrow>
               (let r = r\<lparr>tr_dec := dec\<rparr> in
                Some (None, append_pcm (pcm\<lparr>p_PTS := ptsOf r ts\<rparr>) r))))"

fun handle_all :: "('e, 'd) gopus \<Rightarrow> rtp_packet list \<Rightarrow> 'd TrackReader \<Rightarrow> (reader_error option \<times> 'd TrackReader) option" where
  "handle_all G [] r = Some (None, r)"
| "handle_all G (p # ps) r =
    (case handle G p r of
       None \<Rightarrow> None
     | Some (Some err, r) \<Rightarrow> Some (Some err, r)
     | Some (None, r) \<Rightarrow> handle_all G ps r)"

definition readPacket :: "('e, 'd) gopus \<Rightarrow> source_error + rtp_packet \<Rightarrow> 'd TrackReader \<Rightarrow> (reader_error option \<times> 'd TrackReader) option" where
  "readPacket G answer r =
    (case answer of
       Inl err \<Rightarrow> Some (Some (SourceError err), r)
     | Inr pkt \<Rightarrow>
        (case tr_red r of
           None \<Rightarrow> handle_all G [pkt] r
         | Some red \<Rightarrow>
            (case Decode red pkt of
               (Inl rerr, red) \<Rightarrow> Some (Some (DecodeRED rerr), r\<lparr>tr_red := Some red\<rparr>)
             | (Inr recovered, red) \<Rightarrow> handle_all G recovered (r\<lparr>tr_red := Some red\<rparr>))))"

text \<open>The result of a call that may wait for the source for ever.\<close>

datatype 'a waited = Returned 'a | Blocked

fun Read :: "('e, 'd) gopus \<Rightarrow> (source_error + rtp_packet) list \<Rightarrow> 'd TrackReader \<Rightarrow>
    ((reader_error + PCM) waited \<times> (source_error + rtp_packet) list \<times> 'd TrackReader) option" where
  "Read G answers r =
    (case tr_pending r of
       pcm # rest \<Rightarrow> Some (Returned (Inr pcm), answers, r\<lparr>tr_pending := rest\<rparr>)
     | [] \<Rightarrow>
        (case answers of
           [] \<Rightarrow> Some (Blocked, [], r)
         | a # answers \<Rightarrow>
            (case readPacket G a r of
               None \<Rightarrow> None
             | Some (Some err, r) \<Rightarrow> Some (Returned (Inl err), answers, r)
             | Some (None, r) \<Rightarrow> Read G answers r)))"

declare Read.simps [simp del]

text \<open>\<open>Frames\<close> for a loop body that ends the loop at its \<open>n\<close>-th turn: what it was given, and whether the iterator returned.\<close>

fun Frames :: "('e, 'd) gopus \<Rightarrow> nat \<Rightarrow> (source_error + rtp_packet) list \<Rightarrow> 'd TrackReader \<Rightarrow>
    ((reader_error + PCM) list \<times> bool \<times> 'd TrackReader) option" where
  "Frames G 0 answers r = Some ([], True, r)"
| "Frames G (Suc n) answers r =
    (case Read G answers r of
       None \<Rightarrow> None
     | Some (Blocked, _, r) \<Rightarrow> Some ([], False, r)
     | Some (Returned (Inl err), _, r) \<Rightarrow>
         Some (if err = SourceError SourceEOF then [] else [Inl err], True, r)
     | Some (Returned (Inr pcm), answers, r) \<Rightarrow>
         (case Frames G n answers r of
            None \<Rightarrow> None
          | Some (out, ret, r) \<Rightarrow> Some (Inr pcm # out, ret, r)))"

definition Close_tr :: "'d TrackReader \<Rightarrow> 'd TrackReader" where
  "Close_tr r = r\<lparr>tr_pending := []\<rparr>"

section \<open>Reading is handling in order\<close>

text \<open>What is pending is only ever added to.\<close>

lemma ptsOf_pending [simp]: "ptsOf (r\<lparr>tr_pending := q\<rparr>) = ptsOf r" "frameTicks (r\<lparr>tr_pending := q\<rparr>) = frameTicks r"
  "ptsOf (r\<lparr>tr_dec := d\<rparr>) = ptsOf r" "ptsOf (r\<lparr>tr_expectedSeq := s, tr_haveSeq := b\<rparr>) = ptsOf r"
  by (simp_all add: fun_eq_iff ptsOf_def frameTicks_def)

definition after :: "PCM list \<Rightarrow> 'd TrackReader \<Rightarrow> 'd TrackReader" where
  "after q r = r\<lparr>tr_pending := q @ tr_pending r\<rparr>"

lemma after_simps [simp]:
  "tr_dec (after q r) = tr_dec r" "tr_red (after q r) = tr_red r" "tr_conceal (after q r) = tr_conceal r" "tr_maxConceal (after q r) = tr_maxConceal r"
  "tr_haveSeq (after q r) = tr_haveSeq r" "tr_haveBase (after q r) = tr_haveBase r" "tr_expectedSeq (after q r) = tr_expectedSeq r"
  "tr_pending (after q r) = q @ tr_pending r" "(after q r)\<lparr>tr_dec := d\<rparr> = after q (r\<lparr>tr_dec := d\<rparr>)"
  "(after q r)\<lparr>tr_expectedSeq := s\<rparr> = after q (r\<lparr>tr_expectedSeq := s\<rparr>)" "(after q r)\<lparr>tr_haveSeq := b\<rparr> = after q (r\<lparr>tr_haveSeq := b\<rparr>)"
  "(after q r)\<lparr>tr_baseTimestamp := t\<rparr> = after q (r\<lparr>tr_baseTimestamp := t\<rparr>)" "(after q r)\<lparr>tr_haveBase := b\<rparr> = after q (r\<lparr>tr_haveBase := b\<rparr>)"
  "ptsOf (after q r) = ptsOf r" "frameTicks (after q r) = frameTicks r" "append_pcm pcm (after q r) = after q (append_pcm pcm r)"
  by (simp_all add: after_def append_pcm_def)

lemma conceal_loop_after: "conceal_loop G t n (after q r) = map_option (after q) (conceal_loop G t n r)"
  by (induction n arbitrary: r) (auto simp: Let_def split: option.split sum.split prod.split)

lemma concealGap_after: "concealGap G n t (after q r) = map_option (after q) (concealGap G n t r)"
  by (simp add: concealGap_def conceal_loop_after)

lemma handle_after: "handle G p (after q r) = map_option (map_prod id (after q)) (handle G p r)"
  by (auto simp: handle_def Let_def concealGap_after option.map_comp comp_def split: option.split sum.split prod.split)


lemma handle_all_after: "handle_all G ps (after q r) = map_option (map_prod id (after q)) (handle_all G ps r)"
  by (induction ps arbitrary: r) (auto simp: handle_after split: option.split)

lemma handle_all_append: "handle_all G ps r = Some (None, r1) \<Longrightarrow> handle_all G (ps @ qs) r = handle_all G qs r1"
  by (induction ps arbitrary: r) (auto split: option.splits)

lemma handle_all_split: "handle_all G (ps @ qs) r = Some (None, r') \<Longrightarrow> \<exists>r1. handle_all G ps r = Some (None, r1)"
  by (induction ps arbitrary: r) (auto split: option.splits)

lemma conceal_loop_red: "conceal_loop G t n r = Some r' \<Longrightarrow> tr_red r' = tr_red r"
  by (induction n arbitrary: r) (auto simp: Let_def append_pcm_def split: option.splits sum.splits if_splits)

lemma handle_red: "handle G p r = Some (e, r') \<Longrightarrow> tr_red r' = tr_red r"
  by (auto simp: handle_def Let_def concealGap_def append_pcm_def dest!: conceal_loop_red split: option.splits sum.splits if_splits)

lemma handle_all_red: "handle_all G ps r = Some (e, r') \<Longrightarrow> tr_red r' = tr_red r"
  by (induction ps arbitrary: r) (auto dest: handle_red split: option.splits)

abbreviation ended :: "rtp_packet list \<Rightarrow> (source_error + rtp_packet) list" where
  "ended ps \<equiv> map Inr ps @ [Inl SourceEOF]"

lemma Read_ended:
  assumes "tr_pending r = []" "tr_red r = None" "handle_all G ps r = Some (None, r')"
  shows "(tr_pending r' = [] \<and> Read G (ended ps) r = Some (Returned (Inl (SourceError SourceEOF)), [], r')) \<or>
    (\<exists>qs pcm r1. Read G (ended ps) r = Some (Returned (Inr pcm), ended qs, r1) \<and> tr_red r1 = None \<and>
       handle_all G qs r1 = Some (None, r'\<lparr>tr_pending := tl (tr_pending r')\<rparr>) \<and> tr_pending r' = pcm # tl (tr_pending r'))"
  using assms
proof (induction ps arbitrary: r)
  case Nil
  then show ?case by (simp add: Read.simps readPacket_def)
next
  case (Cons p ps)
  obtain r1 where h: "handle G p r = Some (None, r1)" "handle_all G ps r1 = Some (None, r')"
    using Cons.prems(3) by (auto split: option.splits)
  have red: "tr_red r1 = None" using handle_red[OF h(1)] Cons.prems(2) by simp
  have rd: "Read G (ended (p # ps)) r = Read G (ended ps) r1"
    using Cons.prems(1,2) h(1) by (subst Read.simps) (simp add: readPacket_def)
  show ?case
  proof (cases "tr_pending r1")
    case Nil
    show ?thesis unfolding rd by (rule Cons.IH[OF Nil red h(2)])
  next
    case (Cons pcm rest)
    define r2 where "r2 = r1\<lparr>tr_pending := rest\<rparr>"
    have eq: "r1 = after [pcm] r2" using Cons by (simp add: after_def r2_def)
    then obtain r3 where r3: "handle_all G ps r2 = Some (None, r3)" "r' = after [pcm] r3"
      using h(2) by (auto simp: handle_all_after)
    have "Read G (ended ps) r1 = Some (Returned (Inr pcm), ended ps, r2)" using Cons by (subst Read.simps) (simp add: r2_def)
    then show ?thesis unfolding rd using r3 red by (intro disjI2 exI[of _ ps] exI[of _ pcm] exI[of _ r2]) (simp add: after_def r2_def)
  qed
qed

lemma Frames_ended:
  assumes "tr_red r = None" "handle_all G ps r = Some (None, r')" "length (tr_pending r') < n"
  shows "\<exists>r''. Frames G n (ended ps) r = Some (map Inr (tr_pending r'), True, r'')"
  using assms
proof (induction n arbitrary: ps r r')
  case (Suc n)
  have "(tr_pending r' = [] \<and> Read G (ended ps) r = Some (Returned (Inl (SourceError SourceEOF)), [], r')) \<or>
    (\<exists>qs pcm r1. Read G (ended ps) r = Some (Returned (Inr pcm), ended qs, r1) \<and> tr_red r1 = None \<and>
       handle_all G qs r1 = Some (None, r'\<lparr>tr_pending := tl (tr_pending r')\<rparr>) \<and> tr_pending r' = pcm # tl (tr_pending r'))"
  proof (cases "tr_pending r")
    case Nil
    then show ?thesis using Read_ended Suc.prems by blast
  next
    case (Cons pcm rest)
    define r2 where "r2 = r\<lparr>tr_pending := rest\<rparr>"
    have "r = after [pcm] r2" using Cons by (simp add: after_def r2_def)
    then obtain r3 where r3: "handle_all G ps r2 = Some (None, r3)" "r' = after [pcm] r3"
      using Suc.prems(2) by (auto simp: handle_all_after)
    have "Read G (ended ps) r = Some (Returned (Inr pcm), ended ps, r2)" using Cons by (subst Read.simps) (simp add: r2_def)
    then show ?thesis using r3 Suc.prems(1) by (intro disjI2 exI[of _ ps] exI[of _ pcm] exI[of _ r2]) (simp add: after_def r2_def)
  qed
  then show ?case
  proof (elim disjE exE conjE)
    fix qs pcm r1
    assume a: "Read G (ended ps) r = Some (Returned (Inr pcm), ended qs, r1)" "tr_red r1 = None"
      "handle_all G qs r1 = Some (None, r'\<lparr>tr_pending := tl (tr_pending r')\<rparr>)" "tr_pending r' = pcm # tl (tr_pending r')"
    have "length (tr_pending (r'\<lparr>tr_pending := tl (tr_pending r')\<rparr>)) < n" using Suc.prems(3) a(4) by (cases "tr_pending r'") auto
    from Suc.IH[OF a(2,3) this] a(1,4) show ?thesis by (cases "tr_pending r'") auto
  qed simp
qed simp

section \<open>What decoding and concealing produce\<close>

text \<open>What is relied on of the codec, for frames of \<open>n\<close> samples per channel: a packet that is \<open>good\<close> decodes to one frame, a loss to as much as
  its buffer holds, and the buffer keeps its size.\<close>

definition gopus_frames_ok :: "('e, 'd) gopus \<Rightarrow> (byte list \<Rightarrow> bool) \<Rightarrow> int \<Rightarrow> int \<Rightarrow> bool" where
  "gopus_frames_ok G good n ch \<longleftrightarrow>
     (\<forall>d p buf. good p \<and> p \<noteq> [] \<longrightarrow> (\<exists>b d'. g_Decode G d p buf = (Inr n, b, d') \<and> length b = length buf)) \<and>
     (\<forall>d buf. int (length buf) = n * ch \<longrightarrow> (\<exists>b d'. g_Decode G d [] buf = (Inr n, b, d') \<and> length b = length buf))"

definition dec_ok :: "opus_Config \<Rightarrow> int \<Rightarrow> 'd opus_Decoder \<Rightarrow> bool" where
  "dec_ok cfg n d \<longleftrightarrow> d_cfg d = cfg \<and> d_frameSamples d = n \<and> frameSamples cfg = Inr n \<and> n * c_Channels cfg \<le> int (length (d_buf d))"

definition one_frame :: "opus_Config \<Rightarrow> int \<Rightarrow> PCM \<Rightarrow> bool" where
  "one_frame cfg n p \<longleftrightarrow> short_frame (FormatF32, c_SampleRate cfg, c_Channels cfg, n) p \<and> Len p = n"

lemma one_frame_PTS [simp]: "one_frame cfg n (p\<lparr>p_PTS := t\<rparr>) = one_frame cfg n p"
  by (simp add: one_frame_def short_frame_def pcm_wf_def Len_def NumSamples_def)

lemma one_frame_not_empty: "one_frame cfg n p \<Longrightarrow> \<not> IsEmpty p"
  by (auto simp: one_frame_def short_frame_def IsEmpty_def Len_def tdiv_def split: if_splits)

lemma decoded_frame:
  assumes d: "dec_ok cfg n d" and k: "k \<le> length (d_buf d)" and b: "length b = k"
  shows "\<exists>pcm d2. decoded d k (Inr n, b, d') = Some (Inr pcm, d2) \<and> one_frame cfg n pcm \<and> dec_ok cfg n d2"
proof -
  define d2 where "d2 = d\<lparr>d_dec := d', d_buf := take k b @ drop k (d_buf d)\<rparr>"
  have fr: "frameSamples cfg = Inr n" "d_cfg d2 = cfg" "dec_ok cfg n d2" using d k b by (auto simp: dec_ok_def d2_def)
  note n = frameSamples_exact[OF fr(1)]
  define xs where "xs = pad_copy (n * c_Channels cfg) 0 (d_buf d2)"
  have xs: "int (length xs) = n * c_Channels cfg" using n by (simp add: xs_def pad_copy_def Let_def)
  define pcm where "pcm = zero_PCM\<lparr>p_Format := FormatF32, p_SampleRate := c_SampleRate cfg, p_Channels := c_Channels cfg, p_f32 := xs\<rparr>"
  have v: "validate FormatF32 (c_SampleRate cfg) (c_Channels cfg) = None" using n by (simp add: validate_def Valid_def)
  have "\<not> n * c_Channels cfg < 0" using n(1,4) by (simp add: not_less)
  then have "output_od d2 n = Some pcm"
    using fr(2) v by (simp add: output_od_def FromFloat32_def New_def NewChecked_def pcm_def xs_def Let_def zero_PCM_def)
  moreover have "To FormatF32 pcm = pcm" "pcm\<lparr>p_PTS := 0\<rparr> = pcm" by (simp_all add: To_def ToFloat32_def pcm_def zero_PCM_def)
  then have "short_frame (FormatF32, c_SampleRate cfg, c_Channels cfg, n) pcm"
    using To_short[OF v xs, of n 0] n(1) by (simp add: pcm_def)
  moreover have "Len pcm = n" using xs n by (simp add: pcm_def Len_def NumSamples_def zero_PCM_def tdiv_nonneg)
  ultimately show ?thesis using fr(3) by (simp add: decoded_def d2_def[symmetric] Let_def one_frame_def)
qed

lemma Conceal_frame:
  assumes G: "gopus_frames_ok G good n (c_Channels cfg)" and d: "dec_ok cfg n d"
  shows "\<exists>pcm d2. Conceal G d = Some (Inr pcm, d2) \<and> one_frame cfg n pcm \<and> dec_ok cfg n d2"
proof -
  define k where "k = nat (n * c_Channels cfg)"
  have n: "0 < n" "0 < c_Channels cfg" using d frameSamples_exact by (auto simp: dec_ok_def)
  then have k: "k \<le> length (d_buf d)" "int k = n * c_Channels cfg" using d by (simp_all add: dec_ok_def k_def nat_le_iff)
  then have "int (length (take k (d_buf d))) = n * c_Channels cfg" by simp
  then obtain b d' where "g_Decode G (d_dec d) [] (take k (d_buf d)) = (Inr n, b, d')" "length b = k"
    using G k(1) unfolding gopus_frames_ok_def by (metis length_take min.absorb2)
  then show ?thesis using decoded_frame[OF d k(1)] d k(1) by (simp add: Conceal_def Let_def dec_ok_def k_def[symmetric])
qed

lemma Decode_frame:
  assumes G: "gopus_frames_ok G good n (c_Channels cfg)" and d: "dec_ok cfg n d" and p: "good p"
  shows "\<exists>pcm d2. Decode_od G p d = Some (Inr pcm, d2) \<and> one_frame cfg n pcm \<and> dec_ok cfg n d2"
proof (cases "p = []")
  case True
  then show ?thesis using Conceal_frame[OF G d] by (simp add: Decode_od_def)
next
  case False
  with G p obtain b d' where "g_Decode G (d_dec d) p (d_buf d) = (Inr n, b, d')" "length b = length (d_buf d)"
    unfolding gopus_frames_ok_def by blast
  then show ?thesis using decoded_frame[OF d order_refl] False by (simp add: Decode_od_def)
qed


section \<open>Slots of the stream\<close>

text \<open>What a reader is to hand out, abstractly. Packets are numbered from the start of the stream; \<open>e\<close> is the next number expected. A packet from
  before \<open>e\<close> is too late. Of the numbers skipped, the last \<open>m\<close> are concealed.\<close>

fun slots :: "nat \<Rightarrow> nat \<Rightarrow> nat list \<Rightarrow> nat list" where
  "slots m e [] = []"
| "slots m e (i # is) = (if i < e then slots m e is else [i - min m (i - e)..<Suc i] @ slots m (Suc i) is)"

text \<open>No packet is further than half the range of sequence numbers away from where it is expected.\<close>

fun near :: "nat \<Rightarrow> nat list \<Rightarrow> bool" where
  "near e [] \<longleftrightarrow> True"
| "near e (i # is) \<longleftrightarrow> (if i < e then e - i < 0x8000 \<and> near e is else i - e \<le> 0x8000 \<and> near (Suc i) is)"

fun gaps_le :: "nat \<Rightarrow> nat \<Rightarrow> nat list \<Rightarrow> bool" where
  "gaps_le m e [] \<longleftrightarrow> True"
| "gaps_le m e (i # is) \<longleftrightarrow> (if i < e then gaps_le m e is else i - e \<le> m \<and> gaps_le m (Suc i) is)"

text \<open>With no gap longer than can be concealed, every slot is handed out once, in order.\<close>

lemma slots_contiguous: "gaps_le m e is \<Longrightarrow> slots m e is = [e..<foldl (\<lambda>e i. max e (Suc i)) e is]"
proof (induction "is" arbitrary: e)
  case (Cons i "is")
  have mono: "a \<le> foldl (\<lambda>e i. max e (Suc i)) a is" for a
    by (induction "is" arbitrary: a) (simp_all, metis max.bounded_iff)
  show ?case
  proof (cases "i < e")
    case True
    then have "max e (Suc i) = e" by simp
    then show ?thesis using True Cons by simp
  next
    case False
    then have "slots m e (i # is) = [e..<Suc i] @ [Suc i..<foldl (\<lambda>e i. max e (Suc i)) (Suc i) is]"
      using Cons by (simp add: min_absorb2 del: upt_Suc)
    also have "\<dots> = [e..<foldl (\<lambda>e i. max e (Suc i)) (Suc i) is]"
      using False mono[of "Suc i"] by (metis le_Suc_eq linorder_not_less upt_add_eq_append le_add_diff_inverse)
    finally show ?thesis using False by (simp add: max_def)
  qed
qed simp

definition is_packet :: "uint16 \<Rightarrow> uint32 \<Rightarrow> uint32 \<Rightarrow> (byte list \<Rightarrow> bool) \<Rightarrow> nat \<Rightarrow> rtp_packet \<Rightarrow> bool" where
  "is_packet s0 t0 t good i p \<longleftrightarrow> SequenceNumber (Header p) = s0 + of_nat i \<and> Timestamp (Header p) = t0 + of_nat i * t \<and> good (Payload p)"

text \<open>A reader whose stream began with packet \<open>a\<close>, that expects packet \<open>e\<close> and has handed out the slots \<open>ks\<close>. \<open>t\<close> are the ticks of a frame
  on a 48 kHz clock.\<close>

definition reader_at ::
    "opus_Config \<Rightarrow> int \<Rightarrow> nat \<Rightarrow> uint16 \<Rightarrow> uint32 \<Rightarrow> nat \<Rightarrow> nat \<Rightarrow> nat list \<Rightarrow> 'd TrackReader \<Rightarrow> bool" where
  "reader_at cfg n m s0 t0 a e ks r \<longleftrightarrow> dec_ok cfg n (tr_dec r) \<and> (if tr_conceal r then tr_maxConceal r = int m else m = 0) \<and>
     tr_clockRate r = 48000 \<and> tr_haveBase r \<and> tr_haveSeq r \<and> tr_baseTimestamp r = t0 + of_nat a * frameTicks r \<and>
     tr_expectedSeq r = s0 + of_nat e \<and> map p_PTS (tr_pending r) = map (\<lambda>k. int (k - a) * c_FrameDuration cfg) ks \<and>
     list_all (one_frame cfg n) (tr_pending r)"

lemma frame_ticks:
  assumes "frameSamples cfg = Inr n"
  shows "\<exists>t. tdiv (i64 (c_FrameDuration cfg * 48000)) Second = t \<and> 0 < t \<and> t < 2 ^ 32 \<and> t * Second = c_FrameDuration cfg * 48000"
proof -
  have "c_FrameDuration cfg \<in> set validDurations" using assms by (auto simp: frameSamples_def validDurations_def Let_def split: if_splits)
  then show ?thesis by (auto simp: validDurations_def i64_id in_i64_def tdiv_nonneg)
qed

lemma ticks_in_i64: "0 \<le> x \<Longrightarrow> x < 2 ^ 32 \<Longrightarrow> in_i64 (x * Second)"
  by (simp add: in_i64_def)

text \<open>The time of slot \<open>k\<close>.\<close>

lemma pts_slot:
  assumes "frameSamples cfg = Inr n" "d_cfg (tr_dec r) = cfg" "tr_clockRate r = 48000" "tr_baseTimestamp r = t0 + of_nat a * frameTicks r"
    and k: "a \<le> k" "int (k - a) * uint (frameTicks r) < 2 ^ 32"
  shows "ptsOf r (t0 + of_nat k * frameTicks r) = int (k - a) * c_FrameDuration cfg"
proof -
  obtain t where t: "tdiv (i64 (c_FrameDuration cfg * 48000)) Second = t" "0 < t" "t < 2 ^ 32" "t * Second = c_FrameDuration cfg * 48000"
    using frame_ticks[OF assms(1)] by blast
  have ft: "uint (frameTicks r) = t" using t assms(2,3) by (simp add: frameTicks_def FrameDuration_od_def uint_word_of_int)
  have "t0 + of_nat k * frameTicks r - tr_baseTimestamp r = (of_nat (k - a) :: uint32) * frameTicks r"
    using assms(4) k(1) by (simp add: of_nat_diff left_diff_distrib)
  moreover have "uint ((of_nat (k - a) :: uint32) * frameTicks r) = int (k - a) * t"
  proof -
    have "(of_nat (k - a) :: uint32) * frameTicks r = word_of_int (int (k - a) * t)" unfolding ft[symmetric] by simp
    moreover have "uint (word_of_int (int (k - a) * t) :: uint32) = int (k - a) * t"
      unfolding uint_word_of_int using k(2) t(2) unfolding ft by simp
    ultimately show ?thesis by metis
  qed
  moreover have "i64 (int (k - a) * t * Second) = int (k - a) * c_FrameDuration cfg * 48000"
  proof -
    have "0 \<le> int (k - a) * t" "int (k - a) * t < 2 ^ 32" using k(2) t(2) unfolding ft by simp_all
    then have "in_i64 (int (k - a) * t * Second)" by (rule ticks_in_i64)
    then have "i64 (int (k - a) * t * Second) = int (k - a) * (t * Second)" by (simp only: i64_id mult.assoc)
    then show ?thesis unfolding t(4) by simp
  qed
  moreover have "0 < c_FrameDuration cfg" using t(2,4) by linarith
  then have "tdiv (int (k - a) * c_FrameDuration cfg * 48000) 48000 = int (k - a) * c_FrameDuration cfg" by (simp add: tdiv_nonneg)
  ultimately show ?thesis using assms(3) by (simp only: ptsOf_def) simp
qed

lemma conceal_loop_slots:
  assumes G: "gopus_frames_ok G good n (c_Channels cfg)"
    and r: "dec_ok cfg n (tr_dec r)" "tr_clockRate r = 48000" "tr_baseTimestamp r = t0 + of_nat a * frameTicks r"
    and j: "j \<le> i" "a \<le> i - j" "int (i - a) * uint (frameTicks r) < 2 ^ 32"
  shows "\<exists>d pcms. conceal_loop G (t0 + of_nat i * frameTicks r) j r = Some (r\<lparr>tr_dec := d, tr_pending := tr_pending r @ pcms\<rparr>) \<and>
    dec_ok cfg n d \<and> map p_PTS pcms = map (\<lambda>k. int (k - a) * c_FrameDuration cfg) [i - j..<i] \<and> list_all (one_frame cfg n) pcms"
  using r j
proof (induction j arbitrary: r)
  case 0
  then show ?case by (intro exI[of _ "tr_dec r"] exI[of _ "[]"]) simp
next
  case (Suc j)
  obtain pcm d where c: "Conceal G (tr_dec r) = Some (Inr pcm, d)" "one_frame cfg n pcm" "dec_ok cfg n d"
    using Conceal_frame[OF G Suc.prems(1)] by blast
  define k where "k = i - Suc j"
  have k: "i = k + Suc j" "a \<le> k" using Suc.prems(4,5) by (auto simp: k_def)
  define t where "t = frameTicks r"
  define pcm' where "pcm' = pcm\<lparr>p_PTS := int (k - a) * c_FrameDuration cfg\<rparr>"
  have cfg: "d_cfg (tr_dec r) = cfg" "frameSamples cfg = Inr n" "d_cfg d = cfg" using Suc.prems(1) c(3) by (auto simp: dec_ok_def)
  have ft: "frameTicks (r\<lparr>tr_dec := d\<rparr>) = t" using cfg by (simp add: t_def frameTicks_def FrameDuration_od_def)
  have "int (k - a) * uint t \<le> int (i - a) * uint t" using k by (intro mult_right_mono) auto
  then have "int (k - a) * uint t < 2 ^ 32" using Suc.prems(6) by (simp add: t_def)
  from pts_slot[OF cfg(2,1) Suc.prems(2,3) k(2) this[unfolded t_def]]
  have pts: "ptsOf r (t0 + of_nat k * t) = int (k - a) * c_FrameDuration cfg" by (simp add: t_def)
  have ts: "t0 + of_nat i * t - of_nat (Suc j) * t = t0 + of_nat k * t" by (simp add: k(1) algebra_simps)
  have ne: "\<not> IsEmpty pcm'" using c(2) one_frame_not_empty[of cfg n pcm'] by (simp add: pcm'_def)
  define r1 where "r1 = r\<lparr>tr_dec := d, tr_pending := tr_pending r @ [pcm']\<rparr>"
  have step: "conceal_loop G (t0 + of_nat i * t) (Suc j) r = conceal_loop G (t0 + of_nat i * t) j r1"
    using c(1) ne ft pts unfolding conceal_loop.simps
    by (simp add: Let_def ts append_pcm_def r1_def pcm'_def[symmetric] del: of_nat_Suc)
  have r1: "dec_ok cfg n (tr_dec r1)" "tr_clockRate r1 = 48000" "frameTicks r1 = t" "tr_baseTimestamp r1 = t0 + of_nat a * frameTicks r1"
    using c(3) Suc.prems(2,3) ft by (simp_all add: r1_def t_def frameTicks_def)
  from Suc.IH[OF r1(1,2,4)] Suc.prems(4-6) r1(3) k obtain d' pcms where
    "conceal_loop G (t0 + of_nat i * t) j r1 = Some (r1\<lparr>tr_dec := d', tr_pending := tr_pending r1 @ pcms\<rparr>)" "dec_ok cfg n d'"
    "map p_PTS pcms = map (\<lambda>k. int (k - a) * c_FrameDuration cfg) [i - j..<i]" "list_all (one_frame cfg n) pcms"
    by (auto simp: t_def)
  moreover have "[i - Suc j..<i] = k # [i - j..<i]" using k by (simp add: upt_rec)
  moreover have "one_frame cfg n pcm'" using c(2) by (simp add: pcm'_def)
  ultimately show ?case
    unfolding step t_def[symmetric]
    by (intro exI[of _ d'] exI[of _ "pcm' # pcms"]) (simp add: r1_def pcm'_def)
qed


lemma uint_gap:
  assumes "e \<le> i" "i - e \<le> 0x8000"
  shows "uint ((s0 + of_nat i) - (s0 + of_nat e) :: uint16) = int (i - e)"
proof -
  have "(s0 + of_nat i) - (s0 + of_nat e) = (of_nat (i - e) :: uint16)" using assms(1) by (simp add: of_nat_diff)
  then show ?thesis using assms(2) by (simp add: unsigned_of_nat take_bit_nat_eq_self)
qed

lemma late_gap:
  assumes "i < e" "e - i < 0x8000"
  shows "0x8000 < (s0 + of_nat i) - (s0 + of_nat e :: uint16)"
proof -
  have "(s0 + of_nat i) - (s0 + of_nat e) = (word_of_int (int i - int e) :: uint16)" by simp
  moreover have "(int i - int e) mod 65536 = int i - int e + 65536"
    using assms mod_pos_pos_trivial[of "int i - int e + 65536" 65536] by simp
  then have "uint (word_of_int (int i - int e) :: uint16) = int i - int e + 65536" unfolding uint_word_of_int by simp
  ultimately show ?thesis using assms by (simp add: word_less_def)
qed

lemma handle_decoded:
  assumes "tr_haveBase r" "tr_haveSeq r" "SequenceNumber (Header p) - tr_expectedSeq r = gap" "\<not> gap > 0x8000"
    "(if gap > 0 then concealGap G (uint gap) (Timestamp (Header p)) r else Some r) = Some r1"
    "Decode_od G (Payload p) (tr_dec r1) = Some (Inr pcm, d)"
  shows "handle G p r = Some (None, append_pcm (pcm\<lparr>p_PTS := ptsOf r1 (Timestamp (Header p))\<rparr>)
    (r1\<lparr>tr_expectedSeq := SequenceNumber (Header p) + 1, tr_haveSeq := True, tr_dec := d\<rparr>))"
  using assms(1,2,4-6) unfolding assms(3)[symmetric] by (simp add: handle_def Let_def split del: if_split)

text \<open>Handling a packet takes the reader to its slots.\<close>

lemma handle_slots:
  assumes G: "gopus_frames_ok G good n (c_Channels cfg)" and at: "reader_at cfg n m s0 t0 a e ks r" and e: "a < e"
    and p: "is_packet s0 t0 (frameTicks r) good i p" and nr: "near e [i]" and lim: "int (i - a) * uint (frameTicks r) < 2 ^ 32"
  shows "\<exists>r'. handle G p r = Some (None, r') \<and> reader_at cfg n m s0 t0 a (max e (Suc i)) (ks @ slots m e [i]) r' \<and> frameTicks r' = frameTicks r"
proof (cases "i < e")
  case True
  then have "0x8000 < (s0 + of_nat i) - (s0 + of_nat e)" using nr late_gap by simp
  then have "handle G p r = Some (None, r)" using at p by (simp add: handle_def Let_def reader_at_def is_packet_def)
  then show ?thesis using at True by (simp add: max_absorb1)
next
  case False
  define t where "t = frameTicks r"
  define gap where "gap = (s0 + of_nat i) - (s0 + of_nat e)"
  have g: "uint gap = int (i - e)" using uint_gap[of e i s0] False nr by (simp add: gap_def)
  have A: "dec_ok cfg n (tr_dec r)" "tr_clockRate r = 48000" "tr_baseTimestamp r = t0 + of_nat a * t" "tr_haveBase r" "tr_haveSeq r"
      "tr_expectedSeq r = s0 + of_nat e" "if tr_conceal r then tr_maxConceal r = int m else m = 0"
    using at by (auto simp: reader_at_def t_def)
  have ng: "\<not> 0x8000 < gap" using g nr False by (simp add: word_less_def)
  define j where "j = min m (i - e)"
  have j: "j \<le> i" "a \<le> i - j" using e False by (auto simp: j_def)
  have "\<exists>d pcms. (if gap > 0 then concealGap G (uint gap) (t0 + of_nat i * t) r else Some r) = Some (r\<lparr>tr_dec := d, tr_pending := tr_pending r @ pcms\<rparr>) \<and>
    dec_ok cfg n d \<and> map p_PTS pcms = map (\<lambda>k. int (k - a) * c_FrameDuration cfg) [i - j..<i] \<and> list_all (one_frame cfg n) pcms"
  proof (cases "gap > 0 \<and> tr_conceal r")
    case False
    then have "j = 0" using A(7) g by (auto simp: j_def word_less_def split: if_splits)
    then show ?thesis using False A(1) by (intro exI[of _ "tr_dec r"] exI[of _ "[]"]) (auto simp: concealGap_def)
  next
    case True
    have m: "tr_maxConceal r = int m" using True A(7) by simp
    define r1 where "r1 = (if uint gap > int m then r\<lparr>tr_dec := Reset_od G (tr_dec r)\<rparr> else r)"
    have c: "concealGap G (uint gap) (t0 + of_nat i * t) r = conceal_loop G (t0 + of_nat i * t) j r1"
      using True m g by (auto simp: concealGap_def r1_def j_def min_def)
    have r1: "dec_ok cfg n (tr_dec r1)" "tr_clockRate r1 = 48000" "frameTicks r1 = t" "tr_baseTimestamp r1 = t0 + of_nat a * frameTicks r1"
        "tr_pending r1 = tr_pending r" "\<And>d q. r1\<lparr>tr_dec := d, tr_pending := q\<rparr> = r\<lparr>tr_dec := d, tr_pending := q\<rparr>"
      using A(1-3) by (auto simp: r1_def dec_ok_def Reset_od_def t_def frameTicks_def FrameDuration_od_def)
    from conceal_loop_slots[OF G r1(1,2,4) j] lim r1(3) show ?thesis
      using True c[unfolded t_def] by (simp add: r1(5,6) t_def)
  qed
  then obtain d pcms where c: "(if gap > 0 then concealGap G (uint gap) (t0 + of_nat i * t) r else Some r) = Some (r\<lparr>tr_dec := d, tr_pending := tr_pending r @ pcms\<rparr>)"
    "dec_ok cfg n d" "map p_PTS pcms = map (\<lambda>k. int (k - a) * c_FrameDuration cfg) [i - j..<i]" "list_all (one_frame cfg n) pcms" by blast
  obtain pcm d2 where dd: "Decode_od G (Payload p) d = Some (Inr pcm, d2)" "one_frame cfg n pcm" "dec_ok cfg n d2"
    using Decode_frame[OF G c(2), of "Payload p"] p by (auto simp: is_packet_def)
  define r1 where "r1 = r\<lparr>tr_dec := d, tr_pending := tr_pending r @ pcms\<rparr>"
  define r2 where "r2 = r1\<lparr>tr_expectedSeq := SequenceNumber (Header p) + 1, tr_haveSeq := True, tr_dec := d2\<rparr>"
  have cf: "d_cfg (tr_dec r) = cfg" "d_cfg d2 = cfg" "frameSamples cfg = Inr n" using A(1) dd(3) by (auto simp: dec_ok_def)
  have ft: "frameTicks r2 = t" using cf by (simp add: r1_def r2_def t_def frameTicks_def FrameDuration_od_def)
  have pts: "ptsOf r2 (t0 + of_nat i * t) = int (i - a) * c_FrameDuration cfg"
    using pts_slot[OF cf(3), of r2 t0 a i] cf A(2,3) lim e False ft by (simp add: r1_def r2_def t_def)
  define pcm' where "pcm' = pcm\<lparr>p_PTS := int (i - a) * c_FrameDuration cfg\<rparr>"
  have o: "one_frame cfg n pcm'" using dd(2) by (simp add: pcm'_def)
  then have ne: "\<not> IsEmpty pcm'" by (rule one_frame_not_empty)
  have q: "SequenceNumber (Header p) - tr_expectedSeq r = gap" "Timestamp (Header p) = t0 + of_nat i * t"
    using p A(6) by (simp_all add: is_packet_def gap_def t_def)
  have sq: "SequenceNumber (Header p) = s0 + of_nat i" using p by (simp add: is_packet_def)
  have "Decode_od G (Payload p) (tr_dec r1) = Some (Inr pcm, d2)" "ptsOf r1 = ptsOf r2"
    using dd(1) by (simp_all add: r1_def r2_def fun_eq_iff ptsOf_def)
  then have "handle G p r = Some (None, append_pcm pcm' r2)"
    using handle_decoded[OF A(4,5) q(1) ng c(1)[folded q(2) r1_def], of pcm d2] pts
    unfolding r2_def[symmetric] pcm'_def q(2) by simp
  moreover have "reader_at cfg n m s0 t0 a (max e (Suc i)) (ks @ slots m e [i]) (append_pcm pcm' r2)"
  proof -
    have "tr_pending (append_pcm pcm' r2) = tr_pending r @ pcms @ [pcm']" using ne by (simp add: append_pcm_def r1_def r2_def)
    moreover have "map p_PTS (pcms @ [pcm']) = map (\<lambda>k. int (k - a) * c_FrameDuration cfg) (slots m e [i])"
      using c(3) False by (simp add: pcm'_def j_def)
    moreover have "slots m e [i] = [i - j..<Suc i]" "max e (Suc i) = Suc i" using False by (auto simp: j_def)
    moreover have "dec_ok cfg n (tr_dec (append_pcm pcm' r2))" "tr_expectedSeq (append_pcm pcm' r2) = s0 + of_nat (Suc i)" "tr_haveSeq (append_pcm pcm' r2)"
      "tr_conceal (append_pcm pcm' r2) = tr_conceal r" "tr_maxConceal (append_pcm pcm' r2) = tr_maxConceal r"
      "tr_clockRate (append_pcm pcm' r2) = tr_clockRate r" "tr_baseTimestamp (append_pcm pcm' r2) = tr_baseTimestamp r" "tr_haveBase (append_pcm pcm' r2) = tr_haveBase r"
      using dd(3) sq by (simp_all add: append_pcm_def r1_def r2_def add.assoc)
    moreover have "frameTicks (append_pcm pcm' r2) = frameTicks r" using ft by (simp add: append_pcm_def t_def)
    ultimately show ?thesis using at c(4) o unfolding reader_at_def by simp
  qed
  moreover have "frameTicks (append_pcm pcm' r2) = t" using ft by (simp add: append_pcm_def)
  ultimately show ?thesis by (simp add: t_def)
qed

lemma slots_Cons: "slots m e (i # is) = slots m e [i] @ slots m (max e (Suc i)) is"
  by (simp add: max_absorb1 max_absorb2)

lemma handle_all_slots:
  assumes G: "gopus_frames_ok G good n (c_Channels cfg)"
  shows "reader_at cfg n m s0 t0 a e ks r \<Longrightarrow> a < e \<Longrightarrow> list_all2 (is_packet s0 t0 (frameTicks r) good) is ps \<Longrightarrow> near e is \<Longrightarrow>
    list_all (\<lambda>i. int (i - a) * uint (frameTicks r) < 2 ^ 32) is \<Longrightarrow>
    \<exists>r' e'. handle_all G ps r = Some (None, r') \<and> reader_at cfg n m s0 t0 a e' (ks @ slots m e is) r'"
proof (induction "is" arbitrary: e ks r ps)
  case Nil
  then show ?case by auto
next
  case (Cons i "is")
  obtain p qs where ps: "ps = p # qs" "is_packet s0 t0 (frameTicks r) good i p" "list_all2 (is_packet s0 t0 (frameTicks r) good) is qs"
    using Cons.prems(3) by (cases ps) auto
  have nr: "near e [i]" "near (max e (Suc i)) is" using Cons.prems(4) by (auto simp: max_absorb1 max_absorb2 split: if_splits)
  obtain r1 where r1: "handle G p r = Some (None, r1)" "reader_at cfg n m s0 t0 a (max e (Suc i)) (ks @ slots m e [i]) r1"
      "frameTicks r1 = frameTicks r"
    using handle_slots[OF G Cons.prems(1,2) ps(2) nr(1)] Cons.prems(5) by auto
  have "a < max e (Suc i)" "list_all (\<lambda>i. int (i - a) * uint (frameTicks r1) < 2 ^ 32) is" using Cons.prems(2,5) r1(3) by auto
  from Cons.IH[OF r1(2) this(1) ps(3)[folded r1(3)] nr(2) this(2)] show ?case
    using ps(1) r1(1) unfolding slots_Cons[of m e i "is"] append_assoc by auto
qed


text \<open>How many lost packets in a row a configuration conceals.\<close>

definition max_conceal :: "ReaderConfig \<Rightarrow> nat" where
  "max_conceal cfg = (if rc_DisableConcealment cfg then 0 else
     nat (max 1 (tdiv (if rc_MaxConceal cfg \<le> 0 then DefaultMaxConceal else rc_MaxConceal cfg)
                      (c_FrameDuration (withDefaults (rc_Opus cfg))))))"

text \<open>A new reader, and its first packet.\<close>

lemma NewRTPReader_ok:
  assumes new: "NewRTPReader G nil mime clock cfg = Some (Inr r)" and c: "clock = 0 \<or> clock = 48000" and red: "\<not> isRED mime"
    and size: "frameSamples (withDefaults (rc_Opus cfg)) = Inr n \<Longrightarrow>
      n \<le> g_MaxPacketSamples G (c_SampleRate (withDefaults (rc_Opus cfg))) (c_Channels (withDefaults (rc_Opus cfg)))"
    and fs: "frameSamples (withDefaults (rc_Opus cfg)) = Inr n"
  shows "dec_ok (withDefaults (rc_Opus cfg)) n (tr_dec r)" "if tr_conceal r then tr_maxConceal r = int (max_conceal cfg) else max_conceal cfg = 0"
    "tr_clockRate r = 48000" "tr_pending r = []" "\<not> tr_haveSeq r" "\<not> tr_haveBase r" "tr_red r = None"
proof -
  define c where "c = withDefaults (rc_Opus cfg)"
  obtain d where d: "NewDecoder_opus G (rc_Opus cfg) = Some (Inr d)" using new by (auto simp: NewRTPReader_def split: if_splits option.splits sum.splits)
  have "n * c_Channels c \<le> g_MaxPacketSamples G (c_SampleRate c) (c_Channels c) * c_Channels c"
    using size[OF fs] frameSamples_exact(4)[OF fs] by (simp add: c_def)
  then have "dec_ok c n d" "d_cfg d = c"
    using d fs by (auto simp: NewDecoder_opus_def c_def[symmetric] dec_ok_def Let_def split: sum.splits if_splits)
  then show "dec_ok (withDefaults (rc_Opus cfg)) n (tr_dec r)" "if tr_conceal r then tr_maxConceal r = int (max_conceal cfg) else max_conceal cfg = 0"
    "tr_clockRate r = 48000" "tr_pending r = []" "\<not> tr_haveSeq r" "\<not> tr_haveBase r" "tr_red r = None"
    using new d c red
    by (auto simp: NewRTPReader_def max_conceal_def FrameDuration_od_def c_def reader_OpusClockRate_def Let_def split: if_splits)
qed

lemma first_slot:
  assumes G: "gopus_frames_ok G good n (c_Channels cfg)" and r: "dec_ok cfg n (tr_dec r)" "if tr_conceal r then tr_maxConceal r = int m else m = 0"
    "tr_clockRate r = 48000" "tr_pending r = []" "\<not> tr_haveSeq r" "\<not> tr_haveBase r"
    and p: "is_packet s0 t0 (frameTicks r) good a p"
  shows "\<exists>r'. handle G p r = Some (None, r') \<and> reader_at cfg n m s0 t0 a (Suc a) [a] r' \<and> frameTicks r' = frameTicks r"
proof -
  obtain pcm d where d: "Decode_od G (Payload p) (tr_dec r) = Some (Inr pcm, d)" "one_frame cfg n pcm" "dec_ok cfg n d"
    using Decode_frame[OF G r(1), of "Payload p"] p by (auto simp: is_packet_def)
  have "\<not> IsEmpty (pcm\<lparr>p_PTS := 0\<rparr>)" using d(2) one_frame_not_empty[of cfg n "pcm\<lparr>p_PTS := 0\<rparr>"] by simp
  moreover have "ptsOf (r\<lparr>tr_baseTimestamp := t, tr_haveBase := b, tr_expectedSeq := q, tr_haveSeq := c, tr_dec := d\<rparr>) t = 0" for t b q c d
    using r(3) by (simp add: ptsOf_def i64_def tdiv_def)
  moreover have "frameTicks (r\<lparr>tr_baseTimestamp := t, tr_haveBase := b, tr_expectedSeq := q, tr_haveSeq := c, tr_dec := d, tr_pending := x\<rparr>) = frameTicks r" for t b q c x
    using r(1) d(3) by (simp add: frameTicks_def FrameDuration_od_def dec_ok_def)
  ultimately show ?thesis
    using r p d by (auto simp: handle_def Let_def is_packet_def append_pcm_def reader_at_def add.assoc split: if_splits)
qed

section \<open>Properties\<close>

text \<open>C25: buffers carry the time of their packets. Take a stream of packets with one Opus frame each, of which a receiver gets any selection in any
  order, with repetitions, starting with packet \<open>a\<close>. If no packet is half the sequence space away from the expected one and
  the stream stays within one turn of the 32-bit RTP clock, iterating over the reader panics in no case, ends
  with the stream, and yields exactly one whole frame for every slot: for each packet that is not late, and for the lost ones before it up to the concealment
  limit. Slot \<open>k\<close> is timed \<open>k - a\<close> frame durations. When no gap exceeds the limit, the slots are the
  whole interval from the first packet to the last, so the audio is continuous.\<close>

theorem reader_fills_slots:
  assumes "NewRTPReader G False mime clock cfg = Some (Inr r)" and "clock = 0 \<or> clock = 48000" and "\<not> isRED mime"
    and "frameSamples (withDefaults (rc_Opus cfg)) = Inr n"
    and "gopus_frames_ok G good n (c_Channels (withDefaults (rc_Opus cfg)))"
    and "n \<le> g_MaxPacketSamples G (c_SampleRate (withDefaults (rc_Opus cfg))) (c_Channels (withDefaults (rc_Opus cfg)))"
    and "list_all2 (is_packet s0 t0 (frameTicks r) good) (a # is) ps" and "near (Suc a) is"
    and "list_all (\<lambda>i. int (i - a) * uint (frameTicks r) < 2 ^ 32) is"
    and "length (slots (max_conceal cfg) a (a # is)) < turns"
  shows "\<exists>pcms r'. Frames G turns (ended ps) r = Some (map Inr pcms, True, r') \<and>
    map p_PTS pcms = map (\<lambda>k. int (k - a) * c_FrameDuration (withDefaults (rc_Opus cfg))) (slots (max_conceal cfg) a (a # is)) \<and>
    list_all (\<lambda>p. Len p = n) pcms \<and>
    (gaps_le (max_conceal cfg) (Suc a) is \<longrightarrow>
       slots (max_conceal cfg) a (a # is) = [a..<foldl (\<lambda>e i. max e (Suc i)) (Suc a) is])"
proof -
  note new = NewRTPReader_ok[OF assms(1-3) assms(6) assms(4)]
  obtain p qs where ps: "ps = p # qs" "is_packet s0 t0 (frameTicks r) good a p" "list_all2 (is_packet s0 t0 (frameTicks r) good) is qs"
    using assms(7) by (cases ps) auto
  from first_slot[OF assms(5) new(1-6) ps(2)] obtain r1 where r1: "handle G p r = Some (None, r1)"
    "reader_at (withDefaults (rc_Opus cfg)) n (max_conceal cfg) s0 t0 a (Suc a) [a] r1" "frameTicks r1 = frameTicks r" by blast
  have sl: "slots (max_conceal cfg) a (a # is) = [a] @ slots (max_conceal cfg) (Suc a) is" by simp
  from handle_all_slots[OF assms(5) r1(2) lessI ps(3)[folded r1(3)] assms(8) assms(9)[folded r1(3)]] obtain r' e' where
    r': "handle_all G qs r1 = Some (None, r')" "reader_at (withDefaults (rc_Opus cfg)) n (max_conceal cfg) s0 t0 a e' (slots (max_conceal cfg) a (a # is)) r'"
    unfolding sl by blast
  have all: "handle_all G ps r = Some (None, r')" using ps(1) r1(1) r'(1) by simp
  have P: "map p_PTS (tr_pending r') = map (\<lambda>k. int (k - a) * c_FrameDuration (withDefaults (rc_Opus cfg))) (slots (max_conceal cfg) a (a # is))"
    "list_all (\<lambda>p. Len p = n) (tr_pending r')"
    using r'(2) by (auto simp: reader_at_def one_frame_def list_all_iff simp del: slots.simps)
  have "length (tr_pending r') < turns" using arg_cong[OF P(1), of length] assms(10) by (simp del: slots.simps)
  from Frames_ended[OF new(7) all this] P show ?thesis
    using slots_contiguous[of "max_conceal cfg" a "a # is"] by (simp del: slots.simps) (auto simp: max_absorb2)
qed


text \<open>A codec that refuses the packet \<open>[0]\<close> and makes one frame of every other.\<close>

definition framing_gopus :: "(unit, unit) gopus" where
  "framing_gopus = counting_gopus\<lparr>g_Decode :=
     (\<lambda>d p buf. (if p = [0] then Inl ''corrupt'' else Inr (if p = [] then int (length buf) else 20), buf, d))\<rparr>"

lemma framing_gopus_ok: "gopus_frames_ok framing_gopus (\<lambda>p. p \<noteq> [0]) 20 1"
  by (simp add: gopus_frames_ok_def framing_gopus_def)

definition short_reader_cfg :: ReaderConfig where
  "short_reader_cfg = \<lparr>rc_Opus = short_cfg, rc_DisableConcealment = False, rc_MaxConceal = 5000000\<rparr>"

definition short_reader :: "unit TrackReader" where
  "short_reader = \<lparr>tr_dec = \<lparr>d_dec = (), d_cfg = withDefaults short_cfg, d_frameSamples = 20, d_buf = replicate 5760 0\<rparr>,
     tr_red = None, tr_conceal = True, tr_maxConceal = 2, tr_clockRate = 48000, tr_pending = [], tr_expectedSeq = 0, tr_haveSeq = False,
     tr_baseTimestamp = 0, tr_haveBase = False\<rparr>"

lemma short_reader_new: "NewRTPReader framing_gopus False ''audio/opus'' 0 short_reader_cfg = Some (Inr short_reader)"
proof -
  have "frameSamples (withDefaults short_cfg) = Inr 20" by code_simp
  moreover have "\<not> isRED ''audio/opus''" by code_simp
  moreover have "c_SampleRate (withDefaults short_cfg) = 8000" "c_Channels (withDefaults short_cfg) = 1" "c_FrameDuration (withDefaults short_cfg) = 2500000"
    by (simp_all add: withDefaults_def short_cfg_def Let_def DefaultChannels_def)
  ultimately show ?thesis
    by (simp add: NewRTPReader_def NewDecoder_opus_def short_reader_cfg_def short_reader_def framing_gopus_def counting_gopus_def
        Let_def FrameDuration_od_def reader_OpusClockRate_def tdiv_nonneg)
qed

lemma short_reader_params: "frameSamples (withDefaults (rc_Opus short_reader_cfg)) = Inr 20" "c_SampleRate (withDefaults (rc_Opus short_reader_cfg)) = 8000"
  "c_Channels (withDefaults (rc_Opus short_reader_cfg)) = 1" "c_FrameDuration (withDefaults (rc_Opus short_reader_cfg)) = 2500000"
  "max_conceal short_reader_cfg = 2" "frameTicks short_reader = 120"
proof -
  show "frameSamples (withDefaults (rc_Opus short_reader_cfg)) = Inr 20" by code_simp
  show c: "c_SampleRate (withDefaults (rc_Opus short_reader_cfg)) = 8000"
    "c_Channels (withDefaults (rc_Opus short_reader_cfg)) = 1" "c_FrameDuration (withDefaults (rc_Opus short_reader_cfg)) = 2500000"
    by (simp_all add: short_reader_cfg_def withDefaults_def short_cfg_def Let_def DefaultChannels_def)
  show "max_conceal short_reader_cfg = 2" using c(3) by (simp add: max_conceal_def short_reader_cfg_def tdiv_nonneg)
  show "frameTicks short_reader = 120"
    using c(3) by (simp add: frameTicks_def FrameDuration_od_def short_reader_def short_reader_cfg_def i64_id in_i64_def tdiv_nonneg)
qed

definition short_packet :: "uint16 \<Rightarrow> uint32 \<Rightarrow> byte list \<Rightarrow> rtp_packet" where
  "short_packet s t p = \<lparr>Header = \<lparr>Padding = False, Marker = False, PayloadType = 111, SequenceNumber = s, Timestamp = t, SSRC = 7, PaddingSize = 0\<rparr>, Payload = p\<rparr>"

text \<open>Packet 5 first, then 7 (6 is lost), 5 again, and 12 after a gap of four, of which two are concealed.\<close>

theorem reader_fills_slots_witness:
  "(\<lambda>ps. \<exists>pcms r'. Frames framing_gopus 9 (ended ps) short_reader = Some (map Inr pcms, True, r') \<and>
     map p_PTS pcms = map ((*) 2500000) [0, 1, 2, 5, 6, 7] \<and> list_all (\<lambda>p. Len p = 20) pcms)
   [short_packet 65535 600 [1], short_packet 1 840 [2], short_packet 65535 600 [1], short_packet 6 1440 [3]]"
proof -
  have ps: "list_all2 (is_packet 65530 0 (frameTicks short_reader) (\<lambda>p. p \<noteq> [0])) (5 # [7, 5, 12])
      [short_packet 65535 600 [1], short_packet 1 840 [2], short_packet 65535 600 [1], short_packet 6 1440 [3]]"
    by (simp add: is_packet_def short_packet_def short_reader_params)
  have nr: "near (Suc 5) [7, 5, 12]" by simp
  have lim: "list_all (\<lambda>i. int (i - 5) * uint (frameTicks short_reader) < 2 ^ 32) [7, 5, 12]" by (simp add: short_reader_params)
  have sl: "slots (max_conceal short_reader_cfg) 5 (5 # [7, 5, 12]) = [5, 6, 7, 10, 11, 12]"
    by (simp add: short_reader_params upt_rec)
  have size: "20 \<le> g_MaxPacketSamples framing_gopus (c_SampleRate (withDefaults (rc_Opus short_reader_cfg))) (c_Channels (withDefaults (rc_Opus short_reader_cfg)))"
    by (simp add: framing_gopus_def counting_gopus_def)
  have red: "\<not> isRED ''audio/opus''" by code_simp
  have G: "gopus_frames_ok framing_gopus (\<lambda>p. p \<noteq> [0]) 20 (c_Channels (withDefaults (rc_Opus short_reader_cfg)))"
    using framing_gopus_ok by (simp add: short_reader_params)
  have len: "length (slots (max_conceal short_reader_cfg) 5 (5 # [7, 5, 12])) < 9" unfolding sl by simp
  show ?thesis
    using reader_fills_slots[OF short_reader_new _ red short_reader_params(1) G size ps nr lim len] unfolding sl
    by (auto simp: short_reader_params(4))
qed

text \<open>The time of a malformed first packet. When the codec refuses the first packet of a stream, the reader conceals it, but times the
  concealed buffer one frame before the packet, which is before its time base: the 32-bit difference wraps, and the buffer is
  timed more than a day into the stream. The next packet's buffer is timed one frame duration, so time runs backwards.\<close>

theorem reader_malformed_first_packet:
  assumes "NewRTPReader G False mime clock cfg = Some (Inr r)" and "clock = 0 \<or> clock = 48000" and "\<not> isRED mime" and "\<not> rc_DisableConcealment cfg"
    and "frameSamples (withDefaults (rc_Opus cfg)) = Inr n"
    and "gopus_frames_ok G good n (c_Channels (withDefaults (rc_Opus cfg)))"
    and "n \<le> g_MaxPacketSamples G (c_SampleRate (withDefaults (rc_Opus cfg))) (c_Channels (withDefaults (rc_Opus cfg)))"
    and "\<forall>d buf. \<exists>err b d'. g_Decode G d (Payload p) buf = (Inl err, b, d') \<and> length b = length buf" and "Payload p \<noteq> []"
    and "is_packet (SequenceNumber (Header p)) (Timestamp (Header p)) (frameTicks r) good 1 q"
  shows "\<exists>bad next r'. Frames G 3 (ended [p, q]) r = Some ([Inr bad, Inr next], True, r') \<and>
    p_PTS bad = tdiv ((2 ^ 32 - uint (frameTicks r)) * Second) 48000 \<and> 24 * 3600 * Second < p_PTS bad \<and>
    p_PTS next = c_FrameDuration (withDefaults (rc_Opus cfg))"
proof -
  define c t0 s0 where "c = withDefaults (rc_Opus cfg)" and "t0 = Timestamp (Header p)" and "s0 = SequenceNumber (Header p)"
  note new = NewRTPReader_ok[OF assms(1-3) assms(7) assms(5), folded c_def]
  obtain t where t: "tdiv (i64 (c_FrameDuration c * 48000)) Second = t" "0 < t" "t < 2 ^ 32" "t * Second = c_FrameDuration c * 48000"
    using frame_ticks assms(5) unfolding c_def by blast
  have "c_FrameDuration c \<in> set validDurations"
    using assms(5) by (auto simp: frameSamples_def validDurations_def c_def Let_def split: if_splits)
  then have t5: "t \<le> 5760" using t(4) by (auto simp: validDurations_def)
  have cfg: "d_cfg (tr_dec r) = c" using new(1) by (simp add: dec_ok_def)
  have ft: "uint (frameTicks r) = t" using t cfg new(3) by (simp add: frameTicks_def FrameDuration_od_def uint_word_of_int)
  obtain err b d' where e: "g_Decode G (d_dec (tr_dec r)) (Payload p) (d_buf (tr_dec r)) = (Inl err, b, d')" "length b = length (d_buf (tr_dec r))"
    using assms(8) by blast
  define d1 where "d1 = (tr_dec r)\<lparr>d_dec := d', d_buf := b\<rparr>"
  have d1: "Decode_od G (Payload p) (tr_dec r) = Some (Inl (Codec err), d1)" "dec_ok c n d1"
    using e assms(9) new(1) by (simp_all add: Decode_od_def decoded_def d1_def dec_ok_def)
  obtain bad d2 where d2: "Conceal G d1 = Some (Inr bad, d2)" "one_frame c n bad" "dec_ok c n d2"
    using Conceal_frame[OF assms(6)[folded c_def] d1(2)] by blast
  define bad' where "bad' = bad\<lparr>p_PTS := tdiv ((2 ^ 32 - t) * Second) 48000\<rparr>"
  define r1 where "r1 = r\<lparr>tr_baseTimestamp := t0, tr_haveBase := True, tr_expectedSeq := s0 + 1, tr_haveSeq := True, tr_dec := d2\<rparr>"
  have pts: "ptsOf r1 (t0 - frameTicks r) = tdiv ((2 ^ 32 - t) * Second) 48000"
  proof -
    have "uint (- frameTicks r) = 2 ^ 32 - t" using ft t(2,3) by (simp add: uint_word_ariths zmod_zminus1_eq_if)
    then show ?thesis using new(3) t(2,3) i64_id[OF ticks_in_i64, of "2 ^ 32 - t"] by (simp add: ptsOf_def r1_def)
  qed
  have conceal: "tr_conceal r" "\<not> 1 > tr_maxConceal r"
    using new(2) assms(4) by (auto simp: max_conceal_def split: if_splits)
  have r1f: "frameTicks r1 = frameTicks r" "d_cfg d2 = c" using d2(3) cfg by (simp_all add: r1_def frameTicks_def FrameDuration_od_def dec_ok_def)
  have bad: "\<not> IsEmpty bad'" using d2(2) one_frame_not_empty[of c n bad'] by (simp add: bad'_def)
  have hp: "handle G p r = Some (None, append_pcm bad' r1)"
    using new(5,6) conceal d1(1) d2(1) pts r1f(1) bad
    by (simp add: handle_def Let_def concealGap_def r1_def t0_def s0_def bad'_def)
  have at: "reader_at c n (max_conceal cfg) s0 t0 0 (Suc 0) [] r1"
    using new d2(3) by (simp add: reader_at_def r1_def)
  have q: "is_packet s0 t0 (frameTicks r1) good 1 q" using assms(10) r1f(1) by (simp add: s0_def t0_def)
  obtain r2 where r2: "handle G q r1 = Some (None, r2)" "reader_at c n (max_conceal cfg) s0 t0 0 2 [1] r2"
    using handle_slots[OF assms(6)[folded c_def] at _ q] ft t(3) r1f(1) by (auto simp: eval_nat_numeral)
  have "append_pcm bad' r1 = after [bad'] r1" using bad new(4) by (simp add: append_pcm_def after_def r1_def)
  then have all: "handle_all G [p, q] r = Some (None, after [bad'] r2)" using hp r2(1) by (simp add: handle_after)
  obtain nx where nx: "tr_pending r2 = [nx]" "p_PTS nx = c_FrameDuration c" using r2(2) by (auto simp: reader_at_def map_eq_Cons_conv)
  obtain r' where "Frames G 3 (ended [p, q]) r = Some (map Inr [bad', nx], True, r')"
    using Frames_ended[OF new(7) all, of 3] nx(1) by auto
  moreover have "24 * 3600 * Second < tdiv ((2 ^ 32 - t) * Second) 48000"
  proof -
    have "4294961536 * Second \<le> (2 ^ 32 - t) * Second" using t5 by simp
    then have "4294961536 * Second div 48000 \<le> (2 ^ 32 - t) * Second div 48000" by (rule zdiv_mono1) simp
    then show ?thesis using t(3) by (simp add: tdiv_nonneg)
  qed
  ultimately show ?thesis using nx(2) ft by (intro exI[of _ bad'] exI[of _ nx] exI[of _ r']) (simp add: bad'_def c_def)
qed

theorem reader_malformed_first_packet_witness:
  "\<exists>bad next r'. Frames framing_gopus 3 (ended [short_packet 9 1000 [0], short_packet 10 1120 [1]]) short_reader = Some ([Inr bad, Inr next], True, r') \<and>
     24 * 3600 * Second < p_PTS bad \<and> p_PTS next = 2500000"
proof -
  have red: "\<not> isRED ''audio/opus''" by code_simp
  have G: "gopus_frames_ok framing_gopus (\<lambda>p. p \<noteq> [0]) 20 (c_Channels (withDefaults (rc_Opus short_reader_cfg)))"
    using framing_gopus_ok by (simp add: short_reader_params)
  have size: "20 \<le> g_MaxPacketSamples framing_gopus (c_SampleRate (withDefaults (rc_Opus short_reader_cfg))) (c_Channels (withDefaults (rc_Opus short_reader_cfg)))"
    by (simp add: framing_gopus_def counting_gopus_def)
  define p q where "p = short_packet 9 1000 [0]" and "q = short_packet 10 1120 [1]"
  have p: "\<forall>d buf. \<exists>err b d'. g_Decode framing_gopus d (Payload p) buf = (Inl err, b, d') \<and> length b = length buf" "Payload p \<noteq> []"
    by (simp_all add: p_def short_packet_def framing_gopus_def)
  have q: "is_packet (SequenceNumber (Header p)) (Timestamp (Header p)) (frameTicks short_reader) (\<lambda>p. p \<noteq> [0]) 1 q"
    by (simp add: p_def q_def short_packet_def is_packet_def short_reader_params)
  have en: "\<not> rc_DisableConcealment short_reader_cfg" by (simp add: short_reader_cfg_def)
  from reader_malformed_first_packet[OF short_reader_new _ red en short_reader_params(1) G size p q]
  show ?thesis unfolding p_def[symmetric] q_def[symmetric] by (auto simp: short_reader_params(4))
qed

end
