(* ===== verification/TrackPump.thy ===== *)
theory TrackPump
  imports Prelude
begin

text \<open>
  The life of a published track, \<open>track/local.go\<close>: binding, unbinding, changing the sample provider and
  closing, and the write loops (pumps) these start and stop; and the pacing of one write loop. \<open>Bind\<close> and
  \<open>Unbind\<close> change the binding before they take the track's mutex, so each is two steps between which
  other calls may run. Providers are numbers. Starting a pump is a goroutine; stopping one cancels it
  and waits for it to end. The callbacks set with \<open>OnBind\<close> and \<open>OnUnbind\<close> run in goroutines of their own and are
  left out.
\<close>

section \<open>State\<close>

datatype provider_call = OnBind nat | OnUnbind nat | CloseProvider nat

text \<open>\<open>t_pump\<close> is the pump the field points to, \<open>t_live\<close> the write loops that run, each with the provider it
  reads. \<open>t_in_bind\<close> and \<open>t_in_unbind\<close> hold while a \<open>Bind\<close> or \<open>Unbind\<close> waits for the mutex.\<close>

record Local =
  t_bound :: bool
  t_provider :: "nat option"
  t_closed :: bool
  t_muted :: bool
  t_pump :: "nat option"
  t_live :: "(nat \<times> nat) list"
  t_started :: nat
  t_in_bind :: bool
  t_in_unbind :: bool
  t_calls :: "provider_call list"

definition NewLocalTrack :: "nat option \<Rightarrow> Local" where
  "NewLocalTrack provider = \<lparr>t_bound = False, t_provider = provider, t_closed = False, t_muted = False, t_pump = None,
     t_live = [], t_started = 0, t_in_bind = False, t_in_unbind = False, t_calls = []\<rparr>"

section \<open>Operations\<close>

definition call :: "provider_call \<Rightarrow> Local \<Rightarrow> Local" where
  "call c t = t\<lparr>t_calls := t_calls t @ [c]\<rparr>"

definition startPumpLocked :: "nat \<Rightarrow> Local \<Rightarrow> Local" where
  "startPumpLocked provider t =
     t\<lparr>t_pump := Some (t_started t), t_live := (t_started t, provider) # t_live t, t_started := t_started t + 1\<rparr>"

definition stopPumpLocked :: "Local \<Rightarrow> Local" where
  "stopPumpLocked t =
    (case t_pump t of
       None \<Rightarrow> t
     | Some n \<Rightarrow> t\<lparr>t_pump := None, t_live := filter (\<lambda>p. fst p \<noteq> n) (t_live t)\<rparr>)"

text \<open>\<open>Bind\<close> up to the mutex, and under it; \<open>ok\<close> is whether the provider's \<open>OnBind\<close> succeeds. The errors of pion
  and of \<open>newBinding\<close> end \<open>Bind\<close> before the binding is stored and leave the track as it was.\<close>

definition bind_store :: "Local \<Rightarrow> Local" where
  "bind_store t = t\<lparr>t_bound := True, t_in_bind := True\<rparr>"

definition bind_locked :: "bool \<Rightarrow> Local \<Rightarrow> Local" where
  "bind_locked ok t =
    (let t = t\<lparr>t_in_bind := False\<rparr> in
     case t_provider t of
       None \<Rightarrow> t
     | Some p \<Rightarrow>
        (if t_closed t then t
         else if \<not> ok then (call (OnBind p) t)\<lparr>t_bound := False\<rparr>
         else startPumpLocked p (call (OnBind p) t)))"

definition unbind_store :: "Local \<Rightarrow> Local" where
  "unbind_store t = t\<lparr>t_bound := False, t_in_unbind := True\<rparr>"

definition unbind_locked :: "Local \<Rightarrow> Local" where
  "unbind_locked t =
    (let t = stopPumpLocked (t\<lparr>t_in_unbind := False\<rparr>) in
     case t_provider t of None \<Rightarrow> t | Some p \<Rightarrow> call (OnUnbind p) t)"

definition StartWrite :: "bool \<Rightarrow> nat \<Rightarrow> Local \<Rightarrow> Local" where
  "StartWrite ok provider t =
    (if t_provider t = Some provider then t
     else if t_bound t \<and> \<not> t_closed t then
       let t = call (OnBind provider) t in
       if \<not> ok then t
       else
         let t = stopPumpLocked t;
             t = (case t_provider t of None \<Rightarrow> t | Some old \<Rightarrow> call (OnUnbind old) t)
         in (startPumpLocked provider t)\<lparr>t_provider := Some provider\<rparr>
     else t\<lparr>t_provider := Some provider\<rparr>)"

definition Close :: "Local \<Rightarrow> Local" where
  "Close t =
    (if t_closed t then t
     else
       let t = stopPumpLocked (t\<lparr>t_closed := True\<rparr>) in
       case t_provider t of None \<Rightarrow> t | Some p \<Rightarrow> call (CloseProvider p) t)"

definition IsBound :: "Local \<Rightarrow> bool" where "IsBound t = t_bound t"
definition SetMuted :: "bool \<Rightarrow> Local \<Rightarrow> Local" where "SetMuted m t = t\<lparr>t_muted := m\<rparr>"
definition Muted :: "Local \<Rightarrow> bool" where "Muted t = t_muted t"

text \<open>A write loop ends by itself when its provider runs out or fails.\<close>

definition pump_ends :: "nat \<Rightarrow> Local \<Rightarrow> Local" where
  "pump_ends n t = t\<lparr>t_live := filter (\<lambda>p. fst p \<noteq> n) (t_live t)\<rparr>"

text \<open>Runs. pion binds and unbinds in turn and one at a time; everything else may happen at any
  time. With \<open>quiet\<close> set, \<open>StartWrite\<close> does not run between the two halves of a \<open>Bind\<close>.\<close>

inductive lstep :: "bool \<Rightarrow> Local \<Rightarrow> Local \<Rightarrow> bool" for quiet where
  bind1: "\<not> t_bound t \<Longrightarrow> \<not> t_in_bind t \<Longrightarrow> \<not> t_in_unbind t \<Longrightarrow> lstep quiet t (bind_store t)"
| bind2: "t_in_bind t \<Longrightarrow> lstep quiet t (bind_locked ok t)"
| unbind1: "t_bound t \<Longrightarrow> \<not> t_in_bind t \<Longrightarrow> lstep quiet t (unbind_store t)"
| unbind2: "t_in_unbind t \<Longrightarrow> lstep quiet t (unbind_locked t)"
| start_write: "\<not> (quiet \<and> t_in_bind t) \<Longrightarrow> lstep quiet t (StartWrite ok p t)"
| close: "lstep quiet t (Close t)"
| muted: "lstep quiet t (SetMuted m t)"
| ends: "n \<in> fst ` set (t_live t) \<Longrightarrow> lstep quiet t (pump_ends n t)"

inductive_cases lstepE: "lstep quiet t t'"

section \<open>At most one write loop\<close>

definition one_pump :: "Local \<Rightarrow> bool" where
  "one_pump t \<longleftrightarrow> (t_live t = [] \<or> (\<exists>n p. t_live t = [(n, p)] \<and> t_pump t = Some n \<and> \<not> t_closed t \<and>
      \<not> t_in_bind t \<and> (t_bound t \<or> t_in_unbind t))) \<and>
     (t_in_bind t \<longrightarrow> t_bound t \<and> \<not> t_in_unbind t) \<and> (t_in_unbind t \<longrightarrow> \<not> t_bound t)"

lemmas pump_defs = bind_store_def bind_locked_def unbind_store_def unbind_locked_def StartWrite_def Close_def
  SetMuted_def pump_ends_def call_def startPumpLocked_def stopPumpLocked_def Let_def

lemma lstep_one_pump: "lstep True t t' \<Longrightarrow> one_pump t \<Longrightarrow> one_pump t'"
  by (erule lstepE) (auto simp: one_pump_def pump_defs split: option.splits)

interpretation lp: invariant_machine "\<lambda>t. \<exists>p. t = NewLocalTrack p" "lstep True" one_pump
proof
  show "one_pump t" if "\<exists>p. t = NewLocalTrack p" for t
    using that by (auto simp: one_pump_def NewLocalTrack_def)
qed (rule lstep_one_pump)



text \<open>\<open>StartWrite\<close> between the two halves of a \<open>Bind\<close> starts a second write loop on the same provider. The
  first one is lost: it goes on after the track is unbound and closed, and nothing can stop it.\<close>

theorem track_bind_race:
  "\<exists>s t. (lstep False)\<^sup>*\<^sup>* (NewLocalTrack None) s \<and> t_live s = [(1, p), (0, p)] \<and> t_pump s = Some 1 \<and>
    (lstep False)\<^sup>*\<^sup>* s t \<and> t_closed t \<and> \<not> t_bound t \<and> t_live t = [(0, p)] \<and> t_pump t = None"
proof -
  define a b c where "a = bind_store (NewLocalTrack None)" and "b = StartWrite True p a" and "c = bind_locked True b"
  define d e f where "d = unbind_store c" and "e = unbind_locked d" and "f = Close e"
  note defs = a_def b_def c_def d_def e_def f_def pump_defs NewLocalTrack_def
  have "lstep False (NewLocalTrack None) a" unfolding a_def by (rule bind1) (simp_all add: NewLocalTrack_def)
  moreover have "lstep False a b" unfolding b_def by (rule start_write) simp
  moreover have "lstep False b c" unfolding c_def by (rule bind2) (simp add: defs)
  ultimately have "(lstep False)\<^sup>*\<^sup>* (NewLocalTrack None) c"
    by (meson converse_rtranclp_into_rtranclp rtranclp.rtrancl_refl)
  moreover have "lstep False c d" unfolding d_def by (rule unbind1) (simp_all add: defs)
  moreover have "lstep False d e" unfolding e_def by (rule unbind2) (simp add: defs)
  moreover have "lstep False e f" unfolding f_def by (rule close)
  ultimately have "(lstep False)\<^sup>*\<^sup>* (NewLocalTrack None) c" "(lstep False)\<^sup>*\<^sup>* c f"
    by (meson converse_rtranclp_into_rtranclp rtranclp.rtrancl_refl)+
  moreover have "t_live c = [(1, p), (0, p)]" "t_pump c = Some 1" by (simp_all add: defs)
  moreover have "t_closed f" "\<not> t_bound f" "t_live f = [(0, p)]" "t_pump f = None" by (simp_all add: defs)
  ultimately show ?thesis by blast
qed

section \<open>Pacing\<close>

definition maxLag :: duration where "maxLag = 200 * Millisecond"

text \<open>One turn of \<open>runPump\<close> after a sample of duration \<open>dur\<close> is written: \<open>now\<close> and \<open>now'\<close> are its two readings of
  the clock. The result is the time the next sample is due and how long the loop sleeps.\<close>

definition pace :: "time \<Rightarrow> time \<Rightarrow> duration \<Rightarrow> time \<Rightarrow> time \<times> duration" where
  "pace now now' dur due =
    (let due = due + dur; wait = due - now;
         due = (if wait < - maxLag then now' else due)
     in (due, max 0 wait))"

text \<open>A run of the loop: one entry per sample with the two clock readings and the duration. Each
  sample is fetched after the sleep of the one before.\<close>

fun paced :: "time \<Rightarrow> time \<Rightarrow> (time \<times> time \<times> duration) list \<Rightarrow> bool" where
  "paced awake due [] \<longleftrightarrow> True"
| "paced awake due ((now, now', dur) # turns) \<longleftrightarrow>
    awake \<le> now \<and> now \<le> now' \<and> 0 \<le> dur \<and>
    (let (due', sleep) = pace now now' dur due in paced (max now' (now + sleep)) due' turns)"

lemma pace_due:
  assumes "now \<le> now'"
  shows "due + dur \<le> fst (pace now now' dur due)" "now - maxLag \<le> fst (pace now now' dur due)"
    "fst (pace now now' dur due) \<le> max now' (now + snd (pace now now' dur due))"
  using assms by (auto simp: pace_def Let_def maxLag_def)

lemma paced_behind:
  "paced awake due (turns @ [(now, now', dur)]) \<Longrightarrow> due \<le> awake \<Longrightarrow>
     due + sum_list (map (\<lambda>t. snd (snd t)) turns) \<le> now"
proof (induction turns arbitrary: awake due)
  case (Cons t turns)
  obtain n n' d where t: "t = (n, n', d)" by (cases t) auto
  obtain due' sl where p: "pace n n' d due = (due', sl)" by fastforce
  have "n \<le> n'" "paced (max n' (n + sl)) due' (turns @ [(now, now', dur)])"
    using Cons.prems t p by auto
  moreover have "due + d \<le> due'" "due' \<le> max n' (n + sl)" using pace_due[OF \<open>n \<le> n'\<close>, where due = due and dur = d] p by auto
  ultimately show ?case using Cons.IH[of "max n' (n + sl)" due'] t by simp
qed simp

text \<open>The write loop keeps real time without bursts. Between any two samples of a run the media written
  is at most the time that has passed plus 200 ms, even after the provider has stalled for any length
  of time.\<close>

theorem track_no_burst:
  assumes "paced awake due ((now, now', dur) # turns @ [(later, later', dur')])"
  shows "sum_list (map (\<lambda>t. snd (snd t)) turns) \<le> (later - now) + maxLag"
proof -
  obtain due' sl where p: "pace now now' dur due = (due', sl)" by fastforce
  have n: "now \<le> now'" and run: "paced (max now' (now + sl)) due' (turns @ [(later, later', dur')])"
    using assms p by auto
  note d = pace_due[OF n, where due = due and dur = dur, unfolded p fst_conv snd_conv]
  from paced_behind[OF run d(3)] d(2) show ?thesis by linarith
qed

theorem track_no_burst_witness:
  "(\<lambda>turns. paced 0 0 ((0, 0, 20) # turns @ [(10 ^ 9 + 20, 10 ^ 9 + 20, 20)]) \<and>
     sum_list (map (\<lambda>t. snd (snd t)) turns) \<le> (10 ^ 9 + 20 - 0) + maxLag)
   [(10 ^ 9, 10 ^ 9, 20), (10 ^ 9, 10 ^ 9, 20)]"
proof -
  have "paced 0 0 ((0, 0, 20) # [(10 ^ 9, 10 ^ 9, 20), (10 ^ 9, 10 ^ 9, 20)] @ [(10 ^ 9 + 20, 10 ^ 9 + 20, 20)])"
    by (simp add: pace_def maxLag_def)
  with track_no_burst[OF this] show ?thesis by blast
qed

end
