(* ===== verification/CallRecovery.thy ===== *)
theory CallRecovery
  imports CallSession
begin

text \<open>
  What joining, reconnecting, migrating and leaving guarantee for the sessions of \<open>CallSession\<close>. Two preorders carry the proofs: \<open>same_client\<close>, that the
  client in use stays in use and is the only one to change, and \<open>conns_kept\<close>, that every peer connection is closed or in use; each operation is
  shown to stay within them, and a whole join follows by composition.
\<close>

section \<open>What each operation touches\<close>

named_theorems frame

definition current :: "call \<Rightarrow> nat set" where
  "current c = set_option (pe_subscriber (ca_peer c)) \<union> set_option (pe_publisher (ca_peer c))"

lemma on_client_frame [frame]:
  "ca_conns (on_client f i c) = ca_conns c" "ca_peer (on_client f i c) = ca_peer c" "ca_SessionID (on_client f i c) = ca_SessionID c"
  "ca_unifiedSessionId (on_client f i c) = ca_unifiedSessionId c" "ca_joinOptions (on_client f i c) = ca_joinOptions c"
  "ca_GetCred (on_client f i c) = ca_GetCred c" "length (ca_clients (on_client f i c)) = length (ca_clients c)"
  by (cases i; simp add: on_client_def)+

lemma on_client_nth: "ca_clients (on_client f i c) ! j =
    (if i = Some j \<and> j < length (ca_clients c) then f (ca_clients c ! j) else ca_clients c ! j)"
  by (cases i) (auto simp: on_client_def nth_update_if)

lemma Close_pc_frame [frame]:
  "ca_clients (Close_pc i c) = ca_clients c" "ca_peer (Close_pc i c) = ca_peer c" "ca_SessionID (Close_pc i c) = ca_SessionID c"
  "ca_unifiedSessionId (Close_pc i c) = ca_unifiedSessionId c" "ca_joinOptions (Close_pc i c) = ca_joinOptions c"
  "ca_GetCred (Close_pc i c) = ca_GetCred c" "length (ca_conns (Close_pc i c)) = length (ca_conns c)"
  by (cases i; simp add: Close_pc_def)+

lemma Unbind_pc_frame [frame]:
  "ca_clients (Unbind_pc i c) = ca_clients c" "ca_peer (Unbind_pc i c) = ca_peer c" "ca_SessionID (Unbind_pc i c) = ca_SessionID c"
  "ca_unifiedSessionId (Unbind_pc i c) = ca_unifiedSessionId c" "ca_joinOptions (Unbind_pc i c) = ca_joinOptions c"
  "ca_GetCred (Unbind_pc i c) = ca_GetCred c" "length (ca_conns (Unbind_pc i c)) = length (ca_conns c)"
  by (cases i; simp add: Unbind_pc_def)+

lemma SetCredentials_frame [frame]:
  "ca_clients (SetCredentials cred c) = ca_clients c" "ca_conns (SetCredentials cred c) = ca_conns c"
  "ca_peer (SetCredentials cred c) = ca_peer c" "ca_SessionID (SetCredentials cred c) = ca_SessionID c"
  "ca_unifiedSessionId (SetCredentials cred c) = ca_unifiedSessionId c" "ca_joinOptions (SetCredentials cred c) = ca_joinOptions c"
  "ca_GetCred (SetCredentials cred c) = ca_GetCred c"
  by (simp_all add: SetCredentials_def Let_def)

lemma Close_pc_closed: "k < length (ca_conns c) \<Longrightarrow> pc_closed (ca_conns (Close_pc i c) ! k) \<longleftrightarrow> i = Some k \<or> pc_closed (ca_conns c ! k)"
  by (cases i) (auto simp: Close_pc_def nth_update_if)

lemma Unbind_pc_closed: "k < length (ca_conns c) \<Longrightarrow> pc_closed (ca_conns (Unbind_pc i c) ! k) \<longleftrightarrow> pc_closed (ca_conns c ! k)"
  by (cases i) (auto simp: Unbind_pc_def nth_update_if)

lemmas closing = Close_pc_closed Unbind_pc_closed

lemma disconnect_with_frame [frame]:
  "ca_peer (disconnect_with S ok s c) = ca_peer c" "ca_SessionID (disconnect_with S ok s c) = ca_SessionID c"
  "ca_unifiedSessionId (disconnect_with S ok s c) = ca_unifiedSessionId c" "ca_joinOptions (disconnect_with S ok s c) = ca_joinOptions c"
  "ca_GetCred (disconnect_with S ok s c) = ca_GetCred c" "length (ca_conns (disconnect_with S ok s c)) = length (ca_conns c)"
  "length (ca_clients (disconnect_with S ok s c)) = length (ca_clients c)"
  by (simp_all add: disconnect_with_def Let_def frame)

lemma disconnect_with_closed:
  "k < length (ca_conns c) \<Longrightarrow> pc_closed (ca_conns (disconnect_with S ok s c) ! k) \<longleftrightarrow>
     s \<noteq> UNSPECIFIED S \<and> s = DISCONNECT S \<and> k \<in> current c \<or> pc_closed (ca_conns c ! k)"
  by (auto simp: disconnect_with_def Let_def frame closing current_def)

lemma Disconnect_detached: "sc_detached (snd (Disconnect g ok cl)) = sc_detached cl"
  by (auto simp: Disconnect_def conn_Disconnect_def conn_Close_def Let_def split: option.split)

lemma client_handle_detached: "sc_detached (client_handle e cl) = sc_detached cl"
  by (auto simp: client_handle_def Let_def calls_handler_def traces_def split: option.split prod.split)

lemma Connect_detached: "sc_detached (snd (Connect d w s t r cl)) = sc_detached cl"
  by (auto simp: Connect_def Let_def traces_def conn_Close_def calls_handler_def client_handle_detached split: option.split sfu_kind.split)

text \<open>The client in use stays in use, keeps its detached flag, and no other client changes.\<close>

definition same_client :: "call \<Rightarrow> call \<Rightarrow> bool" where
  "same_client c c' \<longleftrightarrow> pe_client (ca_peer c') = pe_client (ca_peer c) \<and> length (ca_clients c') = length (ca_clients c) \<and>
     (\<forall>j. Some j \<noteq> pe_client (ca_peer c) \<longrightarrow> ca_clients c' ! j = ca_clients c ! j) \<and>
     (\<forall>j < length (ca_clients c). sc_detached (ca_clients c' ! j) = sc_detached (ca_clients c ! j))"

text \<open>Every peer connection that was in use or is new is closed or in use, the others are left alone.\<close>

definition conns_kept :: "call \<Rightarrow> call \<Rightarrow> bool" where
  "conns_kept c c' \<longleftrightarrow> length (ca_conns c) \<le> length (ca_conns c') \<and>
     (\<forall>k < length (ca_conns c). k \<notin> current c \<longrightarrow> pc_closed (ca_conns c' ! k) = pc_closed (ca_conns c ! k)) \<and>
     (\<forall>k < length (ca_conns c'). length (ca_conns c) \<le> k \<or> k \<in> current c \<longrightarrow> pc_closed (ca_conns c' ! k) \<or> k \<in> current c') \<and>
     current c' \<subseteq> current c \<union> {length (ca_conns c)..<length (ca_conns c')}"

lemma same_client_refl [simp]: "same_client c c" by (simp add: same_client_def)

lemma same_client_trans: "same_client a b \<Longrightarrow> same_client b c \<Longrightarrow> same_client a c"
  by (simp add: same_client_def)

lemma conns_kept_refl [simp]: "conns_kept c c" by (simp add: conns_kept_def)

lemma conns_kept_trans:
  assumes ab: "conns_kept a b" and bc: "conns_kept b c"
  shows "conns_kept a c"
  unfolding conns_kept_def
proof (intro conjI allI impI)
  show "length (ca_conns a) \<le> length (ca_conns c)" using ab bc by (simp add: conns_kept_def)
  show "current c \<subseteq> current a \<union> {length (ca_conns a)..<length (ca_conns c)}"
  proof
    fix k
    assume "k \<in> current c"
    with bc have "k \<in> current b \<or> length (ca_conns b) \<le> k \<and> k < length (ca_conns c)" by (auto simp: conns_kept_def)
    moreover have "length (ca_conns a) \<le> length (ca_conns b)" "length (ca_conns b) \<le> length (ca_conns c)" using ab bc by (simp_all add: conns_kept_def)
    moreover have "k \<in> current a \<or> length (ca_conns a) \<le> k \<and> k < length (ca_conns b)" if "k \<in> current b" using ab that by (auto simp: conns_kept_def)
    ultimately show "k \<in> current a \<union> {length (ca_conns a)..<length (ca_conns c)}" by auto
  qed
next
  fix k
  assume k: "k < length (ca_conns a)" "k \<notin> current a"
  with ab have "k < length (ca_conns b)" "k \<notin> current b" by (auto simp: conns_kept_def)
  with ab bc k show "pc_closed (ca_conns c ! k) = pc_closed (ca_conns a ! k)" by (simp add: conns_kept_def)
next
  fix k
  assume k: "k < length (ca_conns c)" "length (ca_conns a) \<le> k \<or> k \<in> current a"
  show "pc_closed (ca_conns c ! k) \<or> k \<in> current c"
  proof (cases "k < length (ca_conns b) \<and> k \<notin> current b")
    case True
    with ab k have "pc_closed (ca_conns b ! k)" unfolding conns_kept_def by blast
    with True bc show ?thesis by (simp add: conns_kept_def)
  next
    case False
    then have "length (ca_conns b) \<le> k \<or> k \<in> current b" by auto
    with bc k(1) show ?thesis unfolding conns_kept_def by blast
  qed
qed

lemma disconnect_with_rel: "same_client c (disconnect_with S ok s c)" "conns_kept c (disconnect_with S ok s c)"
proof -
  have e: "current (disconnect_with S ok s c) = current c" by (simp add: current_def frame)
  show "conns_kept c (disconnect_with S ok s c)" unfolding conns_kept_def e by (simp add: frame disconnect_with_closed)
  show "same_client c (disconnect_with S ok s c)"
    by (auto simp: same_client_def frame disconnect_with_def Let_def on_client_nth Disconnect_detached)
qed

lemma fold_disconnect_rel:
  "same_client c (fold (\<lambda>(m, e). disconnect_with S ok (f e)) es c) \<and> conns_kept c (fold (\<lambda>(m, e). disconnect_with S ok (f e)) es c) \<and>
   ca_SessionID (fold (\<lambda>(m, e). disconnect_with S ok (f e)) es c) = ca_SessionID c \<and>
   ca_unifiedSessionId (fold (\<lambda>(m, e). disconnect_with S ok (f e)) es c) = ca_unifiedSessionId c \<and>
   ca_joinOptions (fold (\<lambda>(m, e). disconnect_with S ok (f e)) es c) = ca_joinOptions c \<and>
   ca_GetCred (fold (\<lambda>(m, e). disconnect_with S ok (f e)) es c) = ca_GetCred c"
proof (induction es arbitrary: c)
  case (Cons me es)
  obtain m e where me: "me = (m, e)" by fastforce
  show ?case
    using Cons.IH[of "disconnect_with S ok (f e) c"] disconnect_with_rel[of c S ok "f e"] same_client_trans conns_kept_trans
    by (auto simp: me frame)
qed simp

lemma connect_call_rel:
  assumes "connect_call S env c = (r, c')"
  shows "same_client c c' \<and> conns_kept c c' \<and> ca_SessionID c' = ca_SessionID c \<and> ca_unifiedSessionId c' = ca_unifiedSessionId c \<and>
    ca_joinOptions c' = ca_joinOptions c \<and> ca_GetCred c' = ca_GetCred c"
proof (cases "pe_client (ca_peer c)")
  case None
  with assms show ?thesis by (auto simp: connect_call_def)
next
  case (Some i)
  obtain x cl' where x: "Connect (jv_dialled env) (jv_written env) (jv_deadlineSet env) (jv_deadlineCleared env) (jv_response env) (ca_clients c ! i) = (x, cl')"
    by fastforce
  define c1 where "c1 = c\<lparr>ca_clients := (ca_clients c)[i := cl']\<rparr>"
  have d: "sc_detached cl' = sc_detached (ca_clients c ! i)" using Connect_detached x by (metis snd_conv)
  have s: "same_client c c1" using Some d by (auto simp: same_client_def c1_def nth_update_if)
  have k: "conns_kept c c1" by (simp add: conns_kept_def c1_def current_def)
  define es where "es = filter (\<lambda>(m, e). m = ''OnError'') (drop (length (sc_calls (ca_clients c ! i))) (sc_calls cl'))"
  have c': "c' = fold (\<lambda>(m, e). disconnect_with S (jv_closeFrame env) (jv_strategy env (snd e))) es c1"
    using assms Some x by (simp add: connect_call_def c1_def Let_def es_def)
  with fold_disconnect_rel[of c1 S "jv_closeFrame env" "\<lambda>e. jv_strategy env (snd e)" es] s k same_client_trans conns_kept_trans
  show ?thesis by (auto simp: c1_def)
qed

lemma initPubAndSub_rel:
  assumes "initPubAndSub S env options c = (e, c')" "current c \<subseteq> {..<length (ca_conns c)}"
    "rd_Strategy (jo_reconnectDetails options) = MIGRATE S \<longrightarrow> current c = {}" "jv_newSubscriber env \<noteq> None \<or> jv_newPublisher env = None"
  shows "same_client c c' \<and> conns_kept c c' \<and> current c' \<subseteq> {..<length (ca_conns c')} \<and> ca_SessionID c' = ca_SessionID c \<and>
    ca_unifiedSessionId c' = ca_unifiedSessionId c \<and> ca_joinOptions c' = ca_joinOptions c \<and> ca_GetCred c' = ca_GetCred c"
proof (cases "rd_Strategy (jo_reconnectDetails options) = FAST S")
  case True
  with assms show ?thesis by (simp add: initPubAndSub_def)
next
  case False
  define c1 where "c1 = (if rd_Strategy (jo_reconnectDetails options) \<noteq> MIGRATE S then releaseOldPubSub c else c)"
  have f1: "ca_clients c1 = ca_clients c" "ca_peer c1 = ca_peer c" "length (ca_conns c1) = length (ca_conns c)" "ca_SessionID c1 = ca_SessionID c"
      "ca_unifiedSessionId c1 = ca_unifiedSessionId c" "ca_joinOptions c1 = ca_joinOptions c" "ca_GetCred c1 = ca_GetCred c"
    by (simp_all add: c1_def releaseOldPubSub_def Let_def frame)
  have closed: "pc_closed (ca_conns c1 ! k) \<longleftrightarrow> k \<in> current c \<or> pc_closed (ca_conns c ! k)" if "k < length (ca_conns c)" for k
    using that assms(3) by (auto simp: c1_def releaseOldPubSub_def Let_def frame closing current_def)
  have "e \<noteq> None \<and> c' = c1\<lparr>ca_subs := new_session (ca_subs c1)\<rparr> \<or>
      ca_conns c' = ca_conns c1 @ [\<lparr>pc_bound = True, pc_closed = False\<rparr>, \<lparr>pc_bound = True, pc_closed = False\<rparr>] \<and>
      ca_peer c' = \<lparr>pe_client = pe_client (ca_peer c), pe_subscriber = Some (length (ca_conns c)), pe_publisher = Some (Suc (length (ca_conns c)))\<rparr> \<and>
      ca_clients c' = ca_clients c \<and> ca_SessionID c' = ca_SessionID c \<and> ca_unifiedSessionId c' = ca_unifiedSessionId c \<and>
      ca_joinOptions c' = ca_joinOptions c \<and> ca_GetCred c' = ca_GetCred c"
    using assms(1,4) False f1 by (auto simp: initPubAndSub_def Let_def c1_def[symmetric] split: option.splits)
  then show ?thesis
  proof (elim disjE conjE)
    assume "c' = c1\<lparr>ca_subs := new_session (ca_subs c1)\<rparr>"
    then show ?thesis using assms(2) closed f1 by (auto simp: same_client_def conns_kept_def current_def)
  qed (use assms(2) closed f1 in \<open>auto simp: same_client_def conns_kept_def current_def nth_append less_Suc_eq\<close>)
qed

section \<open>Joining again\<close>

lemma apply_reconnect_details:
  "jo_reconnectDetails (apply_join_options S (opts @ [withReconnectDetails d])) = d"
  "jo_sessionID (apply_join_options S (opts @ [withReconnectDetails d])) = jo_sessionID (apply_join_options S opts)"
  "jo_sessionID (apply_join_options S (opts @ [WithSessionID u])) = u"
  by (simp_all add: apply_join_options_def withReconnectDetails_def WithSessionID_def)

definition no_leak :: "join_env \<Rightarrow> bool" where
  "no_leak env \<longleftrightarrow> jv_newSubscriber env \<noteq> None \<or> jv_newPublisher env = None"

lemma conns_kept_cong:
  "ca_conns c1 = ca_conns c \<Longrightarrow> ca_peer c1 = ca_peer c \<Longrightarrow> conns_kept c1 d = conns_kept c d"
  "ca_conns d1 = ca_conns d \<Longrightarrow> ca_peer d1 = ca_peer d \<Longrightarrow> conns_kept c d1 = conns_kept c d"
  by (simp_all add: conns_kept_def current_def)

lemma same_client_cong:
  "ca_clients c1 = ca_clients c \<Longrightarrow> ca_peer c1 = ca_peer c \<Longrightarrow> same_client c1 d = same_client c d"
  "ca_clients d1 = ca_clients d \<Longrightarrow> ca_peer d1 = ca_peer d \<Longrightarrow> same_client c d1 = same_client c d"
  by (simp_all add: same_client_def)

text \<open>A join with a strategy, which is every join but the first: whatever it answers, it keeps the client and tidies the peer
  connections.\<close>

definition rejoined :: "strategy_enum \<Rightarrow> join_env \<Rightarrow> JoinOption list \<Rightarrow> call \<Rightarrow> call \<Rightarrow> bool" where
  "rejoined S env opts c c' \<longleftrightarrow> same_client c c' \<and> conns_kept c c' \<and> current c' \<subseteq> {..<length (ca_conns c')} \<and>
     ca_SessionID c' = ca_SessionID (prepare_join env (apply_join_options S opts) opts c) \<and>
     (ca_unifiedSessionId c \<noteq> None \<longrightarrow> ca_unifiedSessionId c' = ca_unifiedSessionId c) \<and>
     (ca_joinOptions c \<noteq> None \<longrightarrow> ca_joinOptions c' = ca_joinOptions c) \<and> ca_GetCred c'"

lemma rejoined_cong:
  "ca_clients d1 = ca_clients d \<Longrightarrow> ca_conns d1 = ca_conns d \<Longrightarrow> ca_peer d1 = ca_peer d \<Longrightarrow> ca_SessionID d1 = ca_SessionID d \<Longrightarrow>
   ca_unifiedSessionId d1 = ca_unifiedSessionId d \<Longrightarrow> ca_joinOptions d1 = ca_joinOptions d \<Longrightarrow> ca_GetCred d1 = ca_GetCred d \<Longrightarrow>
   rejoined S env opts c d1 = rejoined S env opts c d"
  using same_client_cong(2)[of d1 d c] conns_kept_cong(2)[of d1 d c] by (simp add: rejoined_def current_def)

lemma conns_kept_current:
  assumes "conns_kept c c'" "current c \<subseteq> {..<length (ca_conns c)}"
  shows "current c' \<subseteq> {..<length (ca_conns c')}"
proof
  fix k
  assume "k \<in> current c'"
  with assms(1) have "k \<in> current c \<or> k < length (ca_conns c')" "length (ca_conns c) \<le> length (ca_conns c')"
    by (auto simp: conns_kept_def)
  with assms(2) show "k \<in> {..<length (ca_conns c')}" by auto
qed

lemma rejoined_step:
  assumes "rejoined S env opts c d" "same_client d d'" "conns_kept d d'" "ca_SessionID d' = ca_SessionID d"
    "ca_unifiedSessionId d' = ca_unifiedSessionId d" "ca_joinOptions d' = ca_joinOptions d" "ca_GetCred d' = ca_GetCred d"
  shows "rejoined S env opts c d'"
  using assms same_client_trans[of c d d'] conns_kept_trans[of c d d'] conns_kept_current[of d d'] by (simp add: rejoined_def)

lemma rejoined_prepare:
  assumes "ca_GetCred c" "current c \<subseteq> {..<length (ca_conns c)}"
  shows "rejoined S env opts c (prepare_join env (apply_join_options S opts) opts c)"
    "rejoined S env opts c (unifiedSessionID env (prepare_join env (apply_join_options S opts) opts c))"
  using assms by (auto simp: rejoined_def prepare_join_def unifiedSessionID_def current_def same_client_def conns_kept_def)

lemma applyJoinResponse_frame [frame]:
  "ca_clients (applyJoinResponse env r c) = ca_clients c" "ca_conns (applyJoinResponse env r c) = ca_conns c"
  "ca_peer (applyJoinResponse env r c) = ca_peer c" "ca_SessionID (applyJoinResponse env r c) = ca_SessionID c"
  "ca_unifiedSessionId (applyJoinResponse env r c) = ca_unifiedSessionId c" "ca_joinOptions (applyJoinResponse env r c) = ca_joinOptions c"
  "ca_GetCred (applyJoinResponse env r c) = ca_GetCred c"
  by (simp_all add: applyJoinResponse_def Let_def)

lemma finish_join_rejoined:
  assumes "rejoined S env opts c d" "finish_join S env s resp d = (r, c')"
  shows "rejoined S env opts c c'"
  using assms(2)
  by (intro rejoined_cong[THEN iffD2, OF _ _ _ _ _ _ _ assms(1)]) (auto simp: finish_join_def Let_def frame split: option.splits if_splits)

lemma Join_with_rejoined:
  assumes j: "Join_with S retry env opts c = (r, c')" and g: "ca_GetCred c"
    and u: "rd_Strategy (jo_reconnectDetails (apply_join_options S opts)) \<noteq> UNSPECIFIED S"
    and m: "rd_Strategy (jo_reconnectDetails (apply_join_options S opts)) = MIGRATE S \<longrightarrow> current c = {}"
    and ok: "current c \<subseteq> {..<length (ca_conns c)}" "no_leak env"
  shows "rejoined S env opts c c'"
proof -
  define options where "options = apply_join_options S opts"
  define c1 where "c1 = prepare_join env options opts c"
  define c2 where "c2 = unifiedSessionID env c1"
  obtain e c3 where i: "initPubAndSub S env options c2 = (e, c3)" by fastforce
  obtain x c4 where x: "connect_call S env c3 = (x, c4)" by fastforce
  have r1: "rejoined S env opts c c1" "rejoined S env opts c c2"
    using rejoined_prepare[OF g ok(1)] by (simp_all add: c1_def c2_def options_def)
  have "current c2 = current c" "ca_conns c2 = ca_conns c" by (simp_all add: current_def c1_def c2_def prepare_join_def unifiedSessionID_def)
  with initPubAndSub_rel[OF i] ok m have r3: "rejoined S env opts c c3"
    using rejoined_step[OF r1(2), of c3] by (simp add: no_leak_def options_def)
  have r4: "rejoined S env opts c c4" using rejoined_step[OF r3, of c4] connect_call_rel[OF x] by simp
  obtain s where s: "s = rd_Strategy (jo_reconnectDetails options)" "s \<noteq> UNSPECIFIED S" using u by (simp add: options_def)
  have "Join_with S retry env opts c =
      (case (if jo_codecsFromMediaEngine options then jv_sdp env else None) of
         Some err \<Rightarrow> (Inl err, c1)
       | None \<Rightarrow> (case e of Some err \<Rightarrow> (Inl err, c3) | None \<Rightarrow> (case x of Inl err \<Rightarrow> (Inl err, c4) | Inr resp \<Rightarrow> finish_join S env s resp c4)))"
    unfolding Join_with_def Let_def options_def[symmetric]
    using g i x s by (simp add: joinCoordinator_def c1_def[symmetric] c2_def[symmetric] connect_or_retry_def split: option.split sum.split)
  then have "c' = c1 \<or> c' = c3 \<or> c' = c4 \<or> (\<exists>resp. (r, c') = finish_join S env s resp c4)"
    using j by (auto split: option.splits sum.splits if_splits)
  with r1 r3 r4 finish_join_rejoined[OF r4] show ?thesis by metis
qed

section \<open>Reconnecting\<close>

definition call_ok :: "call \<Rightarrow> bool" where
  "call_ok c \<longleftrightarrow> ca_GetCred c \<and> current c \<subseteq> {..<length (ca_conns c)} \<and>
     (case pe_client (ca_peer c) of None \<Rightarrow> False | Some i \<Rightarrow> i < length (ca_clients c) \<and> store_wf (sc_store (ca_clients c ! i)) \<and>
        (case sc_conn (ca_clients c ! i) of None \<Rightarrow> True | Some k \<Rightarrow> k < length (sc_conns (ca_clients c ! i))))"

text \<open>No peer connection is open that the call does not use.\<close>

definition tidy :: "call \<Rightarrow> bool" where
  "tidy c \<longleftrightarrow> (\<forall>k < length (ca_conns c). pc_closed (ca_conns c ! k) \<or> k \<in> current c)"

lemma restore_tracks_frame:
  "restore_tracks oks rpc c = (e, c') \<Longrightarrow> ca_clients c' = ca_clients c \<and> ca_conns c' = ca_conns c \<and> ca_peer c' = ca_peer c \<and>
     ca_SessionID c' = ca_SessionID c \<and> ca_unifiedSessionId c' = ca_unifiedSessionId c \<and> ca_joinOptions c' = ca_joinOptions c \<and> ca_GetCred c' = ca_GetCred c"
  by (auto simp: restore_tracks_def split: prod.splits)

text \<open>A join with the options of a reconnect.\<close>

lemma reconnect_join:
  assumes "getReconnectOptions S uuid s edge c = (opts, c1)" "Join S renv env opts c1 = (r, c2)" "ca_GetCred c"
    "s \<noteq> UNSPECIFIED S" "s = MIGRATE S \<longrightarrow> current c = {}" "current c \<subseteq> {..<length (ca_conns c)}" "no_leak env"
  shows "rejoined S env opts c c2"
proof -
  obtain os d where o: "opts = os @ [withReconnectDetails d]" "rd_Strategy d = s" "c1 = c\<lparr>ca_reconnectAttempt := ca_reconnectAttempt c + 1\<rparr>"
    using assms(1) by (force simp: getReconnectOptions_def Let_def)
  have "rejoined S env opts c1 c2"
    using assms(2-) o by (intro Join_with_rejoined) (simp_all add: Join_def apply_reconnect_details current_def)
  moreover have "same_client c1 c2 = same_client c c2" "conns_kept c1 c2 = conns_kept c c2"
    using o(3) by (auto intro!: same_client_cong(1) conns_kept_cong(1))
  ultimately show ?thesis using o(3) by (simp add: rejoined_def prepare_join_def)
qed

lemma tidy_kept:
  assumes "conns_kept c c'" "tidy c"
  shows "tidy c'"
  unfolding tidy_def
proof (intro allI impI)
  fix k
  assume k: "k < length (ca_conns c')"
  show "pc_closed (ca_conns c' ! k) \<or> k \<in> current c'"
  proof (cases "k < length (ca_conns c) \<and> k \<notin> current c")
    case True
    with assms(2) have "pc_closed (ca_conns c ! k)" unfolding tidy_def by blast
    with True assms(1) show ?thesis by (simp add: conns_kept_def)
  next
    case False
    then have "length (ca_conns c) \<le> k \<or> k \<in> current c" by auto
    with assms(1) k show ?thesis unfolding conns_kept_def by blast
  qed
qed

section \<open>Migrating\<close>

lemma begin_migration_state:
  assumes "call_ok c" "pe_client (ca_peer c) = Some i" "begin_migration cred c = (mc, c')"
  shows "\<exists>a. mc = Some (i, a) \<and> ca_peer c' = \<lparr>pe_client = Some (length (ca_clients c)), pe_subscriber = None, pe_publisher = None\<rparr> \<and>
    length (ca_clients c') = Suc (length (ca_clients c)) \<and> length (ca_conns c') = length (ca_conns c) \<and> ca_GetCred c' \<and>
    (\<forall>k < length (ca_conns c). pc_closed (ca_conns c' ! k) = pc_closed (ca_conns c ! k)) \<and>
    ca_clients c' ! length (ca_clients c) = new_client \<and> sc_detached (ca_clients c' ! i) \<and>
    sc_conn (ca_clients c' ! i) = sc_conn (ca_clients c ! i) \<and> sc_conns (ca_clients c' ! i) = sc_conns (ca_clients c ! i) \<and>
    store_wf (sc_store (ca_clients c' ! i)) \<and> waiting a (\<lambda>e. fst e = K_ParticipantMigrationComplete) (sc_store (ca_clients c' ! i))"
proof -
  have i: "i < length (ca_clients c)" "store_wf (sc_store (ca_clients c ! i))" "ca_GetCred c" using assms(1,2) by (simp_all add: call_ok_def)
  obtain a st where n: "NewEventAwaiter (\<lambda>e :: sfu_event. fst e = K_ParticipantMigrationComplete) (sc_store (ca_clients c ! i)) = (a, st)" by fastforce
  have "store_step (OpAwaiter (\<lambda>e :: sfu_event. fst e = K_ParticipantMigrationComplete)) (sc_store (ca_clients c ! i)) = Some st"
    using n by (simp add: store_step_def)
  with store_step_wf[OF i(2)] have "store_wf st" by (metis option.inject)
  moreover have "waiting a (\<lambda>e. fst e = K_ParticipantMigrationComplete) st"
    using n by (auto simp: waiting_def NewEventAwaiter_def AddAwaiter_def Let_def nth_append)
  ultimately show ?thesis
    using assms(2,3) n i
    by (auto simp: begin_migration_def awaitMigrationCompleteOn_def detach_peer_def Let_def frame closing on_client_nth nth_append Detach_def)
qed

lemma waiting_events:
  "store_wf (sc_store cl) \<Longrightarrow> waiting a p (sc_store cl) \<Longrightarrow> \<forall>e \<in> set es. \<not> p e \<Longrightarrow>
     store_wf (sc_store (fold client_handle es cl)) \<and> waiting a p (sc_store (fold client_handle es cl))"
proof (induction es arbitrary: cl)
  case (Cons e es)
  note h = handle_store[OF Cons.prems(1), of e]
  with waiting_step[OF Cons.prems(1,2), of "OpIntercept e"] Cons.prems(3) have "waiting a p (sc_store (client_handle e cl))" by simp
  with Cons.IH[of "client_handle e cl"] h Cons.prems(3) show ?case by simp
qed simp

lemma waiting_receives_nothing: "store_wf s \<Longrightarrow> waiting a p s \<Longrightarrow> await_receive a s = None"
  by (auto simp: waiting_def store_wf_def await_receive_def)

lemma fold_client_handle_fields:
  "sc_conn (fold client_handle es cl) = sc_conn cl \<and> sc_conns (fold client_handle es cl) = sc_conns cl \<and>
   sc_detached (fold client_handle es cl) = sc_detached cl"
  by (induction es arbitrary: cl) (simp_all add: client_handle_detached)

lemma migrateToNewSFU_outcome:
  assumes "migrateToNewSFU S env oks rpc arrived edge (Some (i, a)) c = (err, c')" "proto_numbers S" "ca_GetCred c" "current c = {}"
    "no_leak (rv_join env)" "pe_client (ca_peer c) = Some n" "i \<noteq> n" "i < length (ca_clients c)" "store_wf (sc_store (ca_clients c ! i))"
    "waiting a (\<lambda>e. fst e = K_ParticipantMigrationComplete) (sc_store (ca_clients c ! i))"
  shows "pe_client (ca_peer c') = Some n \<and> length (ca_clients c') = length (ca_clients c) \<and> conns_kept c c' \<and> ca_GetCred c' \<and>
    (\<forall>j < length (ca_clients c). sc_detached (ca_clients c' ! j) = sc_detached (ca_clients c ! j)) \<and>
    sc_conn (ca_clients c' ! i) = sc_conn (ca_clients c ! i) \<and> sc_conns (ca_clients c' ! i) = sc_conns (ca_clients c ! i) \<and>
    (\<not> err \<longrightarrow> K_ParticipantMigrationComplete \<in> fst ` set (readable (ca_clients c ! i) arrived))"
proof -
  obtain opts c1 where g: "getReconnectOptions S (rv_uuid env) (MIGRATE S) edge c = (opts, c1)" by fastforce
  obtain r c2 where j: "Join S (\<lambda>_. env) (rv_join env) opts c1 = (r, c2)" by fastforce
  obtain e3 c3 where t: "restore_tracks oks rpc c2 = (e3, c3)" by fastforce
  have "rejoined S (rv_join env) opts c c2"
    using reconnect_join[OF g j] assms(2-5) by (simp add: proto_numbers_def)
  then have s2: "same_client c c2" "conns_kept c c2" "ca_GetCred c2" by (simp_all add: rejoined_def)
  have s3: "same_client c c3" "conns_kept c c3" "ca_GetCred c3"
    using s2 restore_tracks_frame[OF t] same_client_cong(2)[of c3 c2 c] conns_kept_cong(2)[of c3 c2 c] by simp_all
  have i: "ca_clients c2 ! i = ca_clients c ! i" "ca_clients c3 ! i = ca_clients c ! i"
    using s2 s3 assms(6,7) by (auto simp: same_client_def)
  define es where "es = readable (ca_clients c ! i) arrived"
  define cl where "cl = fold client_handle es (ca_clients c ! i)"
  have cl: "sc_conn cl = sc_conn (ca_clients c ! i)" "sc_conns cl = sc_conns (ca_clients c ! i)" "sc_detached cl = sc_detached (ca_clients c ! i)"
    using fold_client_handle_fields[of es "ca_clients c ! i"] by (simp_all add: cl_def)
  define cl' where "cl' = cl\<lparr>sc_store := await_timeout a (sc_store cl)\<rparr>"
  have timeout: "await_receive a (sc_store cl) = None" if "K_ParticipantMigrationComplete \<notin> fst ` set es"
  proof -
    have "\<forall>e \<in> set es. \<not> fst e = K_ParticipantMigrationComplete" using that by force
    with waiting_events[OF assms(9,10)] show ?thesis by (auto simp: cl_def intro: waiting_receives_nothing)
  qed
  have len: "length (ca_clients c3) = length (ca_clients c)" using s3(1) by (simp add: same_client_def)
  have "err \<and> (c' = c2 \<or> c' = c3) \<or> err \<and> c' = c3\<lparr>ca_clients := (ca_clients c3)[i := cl']\<rparr> \<or>
      \<not> err \<and> c' = c3\<lparr>ca_clients := (ca_clients c3)[i := cl]\<rparr> \<and> K_ParticipantMigrationComplete \<in> fst ` set es"
    using assms(1,8) g j t len timeout i
    by (cases r; cases e3; cases "await_receive a (sc_store cl)")
       (auto simp: migrateToNewSFU_def Let_def on_client_def cl_def[symmetric] es_def[symmetric] cl'_def)
  then have "err \<and> (c' = c2 \<or> c' = c3) \<or> (\<exists>x. x \<in> {cl, cl'} \<and> c' = c3\<lparr>ca_clients := (ca_clients c3)[i := x]\<rparr> \<and>
      (\<not> err \<longrightarrow> K_ParticipantMigrationComplete \<in> fst ` set es))" by auto
  then show ?thesis
  proof (elim disjE conjE exE)
    fix x
    assume x: "x \<in> {cl, cl'}" "c' = c3\<lparr>ca_clients := (ca_clients c3)[i := x]\<rparr>" "\<not> err \<longrightarrow> K_ParticipantMigrationComplete \<in> fst ` set es"
    have "conns_kept c c'" using s3(2) x(2) conns_kept_cong(2)[of c' c3 c] by simp
    with x cl s3 len assms(6-8) show ?thesis by (auto simp: same_client_def nth_list_update cl'_def es_def)
  qed (use s2 s3 i assms(6) in \<open>auto simp: same_client_def\<close>)
qed

definition conns_of :: "peer \<Rightarrow> nat set" where
  "conns_of p = set_option (pe_subscriber p) \<union> set_option (pe_publisher p)"

lemma current_conns_of: "current c = conns_of (ca_peer c)" by (simp add: current_def conns_of_def)

lemma release_frame [frame]:
  "ca_peer (release p c) = ca_peer c" "ca_GetCred (release p c) = ca_GetCred c" "length (ca_conns (release p c)) = length (ca_conns c)"
  "length (ca_clients (release p c)) = length (ca_clients c)"
  by (simp_all add: release_def Close_peer_def detach_peer_def frame)

lemma release_closed: "k < length (ca_conns c) \<Longrightarrow> pc_closed (ca_conns (release p c) ! k) \<longleftrightarrow> k \<in> conns_of p \<or> pc_closed (ca_conns c ! k)"
  by (auto simp: release_def Close_peer_def detach_peer_def frame closing conns_of_def)

lemma release_client: "ca_clients (release p c) ! j =
    (if pe_client p = Some j \<and> j < length (ca_clients c) then Close_client (Detach (ca_clients c ! j)) else ca_clients c ! j)"
  by (auto simp: release_def Close_peer_def detach_peer_def frame on_client_nth)

lemma Close_client_fields [simp]:
  "sc_detached (Close_client cl) = sc_detached cl" "sc_conn (Close_client cl) = sc_conn cl"
  by (simp_all add: Close_client_def conn_Close_def split: option.split)

lemma Detach_fields [simp]: "sc_detached (Detach cl)" "sc_conn (Detach cl) = sc_conn cl" "sc_conns (Detach cl) = sc_conns cl"
  by (simp_all add: Detach_def)

definition websocket_closed :: "client \<Rightarrow> bool" where
  "websocket_closed cl \<longleftrightarrow> (case sc_conn cl of None \<Rightarrow> True | Some k \<Rightarrow> cn_closed (sc_conns cl ! k))"

lemma websocket_closed_Close:
  "(case sc_conn cl of None \<Rightarrow> True | Some k \<Rightarrow> k < length (sc_conns cl)) \<Longrightarrow> websocket_closed (Close_client cl)"
  by (auto simp: websocket_closed_def Close_client_def conn_Close_def split: option.splits)

text \<open>Everything a migration has done before it releases what it no longer needs.\<close>

lemma migration_middle:
  assumes "proto_numbers S" "call_ok c" "pe_client (ca_peer c) = Some i" "no_leak (rv_join env)"
    "begin_migration cred c = (mc, c0)" "migrateToNewSFU S env oks rpc arrived edge mc c0 = (err, c1)"
  shows "pe_client (ca_peer c1) = Some (length (ca_clients c)) \<and> length (ca_clients c1) = Suc (length (ca_clients c)) \<and> ca_GetCred c1 \<and>
    length (ca_conns c) \<le> length (ca_conns c1) \<and> current c1 \<subseteq> {length (ca_conns c)..<length (ca_conns c1)} \<and>
    (\<forall>k < length (ca_conns c). pc_closed (ca_conns c1 ! k) = pc_closed (ca_conns c ! k)) \<and>
    (\<forall>k < length (ca_conns c1). length (ca_conns c) \<le> k \<longrightarrow> pc_closed (ca_conns c1 ! k) \<or> k \<in> current c1) \<and>
    \<not> sc_detached (ca_clients c1 ! length (ca_clients c)) \<and> sc_detached (ca_clients c1 ! i) \<and> sc_conn (ca_clients c1 ! i) = sc_conn (ca_clients c ! i) \<and>
    sc_conns (ca_clients c1 ! i) = sc_conns (ca_clients c ! i) \<and>
    (\<not> err \<longrightarrow> K_ParticipantMigrationComplete \<in> fst ` set (readable (ca_clients c ! i) arrived))"
proof -
  have i: "i < length (ca_clients c)" using assms(2,3) by (simp add: call_ok_def)
  from begin_migration_state[OF assms(2,3,5)] obtain a where b: "mc = Some (i, a)"
    "ca_peer c0 = \<lparr>pe_client = Some (length (ca_clients c)), pe_subscriber = None, pe_publisher = None\<rparr>"
    "length (ca_clients c0) = Suc (length (ca_clients c))" "length (ca_conns c0) = length (ca_conns c)" "ca_GetCred c0"
    "\<forall>k < length (ca_conns c). pc_closed (ca_conns c0 ! k) = pc_closed (ca_conns c ! k)"
    "ca_clients c0 ! length (ca_clients c) = new_client" "sc_detached (ca_clients c0 ! i)"
    "sc_conn (ca_clients c0 ! i) = sc_conn (ca_clients c ! i)" "sc_conns (ca_clients c0 ! i) = sc_conns (ca_clients c ! i)"
    "store_wf (sc_store (ca_clients c0 ! i))" "waiting a (\<lambda>e. fst e = K_ParticipantMigrationComplete) (sc_store (ca_clients c0 ! i))"
    by blast
  have cur: "current c0 = {}" using b(2) by (simp add: current_def)
  have "readable (ca_clients c0 ! i) arrived = readable (ca_clients c ! i) arrived" using b(9,10) by (simp add: readable_def split: option.split)
  with migrateToNewSFU_outcome[OF assms(6)[unfolded b(1)] assms(1) b(5) cur assms(4), of "length (ca_clients c)"] b i cur
  show ?thesis by (auto simp: conns_kept_def new_client_def)
qed


definition sample_error :: join_error where
  "sample_error = \<lparr>je_deadline = False, je_canceled = False, je_net = True, je_wsStatus = None, je_coordinator = None, je_signal = False\<rparr>"

definition sample_cred :: "string \<Rightarrow> Credentials" where
  "sample_cred edge = \<lparr>cr_EdgeName = edge, cr_URL = [], cr_WsEndpoint = [], cr_Token = []\<rparr>"

text \<open>An environment in which everything succeeds.\<close>

definition good_join :: join_env where
  "good_join = \<lparr>jv_coordinator = Inl sample_error, jv_uuid = ''u'', jv_unified = ''v'', jv_sdp = None, jv_newSubscriber = None, jv_newPublisher = None,
     jv_dialled = True, jv_written = True, jv_deadlineSet = True, jv_deadlineCleared = True, jv_response = Some (K_JoinResponse, 1), jv_closeFrame = True,
     jv_strategy = (\<lambda>_. 0), jv_deadline = (\<lambda>_. 0), jv_options = (\<lambda>_. []), jv_error = (\<lambda>_. sample_error), jv_publisherRestart = None,
     jv_subscriberRestart = None\<rparr>"

definition good_env :: retry_env where
  "good_env = \<lparr>rv_cancelled = False, rv_cred = Inr (sample_cred ''B''), rv_uuid = ''s2'', rv_join = good_join\<rparr>"

text \<open>A call that joined edge A.\<close>

definition joined_call :: call where
  "joined_call = (newCall published_enum)
     \<lparr>ca_clients := [new_client\<lparr>sc_conns := [\<lparr>cn_closed = False\<rparr>], sc_conn := Some 0\<rparr>],
      ca_conns := [\<lparr>pc_bound = True, pc_closed = False\<rparr>, \<lparr>pc_bound = True, pc_closed = False\<rparr>],
      ca_peer := \<lparr>pe_client = Some 0, pe_subscriber = Some 0, pe_publisher = Some 1\<rparr>, ca_joinOptions := Some [WithSessionID ''mine''], ca_GetCred := True,
      ca_SessionID := ''s1'', ca_unifiedSessionId := Some ''v'', ca_published := \<lparr>pt_publishedTracks = [], pt_peer = Some [], pt_negotiations = 0\<rparr>\<rparr>"

lemma joined_call_ok: "call_ok joined_call" "tidy joined_call" "pe_client (ca_peer joined_call) = Some 0"
  by (auto simp: call_ok_def tidy_def joined_call_def current_def new_client_def store_wf_def NewStore_def less_Suc_eq)


section \<open>After a failed migration\<close>

lemma detached_handles_nothing: "sc_detached cl \<Longrightarrow> sc_calls (fold client_handle es cl) = sc_calls cl"
proof (induction es arbitrary: cl)
  case (Cons e es)
  have "sc_calls (client_handle e cl) = sc_calls cl" using Cons.prems by (simp add: client_handle_def Let_def split: option.split)
  with Cons.IH[of "client_handle e cl"] Cons.prems show ?case by (simp add: client_handle_detached)
qed simp

lemma rejoin_same_client:
  assumes "rejoinReconnect S env oks rpc c = (err, c')" "proto_numbers S" "ca_GetCred c" "current c \<subseteq> {..<length (ca_conns c)}" "no_leak (rv_join env)"
  shows "same_client c c'"
proof (cases "rv_cred env")
  case (Inl e)
  with assms(1) show ?thesis by (simp add: rejoinReconnect_def)
next
  case (Inr cred)
  obtain opts c1 where g: "getReconnectOptions S (rv_uuid env) (REJOIN S) (edge_name c) (SetCredentials cred c) = (opts, c1)" by fastforce
  obtain r c2 where j: "Join S (\<lambda>_. env) (rv_join env) opts c1 = (r, c2)" by fastforce
  have "rejoined S (rv_join env) opts (SetCredentials cred c) c2"
    using reconnect_join[OF g j] assms(2-) by (simp add: proto_numbers_def current_def frame)
  then have "same_client c c2" using same_client_cong(1)[of "SetCredentials cred c" c c2] by (simp add: rejoined_def frame)
  moreover have "c' = c2 \<or> restore_tracks oks rpc c2 = (err, c')"
    using assms(1) Inr g j by (cases r) (auto simp: rejoinReconnect_def Let_def)
  ultimately show ?thesis using restore_tracks_frame[of oks rpc c2 err c'] same_client_cong(2)[of c' c2 c] by auto
qed

lemma disconnect_with_call_ok: "call_ok c \<Longrightarrow> call_ok (disconnect_with S ok s c)"
  by (auto simp: call_ok_def frame disconnect_with_def Let_def on_client_nth current_def Disconnect_def conn_Disconnect_def conn_Close_def
      split: option.splits if_splits)

text \<open>C6: a call told to migrate away ends up deaf. \<open>OnGoAway\<close> disconnects the websocket before the migration starts, so the old SFU
  cannot confirm, and whatever the new SFU and the network do the migration fails. The rejoin that follows reuses the
  client the failed migration detached: even when it succeeds, no event of the new session reaches the call.\<close>

theorem goaway_leaves_call_deaf:
  assumes "proto_numbers S" "call_ok c" "no_leak (rv_join env)" "no_leak (rv_join env')"
    and "migrate S env oks rpc arrived edge cred (disconnect_with S ok (MIGRATE S) c) = (err, c1)"
    and "rejoinReconnect S env' oks' rpc' c1 = (err', c2)"
  shows "err \<and> (\<exists>n. pe_client (ca_peer c2) = Some n \<and> sc_detached (ca_clients c2 ! n) \<and>
    (\<forall>es. sc_calls (fold client_handle es (ca_clients c2 ! n)) = sc_calls (ca_clients c2 ! n)))"
proof -
  define d where "d = disconnect_with S ok (MIGRATE S) c"
  obtain i where i: "pe_client (ca_peer c) = Some i" "i < length (ca_clients c)" using assms(2) by (auto simp: call_ok_def split: option.splits)
  have d: "call_ok d" "pe_client (ca_peer d) = Some i" "i < length (ca_clients d)"
    using disconnect_with_call_ok[OF assms(2)] i by (simp_all add: d_def frame)
  have "sc_conn (ca_clients d ! i) = None"
    using i assms(1) by (auto simp: d_def disconnect_with_def proto_numbers_def Let_def on_client_nth Disconnect_def conn_Disconnect_def split: option.split)
  then have silent: "readable (ca_clients d ! i) arrived = []" by (simp add: readable_def)
  obtain mc c0 where b: "begin_migration cred d = (mc, c0)" by fastforce
  obtain e x where m: "migrateToNewSFU S env oks rpc arrived edge mc c0 = (e, x)" by fastforce
  note mid = migration_middle[OF assms(1) d(1,2) assms(3) b m]
  with silent have "e" by auto
  then have c1: "err" "c1 = release (ca_peer d) (release (ca_peer x) x)" using assms(5) b m by (simp_all add: migrate_def d_def)
  have n: "pe_client (ca_peer c1) = Some (length (ca_clients d))" "length (ca_clients c1) = Suc (length (ca_clients d))"
      "sc_detached (ca_clients c1 ! length (ca_clients d))" "ca_GetCred c1" "current c1 \<subseteq> {..<length (ca_conns c1)}"
    using mid d(2,3) by (auto simp: c1(2) frame release_client current_def)
  from rejoin_same_client[OF assms(6,1) n(4,5) assms(4)] n c1(1) show ?thesis
    by (auto simp: same_client_def detached_handles_nothing)
qed

theorem goaway_leaves_call_deaf_witness:
  "(\<lambda>(err, c1). err \<and>
      (\<lambda>(err', c2). \<not> err' \<and> sc_calls (fold client_handle [(K_SubscriberOffer, 2), (K_ParticipantJoined, 3)] (ca_clients c2 ! 1)) = sc_calls (ca_clients c2 ! 1))
        (rejoinReconnect published_enum good_env [] RpcOk c1))
   (migrate published_enum good_env [] RpcOk [(K_ParticipantMigrationComplete, 1)] ''A'' (sample_cred ''B'')
      (disconnect_with published_enum True (MIGRATE published_enum) joined_call))"
proof -
  define M where "M = migrate published_enum good_env [] RpcOk [(K_ParticipantMigrationComplete, 1)] ''A'' (sample_cred ''B'')
      (disconnect_with published_enum True (MIGRATE published_enum) joined_call)"
  obtain err c1 where m: "M = (err, c1)" by fastforce
  obtain err' c2 where r: "rejoinReconnect published_enum good_env [] RpcOk c1 = (err', c2)" by fastforce
  have "(\<lambda>(e, c). \<not> e \<and> pe_client (ca_peer c) = Some 1) (rejoinReconnect published_enum good_env [] RpcOk (snd M))"
    unfolding M_def by code_simp
  then have e: "\<not> err'" "pe_client (ca_peer c2) = Some 1" by (simp_all add: m r)
  have "proto_numbers published_enum" "no_leak (rv_join good_env)"
    by (simp_all add: proto_numbers_def published_enum_def no_leak_def good_env_def good_join_def)
  with goaway_leaves_call_deaf[OF _ joined_call_ok(1) _ _ m[unfolded M_def] r] e
  have "err" and all: "sc_calls (fold client_handle es (ca_clients c2 ! 1)) = sc_calls (ca_clients c2 ! 1)" for es by auto
  with e all[of "[(K_SubscriberOffer, 2), (K_ParticipantJoined, 3)]"] show ?thesis unfolding M_def[symmetric] m by (simp add: r)
qed

section \<open>Session ids\<close>

text \<open>A rejoin takes a new session id, a fast reconnect is to keep the one the SFU knows, and the unified id never changes. The
  fast reconnect keeps it exactly if the application did not choose the id of the first join: the stored join options put that
  one back, although a rejoin has replaced it since.\<close>

theorem session_ids:
  assumes "proto_numbers S" "call_ok c" "ca_joinOptions c = Some opts" "ca_SessionID c \<noteq> []" "ca_unifiedSessionId c = Some u"
    and "no_leak (rv_join env)" "rv_cred env = Inr cred" "rv_uuid env \<noteq> []"
    and "rejoinReconnect S env oks rpc c = (err, c1)" "fastReconnect S env' c = (err', c2)" "no_leak (rv_join env')"
  shows "ca_SessionID c1 = rv_uuid env \<and> ca_unifiedSessionId c1 = Some u \<and> ca_unifiedSessionId c2 = Some u \<and>
    (ca_SessionID c2 = ca_SessionID c \<longleftrightarrow> jo_sessionID (apply_join_options S opts) \<in> {[], ca_SessionID c})"
proof -
  have ok: "ca_GetCred c" "current c \<subseteq> {..<length (ca_conns c)}" using assms(2) by (auto simp: call_ok_def)
  obtain os x1 where g1: "getReconnectOptions S (rv_uuid env) (REJOIN S) (edge_name c) (SetCredentials cred c) = (os, x1)" by fastforce
  obtain r1 y1 where j1: "Join S (\<lambda>_. env) (rv_join env) os x1 = (r1, y1)" by fastforce
  obtain os' x2 where g2: "getReconnectOptions S (rv_uuid env') (FAST S) (edge_name c) c = (os', x2)" by fastforce
  obtain r2 y2 where j2: "Join S (\<lambda>_. env') (rv_join env') os' x2 = (r2, y2)" by fastforce
  have "rejoined S (rv_join env) os (SetCredentials cred c) y1"
    using reconnect_join[OF g1 j1] assms(1,6) ok by (simp add: proto_numbers_def current_def frame)
  moreover have "jo_sessionID (apply_join_options S os) = rv_uuid env"
    using g1 by (auto simp: getReconnectOptions_def Let_def apply_reconnect_details simp flip: append_assoc)
  moreover have "c1 = y1 \<or> restore_tracks oks rpc y1 = (err, c1)" using assms(7,9) g1 j1 by (cases r1) (auto simp: rejoinReconnect_def Let_def)
  ultimately have 1: "ca_SessionID c1 = rv_uuid env" "ca_unifiedSessionId c1 = Some u"
    using restore_tracks_frame[of oks rpc y1 err c1] assms(5,8) by (auto simp: rejoined_def prepare_join_def frame)
  have "rejoined S (rv_join env') os' c y2"
    using reconnect_join[OF g2 j2] assms(1,11) ok by (simp add: proto_numbers_def)
  moreover have "jo_sessionID (apply_join_options S os') = jo_sessionID (apply_join_options S opts)"
    using g2 assms(1,3) by (auto simp: getReconnectOptions_def Let_def apply_reconnect_details proto_numbers_def)
  moreover have "c2 = y2" using assms(10) g2 j2 by (cases r2) (auto simp: fastReconnect_def Let_def)
  ultimately show ?thesis using 1 assms(4,5) by (auto simp: rejoined_def prepare_join_def)
qed

theorem session_ids_witness:
  "ca_SessionID (snd (rejoinReconnect published_enum good_env [] RpcOk joined_call)) = ''s2'' \<and>
   ca_SessionID (snd (fastReconnect published_enum good_env joined_call)) \<noteq> ca_SessionID joined_call"
proof -
  obtain e1 c1 where r: "rejoinReconnect published_enum good_env [] RpcOk joined_call = (e1, c1)" by fastforce
  obtain e2 c2 where f: "fastReconnect published_enum good_env joined_call = (e2, c2)" by fastforce
  have h: "proto_numbers published_enum" "ca_joinOptions joined_call = Some [WithSessionID ''mine'']" "ca_SessionID joined_call = ''s1''"
      "ca_unifiedSessionId joined_call = Some ''v''" "no_leak (rv_join good_env)" "rv_cred good_env = Inr (sample_cred ''B'')" "rv_uuid good_env = ''s2''"
    by (simp_all add: proto_numbers_def published_enum_def no_leak_def good_env_def good_join_def joined_call_def)
  have "jo_sessionID (apply_join_options published_enum [WithSessionID ''mine'']) = ''mine''" by (simp add: apply_join_options_def WithSessionID_def)
  with session_ids[OF h(1) joined_call_ok(1) h(2) _ h(4-6) _ r f h(5)] h show ?thesis by (simp add: r f)
qed

section \<open>Further facts\<close>

text \<open>The capabilities advertised are distinct, the pause is first, and the unspecified one is never sent.\<close>

lemma clientCapabilities_distinct:
  assumes "unspecified \<noteq> pause"
  shows "distinct (clientCapabilities unspecified pause o') \<and> hd (clientCapabilities unspecified pause o') = pause \<and>
    set (clientCapabilities unspecified pause o') = insert pause (set (jo_capabilities o') - {unspecified})"
proof -
  define f where "f = (\<lambda>cap (caps, seen). if cap = unspecified \<or> cap \<in> seen then (caps, seen) else (caps @ [cap], insert cap seen))"
  have "distinct (fst (fold f xs (caps, set caps))) \<and> hd (fst (fold f xs (caps, set caps))) = hd caps \<and>
      set (fst (fold f xs (caps, set caps))) = set caps \<union> (set xs - {unspecified})" if "distinct caps" "caps \<noteq> []" for xs caps
    using that
  proof (induction xs arbitrary: caps)
    case (Cons x xs)
    define caps' where "caps' = (if x = unspecified \<or> x \<in> set caps then caps else caps @ [x])"
    have "f x (caps, set caps) = (caps', set caps')" "distinct caps'" "caps' \<noteq> []" "hd caps' = hd caps" "set caps' = set caps \<union> ({x} - {unspecified})"
      using Cons.prems by (auto simp: f_def caps'_def)
    with Cons.IH[of caps'] show ?case by auto
  qed simp
  from this[of "[pause]" "jo_capabilities o'"] assms show ?thesis by (simp add: clientCapabilities_def f_def[symmetric] insert_Diff_if)
qed

text \<open>A join with the migration strategy on a peer that has peer connections, which is what the retries of a first join do once an
  error response asked for a migration, leaves them open and out of reach.\<close>

lemma migrate_join_leaks:
  assumes "rd_Strategy (jo_reconnectDetails options) = MIGRATE S" "MIGRATE S \<noteq> FAST S" "jv_newSubscriber env = None" "jv_newPublisher env = None"
    and "k \<in> current c" "k < length (ca_conns c)" "\<not> pc_closed (ca_conns c ! k)" "initPubAndSub S env options c = (e, c')"
  shows "\<not> pc_closed (ca_conns c' ! k) \<and> k \<notin> current c'"
  using assms by (auto simp: initPubAndSub_def Let_def nth_append current_def)

text \<open>Leaving: with a request that cannot be written nothing is disconnected, and the call goes on.\<close>

lemma Leave_outcome:
  assumes "Leave S written ok c = (r, c')" "proto_numbers S" "call_ok c"
  shows "r \<noteq> LeavePanic \<and> (r = LeaveError \<longrightarrow> c' = c) \<and>
    (r = LeaveOk \<longrightarrow> ca_next c' = DISCONNECT S \<and> (\<forall>k \<in> current c. pc_closed (ca_conns c' ! k)) \<and>
       (\<forall>i. pe_client (ca_peer c') = Some i \<longrightarrow> sc_conn (ca_clients c' ! i) = None))"
proof -
  obtain i where i: "pe_client (ca_peer c) = Some i" "i < length (ca_clients c)" using assms(3) by (auto simp: call_ok_def split: option.splits)
  have "current c \<subseteq> {..<length (ca_conns c)}" using assms(3) by (simp add: call_ok_def)
  then have "\<forall>k \<in> current c. pc_closed (ca_conns (disconnect_with S ok (DISCONNECT S) c) ! k)"
    using assms(2) by (auto simp: disconnect_with_closed proto_numbers_def)
  moreover have "ca_next (disconnect_with S ok (DISCONNECT S) c) = DISCONNECT S"
    using assms(2) by (auto simp: disconnect_with_def Let_def proto_numbers_def on_client_def Close_pc_def split: option.split)
  moreover have "sc_conn (ca_clients (disconnect_with S ok (DISCONNECT S) c) ! i) = None"
    using i assms(2) by (auto simp: disconnect_with_def Let_def proto_numbers_def on_client_nth frame Disconnect_def conn_Disconnect_def conn_Close_def split: option.split)
  ultimately show ?thesis using assms(1) i by (auto simp: Leave_def frame split: if_splits)
qed

end
