(* ===== verification/G711.thy ===== *)
theory G711
  imports AudioPcm
begin

text \<open>
  The telephony codecs of \<open>g711.go\<close>, package \<open>audio\<close>: mu-law and A-law companding between 16-bit samples
  and bytes, and the conversion of whole buffers. Samples and bytes are words, intermediate
  magnitudes integers as in the code. The 256-entry tables are lists built by the same functions
  that fill them at start-up.
\<close>

unbundle bit_operations_syntax

section \<open>The codecs\<close>

datatype G711 = MuLaw | ALaw | OtherLaw uint8

definition g711_string :: "(uint8 \<Rightarrow> string) \<Rightarrow> G711 \<Rightarrow> string" where
  "g711_string show_num g =
    (case g of MuLaw \<Rightarrow> ''mulaw'' | ALaw \<Rightarrow> ''alaw'' | OtherLaw n \<Rightarrow> ''G711('' @ show_num n @ '')'')"

definition G711SampleRate :: int where "G711SampleRate = 8000"

definition law_valid :: "G711 \<Rightarrow> bool" where
  "law_valid g \<longleftrightarrow> g = MuLaw \<or> g = ALaw"

text \<open>\<open>bits.Len8\<close>: the number of bits up to the highest set one.\<close>

definition Len8 :: "int \<Rightarrow> int" where
  "Len8 i = (if i = 0 then 0 else floor_log2 i + 1)"

definition g711Exponent :: "int list" where
  "g711Exponent = map (\<lambda>i. min 7 (Len8 i)) [0..255]"

text \<open>Both encoders reduce a sample to its clipped magnitude; \<open>-32768\<close> has no 16-bit negation.\<close>

definition clip_magnitude :: "int16 \<Rightarrow> int" where
  "clip_magnitude sample =
    (let m = (if sint sample < 0 then (if sint sample = - 32768 then 32767 else - sint sample) else sint sample)
     in if m > 32635 then 32635 else m)"

definition encodeMuLaw :: "int16 \<Rightarrow> byte" where
  "encodeMuLaw sample =
    (let bias = 0x84;
         sign = (if sint sample < 0 then 0x80 else 0 :: byte);
         magnitude = clip_magnitude sample + bias;
         exponent = g711Exponent ! nat (drop_bit 8 magnitude AND 0xFF);
         mantissa = drop_bit (nat (exponent + 3)) magnitude AND 0x0F
     in NOT (sign OR word_of_int (push_bit 4 exponent) OR word_of_int mantissa))"

definition encodeALaw :: "int16 \<Rightarrow> byte" where
  "encodeALaw sample =
    (let sign = (if sint sample < 0 then 0 else 0x80 :: byte);
         magnitude = clip_magnitude sample;
         encoded =
           (if magnitude \<ge> 256 then
              let exponent = g711Exponent ! nat (drop_bit 8 magnitude AND 0xFF);
                  mantissa = drop_bit (nat (exponent + 3)) magnitude AND 0x0F
              in word_of_int (push_bit 4 exponent) OR word_of_int mantissa
            else word_of_int (drop_bit 4 magnitude) :: byte)
     in (sign OR encoded) XOR 0x55)"

definition decodeMuLaw :: "byte \<Rightarrow> int16" where
  "decodeMuLaw b =
    (let bias = 0x84; b = NOT b; sign = b AND 0x80;
         exponent = uint (drop_bit 4 b AND 0x07); mantissa = uint (b AND 0x0F);
         magnitude = push_bit (nat exponent) (push_bit 3 mantissa + bias) - bias
     in if sign \<noteq> 0 then word_of_int (- magnitude) else word_of_int magnitude)"

definition decodeALaw :: "byte \<Rightarrow> int16" where
  "decodeALaw b =
    (let b = b XOR 0x55; sign = b AND 0x80;
         exponent = uint (drop_bit 4 b AND 0x07); mantissa = uint (b AND 0x0F);
         magnitude = (if exponent = 0 then push_bit 4 mantissa + 8
                      else push_bit (nat (exponent - 1)) (push_bit 4 mantissa + 0x108))
     in if sign = 0 then word_of_int (- magnitude) else word_of_int magnitude)"

definition muLawDecode :: "int16 list" where
  "muLawDecode = map (\<lambda>i. decodeMuLaw (word_of_int i)) [0..255]"

definition aLawDecode :: "int16 list" where
  "aLawDecode = map (\<lambda>i. decodeALaw (word_of_int i)) [0..255]"

section \<open>Buffers\<close>

definition FromG711 :: "byte list \<Rightarrow> G711 \<Rightarrow> int \<Rightarrow> int \<Rightarrow> audio_error + PCM" where
  "FromG711 data law sampleRate channels =
    (case validate FormatS16 sampleRate channels of
       Some e \<Rightarrow> Inl e
     | None \<Rightarrow>
        (if \<not> law_valid law then Inl InvalidLaw
         else
           let table = (if law = ALaw then aLawDecode else muLawDecode);
               data = take (length data - length data mod nat channels) data
           in case FromInt16 (map (\<lambda>b. table ! unat b) data) sampleRate channels of
                None \<Rightarrow> Inl BadSampleRate
              | Some p \<Rightarrow> Inr p))"

text \<open>\<open>resample\<close> converts a buffer to a format, rate and channel count.\<close>

definition ToG711 ::
    "(Format \<Rightarrow> int \<Rightarrow> int \<Rightarrow> PCM \<Rightarrow> audio_error + PCM) \<Rightarrow> PCM \<Rightarrow> G711 \<Rightarrow> audio_error + byte list" where
  "ToG711 resample p law =
    (if \<not> law_valid law then Inl InvalidLaw
     else
       case (if p_SampleRate p \<noteq> G711SampleRate
             then resample FormatS16 G711SampleRate (max 1 (p_Channels p)) p else Inr p) of
         Inl e \<Rightarrow> Inl e
       | Inr src \<Rightarrow>
          (let samples = Int16 (ToInt16 src);
               encode = (if law = ALaw then encodeALaw else encodeMuLaw)
           in Inr (map encode samples)))"

section \<open>Segments\<close>

lemma g711Exponent_nth: "0 \<le> i \<Longrightarrow> i < 256 \<Longrightarrow> g711Exponent ! nat i = min 7 (Len8 i)"
  using nth_upto[of 0 "nat i" 255] by (simp add: g711Exponent_def)

text \<open>The exponent and mantissa that both encoders compute of a magnitude.\<close>

definition segment :: "int \<Rightarrow> int" where
  "segment M = g711Exponent ! nat (drop_bit 8 M AND 0xFF)"

definition mantissa :: "int \<Rightarrow> int" where
  "mantissa M = drop_bit (nat (segment M + 3)) M AND 0x0F"

lemma and_mask: "(q::int) AND 0xFF = q mod 256" "q AND 0x0F = q mod 16"
  using take_bit_eq_mask[of 8 q] take_bit_eq_mask[of 4 q]
  by (simp_all add: take_bit_eq_mod mask_eq_exp_minus_1)

lemma segment_bounds:
  assumes "128 \<le> M" "M < 2 ^ 15"
  shows "0 \<le> segment M" "segment M \<le> 7" "2 ^ nat (segment M + 7) \<le> M" "M < 2 * 2 ^ nat (segment M + 7)"
proof -
  define q where "q = M div 256"
  have q: "0 \<le> q" "q < 2 ^ 7" using assms by (auto simp: q_def)
  have M: "q * 256 \<le> M" "M < (q + 1) * 256" unfolding q_def by (auto simp: algebra_simps)
  have s: "segment M = min 7 (Len8 q)"
    using q g711Exponent_nth[of q] by (simp add: segment_def drop_bit_eq_div and_mask q_def)
  have all: "0 \<le> segment M \<and> segment M \<le> 7 \<and> 2 ^ nat (segment M + 7) \<le> M \<and> M < 2 * 2 ^ nat (segment M + 7)"
  proof (cases "q = 0")
    case True
    then have "segment M = 0" using s by (simp add: Len8_def)
    then show ?thesis using assms M True by simp
  next
    case False
    define e where "e = floor_log2 q"
    have b: "0 \<le> e" "2 ^ nat e \<le> q" "q < 2 * 2 ^ nat e" "e < 7"
      using floor_log2_bounds[of q] floor_log2_lt[of q 7] q False by (auto simp: e_def)
    have "segment M = e + 1" using s False b by (simp add: Len8_def e_def)
    moreover have "(2::int) ^ nat (e + 1 + 7) = 2 ^ nat e * 256"
      using b by (simp add: nat_add_distrib power_add)
    moreover have "(q + 1) * 256 \<le> (2 * 2 ^ nat e) * 256" using b by (intro mult_right_mono) auto
    moreover have "2 ^ nat e * 256 \<le> q * 256" using b by simp
    ultimately show ?thesis using b M by auto
  qed
  then show "0 \<le> segment M" "segment M \<le> 7" "2 ^ nat (segment M + 7) \<le> M" "M < 2 * 2 ^ nat (segment M + 7)"
    by auto
qed

text \<open>The magnitude lies in the cell of \<open>8 * 2 ^ segment\<close> values that its mantissa names.\<close>

lemma mantissa_cell:
  assumes "128 \<le> M" "M < 2 ^ 15"
  defines "d \<equiv> 2 ^ nat (segment M)"
  shows "0 \<le> mantissa M" "mantissa M \<le> 15" "(16 + mantissa M) * (8 * d) \<le> M" "M < (17 + mantissa M) * (8 * d)"
    "16 * (8 * d) \<le> M" "0 < d"
proof -
  note s = segment_bounds[OF assms(1,2)]
  have d8: "(2::int) ^ nat (segment M + 3) = 8 * d" "(2::int) ^ nat (segment M + 7) = 16 * (8 * d)"
    using s(1) by (simp_all add: d_def nat_add_distrib power_add)
  show d: "0 < d" by (simp add: d_def)
  show M16: "16 * (8 * d) \<le> M" using s(3) d8 by simp
  define q where "q = M div (8 * d)"
  have M: "q * (8 * d) \<le> M" "M < (q + 1) * (8 * d)"
  proof -
    have "M = q * (8 * d) + M mod (8 * d)" unfolding q_def by (rule div_mult_mod_eq[symmetric])
    moreover have "0 \<le> M mod (8 * d)" "M mod (8 * d) < 8 * d" using d by simp_all
    ultimately show "q * (8 * d) \<le> M" "M < (q + 1) * (8 * d)" unfolding distrib_right by linarith+
  qed
  have "16 * (8 * d) < (q + 1) * (8 * d)" "q * (8 * d) < 32 * (8 * d)"
    using M M16 s(4) d8(2) by linarith+
  then have q: "16 \<le> q" "q < 32" using d by (simp_all add: mult_less_cancel_right)
  have "q mod 16 = (q - 16) mod 16" by (simp add: minus_mod_self2)
  also have "\<dots> = q - 16" using q by (intro mod_pos_pos_trivial) auto
  finally have "mantissa M = q - 16"
    by (simp add: mantissa_def d8 drop_bit_eq_div and_mask q_def)
  with M q
  show "0 \<le> mantissa M" "mantissa M \<le> 15" "(16 + mantissa M) * (8 * d) \<le> M" "M < (17 + mantissa M) * (8 * d)"
    by (auto simp: algebra_simps)
qed

section \<open>Companding\<close>

definition pack8 :: "byte \<Rightarrow> int \<Rightarrow> int \<Rightarrow> byte" where
  "pack8 sign e m = sign OR word_of_int (push_bit 4 e) OR word_of_int m"

lemma pack8_table:
  "list_all (\<lambda>e. list_all (\<lambda>m. list_all (\<lambda>sign. pack8 sign e m AND 0x80 = sign \<and>
     uint (drop_bit 4 (pack8 sign e m) AND 0x07) = e \<and> uint (pack8 sign e m AND 0x0F) = m) [0, 0x80]) [0..15]) [0..7]"
  by code_simp

lemma pack8_fields:
  assumes "sign = 0 \<or> sign = 0x80" "0 \<le> e" "e \<le> 7" "0 \<le> m" "m \<le> 15"
  shows "pack8 sign e m AND 0x80 = sign" "uint (drop_bit 4 (pack8 sign e m) AND 0x07) = e"
    "uint (pack8 sign e m AND 0x0F) = m"
  using pack8_table assms by (auto simp: list_all_iff)

lemma clip_magnitude_eq: "clip_magnitude s = min \<bar>sint s\<bar> 32635"
  using sint_range_size[of s] by (auto simp: clip_magnitude_def word_size Let_def)

lemma sint_small: "- 32768 \<le> k \<Longrightarrow> k \<le> 32767 \<Longrightarrow> sint (word_of_int k :: int16) = k"
  by transfer (simp add: signed_take_bit_int_eq_self)

lemma xor55: "((b :: byte) XOR 0x55) XOR 0x55 = b"
  by (simp add: xor.assoc)

abbreviation sgn16 :: "int16 \<Rightarrow> int" where "sgn16 s \<equiv> (if sint s < 0 then - 1 else 1)"

lemma mu_law_decoded:
  fixes s :: int16
  defines "M \<equiv> clip_magnitude s + 132"
  shows "sint (decodeMuLaw (encodeMuLaw s)) = sgn16 s * ((8 * mantissa M + 132) * 2 ^ nat (segment M) - 132)"
proof -
  have M: "128 \<le> M" "M < 2 ^ 15" by (auto simp: M_def clip_magnitude_eq)
  note seg = segment_bounds[OF M] and cell = mantissa_cell[OF M]
  define sign :: byte where "sign = (if sint s < 0 then 0x80 else 0)"
  define d where "d = (2::int) ^ nat (segment M)"
  have d: "1 \<le> d" "d \<le> 2 ^ 7"
    unfolding d_def using seg by (simp, intro power_increasing) auto
  have enc: "encodeMuLaw s = NOT (pack8 sign (segment M) (mantissa M))"
    by (simp add: encodeMuLaw_def Let_def pack8_def sign_def segment_def mantissa_def M_def)
  have p: "sign = 0 \<or> sign = 0x80" by (simp add: sign_def)
  note f = pack8_fields[OF p seg(1,2) cell(1,2)]
  define v where "v = (8 * mantissa M + 132) * d - 132"
  have "(8 * mantissa M + 132) * d \<le> 252 * 2 ^ 7" using cell(2) d by (intro mult_mono) auto
  moreover have "132 * 1 \<le> (8 * mantissa M + 132) * d" using cell(1) d by (intro mult_mono) auto
  ultimately have v: "0 \<le> v" "v \<le> 32767" by (auto simp: v_def)
  have "decodeMuLaw (encodeMuLaw s) = word_of_int (if sign \<noteq> 0 then - v else v)"
    by (simp only: decodeMuLaw_def enc Let_def bit.double_compl f)
       (simp add: push_bit_eq_mult v_def d_def mult.commute)
  then show ?thesis
    using v by (simp add: sint_small v_def[symmetric] d_def[symmetric] sign_def)
qed

lemma a_law_decoded:
  fixes s :: int16
  defines "M \<equiv> clip_magnitude s"
  shows "sint (decodeALaw (encodeALaw s)) = sgn16 s *
    (if 256 \<le> M then (8 * mantissa M + 132) * 2 ^ nat (segment M) else M div 16 * 16 + 8)"
proof -
  have M0: "0 \<le> M" "M < 2 ^ 15" by (auto simp: M_def clip_magnitude_eq)
  define sign :: byte where "sign = (if sint s < 0 then 0 else 0x80)"
  have p: "sign = 0 \<or> sign = 0x80" by (simp add: sign_def)
  show ?thesis
  proof (cases "256 \<le> M")
    case False
    define m where "m = M div 16"
    have m: "0 \<le> m" "m \<le> 15" using M0 False by (auto simp: m_def)
    have enc: "encodeALaw s = pack8 sign 0 m XOR 0x55"
      using False by (simp add: encodeALaw_def Let_def pack8_def sign_def M_def m_def drop_bit_eq_div)
    have f: "pack8 sign 0 m AND 0x80 = sign" "uint (drop_bit 4 (pack8 sign 0 m) AND 0x07) = 0"
      "uint (pack8 sign 0 m AND 0x0F) = m"
      by (rule pack8_fields[OF p _ _ m]; simp)+
    have "decodeALaw (encodeALaw s) = word_of_int (if sign = 0 then - (m * 16 + 8) else m * 16 + 8)"
      by (simp only: decodeALaw_def enc Let_def xor55 f) (simp add: push_bit_eq_mult)
    then show ?thesis using False m by (simp add: sint_small sign_def m_def[symmetric])
  next
    case True
    then have M: "128 \<le> M" "M < 2 ^ 15" using M0 by auto
    note seg = segment_bounds[OF M] and cell = mantissa_cell[OF M]
    define e where "e = segment M"
    have "segment M \<noteq> 0" using True seg(4) by auto
    then have e1: "1 \<le> e" using seg(1) by (simp add: e_def)
    then have d2: "(2::int) ^ nat e = 2 * 2 ^ nat (e - 1)"
      by (simp add: nat_diff_distrib power_Suc[symmetric] del: power_Suc)
    have enc: "encodeALaw s = pack8 sign e (mantissa M) XOR 0x55"
      using True by (simp add: encodeALaw_def Let_def pack8_def sign_def M_def e_def segment_def mantissa_def or.assoc)
    note f = pack8_fields[OF p seg(1,2) cell(1,2), folded e_def]
    define v where "v = (8 * mantissa M + 132) * 2 ^ nat e"
    have "(2::int) ^ nat e \<le> 2 ^ 7" using seg(2) e1 by (intro power_increasing) (auto simp: e_def)
    then have "v \<le> 252 * 2 ^ 7" unfolding v_def using cell(2) by (intro mult_mono) auto
    moreover have "0 \<le> v" using cell(1) by (simp add: v_def)
    moreover have "decodeALaw (encodeALaw s) = word_of_int (if sign = 0 then - v else v)"
      using e1 by (simp only: decodeALaw_def enc Let_def xor55 f)
        (simp add: push_bit_eq_mult v_def d2 algebra_simps)
    ultimately show ?thesis using True by (simp add: sint_small sign_def v_def[symmetric] e_def[symmetric])
  qed
qed

section \<open>Properties\<close>

lemma cell_centre:
  assumes M: "128 \<le> M" "M < 2 ^ 15"
  shows "32 * \<bar>(8 * mantissa M + 132) * 2 ^ nat (segment M) - M\<bar> \<le> M"
proof -
  define d where "d = (2::int) ^ nat (segment M)"
  have "(8 * mantissa M + 132) * d = (16 + mantissa M) * (8 * d) + 4 * d"
    "(17 + mantissa M) * (8 * d) = (16 + mantissa M) * (8 * d) + 8 * d"
    by (simp_all add: algebra_simps)
  with mantissa_cell[OF M, folded d_def]
  have "\<bar>(8 * mantissa M + 132) * d - M\<bar> \<le> 4 * d" "128 * d \<le> M" by auto
  then have "32 * \<bar>(8 * mantissa M + 132) * d - M\<bar> \<le> 32 * (4 * d)" "32 * (4 * d) \<le> M"
    by (simp_all only: mult_le_cancel_left) simp_all
  then show ?thesis unfolding d_def[symmetric] by (rule order_trans)
qed


text \<open>From a byte to its sample and back: the three fields of a byte name a cell, whose centre the
  decoders return, and the encoders find the same cell again.\<close>

lemma byte_all: "list_all (\<lambda>i. P (word_of_int i)) [0..255] \<Longrightarrow> P (b :: byte)"
proof -
  assume a: "list_all (\<lambda>i. P (word_of_int i)) [0..255]"
  have "uint b < 2 ^ 8" using uint_lt2p[of b] by simp
  then have "uint b \<in> set [0..255]" by simp
  with a have "P (word_of_int (uint b))" unfolding list_all_iff by blast
  then show ?thesis by simp
qed

lemma byte_fields:
  fixes p :: byte
  defines "sign \<equiv> p AND 0x80" and "e \<equiv> uint (drop_bit 4 p AND 0x07)" and "m \<equiv> uint (p AND 0x0F)"
  shows "sign = 0 \<or> sign = 0x80" "0 \<le> e" "e \<le> 7" "0 \<le> m" "m \<le> 15" "pack8 sign e m = p"
proof -
  have "(p AND 0x80 = 0 \<or> p AND 0x80 = 0x80) \<and> uint (drop_bit 4 p AND 0x07) \<le> 7 \<and> uint (p AND 0x0F) \<le> 15 \<and>
      pack8 (p AND 0x80) (uint (drop_bit 4 p AND 0x07)) (uint (p AND 0x0F)) = p"
    by (rule byte_all[of _ p]) code_simp
  then show "sign = 0 \<or> sign = 0x80" "0 \<le> e" "e \<le> 7" "0 \<le> m" "m \<le> 15" "pack8 sign e m = p"
    by (auto simp: sign_def e_def m_def)
qed

lemma decode_cell:
  assumes "0 \<le> e" "e \<le> 7" "0 \<le> m" "m \<le> 15" and M_def: "M = (8 * m + 132) * 2 ^ nat e"
  shows "132 \<le> M" "M \<le> 32256" "segment M = e" "mantissa M = m"
proof -
  define d where "d = (2::int) ^ nat e"
  have d: "1 \<le> d" unfolding d_def by simp
  have d7: "d \<le> 2 ^ 7" unfolding d_def using assms by (intro power_increasing) auto
  have "132 * 1 \<le> (8 * m + 132) * d" "(8 * m + 132) * d \<le> 252 * 2 ^ 7" using assms d d7 by (intro mult_mono; simp)+
  then show M: "132 \<le> M" "M \<le> 32256" by (auto simp: M_def d_def)
  then have M': "128 \<le> M" "M < 2 ^ 15" by auto
  note seg = segment_bounds[OF M']
  have "(8 * m + 132) * d < 256 * d" "128 * d \<le> (8 * m + 132) * d" using assms d by auto
  moreover have "(2::int) ^ nat (e + 7) = 128 * d" using assms by (simp add: d_def nat_add_distrib power_add)
  ultimately have "M < 2 ^ Suc (nat (e + 7))" "2 ^ nat (e + 7) \<le> M"
    by (auto simp: M_def d_def[symmetric])
  with seg(3,4) have "(2::int) ^ nat (segment M + 7) < 2 ^ Suc (nat (e + 7))" "(2::int) ^ nat (e + 7) < 2 ^ Suc (nat (segment M + 7))"
    by simp_all
  then have "nat (segment M + 7) < Suc (nat (e + 7))" "nat (e + 7) < Suc (nat (segment M + 7))"
    by (simp_all only: power_strict_increasing_iff[of "2::int"] one_less_numeral_iff semiring_norm)
  then show se: "segment M = e" using seg(1) assms by linarith
  note cell = mantissa_cell[OF M', unfolded se, folded d_def]
  have "M = (16 + m) * (8 * d) + 4 * d" by (simp add: M_def d_def algebra_simps)
  with cell have "(16 + mantissa M) * (8 * d) < (17 + m) * (8 * d)" "(16 + m) * (8 * d) < (17 + mantissa M) * (8 * d)"
    using d by (simp_all add: algebra_simps)
  then show "mantissa M = m" using d by (simp add: mult_less_cancel_right)
qed

lemma mu_law_bytes: "encodeMuLaw (decodeMuLaw b) = (if b = 0x7F then 0xFF else b)"
proof -
  define p where "p = NOT b"
  define sign e m where "sign = p AND 0x80" and "e = uint (drop_bit 4 p AND 0x07)" and "m = uint (p AND 0x0F)"
  note f = byte_fields[of p, folded sign_def e_def m_def]
  define M where "M = (8 * m + 132) * 2 ^ nat e"
  note c = decode_cell[OF f(2-5) M_def]
  define s where "s = decodeMuLaw b"
  have "s = word_of_int (if sign \<noteq> 0 then - (M - 132) else M - 132)"
    unfolding s_def decodeMuLaw_def Let_def p_def[symmetric] sign_def[symmetric] e_def[symmetric] m_def[symmetric]
    by (simp add: push_bit_eq_mult M_def mult.commute)
  then have s: "sint s = (if sign \<noteq> 0 then - (M - 132) else M - 132)" using c by (simp add: sint_small)
  have cm: "clip_magnitude s + 132 = M" using c s by (auto simp: clip_magnitude_eq)
  have enc: "encodeMuLaw s = NOT (pack8 (if sint s < 0 then 0x80 else 0) (segment M) (mantissa M))"
    by (simp add: encodeMuLaw_def Let_def pack8_def segment_def mantissa_def cm)
  show ?thesis
  proof (cases "M = 132")
    case False
    then have "(if sint s < 0 then 0x80 else 0) = sign" using s c f(1) by auto
    then have b: "encodeMuLaw s = b" using enc f(6) c by (simp add: p_def)
    have "b \<noteq> 0x7F"
    proof
      assume "b = 0x7F"
      then have "p = 0x80" by (simp add: p_def)
      with False show False by (simp add: M_def e_def m_def)
    qed
    with b show ?thesis by (simp add: s_def)
  next
    case True
    have "(8 * m + 132) * 1 \<le> M" unfolding M_def using f by (intro mult_mono) auto
    then have m: "m = 0" using True f(4) by simp
    then have "(2::int) ^ nat e = 2 ^ 0" using True by (simp add: M_def)
    then have "nat e = 0" by (simp only: power_inject_exp one_less_numeral_iff semiring_norm)
    then have e: "e = 0" using f(2) by simp
    have "encodeMuLaw s = 0xFF"
      using enc True s m e c by (simp add: pack8_def)
    moreover have "b = 0x7F \<or> b = 0xFF"
    proof -
      have "b = NOT sign" using f(6) m e by (simp add: pack8_def p_def)
      with f(1) show ?thesis by auto
    qed
    ultimately show ?thesis by (auto simp: s_def)
  qed
qed

lemma a_law_bytes: "encodeALaw (decodeALaw b) = b"
proof -
  define p where "p = b XOR 0x55"
  define sign e m where "sign = p AND 0x80" and "e = uint (drop_bit 4 p AND 0x07)" and "m = uint (p AND 0x0F)"
  note f = byte_fields[of p, folded sign_def e_def m_def]
  have b: "p XOR 0x55 = b" by (simp add: p_def xor55)
  define M where "M = (if e = 0 then 16 * m + 8 else (8 * m + 132) * 2 ^ nat e)"
  define s where "s = decodeALaw b"
  have M: "0 < M" "M \<le> 32256" "e \<noteq> 0 \<Longrightarrow> segment M = e \<and> mantissa M = m \<and> 256 \<le> M"
  proof -
    have "2 ^ 1 \<le> (2::int) ^ nat e" if "e \<noteq> 0" using that f by (intro power_increasing) auto
    then have "132 * 2 \<le> (8 * m + 132) * 2 ^ nat e" if "e \<noteq> 0" using that f by (intro mult_mono) auto
    with decode_cell[OF f(2-5) refl] f
    show "0 < M" "M \<le> 32256" "e \<noteq> 0 \<Longrightarrow> segment M = e \<and> mantissa M = m \<and> 256 \<le> M"
      by (auto simp: M_def)
  qed
  have d2: "(2::int) ^ nat e = 2 * 2 ^ nat (e - 1)" if "e \<noteq> 0"
    using that f by (simp add: nat_diff_distrib power_Suc[symmetric] del: power_Suc)
  have "s = word_of_int (if sign = 0 then - M else M)"
    unfolding s_def decodeALaw_def Let_def p_def[symmetric] sign_def[symmetric] e_def[symmetric] m_def[symmetric]
    by (simp add: push_bit_eq_mult M_def d2 algebra_simps)
  then have s: "sint s = (if sign = 0 then - M else M)" using M by (simp add: sint_small)
  have cm: "clip_magnitude s = M" using M s by (auto simp: clip_magnitude_eq)
  have sg: "(if sint s < 0 then 0 else 0x80) = sign" using s M f(1) by auto
  have "encodeALaw s = pack8 sign e m XOR 0x55"
  proof (cases "e = 0")
    case True
    then have "\<not> 256 \<le> M" "drop_bit 4 M = m" using f by (auto simp: M_def drop_bit_eq_div)
    then show ?thesis by (simp add: encodeALaw_def Let_def cm sg True pack8_def)
  next
    case False
    with M(3) have c: "segment M = e" "mantissa M = m" "256 \<le> M" by auto
    then show ?thesis
      unfolding c(1,2)[symmetric] by (simp add: encodeALaw_def Let_def cm sg pack8_def segment_def mantissa_def or.assoc)
  qed
  with f(6) b show ?thesis by (simp add: s_def)
qed

section \<open>Interfaces\<close>

text \<open>A-law is a codec of bytes, mu-law one of the bytes other than the negative zero.\<close>

interpretation alaw: codec decodeALaw "\<lambda>s. Some (encodeALaw s)" "\<lambda>_. True"
  by unfold_locales (simp add: a_law_bytes)

interpretation mulaw: codec decodeMuLaw "\<lambda>s. Some (encodeMuLaw s)" "\<lambda>b. b \<noteq> 0x7F"
  by unfold_locales (simp add: mu_law_bytes)

lemma table_nth: "muLawDecode ! unat b = decodeMuLaw b" "aLawDecode ! unat b = decodeALaw b"
proof -
  have "uint b \<le> 255" using uint_lt2p[of b] by simp
  then have "[0..255] ! unat b = uint b" using nth_upto[of 0 "unat b" 255] by simp
  moreover have "unat b < 256" using unsigned_less[of b] by simp
  ultimately show "muLawDecode ! unat b = decodeMuLaw b" "aLawDecode ! unat b = decodeALaw b"
    by (simp_all add: muLawDecode_def aLawDecode_def)
qed

lemma law_roundtrip:
  assumes "list_all (\<lambda>b. law = MuLaw \<longrightarrow> b \<noteq> 0x7F) data" "law_valid law"
  shows "map ((if law = ALaw then encodeALaw else encodeMuLaw) \<circ>
      (\<lambda>b. (if law = ALaw then aLawDecode else muLawDecode) ! unat b)) data = data"
  using assms alaw.decode_encode_all[of data] mulaw.decode_encode_all[of data]
  by (auto simp: law_valid_def list_all_iff table_nth comp_def)

text \<open>Telephony bytes survive decoding and encoding. For every byte the A-law code word is
  reproduced; mu-law reproduces every byte but \<open>0x7F\<close>, the negative zero, which comes back as the
  positive zero \<open>0xFF\<close>. On buffers: whole frames at 8 kHz without that byte pass through \<open>FromG711\<close> and
  \<open>ToG711\<close> unchanged, with no error and without the resampler.\<close>

theorem g711_bytes_roundtrip:
  assumes "law_valid law" "0 < channels" "length data mod nat channels = 0"
    "list_all (\<lambda>b. law = MuLaw \<longrightarrow> b \<noteq> 0x7F) data"
  shows "(\<exists>p. FromG711 data law 8000 channels = Inr p \<and> ToG711 resample p law = Inr data) \<and>
    encodeALaw (decodeALaw b) = b \<and> encodeMuLaw (decodeMuLaw b) = (if b = 0x7F then 0xFF else b)"
proof -
  define xs where "xs = map (\<lambda>b. (if law = ALaw then aLawDecode else muLawDecode) ! unat b) data"
  define p where "p = zero_PCM\<lparr>p_Format := FormatS16, p_SampleRate := 8000, p_Channels := channels, p_s16 := xs\<rparr>"
  have v: "validate FormatS16 8000 channels = None" using assms by (simp add: validate_def Valid_def)
  have "FromG711 data law 8000 channels = Inr p"
    using assms v by (simp add: FromG711_def FromInt16_def New_def NewChecked_def p_def xs_def)
  moreover have "ToG711 resample p law = Inr data"
    using assms law_roundtrip[OF assms(4,1)]
    by (simp add: ToG711_def G711SampleRate_def p_def Int16_def ToInt16_def zero_PCM_def xs_def comp_def)
  ultimately show ?thesis by (simp add: a_law_bytes mu_law_bytes)
qed

theorem g711_bytes_roundtrip_witness:
  "law_valid MuLaw \<and> list_all (\<lambda>b. b \<noteq> 0x7F) [0x00, 0x80 :: byte] \<and>
   (\<exists>p. FromG711 [0x00, 0x80] MuLaw 8000 2 = Inr p \<and>
      ToG711 (\<lambda>f sr ch p. Inl ResampleError) p MuLaw = Inr [0x00, 0x80]) \<and>
   encodeMuLaw (decodeMuLaw 0x7F) = 0xFF"
  using g711_bytes_roundtrip[of MuLaw 2 "[0x00, 0x80]" "\<lambda>f sr ch p. Inl ResampleError" "0x7F"]
  by (simp add: law_valid_def)

end
