(* ===== verification/Spec2Isabelle.thy ===== *)
theory Spec2Isabelle
  imports Support PeerStats PeerRecovery CoordEvents Websocket CoordSocket Client Red RateLimit Nack RtxProber Transport Reconnect IceRecovery AudioPcm Resample Wav Opus AudioWriter AudioReader Track TrackPump Participants RtcStats EventStore Signal Retry CallTracks CallRecovery G711
begin

text \<open>
  Verification of the Go client of GetStream's WebRTC calls. A program joins a call through the coordinator (a REST service), which
  names an SFU, the media server. The client speaks to the SFU over a websocket and RPCs (package \<open>signal\<close>) and exchanges media
  over two peer connections, one that publishes and one that subscribes (package \<open>pc\<close>, on the pion library). \<open>Call\<close> in \<open>call.go\<close>
  ties these together and recovers from losses; \<open>track\<close>, \<open>audio\<close> and \<open>internal/red\<close> produce and consume the media.

  \<^bold>\<open>Conventions\<close> (\<open>Prelude\<close>). Structs are records, Go's fixed-width integers are words or integers reduced to their width, durations are
  nanoseconds. Pointers that are shared are addresses of objects in a list (packets, awaiters, participants, peer connections, signalling clients). A panic is
  \<open>None\<close>, an error a value. What runs under one mutex is one step; where the code releases the mutex in
  between there are several, and the invariants hold for every interleaving. Code outside the repository and input and
  output answer through arguments, in the order they are asked. Logging is left out.

  \<^bold>\<open>Theories and sources\<close>
  \<^item> \<open>Red\<close>: \<open>internal/red\<close>. Payload layout, encoder, decoder, packetizer. The encoder's payload parses back and keeps its size bound; the
    decoder recovers a lost packet from the next ones and hands out every sequence number at most once, which it
    tracks in a bitmap refined to a set.
  \<^item> \<open>RateLimit\<close>: \<open>internal/ratelimit\<close>. No window of time sees more calls than the limit.
  \<^item> \<open>Nack\<close>: \<open>internal/nack\<close>. The ring buffer of sent packets, reference counting, the RTX form of a packet and the responder with its
    limits. No packet is used after its release, recent packets are found, and retransmissions stay within retries, interval and age.
  \<^item> \<open>Transport\<close>, \<open>IceRecovery\<close>: package \<open>pc\<close> and \<open>ice_recovery.go\<close>. The event loop as a machine: one offer at a time, an answer accepted only for it,
    renegotiation sent after it, the refused answer that stalls; the budget of ICE restarts.
  \<^item> \<open>Codecs\<close>, \<open>Peers\<close>, \<open>PeerRecovery\<close>: \<open>media_engine.go\<close>, \<open>publisher.go\<close>, \<open>subscriber.go\<close>. What a transceiver offers, the tracks an offer
    names, finding the owner of a track, and the life of a subscriber: its budgets of restarts, and how one that was detached still acts on the call.
  \<^item> \<open>PeerStats\<close>: the statistics of both peers and the worker that reports them; when they link to each other and when reporting stops.
  \<^item> \<open>Reconnect\<close>: \<open>reconnect.go\<close> and the monitor loop of \<open>call.go\<close>. Budgets of rejoins and fast reconnects; a first join ends.
  \<^item> \<open>RtxProber\<close>: \<open>interceptor\<close>. Padding on the RTX stream, within its budget.
  \<^item> \<open>Signal\<close>, \<open>EventStore\<close>: \<open>signal/client.go\<close>, \<open>websocket/wsconn.go\<close>, package \<open>event\<close>. Connecting, dispatch, detaching, timing; awaiters receive the first event
    they accept.
  \<^item> \<open>CoordEvents\<close>: the generated event union of \<open>coordinator\<close>: its four tables agree, a handler sees exactly the events of its kind and call.
  \<^item> \<open>Websocket\<close>: package \<open>websocket\<close>. Frames, control frames and the JSON codec; a read answers pings and returns the first payload.
  \<^item> \<open>Coordinator\<close>, \<open>CoordSocket\<close>: package \<open>coordinator\<close>. Paths, requests, errors and joins over REST; the websocket's connection, pings and loops.
  \<^item> \<open>ClientRetry\<close>, \<open>Client\<close>: \<open>client.go\<close>, \<open>location.go\<close>, \<open>buildinfo.go\<close>. Options, the backoff of a join, credentials, and the sockets that connecting
    twice leaves open.
  \<^item> \<open>CallTracks\<close>: what a call publishes and subscribes to, publish quality and options.
  \<^item> \<open>CallSession\<close>, \<open>CallRecovery\<close>: \<open>Join\<close>, rejoining, fast reconnect, migration and leaving in \<open>call.go\<close>, composed of \<open>Signal\<close>, \<open>CallTracks\<close> and \<open>Reconnect\<close>;
    what these keep of clients, peer connections and session ids, and how a migration goes wrong.
  \<^item> \<open>Participants\<close>: the participant store and its event handlers, related to the set of members.
  \<^item> \<open>RtcStats\<close>: trace buffers, delta compression, reports.
  \<^item> \<open>Track\<close>, \<open>TrackPump\<close>: package \<open>track\<close>. Sample times on the RTP clock, stamping of extensions; the life of a track and its single pump.
  \<^item> \<open>AudioPcm\<close>, \<open>G711\<close>, \<open>Resample\<close>, \<open>Wav\<close>: package \<open>audio\<close>. Sample conversion, chunking and streams, companding with its error bound, resampling of a
    stream equal to that of the whole, files that read back.
  \<^item> \<open>Opus\<close>, \<open>AudioWriter\<close>, \<open>AudioReader\<close>: \<open>audio/opus\<close>, \<open>audio/rtc\<close>. Whole frames to the codec and back; a bounded queue that drops its oldest samples
    under a continuous RTP timeline; packets put into time slots, gaps concealed.
  \<^item> \<open>Support\<close>: \<open>internal/xrand\<close>, \<open>internal/atomicx\<close>, \<open>pc/dtls_logger.go\<close>. Random identifiers are uniform, a value is computed once under any schedule.
  \<^item> \<open>Retry\<close>: \<open>internal/rtretry\<close>. Bounded retries of requests that may be repeated.

  \<^bold>\<open>Interfaces.\<close> The locales of \<open>Prelude\<close> are \<open>codec\<close> (interpreted for sample formats, PCM bytes and both G.711 laws), \<open>once_filter\<close> (the RED decoder)
  and \<open>invariant_machine\<close> (transport, ICE recovery, track pump, subscriber, values computed once); \<open>budget\<close> of \<open>RateLimit\<close> is the limiter's contract, on which \<open>Reconnect\<close> rests, and \<open>packet_history\<close>
  of \<open>Nack\<close> that of the ring buffer, on which the responder rests. Each is interpreted on the model's own definitions in the theory that
  provides it.

  \<^bold>\<open>Hypotheses about code outside the repository\<close>: \<open>proto_numbers\<close> (the numbering of the SFU's strategies), \<open>kernel_ok\<close> and \<open>all_kernels_ok\<close> (what
  the resampler relies on of its floating-point filter), \<open>pion_ok\<close> (pion's packetizer moves the RTP timestamp only when it skips or packetizes samples),
  \<open>skipset_ok\<close> and \<open>skipsets_ok\<close> (a sorted set inserts, removes and looks up), \<open>deque_ok\<close> (a deque holds a list), \<open>gopus_frames_ok\<close> (the codec decodes a packet to the frame
  it was made of), \<open>frame_reader_ok\<close> (the frame reader leaves the payload to be read), \<open>pion_names_ok\<close> (pion's MIME types
  differ), and that a trace marshals to a non-empty text. Each is met by
  a concrete instance in a witness.

  \<^bold>\<open>Bounds and fuel.\<close> No definition runs on fuel. Loops are structural recursion, or \<open>function\<close>s with a measure: the attempts left, the bytes left, the
  requests left. Loops that the code itself does not bound are partial functions with \<open>None\<close> for not returning (\<open>trim_queue\<close>, \<open>conn_Read\<close>,
  \<open>retry_loop\<close>, \<open>owner_loop\<close>, \<open>random_loop\<close>), proved to return where they do; the retries of a client that is given neither a limit nor a deadline are proved not to. The retries of a
  first join are twenty as in the code. Machine widths are the source's.

  \<^bold>\<open>Not modelled\<close>: the generated types of the coordinator's API (data without logic; the union of its events is in \<open>CoordEvents\<close>), its mocks and the code
  generator; \<open>join_sdp.go\<close> and the setting up of pion's API, which only call pion; the loggers; the interface of signal handlers and the generic wrappers
  of \<open>events.go\<close>; examples and test helpers.
\<close>

end
